(* ===== verification/S2_Prelude.thy ===== *)
theory S2_Prelude
  imports Main "HOL-Library.Word" "HOL-Library.Sublist"
begin

text \<open>
  Shared vocabulary of the development.  Go's fixed-width values keep their width
  (\<open>byte\<close>, \<open>u64\<close> are words, a signed \<open>int64\<close> is an \<open>int\<close> whose arithmetic is passed through
  \<open>i64\<close>); a Go \<open>string\<close> is a list of bytes (\<^typ>\<open>string\<close>); a nil-able pointer to a value is an
  \<^typ>\<open>'a option\<close>; a slice is a list; a \<open>time.Time\<close> is the number of nanoseconds since the zero
  time, so that \<open>IsZero\<close> is equality with 0; a \<open>time.Duration\<close> is an \<^typ>\<open>int\<close> of nanoseconds.
  The rest of the file holds the small generic facts the component theories share.
\<close>

section \<open>Collections of rewrite rules\<close>

named_theorems inv_intro "introduction rules for the component invariants"
named_theorems frame_simps "fields an operation leaves unchanged"

section \<open>Types\<close>

type_synonym byte = "8 word"
type_synonym u64 = "64 word"
type_synonym gotime = int
type_synonym duration = int

definition time_IsZero :: "gotime \<Rightarrow> bool" where
  "time_IsZero t \<longleftrightarrow> t = 0"

section \<open>Signed 64-bit arithmetic\<close>

definition i64 :: "int \<Rightarrow> int" where
  "i64 x = (x + 2 ^ 63) mod 2 ^ 64 - 2 ^ 63"

lemma i64_id: "- (2 ^ 63) \<le> x \<Longrightarrow> x < 2 ^ 63 \<Longrightarrow> i64 x = x"
  by (simp add: i64_def)

lemma i64_range: "- (2 ^ 63) \<le> i64 x" "i64 x < 2 ^ 63"
proof -
  have "0 \<le> (x + 2 ^ 63) mod 2 ^ 64" "(x + 2 ^ 63) mod 2 ^ 64 < 2 ^ 64"
    by simp_all
  then show "- (2 ^ 63) \<le> i64 x" "i64 x < 2 ^ 63"
    by (simp_all add: i64_def)
qed

lemma i64_nonneg_id [simp]: "0 \<le> x \<Longrightarrow> x < 9223372036854775808 \<Longrightarrow> i64 x = x"
  by (simp add: i64_def)

section \<open>Decimal rendering and substrings\<close>

text \<open>\<open>%d\<close> of \<open>fmt\<close>: decimal digits, with a sign for a negative number.\<close>

fun dec_nat :: "nat \<Rightarrow> string" where
  "dec_nat n =
     (if n < 10 then [char_of (48 + n)] else dec_nat (n div 10) @ [char_of (48 + n mod 10)])"

declare dec_nat.simps [simp del]

definition dec_int :: "int \<Rightarrow> string" where
  "dec_int i = (if i < 0 then ''-'' @ dec_nat (nat (- i)) else dec_nat (nat i))"

lemma dec_nat_nonempty [simp]: "dec_nat n \<noteq> []"
  by (subst dec_nat.simps) simp

text \<open>\<open>strings.Contains(s, sub)\<close>.\<close>

fun contains_sub :: "'a list \<Rightarrow> 'a list \<Rightarrow> bool" where
  "contains_sub sub [] = (sub = [])"
| "contains_sub sub (x # xs) = (prefix sub (x # xs) \<or> contains_sub sub xs)"

lemma contains_sub_iff: "contains_sub sub xs \<longleftrightarrow> (\<exists>us vs. xs = us @ sub @ vs)"
proof (induction xs)
  case Nil
  show ?case by auto
next
  case (Cons x xs)
  show ?case
  proof
    assume "contains_sub sub (x # xs)"
    then consider "prefix sub (x # xs)" | "contains_sub sub xs" by auto
    then show "\<exists>us vs. x # xs = us @ sub @ vs"
    proof cases
      case 1
      then show ?thesis by (metis append_Nil prefix_def)
    next
      case 2
      then obtain us vs where "xs = us @ sub @ vs" using Cons.IH by auto
      then have "x # xs = (x # us) @ sub @ vs" by simp
      then show ?thesis by blast
    qed
  next
    assume "\<exists>us vs. x # xs = us @ sub @ vs"
    then obtain us vs where eq: "x # xs = us @ sub @ vs" by blast
    show "contains_sub sub (x # xs)"
    proof (cases us)
      case Nil
      with eq have "prefix sub (x # xs)" by (simp add: prefix_def)
      then show ?thesis by simp
    next
      case (Cons u us')
      with eq have "xs = us' @ sub @ vs" by simp
      with Cons.IH show ?thesis by auto
    qed
  qed
qed

definition bytes_of :: "string \<Rightarrow> byte list" where
  "bytes_of s = map (\<lambda>c. word_of_nat (of_char c)) s"

definition string_of :: "byte list \<Rightarrow> string" where
  "string_of bs = map (\<lambda>b. char_of (unat b)) bs"

lemma length_bytes_of [simp]: "length (bytes_of s) = length s"
  by (simp add: bytes_of_def)

lemma string_of_bytes_of [simp]: "string_of (bytes_of s) = s"
proof -
  have "char_of (unat (word_of_nat (of_char c) :: byte)) = c" for c
  proof -
    have "unat (word_of_nat (of_char c) :: byte) = of_char c mod 256"
      by (simp add: unat_of_nat)
    then show ?thesis by simp
  qed
  then show ?thesis by (simp add: bytes_of_def string_of_def comp_def)
qed

section \<open>Sums of lists of integers\<close>

lemma sum_list_remove1: "n \<in> set xs \<Longrightarrow> sum_list (remove1 n xs) = sum_list xs - (n :: int)"
  by (induction xs) auto

lemma sum_list_nonneg_int: "\<forall>m\<in>set xs. 0 \<le> m \<Longrightarrow> 0 \<le> sum_list (xs :: int list)"
  by (rule sum_list_nonneg) simp

lemma member_le_sum_list:
  assumes "n \<in> set xs" "\<forall>m\<in>set xs. 0 \<le> m"
  shows "(n :: int) \<le> sum_list xs"
  using assms
proof (induction xs)
  case (Cons a xs)
  have "0 \<le> sum_list xs" by (rule sum_list_nonneg_int) (use Cons.prems in simp)
  with Cons show ?case by auto
qed simp

end
