(* ===== verification/Stream_Types.thy ===== *)
theory Stream_Types
  imports S2_Prelude
begin

text \<open>
  The data of \<open>src/s2/types.go\<close> that the append and read paths carry: positions, headers,
  records, batches, acknowledgements and the stream configuration, one record per Go struct.
  Field names are the source's, prefixed by the struct's initials because HOL record fields
  share one name space.  A \<open>*T\<close> field is a \<^typ>\<open>'a option\<close>; a \<open>[]byte\<close> is a \<^typ>\<open>byte list\<close>.
\<close>

section \<open>Positions and acknowledgements\<close>

record StreamPosition =
  sp_SeqNum :: u64
  sp_Timestamp :: u64

record TailResponse =
  tr_Tail :: StreamPosition

record AppendAck =
  aa_Start :: StreamPosition
  aa_End :: StreamPosition
  aa_Tail :: StreamPosition

definition zero_position :: StreamPosition where
  "zero_position = \<lparr>sp_SeqNum = 0, sp_Timestamp = 0\<rparr>"

section \<open>Headers and records\<close>

record Header =
  h_Name :: "byte list"
  h_Value :: "byte list"

definition NewHeader :: "string \<Rightarrow> string \<Rightarrow> Header" where
  "NewHeader name value = \<lparr>h_Name = bytes_of name, h_Value = bytes_of value\<rparr>"

record SequencedRecord =
  sr_Body :: "byte list"
  sr_Headers :: "Header list"
  sr_SeqNum :: u64
  sr_Timestamp :: u64

definition IsCommandRecord :: "SequencedRecord \<Rightarrow> bool" where
  "IsCommandRecord r \<longleftrightarrow>
     (case sr_Headers r of [h] \<Rightarrow> length (h_Name h) = 0 | _ \<Rightarrow> False)"

record ReadBatch =
  rb_Records :: "SequencedRecord list"
  rb_Tail :: "StreamPosition option"

text \<open>
  \<open>filterCommandRecords\<close> compacts the slice in place: the loop reads record \<open>i\<close> and appends it
  to the prefix of the same array.  The write index never passes the read index, so the loop
  below, which carries the kept prefix, computes the same slice.
\<close>

fun filterCommandRecords_loop :: "SequencedRecord list \<Rightarrow> SequencedRecord list \<Rightarrow> SequencedRecord list" where
  "filterCommandRecords_loop filtered [] = filtered"
| "filterCommandRecords_loop filtered (r # rs) =
     (if \<not> IsCommandRecord r then filterCommandRecords_loop (filtered @ [r]) rs
      else filterCommandRecords_loop filtered rs)"

definition filterCommandRecords :: "ReadBatch \<Rightarrow> ReadBatch" where
  "filterCommandRecords b = b\<lparr>rb_Records := filterCommandRecords_loop [] (rb_Records b)\<rparr>"

lemma filterCommandRecords_loop_eq:
  "filterCommandRecords_loop acc rs = acc @ filter (\<lambda>r. \<not> IsCommandRecord r) rs"
  by (induction rs arbitrary: acc) auto

lemma filterCommandRecords_eq [simp]:
  "rb_Records (filterCommandRecords b) = filter (\<lambda>r. \<not> IsCommandRecord r) (rb_Records b)"
  "rb_Tail (filterCommandRecords b) = rb_Tail b"
  by (simp_all add: filterCommandRecords_def filterCommandRecords_loop_eq)

record AppendRecord =
  ar_Timestamp :: "u64 option"
  ar_Headers :: "Header list"
  ar_Body :: "byte list"

section \<open>Stream configuration\<close>

record DeleteOnEmptyConfig =
  doe_MinAgeSecs :: "int option"

record RetentionPolicy =
  rp_Age :: "int option"
  rp_Infinite :: "unit option"

record TimestampingConfig =
  tc_Mode :: "string option"
  tc_Uncapped :: "bool option"

record StreamConfig =
  sc_DeleteOnEmpty :: "DeleteOnEmptyConfig option"
  sc_RetentionPolicy :: "RetentionPolicy option"
  sc_StorageClass :: "string option"
  sc_Timestamping :: "TimestampingConfig option"

section \<open>Requests\<close>

record AppendInput =
  ai_Records :: "AppendRecord list"
  ai_MatchSeqNum :: "u64 option"
  ai_FencingToken :: "string option"
  ai_StreamConfig :: "StreamConfig option"

record ReadOptions =
  ro_SeqNum :: "u64 option"
  ro_Timestamp :: "u64 option"
  ro_TailOffset :: "int option"
  ro_Count :: "u64 option"
  ro_Bytes :: "u64 option"
  ro_Wait :: "int option"
  ro_Until :: "u64 option"
  ro_Clamp :: "bool option"
  ro_IgnoreCommandRecords :: bool
  ro_StreamConfig :: "StreamConfig option"

definition empty_ReadOptions :: ReadOptions where
  "empty_ReadOptions = \<lparr>ro_SeqNum = None, ro_Timestamp = None, ro_TailOffset = None,
     ro_Count = None, ro_Bytes = None, ro_Wait = None, ro_Until = None, ro_Clamp = None,
     ro_IgnoreCommandRecords = False, ro_StreamConfig = None\<rparr>"

section \<open>Defensive copies\<close>

text \<open>
  The clone functions rebuild every pointer and slice.  On values the rebuilt copy is equal to
  the original, which is what \<open>clone_id\<close> collects; that the copy shares no memory with the
  caller is invisible in a model of values.
\<close>

definition cloneUint64Ptr :: "u64 option \<Rightarrow> u64 option" where
  "cloneUint64Ptr src = (case src of None \<Rightarrow> None | Some val \<Rightarrow> Some val)"

definition cloneStringPtr :: "string option \<Rightarrow> string option" where
  "cloneStringPtr src = (case src of None \<Rightarrow> None | Some val \<Rightarrow> Some val)"

definition cloneAppendRecord :: "AppendRecord \<Rightarrow> AppendRecord" where
  "cloneAppendRecord r =
     \<lparr>ar_Timestamp = (case ar_Timestamp r of None \<Rightarrow> None | Some ts \<Rightarrow> Some ts),
      ar_Headers = (if length (ar_Headers r) > 0
        then map (\<lambda>h. \<lparr>h_Name = [] @ h_Name h, h_Value = [] @ h_Value h\<rparr>) (ar_Headers r)
        else []),
      ar_Body = (if length (ar_Body r) > 0 then take (length (ar_Body r)) (ar_Body r) else [])\<rparr>"

definition cloneAppendRecords :: "AppendRecord list \<Rightarrow> AppendRecord list" where
  "cloneAppendRecords records = map cloneAppendRecord records"

definition cloneStreamConfigPtr :: "StreamConfig option \<Rightarrow> StreamConfig option" where
  "cloneStreamConfigPtr src = (case src of None \<Rightarrow> None | Some s \<Rightarrow> Some
     (let clone = s;
          clone = (case sc_DeleteOnEmpty s of None \<Rightarrow> clone
            | Some d \<Rightarrow> clone\<lparr>sc_DeleteOnEmpty := Some
                (case doe_MinAgeSecs d of None \<Rightarrow> d
                 | Some m \<Rightarrow> d\<lparr>doe_MinAgeSecs := Some m\<rparr>)\<rparr>);
          clone = (case sc_RetentionPolicy s of None \<Rightarrow> clone
            | Some p \<Rightarrow> clone\<lparr>sc_RetentionPolicy := Some
                (let q = (case rp_Age p of None \<Rightarrow> p | Some a \<Rightarrow> p\<lparr>rp_Age := Some a\<rparr>)
                 in case rp_Infinite p of None \<Rightarrow> q | Some i \<Rightarrow> q\<lparr>rp_Infinite := Some i\<rparr>)\<rparr>);
          clone = (case sc_StorageClass s of None \<Rightarrow> clone
            | Some c \<Rightarrow> clone\<lparr>sc_StorageClass := Some c\<rparr>)
      in case sc_Timestamping s of None \<Rightarrow> clone
         | Some t \<Rightarrow> clone\<lparr>sc_Timestamping := Some
             (let u = (case tc_Mode t of None \<Rightarrow> t | Some m \<Rightarrow> t\<lparr>tc_Mode := Some m\<rparr>)
              in case tc_Uncapped t of None \<Rightarrow> u | Some c \<Rightarrow> u\<lparr>tc_Uncapped := Some c\<rparr>)\<rparr>))"

definition cloneAppendInput :: "AppendInput option \<Rightarrow> AppendInput option" where
  "cloneAppendInput input = (case input of None \<Rightarrow> None | Some i \<Rightarrow> Some
     \<lparr>ai_Records = cloneAppendRecords (ai_Records i),
      ai_MatchSeqNum = cloneUint64Ptr (ai_MatchSeqNum i),
      ai_FencingToken = cloneStringPtr (ai_FencingToken i),
      ai_StreamConfig = cloneStreamConfigPtr (ai_StreamConfig i)\<rparr>)"

definition cloneReadSessionOptions :: "ReadOptions option \<Rightarrow> ReadOptions option" where
  "cloneReadSessionOptions opts = (case opts of None \<Rightarrow> None | Some s \<Rightarrow> Some
     (let clone = s;
          clone = (case ro_SeqNum s of None \<Rightarrow> clone | Some v \<Rightarrow> clone\<lparr>ro_SeqNum := Some v\<rparr>);
          clone = (case ro_Timestamp s of None \<Rightarrow> clone | Some v \<Rightarrow> clone\<lparr>ro_Timestamp := Some v\<rparr>);
          clone = (case ro_TailOffset s of None \<Rightarrow> clone | Some v \<Rightarrow> clone\<lparr>ro_TailOffset := Some v\<rparr>);
          clone = (case ro_Count s of None \<Rightarrow> clone | Some v \<Rightarrow> clone\<lparr>ro_Count := Some v\<rparr>);
          clone = (case ro_Bytes s of None \<Rightarrow> clone | Some v \<Rightarrow> clone\<lparr>ro_Bytes := Some v\<rparr>);
          clone = (case ro_Wait s of None \<Rightarrow> clone | Some v \<Rightarrow> clone\<lparr>ro_Wait := Some v\<rparr>);
          clone = (case ro_Until s of None \<Rightarrow> clone | Some v \<Rightarrow> clone\<lparr>ro_Until := Some v\<rparr>);
          clone = (case ro_Clamp s of None \<Rightarrow> clone | Some v \<Rightarrow> clone\<lparr>ro_Clamp := Some v\<rparr>)
      in clone\<lparr>ro_StreamConfig := cloneStreamConfigPtr (ro_StreamConfig s)\<rparr>))"

lemma cloneUint64Ptr_id [simp]: "cloneUint64Ptr p = p"
  by (simp add: cloneUint64Ptr_def split: option.splits)

lemma cloneStringPtr_id [simp]: "cloneStringPtr p = p"
  by (simp add: cloneStringPtr_def split: option.splits)

lemma cloneAppendRecord_id [simp]: "cloneAppendRecord r = r"
  by (cases r) (simp add: cloneAppendRecord_def map_idI split: option.splits)

lemma cloneAppendRecords_id [simp]: "cloneAppendRecords rs = rs"
  by (simp add: cloneAppendRecords_def map_idI)

lemma cloneStreamConfigPtr_id [simp]: "cloneStreamConfigPtr p = p"
proof (cases p)
  case (Some s)
  then show ?thesis
    by (cases s) (auto simp: cloneStreamConfigPtr_def Let_def split: option.splits)
qed (simp add: cloneStreamConfigPtr_def)

lemma cloneAppendInput_id [simp]: "cloneAppendInput i = i"
  by (simp add: cloneAppendInput_def split: option.splits)

lemma cloneReadSessionOptions_id [simp]: "cloneReadSessionOptions p = p"
proof (cases p)
  case (Some s)
  then show ?thesis
    by (cases s) (simp add: cloneReadSessionOptions_def Let_def split: option.splits)
qed (simp add: cloneReadSessionOptions_def)

end
