(* ===== verification/Errors.thy ===== *)
theory Errors
  imports Stream_Types
begin

text \<open>
  The error values of the SDK (\<open>src/s2/error.go\<close>) and the classification every retry decision
  rests on: \<open>IsRetryable\<close>, \<open>HasNoSideEffects\<close>, \<open>withPriorUncertainty\<close>, \<open>isServerDraining\<close>
  (\<open>src/s2/reconnect.go\<close>), \<open>isExpectedFrameReadError\<close>, \<open>isRetryableReadError\<close> and
  \<open>shouldRetryError\<close> (\<open>src/s2/stream.go\<close>) and the decoding of an API error body.

  A Go \<open>error\<close> is a value of \<open>goerr\<close>: one constructor per error type the code distinguishes, with
  what the type wraps.  \<open>err_chain\<close> is the pre-order walk that \<open>errors.Is\<close> and \<open>errors.As\<close> make
  over \<open>Unwrap\<close>.  Decoding of JSON bodies (\<open>encoding/json\<close> into a map, an \<open>ErrorInfo\<close> or a
  \<open>TailResponse\<close>) is the record \<open>json_codec\<close>, a parameter of the decoder.
\<close>

section \<open>Error values\<close>

record S2Error =
  e_Message :: string
  e_Code :: string
  e_Status :: int
  e_Origin :: string

datatype sentinel =
    ErrSessionClosed | ErrTimeout | ErrMaxAttemptsExhausted
  | Canceled | DeadlineExceeded
  | IoEOF | IoErrUnexpectedEOF | IoErrClosedPipe | NetErrClosed | HttpErrBodyReadAfterClose
  | ErrReconnectAdvised

datatype goerr =
    Sentinel sentinel
  | S2E S2Error
  | SeqNumMismatchError S2Error u64
  | FencingTokenMismatchError S2Error string
  | RangeNotSatisfiableError S2Error "StreamPosition option"
  | AppendIndefiniteFailureError goerr
  | Errorf string "goerr list"
  | NetError string
  | NetOpError string goerr
  | UrlError string goerr
  | H2StreamError string
  | H2GoAwayError string
  | OpaqueError string

fun unwrap :: "goerr \<Rightarrow> goerr list" where
  "unwrap (SeqNumMismatchError e _) = [S2E e]"
| "unwrap (FencingTokenMismatchError e _) = [S2E e]"
| "unwrap (RangeNotSatisfiableError e _) = [S2E e]"
| "unwrap (AppendIndefiniteFailureError e) = [e]"
| "unwrap (Errorf _ es) = es"
| "unwrap (NetOpError _ e) = [e]"
| "unwrap (UrlError _ e) = [e]"
| "unwrap _ = []"

fun err_chain :: "goerr \<Rightarrow> goerr list" where
  "err_chain (SeqNumMismatchError e n) = [SeqNumMismatchError e n, S2E e]"
| "err_chain (FencingTokenMismatchError e t) = [FencingTokenMismatchError e t, S2E e]"
| "err_chain (RangeNotSatisfiableError e t) = [RangeNotSatisfiableError e t, S2E e]"
| "err_chain (AppendIndefiniteFailureError e) = AppendIndefiniteFailureError e # err_chain e"
| "err_chain (Errorf m es) = Errorf m es # concat (map err_chain es)"
| "err_chain (NetOpError m e) = NetOpError m e # err_chain e"
| "err_chain (UrlError m e) = UrlError m e # err_chain e"
| "err_chain e = [e]"

lemma err_chain_unwrap: "err_chain e = e # concat (map err_chain (unwrap e))"
  by (cases e) auto

lemma err_chain_self [simp]: "e \<in> set (err_chain e)"
  by (subst err_chain_unwrap) simp

lemma err_chain_size: "x \<in> set (err_chain e) \<Longrightarrow> size x \<le> size e"
proof (induction e rule: err_chain.induct)
  case (5 m es)
  show ?case
  proof (cases "x = Errorf m es")
    case False
    with "5.prems" obtain e where e: "e \<in> set es" "x \<in> set (err_chain e)" by auto
    then have "size x \<le> size e" by (rule "5.IH")
    also have "size e \<le> size_list size es" using e(1) by (rule size_list_estimation') simp
    finally show ?thesis by simp
  qed simp
qed auto

text \<open>\<open>errors.Is(err, s)\<close> for the sentinel values, and \<open>errors.As\<close> for each target type in use.\<close>

definition errors_Is :: "goerr \<Rightarrow> sentinel \<Rightarrow> bool" where
  "errors_Is err s \<longleftrightarrow> Sentinel s \<in> set (err_chain err)"

definition chain_find :: "(goerr \<Rightarrow> 'a option) \<Rightarrow> goerr \<Rightarrow> 'a option" where
  "chain_find f err = (case List.find (\<lambda>e. f e \<noteq> None) (err_chain err) of
     None \<Rightarrow> None | Some e \<Rightarrow> f e)"

fun as_S2Error_node :: "goerr \<Rightarrow> S2Error option" where
  "as_S2Error_node (S2E e) = Some e"
| "as_S2Error_node _ = None"

definition errors_As_S2Error :: "goerr \<Rightarrow> S2Error option" where
  "errors_As_S2Error err = chain_find as_S2Error_node err"

fun is_indefinite :: "goerr \<Rightarrow> bool" where
  "is_indefinite (AppendIndefiniteFailureError _) = True"
| "is_indefinite _ = False"

text \<open>The types with \<open>Timeout() bool\<close> and \<open>Temporary() bool\<close>, i.e. the \<open>net.Error\<close>s: every
  \<open>*net.OpError\<close> and \<open>*url.Error\<close>, \<open>context.DeadlineExceeded\<close>, and the other ones (\<open>NetError\<close>).\<close>

fun is_net_Error :: "goerr \<Rightarrow> bool" where
  "is_net_Error (NetError _) = True"
| "is_net_Error (NetOpError _ _) = True"
| "is_net_Error (UrlError _ _) = True"
| "is_net_Error (Sentinel s) = (s = DeadlineExceeded)"
| "is_net_Error _ = False"

fun is_OpError :: "goerr \<Rightarrow> bool" where
  "is_OpError (NetOpError _ _) = True"
| "is_OpError _ = False"

fun url_Err :: "goerr \<Rightarrow> goerr option" where
  "url_Err (UrlError _ e) = Some e"
| "url_Err _ = None"

fun op_Err :: "goerr \<Rightarrow> goerr option" where
  "op_Err (NetOpError _ e) = Some e"
| "op_Err _ = None"

fun is_StreamError :: "goerr \<Rightarrow> bool" where
  "is_StreamError (H2StreamError _) = True"
| "is_StreamError _ = False"

fun is_GoAwayError :: "goerr \<Rightarrow> bool" where
  "is_GoAwayError (H2GoAwayError _) = True"
| "is_GoAwayError _ = False"

lemma chain_find_Some: "chain_find f err = Some v \<Longrightarrow> \<exists>e \<in> set (err_chain err). f e = Some v"
  by (force simp: chain_find_def find_Some_iff split: option.splits)

lemma url_Err_size: "chain_find url_Err err = Some e \<Longrightarrow> size e < size err"
proof -
  assume "chain_find url_Err err = Some e"
  then obtain x where x: "x \<in> set (err_chain err)" "url_Err x = Some e"
    by (auto dest: chain_find_Some)
  from x(2) have "size e < size x" by (cases x) auto
  with err_chain_size [OF x(1)] show ?thesis by simp
qed

lemma op_Err_size: "chain_find op_Err err = Some e \<Longrightarrow> size e < size err"
proof -
  assume "chain_find op_Err err = Some e"
  then obtain x where x: "x \<in> set (err_chain err)" "op_Err x = Some e"
    by (auto dest: chain_find_Some)
  from x(2) have "size e < size x" by (cases x) auto
  with err_chain_size [OF x(1)] show ?thesis by simp
qed

section \<open>Error texts\<close>

definition S2Error_Error :: "S2Error \<Rightarrow> string" where
  "S2Error_Error e =
     (if e_Code e \<noteq> '''' then
        ''S2 API error '' @ e_Code e @ '': '' @ e_Message e @ '' (HTTP '' @ dec_int (e_Status e) @ '')''
      else ''S2 API error: '' @ e_Message e @ '' (HTTP '' @ dec_int (e_Status e) @ '')'')"

fun sentinel_text :: "sentinel \<Rightarrow> string" where
  "sentinel_text ErrSessionClosed = ''session closed''"
| "sentinel_text ErrTimeout = ''operation timed out''"
| "sentinel_text ErrMaxAttemptsExhausted = ''max attempts exhausted''"
| "sentinel_text Canceled = ''context canceled''"
| "sentinel_text DeadlineExceeded = ''context deadline exceeded''"
| "sentinel_text IoEOF = ''EOF''"
| "sentinel_text IoErrUnexpectedEOF = ''unexpected EOF''"
| "sentinel_text IoErrClosedPipe = ''io: read/write on closed pipe''"
| "sentinel_text NetErrClosed = ''use of closed network connection''"
| "sentinel_text HttpErrBodyReadAfterClose = ''http: invalid Read on closed Body''"
| "sentinel_text ErrReconnectAdvised = ''reconnect advised''"

fun Error :: "goerr \<Rightarrow> string" where
  "Error (Sentinel s) = sentinel_text s"
| "Error (S2E e) = S2Error_Error e"
| "Error (SeqNumMismatchError e _) = S2Error_Error e"
| "Error (FencingTokenMismatchError e _) = S2Error_Error e"
| "Error (RangeNotSatisfiableError e _) = S2Error_Error e"
| "Error (AppendIndefiniteFailureError e) =
     ''append may have taken effect in an earlier attempt; final attempt failed: '' @ Error e"
| "Error (Errorf m _) = m"
| "Error (NetError m) = m"
| "Error (NetOpError m _) = m"
| "Error (UrlError m _) = m"
| "Error (H2StreamError m) = m"
| "Error (H2GoAwayError m) = m"
| "Error (OpaqueError m) = m"

text \<open>\<open>fmt.Errorf("prefix: %w", err)\<close> and \<open>fmt.Errorf\<close> without a \<open>%w\<close> verb.\<close>

definition errorf_w :: "string \<Rightarrow> goerr \<Rightarrow> goerr" where
  "errorf_w pre err = Errorf (pre @ Error err) [err]"

definition errorf :: "string \<Rightarrow> goerr" where
  "errorf msg = Errorf msg []"

section \<open>Classification\<close>

record errorCodeInfo =
  ci_status :: int
  ci_retryable :: bool
  ci_noSideEffects :: bool

definition code_info :: "int \<Rightarrow> bool \<Rightarrow> bool \<Rightarrow> errorCodeInfo" where
  "code_info s r n = \<lparr>ci_status = s, ci_retryable = r, ci_noSideEffects = n\<rparr>"

definition errorCodes_list :: "(string \<times> errorCodeInfo) list" where
  "errorCodes_list = [
    (''access_token_not_found'', code_info 404 False True),
    (''authn'', code_info 401 False True),
    (''bad_frame'', code_info 400 False True),
    (''bad_header'', code_info 400 False True),
    (''bad_json'', code_info 400 False True),
    (''bad_path'', code_info 400 False True),
    (''bad_proto'', code_info 400 False True),
    (''bad_query'', code_info 400 False True),
    (''basin_deletion_pending'', code_info 409 False True),
    (''basin_not_found'', code_info 404 False True),
    (''client_hangup'', code_info 499 False False),
    (''decryption_failed'', code_info 400 False True),
    (''hot_server'', code_info 502 True True),
    (''invalid'', code_info 422 False True),
    (''not_implemented'', code_info 501 False True),
    (''other'', code_info 500 True False),
    (''permission_denied'', code_info 403 False True),
    (''quota_exhausted'', code_info 403 False True),
    (''rate_limited'', code_info 429 True True),
    (''request_timeout'', code_info 408 True False),
    (''resource_already_exists'', code_info 409 False True),
    (''server_draining'', code_info 503 True True),
    (''storage'', code_info 500 True False),
    (''stream_deletion_pending'', code_info 409 False True),
    (''stream_not_found'', code_info 404 False True),
    (''transaction_conflict'', code_info 409 True True),
    (''unavailable'', code_info 503 True False),
    (''upstream_timeout'', code_info 504 True False),
    (''APPEND_CONDITION_FAILED'', code_info 412 False True)]"

definition errorCodes :: "string \<Rightarrow> errorCodeInfo option" where
  "errorCodes = map_of errorCodes_list"

definition isRetryableStatus :: "int \<Rightarrow> bool" where
  "isRetryableStatus status \<longleftrightarrow> status \<in> {408, 429, 500, 502, 503, 504}"

definition newValidationError :: "string \<Rightarrow> goerr" where
  "newValidationError message =
     S2E \<lparr>e_Message = message, e_Code = ''VALIDATION'', e_Status = 0, e_Origin = ''sdk''\<rparr>"

definition IsRetryable :: "S2Error \<Rightarrow> bool" where
  "IsRetryable e =
     (if e_Status e = 0 then False
      else case (if e_Origin e = ''server'' then errorCodes (e_Code e) else None) of
             Some info \<Rightarrow> ci_status info = e_Status e \<and> ci_retryable info
           | None \<Rightarrow> isRetryableStatus (e_Status e))"

definition S2Error_HasNoSideEffects :: "S2Error \<Rightarrow> bool" where
  "S2Error_HasNoSideEffects e =
     (if e_Origin e \<noteq> ''server'' then False
      else case errorCodes (e_Code e) of
             None \<Rightarrow> False
           | Some info \<Rightarrow> ci_status info = e_Status e \<and> ci_noSideEffects info)"

definition IsNetworkError :: "S2Error \<Rightarrow> bool" where
  "IsNetworkError e \<longleftrightarrow> e_Origin e = ''network''"

definition HasNoSideEffects :: "goerr \<Rightarrow> bool" where
  "HasNoSideEffects err =
     (if \<exists>e \<in> set (err_chain err). is_indefinite e then False
      else case errors_As_S2Error err of None \<Rightarrow> False | Some s2Err \<Rightarrow> S2Error_HasNoSideEffects s2Err)"

definition withPriorUncertainty :: "goerr \<Rightarrow> bool \<Rightarrow> goerr" where
  "withPriorUncertainty err priorUncertainty =
     (if \<not> priorUncertainty \<or> \<not> HasNoSideEffects err then err
      else AppendIndefiniteFailureError err)"

definition isServerDraining :: "goerr \<Rightarrow> bool" where
  "isServerDraining err = (case errors_As_S2Error err of None \<Rightarrow> False
     | Some s2Err \<Rightarrow> e_Status s2Err = 503 \<and> e_Code s2Err = ''server_draining'')"

definition isNoSideEffectsError :: "goerr \<Rightarrow> bool" where
  "isNoSideEffectsError err = (case errors_As_S2Error err of None \<Rightarrow> False
     | Some s2Err \<Rightarrow> S2Error_HasNoSideEffects s2Err)"

lemma HasNoSideEffects_indefinite [simp]:
  "\<not> HasNoSideEffects (AppendIndefiniteFailureError err)"
  by (simp add: HasNoSideEffects_def)

lemma HasNoSideEffects_withPriorUncertainty [simp]:
  "HasNoSideEffects (withPriorUncertainty err pu) \<longleftrightarrow> HasNoSideEffects err \<and> \<not> pu"
  by (auto simp: withPriorUncertainty_def)

lemma HasNoSideEffects_isNoSideEffectsError:
  "HasNoSideEffects err \<Longrightarrow> isNoSideEffectsError err"
  by (simp add: HasNoSideEffects_def isNoSideEffectsError_def split: if_splits)

lemma as_S2Error_node_Some [simp]: "as_S2Error_node e = Some s \<longleftrightarrow> e = S2E s"
  by (cases e) auto

lemma errors_As_S2Error_simps [simp]:
  "errors_As_S2Error (S2E e) = Some e"
  "errors_As_S2Error (Sentinel s) = None"
  "errors_As_S2Error (SeqNumMismatchError e n) = Some e"
  "errors_As_S2Error (FencingTokenMismatchError e t) = Some e"
  "errors_As_S2Error (RangeNotSatisfiableError e p) = Some e"
  "errors_As_S2Error (AppendIndefiniteFailureError err) = errors_As_S2Error err"
  "errors_As_S2Error (NetError m) = None"
  "errors_As_S2Error (OpaqueError m) = None"
  "errors_As_S2Error (Errorf m []) = None"
  by (simp_all add: errors_As_S2Error_def chain_find_def)

lemma errors_As_S2Error_errorf_w [simp]:
  "errors_As_S2Error (errorf_w pre err) = errors_As_S2Error err"
  by (simp add: errors_As_S2Error_def chain_find_def errorf_w_def)

lemma errors_As_S2Error_errorf [simp]: "errors_As_S2Error (errorf msg) = None"
  by (simp add: errorf_def)

section \<open>Errors of the read path\<close>

text \<open>
  \<open>isExpectedFrameReadError\<close> recurses into the error inside the first \<open>*url.Error\<close> or
  \<open>*net.OpError\<close> of the chain; the inner error is smaller, which is the termination argument.
\<close>

definition expected_sentinel :: "goerr \<Rightarrow> bool" where
  "expected_sentinel err \<longleftrightarrow>
     errors_Is err IoEOF \<or> errors_Is err IoErrClosedPipe \<or> errors_Is err NetErrClosed \<or>
     errors_Is err Canceled \<or> errors_Is err DeadlineExceeded \<or>
     errors_Is err HttpErrBodyReadAfterClose"

function isExpectedFrameReadError :: "goerr \<Rightarrow> bool" where
  "isExpectedFrameReadError err =
     (if expected_sentinel err then True
      else if contains_sub ''response body closed'' (Error err) \<or>
              contains_sub ''body closed'' (Error err) then True
      else case chain_find url_Err err of
             Some e \<Rightarrow> isExpectedFrameReadError e
           | None \<Rightarrow>
               (case chain_find op_Err err of
                  Some e \<Rightarrow> isExpectedFrameReadError e
                | None \<Rightarrow> False))"
  by pat_completeness auto
termination
  by (relation "measure size") (auto dest: url_Err_size op_Err_size)

declare isExpectedFrameReadError.simps [simp del]

text \<open>\<open>strings.ToLower\<close> on the bytes of the message; only ASCII letters matter for the match.\<close>

definition lower_char :: "char \<Rightarrow> char" where
  "lower_char c = (let n = (of_char c :: nat) in if 65 \<le> n \<and> n \<le> 90 then char_of (n + 32) else c)"

definition isRetryableReadError :: "goerr option \<Rightarrow> goerr \<Rightarrow> bool" where
  "isRetryableReadError ctxErr err =
     (if ctxErr \<noteq> None then False
      else case errors_As_S2Error err of
             Some s2Err \<Rightarrow> IsRetryable s2Err
           | None \<Rightarrow>
               (\<exists>e \<in> set (err_chain err). is_net_Error e) \<or>
               (\<exists>e \<in> set (err_chain err). is_StreamError e) \<or>
               (\<exists>e \<in> set (err_chain err). is_GoAwayError e) \<or>
               contains_sub ''http2: client connection lost'' (map lower_char (Error err)) \<or>
               errors_Is err IoErrUnexpectedEOF \<or> errors_Is err IoEOF \<or>
               errors_Is err HttpErrBodyReadAfterClose)"

definition isStreamResetError :: "goerr \<Rightarrow> bool" where
  "isStreamResetError err \<longleftrightarrow> (\<exists>e \<in> set (err_chain err). is_StreamError e)"

definition makeStreamResetError :: "goerr option \<Rightarrow> string \<Rightarrow> goerr" where
  "makeStreamResetError err context = S2E
     \<lparr>e_Message = (case err of
         Some e \<Rightarrow> ''Stream reset during '' @ context @ '': '' @ Error e
       | None \<Rightarrow> ''Stream reset during '' @ context),
      e_Code = ''STREAM_RESET'', e_Status = 502, e_Origin = ''network''\<rparr>"

section \<open>Decoding API errors\<close>

text \<open>
  A JSON value as \<open>encoding/json\<close> yields it for an \<open>interface{}\<close>; a number is the \<open>float64\<close>
  \<open>m * 2 ^ e\<close>.  Converting it with \<open>uint64(...)\<close> truncates towards zero (the model wraps where Go
  leaves the result to the platform, i.e. outside \<open>[0, 2^64)\<close>).
\<close>

datatype json_value =
    JNull | JBool bool | JFloat int int | JString string
  | JArray "json_value list" | JObject "(string \<times> json_value) list"

definition float_trunc :: "int \<Rightarrow> int \<Rightarrow> int" where
  "float_trunc m e = (if 0 \<le> e then m * 2 ^ nat e else sgn m * (\<bar>m\<bar> div 2 ^ nat (- e)))"

record ErrorInfo =
  ei_Code :: string
  ei_Message :: string

record json_codec =
  jc_map :: "byte list \<Rightarrow> (string \<times> json_value) list option"
  jc_ErrorInfo :: "byte list \<Rightarrow> ErrorInfo option"
  jc_TailResponse :: "byte list \<Rightarrow> TailResponse option"

text \<open>The white space \<open>bytes.TrimSpace\<close> removes: the Unicode White\_Space runes in UTF-8.\<close>

definition space_runes :: "byte list list" where
  "space_runes = [[9], [10], [11], [12], [13], [32], [0xC2, 0x85], [0xC2, 0xA0],
     [0xE1, 0x9A, 0x80], [0xE2, 0x80, 0x80], [0xE2, 0x80, 0x81], [0xE2, 0x80, 0x82],
     [0xE2, 0x80, 0x83], [0xE2, 0x80, 0x84], [0xE2, 0x80, 0x85], [0xE2, 0x80, 0x86],
     [0xE2, 0x80, 0x87], [0xE2, 0x80, 0x88], [0xE2, 0x80, 0x89], [0xE2, 0x80, 0x8A],
     [0xE2, 0x80, 0xA8], [0xE2, 0x80, 0xA9], [0xE2, 0x80, 0xAF], [0xE2, 0x81, 0x9F],
     [0xE3, 0x80, 0x80]]"

function trim_prefixes :: "byte list list \<Rightarrow> byte list \<Rightarrow> byte list" where
  "trim_prefixes ps bs =
     (case List.find (\<lambda>p. p \<noteq> [] \<and> prefix p bs) ps of
        None \<Rightarrow> bs
      | Some p \<Rightarrow> trim_prefixes ps (drop (length p) bs))"
  by pat_completeness auto
termination
proof (relation "measure (\<lambda>(ps, bs). length bs)")
  fix ps :: "byte list list" and bs p
  assume "List.find (\<lambda>p. p \<noteq> [] \<and> prefix p bs) ps = Some p"
  then have "p \<noteq> []" "prefix p bs" by (auto simp: find_Some_iff)
  then have "0 < length p" "0 < length bs" by (auto simp: prefix_def)
  then show "((ps, drop (length p) bs), (ps, bs)) \<in> measure (\<lambda>(ps, bs). length bs)"
    by simp
qed simp

declare trim_prefixes.simps [simp del]

definition TrimSpace :: "byte list \<Rightarrow> byte list" where
  "TrimSpace bs =
     rev (trim_prefixes (map rev space_runes) (rev (trim_prefixes space_runes bs)))"

definition newSeqNumMismatchError :: "int \<Rightarrow> u64 \<Rightarrow> goerr" where
  "newSeqNumMismatchError status expectedSeqNum = SeqNumMismatchError
     \<lparr>e_Message = ''Append condition failed: sequence number mismatch'',
      e_Code = ''APPEND_CONDITION_FAILED'', e_Status = status, e_Origin = ''server''\<rparr>
     expectedSeqNum"

definition newFencingTokenMismatchError :: "int \<Rightarrow> string \<Rightarrow> goerr" where
  "newFencingTokenMismatchError status expectedToken = FencingTokenMismatchError
     \<lparr>e_Message = ''Append condition failed: fencing token mismatch'',
      e_Code = ''APPEND_CONDITION_FAILED'', e_Status = status, e_Origin = ''server''\<rparr>
     expectedToken"

text \<open>\<open>statusText\<close> is \<open>http.StatusText\<close>; the message is never inspected by the SDK.\<close>

definition newRangeNotSatisfiableError ::
    "json_codec \<Rightarrow> (int \<Rightarrow> string) \<Rightarrow> int \<Rightarrow> byte list \<Rightarrow> goerr" where
  "newRangeNotSatisfiableError jc statusText status body =
     (let err = \<lparr>e_Message = statusText status, e_Code = ''RANGE_NOT_SATISFIABLE'',
                 e_Status = status, e_Origin = ''server''\<rparr>
      in if length body > 0 then
           (case jc_TailResponse jc body of
              Some tailResp \<Rightarrow> RangeNotSatisfiableError err (Some (tr_Tail tailResp))
            | None \<Rightarrow> RangeNotSatisfiableError (err\<lparr>e_Message := string_of body\<rparr>) None)
         else RangeNotSatisfiableError err None)"

definition append_precondition_message :: "(string \<times> json_value) list \<Rightarrow> string" where
  "append_precondition_message jsonMap =
     (case map_of jsonMap ''message'' of Some (JString msgStr) \<Rightarrow> msgStr
      | _ \<Rightarrow> ''Append condition failed'')"

definition makeAppendPreconditionError :: "int \<Rightarrow> (string \<times> json_value) list \<Rightarrow> goerr" where
  "makeAppendPreconditionError status jsonMap =
     (case map_of jsonMap ''seq_num_mismatch'' of
        Some (JFloat m e) \<Rightarrow> newSeqNumMismatchError status (word_of_int (float_trunc m e))
      | _ \<Rightarrow>
          (case map_of jsonMap ''fencing_token_mismatch'' of
             Some (JString expectedToken) \<Rightarrow> newFencingTokenMismatchError status expectedToken
           | _ \<Rightarrow> S2E \<lparr>e_Message = append_precondition_message jsonMap, e_Code = '''',
                        e_Status = status, e_Origin = ''server''\<rparr>))"

definition server_error :: "string \<Rightarrow> string \<Rightarrow> int \<Rightarrow> goerr" where
  "server_error msg code status =
     S2E \<lparr>e_Message = msg, e_Code = code, e_Status = status, e_Origin = ''server''\<rparr>"

definition decodeAPIError ::
    "json_codec \<Rightarrow> (int \<Rightarrow> string) \<Rightarrow> int \<Rightarrow> byte list \<Rightarrow> goerr" where
  "decodeAPIError jc statusText status body =
     (let trimmed = TrimSpace body in
      if status = 412 then
        (if length trimmed > 0 then
           (case jc_map jc trimmed of
              Some jsonMap \<Rightarrow> makeAppendPreconditionError status jsonMap
            | None \<Rightarrow> server_error (''HTTP '' @ dec_int status) '''' status)
         else server_error (''HTTP '' @ dec_int status) '''' status)
      else if status = 416 then newRangeNotSatisfiableError jc statusText status trimmed
      else if length trimmed > 0 then
        (case jc_ErrorInfo jc trimmed of
           Some apiErr \<Rightarrow>
             (if ei_Message apiErr \<noteq> '''' then server_error (ei_Message apiErr) (ei_Code apiErr) status
              else server_error (string_of trimmed) '''' status)
         | None \<Rightarrow> server_error (string_of trimmed) '''' status)
      else server_error (statusText status) '''' status)"

text \<open>\<open>quoted\<close> is the \<open>%q\<close> rendering of the partial body, used in the message only.\<close>

definition newBodyReadError :: "(byte list \<Rightarrow> string) \<Rightarrow> int \<Rightarrow> byte list \<Rightarrow> goerr \<Rightarrow> goerr" where
  "newBodyReadError quoted status partial err =
     (let message = ''failed to read error response body: '' @ Error err;
          trimmed = TrimSpace partial;
          message = (if length trimmed > 0
            then message @ '' (partial body: '' @ quoted trimmed @ '')'' else message)
      in S2E \<lparr>e_Message = message, e_Code = '''', e_Status = status, e_Origin = ''network''\<rparr>)"

section \<open>Facts about decoded errors\<close>

lemma errorCodes_APPEND_CONDITION_FAILED [simp]:
  "errorCodes ''APPEND_CONDITION_FAILED'' = Some (code_info 412 False True)"
  by (simp add: errorCodes_def errorCodes_list_def)

lemma errorCodes_empty [simp]: "errorCodes '''' = None"
  by (simp add: errorCodes_def errorCodes_list_def)

lemma errorCodes_server_draining [simp]:
  "errorCodes ''server_draining'' = Some (code_info 503 True True)"
  by (simp add: errorCodes_def errorCodes_list_def)

lemma code_info_simps [simp]:
  "ci_status (code_info s r n) = s" "ci_retryable (code_info s r n) = r"
  "ci_noSideEffects (code_info s r n) = n"
  by (simp_all add: code_info_def)

text \<open>Whatever the body, a decoded error is a server error that keeps the HTTP status.\<close>

lemma decodeAPIError_S2Error:
  "\<exists>e. errors_As_S2Error (decodeAPIError jc st status body) = Some e \<and>
       e_Status e = status \<and> e_Origin e = ''server''"
  by (auto simp: decodeAPIError_def makeAppendPreconditionError_def newSeqNumMismatchError_def
      newFencingTokenMismatchError_def newRangeNotSatisfiableError_def server_error_def Let_def
      split: option.splits json_value.splits)

text \<open>A code of the table decides both flags together with the status it belongs to.\<close>

lemma S2Error_HasNoSideEffects_iff:
  "S2Error_HasNoSideEffects e \<longleftrightarrow> e_Origin e = ''server'' \<and>
     (\<exists>info. errorCodes (e_Code e) = Some info \<and> ci_status info = e_Status e \<and> ci_noSideEffects info)"
  by (auto simp: S2Error_HasNoSideEffects_def split: option.splits)

end
