(* ===== verification/Framing.thy ===== *)
theory Framing
  imports Errors
begin

unbundle bit_operations_syntax

text \<open>
  The S2S frame protocol of \<open>src/internal/framing\<close>: the incremental parser with its buffer,
  read offset and size hint (\<open>S2SFrameParser\<close>), the reader loop over an \<open>io.Reader\<close>
  (\<open>FrameReader\<close>), the frame writer (\<open>CreateFrameWithStatus\<close>, \<open>MarshalProtoFrame\<close>) and the
  compression dispatch.  The Go buffer is the list of its elements plus its capacity, so that the
  compaction and growth of \<open>ensureSpare\<close> are visible; what the client sees is the list of unread
  bytes, and the locale \<open>frame_source\<close> states what the parser promises about it.

  The compression libraries (klauspost zstd, compress/gzip) and the protobuf encoder are
  parameters (\<open>codec\<close>, \<open>marshal\<close>).  An \<open>io.Reader\<close> is a script of reads: each entry is the data
  available and the error returned with its last byte; a read of at most \<open>n\<close> bytes takes a prefix
  of the first entry, and a reader whose script is used up reports \<open>io.EOF\<close>.
\<close>

section \<open>Frames and compression\<close>

type_synonym CompressionType = byte

definition CompressionNone :: CompressionType where "CompressionNone = 0"
definition CompressionZstd :: CompressionType where "CompressionZstd = 1"
definition CompressionGzip :: CompressionType where "CompressionGzip = 2"

lemmas compression_defs = CompressionNone_def CompressionZstd_def CompressionGzip_def

definition ContentEncoding :: "CompressionType \<Rightarrow> string" where
  "ContentEncoding c =
     (if c = CompressionZstd then ''zstd'' else if c = CompressionGzip then ''gzip'' else '''')"

definition AcceptEncoding :: "CompressionType \<Rightarrow> string" where
  "AcceptEncoding c = (if c = CompressionNone then '''' else ''zstd, gzip'')"

definition ParseContentEncoding :: "string \<Rightarrow> CompressionType" where
  "ParseContentEncoding encoding =
     (if encoding = ''zstd'' then CompressionZstd
      else if encoding = ''gzip'' then CompressionGzip else CompressionNone)"

record codec =
  zstd_encode :: "byte list \<Rightarrow> byte list"
  zstd_decode :: "byte list \<Rightarrow> goerr + byte list"
  gzip_encode :: "byte list \<Rightarrow> goerr + byte list"
  gzip_reader :: "byte list \<Rightarrow> goerr option"
  gzip_decode :: "byte list \<Rightarrow> goerr + byte list"

text \<open>\<open>gzip_reader\<close> is the error of \<open>gzip.NewReader\<close>, which reads the header of the data, \<open>gzip_decode\<close> what
  reading from the reader gives.  What the SDK relies on: each decoder inverts its encoder.\<close>

definition codec_ok :: "codec \<Rightarrow> bool" where
  "codec_ok cd \<longleftrightarrow>
     (\<forall>d. zstd_decode cd (zstd_encode cd d) = Inr d) \<and>
     (\<forall>d c. gzip_encode cd d = Inr c \<longrightarrow> gzip_reader cd c = None \<and> gzip_decode cd c = Inr d)"

definition unzstd :: "codec \<Rightarrow> byte list \<Rightarrow> goerr + byte list" where
  "unzstd cd data = (case zstd_decode cd data of
     Inl err \<Rightarrow> Inl (errorf_w ''zstd decompress: '' err) | Inr out \<Rightarrow> Inr out)"

definition gunzip :: "codec \<Rightarrow> byte list \<Rightarrow> goerr + byte list" where
  "gunzip cd data = (case gzip_reader cd data of
     Some err \<Rightarrow> Inl (errorf_w ''gzip reader: '' err)
   | None \<Rightarrow> (case gzip_decode cd data of
       Inl err \<Rightarrow> Inl (errorf_w ''gzip decompress: '' err) | Inr out \<Rightarrow> Inr out))"

definition Compress :: "codec \<Rightarrow> byte list \<Rightarrow> CompressionType \<Rightarrow> goerr + byte list" where
  "Compress cd data compression =
     (if compression = CompressionNone then Inr data
      else if compression = CompressionZstd then Inr (zstd_encode cd data)
      else if compression = CompressionGzip then gzip_encode cd data
      else Inl (errorf (''unknown compression type: '' @ dec_nat (unat compression))))"

definition Decompress :: "codec \<Rightarrow> byte list \<Rightarrow> CompressionType \<Rightarrow> goerr + byte list" where
  "Decompress cd data compression =
     (if compression = CompressionNone then Inr data
      else if compression = CompressionGzip then gunzip cd data
      else if compression = CompressionZstd then unzstd cd data
      else Inl (errorf (''unknown compression type: '' @ dec_nat (unat compression))))"

record S2SFrame =
  f_Terminal :: bool
  f_Compression :: CompressionType
  f_StatusCode :: "int option"
  f_Body :: "byte list"
  f_ReconnectAdvised :: bool

definition DecompressedBody :: "codec \<Rightarrow> S2SFrame \<Rightarrow> goerr + byte list" where
  "DecompressedBody cd f =
     (if f_Compression f = CompressionNone then Inr (f_Body f)
      else if f_Compression f = CompressionGzip then gunzip cd (f_Body f)
      else if f_Compression f = CompressionZstd then unzstd cd (f_Body f)
      else Inl (errorf (''unknown compression type '' @ dec_nat (unat (f_Compression f)))))"

section \<open>The parser\<close>

definition MaxFrameSize :: nat where "MaxFrameSize = 2 * 1024 * 1024"
definition readChunkSize :: nat where "readChunkSize = 64 * 1024"
definition flagTerminal :: byte where "flagTerminal = 0x80"
definition flagCompressionMask :: byte where "flagCompressionMask = 0x60"
definition flagCompressionShift :: nat where "flagCompressionShift = 5"
definition flagReconnectAdvised :: byte where "flagReconnectAdvised = 0x10"

lemmas flag_defs = flagTerminal_def flagCompressionMask_def flagCompressionShift_def
  flagReconnectAdvised_def

record S2SFrameParser =
  p_buffer :: "byte list"
  p_cap :: nat
  p_off :: nat
  p_need :: nat

definition NewS2SFrameParser :: S2SFrameParser where
  "NewS2SFrameParser = \<lparr>p_buffer = [], p_cap = 8192, p_off = 0, p_need = 0\<rparr>"

definition ensureSpare :: "S2SFrameParser \<Rightarrow> nat \<Rightarrow> S2SFrameParser" where
  "ensureSpare p n =
     (if p_cap p - length (p_buffer p) \<ge> n then p
      else
        let unread = length (p_buffer p) - p_off p;
            p = (if p_off p > 0 then p\<lparr>p_buffer := drop (p_off p) (p_buffer p), p_off := 0\<rparr> else p)
        in if p_cap p - length (p_buffer p) \<ge> n then p
           else
             let newCap = p_cap p * 2;
                 newCap = (if newCap < unread + n then unread + n else newCap)
             in p\<lparr>p_buffer := take unread (p_buffer p), p_cap := newCap\<rparr>)"

definition Push :: "S2SFrameParser \<Rightarrow> byte list \<Rightarrow> S2SFrameParser" where
  "Push p data =
     (let p = ensureSpare p (length data) in p\<lparr>p_buffer := p_buffer p @ data\<rparr>)"

type_synonym io_reader = "(byte list \<times> goerr option) list"

fun io_Read :: "io_reader \<Rightarrow> nat \<Rightarrow> byte list \<times> goerr option \<times> io_reader" where
  "io_Read [] n = ([], Some (Sentinel IoEOF), [])"
| "io_Read ((bs, err) # rest) n =
     (if length bs \<le> n then (bs, err, rest) else (take n bs, None, (drop n bs, err) # rest))"

definition readFrom_spare :: "S2SFrameParser \<Rightarrow> nat" where
  "readFrom_spare p =
     (if p_need p > 0 \<and> p_need p > length (p_buffer p) - p_off p
      then p_need p - (length (p_buffer p) - p_off p) else readChunkSize)"

definition readFrom :: "S2SFrameParser \<Rightarrow> io_reader \<Rightarrow> nat \<times> goerr option \<times> S2SFrameParser \<times> io_reader" where
  "readFrom p r =
     (let p = ensureSpare p (readFrom_spare p);
          (bs, err, r) = io_Read r (p_cap p - length (p_buffer p))
      in (length bs, err, p\<lparr>p_buffer := p_buffer p @ bs\<rparr>, r))"

definition be24 :: "byte \<Rightarrow> byte \<Rightarrow> byte \<Rightarrow> 32 word" where
  "be24 a b c = push_bit 16 (ucast a) OR push_bit 8 (ucast b) OR ucast c"

definition be16 :: "byte \<Rightarrow> byte \<Rightarrow> 16 word" where
  "be16 a b = push_bit 8 (ucast a) OR ucast b"

text \<open>The compression bits of the flag byte, \<open>None\<close> for the reserved value 3.\<close>

definition frame_compression :: "byte \<Rightarrow> CompressionType option" where
  "frame_compression flag =
     (let compressionBits = drop_bit flagCompressionShift (flag AND flagCompressionMask) in
      if compressionBits = 0 then Some CompressionNone
      else if compressionBits = 1 then Some CompressionZstd
      else if compressionBits = 2 then Some CompressionGzip
      else None)"

text \<open>Consuming a frame: advance the offset, and drop the buffer once all of it is consumed.\<close>

definition consume :: "S2SFrameParser \<Rightarrow> nat \<Rightarrow> S2SFrameParser" where
  "consume p totalSize =
     (let p = p\<lparr>p_off := p_off p + totalSize\<rparr>
      in if p_off p = length (p_buffer p) then p\<lparr>p_buffer := [], p_off := 0\<rparr> else p)"

definition ParseFrame :: "S2SFrameParser \<Rightarrow> (goerr + S2SFrame option) \<times> S2SFrameParser" where
  "ParseFrame p =
     (let buf = drop (p_off p) (p_buffer p) in
      if length buf < 4 then (Inr None, p)
      else
        let len = be24 (buf ! 0) (buf ! 1) (buf ! 2);
            p = p\<lparr>p_need := 0\<rparr>
        in
        if len = 0 then
          (Inl (errorf ''invalid frame: length must be at least 1 (flag byte)''), p)
        else if unat len > MaxFrameSize then
          (Inl (errorf (''frame too large: '' @ dec_nat (unat len) @ '' bytes (max '' @
             dec_nat MaxFrameSize @ '')'')), p)
        else
          let totalSize = 3 + unat len in
          if length buf < totalSize then (Inr None, p\<lparr>p_need := totalSize\<rparr>)
          else
            let flag = buf ! 3;
                terminal = (flag AND flagTerminal \<noteq> 0)
            in case frame_compression flag of
                 None \<Rightarrow> (Inl (errorf (''unknown compression type: '' @
                   dec_nat (unat (drop_bit flagCompressionShift (flag AND flagCompressionMask))))), p)
               | Some compression \<Rightarrow>
                   let payload = take (unat len - 1) (drop 4 buf) in
                   if terminal \<and> length payload < 2 then
                     (Inl (errorf ''terminal frame missing status code''), p)
                   else
                     let statusCode = (if terminal
                           then Some (int (unat (be16 (payload ! 0) (payload ! 1)))) else None);
                         payload = (if terminal then drop 2 payload else payload)
                     in (Inr (Some \<lparr>f_Terminal = terminal, f_Compression = compression,
                           f_StatusCode = statusCode, f_Body = payload,
                           f_ReconnectAdvised = (\<not> terminal \<and> flag AND flagReconnectAdvised \<noteq> 0)\<rparr>),
                         consume p totalSize))"

definition HasData :: "S2SFrameParser \<Rightarrow> bool" where
  "HasData p \<longleftrightarrow> length (p_buffer p) > p_off p"

section \<open>Writing frames\<close>

definition compressionThreshold :: nat where "compressionThreshold = 1024"

definition header24 :: "nat \<Rightarrow> byte list" where
  "header24 n = [word_of_nat (n div 2 ^ 16), word_of_nat (n div 2 ^ 8), word_of_nat n]"

definition frame_payload :: "codec \<Rightarrow> byte list \<Rightarrow> CompressionType \<Rightarrow> byte list \<times> CompressionType" where
  "frame_payload cd data compression =
     (if compression \<noteq> CompressionNone \<and> length data \<ge> compressionThreshold then
        if compression = CompressionZstd then (zstd_encode cd data, CompressionZstd)
        else if compression = CompressionGzip then
          (case gzip_encode cd data of Inr compressed \<Rightarrow> (compressed, CompressionGzip)
           | Inl _ \<Rightarrow> (data, CompressionNone))
        else (data, CompressionNone)
      else (data, CompressionNone))"

definition CreateFrameWithStatus ::
    "codec \<Rightarrow> byte list \<Rightarrow> bool \<Rightarrow> CompressionType \<Rightarrow> int \<Rightarrow> byte list" where
  "CreateFrameWithStatus cd data terminal compression statusCode =
     (let (compressedData, actualCompression) = frame_payload cd data compression;
          flag = (if terminal then flagTerminal else 0);
          flag = flag OR push_bit flagCompressionShift actualCompression;
          headerLen = (4::nat);
          headerLen = (if terminal then headerLen + 2 else headerLen);
          payloadLen = headerLen - 3 + length compressedData;
          status = (word_of_int statusCode :: 16 word)
      in header24 payloadLen @ [flag] @
         (if terminal then [ucast (drop_bit 8 status), ucast status] else []) @ compressedData)"

definition CreateFrame :: "codec \<Rightarrow> byte list \<Rightarrow> bool \<Rightarrow> CompressionType \<Rightarrow> byte list" where
  "CreateFrame cd data terminal compression = CreateFrameWithStatus cd data terminal compression 0"

text \<open>\<open>marshal\<close> is \<open>proto.Marshal\<close> of the message (\<open>opts.MarshalAppend\<close> appends the same bytes).\<close>

definition MarshalProtoFrame ::
    "codec \<Rightarrow> ('m \<Rightarrow> goerr + byte list) \<Rightarrow> 'm \<Rightarrow> CompressionType \<Rightarrow> goerr + byte list" where
  "MarshalProtoFrame cd marshal message compression =
     (if compression \<noteq> CompressionNone then
        (case marshal message of
           Inl err \<Rightarrow> Inl err
         | Inr data \<Rightarrow> Inr (CreateFrame cd data False compression))
      else
        (case marshal message of
           Inl err \<Rightarrow> Inl err
         | Inr data \<Rightarrow>
             let frame = replicate 4 0 @ data;
                 payloadLen = length frame - 3
             in Inr (header24 payloadLen @ drop 3 frame)))"

section \<open>The reader loop\<close>

record FrameReader =
  fr_reader :: io_reader
  fr_parser :: S2SFrameParser
  fr_pendingErr :: "goerr option"

definition NewFrameReader :: "io_reader \<Rightarrow> FrameReader" where
  "NewFrameReader r = \<lparr>fr_reader = r, fr_parser = NewS2SFrameParser, fr_pendingErr = None\<rparr>"

definition endErr :: "S2SFrameParser \<Rightarrow> goerr \<Rightarrow> goerr" where
  "endErr p pendingErr =
     (if pendingErr = Sentinel IoEOF \<and> HasData p then Sentinel IoErrUnexpectedEOF else pendingErr)"

text \<open>What is left to read, the measure of the loop: every read takes something away from it.\<close>

definition reader_size :: "io_reader \<Rightarrow> nat" where
  "reader_size r = sum_list (map (\<lambda>e. Suc (length (fst e))) r)"

lemma io_Read_size:
  "io_Read r n = (bs, err, r') \<Longrightarrow> err = None \<Longrightarrow> 0 < n \<Longrightarrow> reader_size r' < reader_size r"
  by (cases "(r, n)" rule: io_Read.cases) (auto simp: reader_size_def split: if_splits)

lemma ensureSpare_spare:
  "0 < n \<Longrightarrow> p_cap (ensureSpare p n) - length (p_buffer (ensureSpare p n)) \<ge> n"
  by (auto simp: ensureSpare_def Let_def)

lemma readFrom_spare_pos: "0 < readFrom_spare p"
  by (auto simp: readFrom_spare_def readChunkSize_def)

lemma readFrom_size:
  assumes "readFrom p r = (n, None, p', r')"
  shows "reader_size r' < reader_size r"
proof -
  have "0 < p_cap (ensureSpare p (readFrom_spare p)) - length (p_buffer (ensureSpare p (readFrom_spare p)))"
    using ensureSpare_spare [OF readFrom_spare_pos] readFrom_spare_pos by (rule less_le_trans [rotated])
  with assms show ?thesis
    by (auto simp: readFrom_def Let_def split: prod.splits dest: io_Read_size)
qed

function ReadFrame :: "FrameReader \<Rightarrow> (goerr + S2SFrame) \<times> FrameReader" where
  "ReadFrame fr =
     (case ParseFrame (fr_parser fr) of
        (Inl err, p) \<Rightarrow> (Inl err, fr\<lparr>fr_parser := p\<rparr>)
      | (Inr (Some frame), p) \<Rightarrow> (Inr frame, fr\<lparr>fr_parser := p\<rparr>)
      | (Inr None, p) \<Rightarrow>
          (case fr_pendingErr fr of
             Some pe \<Rightarrow> (Inl (endErr p pe), fr\<lparr>fr_parser := p\<rparr>)
           | None \<Rightarrow>
               (case readFrom p (fr_reader fr) of
                  (n, None, p', r') \<Rightarrow> ReadFrame (fr\<lparr>fr_parser := p', fr_reader := r'\<rparr>)
                | (n, Some err, p', r') \<Rightarrow>
                    (if n > 0
                     then ReadFrame (fr\<lparr>fr_parser := p', fr_reader := r', fr_pendingErr := Some err\<rparr>)
                     else (Inl (endErr p' err),
                           fr\<lparr>fr_parser := p', fr_reader := r', fr_pendingErr := Some err\<rparr>)))))"
  by pat_completeness auto
termination
  by (relation "measures [\<lambda>fr. if fr_pendingErr fr = None then 1 else 0,
        \<lambda>fr. reader_size (fr_reader fr)]") (auto dest: readFrom_size [OF sym])

declare ReadFrame.simps [simp del]

section \<open>Abstract frame format\<close>

text \<open>
  The wire format read off the byte list by pattern matching, with lengths as plain numbers.  A
  byte list either starts with a complete frame, is malformed, or needs more bytes.
\<close>

datatype frame_result = Incomplete | Malformed goerr | Decoded S2SFrame "byte list"

definition decode_payload :: "byte \<Rightarrow> byte list \<Rightarrow> byte list \<Rightarrow> frame_result" where
  "decode_payload flag payload rest =
     (case frame_compression flag of
        None \<Rightarrow> Malformed (errorf (''unknown compression type: '' @
          dec_nat (unat (drop_bit flagCompressionShift (flag AND flagCompressionMask)))))
      | Some c \<Rightarrow>
          (if flag AND flagTerminal = 0 then
             Decoded \<lparr>f_Terminal = False, f_Compression = c, f_StatusCode = None, f_Body = payload,
               f_ReconnectAdvised = (flag AND flagReconnectAdvised \<noteq> 0)\<rparr> rest
           else
             (case payload of
                hi # lo # body \<Rightarrow>
                  Decoded \<lparr>f_Terminal = True, f_Compression = c,
                    f_StatusCode = Some (256 * int (unat hi) + int (unat lo)), f_Body = body,
                    f_ReconnectAdvised = False\<rparr> rest
              | _ \<Rightarrow> Malformed (errorf ''terminal frame missing status code''))))"

fun decode_frame :: "byte list \<Rightarrow> frame_result" where
  "decode_frame (a # b # c # flag # rest) =
     (let n = 65536 * unat a + 256 * unat b + unat c in
      if n = 0 then Malformed (errorf ''invalid frame: length must be at least 1 (flag byte)'')
      else if n > MaxFrameSize then
        Malformed (errorf (''frame too large: '' @ dec_nat n @ '' bytes (max '' @
          dec_nat MaxFrameSize @ '')''))
      else if length rest < n - 1 then Incomplete
      else decode_payload flag (take (n - 1) rest) (drop (n - 1) rest))"
| "decode_frame _ = Incomplete"

subsection \<open>Big-endian fields\<close>

lemma unat_byte_less: "unat (a :: byte) < 256"
proof -
  have "unat a < 2 ^ LENGTH(8)" by (rule unsigned_less)
  then show ?thesis by simp
qed

lemma be24_eq: "be24 a b c = word_of_nat (65536 * unat a + 256 * unat b + unat c)"
proof -
  have disj: "bit x n \<Longrightarrow> n < 8" for x :: byte and n
    by (auto dest: bit_imp_le_length)
  have "be24 a b c = push_bit 16 (ucast a) + push_bit 8 (ucast b) + ucast c"
  proof -
    have 1: "push_bit 8 (ucast b :: 32 word) AND ucast c = 0"
      by (rule bit_word_eqI) (auto simp: bit_simps dest: disj)
    have 2: "push_bit 16 (ucast a :: 32 word) AND (push_bit 8 (ucast b) OR ucast c) = 0"
      by (rule bit_word_eqI) (auto simp: bit_simps dest: disj)
    have "be24 a b c = push_bit 16 (ucast a) + (push_bit 8 (ucast b) OR ucast c)"
      unfolding be24_def using disjunctive_add_eq_or [OF 2] by (simp add: or.assoc)
    also have "push_bit 8 (ucast b :: 32 word) OR ucast c = push_bit 8 (ucast b) + ucast c"
      using disjunctive_add_eq_or [OF 1] by simp
    finally show ?thesis by (simp add: add.assoc)
  qed
  then show ?thesis
    by (simp add: push_bit_eq_mult ac_simps)
qed

lemma unat_be24: "unat (be24 a b c) = 65536 * unat a + 256 * unat b + unat c"
  using unat_byte_less [of a] unat_byte_less [of b] unat_byte_less [of c]
  by (simp only: be24_eq unat_of_nat) simp

lemma be16_eq: "be16 a b = word_of_nat (256 * unat a + unat b)"
proof -
  have disj: "bit x n \<Longrightarrow> n < 8" for x :: byte and n
    by (auto dest: bit_imp_le_length)
  have "push_bit 8 (ucast a :: 16 word) AND ucast b = 0"
    by (rule bit_word_eqI) (auto simp: bit_simps dest: disj)
  then have "be16 a b = push_bit 8 (ucast a) + ucast b"
    unfolding be16_def by (simp add: disjunctive_add_eq_or)
  then show ?thesis
    by (simp add: push_bit_eq_mult ac_simps)
qed

lemma unat_be16: "unat (be16 a b) = 256 * unat a + unat b"
  using unat_byte_less [of a] unat_byte_less [of b] by (simp only: be16_eq unat_of_nat) simp

section \<open>The parser implements the format\<close>

definition unread :: "S2SFrameParser \<Rightarrow> byte list" where
  "unread p = drop (p_off p) (p_buffer p)"

definition parser_inv :: "S2SFrameParser \<Rightarrow> bool" where
  "parser_inv p \<longleftrightarrow> p_off p \<le> length (p_buffer p) \<and> length (p_buffer p) \<le> p_cap p"

lemma parser_inv_New [inv_intro]: "parser_inv NewS2SFrameParser"
  by (simp add: parser_inv_def NewS2SFrameParser_def)

lemma unread_New [simp]: "unread NewS2SFrameParser = []"
  by (simp add: unread_def NewS2SFrameParser_def)

lemma HasData_iff: "parser_inv p \<Longrightarrow> HasData p \<longleftrightarrow> unread p \<noteq> []"
  by (auto simp: HasData_def unread_def parser_inv_def)

lemma ensureSpare_unread [simp]: "unread (ensureSpare p n) = unread p"
  by (auto simp: ensureSpare_def unread_def Let_def)

lemma ensureSpare_inv [inv_intro]: "parser_inv p \<Longrightarrow> parser_inv (ensureSpare p n)"
  by (auto simp: ensureSpare_def parser_inv_def Let_def)

lemma ensureSpare_room:
  "parser_inv p \<Longrightarrow> length (p_buffer (ensureSpare p n)) + n \<le> p_cap (ensureSpare p n)"
  by (auto simp: ensureSpare_def parser_inv_def Let_def)

lemma append_unread:
  "p_off p \<le> length (p_buffer p) \<Longrightarrow> unread (p\<lparr>p_buffer := p_buffer p @ bs\<rparr>) = unread p @ bs"
  by (simp add: unread_def)

lemma Push_unread: "parser_inv p \<Longrightarrow> unread (Push p data) = unread p @ data"
  using ensureSpare_inv [of p "length data"]
  by (simp add: Push_def Let_def append_unread parser_inv_def)

lemma Push_inv [inv_intro]: "parser_inv p \<Longrightarrow> parser_inv (Push p data)"
  using ensureSpare_inv [of p "length data"] ensureSpare_room [of p "length data"]
  by (simp add: Push_def Let_def parser_inv_def)

lemma consume_unread:
  "p_off p + n \<le> length (p_buffer p) \<Longrightarrow> unread (consume p n) = drop n (unread p)"
  by (auto simp: consume_def unread_def Let_def add.commute)

lemma consume_inv:
  "parser_inv p \<Longrightarrow> p_off p + n \<le> length (p_buffer p) \<Longrightarrow> parser_inv (consume p n)"
  by (auto simp: consume_def parser_inv_def Let_def)

lemma need_unread [simp]: "unread (p\<lparr>p_need := n\<rparr>) = unread p"
  by (simp add: unread_def)

lemma need_inv [simp]: "parser_inv (p\<lparr>p_need := n\<rparr>) = parser_inv p"
  by (simp add: parser_inv_def)

text \<open>
  What one call of \<open>ParseFrame\<close> must do, in terms of the unread bytes: nothing is consumed
  unless a whole frame is returned, and then exactly that frame's bytes are.
\<close>

fun parse_outcome :: "frame_result \<Rightarrow> (goerr + S2SFrame option) \<Rightarrow> byte list \<Rightarrow> byte list \<Rightarrow> bool" where
  "parse_outcome Incomplete res before after = (res = Inr None \<and> after = before)"
| "parse_outcome (Malformed e) res before after = (res = Inl e \<and> after = before)"
| "parse_outcome (Decoded f rest) res before after = (res = Inr (Some f) \<and> after = rest)"

lemma decode_payload_eq:
  "decode_payload flag payload rest =
     (case frame_compression flag of
        None \<Rightarrow> Malformed (errorf (''unknown compression type: '' @
          dec_nat (unat (drop_bit flagCompressionShift (flag AND flagCompressionMask)))))
      | Some c \<Rightarrow>
          (let terminal = (flag AND flagTerminal \<noteq> 0) in
           if terminal \<and> length payload < 2
           then Malformed (errorf ''terminal frame missing status code'')
           else Decoded \<lparr>f_Terminal = terminal, f_Compression = c,
               f_StatusCode = (if terminal
                 then Some (int (unat (be16 (payload ! 0) (payload ! 1)))) else None),
               f_Body = (if terminal then drop 2 payload else payload),
               f_ReconnectAdvised = (\<not> terminal \<and> flag AND flagReconnectAdvised \<noteq> 0)\<rparr> rest))"
  by (auto simp: decode_payload_def unat_be16 Let_def split: option.splits list.splits)

lemma decode_frame_eq:
  "decode_frame buf =
     (if length buf < 4 then Incomplete
      else
        let n = unat (be24 (buf ! 0) (buf ! 1) (buf ! 2)) in
        if n = 0 then Malformed (errorf ''invalid frame: length must be at least 1 (flag byte)'')
        else if n > MaxFrameSize then
          Malformed (errorf (''frame too large: '' @ dec_nat n @ '' bytes (max '' @
            dec_nat MaxFrameSize @ '')''))
        else if length buf < 3 + n then Incomplete
        else decode_payload (buf ! 3) (take (n - 1) (drop 4 buf)) (drop (3 + n) buf))"
proof (cases buf rule: decode_frame.cases)
  case (1 a b c flag rest)
  let ?n = "65536 * unat a + 256 * unat b + unat c"
  have "drop (3 + ?n) (a # b # c # flag # rest) = drop (?n - 1) rest" if "?n \<noteq> 0"
  proof -
    from that obtain m where "?n = Suc m" by (cases ?n) auto
    then show ?thesis by (simp add: drop_Cons')
  qed
  moreover have "length rest < ?n - 1 \<longleftrightarrow> length (a # b # c # flag # rest) < 3 + ?n" if "?n \<noteq> 0"
    using that by auto
  ultimately show ?thesis
    unfolding 1 by (simp add: unat_be24 Let_def del: drop_append)
qed (auto simp: Let_def)

text \<open>The result and the next parser, one branch of the code after the other.\<close>

fun parse_step :: "S2SFrameParser \<Rightarrow> nat \<Rightarrow> frame_result \<Rightarrow> (goerr + S2SFrame option) \<times> S2SFrameParser" where
  "parse_step p tot (Malformed e) = (Inl e, p\<lparr>p_need := 0\<rparr>)"
| "parse_step p tot (Decoded f rest) = (Inr (Some f), consume (p\<lparr>p_need := 0\<rparr>) tot)"
| "parse_step p tot Incomplete = (Inr None, p\<lparr>p_need := tot\<rparr>)"

lemma ParseFrame_eq:
  assumes "\<not> length (unread p) < 4"
  shows "ParseFrame p =
    parse_step p (3 + unat (be24 (unread p ! 0) (unread p ! 1) (unread p ! 2)))
      (decode_frame (unread p))"
  using assms unfolding ParseFrame_def unread_def [symmetric] decode_frame_eq decode_payload_eq
  by (auto simp: Let_def unat_eq_zero split: option.splits)

lemma ParseFrame_short: "length (unread p) < 4 \<Longrightarrow> ParseFrame p = (Inr None, p)"
  by (simp add: ParseFrame_def unread_def)

lemma decode_frame_Decoded:
  assumes "decode_frame buf = Decoded f rest"
  shows "length buf \<ge> 3 + unat (be24 (buf ! 0) (buf ! 1) (buf ! 2)) \<and>
    rest = drop (3 + unat (be24 (buf ! 0) (buf ! 1) (buf ! 2))) buf"
  using assms unfolding decode_frame_eq decode_payload_eq
  by (auto simp: Let_def split: option.splits if_splits)

lemma ParseFrame_decode:
  assumes inv: "parser_inv p" and run: "ParseFrame p = (res, p')"
  shows "parse_outcome (decode_frame (unread p)) res (unread p) (unread p') \<and> parser_inv p'"
proof (cases "length (unread p) < 4")
  case True
  then have "decode_frame (unread p) = Incomplete" by (simp add: decode_frame_eq)
  with True run inv show ?thesis by (simp add: ParseFrame_short)
next
  case False
  let ?n = "3 + unat (be24 (unread p ! 0) (unread p ! 1) (unread p ! 2))"
  have eq: "parse_step p ?n (decode_frame (unread p)) = (res, p')"
    using run ParseFrame_eq [OF False] by simp
  show ?thesis
  proof (cases "decode_frame (unread p)")
    case (Decoded f rest)
    have "length (unread p) \<ge> ?n" and rest: "rest = drop ?n (unread p)"
      using decode_frame_Decoded [OF Decoded] by simp_all
    then have fits: "p_off (p\<lparr>p_need := 0\<rparr>) + ?n \<le> length (p_buffer (p\<lparr>p_need := 0\<rparr>))"
      using inv by (simp add: unread_def parser_inv_def)
    with eq Decoded rest inv show ?thesis
      by (auto simp: consume_unread intro: consume_inv)
  qed (use eq inv in auto)
qed

section \<open>The contract of a frame source\<close>

text \<open>
  What the users of a parser rely on: it holds a queue of unread bytes, \<open>push\<close> appends to the
  queue, and \<open>parse\<close> answers from the queue as the format says.  How the bytes arrived cannot be
  observed.
\<close>

locale frame_source =
  fixes bytes :: "'p \<Rightarrow> byte list"
    and invar :: "'p \<Rightarrow> bool"
    and push :: "'p \<Rightarrow> byte list \<Rightarrow> 'p"
    and parse :: "'p \<Rightarrow> (goerr + S2SFrame option) \<times> 'p"
  assumes bytes_push: "invar p \<Longrightarrow> bytes (push p data) = bytes p @ data"
    and invar_push: "invar p \<Longrightarrow> invar (push p data)"
    and parse_format: "invar p \<Longrightarrow> parse p = (res, p') \<Longrightarrow>
          parse_outcome (decode_frame (bytes p)) res (bytes p) (bytes p') \<and> invar p'"
begin

lemma bytes_push_chunks:
  "invar p \<Longrightarrow> bytes (foldl push p chunks) = bytes p @ concat chunks \<and> invar (foldl push p chunks)"
  by (induction chunks arbitrary: p) (simp_all add: bytes_push invar_push)

lemma parse_result:
  assumes "invar p"
  shows "fst (parse p) = (case decode_frame (bytes p) of
      Incomplete \<Rightarrow> Inr None | Malformed e \<Rightarrow> Inl e | Decoded f rest \<Rightarrow> Inr (Some f))"
proof -
  obtain res p' where run: "parse p = (res, p')" by (cases "parse p")
  with parse_format [OF assms run] show ?thesis by (cases "decode_frame (bytes p)") auto
qed

lemma parse_bytes:
  assumes "invar p"
  shows "bytes (snd (parse p)) = (case decode_frame (bytes p) of
      Decoded f rest \<Rightarrow> rest | _ \<Rightarrow> bytes p)"
proof -
  obtain res p' where run: "parse p = (res, p')" by (cases "parse p")
  with parse_format [OF assms run] show ?thesis by (cases "decode_frame (bytes p)") auto
qed

lemma parse_chunking:
  assumes "invar p" "invar q" "bytes p @ concat cs = bytes q @ concat ds"
  shows "fst (parse (foldl push p cs)) = fst (parse (foldl push q ds)) \<and>
    bytes (snd (parse (foldl push p cs))) = bytes (snd (parse (foldl push q ds)))"
  using bytes_push_chunks [OF assms(1), of cs] bytes_push_chunks [OF assms(2), of ds] assms(3)
  by (simp add: parse_result parse_bytes split: frame_result.splits)

end

interpretation parser: frame_source unread parser_inv Push ParseFrame
  by unfold_locales (simp_all add: Push_unread Push_inv ParseFrame_decode)

section \<open>More bytes never change a decision\<close>

lemma decode_frame_append_Decoded:
  assumes "decode_frame bs = Decoded f rest"
  shows "decode_frame (bs @ cs) = Decoded f (rest @ cs)"
proof (cases bs rule: decode_frame.cases)
  case (1 a b c flag tl)
  with assms show ?thesis
    by (auto simp: Let_def decode_payload_def split: if_splits option.splits list.splits)
qed (use assms in auto)

lemma decode_frame_append_Malformed:
  assumes "decode_frame bs = Malformed e"
  shows "decode_frame (bs @ cs) = Malformed e"
proof (cases bs rule: decode_frame.cases)
  case (1 a b c flag tl)
  with assms show ?thesis
    by (auto simp: Let_def decode_payload_def split: if_splits option.splits list.splits)
qed (use assms in auto)

section \<open>The reader loop implements the format over a stream\<close>

fun reader_bytes :: "io_reader \<Rightarrow> byte list" where
  "reader_bytes [] = []"
| "reader_bytes ((bs, None) # r) = bs @ reader_bytes r"
| "reader_bytes ((bs, Some e) # r) = bs"

fun reader_end :: "io_reader \<Rightarrow> goerr" where
  "reader_end [] = Sentinel IoEOF"
| "reader_end ((bs, None) # r) = reader_end r"
| "reader_end ((bs, Some e) # r) = e"

definition stream_bytes :: "FrameReader \<Rightarrow> byte list" where
  "stream_bytes fr = unread (fr_parser fr) @
     (if fr_pendingErr fr = None then reader_bytes (fr_reader fr) else [])"

definition stream_end :: "FrameReader \<Rightarrow> goerr" where
  "stream_end fr = (case fr_pendingErr fr of Some e \<Rightarrow> e | None \<Rightarrow> reader_end (fr_reader fr))"

definition truncated :: "goerr \<Rightarrow> byte list \<Rightarrow> goerr" where
  "truncated e bs = (if e = Sentinel IoEOF \<and> bs \<noteq> [] then Sentinel IoErrUnexpectedEOF else e)"

lemma io_Read_bytes:
  assumes "io_Read r n = (bs, err, r')"
  shows "reader_bytes r = bs @ (if err = None then reader_bytes r' else []) \<and>
    reader_end r = (case err of None \<Rightarrow> reader_end r' | Some e \<Rightarrow> e)"
proof (cases "(r, n)" rule: io_Read.cases)
  case (2 data e rest m)
  with assms show ?thesis by (cases e) (auto split: if_splits)
qed (use assms in auto)

lemma readFrom_stream:
  assumes inv: "parser_inv p" and run: "readFrom p r = (n, err, p', r')"
  shows "\<exists>bs. length bs = n \<and> unread p' = unread p @ bs \<and> parser_inv p' \<and>
    reader_bytes r = bs @ (if err = None then reader_bytes r' else []) \<and>
    reader_end r = (case err of None \<Rightarrow> reader_end r' | Some e \<Rightarrow> e)"
proof -
  define q where "q = ensureSpare p (readFrom_spare p)"
  obtain bs e r'' where rd: "io_Read r (p_cap q - length (p_buffer q)) = (bs, e, r'')"
    by (cases "io_Read r (p_cap q - length (p_buffer q))") auto
  have qinv: "parser_inv q" and qun: "unread q = unread p"
    using inv by (simp_all add: q_def ensureSpare_inv)
  have len: "length bs \<le> p_cap q - length (p_buffer q)"
    using rd by (cases "(r, p_cap q - length (p_buffer q))" rule: io_Read.cases) (auto split: if_splits)
  from run rd have eqs: "n = length bs" "err = e" "r' = r''" "p' = q\<lparr>p_buffer := p_buffer q @ bs\<rparr>"
    by (auto simp: readFrom_def Let_def q_def)
  from qinv len have "parser_inv p'" "unread p' = unread p @ bs"
    by (auto simp: eqs parser_inv_def append_unread qun [symmetric])
  with io_Read_bytes [OF rd] show ?thesis by (auto simp: eqs)
qed

text \<open>One call returns what the format says of the bytes still to come, however they are cut
  into reads, and leaves the rest of the stream for the next call.\<close>

fun read_outcome :: "frame_result \<Rightarrow> (goerr + S2SFrame) \<Rightarrow> byte list \<Rightarrow> goerr \<Rightarrow> byte list \<Rightarrow> bool" where
  "read_outcome Incomplete res before fin after = (res = Inl (truncated fin before) \<and> after = before)"
| "read_outcome (Malformed e) res before fin after = (res = Inl e \<and> after = before)"
| "read_outcome (Decoded f rest) res before fin after = (res = Inr f \<and> after = rest)"

lemma ReadFrame_stream:
  assumes "parser_inv (fr_parser fr)" and "ReadFrame fr = (res, fr')"
  shows "read_outcome (decode_frame (stream_bytes fr)) res (stream_bytes fr) (stream_end fr)
      (stream_bytes fr') \<and> stream_end fr' = stream_end fr \<and> parser_inv (fr_parser fr')"
  using assms
proof (induction fr arbitrary: res fr' rule: ReadFrame.induct)
  case (1 fr)
  obtain pres p where parse: "ParseFrame (fr_parser fr) = (pres, p)" by (cases "ParseFrame (fr_parser fr)")
  let ?u = "unread (fr_parser fr)"
  let ?more = "if fr_pendingErr fr = None then reader_bytes (fr_reader fr) else []"
  have out: "parse_outcome (decode_frame ?u) pres ?u (unread p)" and pinv: "parser_inv p"
    using ParseFrame_decode [OF "1.prems"(1) parse] by simp_all
  have sb: "stream_bytes fr = ?u @ ?more" by (simp add: stream_bytes_def)
  show ?case
  proof (cases "decode_frame ?u")
    case (Decoded f rest)
    with out have "pres = Inr (Some f)" "unread p = rest" by simp_all
    with "1.prems"(2) parse have "res = Inr f" "fr' = fr\<lparr>fr_parser := p\<rparr>"
      by (simp_all add: ReadFrame.simps [of fr])
    with decode_frame_append_Decoded [OF Decoded] pinv \<open>unread p = rest\<close> show ?thesis
      by (simp add: stream_bytes_def stream_end_def split: option.splits)
  next
    case (Malformed e)
    with out have "pres = Inl e" "unread p = ?u" by simp_all
    with "1.prems"(2) parse have "res = Inl e" "fr' = fr\<lparr>fr_parser := p\<rparr>"
      by (simp_all add: ReadFrame.simps [of fr])
    with decode_frame_append_Malformed [OF Malformed] pinv \<open>unread p = ?u\<close> show ?thesis
      by (simp add: stream_bytes_def stream_end_def split: option.splits)
  next
    case Incomplete
    with out have pres: "pres = Inr None" and up: "unread p = ?u" by simp_all
    show ?thesis
    proof (cases "fr_pendingErr fr")
      case (Some pe)
      with "1.prems"(2) parse pres have "res = Inl (endErr p pe)" "fr' = fr\<lparr>fr_parser := p\<rparr>"
        by (simp_all add: ReadFrame.simps [of fr])
      with Some Incomplete up pinv show ?thesis
        by (simp add: stream_bytes_def stream_end_def endErr_def truncated_def HasData_iff)
    next
      case None
      obtain n err p' r' where rf: "readFrom p (fr_reader fr) = (n, err, p', r')"
        by (cases "readFrom p (fr_reader fr)") auto
      from readFrom_stream [OF pinv rf] obtain bs where
        bs: "length bs = n" "unread p' = ?u @ bs" "parser_inv p'"
          "reader_bytes (fr_reader fr) = bs @ (if err = None then reader_bytes r' else [])"
          "reader_end (fr_reader fr) = (case err of None \<Rightarrow> reader_end r' | Some e \<Rightarrow> e)"
        by (auto simp: up)
      have keep: "fr\<lparr>fr_parser := p', fr_reader := r', fr_pendingErr := None\<rparr> =
          fr\<lparr>fr_parser := p', fr_reader := r'\<rparr>"
        using None by (cases fr) simp
      let ?next = "fr\<lparr>fr_parser := p', fr_reader := r', fr_pendingErr := err\<rparr>"
      have same: "stream_bytes ?next = stream_bytes fr" "stream_end ?next = stream_end fr"
        using None bs by (auto simp: stream_bytes_def stream_end_def split: option.splits)
      show ?thesis
      proof (cases "err = None \<or> n > 0")
        case True
        have rec: "ReadFrame ?next = (res, fr')"
          using "1.prems"(2) parse pres None rf True
          by (cases err) (auto simp: ReadFrame.simps [of fr] keep)
        have "parser_inv (fr_parser ?next)" using bs by simp
        then have "read_outcome (decode_frame (stream_bytes ?next)) res (stream_bytes ?next)
            (stream_end ?next) (stream_bytes fr') \<and> stream_end fr' = stream_end ?next \<and>
            parser_inv (fr_parser fr')"
          using "1.IH" parse pres None rf True rec by (cases err) (auto simp: keep)
        then show ?thesis by (simp only: same)
      next
        case False
        then obtain e where e: "err = Some e" and n0: "n = 0" by auto
        with bs have empty: "bs = []" by simp
        from "1.prems"(2) parse pres None rf e n0
        have res: "res = Inl (endErr p' e)" and fr': "fr' = ?next"
          by (auto simp: ReadFrame.simps [of fr])
        have "stream_bytes fr = ?u" using sb None bs e empty by simp
        with res fr' same Incomplete bs e empty None show ?thesis
          by (simp add: endErr_def truncated_def HasData_iff stream_end_def)
      qed
    qed
  qed
qed

section \<open>What is written can be read back\<close>

lemma header24_value:
  assumes "n < 2 ^ 24" and "header24 n = [a, b, c]"
  shows "65536 * unat a + 256 * unat b + unat c = n"
proof -
  have "unat a = n div 65536" "unat b = n div 256 mod 256" "unat c = n mod 256"
    using assms by (auto simp: header24_def unat_of_nat)
  moreover have "n div 65536 = n div 256 div 256" by (simp add: div_mult2_eq [symmetric])
  moreover have "256 * (n div 256) + n mod 256 = n"
    "256 * (n div 256 div 256) + n div 256 mod 256 = n div 256"
    by (simp_all only: mult_div_mod_eq)
  ultimately show ?thesis by linarith
qed

lemma header24_shape: "\<exists>a b c. header24 n = [a, b, c]"
  by (simp add: header24_def)

lemma frame_payload_decompresses:
  assumes "codec_ok cd" and "frame_payload cd data compression = (out, actual)"
  shows "actual \<in> {CompressionNone, CompressionZstd, CompressionGzip}"
    and "DecompressedBody cd \<lparr>f_Terminal = t, f_Compression = actual, f_StatusCode = st, f_Body = out,
      f_ReconnectAdvised = r\<rparr> = Inr data"
  using assms
  by (auto simp: frame_payload_def DecompressedBody_def codec_ok_def unzstd_def gunzip_def
      compression_defs split: if_splits sum.splits)

definition frame_flag :: "bool \<Rightarrow> CompressionType \<Rightarrow> byte" where
  "frame_flag terminal actual =
     (if terminal then flagTerminal else 0) OR push_bit flagCompressionShift actual"

lemma frame_flag_bits:
  assumes "actual \<in> {CompressionNone, CompressionZstd, CompressionGzip}"
  shows "frame_compression (frame_flag terminal actual) = Some actual"
    and "frame_flag terminal actual AND flagTerminal \<noteq> 0 \<longleftrightarrow> terminal"
    and "frame_flag terminal actual AND flagReconnectAdvised = 0"
  using assms
  by (auto simp: frame_compression_def frame_flag_def flag_defs compression_defs Let_def)

lemma status_bytes:
  assumes "0 \<le> code" "code < 65536"
  shows "256 * int (unat (ucast (drop_bit 8 (word_of_int code :: 16 word)) :: byte)) +
    int (unat (ucast (word_of_int code :: 16 word) :: byte)) = code"
proof -
  have "uint (word_of_int code :: 16 word) = code"
    using assms by (simp add: uint_word_of_int)
  then have "int (unat (word_of_int code :: 16 word)) = code" by simp
  then have "int (unat (ucast (drop_bit 8 (word_of_int code :: 16 word)) :: byte)) = code div 256 mod 256"
    "int (unat (ucast (word_of_int code :: 16 word) :: byte)) = code mod 256"
    by (simp_all add: unsigned_ucast_eq unsigned_drop_bit_eq take_bit_eq_mod drop_bit_eq_div
        unat_div zdiv_int zmod_int)
  with assms show ?thesis by simp
qed

definition written_frame :: "codec \<Rightarrow> byte list \<Rightarrow> bool \<Rightarrow> CompressionType \<Rightarrow> int \<Rightarrow> S2SFrame" where
  "written_frame cd data terminal compression statusCode =
     \<lparr>f_Terminal = terminal, f_Compression = snd (frame_payload cd data compression),
      f_StatusCode = (if terminal then Some statusCode else None),
      f_Body = fst (frame_payload cd data compression), f_ReconnectAdvised = False\<rparr>"

text \<open>The size the frame announces: flag byte, status code when terminal, compressed payload.\<close>

definition frame_len :: "codec \<Rightarrow> byte list \<Rightarrow> bool \<Rightarrow> CompressionType \<Rightarrow> nat" where
  "frame_len cd data terminal compression =
     (if terminal then 3 else 1) + length (fst (frame_payload cd data compression))"

lemma CreateFrameWithStatus_eq:
  "CreateFrameWithStatus cd data terminal compression statusCode =
     header24 (frame_len cd data terminal compression) @
     [frame_flag terminal (snd (frame_payload cd data compression))] @
     (if terminal then [ucast (drop_bit 8 (word_of_int statusCode :: 16 word)),
        ucast (word_of_int statusCode :: 16 word)] else []) @
     fst (frame_payload cd data compression)"
  by (simp add: CreateFrameWithStatus_def frame_len_def frame_flag_def Let_def split_beta)

lemma decode_CreateFrame:
  assumes ok: "codec_ok cd" and size: "frame_len cd data terminal compression \<le> MaxFrameSize"
    and code: "0 \<le> statusCode" "statusCode < 65536"
  shows "decode_frame (CreateFrameWithStatus cd data terminal compression statusCode @ rest) =
    Decoded (written_frame cd data terminal compression statusCode) rest"
proof -
  obtain out actual where fp: "frame_payload cd data compression = (out, actual)" by fastforce
  obtain a b c where h: "header24 (frame_len cd data terminal compression) = [a, b, c]"
    using header24_shape by blast
  have n: "65536 * unat a + 256 * unat b + unat c = frame_len cd data terminal compression"
    using header24_value [OF _ h] size by (simp add: MaxFrameSize_def)
  note bits = frame_flag_bits [OF frame_payload_decompresses(1) [OF ok fp]]
  show ?thesis
  proof (cases terminal)
    case True
    with size bits [of True] n fp h status_bytes [OF code] show ?thesis
      by (simp add: CreateFrameWithStatus_eq frame_len_def decode_payload_def written_frame_def
          numeral_3_eq_3)
  next
    case False
    with size bits [of False] n fp h show ?thesis
      by (simp add: CreateFrameWithStatus_eq frame_len_def decode_payload_def written_frame_def)
  qed
qed

lemma DecompressedBody_written:
  assumes "codec_ok cd"
  shows "DecompressedBody cd (written_frame cd data terminal compression statusCode) = Inr data"
  unfolding written_frame_def by (rule frame_payload_decompresses(2) [OF assms prod.collapse [symmetric]])

lemma MarshalProtoFrame_eq:
  "MarshalProtoFrame cd marshal m compression =
     map_sum id (\<lambda>data. CreateFrame cd data False compression) (marshal m)"
proof (cases "marshal m")
  case (Inr data)
  have "(replicate 4 0 :: byte list) = [0, 0, 0, 0]" by (simp add: numeral_eq_Suc)
  with Inr show ?thesis
    by (auto simp: MarshalProtoFrame_def CreateFrame_def CreateFrameWithStatus_eq frame_len_def
        frame_payload_def frame_flag_def compression_defs Let_def)
qed (simp add: MarshalProtoFrame_def)

text \<open>A reader drained call by call.\<close>

fun ReadFrames :: "nat \<Rightarrow> FrameReader \<Rightarrow> (goerr + S2SFrame) list \<times> FrameReader" where
  "ReadFrames 0 fr = ([], fr)"
| "ReadFrames (Suc n) fr =
     (let (res, fr1) = ReadFrame fr; (more, fr2) = ReadFrames n fr1 in (res # more, fr2))"

lemma ReadFrames_stream:
  assumes "parser_inv (fr_parser fr)" "stream_bytes fr = concat (map enc xs) @ rest"
    and "\<forall>x\<in>set xs. \<forall>tl. decode_frame (enc x @ tl) = Decoded (g x) tl"
    and "ReadFrames (length xs) fr = (res, fr')"
  shows "res = map (\<lambda>x. Inr (g x)) xs \<and> stream_bytes fr' = rest \<and>
    stream_end fr' = stream_end fr \<and> parser_inv (fr_parser fr')"
  using assms
proof (induction xs arbitrary: fr res fr')
  case (Cons x xs)
  obtain r1 fr1 where one: "ReadFrame fr = (r1, fr1)" by fastforce
  obtain rs fr2 where more: "ReadFrames (length xs) fr1 = (rs, fr2)" by fastforce
  have dec: "decode_frame (stream_bytes fr) = Decoded (g x) (concat (map enc xs) @ rest)"
    using Cons.prems(2,3) by simp
  with ReadFrame_stream [OF Cons.prems(1) one]
  have "r1 = Inr (g x)" "stream_bytes fr1 = concat (map enc xs) @ rest"
    "stream_end fr1 = stream_end fr" "parser_inv (fr_parser fr1)" by simp_all
  moreover from Cons.IH [OF calculation(4,2) _ more] Cons.prems(3)
  have "rs = map (\<lambda>x. Inr (g x)) xs \<and> stream_bytes fr2 = rest \<and>
    stream_end fr2 = stream_end fr1 \<and> parser_inv (fr_parser fr2)" by simp
  ultimately show ?case using Cons.prems(4) one more by simp
qed simp

lemma decode_frame_prefix:
  assumes "decode_frame (bs @ cs) = Decoded f []" "cs \<noteq> []"
  shows "decode_frame bs = Incomplete"
  using assms by (cases "decode_frame bs")
    (auto dest: decode_frame_append_Decoded [where cs = cs] decode_frame_append_Malformed [where cs = cs])

lemma NewFrameReader_stream [simp]:
  "stream_bytes (NewFrameReader r) = reader_bytes r"
  "stream_end (NewFrameReader r) = reader_end r"
  "parser_inv (fr_parser (NewFrameReader r))"
  by (simp_all add: NewFrameReader_def stream_bytes_def stream_end_def parser_inv_New)

section \<open>Properties\<close>

text \<open>A codec to evaluate the properties with: one marker byte in front of the data.\<close>

definition strip_marker :: "byte list \<Rightarrow> goerr + byte list" where
  "strip_marker d = (case d of [] \<Rightarrow> Inl (Sentinel IoErrUnexpectedEOF) | _ # rest \<Rightarrow> Inr rest)"

definition marker_codec :: codec where
  "marker_codec = \<lparr>zstd_encode = (\<lambda>d. 40 # d), zstd_decode = strip_marker,
     gzip_encode = (\<lambda>d. Inr (31 # d)),
     gzip_reader = (\<lambda>d. if d = [] then Some (Sentinel IoEOF) else None), gzip_decode = strip_marker\<rparr>"

lemma marker_codec_ok: "codec_ok marker_codec"
  by (auto simp: codec_ok_def marker_codec_def strip_marker_def)

text \<open>C18: Messages written as frames, each with its own compression, come back from the reader in
  order with their original bodies, however the transport cuts the byte stream into reads, and the
  reader then reports the end of the stream as \<open>io.EOF\<close>.\<close>

theorem frames_roundtrip:
  assumes "codec_ok cd"
    and "\<forall>m\<in>set msgs. frame_len cd (fst m) False (snd m) \<le> MaxFrameSize"
    and "reader_bytes r = concat (map (\<lambda>m. CreateFrame cd (fst m) False (snd m)) msgs)"
    and "reader_end r = Sentinel IoEOF"
    and "ReadFrames (length msgs) (NewFrameReader r) = (res, fr)"
  shows "map (\<lambda>x. case x of Inl e \<Rightarrow> Inl e | Inr f \<Rightarrow> DecompressedBody cd f) res =
      map (\<lambda>m. Inr (fst m)) msgs \<and> fst (ReadFrame fr) = Inl (Sentinel IoEOF)"
proof -
  let ?g = "\<lambda>m. written_frame cd (fst m) False (snd m) 0"
  have "\<forall>m\<in>set msgs. \<forall>tl. decode_frame (CreateFrame cd (fst m) False (snd m) @ tl) = Decoded (?g m) tl"
    using assms(1,2) by (simp add: CreateFrame_def decode_CreateFrame)
  from ReadFrames_stream [OF _ _ this assms(5), of "[]"] assms(3,4)
  have "res = map (\<lambda>m. Inr (?g m)) msgs" and fin: "stream_bytes fr = []"
    "stream_end fr = Sentinel IoEOF" "parser_inv (fr_parser fr)" by simp_all
  moreover obtain res' fr' where "ReadFrame fr = (res', fr')" by fastforce
  with ReadFrame_stream [OF fin(3) this] fin have "fst (ReadFrame fr) = Inl (Sentinel IoEOF)"
    by (simp add: truncated_def)
  ultimately show ?thesis using DecompressedBody_written [OF assms(1)] by simp
qed

text \<open>C19: The incremental reader implements the frame format: one call returns exactly what
  pattern matching on the bytes still to come says (a frame with the rest left for the next call,
  the format error with nothing consumed, or the end of the stream, as \<open>io.ErrUnexpectedEOF\<close> inside
  a frame), and the call always returns.\<close>

theorem ReadFrame_refines:
  assumes "parser_inv (fr_parser fr)"
  shows "read_outcome (decode_frame (stream_bytes fr)) (fst (ReadFrame fr)) (stream_bytes fr)
      (stream_end fr) (stream_bytes (snd (ReadFrame fr))) \<and>
    stream_end (snd (ReadFrame fr)) = stream_end fr \<and> parser_inv (fr_parser (snd (ReadFrame fr)))"
  using ReadFrame_stream [OF assms prod.collapse [symmetric]] .

text \<open>The result of \<open>ParseFrame\<close> and the bytes it leaves depend only on the bytes pushed, not on
  how they were split over calls of \<open>Push\<close>, on earlier compactions or growth of the buffer.\<close>

theorem ParseFrame_chunk_independent:
  assumes "parser_inv p" "parser_inv q" "unread p @ concat cs = unread q @ concat ds"
  shows "fst (ParseFrame (foldl Push p cs)) = fst (ParseFrame (foldl Push q ds)) \<and>
    unread (snd (ParseFrame (foldl Push p cs))) = unread (snd (ParseFrame (foldl Push q ds)))"
  using assms by (rule parser.parse_chunking)

text \<open>C20: A stream that ends inside a frame is reported as \<open>io.ErrUnexpectedEOF\<close>, never as a
  clean end of the stream and never as a frame, wherever the cut is.\<close>

theorem truncated_frame_detected:
  assumes "codec_ok cd" "frame_len cd data terminal compression \<le> MaxFrameSize"
    and "0 \<le> statusCode" "statusCode < 65536"
    and "CreateFrameWithStatus cd data terminal compression statusCode = seen @ lost"
    and "seen \<noteq> []" "lost \<noteq> []" "reader_bytes r = seen" "reader_end r = Sentinel IoEOF"
  shows "fst (ReadFrame (NewFrameReader r)) = Inl (Sentinel IoErrUnexpectedEOF)"
proof -
  from decode_CreateFrame [OF assms(1-4), of "[]"] assms(5)
  have "decode_frame seen = Incomplete" using decode_frame_prefix [of seen lost] assms(7) by simp
  moreover obtain res fr where "ReadFrame (NewFrameReader r) = (res, fr)" by fastforce
  ultimately show ?thesis
    using ReadFrame_stream [of "NewFrameReader r" res fr] assms(6,8,9) by (simp add: truncated_def)
qed

text \<open>The single-buffer path of \<open>MarshalProtoFrame\<close> (no compression) and its generic path write
  the same bytes as \<open>CreateFrame\<close> on the marshalled message, and a marshalling error is passed on.\<close>

theorem MarshalProtoFrame_CreateFrame:
  "MarshalProtoFrame cd marshal m compression =
     (case marshal m of Inl err \<Rightarrow> Inl err | Inr data \<Rightarrow> Inr (CreateFrame cd data False compression))"
  by (simp add: MarshalProtoFrame_eq split: sum.splits)

section \<open>Witnesses\<close>

text \<open>Two messages, the bytes cut inside a header and inside a body, the last read with \<open>io.EOF\<close>.\<close>

definition two_frames :: io_reader where
  "two_frames = [([0, 0], None), ([3, 0, 7, 8, 0], None), ([0, 2, 0, 9], Some (Sentinel IoEOF))]"

lemma two_frames_stream:
  "reader_bytes two_frames = [0, 0, 3, 0, 7, 8, 0, 0, 2, 0, 9]"
  "reader_end two_frames = Sentinel IoEOF"
  by (simp_all add: two_frames_def)

lemmas frame_eval = CreateFrame_def CreateFrameWithStatus_eq frame_len_def frame_payload_def
  compression_defs header24_def frame_flag_def flag_defs compressionThreshold_def MaxFrameSize_def

theorem frames_roundtrip_witness:
  "map (\<lambda>x. case x of Inl e \<Rightarrow> Inl e | Inr f \<Rightarrow> DecompressedBody marker_codec f)
      (fst (ReadFrames (Suc (Suc 0)) (NewFrameReader two_frames))) = [Inr [7, 8], Inr [9]] \<and>
    fst (ReadFrame (snd (ReadFrames (Suc (Suc 0)) (NewFrameReader two_frames)))) =
      Inl (Sentinel IoEOF)"
  using frames_roundtrip [OF marker_codec_ok _ _ _ prod.collapse [symmetric],
      of "[([7, 8], CompressionNone), ([9], CompressionGzip)]" two_frames]
  by (simp add: two_frames_stream frame_eval del: ReadFrames.simps)

theorem ReadFrame_refines_witness:
  "fst (ReadFrame (NewFrameReader two_frames)) =
      Inr \<lparr>f_Terminal = False, f_Compression = 0, f_StatusCode = None, f_Body = [7, 8],
        f_ReconnectAdvised = False\<rparr> \<and>
    stream_bytes (snd (ReadFrame (NewFrameReader two_frames))) = [0, 0, 2, 0, 9]"
  using ReadFrame_refines [of "NewFrameReader two_frames"]
  by (simp add: two_frames_stream MaxFrameSize_def decode_payload_def frame_compression_def flag_defs
      compression_defs Let_def)

theorem ParseFrame_chunk_independent_witness:
  "fst (ParseFrame (foldl Push NewS2SFrameParser [[0], [0, 2], [0, 9]])) =
     fst (ParseFrame (foldl Push NewS2SFrameParser [[0, 0, 2, 0, 9]])) \<and>
   unread (snd (ParseFrame (foldl Push NewS2SFrameParser [[0], [0, 2], [0, 9]]))) =
     unread (snd (ParseFrame (foldl Push NewS2SFrameParser [[0, 0, 2, 0, 9]])))"
  by (rule ParseFrame_chunk_independent) (simp_all add: parser_inv_New)

theorem truncated_frame_detected_witness:
  "fst (ReadFrame (NewFrameReader [([0, 0, 5], None), ([0x80, 1], None)])) =
     Inl (Sentinel IoErrUnexpectedEOF)"
  by (rule truncated_frame_detected [of marker_codec "[7, 8]" True CompressionNone 404
        "[0, 0, 5, 0x80, 1]" "[0x94, 7, 8]"])
    (simp_all add: marker_codec_ok frame_eval drop_bit_eq_div)

end
