(* ===== verification/Step_Systems.thy ===== *)
theory Step_Systems
  imports S2_Prelude
begin

text \<open>
  Components driven by events: the states reachable from an initial one by steps, and the locale
  in which an invariant of the steps becomes a property of every reachable state.  A system whose
  steps also respect a preorder on states (a counter that only grows, a log that is only extended)
  is \<open>monotone_system\<close>.
\<close>

inductive reach :: "('s \<Rightarrow> bool) \<Rightarrow> ('s \<Rightarrow> 's \<Rightarrow> bool) \<Rightarrow> 's \<Rightarrow> bool"
  for init :: "'s \<Rightarrow> bool" and step :: "'s \<Rightarrow> 's \<Rightarrow> bool" where
  reach_init: "init s \<Longrightarrow> reach init step s"
| reach_step: "reach init step s \<Longrightarrow> step s s' \<Longrightarrow> reach init step s'"

inductive steps :: "('s \<Rightarrow> 's \<Rightarrow> bool) \<Rightarrow> 's \<Rightarrow> 's \<Rightarrow> bool" for step :: "'s \<Rightarrow> 's \<Rightarrow> bool" where
  steps_refl: "steps step s s"
| steps_trans: "steps step s s' \<Longrightarrow> step s' s'' \<Longrightarrow> steps step s s''"

lemma steps_reach: "steps step s s' \<Longrightarrow> reach init step s \<Longrightarrow> reach init step s'"
  by (induction rule: steps.induct) (auto intro: reach_step)

locale invariant_system =
  fixes init :: "'s \<Rightarrow> bool" and step :: "'s \<Rightarrow> 's \<Rightarrow> bool" and inv :: "'s \<Rightarrow> bool"
  assumes init_inv: "init s \<Longrightarrow> inv s"
    and step_inv: "inv s \<Longrightarrow> step s s' \<Longrightarrow> inv s'"
begin

lemma reach_inv: "reach init step s \<Longrightarrow> inv s"
  by (induction rule: reach.induct) (auto intro: init_inv step_inv)

lemma steps_inv: "steps step s s' \<Longrightarrow> inv s \<Longrightarrow> inv s'"
  by (induction rule: steps.induct) (auto intro: step_inv)

end

locale monotone_system = invariant_system +
  fixes rel :: "'a \<Rightarrow> 'a \<Rightarrow> bool"
  assumes rel_refl: "rel s s"
    and rel_trans: "rel a b \<Longrightarrow> rel b c \<Longrightarrow> rel a c"
    and step_rel: "inv s \<Longrightarrow> step s s' \<Longrightarrow> rel s s'"
begin

lemma steps_rel: "steps step s s' \<Longrightarrow> inv s \<Longrightarrow> rel s s'"
proof (induction rule: steps.induct)
  case (steps_trans s s' s'')
  then show ?case by (meson rel_trans step_rel steps_inv)
qed (rule rel_refl)

end

end
