(* ===== verification/Caught_Up.thy ===== *)
theory Caught_Up
  imports Step_Systems Stream_Types Errors
begin

text \<open>
  The caught-up state of a read session (\<open>caughtUpState\<close>, \<open>CaughtUpFuture\<close> of \<open>src/s2/read_session.go\<close>).
  A future is a number; \<open>cu_settled\<close> lists, per future, every settlement (the channel \<open>done\<close> is closed
  with it, so a second one would panic).  Under the mutex each operation is one step.
\<close>

section \<open>State and operations\<close>

datatype caught_up_result = CaughtUpTail StreamPosition | CaughtUpErr goerr

record caughtUpState =
  cu_tail :: "StreamPosition option"
  cu_terminalErr :: "goerr option"
  cu_pending :: "nat list"
  cu_settled :: "nat \<Rightarrow> caught_up_result list"
  cu_nextFuture :: nat

definition new_caughtUp :: caughtUpState where
  "new_caughtUp = \<lparr>cu_tail = None, cu_terminalErr = None, cu_pending = [], cu_settled = (\<lambda>_. []), cu_nextFuture = 0\<rparr>"

definition isCaughtUp :: "caughtUpState \<Rightarrow> bool" where
  "isCaughtUp c \<longleftrightarrow> cu_tail c \<noteq> None"

definition settle :: "caught_up_result \<Rightarrow> nat \<Rightarrow> caughtUpState \<Rightarrow> caughtUpState" where
  "settle res f c = c\<lparr>cu_settled := (cu_settled c)(f := cu_settled c f @ [res])\<rparr>"

definition setCaughtUp :: "StreamPosition \<Rightarrow> caughtUpState \<Rightarrow> caughtUpState" where
  "setCaughtUp tail c =
     (if cu_terminalErr c \<noteq> None then c
      else
        let c = c\<lparr>cu_tail := Some tail\<rparr>;
            c = fold (settle (CaughtUpTail tail)) (cu_pending c) c
        in c\<lparr>cu_pending := []\<rparr>)"

definition setBehind :: "caughtUpState \<Rightarrow> caughtUpState" where
  "setBehind c = (if cu_terminalErr c \<noteq> None then c else c\<lparr>cu_tail := None\<rparr>)"

definition end_caughtUp :: "goerr option \<Rightarrow> caughtUpState \<Rightarrow> caughtUpState" where
  "end_caughtUp err c =
     (if cu_terminalErr c \<noteq> None then c
      else
        let (e, c) = (case err of None \<Rightarrow> (Sentinel ErrSessionClosed, c) | Some e \<Rightarrow> (e, c\<lparr>cu_tail := None\<rparr>));
            c = c\<lparr>cu_terminalErr := Some e\<rparr>;
            c = fold (settle (CaughtUpErr e)) (cu_pending c) c
        in c\<lparr>cu_pending := []\<rparr>)"

definition newFuture :: "caughtUpState \<Rightarrow> nat \<times> caughtUpState" where
  "newFuture c =
     (let f = cu_nextFuture c; c = c\<lparr>cu_nextFuture := f + 1, cu_settled := (cu_settled c)(f := [])\<rparr>
      in case cu_tail c of
           Some tail \<Rightarrow> (f, settle (CaughtUpTail tail) f c)
         | None \<Rightarrow>
             (case cu_terminalErr c of
                Some err \<Rightarrow> (f, settle (CaughtUpErr err) f c)
              | None \<Rightarrow> (f, c\<lparr>cu_pending := cu_pending c @ [f]\<rparr>)))"

text \<open>\<open>Wait\<close> looks at the future first and only then at the context; \<open>None\<close> means it is still blocked.\<close>

definition Wait_future :: "nat option \<Rightarrow> goerr option \<Rightarrow> caughtUpState \<Rightarrow> (StreamPosition \<times> goerr option) option" where
  "Wait_future f ctxErr c = (case f of
     None \<Rightarrow> Some (zero_position, Some (Sentinel ErrSessionClosed))
   | Some f \<Rightarrow>
       (case cu_settled c f of
          CaughtUpTail t # _ \<Rightarrow> Some (t, None)
        | CaughtUpErr e # _ \<Rightarrow> Some (zero_position, Some e)
        | [] \<Rightarrow> (case ctxErr of None \<Rightarrow> None | Some e \<Rightarrow> Some (zero_position, Some e))))"

section \<open>The steps\<close>

inductive caught_up_step :: "caughtUpState \<Rightarrow> caughtUpState \<Rightarrow> bool" where
  cu_caught: "caught_up_step c (setCaughtUp t c)"
| cu_behind: "caught_up_step c (setBehind c)"
| cu_end: "caught_up_step c (end_caughtUp err c)"
| cu_future: "caught_up_step c (snd (newFuture c))"

text \<open>Exactly the pending futures are unsettled, nobody waits while the session is caught up or over,
  and no future is settled twice.\<close>

definition caught_up_inv :: "caughtUpState \<Rightarrow> bool" where
  "caught_up_inv c \<longleftrightarrow> distinct (cu_pending c) \<and> (\<forall>f\<in>set (cu_pending c). f < cu_nextFuture c) \<and>
     (\<forall>f<cu_nextFuture c. if f \<in> set (cu_pending c) then cu_settled c f = [] else length (cu_settled c f) = 1) \<and>
     (cu_tail c \<noteq> None \<or> cu_terminalErr c \<noteq> None \<longrightarrow> cu_pending c = [])"

lemma fold_settle:
  assumes "distinct fs"
  shows "fold (settle res) fs c = c\<lparr>cu_settled := (\<lambda>f. if f \<in> set fs then cu_settled c f @ [res] else cu_settled c f)\<rparr>"
  using assms
proof (induction fs arbitrary: c)
  case (Cons x fs)
  then show ?case by (cases c) (auto simp: settle_def fun_eq_iff)
qed simp

definition caught_up_le :: "caughtUpState \<Rightarrow> caughtUpState \<Rightarrow> bool" where
  "caught_up_le c c' \<longleftrightarrow> cu_nextFuture c \<le> cu_nextFuture c' \<and>
     (\<forall>f<cu_nextFuture c. prefix (cu_settled c f) (cu_settled c' f)) \<and>
     (\<forall>e. cu_terminalErr c = Some e \<longrightarrow> cu_terminalErr c' = Some e)"

lemma setCaughtUp_inv: "caught_up_inv c \<Longrightarrow> caught_up_inv (setCaughtUp t c)"
  by (simp add: caught_up_inv_def setCaughtUp_def Let_def fold_settle)

lemma setBehind_inv: "caught_up_inv c \<Longrightarrow> caught_up_inv (setBehind c)"
  by (auto simp: caught_up_inv_def setBehind_def)

lemma end_caughtUp_inv: "caught_up_inv c \<Longrightarrow> caught_up_inv (end_caughtUp err c)"
  by (cases err) (simp_all add: caught_up_inv_def end_caughtUp_def Let_def fold_settle)

lemma newFuture_inv: "caught_up_inv c \<Longrightarrow> caught_up_inv (snd (newFuture c))"
  by (auto simp: caught_up_inv_def newFuture_def settle_def Let_def less_Suc_eq split: option.splits)

interpretation caught_up: monotone_system "\<lambda>c. c = new_caughtUp" caught_up_step caught_up_inv caught_up_le
proof unfold_locales
  show "c = new_caughtUp \<Longrightarrow> caught_up_inv c" for c by (simp add: caught_up_inv_def new_caughtUp_def)
  show "caught_up_inv c \<Longrightarrow> caught_up_step c c' \<Longrightarrow> caught_up_inv c'" for c c'
    by (erule caught_up_step.cases) (simp_all add: setCaughtUp_inv setBehind_inv end_caughtUp_inv newFuture_inv)
  show "caught_up_le c c" for c by (simp add: caught_up_le_def)
  show "caught_up_le a b \<Longrightarrow> caught_up_le b c \<Longrightarrow> caught_up_le a c" for a b c
    unfolding caught_up_le_def by (auto intro: prefix_order.trans)
  show "caught_up_le c c'" if inv: "caught_up_inv c" and st: "caught_up_step c c'" for c c'
    using st
  proof cases
    case (cu_caught t)
    with inv show ?thesis by (auto simp: caught_up_le_def setCaughtUp_def caught_up_inv_def Let_def fold_settle)
  next
    case (cu_end err)
    with inv show ?thesis
      by (cases err) (auto simp: caught_up_le_def end_caughtUp_def caught_up_inv_def Let_def fold_settle)
  next
    case cu_future
    then show ?thesis by (auto simp: caught_up_le_def newFuture_def settle_def Let_def split: option.splits)
  qed (simp add: caught_up_le_def setBehind_def)
qed

section \<open>Properties\<close>

text \<open>A future of the caught-up state is settled exactly once, with what the state was when it stopped
  being pending; afterwards every \<open>Wait\<close> on it returns that answer at once and whatever the session does
  the answer stays; and as soon as the session is over every future ever made is settled.\<close>

theorem caught_up_futures:
  assumes "reach (\<lambda>c. c = new_caughtUp) caught_up_step c" "f < cu_nextFuture c" "steps caught_up_step c c'"
  shows "length (cu_settled c f) \<le> 1 \<and>
    (\<forall>r. cu_settled c f = [r] \<longrightarrow> cu_settled c' f = [r] \<and> Wait_future (Some f) ctxErr c' = Wait_future (Some f) None c) \<and>
    (cu_terminalErr c \<noteq> None \<or> isCaughtUp c \<longrightarrow> (\<exists>res. Wait_future (Some f) None c = Some res))"
proof -
  have inv: "caught_up_inv c" by (rule caught_up.reach_inv [OF assms(1)])
  have inv': "caught_up_inv c'" by (rule caught_up.steps_inv [OF assms(3) inv])
  have le: "caught_up_le c c'" by (rule caught_up.steps_rel [OF assms(3) inv])
  have small: "length (cu_settled d f) \<le> 1" if "caught_up_inv d" "f < cu_nextFuture d" for d
    using that by (cases "f \<in> set (cu_pending d)") (simp_all add: caught_up_inv_def)
  have "f < cu_nextFuture c'" using le assms(2) by (simp add: caught_up_le_def)
  then have one: "length (cu_settled c f) \<le> 1" "length (cu_settled c' f) \<le> 1"
    using small inv inv' assms(2) by blast+
  have keep: "cu_settled c' f = [r]" if "cu_settled c f = [r]" for r
    using le assms(2) that one(2) by (auto simp: caught_up_le_def prefix_def)
  moreover have "Wait_future (Some f) ctxErr c' = Wait_future (Some f) None c" if "cu_settled c f = [r]" for r
    using that keep [OF that] by (simp add: Wait_future_def split: caught_up_result.splits)
  moreover have "\<exists>res. Wait_future (Some f) None c = Some res" if "cu_terminalErr c \<noteq> None \<or> isCaughtUp c"
  proof -
    have "cu_pending c = []" using inv that by (auto simp: caught_up_inv_def isCaughtUp_def)
    then have "length (cu_settled c f) = 1" using inv assms(2) by (auto simp: caught_up_inv_def)
    then show ?thesis by (auto simp: Wait_future_def length_Suc_conv split: caught_up_result.splits)
  qed
  ultimately show ?thesis using one by blast
qed

section \<open>Witness\<close>

theorem caught_up_futures_witness:
  "cu_settled (setCaughtUp zero_position (snd (newFuture new_caughtUp))) 0 = [CaughtUpTail zero_position] \<and>
    (\<exists>res. Wait_future (Some 0) None (setCaughtUp zero_position (snd (newFuture new_caughtUp))) = Some res)"
proof -
  let ?c1 = "snd (newFuture new_caughtUp)"
  let ?c2 = "setCaughtUp zero_position ?c1"
  have "reach (\<lambda>c. c = new_caughtUp) caught_up_step ?c2"
  proof (rule reach_step [where s = ?c1])
    have "reach (\<lambda>c. c = new_caughtUp) caught_up_step new_caughtUp" by (rule reach_init) simp
    then show "reach (\<lambda>c. c = new_caughtUp) caught_up_step ?c1" by (rule reach_step) (rule cu_future)
  qed (rule cu_caught)
  moreover have "cu_settled ?c2 0 = [CaughtUpTail zero_position]" "0 < cu_nextFuture ?c2" "isCaughtUp ?c2"
    by (simp_all add: newFuture_def new_caughtUp_def setCaughtUp_def settle_def isCaughtUp_def Let_def)
  ultimately have "\<exists>res. Wait_future (Some 0) None ?c2 = Some res"
    using caught_up_futures [of ?c2 0 ?c2 None, OF _ _ steps_refl] by simp
  then show ?thesis using \<open>cu_settled ?c2 0 = [CaughtUpTail zero_position]\<close> by blast
qed

end
