(* ===== verification/Records.thy ===== *)
theory Records
  imports Errors
begin

unbundle bit_operations_syntax

text \<open>
  Records on their way to and from the service: metered sizes and command records
  (\<open>src/s2/append_utils.go\<close>), validation of an append input and the conversions between the SDK's
  types and the protobuf messages (\<open>src/s2/stream.go\<close>, \<open>src/s2/append.go\<close>,
  \<open>src/generated/s2.pb.go\<close>).

  \<open>convertAppendInputToProto\<close> fills one array of header values and one array of pointers shared by
  all records; the model keeps both arrays and the slice bounds, a pointer being an index, and
  \<open>convertAppendInputToProto_eq\<close> shows what the message reads as afterwards.
\<close>

section \<open>Metered sizes\<close>

definition headers_size :: "Header list \<Rightarrow> nat" where
  "headers_size hs = fold (\<lambda>h acc. acc + (length (h_Name h) + length (h_Value h))) hs 0"

definition MeteredPayloadBytes :: "AppendRecord \<Rightarrow> u64" where
  "MeteredPayloadBytes record =
     (let numHeaders = length (ar_Headers record);
          headersSize = headers_size (ar_Headers record);
          bodySize = length (ar_Body record)
      in word_of_nat (8 + 2 * numHeaders + headersSize + bodySize))"

definition MeteredSequencedRecordBytes :: "SequencedRecord \<Rightarrow> u64" where
  "MeteredSequencedRecordBytes record =
     (let numHeaders = length (sr_Headers record);
          headersSize = headers_size (sr_Headers record);
          bodySize = length (sr_Body record)
      in word_of_nat (8 + 2 * numHeaders + headersSize + bodySize))"

definition metered_total :: "AppendRecord list \<Rightarrow> u64" where
  "metered_total records = fold (\<lambda>r tot. tot + MeteredPayloadBytes r) records 0"

definition MeteredBatchBytes :: "AppendRecord list \<Rightarrow> int" where
  "MeteredBatchBytes records = sint (metered_total records)"

section \<open>Command records\<close>

definition PutUint64 :: "u64 \<Rightarrow> byte list" where
  "PutUint64 v = map (\<lambda>k. ucast (drop_bit k v)) [56, 48, 40, 32, 24, 16, 8, 0]"

definition NewFenceCommandRecord :: "string \<Rightarrow> u64 option \<Rightarrow> AppendRecord" where
  "NewFenceCommandRecord token timestamp =
     (let record = \<lparr>ar_Timestamp = None,
            ar_Headers = [\<lparr>h_Name = [], h_Value = bytes_of ''fence''\<rparr>], ar_Body = bytes_of token\<rparr>
      in case timestamp of None \<Rightarrow> record | Some ts \<Rightarrow> record\<lparr>ar_Timestamp := Some ts\<rparr>)"

definition NewTrimCommandRecord :: "u64 \<Rightarrow> u64 option \<Rightarrow> AppendRecord" where
  "NewTrimCommandRecord seqNum timestamp =
     (let buf = PutUint64 seqNum;
          record = \<lparr>ar_Timestamp = None,
            ar_Headers = [\<lparr>h_Name = [], h_Value = bytes_of ''trim''\<rparr>], ar_Body = buf\<rparr>
      in case timestamp of None \<Rightarrow> record | Some ts \<Rightarrow> record\<lparr>ar_Timestamp := Some ts\<rparr>)"

section \<open>Validation\<close>

definition MaxBatchRecords :: nat where "MaxBatchRecords = 1000"
definition MaxBatchMeteredBytes :: int where "MaxBatchMeteredBytes = 1 * 1024 * 1024"
definition MaxFencingTokenLength :: nat where "MaxFencingTokenLength = 36"

definition validateAppendInput :: "AppendInput option \<Rightarrow> goerr + int" where
  "validateAppendInput input = (case input of
     None \<Rightarrow> Inl (newValidationError ''append input must not be nil'')
   | Some input \<Rightarrow>
       if length (ai_Records input) = 0 then
         Inl (newValidationError ''append input must contain at least one record'')
       else if length (ai_Records input) > MaxBatchRecords then
         Inl (newValidationError (''cannot append more than '' @ dec_nat MaxBatchRecords @
           '' records at once, got '' @ dec_nat (length (ai_Records input))))
       else if (case ai_FencingToken input of None \<Rightarrow> False
                | Some t \<Rightarrow> length t > MaxFencingTokenLength) then
         Inl (newValidationError (''fencing token exceeds '' @ dec_nat MaxFencingTokenLength @
           '' bytes in length''))
       else
         let size = MeteredBatchBytes (ai_Records input) in
         if size > MaxBatchMeteredBytes then
           Inl (newValidationError (''batch size '' @ dec_int size @ '' bytes exceeds maximum '' @
             dec_int MaxBatchMeteredBytes @ '' bytes (1 MiB)''))
         else Inr size)"

definition prepareAppendInput :: "AppendInput option \<Rightarrow> goerr + AppendInput option \<times> int" where
  "prepareAppendInput input = (case validateAppendInput input of
     Inl err \<Rightarrow> Inl err | Inr sz \<Rightarrow> Inr (cloneAppendInput input, sz))"

section \<open>Protobuf messages\<close>

record pb_StreamPosition =
  pbp_SeqNum :: u64
  pbp_Timestamp :: u64

record pb_Header =
  pbh_Name :: "byte list"
  pbh_Value :: "byte list"

record pb_AppendRecord =
  pba_Timestamp :: "u64 option"
  pba_Headers :: "pb_Header list"
  pba_Body :: "byte list"

record pb_AppendInput =
  pbi_Records :: "pb_AppendRecord list"
  pbi_MatchSeqNum :: "u64 option"
  pbi_FencingToken :: "string option"

record pb_AppendAck =
  pbk_Start :: "pb_StreamPosition option"
  pbk_End :: "pb_StreamPosition option"
  pbk_Tail :: "pb_StreamPosition option"

record pb_SequencedRecord =
  pbs_SeqNum :: u64
  pbs_Timestamp :: u64
  pbs_Headers :: "pb_Header list"
  pbs_Body :: "byte list"

record pb_ReadBatch =
  pbb_Records :: "pb_SequencedRecord list"
  pbb_Tail :: "pb_StreamPosition option"

definition convertPbStreamPosition :: "pb_StreamPosition option \<Rightarrow> StreamPosition option" where
  "convertPbStreamPosition pbPos = (case pbPos of None \<Rightarrow> None
     | Some p \<Rightarrow> Some \<lparr>sp_SeqNum = pbp_SeqNum p, sp_Timestamp = pbp_Timestamp p\<rparr>)"

definition convertPbSequencedRecord :: "pb_SequencedRecord \<Rightarrow> SequencedRecord" where
  "convertPbSequencedRecord r =
     (let headers = map (\<lambda>h. \<lparr>h_Name = pbh_Name h, h_Value = pbh_Value h\<rparr>) (pbs_Headers r)
      in \<lparr>sr_Body = pbs_Body r, sr_Headers = headers, sr_SeqNum = pbs_SeqNum r,
          sr_Timestamp = pbs_Timestamp r\<rparr>)"

definition convertPbReadBatch :: "pb_ReadBatch \<Rightarrow> ReadBatch" where
  "convertPbReadBatch b =
     (let batch = \<lparr>rb_Records = map convertPbSequencedRecord (pbb_Records b), rb_Tail = None\<rparr>
      in case pbb_Tail b of None \<Rightarrow> batch
         | Some t \<Rightarrow> batch\<lparr>rb_Tail := convertPbStreamPosition (Some t)\<rparr>)"

text \<open>\<open>unmarshal\<close> is \<open>proto.Unmarshal\<close> for the message type.\<close>

definition parseReadBatch ::
    "(byte list \<Rightarrow> goerr + pb_ReadBatch) \<Rightarrow> byte list \<Rightarrow> goerr + ReadBatch" where
  "parseReadBatch unmarshal data = (case unmarshal data of
     Inl err \<Rightarrow> Inl (errorf_w ''failed to parse ReadBatch protobuf: '' err)
   | Inr pbBatch \<Rightarrow> Inr (convertPbReadBatch pbBatch))"

definition convertPbAppendAck :: "pb_AppendAck \<Rightarrow> AppendAck" where
  "convertPbAppendAck pbAck =
     (let pos = (\<lambda>p. \<lparr>sp_SeqNum = pbp_SeqNum p, sp_Timestamp = pbp_Timestamp p\<rparr>);
          ack = \<lparr>aa_Start = zero_position, aa_End = zero_position, aa_Tail = zero_position\<rparr>;
          ack = (case pbk_Start pbAck of None \<Rightarrow> ack | Some p \<Rightarrow> ack\<lparr>aa_Start := pos p\<rparr>);
          ack = (case pbk_End pbAck of None \<Rightarrow> ack | Some p \<Rightarrow> ack\<lparr>aa_End := pos p\<rparr>)
      in case pbk_Tail pbAck of None \<Rightarrow> ack | Some p \<Rightarrow> ack\<lparr>aa_Tail := pos p\<rparr>)"

subsection \<open>The append message and its shared header arrays\<close>

text \<open>
  \<open>hs_values\<close> and \<open>hs_ptrs\<close> are \<open>headerValues\<close> and \<open>headerPtrs\<close> (an unset pointer is \<open>None\<close>),
  \<open>hs_offset\<close> is \<open>headerOffset\<close>.  A record being built keeps its \<open>Headers\<close> as the slice
  \<open>headerPtrs[lo:hi:hi]\<close>.
\<close>

record header_store =
  hs_values :: "pb_Header list"
  hs_ptrs :: "nat option list"
  hs_offset :: nat

record pb_record_draft =
  pd_Timestamp :: "u64 option"
  pd_Headers :: "(nat \<times> nat) option"
  pd_Body :: "byte list"

fun fill_headers :: "nat \<Rightarrow> nat \<Rightarrow> Header list \<Rightarrow> header_store \<Rightarrow> header_store" where
  "fill_headers offset j [] st = st"
| "fill_headers offset j (header # rest) st =
     fill_headers offset (Suc j) rest
       (st\<lparr>hs_values := (hs_values st)[offset + j := \<lparr>pbh_Name = h_Name header, pbh_Value = h_Value header\<rparr>],
           hs_ptrs := (hs_ptrs st)[offset + j := Some (offset + j)]\<rparr>)"

definition convert_record :: "AppendRecord \<Rightarrow> header_store \<Rightarrow> pb_record_draft \<times> header_store" where
  "convert_record record st =
     (let pbRecord = \<lparr>pd_Timestamp = ar_Timestamp record, pd_Headers = None, pd_Body = []\<rparr>;
          (pbRecord, st) =
            (if length (ar_Headers record) > 0 then
               let end = hs_offset st + length (ar_Headers record)
               in (pbRecord\<lparr>pd_Headers := Some (hs_offset st, end)\<rparr>,
                   (fill_headers (hs_offset st) 0 (ar_Headers record) st)\<lparr>hs_offset := end\<rparr>)
             else (pbRecord, st))
      in ((if length (ar_Body record) > 0 then pbRecord\<lparr>pd_Body := ar_Body record\<rparr> else pbRecord), st))"

fun convert_records :: "AppendRecord list \<Rightarrow> header_store \<Rightarrow> pb_record_draft list \<times> header_store" where
  "convert_records [] st = ([], st)"
| "convert_records (r # rs) st =
     (let (d, st) = convert_record r st; (ds, st) = convert_records rs st in (d # ds, st))"

text \<open>Reading a message: dereference the slice of pointers.\<close>

definition slice_headers :: "header_store \<Rightarrow> (nat \<times> nat) option \<Rightarrow> pb_Header list" where
  "slice_headers st sl = (case sl of None \<Rightarrow> []
     | Some (lo, hi) \<Rightarrow> map (\<lambda>p. hs_values st ! the p) (take (hi - lo) (drop lo (hs_ptrs st))))"

definition read_record :: "header_store \<Rightarrow> pb_record_draft \<Rightarrow> pb_AppendRecord" where
  "read_record st d = \<lparr>pba_Timestamp = pd_Timestamp d,
     pba_Headers = slice_headers st (pd_Headers d), pba_Body = pd_Body d\<rparr>"

definition convertAppendInputToProto :: "AppendInput option \<Rightarrow> pb_AppendInput option" where
  "convertAppendInputToProto input = (case input of None \<Rightarrow> None | Some i \<Rightarrow>
     (let headerCount = fold (\<lambda>r acc. acc + length (ar_Headers r)) (ai_Records i) 0;
          st = \<lparr>hs_values = replicate headerCount \<lparr>pbh_Name = [], pbh_Value = []\<rparr>,
                hs_ptrs = replicate headerCount None, hs_offset = 0\<rparr>;
          (drafts, st) = convert_records (ai_Records i) st
      in Some \<lparr>pbi_Records = map (read_record st) drafts, pbi_MatchSeqNum = ai_MatchSeqNum i,
               pbi_FencingToken = ai_FencingToken i\<rparr>))"

section \<open>Sizes as numbers\<close>

text \<open>The metered size without the 64-bit truncation.\<close>

definition metered_size :: "AppendRecord \<Rightarrow> nat" where
  "metered_size r = 8 + 2 * length (ar_Headers r) +
     (\<Sum>h\<leftarrow>ar_Headers r. length (h_Name h) + length (h_Value h)) + length (ar_Body r)"

lemma fold_plus_start: "fold (\<lambda>x acc. acc + f x) xs a = a + (\<Sum>x\<leftarrow>xs. f x)"
  for f :: "'a \<Rightarrow> 'b::comm_monoid_add"
  by (induction xs arbitrary: a) (simp_all add: ac_simps)

lemma headers_size_eq: "headers_size hs = (\<Sum>h\<leftarrow>hs. length (h_Name h) + length (h_Value h))"
  by (simp add: headers_size_def fold_plus_start)

lemma MeteredPayloadBytes_eq: "MeteredPayloadBytes r = word_of_nat (metered_size r)"
  by (simp add: MeteredPayloadBytes_def metered_size_def headers_size_eq Let_def)

lemma metered_total_eq: "metered_total rs = word_of_nat (\<Sum>r\<leftarrow>rs. metered_size r)"
proof -
  have "(\<Sum>r\<leftarrow>rs. MeteredPayloadBytes r) = word_of_nat (\<Sum>r\<leftarrow>rs. metered_size r)"
    by (induction rs) (simp_all add: MeteredPayloadBytes_eq)
  then show ?thesis by (simp add: metered_total_def fold_plus_start)
qed

lemma sint_word_of_nat_small: "n < 2 ^ 63 \<Longrightarrow> sint (word_of_nat n :: u64) = int n"
  by (simp add: signed_of_nat signed_take_bit_int_eq_self)

lemma MeteredBatchBytes_eq:
  "(\<Sum>r\<leftarrow>rs. metered_size r) < 2 ^ 63 \<Longrightarrow> MeteredBatchBytes rs = int (\<Sum>r\<leftarrow>rs. metered_size r)"
  unfolding MeteredBatchBytes_def metered_total_eq by (rule sint_word_of_nat_small)

lemma metered_size_pos: "8 \<le> metered_size r"
  by (simp add: metered_size_def)

section \<open>Validation accepts exactly the batches within the limits\<close>

lemma validateAppendInput_Inr:
  "validateAppendInput (Some i) = Inr n \<longleftrightarrow>
     ai_Records i \<noteq> [] \<and> length (ai_Records i) \<le> MaxBatchRecords \<and>
     (\<forall>t. ai_FencingToken i = Some t \<longrightarrow> length t \<le> MaxFencingTokenLength) \<and>
     n = MeteredBatchBytes (ai_Records i) \<and> n \<le> MaxBatchMeteredBytes"
  by (auto simp: validateAppendInput_def Let_def not_less split: option.splits)

lemma validateAppendInput_Inl:
  "validateAppendInput i = Inl e \<Longrightarrow> \<exists>m. e = newValidationError m"
  by (auto simp: validateAppendInput_def Let_def split: option.splits if_splits)

lemma prepareAppendInput_Inr:
  "prepareAppendInput i = Inr (j, n) \<longleftrightarrow> validateAppendInput i = Inr n \<and> j = i"
  by (auto simp: prepareAppendInput_def split: sum.splits)

section \<open>The append message reads back as its input\<close>

definition pb_header_of :: "Header \<Rightarrow> pb_Header" where
  "pb_header_of h = \<lparr>pbh_Name = h_Name h, pbh_Value = h_Value h\<rparr>"

definition pb_record_of :: "AppendRecord \<Rightarrow> pb_AppendRecord" where
  "pb_record_of r = \<lparr>pba_Timestamp = ar_Timestamp r, pba_Headers = map pb_header_of (ar_Headers r),
     pba_Body = ar_Body r\<rparr>"

definition store_room :: "header_store \<Rightarrow> nat \<Rightarrow> bool" where
  "store_room st n \<longleftrightarrow> length (hs_ptrs st) = length (hs_values st) \<and>
     hs_offset st + n \<le> length (hs_values st)"

text \<open>Writing below an index leaves the arrays below it as they were.\<close>

definition same_below :: "nat \<Rightarrow> header_store \<Rightarrow> header_store \<Rightarrow> bool" where
  "same_below n st st' \<longleftrightarrow> length (hs_values st') = length (hs_values st) \<and>
     length (hs_ptrs st') = length (hs_ptrs st) \<and>
     (\<forall>i<n. hs_values st' ! i = hs_values st ! i \<and> hs_ptrs st' ! i = hs_ptrs st ! i)"

lemma same_below_trans:
  "same_below n a b \<Longrightarrow> same_below m b c \<Longrightarrow> n \<le> m \<Longrightarrow> same_below n a c"
  by (auto simp: same_below_def)

lemma fill_headers_spec:
  assumes "length (hs_ptrs st) = length (hs_values st)"
    and "off + j + length hs \<le> length (hs_values st)"
  shows "same_below (off + j) st (fill_headers off j hs st) \<and>
    (\<forall>k<length hs. hs_values (fill_headers off j hs st) ! (off + j + k) = pb_header_of (hs ! k) \<and>
      hs_ptrs (fill_headers off j hs st) ! (off + j + k) = Some (off + j + k))"
  using assms
proof (induction hs arbitrary: j st)
  case (Cons h hs)
  let ?st = "st\<lparr>hs_values := (hs_values st)[off + j := pb_header_of h],
    hs_ptrs := (hs_ptrs st)[off + j := Some (off + j)]\<rparr>"
  have IH: "same_below (off + Suc j) ?st (fill_headers off (Suc j) hs ?st)"
    "\<forall>k<length hs. hs_values (fill_headers off (Suc j) hs ?st) ! (off + Suc j + k) = pb_header_of (hs ! k) \<and>
      hs_ptrs (fill_headers off (Suc j) hs ?st) ! (off + Suc j + k) = Some (off + Suc j + k)"
    using Cons.IH [of ?st "Suc j"] Cons.prems by simp_all
  have step: "fill_headers off j (h # hs) st = fill_headers off (Suc j) hs ?st"
    by (simp add: pb_header_of_def)
  have here: "hs_values (fill_headers off (Suc j) hs ?st) ! (off + j) = pb_header_of h"
    "hs_ptrs (fill_headers off (Suc j) hs ?st) ! (off + j) = Some (off + j)"
    using IH(1) Cons.prems by (auto simp: same_below_def)
  have "\<forall>k<length (h # hs). hs_values (fill_headers off j (h # hs) st) ! (off + j + k) =
      pb_header_of ((h # hs) ! k) \<and>
    hs_ptrs (fill_headers off j (h # hs) st) ! (off + j + k) = Some (off + j + k)"
  proof (intro allI impI)
    fix k assume "k < length (h # hs)"
    then show "hs_values (fill_headers off j (h # hs) st) ! (off + j + k) = pb_header_of ((h # hs) ! k) \<and>
      hs_ptrs (fill_headers off j (h # hs) st) ! (off + j + k) = Some (off + j + k)"
      using IH(2) here unfolding step by (cases k) simp_all
  qed
  moreover have "same_below (off + j) st (fill_headers off j (h # hs) st)"
    using IH(1) unfolding step by (simp add: same_below_def)
  ultimately show ?case by blast
qed (simp add: same_below_def)

lemma fill_headers_offset [simp]: "hs_offset (fill_headers off j hs st) = hs_offset st"
  by (induction off j hs st rule: fill_headers.induct) auto

lemma slice_headers_slice:
  assumes "\<forall>k<n. hs_values st ! (lo + k) = g k \<and> hs_ptrs st ! (lo + k) = Some (lo + k)"
    and "lo + n \<le> length (hs_ptrs st)"
  shows "slice_headers st (Some (lo, lo + n)) = map g [0..<n]"
  unfolding slice_headers_def using assms by (auto intro!: nth_equalityI)

lemma convert_record_spec:
  assumes "convert_record r st = (d, st')" and "store_room st (length (ar_Headers r) + n)"
  shows "same_below (hs_offset st) st st' \<and> hs_offset st' = hs_offset st + length (ar_Headers r) \<and>
    store_room st' n \<and>
    (\<forall>st''. same_below (hs_offset st') st' st'' \<longrightarrow> read_record st'' d = pb_record_of r)"
proof (cases "ar_Headers r = []")
  case True
  with assms show ?thesis
    by (auto simp: convert_record_def Let_def same_below_def store_room_def read_record_def
        slice_headers_def pb_record_of_def)
next
  case False
  let ?n = "length (ar_Headers r)" and ?lo = "hs_offset st"
  let ?fill = "fill_headers ?lo 0 (ar_Headers r) st"
  have room: "length (hs_ptrs st) = length (hs_values st)" "?lo + 0 + ?n \<le> length (hs_values st)"
    using assms(2) by (simp_all add: store_room_def)
  note fill = fill_headers_spec [OF room]
  from False assms(1) have st': "st' = ?fill\<lparr>hs_offset := ?lo + ?n\<rparr>"
    and d: "pd_Timestamp d = ar_Timestamp r" "pd_Headers d = Some (?lo, ?lo + ?n)" "pd_Body d = ar_Body r"
    by (auto simp: convert_record_def Let_def split: if_splits)
  have "read_record st'' d = pb_record_of r" if "same_below (hs_offset st') st' st''" for st''
  proof -
    have "slice_headers st'' (Some (?lo, ?lo + ?n)) = map (\<lambda>k. pb_header_of (ar_Headers r ! k)) [0..<?n]"
      by (rule slice_headers_slice) (use that fill room in \<open>auto simp: st' same_below_def\<close>)
    also have "\<dots> = map pb_header_of (ar_Headers r)" by (rule nth_equalityI) simp_all
    finally show ?thesis by (simp add: read_record_def d pb_record_of_def)
  qed
  with fill assms(2) show ?thesis by (simp add: st' same_below_def store_room_def)
qed

lemma convert_records_spec:
  assumes "convert_records rs st = (ds, st')" and "store_room st (\<Sum>r\<leftarrow>rs. length (ar_Headers r))"
  shows "same_below (hs_offset st) st st' \<and> map (read_record st') ds = map pb_record_of rs"
  using assms
proof (induction rs arbitrary: st ds)
  case (Cons r rs)
  obtain d st1 where one: "convert_record r st = (d, st1)" by fastforce
  obtain ds' where more: "convert_records rs st1 = (ds', st')" "ds = d # ds'"
    using Cons.prems(1) one by (auto split: prod.splits)
  have spec: "same_below (hs_offset st) st st1" "hs_offset st \<le> hs_offset st1"
    "store_room st1 (\<Sum>r\<leftarrow>rs. length (ar_Headers r))"
    "\<And>st''. same_below (hs_offset st1) st1 st'' \<Longrightarrow> read_record st'' d = pb_record_of r"
    using convert_record_spec [OF one] Cons.prems(2) by simp_all
  with Cons.IH [OF more(1) spec(3)] more(2) show ?case by (auto dest: same_below_trans)
qed (simp add: same_below_def)

lemma convertAppendInputToProto_Some:
  "convertAppendInputToProto (Some i) = Some \<lparr>pbi_Records = map pb_record_of (ai_Records i),
     pbi_MatchSeqNum = ai_MatchSeqNum i, pbi_FencingToken = ai_FencingToken i\<rparr>"
proof -
  let ?n = "fold (\<lambda>r acc. acc + length (ar_Headers r)) (ai_Records i) 0"
  let ?st = "\<lparr>hs_values = replicate ?n \<lparr>pbh_Name = [], pbh_Value = []\<rparr>,
    hs_ptrs = replicate ?n None, hs_offset = 0\<rparr>"
  obtain ds st' where run: "convert_records (ai_Records i) ?st = (ds, st')" by fastforce
  have "store_room ?st (\<Sum>r\<leftarrow>ai_Records i. length (ar_Headers r))"
    by (simp add: store_room_def fold_plus_start)
  with convert_records_spec [OF run] have "map (read_record st') ds = map pb_record_of (ai_Records i)"
    by simp
  with run show ?thesis by (simp add: convertAppendInputToProto_def)
qed

section \<open>Command records\<close>

definition be_value :: "byte list \<Rightarrow> nat" where
  "be_value bs = foldl (\<lambda>acc b. 256 * acc + unat b) 0 bs"

lemma unat_shifted_byte: "unat (ucast (drop_bit k v) :: byte) = unat v div 2 ^ k mod 256" for v :: u64
  using unsigned_less [of v, where ?'a = nat]
  by (simp only: unsigned_ucast_eq unsigned_drop_bit_eq) (simp add: take_bit_eq_mod drop_bit_eq_div)

lemma byte_step: "256 * (n div (256 * m)) + n div m mod 256 = n div m" for n m :: nat
  by (metis div_mult2_eq mult.commute mult_div_mod_eq)

lemma PutUint64_value: "be_value (PutUint64 v) = unat v"
proof -
  let ?n = "unat v"
  have top: "?n div 2 ^ 56 < 256"
  proof -
    have "?n < 2 ^ LENGTH(64)" by (rule unsigned_less)
    then show ?thesis by (simp add: less_mult_imp_div_less)
  qed
  have "be_value (PutUint64 v) = 256 * (256 * (256 * (256 * (256 * (256 * (256 * (?n div 2 ^ 56) +
      ?n div 2 ^ 48 mod 256) + ?n div 2 ^ 40 mod 256) + ?n div 2 ^ 32 mod 256) +
      ?n div 2 ^ 24 mod 256) + ?n div 2 ^ 16 mod 256) + ?n div 2 ^ 8 mod 256) + ?n mod 256"
    using top
    by (simp only: be_value_def PutUint64_def list.map foldl_Cons foldl_Nil unat_shifted_byte
        mod_less mult_0_right add_0) simp
  also have "\<dots> = ?n"
    using byte_step [of ?n "2 ^ 48"] byte_step [of ?n "2 ^ 40"] byte_step [of ?n "2 ^ 32"]
      byte_step [of ?n "2 ^ 24"] byte_step [of ?n "2 ^ 16"] byte_step [of ?n "2 ^ 8"]
      byte_step [of ?n 1]
    by simp
  finally show ?thesis .
qed

section \<open>Properties\<close>

text \<open>An append input is accepted exactly when it has between 1 and 1000 records, a fencing token
  of at most 36 bytes and at most 1 MiB of metered bytes, and the size returned is the exact sum of
  the record sizes; every rejection is a validation error of the SDK.\<close>

theorem validateAppendInput_exact:
  assumes "(\<Sum>r\<leftarrow>ai_Records i. metered_size r) < 2 ^ 63"
  shows "(validateAppendInput (Some i) = Inr (int (\<Sum>r\<leftarrow>ai_Records i. metered_size r)) \<longleftrightarrow>
      1 \<le> length (ai_Records i) \<and> length (ai_Records i) \<le> 1000 \<and>
      (case ai_FencingToken i of None \<Rightarrow> True | Some t \<Rightarrow> length t \<le> 36) \<and>
      (\<Sum>r\<leftarrow>ai_Records i. metered_size r) \<le> 1048576) \<and>
    (\<forall>n. validateAppendInput (Some i) = Inr n \<longrightarrow> n = int (\<Sum>r\<leftarrow>ai_Records i. metered_size r)) \<and>
    (\<forall>e. validateAppendInput (Some i) = Inl e \<longrightarrow> (\<exists>m. e = newValidationError m))"
  using MeteredBatchBytes_eq [OF assms] validateAppendInput_Inl [of "Some i"]
  by (auto simp: validateAppendInput_Inr MaxBatchRecords_def MaxFencingTokenLength_def
      MaxBatchMeteredBytes_def Suc_le_eq split: option.splits)

text \<open>C25: The protobuf message built over the shared header arrays reads back as the input: every
  record in order with its own headers, timestamp and body, whatever headers the other records have.\<close>

theorem convertAppendInputToProto_faithful:
  "map_option (\<lambda>m. map (\<lambda>r. \<lparr>ar_Timestamp = pba_Timestamp r,
        ar_Headers = map (\<lambda>h. \<lparr>h_Name = pbh_Name h, h_Value = pbh_Value h\<rparr>) (pba_Headers r),
        ar_Body = pba_Body r\<rparr>) (pbi_Records m)) (convertAppendInputToProto (Some i)) =
     Some (ai_Records i) \<and>
   map_option pbi_MatchSeqNum (convertAppendInputToProto (Some i)) = Some (ai_MatchSeqNum i) \<and>
   map_option pbi_FencingToken (convertAppendInputToProto (Some i)) = Some (ai_FencingToken i)"
  by (simp add: convertAppendInputToProto_Some pb_record_of_def pb_header_of_def comp_def map_idI)

text \<open>A trim command carries its sequence number as eight big-endian bytes and a fence command
  its token; both are recognised as command records when read back, and their metered sizes are 22
  and 15 plus the token length.\<close>

theorem command_records:
  "be_value (ar_Body (NewTrimCommandRecord n ts)) = unat n \<and>
   string_of (ar_Body (NewFenceCommandRecord token ts)) = token \<and>
   metered_size (NewTrimCommandRecord n ts) = 22 \<and>
   metered_size (NewFenceCommandRecord token ts) = 15 + length token \<and>
   (\<forall>r \<in> {NewTrimCommandRecord n ts, NewFenceCommandRecord token ts}.
      ar_Timestamp r = ts \<and>
      IsCommandRecord \<lparr>sr_Body = ar_Body r, sr_Headers = ar_Headers r, sr_SeqNum = s, sr_Timestamp = t\<rparr>)"
proof -
  have trim: "ar_Body (NewTrimCommandRecord n ts) = PutUint64 n"
    "ar_Headers (NewTrimCommandRecord n ts) = [\<lparr>h_Name = [], h_Value = bytes_of ''trim''\<rparr>]"
    "ar_Timestamp (NewTrimCommandRecord n ts) = ts"
    by (simp_all add: NewTrimCommandRecord_def Let_def split: option.splits)
  have fence: "ar_Body (NewFenceCommandRecord token ts) = bytes_of token"
    "ar_Headers (NewFenceCommandRecord token ts) = [\<lparr>h_Name = [], h_Value = bytes_of ''fence''\<rparr>]"
    "ar_Timestamp (NewFenceCommandRecord token ts) = ts"
    by (simp_all add: NewFenceCommandRecord_def Let_def split: option.splits)
  have "length (PutUint64 n) = 8" by (simp add: PutUint64_def)
  then show ?thesis by (simp add: trim fence metered_size_def IsCommandRecord_def PutUint64_value)
qed

section \<open>Witnesses\<close>

definition one_record :: AppendInput where
  "one_record = \<lparr>ai_Records = [\<lparr>ar_Timestamp = None, ar_Headers = [NewHeader ''k'' ''v''], ar_Body = [1, 2]\<rparr>],
     ai_MatchSeqNum = None, ai_FencingToken = Some ''token'', ai_StreamConfig = None\<rparr>"

lemma one_record_facts:
  "length (ai_Records one_record) = 1" "ai_FencingToken one_record = Some ''token''"
  "(\<Sum>r\<leftarrow>ai_Records one_record. metered_size r) = 14"
  by (simp_all add: one_record_def metered_size_def NewHeader_def)

theorem validateAppendInput_exact_witness: "validateAppendInput (Some one_record) = Inr 14"
proof -
  have "(\<Sum>r\<leftarrow>ai_Records one_record. metered_size r) < 2 ^ 63" unfolding one_record_facts by simp
  from validateAppendInput_exact [OF this, THEN conjunct1] show ?thesis
    unfolding one_record_facts by simp
qed

theorem command_records_witness:
  "be_value (ar_Body (NewTrimCommandRecord 513 None)) = 513 \<and>
    string_of (ar_Body (NewFenceCommandRecord ''tok'' None)) = ''tok''"
  using command_records [of 513 None "''tok''"] by simp

end
