(* ===== verification/Retry.thy ===== *)
theory Retry
  imports Records
begin

text \<open>
  Retries (\<open>src/s2/retry.go\<close>, \<open>shouldRetryError\<close> of \<open>src/s2/stream.go\<close>), the advised-reconnect budget
  (\<open>src/s2/reconnect.go\<close>) and the session defaults (\<open>applyAppendSessionDefaults\<close> of
  \<open>src/s2/append_utils.go\<close>).

  The retry loops run against an environment \<open>retry_env\<close>: the outcome of the \<open>n\<close>-th call of the
  operation, what \<open>ctx.Err()\<close> answers at each place the code asks, how each backoff wait ends, and
  the random source.  \<open>rand.Int63n\<close> panics on a non-positive argument; a panic is the outcome
  \<open>None\<close>.  A Go pair \<open>(result, err)\<close> is \<open>Inl err\<close>, or \<open>Inr\<close> of the result where \<open>Inr None\<close> stands
  for a nil (zero) result without error.  Next to the outcome the loops return how many times the
  operation was called and the delays waited for, which the code does not return.
\<close>

section \<open>Configuration\<close>

type_synonym AppendRetryPolicy = string

definition AppendRetryPolicyAll :: AppendRetryPolicy where
  "AppendRetryPolicyAll = ''all''"

definition AppendRetryPolicyNoSideEffects :: AppendRetryPolicy where
  "AppendRetryPolicyNoSideEffects = ''noSideEffects''"

lemmas policy_defs = AppendRetryPolicyAll_def AppendRetryPolicyNoSideEffects_def

record RetryConfig =
  rc_MaxAttempts :: int
  rc_MinBaseDelay :: duration
  rc_MaxBaseDelay :: duration
  rc_AppendRetryPolicy :: AppendRetryPolicy

definition defaultMaxAttempts :: int where "defaultMaxAttempts = 3"
definition defaultMinBaseDelay :: duration where "defaultMinBaseDelay = 100 * 1000000"
definition defaultMaxBaseDelay :: duration where "defaultMaxBaseDelay = 1 * 1000000000"

lemmas retry_defaults = defaultMaxAttempts_def defaultMinBaseDelay_def defaultMaxBaseDelay_def

definition DefaultRetryConfig :: RetryConfig where
  "DefaultRetryConfig = \<lparr>rc_MaxAttempts = defaultMaxAttempts, rc_MinBaseDelay = defaultMinBaseDelay,
     rc_MaxBaseDelay = defaultMaxBaseDelay, rc_AppendRetryPolicy = AppendRetryPolicyAll\<rparr>"

section \<open>Backoff\<close>

text \<open>\<open>rnd\<close> is \<open>rand.Int63n\<close>: a value in \<open>[0, n)\<close> for positive \<open>n\<close>.\<close>

definition Int63n_ok :: "(int \<Rightarrow> int) \<Rightarrow> bool" where
  "Int63n_ok rnd \<longleftrightarrow> (\<forall>n>0. 0 \<le> rnd n \<and> rnd n < n)"

definition backoff_base :: "RetryConfig \<Rightarrow> int \<Rightarrow> int" where
  "backoff_base config attempt =
     (let minBaseDelay = (if rc_MinBaseDelay config \<le> 0 then defaultMinBaseDelay else rc_MinBaseDelay config);
          maxBaseDelay = (if rc_MaxBaseDelay config \<le> 0 then defaultMaxBaseDelay else rc_MaxBaseDelay config);
          baseDelay = i64 (minBaseDelay * 2 ^ nat (attempt - 1))
      in if baseDelay > maxBaseDelay \<or> baseDelay < minBaseDelay then maxBaseDelay else baseDelay)"

definition calculateRetryBackoff :: "(int \<Rightarrow> int) \<Rightarrow> RetryConfig \<Rightarrow> int \<Rightarrow> duration option" where
  "calculateRetryBackoff rnd config attempt =
     (if attempt < 1 then Some 0
      else
        let baseDelay = backoff_base config attempt in
        if baseDelay \<le> 0 then None
        else Some (i64 (baseDelay + rnd baseDelay)))"

section \<open>Which errors are retried\<close>

text \<open>\<open>ctxErr k\<close> is what \<open>ctx.Err()\<close> answers at recursion depth \<open>k\<close>.\<close>

function isNetworkError :: "(nat \<Rightarrow> goerr option) \<Rightarrow> goerr \<Rightarrow> bool" where
  "isNetworkError ctxErr err =
     (if ctxErr 0 \<noteq> None then False
      else if \<exists>e\<in>set (err_chain err). is_net_Error e then True
      else if \<exists>e\<in>set (err_chain err). is_OpError e then True
      else case chain_find url_Err err of
             Some e \<Rightarrow> isNetworkError (\<lambda>k. ctxErr (Suc k)) e
           | None \<Rightarrow> False)"
  by pat_completeness auto
termination
  by (relation "measure (\<lambda>(_, err). size err)") (auto dest: url_Err_size)

declare isNetworkError.simps [simp del]

definition shouldRetryNetworkError :: "RetryConfig \<Rightarrow> bool" where
  "shouldRetryNetworkError config \<longleftrightarrow> rc_AppendRetryPolicy config \<noteq> AppendRetryPolicyNoSideEffects"

definition shouldRetryError :: "goerr \<Rightarrow> RetryConfig \<Rightarrow> bool" where
  "shouldRetryError err config = (case errors_As_S2Error err of
     None \<Rightarrow> False
   | Some s2Err \<Rightarrow>
       if \<not> IsRetryable s2Err then False
       else if rc_AppendRetryPolicy config = AppendRetryPolicyNoSideEffects
       then S2Error_HasNoSideEffects s2Err else True)"

section \<open>The retry loops\<close>

record 'a retry_env =
  re_op :: "int \<Rightarrow> goerr + 'a"
  re_before :: "int \<Rightarrow> goerr option"
  re_after :: "int \<Rightarrow> goerr option"
  re_net :: "int \<Rightarrow> nat \<Rightarrow> goerr option"
  re_wait :: "int \<Rightarrow> duration \<Rightarrow> goerr option"
  re_final :: "goerr option"
  re_rnd :: "int \<Rightarrow> int \<Rightarrow> int"

text \<open>\<open>ro_calls\<close> counts the calls of the operation, \<open>ro_delays\<close> lists the backoff delays.\<close>

record 'a retry_outcome =
  ro_result :: "(goerr + 'a option) option"
  ro_calls :: int
  ro_delays :: "duration list"

definition retry_return :: "goerr + 'a option \<Rightarrow> int \<Rightarrow> 'a retry_outcome" where
  "retry_return res calls = \<lparr>ro_result = Some res, ro_calls = calls, ro_delays = []\<rparr>"

definition retry_panic :: "int \<Rightarrow> 'a retry_outcome" where
  "retry_panic calls = \<lparr>ro_result = None, ro_calls = calls, ro_delays = []\<rparr>"

definition add_delay :: "duration \<Rightarrow> 'a retry_outcome \<Rightarrow> 'a retry_outcome" where
  "add_delay d out = out\<lparr>ro_delays := d # ro_delays out\<rparr>"

definition clamp_attempts :: "RetryConfig \<Rightarrow> int" where
  "clamp_attempts config = (if rc_MaxAttempts config < 1 then 1 else rc_MaxAttempts config)"

text \<open>The end of \<open>withRetries\<close>, after the loop.\<close>

definition retries_end :: "'a retry_env \<Rightarrow> int \<Rightarrow> goerr option \<Rightarrow> 'a retry_outcome" where
  "retries_end env calls lastError = (case re_final env of
     Some ctxErr \<Rightarrow> retry_return (Inl ctxErr) calls
   | None \<Rightarrow> (case lastError of Some err \<Rightarrow> retry_return (Inl err) calls
              | None \<Rightarrow> retry_return (Inr None) calls))"

function withRetries_loop ::
    "RetryConfig \<Rightarrow> 'a retry_env \<Rightarrow> int \<Rightarrow> int \<Rightarrow> goerr option \<Rightarrow> 'a retry_outcome" where
  "withRetries_loop config env maxAttempts attemptNo lastError =
     (if \<not> attemptNo \<le> maxAttempts then retries_end env (attemptNo - 1) lastError
      else case re_before env attemptNo of Some ctxErr \<Rightarrow> retry_return (Inl ctxErr) (attemptNo - 1)
      | None \<Rightarrow> (case re_op env attemptNo of Inr result \<Rightarrow> retry_return (Inr (Some result)) attemptNo
      | Inl err \<Rightarrow> (case re_after env attemptNo of Some ctxErr \<Rightarrow> retry_return (Inl ctxErr) attemptNo
      | None \<Rightarrow>
        if isNetworkError (re_net env attemptNo) err then
          if attemptNo < maxAttempts then
            (case calculateRetryBackoff (re_rnd env attemptNo) config attemptNo of
               None \<Rightarrow> retry_panic attemptNo
             | Some delay \<Rightarrow> add_delay delay (case re_wait env attemptNo delay of
                 Some waitErr \<Rightarrow> retry_return (Inl waitErr) attemptNo
               | None \<Rightarrow> withRetries_loop config env maxAttempts (attemptNo + 1) (Some err)))
          else retry_return (Inl err) attemptNo
        else (case errors_As_S2Error err of None \<Rightarrow> retry_return (Inl err) attemptNo
        | Some s2Err \<Rightarrow>
          if attemptNo = maxAttempts then retries_end env attemptNo (Some err)
          else if \<not> IsRetryable s2Err then retry_return (Inl (S2E s2Err)) attemptNo
          else (case calculateRetryBackoff (re_rnd env attemptNo) config attemptNo of
               None \<Rightarrow> retry_panic attemptNo
             | Some delay \<Rightarrow> add_delay delay (case re_wait env attemptNo delay of
                 Some waitErr \<Rightarrow> retry_return (Inl waitErr) attemptNo
               | None \<Rightarrow> withRetries_loop config env maxAttempts (attemptNo + 1) (Some err)))))))"
  by pat_completeness auto
termination
  by (relation "measure (\<lambda>(_, _, maxAttempts, attemptNo, _). nat (maxAttempts + 1 - attemptNo))") auto

definition withRetries :: "RetryConfig option \<Rightarrow> 'a retry_env \<Rightarrow> 'a retry_outcome" where
  "withRetries config env =
     (let config = (case config of None \<Rightarrow> DefaultRetryConfig | Some c \<Rightarrow> c)
      in withRetries_loop config env (clamp_attempts config) 1 None)"

definition append_retries_end :: "'a retry_env \<Rightarrow> int \<Rightarrow> goerr option \<Rightarrow> bool \<Rightarrow> 'a retry_outcome" where
  "append_retries_end env calls lastError priorUncertainty = (case re_final env of
     Some ctxErr \<Rightarrow> retry_return (Inl ctxErr) calls
   | None \<Rightarrow> (case lastError of
       Some err \<Rightarrow> retry_return (Inl (withPriorUncertainty err priorUncertainty)) calls
     | None \<Rightarrow> retry_return (Inr None) calls))"

function withAppendRetries_loop ::
    "RetryConfig \<Rightarrow> 'a retry_env \<Rightarrow> int \<Rightarrow> int \<Rightarrow> goerr option \<Rightarrow> bool \<Rightarrow> 'a retry_outcome" where
  "withAppendRetries_loop config env maxAttempts attemptNo lastError priorUncertainty =
     (if \<not> attemptNo \<le> maxAttempts then append_retries_end env (attemptNo - 1) lastError priorUncertainty
      else case re_before env attemptNo of Some ctxErr \<Rightarrow> retry_return (Inl ctxErr) (attemptNo - 1)
      | None \<Rightarrow> (case re_op env attemptNo of Inr result \<Rightarrow> retry_return (Inr (Some result)) attemptNo
      | Inl err \<Rightarrow> (case re_after env attemptNo of Some ctxErr \<Rightarrow> retry_return (Inl ctxErr) attemptNo
      | None \<Rightarrow>
        if isNetworkError (re_net env attemptNo) err then
          if attemptNo = maxAttempts \<or> \<not> shouldRetryNetworkError config
          then append_retries_end env attemptNo (Some err) priorUncertainty
          else (case calculateRetryBackoff (re_rnd env attemptNo) config attemptNo of
               None \<Rightarrow> retry_panic attemptNo
             | Some delay \<Rightarrow> add_delay delay (case re_wait env attemptNo delay of
                 Some waitErr \<Rightarrow> retry_return (Inl waitErr) attemptNo
               | None \<Rightarrow> withAppendRetries_loop config env maxAttempts (attemptNo + 1) (Some err) True))
        else if \<not> shouldRetryError err config \<or> attemptNo = maxAttempts
        then retry_return (Inl (withPriorUncertainty err priorUncertainty)) attemptNo
        else
          let priorUncertainty = (if \<not> HasNoSideEffects err then True else priorUncertainty)
          in (case calculateRetryBackoff (re_rnd env attemptNo) config attemptNo of
               None \<Rightarrow> retry_panic attemptNo
             | Some delay \<Rightarrow> add_delay delay (case re_wait env attemptNo delay of
                 Some waitErr \<Rightarrow> retry_return (Inl waitErr) attemptNo
               | None \<Rightarrow>
                   withAppendRetries_loop config env maxAttempts (attemptNo + 1) (Some err) priorUncertainty)))))"
  by pat_completeness auto
termination
  by (relation "measure (\<lambda>(_, _, maxAttempts, attemptNo, _, _). nat (maxAttempts + 1 - attemptNo))") auto

declare withRetries_loop.simps [simp del] withAppendRetries_loop.simps [simp del]

definition withAppendRetries :: "RetryConfig option \<Rightarrow> 'a retry_env \<Rightarrow> 'a retry_outcome" where
  "withAppendRetries config env =
     (let config = (case config of None \<Rightarrow> DefaultRetryConfig | Some c \<Rightarrow> c)
      in withAppendRetries_loop config env (clamp_attempts config) 1 None False)"

section \<open>Advised reconnects\<close>

definition maxAdvisedReconnects :: int where "maxAdvisedReconnects = 1"
definition advisedReconnectIdle :: duration where "advisedReconnectIdle = 60 * 1000000000"

record advisedReconnects =
  adv_count :: int
  adv_last :: gotime

definition isRecent :: "advisedReconnects \<Rightarrow> gotime \<Rightarrow> bool" where
  "isRecent a now \<longleftrightarrow> \<not> time_IsZero (adv_last a) \<and> now - adv_last a \<le> advisedReconnectIdle"

definition record_advised :: "advisedReconnects \<Rightarrow> gotime \<Rightarrow> advisedReconnects" where
  "record_advised a now =
     (let a = (if \<not> isRecent a now then a\<lparr>adv_count := 0\<rparr> else a);
          a = a\<lparr>adv_last := now\<rparr>
      in a\<lparr>adv_count := adv_count a + 1\<rparr>)"

definition shouldReconnect :: "advisedReconnects \<Rightarrow> gotime \<Rightarrow> bool" where
  "shouldReconnect a now \<longleftrightarrow> \<not> isRecent a now \<or> adv_count a < maxAdvisedReconnects"

section \<open>Session defaults\<close>

record AppendSessionOptions =
  aso_MaxInflightBytes :: u64
  aso_MaxInflightBatches :: "32 word"
  aso_RetryConfig :: "RetryConfig option"
  aso_StreamConfig :: "StreamConfig option"

definition defaultMaxInflightBytes :: u64 where "defaultMaxInflightBytes = 5 * 1024 * 1024"
definition minInflightBytes :: u64 where "minInflightBytes = 1 * 1024 * 1024"

text \<open>\<open>DefaultRetryConfig\<close> is a package variable that is never nil here.\<close>

definition override_retry :: "RetryConfig \<Rightarrow> RetryConfig \<Rightarrow> RetryConfig" where
  "override_retry effective userCfg =
     (let e = effective;
          e = (if rc_MaxAttempts userCfg > 0 then e\<lparr>rc_MaxAttempts := rc_MaxAttempts userCfg\<rparr> else e);
          e = (if rc_MinBaseDelay userCfg > 0 then e\<lparr>rc_MinBaseDelay := rc_MinBaseDelay userCfg\<rparr> else e);
          e = (if rc_MaxBaseDelay userCfg > 0 then e\<lparr>rc_MaxBaseDelay := rc_MaxBaseDelay userCfg\<rparr> else e)
      in if rc_AppendRetryPolicy userCfg \<noteq> ''''
         then e\<lparr>rc_AppendRetryPolicy := rc_AppendRetryPolicy userCfg\<rparr> else e)"

definition fill_retry :: "RetryConfig \<Rightarrow> RetryConfig" where
  "fill_retry effective =
     (let e = effective;
          e = (if rc_MaxAttempts e \<le> 0 then e\<lparr>rc_MaxAttempts := defaultMaxAttempts\<rparr> else e);
          e = (if rc_MinBaseDelay e \<le> 0 then e\<lparr>rc_MinBaseDelay := defaultMinBaseDelay\<rparr> else e);
          e = (if rc_MaxBaseDelay e \<le> 0 then e\<lparr>rc_MaxBaseDelay := defaultMaxBaseDelay\<rparr> else e)
      in if rc_AppendRetryPolicy e = ''''
         then e\<lparr>rc_AppendRetryPolicy := AppendRetryPolicyAll\<rparr> else e)"

definition applyAppendSessionDefaults ::
    "AppendSessionOptions option \<Rightarrow> RetryConfig option \<Rightarrow> goerr + AppendSessionOptions" where
  "applyAppendSessionDefaults opts baseRetry =
     (let opts = (case opts of None \<Rightarrow> \<lparr>aso_MaxInflightBytes = 0, aso_MaxInflightBatches = 0,
             aso_RetryConfig = None, aso_StreamConfig = None\<rparr> | Some o' \<Rightarrow> o')
      in if aso_MaxInflightBytes opts \<noteq> 0 \<and> aso_MaxInflightBytes opts < minInflightBytes then
           Inl (newValidationError (''maxInflightBytes must be at least '' @ dec_nat (unat minInflightBytes)))
         else
           let opts = (if aso_MaxInflightBytes opts = 0
                 then opts\<lparr>aso_MaxInflightBytes := defaultMaxInflightBytes\<rparr> else opts);
               effective = (case baseRetry of Some c \<Rightarrow> c | None \<Rightarrow> DefaultRetryConfig);
               effective = (case aso_RetryConfig opts of None \<Rightarrow> effective
                 | Some userCfg \<Rightarrow> override_retry effective userCfg);
               effective = fill_retry effective
           in Inr (opts\<lparr>aso_RetryConfig := Some effective\<rparr>))"

section \<open>Backoff stays within its bounds\<close>

definition effective_min :: "RetryConfig \<Rightarrow> int" where
  "effective_min config = (if rc_MinBaseDelay config \<le> 0 then defaultMinBaseDelay else rc_MinBaseDelay config)"

definition effective_max :: "RetryConfig \<Rightarrow> int" where
  "effective_max config = (if rc_MaxBaseDelay config \<le> 0 then defaultMaxBaseDelay else rc_MaxBaseDelay config)"

lemma effective_pos: "0 < effective_min config" "0 < effective_max config"
  by (simp_all add: effective_min_def effective_max_def retry_defaults)

lemma backoff_base_eq:
  "backoff_base config attempt =
     (let b = i64 (effective_min config * 2 ^ nat (attempt - 1))
      in if b > effective_max config \<or> b < effective_min config then effective_max config else b)"
  by (simp add: backoff_base_def effective_min_def effective_max_def Let_def)

lemma backoff_base_bounds: "0 < backoff_base config attempt" "backoff_base config attempt \<le> effective_max config"
  using effective_pos [of config] by (auto simp: backoff_base_eq Let_def)

lemma i64_multiple:
  assumes "0 < i64 (m * 2 ^ k)"
  shows "2 ^ k \<le> i64 (m * 2 ^ k)"
proof (cases "k \<le> 64")
  case True
  have "i64 (m * 2 ^ k) = m * 2 ^ k - 2 ^ 64 * ((m * 2 ^ k + 2 ^ 63) div 2 ^ 64)"
    by (simp add: i64_def minus_mult_div_eq_mod [symmetric])
  moreover have "(2 :: int) ^ k dvd 2 ^ 64" using True by (rule le_imp_power_dvd)
  ultimately have "(2 :: int) ^ k dvd i64 (m * 2 ^ k)" by simp
  with assms show ?thesis by (intro zdvd_imp_le)
next
  case False
  then have "(2 :: int) ^ 64 dvd m * 2 ^ k" by (intro dvd_mult le_imp_power_dvd) simp
  then have "(m * 2 ^ k + 2 ^ 63) mod 2 ^ 64 = 2 ^ 63" by (auto elim!: dvdE)
  with assms show ?thesis by (simp add: i64_def)
qed

lemma backoff_base_exact:
  assumes "effective_min config * effective_max config < 2 ^ 63"
  shows "backoff_base config attempt = min (effective_min config * 2 ^ nat (attempt - 1)) (effective_max config)"
proof -
  let ?m = "effective_min config" and ?M = "effective_max config" and ?k = "nat (attempt - 1)"
  note pos = effective_pos [of config]
  have M: "?M \<le> ?m * ?M" using pos by (simp add: mult_le_cancel_right1)
  have grow: "?m \<le> ?m * 2 ^ ?k" using pos by (simp add: mult_le_cancel_left1)
  show ?thesis
  proof (cases "?m * 2 ^ ?k < 2 ^ 63")
    case True
    then have "i64 (?m * 2 ^ ?k) = ?m * 2 ^ ?k" using pos by simp
    with grow show ?thesis by (auto simp: backoff_base_eq Let_def min_def)
  next
    case False
    then have big: "?m * ?M < ?m * 2 ^ ?k" using assms by simp
    then have "?M < 2 ^ ?k" using pos by (simp add: mult_less_cancel_left_pos)
    then have "i64 (?m * 2 ^ ?k) \<le> 0 \<or> ?M < i64 (?m * 2 ^ ?k)"
      using i64_multiple [of ?m ?k] by linarith
    with pos have "backoff_base config attempt = ?M" by (auto simp: backoff_base_eq Let_def)
    moreover have "?M \<le> ?m * 2 ^ ?k" using M big by linarith
    ultimately show ?thesis by simp
  qed
qed

lemma calculateRetryBackoff_range:
  assumes "Int63n_ok rnd" "1 \<le> attempt" "effective_max config < 2 ^ 62"
  shows "\<exists>d. calculateRetryBackoff rnd config attempt = Some d \<and>
    backoff_base config attempt \<le> d \<and> d < 2 * backoff_base config attempt"
proof -
  note b = backoff_base_bounds [of config attempt]
  have "0 \<le> rnd (backoff_base config attempt)" "rnd (backoff_base config attempt) < backoff_base config attempt"
    using assms(1) b(1) by (simp_all add: Int63n_ok_def)
  with b assms show ?thesis by (simp add: calculateRetryBackoff_def Let_def)
qed

section \<open>The append loop\<close>

text \<open>What the loops need of their environment: a context error is one of the two documented
  values, and the random source keeps its range.\<close>

definition ctx_err :: "goerr option \<Rightarrow> bool" where
  "ctx_err e \<longleftrightarrow> e \<in> {None, Some (Sentinel Canceled), Some (Sentinel DeadlineExceeded)}"

definition env_ok :: "'a retry_env \<Rightarrow> bool" where
  "env_ok env \<longleftrightarrow> (\<forall>k. ctx_err (re_before env k) \<and> ctx_err (re_after env k) \<and> (\<forall>d. ctx_err (re_wait env k d)) \<and>
     Int63n_ok (re_rnd env k)) \<and> ctx_err (re_final env)"

lemma ctx_err_effects: "ctx_err (Some e) \<Longrightarrow> \<not> HasNoSideEffects e"
  by (auto simp: ctx_err_def HasNoSideEffects_def)

lemma calculateRetryBackoff_Some:
  "\<exists>d. calculateRetryBackoff rnd config attempt = Some d"
  using backoff_base_bounds [of config attempt] by (simp add: calculateRetryBackoff_def Let_def)

lemma retry_outcome_simps [simp]:
  "ro_result (retry_return r c) = Some r" "ro_calls (retry_return r c) = c" "ro_delays (retry_return r c) = []"
  "ro_result (add_delay d out) = ro_result out" "ro_calls (add_delay d out) = ro_calls out"
  "ro_delays (add_delay d out) = d # ro_delays out"
  by (simp_all add: retry_return_def add_delay_def)

definition failed_clean :: "'a retry_env \<Rightarrow> int \<Rightarrow> bool" where
  "failed_clean env k \<longleftrightarrow> (\<exists>e. re_op env k = Inl e \<and> HasNoSideEffects e)"

section \<open>The contract of a retry loop\<close>

text \<open>
  A loop unrolls into rounds.  A round ends with an outcome or waits for a delay and goes on with the
  next state; it goes on only below the limit and after a failed call.  Both loops of the SDK are
  of this form, and the facts below are proved once for both.
\<close>

datatype ('a, 's) round = Ends "'a retry_outcome" | Waits duration 's

definition ends_ok :: "'a retry_env \<Rightarrow> int \<Rightarrow> 'a retry_outcome \<Rightarrow> bool" where
  "ends_ok env n out \<longleftrightarrow> (\<exists>r. ro_result out = Some r \<and> r \<noteq> Inr None \<and> n - 1 \<le> ro_calls out \<and>
     ro_calls out \<le> n \<and> (\<forall>a. r = Inr (Some a) \<longrightarrow> ro_calls out = n \<and> re_op env n = Inr a))"

locale retry_loop =
  fixes env :: "'a retry_env" and m :: int and allowed :: "goerr \<Rightarrow> int \<Rightarrow> bool"
    and round :: "int \<Rightarrow> 's \<Rightarrow> ('a, 's) round" and loop :: "int \<Rightarrow> 's \<Rightarrow> 'a retry_outcome"
  assumes unroll: "loop n s =
      (case round n s of Ends out \<Rightarrow> out | Waits d s' \<Rightarrow> add_delay d (loop (n + 1) s'))"
    and round_ends: "n \<le> m \<Longrightarrow> round n s = Ends out \<Longrightarrow> ends_ok env n out"
    and round_waits: "round n s = Waits d s' \<Longrightarrow> n < m \<and> (\<exists>e. re_op env n = Inl e \<and> allowed e n)"
begin

lemma loop_outcome:
  assumes "n \<le> m"
  shows "\<exists>r. ro_result (loop n s) = Some r \<and> r \<noteq> Inr None \<and>
    n - 1 \<le> ro_calls (loop n s) \<and> ro_calls (loop n s) \<le> m \<and>
    (\<forall>a. r = Inr (Some a) \<longrightarrow> re_op env (ro_calls (loop n s)) = Inr a) \<and>
    (\<forall>k\<in>{n..<ro_calls (loop n s)}. \<exists>e. re_op env k = Inl e \<and> allowed e k)"
  using assms
proof (induction "nat (m - n)" arbitrary: n s rule: less_induct)
  case less
  show ?case
  proof (cases "round n s")
    case (Ends out)
    with round_ends [OF less.prems Ends] less.prems show ?thesis
      by (auto simp: unroll [of n s] ends_ok_def)
  next
    case (Waits d s')
    note w = round_waits [OF Waits]
    have "nat (m - (n + 1)) < nat (m - n)" "n + 1 \<le> m" using w by simp_all
    from less.hyps [OF this, of s'] obtain r where r:
      "ro_result (loop (n + 1) s') = Some r" "r \<noteq> Inr None" "n \<le> ro_calls (loop (n + 1) s')"
      "ro_calls (loop (n + 1) s') \<le> m" "\<forall>a. r = Inr (Some a) \<longrightarrow> re_op env (ro_calls (loop (n + 1) s')) = Inr a"
      "\<forall>k\<in>{n + 1..<ro_calls (loop (n + 1) s')}. \<exists>e. re_op env k = Inl e \<and> allowed e k" by auto
    have "\<exists>e. re_op env k = Inl e \<and> allowed e k" if "k \<in> {n..<ro_calls (loop (n + 1) s')}" for k
      using that w r(6) by (cases "k = n") simp_all
    moreover have "loop n s = add_delay d (loop (n + 1) s')" using Waits by (simp add: unroll [of n s])
    ultimately show ?thesis using r by simp
  qed
qed

end

text \<open>A loop that also tracks whether an earlier attempt may have taken effect.\<close>

locale effect_tracking_loop = retry_loop +
  fixes ok :: bool and tainted :: "'b \<Rightarrow> bool"
  assumes ends_clean: "ok \<Longrightarrow> n \<le> m \<Longrightarrow> round n s = Ends out \<Longrightarrow> ro_result out = Some (Inl e) \<Longrightarrow>
      HasNoSideEffects e \<Longrightarrow> \<not> tainted s \<and> ro_calls out = n \<and> failed_clean env n"
    and waits_clean: "ok \<Longrightarrow> round n s = Waits d s' \<Longrightarrow> \<not> tainted s' \<Longrightarrow>
      \<not> tainted s \<and> failed_clean env n"
begin

lemma loop_clean:
  assumes ok "n \<le> m" "ro_result (loop n s) = Some (Inl e)" "HasNoSideEffects e"
  shows "\<not> tainted s \<and> (\<forall>k\<in>{n..ro_calls (loop n s)}. failed_clean env k)"
  using assms(2,3)
proof (induction "nat (m - n)" arbitrary: n s rule: less_induct)
  case less
  show ?case
  proof (cases "round n s")
    case (Ends out)
    with ends_clean [OF assms(1) less.prems(1) Ends _ assms(4)] less.prems(2) show ?thesis
      by (simp add: unroll [of n s])
  next
    case (Waits d s')
    have "nat (m - (n + 1)) < nat (m - n)" "n + 1 \<le> m" "ro_result (loop (n + 1) s') = Some (Inl e)"
      using round_waits [OF Waits] less.prems(2) Waits by (simp_all add: unroll [of n s])
    note IH = less.hyps [OF this]
    have split: "{n..ro_calls (loop (n + 1) s')} \<subseteq> insert n {n + 1..ro_calls (loop (n + 1) s')}" by auto
    from IH split waits_clean [OF assms(1) Waits] Waits show ?thesis
      by (auto simp: unroll [of n s])
  qed
qed

end

section \<open>The SDK's loops keep the contract\<close>

definition plain_round ::
    "RetryConfig \<Rightarrow> 'a retry_env \<Rightarrow> int \<Rightarrow> int \<Rightarrow> goerr option \<Rightarrow> ('a, goerr option) round" where
  "plain_round config env m n le =
     (if \<not> n \<le> m then Ends (retries_end env (n - 1) le)
      else case re_before env n of Some c \<Rightarrow> Ends (retry_return (Inl c) (n - 1)) | None \<Rightarrow>
      (case re_op env n of Inr a \<Rightarrow> Ends (retry_return (Inr (Some a)) n) | Inl err \<Rightarrow>
      (case re_after env n of Some c \<Rightarrow> Ends (retry_return (Inl c) n) | None \<Rightarrow>
       let net = isNetworkError (re_net env n) err;
           delay = the (calculateRetryBackoff (re_rnd env n) config n);
           wait = (case re_wait env n delay of
                 Some w \<Rightarrow> Ends (add_delay delay (retry_return (Inl w) n))
               | None \<Rightarrow> Waits delay (Some err))
       in if net then (if n < m then wait else Ends (retry_return (Inl err) n))
          else case errors_As_S2Error err of None \<Rightarrow> Ends (retry_return (Inl err) n)
          | Some s2Err \<Rightarrow> if n = m then Ends (retries_end env n (Some err))
              else if \<not> IsRetryable s2Err then Ends (retry_return (Inl (S2E s2Err)) n) else wait)))"

definition append_round ::
    "RetryConfig \<Rightarrow> 'a retry_env \<Rightarrow> int \<Rightarrow> int \<Rightarrow> goerr option \<times> bool \<Rightarrow> ('a, goerr option \<times> bool) round" where
  "append_round config env m n s =
     (if \<not> n \<le> m then Ends (append_retries_end env (n - 1) (fst s) (snd s))
      else case re_before env n of Some c \<Rightarrow> Ends (retry_return (Inl c) (n - 1)) | None \<Rightarrow>
      (case re_op env n of Inr a \<Rightarrow> Ends (retry_return (Inr (Some a)) n) | Inl err \<Rightarrow>
      (case re_after env n of Some c \<Rightarrow> Ends (retry_return (Inl c) n) | None \<Rightarrow>
       let net = isNetworkError (re_net env n) err;
           delay = the (calculateRetryBackoff (re_rnd env n) config n)
       in if net \<and> (n = m \<or> \<not> shouldRetryNetworkError config)
          then Ends (append_retries_end env n (Some err) (snd s))
          else if \<not> net \<and> (\<not> shouldRetryError err config \<or> n = m)
          then Ends (retry_return (Inl (withPriorUncertainty err (snd s))) n)
          else case re_wait env n delay of
                 Some w \<Rightarrow> Ends (add_delay delay (retry_return (Inl w) n))
               | None \<Rightarrow> Waits delay (Some err, net \<or> \<not> HasNoSideEffects err \<or> snd s))))"

lemma withRetries_loop_round:
  "withRetries_loop config env m n le =
     (case plain_round config env m n le of
        Ends out \<Rightarrow> out
      | Waits d le' \<Rightarrow> add_delay d (withRetries_loop config env m (n + 1) le'))"
proof -
  obtain d where "calculateRetryBackoff (re_rnd env n) config n = Some d"
    using calculateRetryBackoff_Some by blast
  then show ?thesis
    by (subst withRetries_loop.simps)
      (auto simp: plain_round_def Let_def split: option.splits sum.splits)
qed

lemma withAppendRetries_loop_round:
  "withAppendRetries_loop config env m n le pu =
     (case append_round config env m n (le, pu) of
        Ends out \<Rightarrow> out
      | Waits d s' \<Rightarrow> add_delay d (withAppendRetries_loop config env m (n + 1) (fst s') (snd s')))"
proof -
  obtain d where "calculateRetryBackoff (re_rnd env n) config n = Some d"
    using calculateRetryBackoff_Some by blast
  then show ?thesis
    by (subst withAppendRetries_loop.simps)
      (auto simp: append_round_def Let_def split: option.splits sum.splits)
qed

definition plain_allowed :: "'a retry_env \<Rightarrow> goerr \<Rightarrow> int \<Rightarrow> bool" where
  "plain_allowed env e k \<longleftrightarrow> isNetworkError (re_net env k) e \<or> (\<exists>s. errors_As_S2Error e = Some s \<and> IsRetryable s)"

definition append_allowed :: "RetryConfig \<Rightarrow> 'a retry_env \<Rightarrow> goerr \<Rightarrow> int \<Rightarrow> bool" where
  "append_allowed config env e k \<longleftrightarrow>
     (if isNetworkError (re_net env k) e then shouldRetryNetworkError config else shouldRetryError e config)"

interpretation plain_loop: retry_loop env m "plain_allowed env" "plain_round config env m"
  "withRetries_loop config env m"
  for config env m
proof unfold_locales
  fix n s out assume "n \<le> m" "plain_round config env m n s = Ends out"
  then show "ends_ok env n out"
    by (auto simp: plain_round_def ends_ok_def retries_end_def Let_def
        split: option.splits sum.splits if_splits)
next
  fix n s d s' assume "plain_round config env m n s = Waits d s'"
  then show "n < m \<and> (\<exists>e. re_op env n = Inl e \<and> plain_allowed env e n)"
    by (auto simp: plain_round_def plain_allowed_def Let_def split: option.splits sum.splits if_splits)
qed (rule withRetries_loop_round)

interpretation append_loop: effect_tracking_loop env m "append_allowed config env" "append_round config env m"
  "\<lambda>n s. withAppendRetries_loop config env m n (fst s) (snd s)" "env_ok env" snd
  for config env m
proof unfold_locales
  fix n s out assume "n \<le> m" "append_round config env m n s = Ends out"
  then show "ends_ok env n out"
    by (auto simp: append_round_def ends_ok_def append_retries_end_def Let_def
        split: option.splits sum.splits if_splits)
next
  fix n s d s' assume "append_round config env m n s = Waits d s'"
  then show "n < m \<and> (\<exists>e. re_op env n = Inl e \<and> append_allowed config env e n)"
    by (auto simp: append_round_def append_allowed_def Let_def split: option.splits sum.splits if_splits)
next
  fix n s out e
  assume ok: "env_ok env" and n: "n \<le> m" and out: "append_round config env m n s = Ends out"
    and e: "ro_result out = Some (Inl e)" "HasNoSideEffects e"
  have no: "ctx_err x \<Longrightarrow> x \<noteq> Some e" for x using e(2) ctx_err_effects [of e] by blast
  have "re_before env n \<noteq> Some e" "re_after env n \<noteq> Some e" "re_final env \<noteq> Some e"
    "\<And>d. re_wait env n d \<noteq> Some e" using ok by (simp_all add: env_ok_def no)
  with n out e show "\<not> snd s \<and> ro_calls out = n \<and> failed_clean env n"
    by (auto simp: append_round_def append_retries_end_def failed_clean_def Let_def
        split: option.splits sum.splits if_splits)
next
  fix n s d s' assume "append_round config env m n s = Waits d s'" "\<not> snd s'"
  then show "\<not> snd s \<and> failed_clean env n"
    by (auto simp: append_round_def failed_clean_def Let_def split: option.splits sum.splits if_splits)
qed (simp add: withAppendRetries_loop_round)

section \<open>Properties\<close>

definition chosen_config :: "RetryConfig option \<Rightarrow> RetryConfig" where
  "chosen_config config = (case config of None \<Rightarrow> DefaultRetryConfig | Some c \<Rightarrow> c)"

lemma clamp_attempts_pos: "1 \<le> clamp_attempts config"
  by (simp add: clamp_attempts_def)

lemma withAppendRetries_eq:
  "withAppendRetries config env =
     withAppendRetries_loop (chosen_config config) env (clamp_attempts (chosen_config config)) 1
       (fst (None :: goerr option, False)) (snd (None :: goerr option, False))"
  by (simp add: withAppendRetries_def chosen_config_def Let_def)

lemma withRetries_eq:
  "withRetries config env =
     withRetries_loop (chosen_config config) env (clamp_attempts (chosen_config config)) 1 None"
  by (simp add: withRetries_def chosen_config_def Let_def)

text \<open>C23: When an append with retries returns an error that claims to have had no side effects, every
  attempt it made failed with such an error: the claim is never made after an attempt whose effect is
  unknown.\<close>

theorem append_no_side_effects_sound:
  assumes "env_ok env" "ro_result (withAppendRetries config env) = Some (Inl e)" "HasNoSideEffects e"
  shows "\<forall>k\<in>{1..ro_calls (withAppendRetries config env)}.
    \<exists>err. re_op env k = Inl err \<and> HasNoSideEffects err"
  using append_loop.loop_clean [OF assms(1) clamp_attempts_pos assms(2) [unfolded withAppendRetries_eq] assms(3)]
  unfolding withAppendRetries_eq failed_clean_def by blast

text \<open>Under the policy \<open>noSideEffects\<close> an append is attempted again only after an attempt that the
  server guarantees had no effect: of all attempts made, only the last one can have taken effect.\<close>

theorem append_policy_no_side_effects:
  assumes "rc_AppendRetryPolicy config = AppendRetryPolicyNoSideEffects"
  shows "\<forall>k\<in>{1..<ro_calls (withAppendRetries (Some config) env)}.
    \<exists>err. re_op env k = Inl err \<and> isNoSideEffectsError err"
proof -
  have "append_allowed config env e k \<Longrightarrow> isNoSideEffectsError e" for e k
    using assms by (auto simp: append_allowed_def shouldRetryNetworkError_def shouldRetryError_def
        isNoSideEffectsError_def split: if_splits option.splits)
  with append_loop.loop_outcome [OF clamp_attempts_pos, of config env config "(None, False)"]
  show ?thesis unfolding withAppendRetries_eq chosen_config_def option.case by blast
qed

text \<open>C24: Both retry loops always return: no panic, never a nil result without an error, at most
  \<open>MaxAttempts\<close> calls of the operation (one when that is not positive), and a successful result is
  that of the last call made, with every earlier call failed.\<close>

theorem retry_loops_return:
  fixes env :: "'a retry_env"
  assumes "out \<in> {withRetries config env, withAppendRetries config env}"
  shows "((\<exists>e. ro_result out = Some (Inl e)) \<or> (\<exists>a. ro_result out = Some (Inr (Some a)) \<and>
      re_op env (ro_calls out) = Inr a)) \<and>
    0 \<le> ro_calls out \<and> ro_calls out \<le> max 1 (rc_MaxAttempts (chosen_config config)) \<and>
    (\<forall>k\<in>{1..<ro_calls out}. \<exists>e. re_op env k = Inl e)"
proof -
  let ?c = "chosen_config config"
  have "\<exists>r. ro_result out = Some r \<and> r \<noteq> Inr None \<and> 1 - 1 \<le> ro_calls out \<and>
      ro_calls out \<le> clamp_attempts ?c \<and> (\<forall>a. r = Inr (Some a) \<longrightarrow> re_op env (ro_calls out) = Inr a) \<and>
      (\<forall>k\<in>{1..<ro_calls out}. \<exists>e. re_op env k = Inl e)"
    using assms append_loop.loop_outcome [OF clamp_attempts_pos, of ?c env ?c "(None, False)"]
      plain_loop.loop_outcome [OF clamp_attempts_pos, of ?c env ?c None]
    unfolding withAppendRetries_eq withRetries_eq by blast
  then obtain r where r: "ro_result out = Some r" "r \<noteq> Inr None" "0 \<le> ro_calls out"
    "ro_calls out \<le> clamp_attempts ?c" "\<forall>a. r = Inr (Some a) \<longrightarrow> re_op env (ro_calls out) = Inr a"
    "\<forall>k\<in>{1..<ro_calls out}. \<exists>e. re_op env k = Inl e" by auto
  have "(\<exists>e. r = Inl e) \<or> (\<exists>a. r = Inr (Some a))"
    using r(2) by (cases r) (auto simp: not_None_eq)
  moreover have "clamp_attempts ?c = max 1 (rc_MaxAttempts ?c)"
    by (simp add: clamp_attempts_def)
  ultimately show ?thesis using r by auto
qed

text \<open>The backoff before attempt \<open>n + 1\<close> is a delay between \<open>b\<close> and \<open>2 b\<close> for
  \<open>b = min(minDelay * 2 ^ (n - 1), maxDelay)\<close>, for every \<open>n \<ge> 1\<close>, also when the shift wraps around
  64 bits, as long as the product of the two delays fits into 63 bits; the random source is never
  called with a non-positive bound.\<close>

theorem backoff_exact:
  assumes "Int63n_ok rnd" "1 \<le> attempt" "effective_max config < 2 ^ 62"
    and "effective_min config * effective_max config < 2 ^ 63"
  shows "\<exists>d. calculateRetryBackoff rnd config attempt = Some d \<and>
    min (effective_min config * 2 ^ nat (attempt - 1)) (effective_max config) \<le> d \<and>
    d < 2 * min (effective_min config * 2 ^ nat (attempt - 1)) (effective_max config)"
  using calculateRetryBackoff_range [OF assms(1-3)] backoff_base_exact [OF assms(4)] by simp

text \<open>After acting on reconnect advice at time \<open>t\<close>, further advice is ignored during the next 60
  seconds and followed again afterwards.\<close>

theorem advised_reconnect_budget:
  assumes "0 \<le> adv_count a" "t \<noteq> 0" "t \<le> now"
  shows "shouldReconnect (record_advised a t) now \<longleftrightarrow> now - t > 60 * 1000000000"
  using assms by (auto simp: shouldReconnect_def record_advised_def isRecent_def time_IsZero_def
      maxAdvisedReconnects_def advisedReconnectIdle_def Let_def)

lemma fill_retry_complete:
  "1 \<le> rc_MaxAttempts (fill_retry c) \<and> 0 < rc_MinBaseDelay (fill_retry c) \<and>
   0 < rc_MaxBaseDelay (fill_retry c) \<and> rc_AppendRetryPolicy (fill_retry c) \<noteq> ''''"
  by (simp add: fill_retry_def Let_def retry_defaults policy_defs)

lemma fill_retry_id:
  "1 \<le> rc_MaxAttempts c \<Longrightarrow> 0 < rc_MinBaseDelay c \<Longrightarrow> 0 < rc_MaxBaseDelay c \<Longrightarrow>
     rc_AppendRetryPolicy c \<noteq> '''' \<Longrightarrow> fill_retry c = c"
  by (simp add: fill_retry_def)

lemma override_retry_keeps:
  "rc_MaxAttempts u > 0 \<Longrightarrow> rc_MaxAttempts (fill_retry (override_retry c u)) = rc_MaxAttempts u"
  "rc_MinBaseDelay u > 0 \<Longrightarrow> rc_MinBaseDelay (fill_retry (override_retry c u)) = rc_MinBaseDelay u"
  "rc_MaxBaseDelay u > 0 \<Longrightarrow> rc_MaxBaseDelay (fill_retry (override_retry c u)) = rc_MaxBaseDelay u"
  "rc_AppendRetryPolicy u \<noteq> '''' \<Longrightarrow>
     rc_AppendRetryPolicy (fill_retry (override_retry c u)) = rc_AppendRetryPolicy u"
  by (simp_all add: fill_retry_def override_retry_def Let_def)

lemma override_complete:
  assumes "1 \<le> rc_MaxAttempts c" "0 < rc_MinBaseDelay c" "0 < rc_MaxBaseDelay c"
    "rc_AppendRetryPolicy c \<noteq> ''''"
  shows "override_retry b c = c"
  using assms by (simp add: override_retry_def Let_def)

lemma applyAppendSessionDefaults_Inr:
  "applyAppendSessionDefaults (Some o1) base = Inr opts \<longleftrightarrow>
     (aso_MaxInflightBytes o1 = 0 \<or> minInflightBytes \<le> aso_MaxInflightBytes o1) \<and>
     opts = o1\<lparr>aso_MaxInflightBytes := (if aso_MaxInflightBytes o1 = 0 then defaultMaxInflightBytes
          else aso_MaxInflightBytes o1),
        aso_RetryConfig := Some (fill_retry (case aso_RetryConfig o1 of
            None \<Rightarrow> chosen_config base | Some u \<Rightarrow> override_retry (chosen_config base) u))\<rparr>"
  by (cases o1) (auto simp: applyAppendSessionDefaults_def chosen_config_def Let_def not_less
      split: option.splits)

text \<open>Session options that are accepted are complete: at least 1 MiB of in-flight bytes, at least
  one attempt, positive delays and a policy; every positive setting of the caller is kept, and
  completing them a second time changes nothing.\<close>

theorem session_defaults_complete:
  assumes "applyAppendSessionDefaults (Some o1) base = Inr opts"
  shows "\<exists>c. aso_RetryConfig opts = Some c \<and> minInflightBytes \<le> aso_MaxInflightBytes opts \<and>
    1 \<le> rc_MaxAttempts c \<and> 0 < rc_MinBaseDelay c \<and> 0 < rc_MaxBaseDelay c \<and>
    rc_AppendRetryPolicy c \<noteq> '''' \<and>
    (\<forall>u. aso_RetryConfig o1 = Some u \<longrightarrow>
       (rc_MaxAttempts u > 0 \<longrightarrow> rc_MaxAttempts c = rc_MaxAttempts u) \<and>
       (rc_MinBaseDelay u > 0 \<longrightarrow> rc_MinBaseDelay c = rc_MinBaseDelay u) \<and>
       (rc_MaxBaseDelay u > 0 \<longrightarrow> rc_MaxBaseDelay c = rc_MaxBaseDelay u) \<and>
       (rc_AppendRetryPolicy u \<noteq> '''' \<longrightarrow> rc_AppendRetryPolicy c = rc_AppendRetryPolicy u)) \<and>
    applyAppendSessionDefaults (Some opts) base = Inr opts"
proof -
  from assms obtain c where c: "aso_RetryConfig opts = Some (fill_retry c)"
    and cu: "\<And>u. aso_RetryConfig o1 = Some u \<Longrightarrow> c = override_retry (chosen_config base) u"
    and bytes: "minInflightBytes \<le> aso_MaxInflightBytes opts" "aso_MaxInflightBytes opts \<noteq> 0"
    by (auto simp: applyAppendSessionDefaults_Inr minInflightBytes_def defaultMaxInflightBytes_def
        split: option.splits)
  note full = fill_retry_complete [of c]
  have again: "applyAppendSessionDefaults (Some opts) base = Inr opts"
    using c bytes full by (cases opts) (simp add: applyAppendSessionDefaults_Inr override_complete fill_retry_id)
  show ?thesis using c cu bytes full again by (auto simp: override_retry_keeps)
qed

section \<open>Witnesses\<close>

definition draining :: S2Error where
  "draining = \<lparr>e_Message = ''draining'', e_Code = ''server_draining'', e_Status = 503, e_Origin = ''server''\<rparr>"

text \<open>Every attempt is answered by a draining server; the context stays alive.\<close>

definition draining_env :: "AppendAck retry_env" where
  "draining_env = \<lparr>re_op = (\<lambda>_. Inl (S2E draining)), re_before = (\<lambda>_. None), re_after = (\<lambda>_. None),
     re_net = (\<lambda>_ _. None), re_wait = (\<lambda>_ _. None), re_final = None, re_rnd = (\<lambda>_ _. 0)\<rparr>"

lemma draining_class:
  "IsRetryable draining" "S2Error_HasNoSideEffects draining"
  by (simp_all add: draining_def IsRetryable_def S2Error_HasNoSideEffects_def errorCodes_def
      errorCodes_list_def code_info_def)

lemma draining_clean: "HasNoSideEffects (S2E draining)"
  by (simp add: HasNoSideEffects_def draining_class)

definition two_attempts :: RetryConfig where
  "two_attempts = \<lparr>rc_MaxAttempts = 2, rc_MinBaseDelay = 0, rc_MaxBaseDelay = 0,
     rc_AppendRetryPolicy = AppendRetryPolicyNoSideEffects\<rparr>"

lemma draining_env_fields:
  "re_op draining_env k = Inl (S2E draining)" "re_before draining_env k = None" "re_after draining_env k = None"
  "re_net draining_env k = (\<lambda>_. None)" "re_wait draining_env k d = None" "re_final draining_env = None"
  "re_rnd draining_env k = (\<lambda>_. 0)"
  by (simp_all add: draining_env_def)

lemma draining_run:
  "withAppendRetries (Some two_attempts) draining_env =
     \<lparr>ro_result = Some (Inl (S2E draining)), ro_calls = 2, ro_delays = [100000000]\<rparr>"
proof -
  have "calculateRetryBackoff (\<lambda>_. 0) two_attempts 1 = Some 100000000"
    by (simp add: calculateRetryBackoff_def backoff_base_def two_attempts_def retry_defaults)
  moreover have "clamp_attempts two_attempts = 2" by (simp add: clamp_attempts_def two_attempts_def)
  moreover have "\<not> isNetworkError ctx (S2E draining)" for ctx
    by (simp add: isNetworkError.simps chain_find_def)
  ultimately show ?thesis
    by (simp add: withAppendRetries_def withAppendRetries_loop_round append_round_def draining_env_fields
        shouldRetryError_def draining_class draining_clean withPriorUncertainty_def
        retry_return_def add_delay_def)
qed

theorem append_no_side_effects_sound_witness:
  "(\<exists>err. re_op draining_env 1 = Inl err \<and> HasNoSideEffects err) \<and>
    (\<exists>err. re_op draining_env 2 = Inl err \<and> HasNoSideEffects err)"
proof -
  have "env_ok draining_env" by (simp add: env_ok_def draining_env_def ctx_err_def Int63n_ok_def)
  from append_no_side_effects_sound [OF this _ draining_clean, of "Some two_attempts"]
  show ?thesis by (simp add: draining_run)
qed

theorem append_policy_no_side_effects_witness:
  "\<exists>err. re_op draining_env 1 = Inl err \<and> isNoSideEffectsError err"
  using append_policy_no_side_effects [of two_attempts draining_env]
  unfolding draining_run by (simp add: two_attempts_def)

theorem retry_loops_return_witness:
  "(\<exists>e. ro_result (withAppendRetries (Some two_attempts) draining_env) = Some (Inl e)) \<and>
    ro_calls (withAppendRetries (Some two_attempts) draining_env) \<le> 2"
  using retry_loops_return [of "withAppendRetries (Some two_attempts) draining_env" "Some two_attempts" draining_env]
  unfolding draining_run by simp

theorem backoff_exact_witness:
  "\<exists>d. calculateRetryBackoff (\<lambda>n. n - 1) DefaultRetryConfig 70 = Some d \<and> 1000000000 \<le> d \<and> d < 2000000000"
  using backoff_exact [of "\<lambda>n. n - 1" 70 DefaultRetryConfig]
  by (simp add: Int63n_ok_def effective_min_def effective_max_def DefaultRetryConfig_def retry_defaults)

theorem advised_reconnect_budget_witness:
  "\<not> shouldReconnect (record_advised \<lparr>adv_count = 0, adv_last = 0\<rparr> 5) 1000"
  using advised_reconnect_budget [of "\<lparr>adv_count = 0, adv_last = 0\<rparr>" 5 1000] by simp

theorem session_defaults_complete_witness:
  "\<exists>opts c. applyAppendSessionDefaults (Some \<lparr>aso_MaxInflightBytes = 0, aso_MaxInflightBatches = 3,
       aso_RetryConfig = Some two_attempts, aso_StreamConfig = None\<rparr>) None = Inr opts \<and>
     aso_RetryConfig opts = Some c \<and> rc_MaxAttempts c = 2 \<and> 0 < rc_MinBaseDelay c"
proof -
  let ?o = "\<lparr>aso_MaxInflightBytes = 0, aso_MaxInflightBatches = 3,
       aso_RetryConfig = Some two_attempts, aso_StreamConfig = None\<rparr>"
  obtain opts where run: "applyAppendSessionDefaults (Some ?o) None = Inr opts"
    by (simp add: applyAppendSessionDefaults_def Let_def)
  from session_defaults_complete [OF this] show ?thesis using run by (auto simp: two_attempts_def)
qed

end
