(* ===== verification/Url_Encoding.thy ===== *)
theory Url_Encoding
  imports Errors "HOL-Library.Char_ord" "HOL-Library.List_Lexorder"
begin

text \<open>
  What the requests use of \<open>net/url\<close> and \<open>strconv\<close>: percent escaping of a query component
  (\<open>QueryEscape\<close>) and of a path segment (\<open>PathEscape\<close>), \<open>url.Values\<close> with \<open>Set\<close>, \<open>Add\<close> and \<open>Encode\<close>,
  decimal numbers; and the two query builders of the SDK, \<open>buildQuery\<close> (\<open>src/s2/http.go\<close>) and
  \<open>buildReadQueryParams\<close> (\<open>src/s2/read.go\<close>).  A reference decoder of queries, written from the
  specification of \<open>application/x-www-form-urlencoded\<close>, states what the server understands.
\<close>

section \<open>Escaping\<close>

definition unreserved :: "char \<Rightarrow> bool" where
  "unreserved c \<longleftrightarrow> (let n = (of_char c :: nat) in
     (97 \<le> n \<and> n \<le> 122) \<or> (65 \<le> n \<and> n \<le> 90) \<or> (48 \<le> n \<and> n \<le> 57) \<or> c \<in> set ''-_.~'')"

definition upperhex :: "nat \<Rightarrow> char" where
  "upperhex n = (if n < 10 then char_of (48 + n) else char_of (55 + n))"

definition percent :: "char \<Rightarrow> string" where
  "percent c = (let n = (of_char c :: nat) in [CHR ''%'', upperhex (n div 16), upperhex (n mod 16)])"

definition query_char :: "char \<Rightarrow> string" where
  "query_char c = (if unreserved c then [c] else if c = CHR '' '' then ''+'' else percent c)"

definition path_char :: "char \<Rightarrow> string" where
  "path_char c = (if unreserved c \<or> c \<in> set ''$&+:=@'' then [c] else percent c)"

definition QueryEscape :: "string \<Rightarrow> string" where
  "QueryEscape s = concat (map query_char s)"

definition PathEscape :: "string \<Rightarrow> string" where
  "PathEscape s = concat (map path_char s)"

section \<open>Values\<close>

text \<open>\<open>url.Values\<close> is a map from keys to lists of values; the association list has distinct keys.\<close>

type_synonym url_values = "(string \<times> string list) list"

definition values_of :: "url_values \<Rightarrow> string \<Rightarrow> string list" where
  "values_of vs key = (case map_of vs key of None \<Rightarrow> [] | Some l \<Rightarrow> l)"

fun put_values :: "string \<Rightarrow> string list \<Rightarrow> url_values \<Rightarrow> url_values" where
  "put_values key l [] = [(key, l)]"
| "put_values key l ((k, v) # vs) = (if k = key then (k, l) # vs else (k, v) # put_values key l vs)"

definition values_Set :: "string \<Rightarrow> string \<Rightarrow> url_values \<Rightarrow> url_values" where
  "values_Set key value vs = put_values key [value] vs"

definition values_Add :: "string \<Rightarrow> string \<Rightarrow> url_values \<Rightarrow> url_values" where
  "values_Add key value vs = put_values key (values_of vs key @ [value]) vs"

text \<open>\<open>strings.Join(parts, sep)\<close>.\<close>

fun join :: "string \<Rightarrow> string list \<Rightarrow> string" where
  "join sep [] = ''''"
| "join sep [x] = x"
| "join sep (x # y # ys) = x @ sep @ join sep (y # ys)"

definition sorted_pairs :: "url_values \<Rightarrow> (string \<times> string) list" where
  "sorted_pairs vs = concat (map (\<lambda>(k, l). map (Pair k) l) (sort_key fst vs))"

definition values_Encode :: "url_values \<Rightarrow> string" where
  "values_Encode vs = join ''&'' (map (\<lambda>(k, v). QueryEscape k @ ''='' @ QueryEscape v) (sorted_pairs vs))"

section \<open>The query builders\<close>

definition FormatBool :: "bool \<Rightarrow> string" where
  "FormatBool b = (if b then ''true'' else ''false'')"

definition FormatUint :: "u64 \<Rightarrow> string" where
  "FormatUint w = dec_nat (unat w)"

definition set_param :: "string \<Rightarrow> ('a \<Rightarrow> string) \<Rightarrow> 'a option \<Rightarrow> url_values \<Rightarrow> url_values" where
  "set_param key fmt opt params = (case opt of None \<Rightarrow> params | Some v \<Rightarrow> values_Set key (fmt v) params)"

definition read_params :: "ReadOptions \<Rightarrow> url_values" where
  "read_params opts =
     (let params = [];
          params = set_param ''seq_num'' FormatUint (ro_SeqNum opts) params;
          params = set_param ''timestamp'' FormatUint (ro_Timestamp opts) params;
          params = set_param ''tail_offset'' dec_int (ro_TailOffset opts) params;
          params = set_param ''count'' FormatUint (ro_Count opts) params;
          params = set_param ''bytes'' FormatUint (ro_Bytes opts) params;
          params = set_param ''wait'' dec_int (ro_Wait opts) params;
          params = set_param ''until'' FormatUint (ro_Until opts) params
      in set_param ''clamp'' FormatBool (ro_Clamp opts) params)"

definition buildReadQueryParams :: "ReadOptions option \<Rightarrow> string" where
  "buildReadQueryParams opts = (case opts of None \<Rightarrow> '''' | Some opts \<Rightarrow> values_Encode (read_params opts))"

definition list_params :: "string \<Rightarrow> string \<Rightarrow> int option \<Rightarrow> url_values" where
  "list_params pre startAfter limit =
     (let params = [];
          params = (if pre \<noteq> '''' then values_Add ''prefix'' pre params else params);
          params = (if startAfter \<noteq> '''' then values_Add ''start_after'' startAfter params else params)
      in case limit of None \<Rightarrow> params | Some l \<Rightarrow> values_Add ''limit'' (dec_int l) params)"

definition buildQuery :: "string \<Rightarrow> string \<Rightarrow> int option \<Rightarrow> string" where
  "buildQuery pre startAfter limit =
     (let query = values_Encode (list_params pre startAfter limit)
      in if query \<noteq> '''' then ''?'' @ query else '''')"

section \<open>The reference decoder\<close>

definition unhex :: "char \<Rightarrow> nat" where
  "unhex c = (let n = of_char c in if n < 58 then n - 48 else n - 55)"

fun unescape :: "bool \<Rightarrow> string \<Rightarrow> string" where
  "unescape form (c # s) =
     (if c = CHR ''%'' then
        (case s of a # b # rest \<Rightarrow> char_of (16 * unhex a + unhex b) # unescape form rest | _ \<Rightarrow> [])
      else if form \<and> c = CHR ''+'' then CHR '' '' # unescape form s
      else c # unescape form s)"
| "unescape form [] = []"

fun split_on :: "char \<Rightarrow> string \<Rightarrow> string list" where
  "split_on sep [] = [[]]"
| "split_on sep (c # s) = (if c = sep then [] # split_on sep s
     else case split_on sep s of [] \<Rightarrow> [[c]] | p # ps \<Rightarrow> (c # p) # ps)"

definition decode_pair :: "string \<Rightarrow> string \<times> string" where
  "decode_pair p = (unescape True (takeWhile (\<lambda>c. c \<noteq> CHR ''='') p),
     unescape True (drop 1 (dropWhile (\<lambda>c. c \<noteq> CHR ''='') p)))"

definition decode_query :: "string \<Rightarrow> (string \<times> string) list" where
  "decode_query q = (if q = '''' then [] else map decode_pair (split_on (CHR ''&'') q))"

fun read_nat :: "nat \<Rightarrow> string \<Rightarrow> nat" where
  "read_nat acc [] = acc"
| "read_nat acc (c # s) = read_nat (10 * acc + (of_char c - 48)) s"

definition read_int :: "string \<Rightarrow> int" where
  "read_int s = (case s of c # r \<Rightarrow> if c = CHR ''-'' then - int (read_nat 0 r) else int (read_nat 0 s) | [] \<Rightarrow> 0)"

definition read_u64 :: "string \<Rightarrow> u64" where
  "read_u64 s = word_of_nat (read_nat 0 s)"

definition options_of_query :: "string \<Rightarrow> ReadOptions" where
  "options_of_query q = (let m = map_of (decode_query q) in
     \<lparr>ro_SeqNum = map_option read_u64 (m ''seq_num''), ro_Timestamp = map_option read_u64 (m ''timestamp''),
      ro_TailOffset = map_option read_int (m ''tail_offset''), ro_Count = map_option read_u64 (m ''count''),
      ro_Bytes = map_option read_u64 (m ''bytes''), ro_Wait = map_option read_int (m ''wait''),
      ro_Until = map_option read_u64 (m ''until''), ro_Clamp = map_option (\<lambda>s. s = ''true'') (m ''clamp''),
      ro_IgnoreCommandRecords = False, ro_StreamConfig = None\<rparr>)"

section \<open>Escaping is undone\<close>

lemma unhex_upperhex [simp]: "n < 16 \<Longrightarrow> unhex (upperhex n) = n"
  by (simp add: unhex_def upperhex_def Let_def)

lemma unreserved_upperhex: "n < 16 \<Longrightarrow> unreserved (upperhex n)"
  by (simp add: unreserved_def upperhex_def Let_def)

lemma not_unreserved [simp]:
  "\<not> unreserved CHR ''%''" "\<not> unreserved CHR ''+''" "\<not> unreserved CHR ''&''" "\<not> unreserved CHR ''=''"
  "\<not> unreserved CHR ''/''" "\<not> unreserved CHR ''?''" "\<not> unreserved CHR ''#''"
  by (simp_all add: unreserved_def)

lemma of_char_less: "(of_char c :: nat) < 256"
  by (metis of_char_mod_256 mod_less_divisor zero_less_numeral)

lemma hex_digits [simp]: "(of_char c :: nat) div 16 < 16" "(of_char c :: nat) mod 16 < 16"
  using of_char_less [of c] by (simp_all add: less_mult_imp_div_less)

lemma unescape_percent [simp]: "unescape form (percent c @ s) = c # unescape form s"
  by (simp add: percent_def Let_def)

lemma unescape_plain: "unreserved c \<Longrightarrow> unescape form (c # s) = c # unescape form s"
  by auto

lemma unescape_query_char [simp]: "unescape True (query_char c @ s) = c # unescape True s"
  by (simp add: query_char_def unescape_plain)

lemma unescape_path_char [simp]: "unescape False (path_char c @ s) = c # unescape False s"
  by (auto simp: path_char_def unescape_plain)

lemma unescape_QueryEscape [simp]: "unescape True (QueryEscape s) = s"
  by (induction s) (simp_all add: QueryEscape_def)

lemma unescape_PathEscape [simp]: "unescape False (PathEscape s) = s"
  by (induction s) (simp_all add: PathEscape_def)

lemma percent_chars: "d \<in> set (percent c) \<Longrightarrow> unreserved d \<or> d = CHR ''%''"
  by (auto simp: percent_def Let_def unreserved_upperhex)

lemma query_char_chars: "d \<in> set (query_char c) \<Longrightarrow> unreserved d \<or> d = CHR ''%'' \<or> d = CHR ''+''"
  by (auto simp: query_char_def split: if_splits dest: percent_chars)

lemma path_char_chars: "d \<in> set (path_char c) \<Longrightarrow> unreserved d \<or> d = CHR ''%'' \<or> d \<in> set ''$&+:=@''"
  by (auto simp: path_char_def split: if_splits dest: percent_chars)

lemma QueryEscape_chars: "CHR ''&'' \<notin> set (QueryEscape s)" "CHR ''='' \<notin> set (QueryEscape s)"
  by (auto simp: QueryEscape_def dest: query_char_chars)

lemma PathEscape_chars:
  "CHR ''/'' \<notin> set (PathEscape s)" "CHR ''?'' \<notin> set (PathEscape s)" "CHR ''#'' \<notin> set (PathEscape s)"
  by (auto simp: PathEscape_def dest: path_char_chars)

section \<open>Queries are decoded\<close>

lemma split_on_none: "sep \<notin> set p \<Longrightarrow> split_on sep p = [p]"
  by (induction p) auto

lemma split_on_append: "sep \<notin> set p \<Longrightarrow> split_on sep (p @ sep # s) = p # split_on sep s"
  by (induction p) (auto split: list.splits)

lemma split_on_join:
  "ps \<noteq> [] \<Longrightarrow> \<forall>p\<in>set ps. sep \<notin> set p \<Longrightarrow> split_on sep (join [sep] ps) = ps"
  by (induction "[sep]" ps rule: join.induct) (simp_all add: split_on_none split_on_append)

lemma decode_pair_encoded [simp]: "decode_pair (QueryEscape k @ CHR ''='' # QueryEscape v) = (k, v)"
proof -
  have free: "\<forall>c\<in>set (QueryEscape k). c \<noteq> CHR ''=''" using QueryEscape_chars(2) by blast
  then have "takeWhile (\<lambda>c. c \<noteq> CHR ''='') (QueryEscape k @ ''='' @ QueryEscape v) = QueryEscape k"
    "dropWhile (\<lambda>c. c \<noteq> CHR ''='') (QueryEscape k @ ''='' @ QueryEscape v) = ''='' @ QueryEscape v"
    by (simp_all add: takeWhile_append dropWhile_append)
  then show ?thesis by (simp add: decode_pair_def)
qed

lemma decode_Encode: "decode_query (values_Encode vs) = sorted_pairs vs"
proof (cases "sorted_pairs vs = []")
  case False
  let ?enc = "\<lambda>(k, v). QueryEscape k @ ''='' @ QueryEscape v"
  let ?ps = "map ?enc (sorted_pairs vs)"
  have ne: "?ps \<noteq> []" using False by simp
  have "\<forall>p\<in>set ?ps. CHR ''&'' \<notin> set p" using QueryEscape_chars(1) by auto
  then have split: "split_on (CHR ''&'') (join ''&'' ?ps) = ?ps" by (rule split_on_join [OF ne])
  have "join ''&'' ?ps \<noteq> ''''" using False by (cases "sorted_pairs vs" rule: list.exhaust; cases "tl (sorted_pairs vs)") auto
  then have "decode_query (values_Encode vs) = map decode_pair ?ps"
    using split by (simp add: decode_query_def values_Encode_def)
  then show ?thesis by (simp add: case_prod_beta comp_def)
qed (simp add: decode_query_def values_Encode_def)

lemma read_nat_append: "read_nat acc (s @ t) = read_nat (read_nat acc s) t"
  by (induction s arbitrary: acc) auto

lemma read_nat_dec [simp]: "read_nat 0 (dec_nat n) = n"
proof (induction n rule: dec_nat.induct)
  case (1 n)
  then show ?case by (subst dec_nat.simps) (simp add: read_nat_append)
qed

lemma dec_nat_digits: "c \<in> set (dec_nat n) \<Longrightarrow> 48 \<le> (of_char c :: nat) \<and> (of_char c :: nat) \<le> 57"
proof (induction n rule: dec_nat.induct)
  case (1 n)
  have "c \<in> set (if n < 10 then [char_of (48 + n)] else dec_nat (n div 10) @ [char_of (48 + n mod 10)])"
    using "1.prems" by (subst (asm) dec_nat.simps)
  then show ?case using "1.IH" by (auto split: if_splits)
qed

lemma read_int_dec [simp]: "read_int (dec_int i) = i"
proof (cases "i < 0")
  case False
  obtain c r where d: "dec_nat (nat i) = c # r" using dec_nat_nonempty by (cases "dec_nat (nat i)") auto
  then have "c \<noteq> CHR ''-''" using dec_nat_digits [of c "nat i"] by auto
  moreover have "read_nat 0 (c # r) = nat i" using read_nat_dec [of "nat i"] d by simp
  ultimately show ?thesis using False d by (simp add: read_int_def dec_int_def del: read_nat.simps)
qed (simp add: read_int_def dec_int_def)

lemma read_u64_Format [simp]: "read_u64 (FormatUint w) = w"
  by (simp add: read_u64_def FormatUint_def)

lemma FormatBool_true [simp]: "FormatBool b = ''true'' \<longleftrightarrow> b"
  by (simp add: FormatBool_def)

lemma map_of_put_values [simp]: "map_of (put_values k l vs) = (map_of vs)(k \<mapsto> l)"
  by (induction k l vs rule: put_values.induct) (auto simp: fun_eq_iff)

definition single_values :: "url_values \<Rightarrow> bool" where
  "single_values vs \<longleftrightarrow> distinct (map fst vs) \<and> (\<forall>l\<in>snd ` set vs. length l = 1)"

lemma fst_put_values: "fst ` set (put_values k l vs) = insert k (fst ` set vs)"
  by (induction k l vs rule: put_values.induct) auto

lemma single_put: "single_values vs \<Longrightarrow> single_values (put_values k [v] vs)"
proof -
  have "distinct (map fst vs) \<Longrightarrow> distinct (map fst (put_values k l vs))" for l
  proof (induction k l vs rule: put_values.induct)
    case (2 k l k' l' vs)
    then show ?case using fst_put_values [of k l vs] by (auto simp: image_def)
  qed simp
  moreover have "snd ` set (put_values k l vs) \<subseteq> insert l (snd ` set vs)" for l
    by (induction k l vs rule: put_values.induct) auto
  ultimately show "single_values vs \<Longrightarrow> single_values (put_values k [v] vs)"
    by (fastforce simp: single_values_def)
qed

lemma single_Nil [simp]: "single_values []"
  by (simp add: single_values_def)

lemma single_set_param: "single_values vs \<Longrightarrow> single_values (set_param k fmt opt vs)"
  by (simp add: set_param_def values_Set_def single_put split: option.splits)

lemma map_of_set_param: "map_of (set_param k fmt opt vs) =
    (case opt of None \<Rightarrow> map_of vs | Some v \<Rightarrow> (map_of vs)(k \<mapsto> [fmt v]))"
  by (simp add: set_param_def values_Set_def split: option.splits)

lemma map_of_sorted_pairs:
  assumes "single_values vs"
  shows "map_of (sorted_pairs vs) k = map_option hd (map_of vs k)"
proof -
  have one: "l \<in> snd ` set vs \<Longrightarrow> l = [hd l]" for l
    using assms by (auto simp: single_values_def length_Suc_conv)
  have "sorted_pairs vs = map (\<lambda>(k, l). (k, hd l)) (sort_key fst vs)"
  proof -
    have "concat (map (\<lambda>(k, l). map (Pair k) l) qs) = map (\<lambda>(k, l). (k, hd l)) qs" if "set qs \<subseteq> set vs" for qs
      using that
    proof (induction qs)
      case (Cons q qs)
      have "snd q = [hd (snd q)]" using Cons.prems by (intro one) auto
      then have "map (Pair (fst q)) (snd q) = [(fst q, hd (snd q))]" by (metis list.simps(8,9))
      with Cons show ?case by (simp add: case_prod_beta)
    qed simp
    then show ?thesis by (simp add: sorted_pairs_def)
  qed
  moreover have "map_of (sort_key fst vs) = map_of vs"
  proof -
    have "distinct (map fst (sort_key fst vs))" "distinct (map fst vs)"
      using assms by (simp_all add: single_values_def distinct_map)
    then show ?thesis by (simp add: map_of_inject_set)
  qed
  ultimately show ?thesis by (simp add: map_of_map [unfolded comp_def])
qed

section \<open>Properties\<close>

text \<open>The query string built for a read carries exactly the options: a server that decodes it gets back
  every option that was set, with its value (all 64 bits of a sequence number, negative offsets), and no
  option that was not; the client-side options are not sent.\<close>

theorem read_query_roundtrip:
  "options_of_query (buildReadQueryParams (Some opts)) =
     opts\<lparr>ro_IgnoreCommandRecords := False, ro_StreamConfig := None\<rparr>"
proof -
  have single: "single_values (read_params opts)"
    by (simp add: read_params_def Let_def single_set_param)
  show ?thesis
    unfolding options_of_query_def buildReadQueryParams_def option.case decode_Encode Let_def
      map_of_sorted_pairs [OF single]
    by (cases opts) (simp add: read_params_def Let_def map_of_set_param split: option.splits)
qed

end
