(* ===== verification/Encryption.thy ===== *)
theory Encryption
  imports Errors
begin

text \<open>
  Encryption keys (\<open>src/s2/encryption.go\<close>).  The key material is a fixed array of 44 bytes and a length.
  \<open>encoding/base64.StdEncoding\<close> is modelled bytewise; a decoder of it is the reference for the round trip.
  The finalizer that clears the array when the key is collected is not visible in a model of values.
\<close>

section \<open>Base64\<close>

definition base64_code :: "nat \<Rightarrow> nat" where
  "base64_code n =
     (if n < 26 then 65 + n else if n < 52 then 71 + n else if n < 62 then n - 4 else if n = 62 then 43 else 47)"

definition base64_char :: "nat \<Rightarrow> byte" where
  "base64_char n = word_of_nat (base64_code n)"

text \<open>The character \<open>=\<close> that pads the last group.\<close>

definition pad_char :: byte where "pad_char = 61"

fun base64_Encode :: "byte list \<Rightarrow> byte list" where
  "base64_Encode [] = []"
| "base64_Encode [a] = (let v = unat a * 65536 in
     [base64_char (v div 262144), base64_char (v div 4096 mod 64), pad_char, pad_char])"
| "base64_Encode [a, b] = (let v = unat a * 65536 + unat b * 256 in
     [base64_char (v div 262144), base64_char (v div 4096 mod 64), base64_char (v div 64 mod 64), pad_char])"
| "base64_Encode (a # b # c # rest) = (let v = unat a * 65536 + unat b * 256 + unat c in
     [base64_char (v div 262144), base64_char (v div 4096 mod 64), base64_char (v div 64 mod 64), base64_char (v mod 64)]
     @ base64_Encode rest)"

definition base64_EncodedLen :: "nat \<Rightarrow> nat" where
  "base64_EncodedLen n = (n + 2) div 3 * 4"

section \<open>Keys\<close>

definition maxEncryptionKeyHeaderValueLen :: nat where "maxEncryptionKeyHeaderValueLen = 44"
definition s2EncryptionKeyHeader :: string where "s2EncryptionKeyHeader = ''s2-encryption-key''"

record encryptionKeyMaterial =
  ek_encoded :: "byte list"
  ek_length :: nat

type_synonym EncryptionKey = "encryptionKeyMaterial option"

definition newEncryptionKeyMaterial :: "nat \<Rightarrow> encryptionKeyMaterial" where
  "newEncryptionKeyMaterial len = \<lparr>ek_encoded = replicate maxEncryptionKeyHeaderValueLen 0, ek_length = len\<rparr>"

text \<open>\<open>copy(dst, src)\<close>: the common prefix is overwritten.\<close>

definition copy_into :: "'a list \<Rightarrow> 'a list \<Rightarrow> 'a list" where
  "copy_into dst src = take (length dst) src @ drop (length src) dst"

definition invalidEncryptionKeyLength :: "nat \<Rightarrow> goerr" where
  "invalidEncryptionKeyLength len = newValidationError
     (''invalid encryption key: key material length '' @ dec_nat len @ '' is out of range'')"

definition NewEncryptionKey :: "byte list \<Rightarrow> goerr + EncryptionKey" where
  "NewEncryptionKey key =
     (let normalized = TrimSpace key in
      if normalized = [] \<or> length normalized > maxEncryptionKeyHeaderValueLen
      then Inl (invalidEncryptionKeyLength (length normalized))
      else
        let material = newEncryptionKeyMaterial (length normalized);
            material = material\<lparr>ek_encoded := copy_into (ek_encoded material) normalized\<rparr>
        in Inr (Some material))"

definition NewEncryptionKeyFromBytes :: "byte list \<Rightarrow> goerr + EncryptionKey" where
  "NewEncryptionKeyFromBytes key =
     (let encodedLen = base64_EncodedLen (length key) in
      if encodedLen = 0 \<or> encodedLen > maxEncryptionKeyHeaderValueLen
      then Inl (invalidEncryptionKeyLength (length key))
      else
        let material = newEncryptionKeyMaterial encodedLen;
            encoded = copy_into (take encodedLen (ek_encoded material)) (base64_Encode key) @ drop encodedLen (ek_encoded material)
        in Inr (Some (material\<lparr>ek_encoded := encoded\<rparr>)))"

definition key_isZero :: "EncryptionKey \<Rightarrow> bool" where
  "key_isZero k \<longleftrightarrow> (case k of None \<Rightarrow> True | Some m \<Rightarrow> ek_length m = 0)"

definition key_String :: "EncryptionKey \<Rightarrow> string" where
  "key_String k = (if key_isZero k then ''EncryptionKey(<invalid>)'' else ''EncryptionKey(<redacted>)'')"

definition headerValue :: "EncryptionKey \<Rightarrow> byte list" where
  "headerValue k = (case k of None \<Rightarrow> [] | Some m \<Rightarrow> take (ek_length m) (ek_encoded m))"

section \<open>The reference decoder\<close>

definition base64_digit :: "byte \<Rightarrow> nat" where
  "base64_digit b = (let n = unat b in
     if 65 \<le> n \<and> n \<le> 90 then n - 65 else if 97 \<le> n \<and> n \<le> 122 then n - 71
     else if 48 \<le> n \<and> n \<le> 57 then n + 4 else if n = 43 then 62 else 63)"

fun base64_Decode :: "byte list \<Rightarrow> byte list" where
  "base64_Decode (a # b # c # d # rest) =
     (let x = base64_digit a * 262144 + base64_digit b * 4096 in
      if c = pad_char then [word_of_nat (x div 65536)]
      else if d = pad_char then
        (let x = x + base64_digit c * 64 in [word_of_nat (x div 65536), word_of_nat (x div 256)])
      else
        (let x = x + base64_digit c * 64 + base64_digit d in
         [word_of_nat (x div 65536), word_of_nat (x div 256), word_of_nat x] @ base64_Decode rest))"
| "base64_Decode _ = []"

lemma unat_byte [simp]: "k < 256 \<Longrightarrow> unat (word_of_nat k :: byte) = k"
  by (simp add: unat_of_nat)

lemma byte_less: "unat (b :: byte) < 256"
  using unsigned_less [of b] by simp

lemma unat_base64_char: "n < 64 \<Longrightarrow> unat (base64_char n) = base64_code n"
proof -
  assume "n < 64"
  then have "base64_code n < 256" by (auto simp: base64_code_def)
  then show ?thesis by (simp add: base64_char_def)
qed

lemma base64_digit_char [simp]: "n < 64 \<Longrightarrow> base64_digit (base64_char n) = n"
  by (simp add: base64_digit_def unat_base64_char Let_def) (auto simp: base64_code_def)

lemma base64_char_pad [simp]: "n < 64 \<Longrightarrow> base64_char n \<noteq> pad_char"
proof
  assume "n < 64" "base64_char n = pad_char"
  then have "base64_code n = 61" using unat_base64_char [of n] by (simp add: pad_char_def)
  with \<open>n < 64\<close> show False by (simp add: base64_code_def split: if_splits)
qed

text \<open>The four digits of a 24-bit group give the group back.\<close>

lemma digits_24: "x div 262144 * 262144 + x div 4096 mod 64 * 4096 + x div 64 mod 64 * 64 + x mod 64 = (x :: nat)"
proof -
  have "x div 4096 = x div 4096 div 64 * 64 + x div 4096 mod 64" by simp
  moreover have "x div 64 = x div 64 div 64 * 64 + x div 64 mod 64" by simp
  moreover have "x div 4096 div 64 = x div 262144" "x div 64 div 64 = x div 4096"
    by (simp_all flip: div_mult2_eq)
  moreover have "x = x div 64 * 64 + x mod 64" by simp
  ultimately show ?thesis by linarith
qed

lemma bytes_24:
  fixes a b c :: byte
  defines "x \<equiv> unat a * 65536 + unat b * 256 + unat c"
  shows "word_of_nat (x div 65536) = a" "word_of_nat (x div 256) = b" "word_of_nat x = c" "x div 262144 < 64"
proof -
  note lt = byte_less [of a] byte_less [of b] byte_less [of c]
  have "x div 65536 = unat a" using lt unfolding x_def by linarith
  then show "word_of_nat (x div 65536) = a" by simp
  have "x div 256 = unat a * 256 + unat b" using lt unfolding x_def by linarith
  then have "unat (word_of_nat (x div 256) :: byte) = unat b" using lt by (simp only: unat_of_nat) simp
  then show "word_of_nat (x div 256) = b" by (simp only: unsigned_word_eqI)
  have "x mod 256 = unat c" using lt mod_mult_self2 [of "unat c" 256 "unat a * 256 + unat b"] unfolding x_def
    by (simp add: algebra_simps)
  then have "unat (word_of_nat x :: byte) = unat c" by (simp add: unat_of_nat)
  then show "word_of_nat x = c" by (simp only: unsigned_word_eqI)
  show "x div 262144 < 64" using lt unfolding x_def by linarith
qed

lemma base64_decode_group:
  fixes a b c :: byte
  defines "x \<equiv> unat a * 65536 + unat b * 256 + unat c"
  shows "base64_Decode ([base64_char (x div 262144), base64_char (x div 4096 mod 64), base64_char (x div 64 mod 64),
      base64_char (x mod 64)] @ rest) = a # b # c # base64_Decode rest"
    "c = 0 \<Longrightarrow> base64_Decode [base64_char (x div 262144), base64_char (x div 4096 mod 64), base64_char (x div 64 mod 64),
      pad_char] = [a, b]"
    "b = 0 \<Longrightarrow> c = 0 \<Longrightarrow> base64_Decode [base64_char (x div 262144), base64_char (x div 4096 mod 64), pad_char,
      pad_char] = [a]"
proof -
  note bytes = bytes_24 [of a b c, folded x_def]
  note sum = digits_24 [of x]
  show "base64_Decode ([base64_char (x div 262144), base64_char (x div 4096 mod 64), base64_char (x div 64 mod 64),
      base64_char (x mod 64)] @ rest) = a # b # c # base64_Decode rest"
    using bytes by (simp add: Let_def sum del: of_nat_add of_nat_mult)
  show "base64_Decode [base64_char (x div 262144), base64_char (x div 4096 mod 64), base64_char (x div 64 mod 64),
      pad_char] = [a, b]" if "c = 0"
  proof -
    have "x = (unat a * 1024 + unat b * 4) * 64" using that by (simp add: x_def)
    then have "x mod 64 = 0" by simp
    then have "x div 262144 * 262144 + x div 4096 mod 64 * 4096 + x div 64 mod 64 * 64 = x" using sum by simp
    then show ?thesis using bytes by (simp add: Let_def del: of_nat_add of_nat_mult)
  qed
  show "base64_Decode [base64_char (x div 262144), base64_char (x div 4096 mod 64), pad_char, pad_char] = [a]"
    if "b = 0" "c = 0"
  proof -
    have "x = unat a * 65536" using that by (simp add: x_def)
    then have "x mod 64 = 0" "x div 64 mod 64 = 0" by simp_all
    then have "x div 262144 * 262144 + x div 4096 mod 64 * 4096 = x" using sum by simp
    then show ?thesis using bytes by (simp add: Let_def del: of_nat_add of_nat_mult)
  qed
qed

lemma base64_decode_encode: "base64_Decode (base64_Encode bs) = bs"
proof (induction bs rule: base64_Encode.induct)
  case (2 a)
  show ?case using base64_decode_group(3) [of 0 0 a] by (simp add: Let_def)
next
  case (3 a b)
  show ?case using base64_decode_group(2) [of 0 a b] by (simp add: Let_def)
next
  case (4 a b c rest)
  then show ?case using base64_decode_group(1) [of a b c "base64_Encode rest"] by (simp add: Let_def)
qed simp

lemma length_base64_Encode: "length (base64_Encode bs) = base64_EncodedLen (length bs)"
proof (induction bs rule: base64_Encode.induct)
  case (4 a b c rest)
  moreover have "base64_EncodedLen (length (a # b # c # rest)) = base64_EncodedLen (length rest) + 4"
  proof -
    have "length (a # b # c # rest) + 2 = length rest + 2 + 3" by simp
    then show ?thesis by (simp only: base64_EncodedLen_def div_add_self2 [of 3 "length rest + 2"]) simp
  qed
  ultimately show ?case by (simp add: Let_def)
qed (simp_all add: base64_EncodedLen_def Let_def)

section \<open>Properties\<close>

text \<open>A raw key is accepted exactly when it has 1 to 33 bytes.  The value sent in the header then is its base64
  form, from which the server recovers the very key, it fits the 44 bytes of the array, and the textual
  form of the key does not depend on it.\<close>

theorem encryption_key_roundtrip:
  "case NewEncryptionKeyFromBytes key of
     Inl err \<Rightarrow> length key \<notin> {1..33} \<and> err = invalidEncryptionKeyLength (length key)
   | Inr k \<Rightarrow> length key \<in> {1..33} \<and> base64_Decode (headerValue k) = key \<and> length (headerValue k) \<le> 44 \<and>
       \<not> key_isZero k \<and> key_String k = ''EncryptionKey(<redacted>)''"
proof -
  let ?n = "base64_EncodedLen (length key)"
  have range: "?n = 0 \<or> ?n > 44 \<longleftrightarrow> length key \<notin> {1..33}" by (auto simp: base64_EncodedLen_def)
  show ?thesis
  proof (cases "?n = 0 \<or> ?n > 44")
    case False
    then have fit: "0 < ?n" "?n \<le> 44" by auto
    then have "copy_into (take ?n (replicate 44 (0 :: byte))) (base64_Encode key) = base64_Encode key"
      by (simp add: copy_into_def length_base64_Encode min_def)
    then have "headerValue (Some (newEncryptionKeyMaterial ?n\<lparr>ek_encoded := base64_Encode key @ drop ?n (replicate 44 0)\<rparr>)) =
        base64_Encode key"
      by (simp add: headerValue_def newEncryptionKeyMaterial_def length_base64_Encode)
    then show ?thesis using False range fit
      by (simp add: NewEncryptionKeyFromBytes_def Let_def maxEncryptionKeyHeaderValueLen_def newEncryptionKeyMaterial_def
          headerValue_def key_isZero_def key_String_def copy_into_def length_base64_Encode min_def base64_decode_encode)
  qed (use range in \<open>simp add: NewEncryptionKeyFromBytes_def Let_def maxEncryptionKeyHeaderValueLen_def\<close>)
qed

end
