(* ===== verification/Http_Requests.thy ===== *)
theory Http_Requests
  imports Retry Framing Url_Encoding Encryption
begin

text \<open>
  The unary HTTP requests (\<open>src/s2/http.go\<close>): headers, the JSON and the protobuf request, the decoding
  of their responses, and the unary stream operations built on them (\<open>CheckTail\<close>, \<open>Read\<close>, \<open>Append\<close> of
  \<open>src/s2/stream.go\<close>, \<open>read.go\<close>, \<open>append.go\<close>).  \<open>net/http\<close> is a parameter: \<open>hx_Do\<close> answers a request with
  an error or a response whose body is the list of bytes it yields followed by EOF or an error.  JSON and
  protobuf coding are parameters of the operations.  Logging is left out.
\<close>

section \<open>Headers\<close>

text \<open>\<open>http.Header\<close> keeps canonical keys; only \<open>Set\<close> is used, so every key has one value.\<close>

type_synonym http_header = "(string \<times> string) list"

definition upper_char :: "char \<Rightarrow> char" where
  "upper_char c = (let n = (of_char c :: nat) in if 97 \<le> n \<and> n \<le> 122 then char_of (n - 32) else c)"

definition header_token_char :: "char \<Rightarrow> bool" where
  "header_token_char c \<longleftrightarrow> (let n = (of_char c :: nat) in
     (97 \<le> n \<and> n \<le> 122) \<or> (65 \<le> n \<and> n \<le> 90) \<or> (48 \<le> n \<and> n \<le> 57) \<or> c \<in> set ''!#$%&'' \<or> n = 39 \<or> c \<in> set ''*+-.^_`|~'')"

fun canonical_from :: "bool \<Rightarrow> string \<Rightarrow> string" where
  "canonical_from upper [] = []"
| "canonical_from upper (c # s) =
     (if upper then upper_char c else lower_char c) # canonical_from (c = CHR ''-'') s"

definition CanonicalHeaderKey :: "string \<Rightarrow> string" where
  "CanonicalHeaderKey key = (if list_all header_token_char key then canonical_from True key else key)"

definition header_Set :: "string \<Rightarrow> string \<Rightarrow> http_header \<Rightarrow> http_header" where
  "header_Set key value hs =
     (let k = CanonicalHeaderKey key in filter (\<lambda>(k', _). k' \<noteq> k) hs @ [(k, value)])"

definition header_Get :: "string \<Rightarrow> http_header \<Rightarrow> string" where
  "header_Get key hs = (case map_of hs (CanonicalHeaderKey key) of None \<Rightarrow> '''' | Some v \<Rightarrow> v)"

definition s2StreamConfigHeader :: string where "s2StreamConfigHeader = ''s2-stream-config''"

definition setEncryptionKeyHeader :: "EncryptionKey option \<Rightarrow> http_header \<Rightarrow> http_header" where
  "setEncryptionKeyHeader key headers = (case key of
     None \<Rightarrow> headers
   | Some k \<Rightarrow> if key_isZero k then headers else header_Set s2EncryptionKeyHeader (string_of (headerValue k)) headers)"

text \<open>\<open>marshal\<close> is \<open>json.Marshal\<close>.\<close>

definition setStreamConfigHeader ::
    "(StreamConfig \<Rightarrow> goerr + byte list) \<Rightarrow> StreamConfig option \<Rightarrow> http_header \<Rightarrow> goerr + http_header" where
  "setStreamConfigHeader marshal config headers = (case config of
     None \<Rightarrow> Inr headers
   | Some c \<Rightarrow>
       (case marshal c of
          Inl err \<Rightarrow> Inl (newValidationError (''encode stream config: '' @ Error err))
        | Inr encoded \<Rightarrow> Inr (header_Set s2StreamConfigHeader (string_of encoded) headers)))"

section \<open>Requests and responses\<close>

record httpClient =
  hc_baseURL :: string
  hc_accessToken :: string
  hc_basinName :: string
  hc_compression :: CompressionType

record http_request =
  rq_method :: string
  rq_url :: string
  rq_header :: http_header
  rq_body :: "byte list option"

record http_response =
  rs_StatusCode :: int
  rs_Header :: http_header
  rs_Body :: "byte list"
  rs_BodyErr :: "goerr option"

record responseMeta =
  rm_statusCode :: int
  rm_header :: http_header

record http_env =
  hx_NewRequest :: "string \<Rightarrow> string \<Rightarrow> goerr option"
  hx_Do :: "http_request \<Rightarrow> goerr + http_response"
  hx_codec :: codec
  hx_json :: json_codec
  hx_statusText :: "int \<Rightarrow> string"
  hx_quoted :: "byte list \<Rightarrow> string"
  hx_marshalConfig :: "StreamConfig \<Rightarrow> goerr + byte list"

definition maxErrorBodyBytes :: nat where "maxErrorBodyBytes = 64 * 1024"

text \<open>\<open>io.ReadAll\<close> of the whole body, and of a \<open>LimitReader\<close> on it, which stops before a later error.\<close>

definition ReadAll :: "http_response \<Rightarrow> byte list \<times> goerr option" where
  "ReadAll resp = (rs_Body resp, rs_BodyErr resp)"

definition ReadAll_limited :: "nat \<Rightarrow> http_response \<Rightarrow> byte list \<times> goerr option" where
  "ReadAll_limited n resp =
     (if n \<le> length (rs_Body resp) then (take n (rs_Body resp), None) else (rs_Body resp, rs_BodyErr resp))"

text \<open>\<open>parseHTTPError\<close>; the JSON requests inline the same lines.\<close>

definition parseHTTPError :: "http_env \<Rightarrow> http_response \<Rightarrow> goerr" where
  "parseHTTPError env resp =
     (case ReadAll_limited maxErrorBodyBytes resp of
        (body, Some readErr) \<Rightarrow> newBodyReadError (hx_quoted env) (rs_StatusCode resp) body readErr
      | (body, None) \<Rightarrow> decodeAPIError (hx_json env) (hx_statusText env) (rs_StatusCode resp) body)"

section \<open>JSON requests\<close>

text \<open>\<open>body\<close> is \<open>None\<close> for a nil body, else the result of \<open>json.Marshal\<close>; \<open>decode\<close> is \<open>None\<close> for a nil result,
  else the JSON decoder reading from the body.\<close>

definition json_headers :: "httpClient \<Rightarrow> bool \<Rightarrow> http_header \<Rightarrow> http_header" where
  "json_headers h hasBody extraHeaders =
     (let hs = header_Set ''Authorization'' (''Bearer '' @ hc_accessToken h) [];
          hs = (if hasBody then header_Set ''Content-Type'' ''application/json'' hs else hs);
          hs = (if hc_basinName h \<noteq> '''' then header_Set ''s2-basin'' (hc_basinName h) hs else hs)
      in fold (\<lambda>(k, v). header_Set k v) extraHeaders hs)"

definition json_request :: "http_env \<Rightarrow> httpClient \<Rightarrow> string \<Rightarrow> string \<Rightarrow> (goerr + byte list) option \<Rightarrow> http_header \<Rightarrow>
    goerr + http_request" where
  "json_request env h method path body extraHeaders =
     (let build = (\<lambda>reqBody.
        case hx_NewRequest env method (hc_baseURL h @ path) of
          Some err \<Rightarrow> Inl (errorf_w ''create request: '' err)
        | None \<Rightarrow> Inr \<lparr>rq_method = method, rq_url = hc_baseURL h @ path,
            rq_header = json_headers h (body \<noteq> None) extraHeaders, rq_body = reqBody\<rparr>)
      in case body of
           Some (Inl err) \<Rightarrow> Inl (errorf_w ''marshal request body: '' err)
         | Some (Inr jsonData) \<Rightarrow> build (Some jsonData)
         | None \<Rightarrow> build None)"

definition json_result :: "http_env \<Rightarrow> (byte list \<times> goerr option \<Rightarrow> goerr + 'r) option \<Rightarrow> http_response \<Rightarrow>
    goerr + responseMeta \<times> 'r option" where
  "json_result env decode resp =
     (if rs_StatusCode resp \<ge> 400 then Inl (parseHTTPError env resp)
      else
        let meta = \<lparr>rm_statusCode = rs_StatusCode resp, rm_header = rs_Header resp\<rparr> in
        case decode of
          None \<Rightarrow> Inr (meta, None)
        | Some d \<Rightarrow>
            if rs_StatusCode resp = 204 then Inr (meta, None)
            else
              (case d (rs_Body resp, rs_BodyErr resp) of
                 Inl err \<Rightarrow> Inl (errorf_w ''decode response: '' err)
               | Inr result \<Rightarrow> Inr (meta, Some result)))"

definition requestWithHeadersResult :: "http_env \<Rightarrow> httpClient \<Rightarrow> string \<Rightarrow> string \<Rightarrow> (goerr + byte list) option \<Rightarrow>
    (byte list \<times> goerr option \<Rightarrow> goerr + 'r) option \<Rightarrow> http_header \<Rightarrow> goerr + responseMeta \<times> 'r option" where
  "requestWithHeadersResult env h method path body decode extraHeaders =
     (case json_request env h method path body extraHeaders of
        Inl err \<Rightarrow> Inl err
      | Inr req \<Rightarrow>
          (case hx_Do env req of
             Inl err \<Rightarrow> Inl (errorf_w ''perform request: '' err)
           | Inr resp \<Rightarrow> json_result env decode resp))"

definition requestWithHeaders :: "http_env \<Rightarrow> httpClient \<Rightarrow> string \<Rightarrow> string \<Rightarrow> (goerr + byte list) option \<Rightarrow>
    (byte list \<times> goerr option \<Rightarrow> goerr + 'r) option \<Rightarrow> http_header \<Rightarrow> goerr + 'r option" where
  "requestWithHeaders env h method path body decode extraHeaders =
     (case requestWithHeadersResult env h method path body decode extraHeaders of
        Inl err \<Rightarrow> Inl err | Inr (_, result) \<Rightarrow> Inr result)"

definition request :: "http_env \<Rightarrow> httpClient \<Rightarrow> string \<Rightarrow> string \<Rightarrow> (goerr + byte list) option \<Rightarrow>
    (byte list \<times> goerr option \<Rightarrow> goerr + 'r) option \<Rightarrow> goerr + 'r option" where
  "request env h method path body decode = requestWithHeaders env h method path body decode []"

type_synonym ProvisionResult = string

definition ProvisionResultCreated :: ProvisionResult where "ProvisionResultCreated = ''created''"
definition ProvisionResultUpdated :: ProvisionResult where "ProvisionResultUpdated = ''updated''"
definition ProvisionResultNoop :: ProvisionResult where "ProvisionResultNoop = ''noop''"
definition provisionResultHeader :: string where "provisionResultHeader = ''s2-provision-result''"

definition provisionResultFromResponse :: "responseMeta option \<Rightarrow> ProvisionResult" where
  "provisionResultFromResponse meta = (case meta of
     None \<Rightarrow> ProvisionResultUpdated
   | Some m \<Rightarrow>
       let result = header_Get provisionResultHeader (rm_header m) in
       if result = ProvisionResultCreated \<or> result = ProvisionResultUpdated \<or> result = ProvisionResultNoop then result
       else if rm_statusCode m = 201 then ProvisionResultCreated
       else ProvisionResultUpdated)"

section \<open>Protobuf requests\<close>

definition protoContentType :: string where "protoContentType = ''application/protobuf''"

definition proto_plain_headers :: "httpClient \<Rightarrow> bool \<Rightarrow> bool \<Rightarrow> EncryptionKey option \<Rightarrow> http_header" where
  "proto_plain_headers h hasBody hasResult encryptionKey =
     (let hs = header_Set ''Authorization'' (''Bearer '' @ hc_accessToken h) [];
          hs = (if hasBody then
              let hs = header_Set ''Content-Type'' protoContentType hs;
                  encoding = ContentEncoding (hc_compression h)
              in if encoding \<noteq> '''' then header_Set ''Content-Encoding'' encoding hs else hs
            else hs);
          hs = (if hasResult then
              let hs = header_Set ''Accept'' protoContentType hs;
                  encoding = AcceptEncoding (hc_compression h)
              in if encoding \<noteq> '''' then header_Set ''Accept-Encoding'' encoding hs else hs
            else hs);
          hs = (if hc_basinName h \<noteq> '''' then header_Set ''s2-basin'' (hc_basinName h) hs else hs)
      in setEncryptionKeyHeader encryptionKey hs)"

definition proto_headers :: "http_env \<Rightarrow> httpClient \<Rightarrow> bool \<Rightarrow> bool \<Rightarrow> EncryptionKey option \<Rightarrow> StreamConfig option \<Rightarrow>
    goerr + http_header" where
  "proto_headers env h hasBody hasResult encryptionKey streamConfig =
     setStreamConfigHeader (hx_marshalConfig env) streamConfig (proto_plain_headers h hasBody hasResult encryptionKey)"

definition proto_body :: "http_env \<Rightarrow> httpClient \<Rightarrow> (goerr + byte list) option \<Rightarrow> goerr + byte list option" where
  "proto_body env h body = (case body of
     None \<Rightarrow> Inr None
   | Some (Inl err) \<Rightarrow> Inl (errorf_w ''marshal proto body: '' err)
   | Some (Inr data) \<Rightarrow>
       if hc_compression h \<noteq> CompressionNone then
         (case Compress (hx_codec env) data (hc_compression h) of
            Inl err \<Rightarrow> Inl (errorf_w ''compress request body: '' err)
          | Inr data \<Rightarrow> Inr (Some data))
       else Inr (Some data))"

text \<open>Both branches of the response undo its content encoding.\<close>

definition decoded_body :: "http_env \<Rightarrow> string \<Rightarrow> http_response \<Rightarrow> byte list \<Rightarrow> goerr + byte list" where
  "decoded_body env what resp data =
     (let encoding = header_Get ''Content-Encoding'' (rs_Header resp) in
      if encoding \<noteq> '''' then
        (case Decompress (hx_codec env) data (ParseContentEncoding encoding) of
           Inl err \<Rightarrow> Inl (errorf_w what err)
         | Inr decompressed \<Rightarrow> Inr decompressed)
      else Inr data)"

definition proto_error :: "http_env \<Rightarrow> http_response \<Rightarrow> goerr" where
  "proto_error env resp =
     (case ReadAll_limited maxErrorBodyBytes resp of
        (body, Some readErr) \<Rightarrow> newBodyReadError (hx_quoted env) (rs_StatusCode resp) body readErr
      | (body, None) \<Rightarrow>
          (case decoded_body env ''decompress error response body: '' resp body of
             Inl err \<Rightarrow> err
           | Inr body \<Rightarrow> decodeAPIError (hx_json env) (hx_statusText env) (rs_StatusCode resp) body))"

definition proto_result :: "http_env \<Rightarrow> (byte list \<Rightarrow> goerr + 'r) option \<Rightarrow> http_response \<Rightarrow> goerr + 'r option" where
  "proto_result env unmarshal resp = (case unmarshal of
     None \<Rightarrow> Inr None
   | Some u \<Rightarrow>
       if rs_StatusCode resp = 204 then Inr None
       else
         (case ReadAll resp of
            (_, Some err) \<Rightarrow> Inl (errorf_w ''read proto response: '' err)
          | (data, None) \<Rightarrow>
              (case decoded_body env ''decompress response body: '' resp data of
                 Inl err \<Rightarrow> Inl err
               | Inr data \<Rightarrow>
                   (case u data of
                      Inl err \<Rightarrow> Inl (errorf_w ''decode proto response: '' err)
                    | Inr result \<Rightarrow> Inr (Some result)))))"

definition proto_request :: "http_env \<Rightarrow> httpClient \<Rightarrow> string \<Rightarrow> string \<Rightarrow> (goerr + byte list) option \<Rightarrow> bool \<Rightarrow>
    EncryptionKey option \<Rightarrow> StreamConfig option \<Rightarrow> goerr + http_request" where
  "proto_request env h method path body hasResult encryptionKey streamConfig =
     (case proto_body env h body of
        Inl err \<Rightarrow> Inl err
      | Inr reqBody \<Rightarrow>
          (case hx_NewRequest env method (hc_baseURL h @ path) of
             Some err \<Rightarrow> Inl (errorf_w ''create request: '' err)
           | None \<Rightarrow>
               (case proto_headers env h (body \<noteq> None) hasResult encryptionKey streamConfig of
                  Inl err \<Rightarrow> Inl err
                | Inr hs \<Rightarrow> Inr \<lparr>rq_method = method, rq_url = hc_baseURL h @ path, rq_header = hs, rq_body = reqBody\<rparr>)))"

definition requestProto :: "http_env \<Rightarrow> httpClient \<Rightarrow> string \<Rightarrow> string \<Rightarrow> (goerr + byte list) option \<Rightarrow>
    (byte list \<Rightarrow> goerr + 'r) option \<Rightarrow> EncryptionKey option \<Rightarrow> StreamConfig option \<Rightarrow> goerr + 'r option" where
  "requestProto env h method path body unmarshal encryptionKey streamConfig =
     (case proto_request env h method path body (unmarshal \<noteq> None) encryptionKey streamConfig of
        Inl err \<Rightarrow> Inl err
      | Inr req \<Rightarrow>
          (case hx_Do env req of
             Inl err \<Rightarrow> Inl (errorf_w ''perform request: '' err)
           | Inr resp \<Rightarrow>
               if rs_StatusCode resp \<ge> 400 then Inl (proto_error env resp)
               else proto_result env unmarshal resp))"

section \<open>Clients and unary stream operations\<close>

record BasinClient =
  bc_name :: string
  bc_baseURL :: string
  bc_accessToken :: string
  bc_retryConfig :: "RetryConfig option"
  bc_includeBasinHeader :: bool
  bc_compression :: CompressionType

record StreamClient =
  sc_name :: string
  sc_basinClient :: BasinClient
  sc_encryptionKey :: "EncryptionKey option"

definition basinHeaderValue :: "BasinClient \<Rightarrow> string" where
  "basinHeaderValue b = (if bc_includeBasinHeader b then bc_name b else '''')"

definition basin_http :: "BasinClient \<Rightarrow> httpClient" where
  "basin_http b = \<lparr>hc_baseURL = bc_baseURL b, hc_accessToken = bc_accessToken b,
     hc_basinName = basinHeaderValue b, hc_compression = bc_compression b\<rparr>"

text \<open>A panic is the value \<open>None\<close>.\<close>

definition StreamWithOptions :: "BasinClient \<Rightarrow> string \<Rightarrow> EncryptionKey option \<Rightarrow> StreamClient option" where
  "StreamWithOptions b name key =
     (if name = '''' then None
      else case key of
        Some k \<Rightarrow> if key_isZero k then None
          else Some \<lparr>sc_name = name, sc_basinClient = b, sc_encryptionKey = Some k\<rparr>
      | None \<Rightarrow> Some \<lparr>sc_name = name, sc_basinClient = b, sc_encryptionKey = None\<rparr>)"

definition records_path :: "StreamClient \<Rightarrow> string" where
  "records_path s = ''/streams/'' @ PathEscape (sc_name s) @ ''/records''"

text \<open>The attempts of an operation: \<open>henv n\<close> is the network at the \<open>n\<close>-th attempt, \<open>env\<close> the rest of the
  retry environment.\<close>

definition CheckTail :: "(byte list \<times> goerr option \<Rightarrow> goerr + TailResponse) \<Rightarrow> (int \<Rightarrow> http_env) \<Rightarrow>
    TailResponse retry_env \<Rightarrow> StreamClient \<Rightarrow> TailResponse retry_outcome" where
  "CheckTail decode henv env s =
     (let path = records_path s @ ''/tail'' in
      withRetries (bc_retryConfig (sc_basinClient s)) (env\<lparr>re_op := (\<lambda>n.
        case request (henv n) (basin_http (sc_basinClient s)) ''GET'' path None (Some decode) of
          Inl err \<Rightarrow> Inl err
        | Inr None \<Rightarrow> Inr \<lparr>tr_Tail = zero_position\<rparr>
        | Inr (Some result) \<Rightarrow> Inr result)\<rparr>))"

definition empty_pb_ReadBatch :: pb_ReadBatch where
  "empty_pb_ReadBatch = \<lparr>pbb_Records = [], pbb_Tail = None\<rparr>"

definition read_path :: "StreamClient \<Rightarrow> ReadOptions option \<Rightarrow> string" where
  "read_path s opts =
     (let queryParams = buildReadQueryParams opts; path = records_path s
      in if length queryParams > 0 then path @ ''?'' @ queryParams else path)"

definition read_finish :: "ReadOptions option \<Rightarrow> (goerr + ReadBatch option) \<Rightarrow> goerr + ReadBatch option" where
  "read_finish opts res = (case res of
     Inl err \<Rightarrow> Inl (errorf_w ''unary read failed: '' err)
   | Inr None \<Rightarrow> Inr None
   | Inr (Some batch) \<Rightarrow>
       Inr (Some (case opts of Some o' \<Rightarrow> if ro_IgnoreCommandRecords o' then filterCommandRecords batch else batch
                  | None \<Rightarrow> batch)))"

definition Read :: "(byte list \<Rightarrow> goerr + pb_ReadBatch) \<Rightarrow> (int \<Rightarrow> http_env) \<Rightarrow> ReadBatch retry_env \<Rightarrow> StreamClient \<Rightarrow>
    ReadOptions option \<Rightarrow> ReadBatch retry_outcome" where
  "Read unmarshal henv env s opts =
     (let path = read_path s opts;
          streamConfig = (case opts of None \<Rightarrow> None | Some o' \<Rightarrow> ro_StreamConfig o');
          out = withRetries (bc_retryConfig (sc_basinClient s)) (env\<lparr>re_op := (\<lambda>n.
            case requestProto (henv n) (basin_http (sc_basinClient s)) ''GET'' path None (Some unmarshal)
                (sc_encryptionKey s) streamConfig of
              Inl err \<Rightarrow> Inl err
            | Inr None \<Rightarrow> Inr (convertPbReadBatch empty_pb_ReadBatch)
            | Inr (Some pbBatch) \<Rightarrow> Inr (convertPbReadBatch pbBatch))\<rparr>)
      in out\<lparr>ro_result := map_option (read_finish opts) (ro_result out)\<rparr>)"

text \<open>The ack of a unary append: \<open>marshal\<close> is \<open>proto.Marshal\<close> of the input.\<close>

definition empty_pb_AppendAck :: pb_AppendAck where
  "empty_pb_AppendAck = \<lparr>pbk_Start = None, pbk_End = None, pbk_Tail = None\<rparr>"

definition Append :: "(pb_AppendInput option \<Rightarrow> goerr + byte list) \<Rightarrow> (byte list \<Rightarrow> goerr + pb_AppendAck) \<Rightarrow>
    (int \<Rightarrow> http_env) \<Rightarrow> AppendAck retry_env \<Rightarrow> StreamClient \<Rightarrow> AppendInput option \<Rightarrow> AppendAck retry_outcome" where
  "Append marshal unmarshal henv env s input = (case prepareAppendInput input of
     Inl err \<Rightarrow> retry_return (Inl err) 0
   | Inr (prepared, _) \<Rightarrow>
       let path = records_path s; pbInput = convertAppendInputToProto prepared;
           streamConfig = (case prepared of None \<Rightarrow> None | Some p \<Rightarrow> ai_StreamConfig p)
       in withAppendRetries (bc_retryConfig (sc_basinClient s)) (env\<lparr>re_op := (\<lambda>n.
            case requestProto (henv n) (basin_http (sc_basinClient s)) ''POST'' path (Some (marshal pbInput))
                (Some unmarshal) (sc_encryptionKey s) streamConfig of
              Inl err \<Rightarrow> Inl err
            | Inr None \<Rightarrow> Inr (convertPbAppendAck empty_pb_AppendAck)
            | Inr (Some pbAck) \<Rightarrow> Inr (convertPbAppendAck pbAck))\<rparr>))"

section \<open>Headers that are set are found\<close>

lemma header_Get_Set: "header_Get k (header_Set k' v hs) =
    (if CanonicalHeaderKey k = CanonicalHeaderKey k' then v else header_Get k hs)"
proof -
  have "map_of (filter (\<lambda>(a, _). a \<noteq> x) hs) y = (if y = x then None else map_of hs y)" for x y
    by (induction hs) auto
  then show ?thesis by (simp add: header_Get_def header_Set_def Let_def map_add_def split: option.split)
qed

lemma canonical_keys [simp]:
  "CanonicalHeaderKey ''Authorization'' = ''Authorization''" "CanonicalHeaderKey ''Content-Type'' = ''Content-Type''"
  "CanonicalHeaderKey ''Content-Encoding'' = ''Content-Encoding''" "CanonicalHeaderKey ''Accept'' = ''Accept''"
  "CanonicalHeaderKey ''Accept-Encoding'' = ''Accept-Encoding''" "CanonicalHeaderKey ''s2-basin'' = ''S2-Basin''"
  "CanonicalHeaderKey s2EncryptionKeyHeader = ''S2-Encryption-Key''"
  "CanonicalHeaderKey s2StreamConfigHeader = ''S2-Stream-Config''"
  by code_simp+

lemma header_Get_if: "header_Get k (if b then hs else hs') = (if b then header_Get k hs else header_Get k hs')"
  by simp

lemma header_Get_key: "header_Get k (setEncryptionKeyHeader key hs) =
    (if CanonicalHeaderKey k = ''S2-Encryption-Key'' \<and> key \<noteq> None \<and> \<not> key_isZero (the key)
     then string_of (headerValue (the key)) else header_Get k hs)"
  by (simp add: setEncryptionKeyHeader_def header_Get_Set split: option.split)

lemmas header_simps = header_Get_Set header_Get_if header_Get_key

lemma header_Get_Nil [simp]: "header_Get k [] = ''''"
  by (simp add: header_Get_def)

lemma stream_config_ok:
  assumes "pred_option (\<lambda>c. \<exists>enc. marshal c = Inr enc) config"
  shows "\<exists>hs'. setStreamConfigHeader marshal config hs = Inr hs' \<and>
    (\<forall>k. CanonicalHeaderKey k \<noteq> ''S2-Stream-Config'' \<longrightarrow> header_Get k hs' = header_Get k hs)"
  using assms by (cases config) (auto simp: setStreamConfigHeader_def header_Get_Set)

lemma Decompress_Compress:
  assumes "codec_ok cd" "Compress cd data c = Inr z"
  shows "Decompress cd z (ParseContentEncoding (ContentEncoding c)) = Inr data"
  using assms
  by (auto simp: Compress_def Decompress_def ParseContentEncoding_def ContentEncoding_def codec_ok_def unzstd_def gunzip_def
      compression_defs split: if_splits)

lemma ContentEncoding_None: "Compress cd data c = Inr z \<Longrightarrow> ContentEncoding c = '''' \<longleftrightarrow> c = CompressionNone"
  by (auto simp: ContentEncoding_def Compress_def compression_defs split: if_splits)

section \<open>An honest server\<close>

text \<open>A server that undoes the content encoding the request declares, answers the message with \<open>serve\<close> and
  encodes its answer with \<open>enc\<close>, saying so.\<close>

definition honest_server :: "codec \<Rightarrow> (byte list \<Rightarrow> byte list) \<Rightarrow> CompressionType \<Rightarrow> http_request \<Rightarrow> goerr + http_response" where
  "honest_server cd serve enc rq =
     (case Decompress cd (case rq_body rq of None \<Rightarrow> [] | Some b \<Rightarrow> b)
          (ParseContentEncoding (header_Get ''Content-Encoding'' (rq_header rq))) of
        Inl err \<Rightarrow> Inl err
      | Inr msg \<Rightarrow>
          (case Compress cd (serve msg) enc of
             Inl err \<Rightarrow> Inl err
           | Inr z \<Rightarrow> Inr \<lparr>rs_StatusCode = 200,
               rs_Header = (if enc = CompressionNone then [] else header_Set ''Content-Encoding'' (ContentEncoding enc) []),
               rs_Body = z, rs_BodyErr = None\<rparr>))"

lemma proto_request_sent:
  assumes "hx_NewRequest env method (hc_baseURL h @ path) = None"
    "Compress (hx_codec env) data (hc_compression h) = Inr z"
    "pred_option (\<lambda>c. \<exists>e. hx_marshalConfig env c = Inr e) streamConfig"
  obtains rq where "proto_request env h method path (Some (Inr data)) hasResult key streamConfig = Inr rq"
    "rq_body rq = Some z" "rq_url rq = hc_baseURL h @ path" "rq_method rq = method"
    "header_Get ''Authorization'' (rq_header rq) = ''Bearer '' @ hc_accessToken h"
    "header_Get ''Content-Encoding'' (rq_header rq) = ContentEncoding (hc_compression h)"
    "header_Get ''s2-basin'' (rq_header rq) = hc_basinName h"
    "header_Get s2EncryptionKeyHeader (rq_header rq) =
       (case key of None \<Rightarrow> '''' | Some k \<Rightarrow> if key_isZero k then '''' else string_of (headerValue k))"
proof -
  define hs where "hs = proto_plain_headers h True hasResult key"
  obtain hs' where hs': "setStreamConfigHeader (hx_marshalConfig env) streamConfig hs = Inr hs'"
    "\<And>k. CanonicalHeaderKey k \<noteq> ''S2-Stream-Config'' \<Longrightarrow> header_Get k hs' = header_Get k hs"
    using stream_config_ok [OF assms(3), of hs] by blast
  have headers: "proto_headers env h True hasResult key streamConfig = Inr hs'"
    using hs'(1) unfolding hs_def proto_headers_def .
  have body: "proto_body env h (Some (Inr data)) = Inr (Some z)"
  proof (cases "hc_compression h = CompressionNone")
    case True
    with assms(2) show ?thesis by (simp add: proto_body_def Compress_def)
  qed (use assms(2) in \<open>simp add: proto_body_def\<close>)
  show ?thesis
  proof (rule that [of "\<lparr>rq_method = method, rq_url = hc_baseURL h @ path, rq_header = hs', rq_body = Some z\<rparr>"])
    show "proto_request env h method path (Some (Inr data)) hasResult key streamConfig =
        Inr \<lparr>rq_method = method, rq_url = hc_baseURL h @ path, rq_header = hs', rq_body = Some z\<rparr>"
      using headers body assms(1) by (simp add: proto_request_def)
    have get: "header_Get k hs' = header_Get k hs" if "CanonicalHeaderKey k \<noteq> ''S2-Stream-Config''" for k
      using that by (rule hs'(2))
    have "header_Get ''Authorization'' hs = ''Bearer '' @ hc_accessToken h"
      by (simp add: hs_def proto_plain_headers_def Let_def header_simps cong: if_cong split del: if_split)
    moreover have "header_Get ''Content-Encoding'' hs = ContentEncoding (hc_compression h)"
      by (simp add: hs_def proto_plain_headers_def Let_def header_simps cong: if_cong split del: if_split) simp
    moreover have "header_Get ''s2-basin'' hs = hc_basinName h"
      by (simp add: hs_def proto_plain_headers_def Let_def header_simps cong: if_cong split del: if_split) simp
    moreover have "header_Get s2EncryptionKeyHeader hs =
       (case key of None \<Rightarrow> '''' | Some k \<Rightarrow> if key_isZero k then '''' else string_of (headerValue k))"
      by (simp add: hs_def proto_plain_headers_def Let_def header_simps cong: if_cong split del: if_split) (simp split: option.split)
    ultimately show
      "header_Get ''Authorization'' (rq_header \<lparr>rq_method = method, rq_url = hc_baseURL h @ path, rq_header = hs', rq_body = Some z\<rparr>) =
        ''Bearer '' @ hc_accessToken h"
      "header_Get ''Content-Encoding'' (rq_header \<lparr>rq_method = method, rq_url = hc_baseURL h @ path, rq_header = hs', rq_body = Some z\<rparr>) =
        ContentEncoding (hc_compression h)"
      "header_Get ''s2-basin'' (rq_header \<lparr>rq_method = method, rq_url = hc_baseURL h @ path, rq_header = hs', rq_body = Some z\<rparr>) =
        hc_basinName h"
      "header_Get s2EncryptionKeyHeader (rq_header \<lparr>rq_method = method, rq_url = hc_baseURL h @ path, rq_header = hs', rq_body = Some z\<rparr>) =
       (case key of None \<Rightarrow> '''' | Some k \<Rightarrow> if key_isZero k then '''' else string_of (headerValue k))"
      by (simp_all add: get)
  qed simp_all
qed

section \<open>Properties\<close>

text \<open>C26: A protobuf request is independent of compression.  Against a server that undoes the content encoding
  the request declares, whatever encoding the client is configured with and whatever encoding the server
  answers with, the server processes exactly the marshalled message and the caller gets exactly the
  decoded answer.  The request carries the token, the basin and the encryption key.\<close>

theorem proto_request_end_to_end:
  assumes "codec_ok (hx_codec env)" "hx_Do env = honest_server (hx_codec env) serve enc"
    "hx_NewRequest env method (hc_baseURL h @ path) = None"
    "Compress (hx_codec env) data (hc_compression h) = Inr z" "Compress (hx_codec env) (serve data) enc = Inr z'"
    "pred_option (\<lambda>c. \<exists>e. hx_marshalConfig env c = Inr e) streamConfig"
  shows "requestProto env h method path (Some (Inr data)) (Some unmarshal) key streamConfig =
      (case unmarshal (serve data) of
         Inl err \<Rightarrow> Inl (errorf_w ''decode proto response: '' err) | Inr result \<Rightarrow> Inr (Some result)) \<and>
    (\<exists>rq. proto_request env h method path (Some (Inr data)) True key streamConfig = Inr rq \<and>
      header_Get ''Authorization'' (rq_header rq) = ''Bearer '' @ hc_accessToken h \<and>
      header_Get ''s2-basin'' (rq_header rq) = hc_basinName h \<and>
      header_Get s2EncryptionKeyHeader (rq_header rq) =
       (case key of None \<Rightarrow> '''' | Some k \<Rightarrow> if key_isZero k then '''' else string_of (headerValue k)))"
proof -
  obtain rq where rq: "proto_request env h method path (Some (Inr data)) True key streamConfig = Inr rq"
    "rq_body rq = Some z" "header_Get ''Content-Encoding'' (rq_header rq) = ContentEncoding (hc_compression h)"
    "header_Get ''Authorization'' (rq_header rq) = ''Bearer '' @ hc_accessToken h"
    "header_Get ''s2-basin'' (rq_header rq) = hc_basinName h"
    "header_Get s2EncryptionKeyHeader (rq_header rq) =
       (case key of None \<Rightarrow> '''' | Some k \<Rightarrow> if key_isZero k then '''' else string_of (headerValue k))"
    by (rule proto_request_sent [OF assms(3,4,6), of True key])
  have plain: "Decompress (hx_codec env) z (ParseContentEncoding (ContentEncoding (hc_compression h))) = Inr data"
    by (rule Decompress_Compress [OF assms(1,4)])
  have "Decompress (hx_codec env) z' (ParseContentEncoding (ContentEncoding enc)) = Inr (serve data)"
    by (rule Decompress_Compress [OF assms(1,5)])
  moreover have "ContentEncoding enc = '''' \<longleftrightarrow> enc = CompressionNone" by (rule ContentEncoding_None [OF assms(5)])
  moreover have "enc = CompressionNone \<Longrightarrow> z' = serve data" using assms(5) by (simp add: Compress_def)
  ultimately have answer: "decoded_body env w \<lparr>rs_StatusCode = 200,
        rs_Header = (if enc = CompressionNone then [] else header_Set ''Content-Encoding'' (ContentEncoding enc) []),
        rs_Body = z', rs_BodyErr = None\<rparr> z' = Inr (serve data)" for w
    by (simp add: decoded_body_def header_Get_Set)
  have "hx_Do env rq = Inr \<lparr>rs_StatusCode = 200,
        rs_Header = (if enc = CompressionNone then [] else header_Set ''Content-Encoding'' (ContentEncoding enc) []),
        rs_Body = z', rs_BodyErr = None\<rparr>"
    using rq(2,3) plain by (simp add: assms(2) honest_server_def assms(5))
  then have "requestProto env h method path (Some (Inr data)) (Some unmarshal) key streamConfig =
      (case unmarshal (serve data) of
         Inl err \<Rightarrow> Inl (errorf_w ''decode proto response: '' err) | Inr result \<Rightarrow> Inr (Some result))"
    using rq(1) by (simp add: requestProto_def proto_result_def ReadAll_def answer)
  then show ?thesis using rq(1,4-6) by blast
qed

section \<open>Witness\<close>

definition echo_env :: http_env where
  "echo_env = \<lparr>hx_NewRequest = (\<lambda>_ _. None), hx_Do = honest_server marker_codec rev CompressionGzip, hx_codec = marker_codec,
     hx_json = \<lparr>jc_map = (\<lambda>_. None), jc_ErrorInfo = (\<lambda>_. None), jc_TailResponse = (\<lambda>_. None)\<rparr>,
     hx_statusText = dec_int, hx_quoted = string_of, hx_marshalConfig = (\<lambda>_. Inr [])\<rparr>"

definition zstd_client :: httpClient where
  "zstd_client = \<lparr>hc_baseURL = ''https://b.s2.dev/v1'', hc_accessToken = ''t'', hc_basinName = '''',
     hc_compression = CompressionZstd\<rparr>"

theorem proto_request_end_to_end_witness:
  "requestProto echo_env zstd_client ''POST'' ''/streams/x/records'' (Some (Inr [1, 2, 3])) (Some Inr) None None =
     Inr (Some [3, 2, 1])"
proof -
  have "codec_ok (hx_codec echo_env)" "hx_Do echo_env = honest_server (hx_codec echo_env) rev CompressionGzip"
    by (simp_all add: echo_env_def marker_codec_ok)
  moreover have "Compress (hx_codec echo_env) [1, 2, 3] (hc_compression zstd_client) = Inr [40, 1, 2, 3]"
    "Compress (hx_codec echo_env) (rev [1, 2, 3]) CompressionGzip = Inr [31, 3, 2, 1]"
    by (simp_all add: echo_env_def zstd_client_def Compress_def marker_codec_def compression_defs)
  moreover have "hx_NewRequest echo_env ''POST'' (hc_baseURL zstd_client @ ''/streams/x/records'') = None"
    by (simp add: echo_env_def)
  ultimately show ?thesis
    using proto_request_end_to_end [of echo_env rev CompressionGzip "''POST''" zstd_client "''/streams/x/records''"
        "[1, 2, 3]" "[40, 1, 2, 3]" "[31, 3, 2, 1]" None Inr None] by simp
qed

end
