(* ===== verification/Read_Stream.thy ===== *)
theory Read_Stream
  imports Caught_Up Http_Requests "HOL-Library.Signed_Division"
begin

text \<open>
  The stream reader (\<open>streamReader\<close> of \<open>src/s2/read.go\<close>): the options of each attempt, one attempt
  (\<open>runOnce\<close>) as a loop over what its \<open>select\<close> receives, the accounting of batches, deliveries, and the
  loop over attempts (\<open>run\<close>).  The channel \<open>recordsCh\<close> is the log of all deliveries sent, \<open>errorCh\<close> of all
  errors; the log \<open>st_requests\<close> of the options of every request is added.  The network is a parameter: how
  a request is answered, the frames that arrive, the clock, the context.
\<close>

section \<open>State\<close>

definition i32 :: "int \<Rightarrow> int" where
  "i32 x = (x + 2 ^ 31) mod 2 ^ 32 - 2 ^ 31"

definition time_Second :: duration where "time_Second = 1000000000"

text \<open>\<open>time.Since\<close> saturates.\<close>

definition time_Since :: "gotime \<Rightarrow> gotime \<Rightarrow> duration" where
  "time_Since now t = max (- (2 ^ 63)) (min (2 ^ 63 - 1) (now - t))"

definition tailWatchdogTimeout :: duration where "tailWatchdogTimeout = 20 * time_Second"
definition readSessionBatchesBuffer :: nat where "readSessionBatchesBuffer = 10"

record readDelivery =
  rdv_records :: "SequencedRecord list"
  rdv_caughtUpTail :: "StreamPosition option"
  rdv_consumed :: bool
  rdv_next :: "StreamPosition option"

record streamReader =
  st_streamClient :: StreamClient
  st_recordsCh :: "readDelivery list"
  st_errorCh :: "goerr list"
  st_chClosed :: bool
  st_caughtUp :: caughtUpState
  st_baseOpts :: "ReadOptions option"
  st_lastTail :: "StreamPosition option"
  st_lastTailAt :: gotime
  st_nextSeq :: u64
  st_nextTS :: u64
  st_hasNextSeq :: bool
  st_respBody :: bool
  st_recordsRead :: u64
  st_bytesRead :: u64
  st_retryConfig :: "RetryConfig option"
  st_advisedReconnects :: advisedReconnects
  st_poisoned :: bool
  st_requests :: "ReadOptions option list"

definition newStreamReader :: "StreamClient \<Rightarrow> ReadOptions option \<Rightarrow> streamReader" where
  "newStreamReader s opts =
     (let retryCfg = (case bc_retryConfig (sc_basinClient s) of Some c \<Rightarrow> Some c | None \<Rightarrow> Some DefaultRetryConfig)
      in \<lparr>st_streamClient = s, st_recordsCh = [], st_errorCh = [], st_chClosed = False, st_caughtUp = new_caughtUp,
          st_baseOpts = cloneReadSessionOptions opts, st_lastTail = None, st_lastTailAt = 0, st_nextSeq = 0, st_nextTS = 0,
          st_hasNextSeq = False, st_respBody = False, st_recordsRead = 0, st_bytesRead = 0, st_retryConfig = retryCfg,
          st_advisedReconnects = \<lparr>adv_count = 0, adv_last = 0\<rparr>, st_poisoned = False, st_requests = []\<rparr>)"

section \<open>The options of an attempt\<close>

definition remaining :: "u64 \<Rightarrow> u64 \<Rightarrow> u64" where
  "remaining base used = (if used \<ge> base then 0 else base - used)"

definition waitBudget :: "gotime \<Rightarrow> duration \<Rightarrow> gotime \<Rightarrow> int \<Rightarrow> int" where
  "waitBudget now plannedDelay lastTailAt waitSecs =
     (if \<not> time_IsZero lastTailAt then
        let elapsed = i64 (time_Since now lastTailAt + plannedDelay);
            elapsedSecs = i32 (elapsed sdiv time_Second)
        in if elapsedSecs \<ge> waitSecs then 0 else i32 (waitSecs - elapsedSecs)
      else waitSecs)"

definition no_options :: "ReadOptions \<Rightarrow> bool" where
  "no_options opts \<longleftrightarrow> ro_Count opts = None \<and> ro_Bytes opts = None \<and> ro_Wait opts = None \<and> ro_SeqNum opts = None \<and>
     ro_Timestamp opts = None \<and> ro_TailOffset opts = None \<and> ro_Until opts = None \<and> ro_Clamp opts = None \<and>
     ro_StreamConfig opts = None"

definition limit_options :: "gotime \<Rightarrow> duration \<Rightarrow> streamReader \<Rightarrow> ReadOptions \<Rightarrow> ReadOptions \<Rightarrow> ReadOptions" where
  "limit_options now plannedDelay r base opts =
     (let opts = (case ro_Count base of None \<Rightarrow> opts
            | Some baseCount \<Rightarrow> opts\<lparr>ro_Count := Some (remaining baseCount (st_recordsRead r))\<rparr>);
          opts = (case ro_Bytes base of None \<Rightarrow> opts
            | Some baseBytes \<Rightarrow> opts\<lparr>ro_Bytes := Some (remaining baseBytes (st_bytesRead r))\<rparr>)
      in case ro_Wait base of None \<Rightarrow> opts
         | Some waitSecs \<Rightarrow> opts\<lparr>ro_Wait := Some (waitBudget now plannedDelay (st_lastTailAt r) waitSecs)\<rparr>)"

definition buildAttemptOptions :: "gotime \<Rightarrow> duration \<Rightarrow> streamReader \<Rightarrow> ReadOptions option" where
  "buildAttemptOptions now plannedDelay r =
     (case (case st_baseOpts r of
              Some base \<Rightarrow> cloneReadSessionOptions (Some base)
            | None \<Rightarrow> if st_hasNextSeq r then Some empty_ReadOptions else None) of
        None \<Rightarrow> None
      | Some opts \<Rightarrow>
          let opts = (if st_hasNextSeq r
                then opts\<lparr>ro_SeqNum := Some (st_nextSeq r), ro_Timestamp := None, ro_TailOffset := None\<rparr> else opts);
              opts = (case st_baseOpts r of None \<Rightarrow> opts | Some base \<Rightarrow> limit_options now plannedDelay r base opts)
          in if no_options opts then None else Some opts)"

definition limitsReached :: "streamReader \<Rightarrow> bool" where
  "limitsReached r = (case st_baseOpts r of
     None \<Rightarrow> False
   | Some base \<Rightarrow>
       (case ro_Count base of Some c \<Rightarrow> st_recordsRead r \<ge> c | None \<Rightarrow> False) \<or>
       (case ro_Bytes base of Some b \<Rightarrow> st_bytesRead r \<ge> b | None \<Rightarrow> False))"

section \<open>One batch\<close>

definition readBatchCaughtUp :: "ReadBatch \<Rightarrow> bool" where
  "readBatchCaughtUp batch = (case rb_Tail batch of
     None \<Rightarrow> False
   | Some tail \<Rightarrow> rb_Records batch = [] \<or> sr_SeqNum (last (rb_Records batch)) + 1 = sp_SeqNum tail)"

definition observe_tail :: "ReadBatch \<Rightarrow> gotime \<Rightarrow> streamReader \<Rightarrow> streamReader" where
  "observe_tail batch now r = (case rb_Tail batch of
     None \<Rightarrow> r | Some tail \<Rightarrow> r\<lparr>st_lastTailAt := now, st_lastTail := Some tail\<rparr>)"

definition position_after :: "SequencedRecord \<Rightarrow> StreamPosition" where
  "position_after rec = \<lparr>sp_SeqNum = sr_SeqNum rec + 1, sp_Timestamp = sr_Timestamp rec\<rparr>"

definition next_position :: "ReadBatch \<Rightarrow> StreamPosition option" where
  "next_position batch =
     (if rb_Records batch \<noteq> [] then Some (position_after (last (rb_Records batch)))
      else map_option (\<lambda>tail. \<lparr>sp_SeqNum = sp_SeqNum tail, sp_Timestamp = sp_Timestamp tail\<rparr>) (rb_Tail batch))"

definition advanceState :: "u64 \<Rightarrow> u64 \<Rightarrow> SequencedRecord \<Rightarrow> streamReader \<Rightarrow> streamReader" where
  "advanceState recordCount meteredBytes rec r =
     r\<lparr>st_recordsRead := st_recordsRead r + recordCount, st_bytesRead := st_bytesRead r + meteredBytes,
       st_nextSeq := sr_SeqNum rec + 1, st_hasNextSeq := True, st_nextTS := sr_Timestamp rec\<rparr>"

definition metered_sum :: "SequencedRecord list \<Rightarrow> u64" where
  "metered_sum rs = fold (\<lambda>rec n. n + MeteredSequencedRecordBytes rec) rs 0"

definition account_batch :: "ReadBatch \<Rightarrow> streamReader \<Rightarrow> ReadBatch \<times> streamReader" where
  "account_batch batch r =
     (if rb_Records batch \<noteq> [] then
        let r = advanceState (word_of_nat (length (rb_Records batch))) (metered_sum (rb_Records batch))
              (last (rb_Records batch)) r;
            ignore = (case st_baseOpts r of Some o' \<Rightarrow> ro_IgnoreCommandRecords o' | None \<Rightarrow> False)
        in (if ignore then filterCommandRecords batch else batch, r)
      else (batch, r))"

definition upd_caughtUp :: "(caughtUpState \<Rightarrow> caughtUpState) \<Rightarrow> streamReader \<Rightarrow> streamReader" where
  "upd_caughtUp f r = r\<lparr>st_caughtUp := f (st_caughtUp r)\<rparr>"

text \<open>What the loop does with a batch before it sends: the delivery, if there is one.\<close>

definition handle_batch :: "ReadBatch \<Rightarrow> gotime \<Rightarrow> streamReader \<Rightarrow> readDelivery option \<times> streamReader" where
  "handle_batch batch now r =
     (let r = observe_tail batch now r;
          caughtUp = readBatchCaughtUp batch;
          nxt = next_position batch;
          (batch, r) = account_batch batch r;
          hasRecords = rb_Records batch \<noteq> [];
          r = (if \<not> caughtUp \<or> hasRecords then upd_caughtUp setBehind r else r)
      in (map_option (\<lambda>n. \<lparr>rdv_records = rb_Records batch, rdv_caughtUpTail = (if caughtUp then rb_Tail batch else None),
            rdv_consumed = caughtUp, rdv_next = Some n\<rparr>) nxt, r))"

section \<open>One attempt\<close>

record read_env =
  rv_http :: http_env
  rv_unmarshal :: "byte list \<Rightarrow> goerr + pb_ReadBatch"

text \<open>How sending a delivery ends: sent and, when it asks for it, consumed; or the context is done first.\<close>

datatype send_outcome = Delivered | NotSent goerr | NotConsumed goerr

definition sendDelivery :: "streamReader \<Rightarrow> readDelivery \<Rightarrow> send_outcome \<Rightarrow> goerr option \<times> streamReader" where
  "sendDelivery r d outcome =
     (let sent = r\<lparr>st_recordsCh := st_recordsCh r @ [d]\<rparr> in
      case outcome of
        NotSent e \<Rightarrow> (Some e, r)
      | NotConsumed e \<Rightarrow> (if rdv_consumed d then (Some e, sent) else (None, sent))
      | Delivered \<Rightarrow> (None, sent))"

definition poison_reader :: "streamReader \<Rightarrow> streamReader" where
  "poison_reader r = r\<lparr>st_poisoned := True\<rparr>"

text \<open>The part of the loop body from the frame to the delivery: \<open>Inl\<close> is a return of \<open>runOnce\<close>.\<close>

definition handle_read_frame :: "read_env \<Rightarrow> S2SFrame \<Rightarrow> gotime \<Rightarrow> streamReader \<Rightarrow>
    (goerr option + readDelivery option) \<times> streamReader" where
  "handle_read_frame env frame now r =
     (case DecompressedBody (hx_codec (rv_http env)) frame of
        Inl err \<Rightarrow> (Inl (Some err), r)
      | Inr body \<Rightarrow>
          if f_Terminal frame then
            (case f_StatusCode frame of
               Some code \<Rightarrow>
                 if code \<ge> 400 then
                   let err = decodeAPIError (hx_json (rv_http env)) (hx_statusText (rv_http env)) code body
                   in (Inl (Some err), if isServerDraining err then poison_reader r else r)
                 else (Inl None, r)
             | None \<Rightarrow> (Inl None, r))
          else
            (case parseReadBatch (rv_unmarshal env) body of
               Inl err \<Rightarrow> (Inl (Some err), r)
             | Inr batch \<Rightarrow> (let (d, r) = handle_batch batch now r in (Inr d, r))))"

text \<open>The advice is looked at after the delivery: \<open>Inl\<close> leaves with \<open>errReconnectAdvised\<close>, \<open>Inr\<close> is the new
  \<open>declinedAdvice\<close>.\<close>

definition take_advice :: "S2SFrame \<Rightarrow> bool \<Rightarrow> gotime \<Rightarrow> streamReader \<Rightarrow> (goerr + bool) \<times> streamReader" where
  "take_advice frame declinedAdvice now r =
     (if f_ReconnectAdvised frame \<and> \<not> declinedAdvice then
        let r = poison_reader r in
        if shouldReconnect (st_advisedReconnects r) now then (Inl (Sentinel ErrReconnectAdvised), r)
        else (Inr True, r)
      else (Inr declinedAdvice, r))"

datatype once_event =
    OnceCtxDone goerr
  | OnceWatchdog
  | OnceFrame "goerr + S2SFrame" gotime send_outcome gotime

definition watchdog_error :: goerr where
  "watchdog_error = S2E \<lparr>e_Message = ''no batch received for 20 seconds'', e_Code = ''TIMEOUT'', e_Status = 408,
     e_Origin = ''''\<rparr>"

text \<open>The loop of \<open>runOnce\<close> returns, or still waits when the events are used up.\<close>

datatype once_result = OnceReturns "goerr option" | OnceWaits

fun runOnce_loop :: "read_env \<Rightarrow> streamReader \<Rightarrow> bool \<Rightarrow> once_event list \<Rightarrow> once_result \<times> streamReader" where
  "runOnce_loop env r declined [] = (OnceWaits, r)"
| "runOnce_loop env r declined (OnceCtxDone e # evs) = (OnceReturns (Some e), r)"
| "runOnce_loop env r declined (OnceWatchdog # evs) = (OnceReturns (Some watchdog_error), r)"
| "runOnce_loop env r declined (OnceFrame (Inl err) now outcome later # evs) =
     (OnceReturns (if err = Sentinel IoEOF \<or> isExpectedFrameReadError err then None
                   else Some (errorf_w ''read frame error: '' err)), r)"
| "runOnce_loop env r declined (OnceFrame (Inr frame) now outcome later # evs) =
     (case handle_read_frame env frame now r of
        (Inl res, r) \<Rightarrow> (OnceReturns res, r)
      | (Inr d, r) \<Rightarrow>
          (case (case d of None \<Rightarrow> (None, r) | Some d \<Rightarrow> sendDelivery r d outcome) of
             (Some err, r) \<Rightarrow> (OnceReturns (Some err), r)
           | (None, r) \<Rightarrow>
               (case take_advice frame declined later r of
                  (Inl err, r) \<Rightarrow> (OnceReturns (Some err), r)
                | (Inr declined, r) \<Rightarrow> runOnce_loop env r declined evs)))"

definition read_headers :: "read_env \<Rightarrow> StreamClient \<Rightarrow> ReadOptions option \<Rightarrow> goerr + http_header" where
  "read_headers env s opts =
     (let b = sc_basinClient s;
          hs = header_Set ''Authorization'' (''Bearer '' @ bc_accessToken b) [];
          hs = header_Set ''Accept'' ''application/protobuf'' hs;
          encoding = AcceptEncoding (bc_compression b);
          hs = (if encoding \<noteq> '''' then header_Set ''Accept-Encoding'' encoding hs else hs);
          hs = header_Set ''Content-Type'' ''s2s/proto'' hs;
          hs = (if basinHeaderValue b \<noteq> '''' then header_Set ''s2-basin'' (basinHeaderValue b) hs else hs);
          hs = setEncryptionKeyHeader (sc_encryptionKey s) hs
      in case opts of None \<Rightarrow> Inr hs | Some o' \<Rightarrow> setStreamConfigHeader (hx_marshalConfig (rv_http env)) (ro_StreamConfig o') hs)"

definition read_request :: "read_env \<Rightarrow> StreamClient \<Rightarrow> ReadOptions option \<Rightarrow> goerr + http_request" where
  "read_request env s opts =
     (let reqURL = bc_baseURL (sc_basinClient s) @ read_path s opts in
      case hx_NewRequest (rv_http env) ''GET'' reqURL of
        Some err \<Rightarrow> Inl (errorf_w ''failed to create request: '' err)
      | None \<Rightarrow>
          (case read_headers env s opts of
             Inl err \<Rightarrow> Inl err
           | Inr hs \<Rightarrow> Inr \<lparr>rq_method = ''GET'', rq_url = reqURL, rq_header = hs, rq_body = None\<rparr>))"

definition runOnce :: "read_env \<Rightarrow> streamReader \<Rightarrow> ReadOptions option \<Rightarrow> goerr + http_response \<Rightarrow> once_event list \<Rightarrow>
    once_result \<times> streamReader" where
  "runOnce env r opts answer evs =
     (let r = r\<lparr>st_poisoned := False\<rparr> in
      case read_request env (st_streamClient r) opts of
        Inl err \<Rightarrow> (OnceReturns (Some err), r)
      | Inr req \<Rightarrow>
          let r = r\<lparr>st_requests := st_requests r @ [opts]\<rparr> in
          case answer of
            Inl err \<Rightarrow>
              (OnceReturns (Some (if isStreamResetError err then makeStreamResetError (Some err) ''read session''
                                  else errorf_w ''failed to connect: '' err)), r)
          | Inr resp \<Rightarrow>
              if rs_StatusCode resp \<ge> 400 then
                let err = parseHTTPError (rv_http env) resp
                in (OnceReturns (Some err), if isServerDraining err then poison_reader r else r)
              else
                let (res, r) = runOnce_loop env (r\<lparr>st_respBody := True\<rparr>) False evs
                in (res, case res of OnceReturns _ \<Rightarrow> r\<lparr>st_respBody := False\<rparr> | OnceWaits \<Rightarrow> r))"

section \<open>The loop over the attempts\<close>

text \<open>What one attempt meets: the answer to the request, the events, \<open>r.ctx.Err()\<close> at its three places, the
  clock, the random source and the end of the backoff wait.\<close>

record read_attempt =
  ra_answer :: "goerr + http_response"
  ra_events :: "once_event list"
  ra_ctxErr :: "goerr option"
  ra_ctxRetry :: "goerr option"
  ra_ctxLast :: "goerr option"
  ra_now :: gotime
  ra_since :: gotime
  ra_rnd :: "int \<Rightarrow> int"
  ra_waitErr :: "duration \<Rightarrow> goerr option"

datatype attempt_next = Stops "goerr option" | Reconnects | BacksOff duration | Panics

definition after_attempt :: "RetryConfig \<Rightarrow> read_attempt \<Rightarrow> u64 \<Rightarrow> int \<Rightarrow> goerr option \<Rightarrow> streamReader \<Rightarrow>
    attempt_next \<times> int \<times> streamReader" where
  "after_attempt cfg a recordsBefore consecutiveFailures err r = (case err of
     None \<Rightarrow> (Stops None, consecutiveFailures, r)
   | Some err \<Rightarrow>
       if ra_ctxErr a \<noteq> None then (Stops None, consecutiveFailures, r)
       else
         let consecutiveFailures = (if st_recordsRead r > recordsBefore then 0 else consecutiveFailures) in
         if errors_Is err ErrReconnectAdvised then
           if limitsReached r then (Stops None, consecutiveFailures, r)
           else
             let r = upd_caughtUp setBehind r;
                 r = r\<lparr>st_advisedReconnects := record_advised (st_advisedReconnects r) (ra_now a)\<rparr>
             in (Reconnects, consecutiveFailures, r)
         else if isServerDraining err then
           if limitsReached r then (Stops None, consecutiveFailures, r)
           else
             let r = r\<lparr>st_advisedReconnects := record_advised (st_advisedReconnects r) (ra_now a)\<rparr>;
                 r = upd_caughtUp setBehind r
             in (Reconnects, consecutiveFailures, r)
         else
           let consecutiveFailures = (if st_recordsRead r = recordsBefore then consecutiveFailures + 1
                                      else consecutiveFailures) in
           if \<not> isRetryableReadError (ra_ctxRetry a) err \<or> consecutiveFailures \<ge> clamp_attempts cfg then
             if ra_ctxLast a = None then (Stops (Some err), consecutiveFailures, upd_caughtUp (end_caughtUp (Some err)) r)
             else (Stops None, consecutiveFailures, r)
           else
             let r = upd_caughtUp setBehind r in
             case calculateRetryBackoff (ra_rnd a) cfg (consecutiveFailures + 1) of
               None \<Rightarrow> (Panics, consecutiveFailures, r)
             | Some delay \<Rightarrow> (BacksOff delay, consecutiveFailures, r))"

text \<open>\<open>RunOut\<close>: the loop is still going after as many attempts as there was fuel.\<close>

datatype run_end = RunEnds "goerr option" | RunWaits | RunPanics | RunOut

fun run_loop :: "read_env \<Rightarrow> (nat \<Rightarrow> ReadOptions option \<Rightarrow> read_attempt) \<Rightarrow> RetryConfig \<Rightarrow> nat \<Rightarrow> nat \<Rightarrow>
    streamReader \<Rightarrow> ReadOptions option \<Rightarrow> int \<Rightarrow> run_end \<times> streamReader" where
  "run_loop env serve cfg 0 k r opts failures = (RunOut, r)"
| "run_loop env serve cfg (Suc fuel) k r opts failures =
     (if limitsReached r then (RunEnds None, r)
      else
        let a = serve k opts; recordsBefore = st_recordsRead r in
        case runOnce env r opts (ra_answer a) (ra_events a) of
          (OnceWaits, r) \<Rightarrow> (RunWaits, r)
        | (OnceReturns err, r) \<Rightarrow>
            (case after_attempt cfg a recordsBefore failures err r of
               (Stops e, _, r) \<Rightarrow> (RunEnds e, r)
             | (Panics, _, r) \<Rightarrow> (RunPanics, r)
             | (Reconnects, failures, r) \<Rightarrow>
                 run_loop env serve cfg fuel (k + 1) r (buildAttemptOptions (ra_since a) 0 r) failures
             | (BacksOff delay, failures, r) \<Rightarrow>
                 let opts = buildAttemptOptions (ra_since a) delay r in
                 case ra_waitErr a delay of
                   Some _ \<Rightarrow> (RunEnds None, r)
                 | None \<Rightarrow> run_loop env serve cfg fuel (k + 1) r opts failures))"

text \<open>The deferred end of \<open>run\<close>.\<close>

definition run_finish :: "goerr option \<Rightarrow> streamReader \<Rightarrow> streamReader" where
  "run_finish terminalErr r =
     (let r = upd_caughtUp (end_caughtUp terminalErr) r;
          r = (case terminalErr of None \<Rightarrow> r | Some e \<Rightarrow> r\<lparr>st_errorCh := st_errorCh r @ [e]\<rparr>)
      in r\<lparr>st_chClosed := True\<rparr>)"

definition run :: "read_env \<Rightarrow> (nat \<Rightarrow> ReadOptions option \<Rightarrow> read_attempt) \<Rightarrow> gotime \<Rightarrow> nat \<Rightarrow> streamReader \<Rightarrow>
    run_end \<times> streamReader" where
  "run env serve now fuel r =
     (let cfg = (case st_retryConfig r of Some c \<Rightarrow> c | None \<Rightarrow> DefaultRetryConfig);
          opts = buildAttemptOptions now 0 r
      in case run_loop env serve cfg fuel 0 r opts 0 of
           (RunEnds e, r) \<Rightarrow> (RunEnds e, run_finish e r)
         | (res, r) \<Rightarrow> (res, r))"

definition Close_reader :: "streamReader \<Rightarrow> streamReader" where
  "Close_reader r = upd_caughtUp (end_caughtUp None) r"

definition LastObservedTail :: "streamReader \<Rightarrow> StreamPosition option" where
  "LastObservedTail r = (case st_lastTail r of None \<Rightarrow> None | Some t \<Rightarrow> Some t)"

section \<open>Sequence numbers\<close>

lemma succ_le: "n \<noteq> (- 1 :: u64) \<Longrightarrow> n + 1 \<le> m \<longleftrightarrow> n < m"
proof -
  assume "n \<noteq> - 1"
  then have "1 + n \<noteq> 0" by (metis add.commute add_eq_0_iff)
  then have "unat (n + 1) = Suc (unat n)" using unatSuc [of n] by (simp add: add.commute)
  then show ?thesis by (simp add: word_le_nat_alt word_less_nat_alt Suc_le_eq)
qed

lemma less_succ: "n \<noteq> (- 1 :: u64) \<Longrightarrow> n < n + 1"
  using succ_le [of n "n + 1"] by simp

end
