(* ===== verification/Read_Session.thy ===== *)
theory Read_Session
  imports Read_Stream
begin

text \<open>
  The consumer side of a read session (\<open>ReadSession\<close> of \<open>src/s2/read_session.go\<close>) and its interleaving with
  the goroutine of the stream reader.  \<open>rss_taken\<close> counts the deliveries received from \<open>recordsCh\<close>;
  \<open>rss_returned\<close> is the log of the records \<open>Next\<close> returned.  The select loop of \<open>Next\<close> is one step per
  iteration; \<open>finishDelivery\<close> is one step with the take or yield that calls it.
\<close>

section \<open>State\<close>

record ReadSession =
  rss_reader :: streamReader
  rss_pending :: "SequencedRecord list"
  rss_pendingCaughtUpTail :: "StreamPosition option"
  rss_pendingConsumed :: bool
  rss_pendingNext :: "StreamPosition option"
  rss_current :: "SequencedRecord option"
  rss_position :: "StreamPosition option"
  rss_err :: "goerr option"
  rss_closed :: bool
  rss_readerDone :: bool
  rss_readerErr :: "goerr option"
  rss_taken :: nat
  rss_errTaken :: nat
  rss_consumed :: bool
  rss_returned :: "SequencedRecord list"

definition newReadSession :: "StreamClient \<Rightarrow> ReadOptions option \<Rightarrow> ReadSession" where
  "newReadSession s opts = \<lparr>rss_reader = newStreamReader s opts, rss_pending = [], rss_pendingCaughtUpTail = None,
     rss_pendingConsumed = False, rss_pendingNext = None, rss_current = None, rss_position = None, rss_err = None,
     rss_closed = False, rss_readerDone = False, rss_readerErr = None, rss_taken = 0, rss_errTaken = 0,
     rss_consumed = False, rss_returned = []\<rparr>"

definition upd_reader :: "(streamReader \<Rightarrow> streamReader) \<Rightarrow> ReadSession \<Rightarrow> ReadSession" where
  "upd_reader f s = s\<lparr>rss_reader := f (rss_reader s)\<rparr>"

section \<open>Operations\<close>

text \<open>Closing \<open>pendingConsumed\<close> is the flag \<open>rss_consumed\<close>, which the reader waits for.\<close>

definition finishDelivery :: "ReadSession \<Rightarrow> ReadSession" where
  "finishDelivery s =
     (let s = (case rss_pendingNext s of None \<Rightarrow> s
            | Some n \<Rightarrow> s\<lparr>rss_position := Some n, rss_pendingNext := None\<rparr>);
          s = (case rss_pendingCaughtUpTail s of None \<Rightarrow> s
            | Some t \<Rightarrow> (upd_reader (upd_caughtUp (setCaughtUp t)) s)\<lparr>rss_pendingCaughtUpTail := None\<rparr>)
      in if rss_pendingConsumed s then s\<lparr>rss_consumed := True, rss_pendingConsumed := False\<rparr> else s)"

definition yieldPending :: "ReadSession \<Rightarrow> bool \<times> ReadSession" where
  "yieldPending s = (case rss_pending s of
     [] \<Rightarrow> (False, s)
   | x # rest \<Rightarrow>
       let s = s\<lparr>rss_current := Some x, rss_pending := rest, rss_position := Some (position_after x),
                 rss_returned := rss_returned s @ [x]\<rparr>
       in (True, if rest = [] then finishDelivery s else s))"

definition stashDelivery :: "readDelivery \<Rightarrow> ReadSession \<Rightarrow> ReadSession" where
  "stashDelivery d s =
     (let s = s\<lparr>rss_pending := rdv_records d, rss_pendingCaughtUpTail := rdv_caughtUpTail d,
                rss_pendingConsumed := rdv_consumed d, rss_pendingNext := rdv_next d\<rparr>
      in if rss_pending s = [] then finishDelivery s else s)"

definition Close_session :: "ReadSession \<Rightarrow> ReadSession" where
  "Close_session s = (if rss_closed s then s else upd_reader Close_reader (s\<lparr>rss_closed := True\<rparr>))"

text \<open>\<open>Next\<close> begins by looking at its state: \<open>Some b\<close> is its result, \<open>None\<close> means it enters the loop.\<close>

definition Next_begin :: "ReadSession \<Rightarrow> bool option \<times> ReadSession" where
  "Next_begin s =
     (if rss_err s \<noteq> None \<or> rss_closed s then (Some False, s)
      else case yieldPending s of (True, s) \<Rightarrow> (Some True, s) | (False, s) \<Rightarrow> (None, s))"

datatype next_event = GotDelivery | GotError | GotClosed

text \<open>The cases of the select that are ready: a delivery is buffered, the error channel has an error or is closed
  and was not read yet, or the record channel is closed and drained.  Then the inner select takes the error
  if there is one.\<close>

definition next_ready :: "next_event \<Rightarrow> ReadSession \<Rightarrow> bool" where
  "next_ready ev s = (let r = rss_reader s in case ev of
     GotDelivery \<Rightarrow> rss_taken s < length (st_recordsCh r)
   | GotError \<Rightarrow> \<not> rss_readerDone s \<and> (rss_errTaken s < length (st_errorCh r) \<or> st_chClosed r)
   | GotClosed \<Rightarrow> st_chClosed r \<and> rss_taken s = length (st_recordsCh r))"

definition take_error :: "ReadSession \<Rightarrow> goerr option \<times> ReadSession" where
  "take_error s = (let errs = st_errorCh (rss_reader s) in
     if rss_errTaken s < length errs then (Some (errs ! rss_errTaken s), s\<lparr>rss_errTaken := rss_errTaken s + 1\<rparr>)
     else (None, s))"

definition Next_loop :: "next_event \<Rightarrow> ReadSession \<Rightarrow> bool option \<times> ReadSession" where
  "Next_loop ev s = (case ev of
     GotDelivery \<Rightarrow>
       let d = st_recordsCh (rss_reader s) ! rss_taken s;
           s = stashDelivery d (s\<lparr>rss_taken := rss_taken s + 1\<rparr>)
       in (case yieldPending s of (True, s) \<Rightarrow> (Some True, s) | (False, s) \<Rightarrow> (None, s))
   | GotError \<Rightarrow> (let (e, s) = take_error s in (None, s\<lparr>rss_readerDone := True, rss_readerErr := e\<rparr>))
   | GotClosed \<Rightarrow>
       let s = (if \<not> rss_readerDone s then let (e, s) = take_error s in s\<lparr>rss_readerErr := e\<rparr> else s);
           s = s\<lparr>rss_err := rss_readerErr s\<rparr>
       in (Some False, Close_session s))"

definition NextReadPosition :: "ReadSession \<Rightarrow> StreamPosition option" where
  "NextReadPosition s = (case rss_position s of None \<Rightarrow> None | Some p \<Rightarrow> Some p)"

definition IsCaughtUp :: "ReadSession \<Rightarrow> bool" where
  "IsCaughtUp s = isCaughtUp (st_caughtUp (rss_reader s))"

definition CaughtUp :: "ReadSession \<Rightarrow> nat \<times> ReadSession" where
  "CaughtUp s = (let (f, c) = newFuture (st_caughtUp (rss_reader s)) in (f, upd_reader (\<lambda>r. r\<lparr>st_caughtUp := c\<rparr>) s))"

definition LastObservedTail_session :: "ReadSession \<Rightarrow> StreamPosition option" where
  "LastObservedTail_session s = LastObservedTail (rss_reader s)"

section \<open>The interleaving\<close>

text \<open>What the goroutine of the reader is doing: waiting for a frame or between attempts, sending a delivery,
  waiting for it to be consumed, or gone.\<close>

datatype reader_phase = Reading | Sending readDelivery | Awaiting | Gone

record read_sys =
  ys_session :: ReadSession
  ys_phase :: reader_phase
  ys_inNext :: bool
  ys_low :: u64

text \<open>A batch the server may send: its records are new, in increasing order and not beyond the reported tail.\<close>

definition batch_ok :: "u64 \<Rightarrow> ReadBatch \<Rightarrow> bool" where
  "batch_ok low b \<longleftrightarrow> sorted_wrt (\<lambda>x y. sr_SeqNum x < sr_SeqNum y) (rb_Records b) \<and>
     (\<forall>x\<in>set (rb_Records b). low \<le> sr_SeqNum x \<and> sr_SeqNum x \<noteq> - 1) \<and>
     (case rb_Tail b of None \<Rightarrow> True | Some t \<Rightarrow> low \<le> sp_SeqNum t \<and> (\<forall>x\<in>set (rb_Records b). sr_SeqNum x < sp_SeqNum t))"

definition raise_low :: "readDelivery option \<Rightarrow> u64 \<Rightarrow> u64" where
  "raise_low d low = (case d of None \<Rightarrow> low | Some d \<Rightarrow> (case rdv_next d of None \<Rightarrow> low | Some n \<Rightarrow> sp_SeqNum n))"

text \<open>\<open>ok low b\<close> says which batches \<open>b\<close> may arrive when everything up to \<open>low\<close> has.\<close>

inductive read_step_with :: "(u64 \<Rightarrow> ReadBatch \<Rightarrow> bool) \<Rightarrow> read_sys \<Rightarrow> read_sys \<Rightarrow> bool"
  for ok :: "u64 \<Rightarrow> ReadBatch \<Rightarrow> bool" where
  rd_batch: "\<lbrakk>ys_phase y = Reading; ok (ys_low y) b; handle_batch b now (rss_reader (ys_session y)) = (d, r)\<rbrakk> \<Longrightarrow>
    read_step_with ok y (y\<lparr>ys_session := (ys_session y)\<lparr>rss_reader := r\<rparr>,
      ys_phase := (case d of None \<Rightarrow> Reading | Some d \<Rightarrow> Sending d), ys_low := raise_low d (ys_low y)\<rparr>)"
| rd_send: "\<lbrakk>ys_phase y = Sending d; s = ys_session y;
      length (st_recordsCh (rss_reader s)) < rss_taken s + readSessionBatchesBuffer\<rbrakk> \<Longrightarrow>
    read_step_with ok y (y\<lparr>ys_session := (upd_reader (\<lambda>r. r\<lparr>st_recordsCh := st_recordsCh r @ [d]\<rparr>) s)\<lparr>rss_consumed := False\<rparr>,
      ys_phase := (if rdv_consumed d then Awaiting else Reading)\<rparr>)"
| rd_consumed: "\<lbrakk>ys_phase y = Awaiting; rss_consumed (ys_session y)\<rbrakk> \<Longrightarrow> read_step_with ok y (y\<lparr>ys_phase := Reading\<rparr>)"
| rd_retry: "\<lbrakk>ys_phase y = Reading;
      after_attempt cfg a before failures (Some err) (rss_reader (ys_session y)) = (nx, failures', r);
      nx = Reconnects \<or> nx = BacksOff delay\<rbrakk> \<Longrightarrow>
    read_step_with ok y (y\<lparr>ys_session := (ys_session y)\<lparr>rss_reader := r\<rparr>\<rparr>)"
| rd_gone: "\<lbrakk>ys_phase y \<noteq> Gone\<rbrakk> \<Longrightarrow>
    read_step_with ok y (y\<lparr>ys_session := upd_reader (run_finish e) (ys_session y), ys_phase := Gone\<rparr>)"
| cs_begin: "\<lbrakk>\<not> ys_inNext y; Next_begin (ys_session y) = (res, s)\<rbrakk> \<Longrightarrow>
    read_step_with ok y (y\<lparr>ys_session := s, ys_inNext := (res = None)\<rparr>)"
| cs_loop: "\<lbrakk>ys_inNext y; next_ready ev (ys_session y); Next_loop ev (ys_session y) = (res, s)\<rbrakk> \<Longrightarrow>
    read_step_with ok y (y\<lparr>ys_session := s, ys_inNext := (res = None)\<rparr>)"
| cs_close: "read_step_with ok y (y\<lparr>ys_session := Close_session (ys_session y)\<rparr>)"
| cs_future: "read_step_with ok y (y\<lparr>ys_session := snd (CaughtUp (ys_session y))\<rparr>)"

text \<open>The server whose batches are in order, and that the steps only depend on which batches arrive.\<close>

abbreviation read_step :: "read_sys \<Rightarrow> read_sys \<Rightarrow> bool" where
  "read_step \<equiv> read_step_with batch_ok"

lemma read_step_mono:
  assumes "read_step_with ok y y'" "\<And>low b. ok low b \<Longrightarrow> ok' low b"
  shows "read_step_with ok' y y'"
  using assms(1)
proof (induction rule: read_step_with.induct)
  case (rd_batch y b now d r)
  then show ?case by (intro read_step_with.rd_batch assms(2))
next
  case (rd_send y d s)
  then show ?case by (rule read_step_with.rd_send)
next
  case (rd_consumed y)
  then show ?case by (rule read_step_with.rd_consumed)
next
  case (rd_retry y cfg a before failures err nx failures' r delay)
  then show ?case by (rule read_step_with.rd_retry)
next
  case (rd_gone y e)
  then show ?case by (rule read_step_with.rd_gone)
next
  case (cs_begin y res s)
  then show ?case by (rule read_step_with.cs_begin)
next
  case (cs_loop y ev res s)
  then show ?case by (rule read_step_with.cs_loop)
next
  case (cs_close y)
  then show ?case by (rule read_step_with.cs_close)
next
  case (cs_future y)
  then show ?case by (rule read_step_with.cs_future)
qed

lemma read_reach_mono:
  assumes "reach init (read_step_with ok) y" "\<And>low b. ok low b \<Longrightarrow> ok' low b"
  shows "reach init (read_step_with ok') y"
  using assms(1) by (induction rule: reach.induct) (use read_step_mono assms(2) in \<open>blast intro: reach_init reach_step\<close>)+

definition read_init :: "read_sys \<Rightarrow> bool" where
  "read_init y \<longleftrightarrow> (\<exists>s opts. y = \<lparr>ys_session = newReadSession s opts, ys_phase = Reading, ys_inNext = False, ys_low = 0\<rparr>)"

section \<open>The invariant\<close>

abbreviation channel :: "ReadSession \<Rightarrow> readDelivery list" where
  "channel s \<equiv> st_recordsCh (rss_reader s)"

definition untaken :: "ReadSession \<Rightarrow> readDelivery list" where
  "untaken s = drop (rss_taken s) (channel s)"

definition sending :: "reader_phase \<Rightarrow> readDelivery list" where
  "sending ph = (case ph of Sending d \<Rightarrow> [d] | _ \<Rightarrow> [])"

text \<open>Nothing is lost between the reader and the caller.\<close>

definition inv_order :: "ReadSession \<Rightarrow> bool" where
  "inv_order s \<longleftrightarrow> rss_taken s \<le> length (channel s) \<and> length (untaken s) \<le> readSessionBatchesBuffer \<and>
     rss_returned s @ rss_pending s @ concat (map rdv_records (untaken s)) = concat (map rdv_records (channel s))"

text \<open>A delivery ends where its \<open>next\<close> says, and a caught-up one at the tail.\<close>

definition delivery_ok :: "readDelivery \<Rightarrow> bool" where
  "delivery_ok d \<longleftrightarrow> (case rdv_next d of None \<Rightarrow> False | Some n \<Rightarrow>
     sorted_wrt (\<lambda>x y. sr_SeqNum x < sr_SeqNum y) (rdv_records d) \<and>
     (\<forall>x\<in>set (rdv_records d). sr_SeqNum x < sp_SeqNum n \<and> sr_SeqNum x \<noteq> - 1) \<and>
     (rdv_caughtUpTail d \<noteq> None \<longrightarrow> map_option sp_SeqNum (rdv_caughtUpTail d) = Some (sp_SeqNum n))) \<and>
   rdv_consumed d = (rdv_caughtUpTail d \<noteq> None)"

fun chain :: "u64 \<Rightarrow> readDelivery list \<Rightarrow> u64 \<Rightarrow> bool" where
  "chain lo [] hi = (lo \<le> hi)"
| "chain lo (d # ds) hi = (delivery_ok d \<and> (\<forall>x\<in>set (rdv_records d). lo \<le> sr_SeqNum x) \<and>
     lo \<le> sp_SeqNum (the (rdv_next d)) \<and> chain (sp_SeqNum (the (rdv_next d))) ds hi)"

definition position_low :: "ReadSession \<Rightarrow> u64" where
  "position_low s = (case rss_position s of None \<Rightarrow> 0 | Some p \<Rightarrow> sp_SeqNum p)"

text \<open>The position separates the records returned from the records still to come.\<close>

definition inv_position :: "ReadSession \<Rightarrow> reader_phase \<Rightarrow> u64 \<Rightarrow> bool" where
  "inv_position s ph low \<longleftrightarrow>
     (\<forall>x\<in>set (rss_returned s). sr_SeqNum x < position_low s) \<and> (rss_pendingNext s = None) = (rss_pending s = []) \<and>
     (case rss_pendingNext s of
        None \<Rightarrow> chain (position_low s) (untaken s @ sending ph) low
      | Some n \<Rightarrow> sorted_wrt (\<lambda>x y. sr_SeqNum x < sr_SeqNum y) (rss_pending s) \<and>
          (\<forall>x\<in>set (rss_pending s). position_low s \<le> sr_SeqNum x \<and> sr_SeqNum x < sp_SeqNum n \<and> sr_SeqNum x \<noteq> - 1) \<and>
          chain (sp_SeqNum n) (untaken s @ sending ph) low)"

text \<open>A delivery that asks to be consumed is the last one until it is.\<close>

definition inv_sync :: "ReadSession \<Rightarrow> reader_phase \<Rightarrow> bool" where
  "inv_sync s ph \<longleftrightarrow>
     (rss_pending s = [] \<longrightarrow> rss_pendingCaughtUpTail s = None) \<and>
     rss_pendingConsumed s = (rss_pendingCaughtUpTail s \<noteq> None) \<and>
     (rss_pendingCaughtUpTail s \<noteq> None \<longrightarrow>
        map_option sp_SeqNum (rss_pendingCaughtUpTail s) = map_option sp_SeqNum (rss_pendingNext s)) \<and>
     (rss_pendingConsumed s \<longrightarrow> untaken s = []) \<and> (\<forall>d\<in>set (butlast (untaken s)). \<not> rdv_consumed d) \<and>
     (ph = Reading \<or> (\<exists>d. ph = Sending d) \<or> (ph = Awaiting \<and> rss_consumed s) \<longrightarrow>
        \<not> rss_pendingConsumed s \<and> (\<forall>d\<in>set (untaken s). \<not> rdv_consumed d))"

text \<open>A session that is caught up has returned everything up to its tail.\<close>

definition inv_caught :: "ReadSession \<Rightarrow> reader_phase \<Rightarrow> bool" where
  "inv_caught s ph \<longleftrightarrow> (let c = st_caughtUp (rss_reader s) in
     cu_terminalErr c = None \<longrightarrow> ph \<noteq> Gone \<and> (cu_tail c \<noteq> None \<longrightarrow>
       rss_pending s = [] \<and> map_option sp_SeqNum (rss_position s) = map_option sp_SeqNum (cu_tail c) \<and>
       (\<forall>d\<in>set (untaken s @ sending ph). rdv_records d = [] \<and> rdv_caughtUpTail d \<noteq> None)))"

text \<open>The error is only reported after the last record.\<close>

definition inv_error :: "ReadSession \<Rightarrow> reader_phase \<Rightarrow> bool" where
  "inv_error s ph \<longleftrightarrow> (st_chClosed (rss_reader s) \<longrightarrow> ph = Gone) \<and>
     (\<forall>e. rss_err s = Some e \<longrightarrow> ph = Gone \<and> rss_taken s = length (channel s) \<and> rss_pending s = [] \<and>
        e \<in> set (st_errorCh (rss_reader s))) \<and>
     (\<forall>e. rss_readerErr s = Some e \<longrightarrow> e \<in> set (st_errorCh (rss_reader s)))"

definition read_inv :: "read_sys \<Rightarrow> bool" where
  "read_inv y \<longleftrightarrow> inv_order (ys_session y) \<and> inv_position (ys_session y) (ys_phase y) (ys_low y) \<and>
     inv_sync (ys_session y) (ys_phase y) \<and> inv_caught (ys_session y) (ys_phase y) \<and> inv_error (ys_session y) (ys_phase y) \<and>
     (ys_inNext y \<longrightarrow> rss_pending (ys_session y) = [])"

lemma setCaughtUp_fields [simp]:
  "cu_terminalErr (setCaughtUp t c) = cu_terminalErr c"
  "cu_tail (setCaughtUp t c) = (if cu_terminalErr c = None then Some t else cu_tail c)"
  "cu_terminalErr (setBehind c) = cu_terminalErr c"
  "cu_tail (setBehind c) = (if cu_terminalErr c = None then None else cu_tail c)"
proof -
  have "cu_terminalErr (fold (settle x) fs c') = cu_terminalErr c'" "cu_tail (fold (settle x) fs c') = cu_tail c'" for x fs c'
    by (induction fs arbitrary: c') (simp_all add: settle_def)
  then show "cu_terminalErr (setCaughtUp t c) = cu_terminalErr c"
    "cu_tail (setCaughtUp t c) = (if cu_terminalErr c = None then Some t else cu_tail c)"
    "cu_terminalErr (setBehind c) = cu_terminalErr c"
    "cu_tail (setBehind c) = (if cu_terminalErr c = None then None else cu_tail c)"
    by (simp_all add: setCaughtUp_def setBehind_def Let_def)
qed

lemma finishDelivery_fields [frame_simps]:
  "rss_position (finishDelivery s) = (case rss_pendingNext s of None \<Rightarrow> rss_position s | Some n \<Rightarrow> Some n)"
  "rss_pendingNext (finishDelivery s) = None" "rss_pendingCaughtUpTail (finishDelivery s) = None"
  "rss_pendingConsumed (finishDelivery s) = False"
  "rss_consumed (finishDelivery s) = (rss_consumed s \<or> rss_pendingConsumed s)"
  "rss_pending (finishDelivery s) = rss_pending s" "rss_returned (finishDelivery s) = rss_returned s"
  "rss_taken (finishDelivery s) = rss_taken s" "rss_err (finishDelivery s) = rss_err s"
  "rss_readerErr (finishDelivery s) = rss_readerErr s" "rss_readerDone (finishDelivery s) = rss_readerDone s"
  "rss_closed (finishDelivery s) = rss_closed s"
  "channel (finishDelivery s) = channel s" "st_errorCh (rss_reader (finishDelivery s)) = st_errorCh (rss_reader s)"
  "st_chClosed (rss_reader (finishDelivery s)) = st_chClosed (rss_reader s)"
  "st_caughtUp (rss_reader (finishDelivery s)) =
     (case rss_pendingCaughtUpTail s of None \<Rightarrow> st_caughtUp (rss_reader s) | Some t \<Rightarrow> setCaughtUp t (st_caughtUp (rss_reader s)))"
  by (simp_all add: finishDelivery_def Let_def upd_reader_def upd_caughtUp_def split: option.split)

section \<open>The invariant is kept\<close>

lemma chain_le: "chain lo ds hi \<Longrightarrow> lo \<le> hi"
  by (induction lo ds hi rule: chain.induct) auto

lemma chain_snoc:
  "chain lo ds hi \<Longrightarrow> delivery_ok d \<Longrightarrow> \<forall>x\<in>set (rdv_records d). hi \<le> sr_SeqNum x \<Longrightarrow> hi \<le> sp_SeqNum (the (rdv_next d)) \<Longrightarrow>
   chain lo (ds @ [d]) (sp_SeqNum (the (rdv_next d)))"
  by (induction lo ds hi rule: chain.induct) (auto intro: order_trans)

lemma chain_prefix: "chain lo (ds @ es) hi \<Longrightarrow> chain lo ds hi"
  by (induction lo ds hi rule: chain.induct) (auto dest: chain_le)

lemma sending_simps [simp]: "sending Reading = []" "sending (Sending d) = [d]" "sending Awaiting = []" "sending Gone = []"
  by (simp_all add: sending_def)

lemma untaken_finish [simp]: "untaken (finishDelivery s) = untaken s"
  by (simp add: untaken_def finishDelivery_fields)

lemma position_low_finish [simp]:
  "position_low (finishDelivery s) = (case rss_pendingNext s of None \<Rightarrow> position_low s | Some n \<Rightarrow> sp_SeqNum n)"
  by (simp add: position_low_def finishDelivery_fields split: option.split)

text \<open>The invariant of one session and its reader.\<close>

definition session_ok :: "ReadSession \<Rightarrow> reader_phase \<Rightarrow> u64 \<Rightarrow> bool" where
  "session_ok s ph low \<longleftrightarrow> inv_order s \<and> inv_position s ph low \<and> inv_sync s ph \<and> inv_caught s ph \<and> inv_error s ph"

text \<open>Finishing a delivery whose records are all returned.\<close>

lemma finish_ok:
  assumes f: "inv_order s" "inv_error s ph" "rss_pending s = []"
    "cu_terminalErr (st_caughtUp (rss_reader s)) = None \<longrightarrow> ph \<noteq> Gone"
    "rss_pendingConsumed s = (rss_pendingCaughtUpTail s \<noteq> None)" "rss_pendingConsumed s \<longrightarrow> untaken s = []"
    "\<forall>d\<in>set (butlast (untaken s)). \<not> rdv_consumed d"
    "ph = Reading \<or> (\<exists>d. ph = Sending d) \<or> (ph = Awaiting \<and> rss_consumed s) \<longrightarrow>
        \<not> rss_pendingConsumed s \<and> (\<forall>d\<in>set (untaken s). \<not> rdv_consumed d)"
    "cu_terminalErr (st_caughtUp (rss_reader s)) = None \<longrightarrow> cu_tail (st_caughtUp (rss_reader s)) \<noteq> None \<longrightarrow>
        rss_pendingCaughtUpTail s \<noteq> None \<and>
        (\<forall>d\<in>set (untaken s @ sending ph). rdv_records d = [] \<and> rdv_caughtUpTail d \<noteq> None)"
  and n: "rss_pendingNext s = Some n" "\<forall>x\<in>set (rss_returned s). sr_SeqNum x < sp_SeqNum n"
    "chain (sp_SeqNum n) (untaken s @ sending ph) low" "rss_pendingCaughtUpTail s \<noteq> None \<longrightarrow> map_option sp_SeqNum (rss_pendingCaughtUpTail s) = Some (sp_SeqNum n)"
  shows "session_ok (finishDelivery s) ph low"
proof -
  have order: "inv_order (finishDelivery s)" using f(1) by (simp add: inv_order_def finishDelivery_fields)
  have error: "inv_error (finishDelivery s) ph" using f(2) by (simp add: inv_error_def finishDelivery_fields)
  have position: "inv_position (finishDelivery s) ph low"
    using f(3) n by (simp add: inv_position_def finishDelivery_fields)
  have sync: "inv_sync (finishDelivery s) ph"
    using f(3,5-8) by (auto simp: inv_sync_def finishDelivery_fields)
  have awaiting: "rss_pendingCaughtUpTail s \<noteq> None \<Longrightarrow> ph = Awaiting \<or> ph = Gone" using f(5,8) by (cases ph) auto
  have caught: "inv_caught (finishDelivery s) ph"
  proof (cases "rss_pendingCaughtUpTail s")
    case None
    then show ?thesis using f(4,9) by (auto simp: inv_caught_def Let_def finishDelivery_fields)
  next
    case (Some t)
    have "untaken s @ sending ph = []" using f(5,6) Some awaiting by auto
    moreover have "sp_SeqNum t = sp_SeqNum n" using n(4) Some by simp
    ultimately show ?thesis using f(3,4) n(1) Some by (simp add: inv_caught_def Let_def finishDelivery_fields)
  qed
  show ?thesis using order error position sync caught by (simp add: session_ok_def)
qed

lemma session_okD:
  assumes "session_ok s ph low"
  shows "inv_order s" "inv_position s ph low" "inv_sync s ph" "inv_caught s ph" "inv_error s ph"
  using assms by (simp_all add: session_ok_def)

lemma inv_syncD:
  assumes "inv_sync s ph"
  shows "rss_pending s = [] \<Longrightarrow> rss_pendingCaughtUpTail s = None"
    "rss_pendingConsumed s = (rss_pendingCaughtUpTail s \<noteq> None)"
    "rss_pendingCaughtUpTail s \<noteq> None \<Longrightarrow>
       map_option sp_SeqNum (rss_pendingCaughtUpTail s) = map_option sp_SeqNum (rss_pendingNext s)"
    "rss_pendingConsumed s \<Longrightarrow> untaken s = []" "\<forall>d\<in>set (butlast (untaken s)). \<not> rdv_consumed d"
    "ph = Reading \<or> (\<exists>d. ph = Sending d) \<or> (ph = Awaiting \<and> rss_consumed s) \<Longrightarrow>
        \<not> rss_pendingConsumed s \<and> (\<forall>d\<in>set (untaken s). \<not> rdv_consumed d)"
  using assms unfolding inv_sync_def by blast+

lemma inv_syncI:
  assumes "rss_pending s = [] \<Longrightarrow> rss_pendingCaughtUpTail s = None"
    "rss_pendingConsumed s = (rss_pendingCaughtUpTail s \<noteq> None)"
    "rss_pendingCaughtUpTail s \<noteq> None \<Longrightarrow>
       map_option sp_SeqNum (rss_pendingCaughtUpTail s) = map_option sp_SeqNum (rss_pendingNext s)"
    "rss_pendingConsumed s \<Longrightarrow> untaken s = []" "\<forall>d\<in>set (butlast (untaken s)). \<not> rdv_consumed d"
    "ph = Reading \<or> (\<exists>d. ph = Sending d) \<or> (ph = Awaiting \<and> rss_consumed s) \<Longrightarrow>
        \<not> rss_pendingConsumed s \<and> (\<forall>d\<in>set (untaken s). \<not> rdv_consumed d)"
  shows "inv_sync s ph"
  using assms unfolding inv_sync_def by blast

lemma inv_sync_cong:
  assumes "inv_sync s ph" "rss_pendingCaughtUpTail s' = rss_pendingCaughtUpTail s" "rss_pendingConsumed s' = rss_pendingConsumed s"
    "rss_pendingNext s' = rss_pendingNext s" "rss_consumed s' = rss_consumed s" "untaken s' = untaken s"
    "rss_pending s' = [] \<Longrightarrow> rss_pendingCaughtUpTail s = None"
  shows "inv_sync s' ph"
  using assms(1,7) unfolding inv_sync_def assms(2-6) by blast

lemma yield_ok:
  assumes ok: "session_ok s ph low" and x: "rss_pending s = x # rest"
  shows "session_ok (snd (yieldPending s)) ph low"
proof -
  note i = session_okD [OF ok]
  obtain n where n: "rss_pendingNext s = Some n" using i(2) x by (auto simp: inv_position_def)
  have pos: "\<forall>y\<in>set (rss_returned s). sr_SeqNum y < position_low s" "\<forall>y\<in>set rest. sr_SeqNum x < sr_SeqNum y"
    "position_low s \<le> sr_SeqNum x" "sr_SeqNum x < sp_SeqNum n" "sr_SeqNum x \<noteq> - 1"
    "sorted_wrt (\<lambda>x y. sr_SeqNum x < sr_SeqNum y) rest" "\<forall>y\<in>set rest. sr_SeqNum y < sp_SeqNum n \<and> sr_SeqNum y \<noteq> - 1"
    "chain (sp_SeqNum n) (untaken s @ sending ph) low"
    using i(2) x n by (simp_all add: inv_position_def)
  define s1 where "s1 = s\<lparr>rss_current := Some x, rss_pending := rest, rss_position := Some (position_after x),
      rss_returned := rss_returned s @ [x]\<rparr>"
  have below: "\<forall>y\<in>set (rss_returned s1). sr_SeqNum y < sr_SeqNum x + 1"
    using pos(1,3) less_succ [OF pos(5)] by (auto simp: s1_def intro: less_trans le_less_trans less_le_trans)
  have un: "untaken s1 = untaken s" and low1: "position_low s1 = sr_SeqNum x + 1"
    by (simp_all add: s1_def untaken_def position_low_def position_after_def)
  have noerr: "rss_err s = None" using i(5) x by (auto simp: inv_error_def)
  have behind: "cu_terminalErr (st_caughtUp (rss_reader s)) = None \<Longrightarrow> cu_tail (st_caughtUp (rss_reader s)) = None"
    using i(4) x by (auto simp: inv_caught_def Let_def)
  have order1: "inv_order s1" using i(1) x un by (simp add: inv_order_def s1_def)
  have error1: "inv_error s1 ph" using i(5) noerr by (simp add: inv_error_def s1_def)
  have alive: "cu_terminalErr (st_caughtUp (rss_reader s)) = None \<longrightarrow> ph \<noteq> Gone" using i(4) by (auto simp: inv_caught_def Let_def)
  show ?thesis
  proof (cases "rest = []")
    case True
    have "session_ok (finishDelivery s1) ph low"
    proof (rule finish_ok [OF order1 error1])
      show "rss_pendingNext s1 = Some n" using n by (simp add: s1_def)
      show "\<forall>y\<in>set (rss_returned s1). sr_SeqNum y < sp_SeqNum n"
        using below succ_le [OF pos(5), of "sp_SeqNum n"] pos(4) by (auto intro: less_le_trans)
      show "chain (sp_SeqNum n) (untaken s1 @ sending ph) low" using pos(8) un by simp
      show "rss_pending s1 = []" using True by (simp add: s1_def)
      show "rss_pendingCaughtUpTail s1 \<noteq> None \<longrightarrow>
          map_option sp_SeqNum (rss_pendingCaughtUpTail s1) = Some (sp_SeqNum n)"
        using inv_syncD(3) [OF i(3)] n by (simp add: s1_def)
      show "cu_terminalErr (st_caughtUp (rss_reader s1)) = None \<longrightarrow> ph \<noteq> Gone" using alive by (simp add: s1_def)
      show "rss_pendingConsumed s1 = (rss_pendingCaughtUpTail s1 \<noteq> None)" using inv_syncD(2) [OF i(3)] by (simp add: s1_def)
      show "rss_pendingConsumed s1 \<longrightarrow> untaken s1 = []" using inv_syncD(4) [OF i(3)] un by (simp add: s1_def)
      show "\<forall>d\<in>set (butlast (untaken s1)). \<not> rdv_consumed d" using inv_syncD(5) [OF i(3)] un by simp
      show "ph = Reading \<or> (\<exists>d. ph = Sending d) \<or> (ph = Awaiting \<and> rss_consumed s1) \<longrightarrow>
          \<not> rss_pendingConsumed s1 \<and> (\<forall>d\<in>set (untaken s1). \<not> rdv_consumed d)"
        using inv_syncD(6) [OF i(3)] unfolding un by (simp add: s1_def)
    qed (use behind in \<open>simp add: s1_def\<close>)
    then show ?thesis using x True by (simp add: yieldPending_def s1_def Let_def)
  next
    case False
    have above: "\<forall>y\<in>set rest. sr_SeqNum x + 1 \<le> sr_SeqNum y" using pos(2) succ_le [OF pos(5)] by blast
    have "inv_position s1 ph low" using False n pos(6-8) above below un low1 by (simp add: inv_position_def s1_def)
    moreover have "inv_sync s1 ph" by (rule inv_sync_cong [OF i(3)]) (simp_all add: s1_def False untaken_def)
    moreover have "inv_caught s1 ph" using alive behind by (simp add: inv_caught_def Let_def s1_def)
    ultimately show ?thesis using x False order1 error1 by (simp add: yieldPending_def session_ok_def s1_def Let_def)
  qed
qed

lemma inv_caughtD:
  assumes "inv_caught s ph" "cu_terminalErr (st_caughtUp (rss_reader s)) = None"
  shows "ph \<noteq> Gone" "cu_tail (st_caughtUp (rss_reader s)) \<noteq> None \<Longrightarrow> rss_pending s = []"
    "cu_tail (st_caughtUp (rss_reader s)) \<noteq> None \<Longrightarrow> d \<in> set (untaken s @ sending ph) \<Longrightarrow>
      rdv_records d = [] \<and> rdv_caughtUpTail d \<noteq> None"
  using assms unfolding inv_caught_def Let_def by blast+

text \<open>The state in which a delivery has just been stashed, before its records are looked at.\<close>

definition stashed :: "readDelivery \<Rightarrow> ReadSession \<Rightarrow> ReadSession" where
  "stashed d s = s\<lparr>rss_taken := rss_taken s + 1, rss_pending := rdv_records d, rss_pendingCaughtUpTail := rdv_caughtUpTail d,
     rss_pendingConsumed := rdv_consumed d, rss_pendingNext := rdv_next d\<rparr>"

lemma stashed_sel:
  "rss_pending (stashed d s) = rdv_records d" "rss_pendingCaughtUpTail (stashed d s) = rdv_caughtUpTail d"
  "rss_pendingConsumed (stashed d s) = rdv_consumed d" "rss_pendingNext (stashed d s) = rdv_next d"
  "rss_reader (stashed d s) = rss_reader s" "rss_returned (stashed d s) = rss_returned s"
  "rss_consumed (stashed d s) = rss_consumed s" "rss_position (stashed d s) = rss_position s"
  by (simp_all add: stashed_def)

lemma take_ok:
  assumes ok: "session_ok s ph low" and empty: "rss_pending s = []" and ready: "rss_taken s < length (channel s)"
  defines "d \<equiv> channel s ! rss_taken s"
  shows "session_ok (snd (Next_loop GotDelivery s)) ph low"
    "fst (Next_loop GotDelivery s) = None \<Longrightarrow> rss_pending (snd (Next_loop GotDelivery s)) = []"
proof -
  note i = session_okD [OF ok]
  let ?s1 = "stashed d s"
  have un: "untaken s = d # untaken ?s1"
    using ready by (simp add: untaken_def d_def stashed_def Cons_nth_drop_Suc)
  have next0: "rss_pendingNext s = None" using i(2) empty by (simp add: inv_position_def)
  have low1: "position_low ?s1 = position_low s" by (simp add: position_low_def stashed_def)
  have ch: "delivery_ok d" "\<forall>x\<in>set (rdv_records d). position_low s \<le> sr_SeqNum x"
    "position_low s \<le> sp_SeqNum (the (rdv_next d))" "chain (sp_SeqNum (the (rdv_next d))) (untaken ?s1 @ sending ph) low"
    "\<forall>x\<in>set (rss_returned s). sr_SeqNum x < position_low s"
    using i(2) next0 un by (simp_all add: inv_position_def)
  obtain n where n: "rdv_next d = Some n" using ch(1) by (auto simp: delivery_ok_def split: option.splits)
  have dok: "sorted_wrt (\<lambda>x y. sr_SeqNum x < sr_SeqNum y) (rdv_records d)"
    "\<forall>x\<in>set (rdv_records d). sr_SeqNum x < sp_SeqNum n \<and> sr_SeqNum x \<noteq> - 1"
    "rdv_caughtUpTail d \<noteq> None \<longrightarrow> map_option sp_SeqNum (rdv_caughtUpTail d) = Some (sp_SeqNum n)"
    "rdv_consumed d = (rdv_caughtUpTail d \<noteq> None)"
    using ch(1) n unfolding delivery_ok_def by auto
  have order1: "inv_order ?s1"
    using i(1) un empty ready by (simp add: inv_order_def stashed_def)
  have err: "rss_err s = None" using i(5) ready by (auto simp: inv_error_def)
  have error1: "inv_error ?s1 ph" using i(5) err by (simp add: inv_error_def stashed_def)
  have alone: "rdv_consumed d \<longrightarrow> untaken ?s1 = []"
    using inv_syncD(5) [OF i(3)] un by (cases "untaken ?s1 = []") simp_all
  have rest: "\<forall>e\<in>set (butlast (untaken ?s1)). \<not> rdv_consumed e"
    using inv_syncD(5) [OF i(3)] un by (cases "untaken ?s1 = []") simp_all
  have phase: "ph = Reading \<or> (\<exists>d. ph = Sending d) \<or> (ph = Awaiting \<and> rss_consumed ?s1) \<longrightarrow>
      \<not> rdv_consumed d \<and> (\<forall>e\<in>set (untaken ?s1). \<not> rdv_consumed e)"
    using inv_syncD(6) [OF i(3)] unfolding un by (simp add: stashed_def)
  have alive: "cu_terminalErr (st_caughtUp (rss_reader ?s1)) = None \<longrightarrow> ph \<noteq> Gone"
    using inv_caughtD(1) [OF i(4)] by (simp add: stashed_def)
  have tails: "cu_terminalErr (st_caughtUp (rss_reader ?s1)) = None \<longrightarrow> cu_tail (st_caughtUp (rss_reader ?s1)) \<noteq> None \<longrightarrow>
      rdv_records d = [] \<and> rdv_caughtUpTail d \<noteq> None \<and>
      (\<forall>e\<in>set (untaken ?s1 @ sending ph). rdv_records e = [] \<and> rdv_caughtUpTail e \<noteq> None)"
    using inv_caughtD(3) [OF i(4)] unfolding un by (simp add: stashed_def)
  have "session_ok (snd (Next_loop GotDelivery s)) ph low \<and>
    (fst (Next_loop GotDelivery s) = None \<longrightarrow> rss_pending (snd (Next_loop GotDelivery s)) = [])"
  proof (cases "rdv_records d")
    case Nil
    then have step: "Next_loop GotDelivery s = (None, finishDelivery ?s1)"
      by (simp add: Next_loop_def stashDelivery_def Let_def d_def [symmetric] yieldPending_def finishDelivery_fields stashed_def)
    have "session_ok (finishDelivery ?s1) ph low"
    proof (rule finish_ok [OF order1 error1])
      show "rss_pendingNext ?s1 = Some n" using n by (simp add: stashed_def)
      show "\<forall>y\<in>set (rss_returned ?s1). sr_SeqNum y < sp_SeqNum n"
        using ch(3,5) n by (auto simp: stashed_def intro: less_le_trans)
      show "chain (sp_SeqNum n) (untaken ?s1 @ sending ph) low" using ch(4) n by simp
      show "cu_terminalErr (st_caughtUp (rss_reader ?s1)) = None \<longrightarrow> ph \<noteq> Gone" by (rule alive)
      show "cu_terminalErr (st_caughtUp (rss_reader ?s1)) = None \<longrightarrow> cu_tail (st_caughtUp (rss_reader ?s1)) \<noteq> None \<longrightarrow>
          rss_pendingCaughtUpTail ?s1 \<noteq> None \<and>
          (\<forall>d\<in>set (untaken ?s1 @ sending ph). rdv_records d = [] \<and> rdv_caughtUpTail d \<noteq> None)"
        using tails by (simp add: stashed_def)
      show "ph = Reading \<or> (\<exists>d. ph = Sending d) \<or> (ph = Awaiting \<and> rss_consumed ?s1) \<longrightarrow>
          \<not> rss_pendingConsumed ?s1 \<and> (\<forall>d\<in>set (untaken ?s1). \<not> rdv_consumed d)"
        using phase by (simp add: stashed_def)
      show "\<forall>d\<in>set (butlast (untaken ?s1)). \<not> rdv_consumed d" by (rule rest)
      show "rss_pendingConsumed ?s1 \<longrightarrow> untaken ?s1 = []" using alone by (simp add: stashed_def)
    qed (use Nil dok(3,4) in \<open>simp_all add: stashed_def\<close>)
    then show ?thesis using Nil step by (simp add: finishDelivery_fields stashed_def)
  next
    case (Cons x xs)
    have "inv_position ?s1 ph low"
      using ch(2,4,5) dok(1,2) n Cons unfolding inv_position_def low1 by (simp add: stashed_def)
    moreover have "inv_sync ?s1 ph"
    proof (rule inv_syncI)
      show "ph = Reading \<or> (\<exists>d. ph = Sending d) \<or> (ph = Awaiting \<and> rss_consumed ?s1) \<Longrightarrow>
          \<not> rss_pendingConsumed ?s1 \<and> (\<forall>d\<in>set (untaken ?s1). \<not> rdv_consumed d)"
        using phase unfolding stashed_sel by blast
    qed (use dok(3,4) n alone rest Cons in \<open>simp_all add: stashed_sel\<close>)
    moreover have "inv_caught ?s1 ph" using alive tails Cons unfolding inv_caught_def Let_def by auto
    ultimately have ok1: "session_ok ?s1 ph low" using order1 error1 by (simp add: session_ok_def)
    have pend: "rss_pending ?s1 = x # xs" using Cons by (simp add: stashed_def)
    then have "Next_loop GotDelivery s = (Some True, snd (yieldPending ?s1))"
      using Cons by (simp add: Next_loop_def stashDelivery_def Let_def d_def [symmetric] yieldPending_def stashed_def)
    then show ?thesis using yield_ok [OF ok1 pend] by simp
  qed
  then show "session_ok (snd (Next_loop GotDelivery s)) ph low"
    "fst (Next_loop GotDelivery s) = None \<Longrightarrow> rss_pending (snd (Next_loop GotDelivery s)) = []" by simp_all
qed

lemma session_ok_cong:
  assumes "session_ok s ph low" "rss_pending s' = rss_pending s" "rss_pendingCaughtUpTail s' = rss_pendingCaughtUpTail s"
    "rss_pendingConsumed s' = rss_pendingConsumed s" "rss_pendingNext s' = rss_pendingNext s" "rss_position s' = rss_position s"
    "rss_returned s' = rss_returned s" "rss_taken s' = rss_taken s" "rss_consumed s' = rss_consumed s" "channel s' = channel s"
    "inv_caught s' ph" "inv_error s' ph"
  shows "session_ok s' ph low"
proof -
  note i = session_okD [OF assms(1)]
  have eq: "untaken s' = untaken s" "position_low s' = position_low s"
    using assms(6,8,10) by (simp_all add: untaken_def position_low_def)
  have "inv_order s'" using i(1) unfolding inv_order_def eq assms(2-10) .
  moreover have "inv_position s' ph low" using i(2) unfolding inv_position_def eq assms(2-10) .
  moreover have "inv_sync s' ph" using i(3) unfolding inv_sync_def eq assms(2-10) .
  ultimately show ?thesis using assms(11,12) by (simp add: session_ok_def)
qed

lemma end_caughtUp_terminal [simp]: "cu_terminalErr (end_caughtUp e c) \<noteq> None"
proof -
  have "cu_terminalErr (fold (settle x) fs c') = cu_terminalErr c'" for x fs c'
    by (induction fs arbitrary: c') (simp_all add: settle_def)
  then show ?thesis by (simp add: end_caughtUp_def Let_def split: option.split)
qed

lemma over_caught: "cu_terminalErr (st_caughtUp (rss_reader s)) \<noteq> None \<Longrightarrow> inv_caught s ph"
  by (auto simp: inv_caught_def Let_def)

lemma close_ok:
  assumes "session_ok s ph low"
  shows "session_ok (Close_session s) ph low"
proof (cases "rss_closed s")
  case False
  have "inv_caught (Close_session s) ph"
    using False by (intro over_caught) (simp add: Close_session_def upd_reader_def Close_reader_def upd_caughtUp_def)
  moreover have "inv_error (Close_session s) ph"
    using session_okD(5) [OF assms] False
    by (simp add: inv_error_def Close_session_def upd_reader_def Close_reader_def upd_caughtUp_def)
  ultimately show ?thesis
    using False by (intro session_ok_cong [OF assms])
      (simp_all add: Close_session_def upd_reader_def Close_reader_def upd_caughtUp_def)
qed (use assms in \<open>simp add: Close_session_def\<close>)

lemma close_fields [simp]: "rss_pending (Close_session s) = rss_pending s" "rss_err (Close_session s) = rss_err s"
  by (simp_all add: Close_session_def upd_reader_def)

lemma read_error_ok:
  assumes ok: "session_ok s ph low" and e: "take_error s = (e, s1)"
    and s2: "s2 = s1\<lparr>rss_readerErr := e\<rparr> \<or> s2 = s1\<lparr>rss_readerDone := True, rss_readerErr := e\<rparr>"
  shows "session_ok s2 ph low"
proof -
  note i = session_okD [OF ok]
  have s1: "s1 = s \<or> s1 = s\<lparr>rss_errTaken := rss_errTaken s + 1\<rparr>" "\<forall>x. e = Some x \<longrightarrow> x \<in> set (st_errorCh (rss_reader s))"
    using e by (auto simp: take_error_def Let_def split: if_splits)
  have "inv_caught s2 ph" using i(4) s1(1) s2 unfolding inv_caught_def Let_def untaken_def by auto
  moreover have "inv_error s2 ph" using i(5) s1 s2 unfolding inv_error_def by auto
  ultimately show ?thesis using s1(1) s2 by (intro session_ok_cong [OF ok]) auto
qed

lemma Next_loop_ok:
  assumes ok: "session_ok s ph low" and empty: "rss_pending s = []" and ready: "next_ready ev s"
    and run: "Next_loop ev s = (res, s')"
  shows "session_ok s' ph low \<and> (res = None \<longrightarrow> rss_pending s' = [])"
proof (cases ev)
  case GotDelivery
  then show ?thesis
    using take_ok [OF ok empty] ready run by (simp add: next_ready_def Let_def)
next
  case GotError
  obtain e s1 where e: "take_error s = (e, s1)" by fastforce
  then have "s' = s1\<lparr>rss_readerDone := True, rss_readerErr := e\<rparr>" "rss_pending s1 = rss_pending s"
    using run GotError by (auto simp: Next_loop_def take_error_def Let_def split: if_splits)
  then show ?thesis using read_error_ok [OF ok e] empty by simp
next
  case GotClosed
  define s1 where "s1 = (if rss_readerDone s then s else (snd (take_error s))\<lparr>rss_readerErr := fst (take_error s)\<rparr>)"
  have ok1: "session_ok s1 ph low"
    using read_error_ok [OF ok prod.collapse [symmetric]] ok by (simp add: s1_def)
  have same: "rss_pending s1 = []" "rss_taken s1 = rss_taken s" "rss_reader s1 = rss_reader s" "rss_readerDone s1 = rss_readerDone s"
    using empty by (simp_all add: s1_def take_error_def Let_def)
  have s': "res = Some False" "s' = Close_session (s1\<lparr>rss_err := rss_readerErr s1\<rparr>)"
    using run GotClosed by (auto simp: Next_loop_def Let_def s1_def take_error_def split: if_splits)
  have gone: "ph = Gone" "rss_taken s1 = length (channel s1)"
    using ready GotClosed session_okD(5) [OF ok] same by (simp_all add: next_ready_def Let_def inv_error_def)
  have "session_ok (s1\<lparr>rss_err := rss_readerErr s1\<rparr>) ph low"
  proof (rule session_ok_cong [OF ok1])
    show "inv_caught (s1\<lparr>rss_err := rss_readerErr s1\<rparr>) ph"
      using session_okD(4) [OF ok1] unfolding inv_caught_def Let_def untaken_def by simp
    show "inv_error (s1\<lparr>rss_err := rss_readerErr s1\<rparr>) ph"
      using session_okD(5) [OF ok1] gone same(1) unfolding inv_error_def by auto
  qed simp_all
  then show ?thesis using s' close_ok by simp
qed

lemma Next_begin_ok:
  assumes "session_ok s ph low" "Next_begin s = (res, s')"
  shows "session_ok s' ph low \<and> (res = None \<longrightarrow> rss_pending s' = [])"
proof (cases "rss_pending s")
  case Nil
  then show ?thesis using assms by (auto simp: Next_begin_def yieldPending_def split: if_splits)
next
  case (Cons x rest)
  then show ?thesis
    using assms yield_ok [OF assms(1) Cons] by (auto simp: Next_begin_def yieldPending_def Let_def split: if_splits)
qed

section \<open>The steps of the reader\<close>

lemma position_after_succ: "sp_SeqNum (position_after x) = sr_SeqNum x + 1"
  by (simp add: position_after_def)

lemma batch_below_next:
  assumes "batch_ok low b" "rb_Records b \<noteq> []"
  shows "\<forall>x\<in>set (rb_Records b). sr_SeqNum x < sr_SeqNum (last (rb_Records b)) + 1"
    "low \<le> sr_SeqNum (last (rb_Records b)) + 1"
proof -
  obtain B y where B: "rb_Records b = B @ [y]" using assms(2) by (cases "rb_Records b" rule: rev_cases) simp_all
  have y: "sr_SeqNum y \<noteq> - 1" "low \<le> sr_SeqNum y" "\<forall>x\<in>set B. sr_SeqNum x < sr_SeqNum y"
    using assms(1) B by (simp_all add: batch_ok_def sorted_wrt_append)
  then show "\<forall>x\<in>set (rb_Records b). sr_SeqNum x < sr_SeqNum (last (rb_Records b)) + 1"
    "low \<le> sr_SeqNum (last (rb_Records b)) + 1"
    using less_succ [OF y(1)] by (auto simp: B intro: less_trans order_trans less_imp_le)
qed

lemma account_batch_records:
  assumes "account_batch b r = (b', r')"
  shows "rb_Tail b' = rb_Tail b" "\<exists>P. rb_Records b' = filter P (rb_Records b)" "st_caughtUp r' = st_caughtUp r"
    "st_recordsCh r' = st_recordsCh r" "st_errorCh r' = st_errorCh r" "st_chClosed r' = st_chClosed r"
proof -
  have b': "b' = b \<or> b' = filterCommandRecords b"
    using assms by (auto simp: account_batch_def Let_def split: if_splits)
  then show "rb_Tail b' = rb_Tail b" by auto
  have "rb_Records b = filter (\<lambda>_. True) (rb_Records b)" by simp
  then show "\<exists>P. rb_Records b' = filter P (rb_Records b)" using b' filterCommandRecords_eq(1) by metis
  show "st_caughtUp r' = st_caughtUp r" "st_recordsCh r' = st_recordsCh r" "st_errorCh r' = st_errorCh r"
    "st_chClosed r' = st_chClosed r"
    using assms by (auto simp: account_batch_def Let_def advanceState_def split: if_splits)
qed

lemma handle_batch_delivery:
  assumes h: "handle_batch b now r = (d, r')" and ok: "batch_ok low b"
  shows "st_recordsCh r' = st_recordsCh r" "st_errorCh r' = st_errorCh r" "st_chClosed r' = st_chClosed r"
    "st_caughtUp r' = setBehind (st_caughtUp r) \<or>
      (st_caughtUp r' = st_caughtUp r \<and> (\<exists>e. d = Some e \<and> rdv_records e = [] \<and> rdv_caughtUpTail e \<noteq> None))"
    "d = Some e \<Longrightarrow> delivery_ok e \<and> (\<forall>x\<in>set (rdv_records e). low \<le> sr_SeqNum x) \<and> low \<le> sp_SeqNum (the (rdv_next e))"
proof -
  obtain b' r1 where ab: "account_batch b (observe_tail b now r) = (b', r1)" by fastforce
  note ac = account_batch_records [OF ab]
  have obs: "st_caughtUp (observe_tail b now r) = st_caughtUp r" "st_recordsCh (observe_tail b now r) = st_recordsCh r"
    "st_errorCh (observe_tail b now r) = st_errorCh r" "st_chClosed (observe_tail b now r) = st_chClosed r"
    by (simp_all add: observe_tail_def split: option.split)
  have r': "r' = (if \<not> readBatchCaughtUp b \<or> rb_Records b' \<noteq> [] then upd_caughtUp setBehind r1 else r1)"
    and d: "d = map_option (\<lambda>n. \<lparr>rdv_records = rb_Records b', rdv_caughtUpTail = (if readBatchCaughtUp b then rb_Tail b' else None),
      rdv_consumed = readBatchCaughtUp b, rdv_next = Some n\<rparr>) (next_position b)"
    using h ab by (auto simp: handle_batch_def Let_def)
  show "st_recordsCh r' = st_recordsCh r" "st_errorCh r' = st_errorCh r" "st_chClosed r' = st_chClosed r"
    using ac obs by (simp_all add: r' upd_caughtUp_def)
  have tail: "readBatchCaughtUp b \<Longrightarrow> \<exists>t. rb_Tail b = Some t" by (auto simp: readBatchCaughtUp_def split: option.splits)
  then have pos: "readBatchCaughtUp b \<Longrightarrow> \<exists>n. next_position b = Some n" by (auto simp: next_position_def)
  show "st_caughtUp r' = setBehind (st_caughtUp r) \<or>
      (st_caughtUp r' = st_caughtUp r \<and> (\<exists>e. d = Some e \<and> rdv_records e = [] \<and> rdv_caughtUpTail e \<noteq> None))"
    using ac obs tail pos by (auto simp: r' d upd_caughtUp_def)
  show "delivery_ok e \<and> (\<forall>x\<in>set (rdv_records e). low \<le> sr_SeqNum x) \<and> low \<le> sp_SeqNum (the (rdv_next e))" if de: "d = Some e"
  proof -
    obtain n where n: "next_position b = Some n" "e = \<lparr>rdv_records = rb_Records b',
        rdv_caughtUpTail = (if readBatchCaughtUp b then rb_Tail b' else None), rdv_consumed = readBatchCaughtUp b, rdv_next = Some n\<rparr>"
      using de d by (cases "next_position b") auto
    obtain P where P: "rb_Records b' = filter P (rb_Records b)" using ac(2) by blast
    have seq: "\<forall>x\<in>set (rb_Records b). sr_SeqNum x < sp_SeqNum n" "low \<le> sp_SeqNum n"
    proof -
      show "\<forall>x\<in>set (rb_Records b). sr_SeqNum x < sp_SeqNum n"
        using n(1) batch_below_next(1) [OF ok] by (auto simp: next_position_def position_after_succ split: if_splits)
      show "low \<le> sp_SeqNum n"
        using n(1) batch_below_next(2) [OF ok] ok
        by (auto simp: next_position_def position_after_succ batch_ok_def split: if_splits)
    qed
    have tl: "readBatchCaughtUp b \<Longrightarrow> map_option sp_SeqNum (rb_Tail b) = Some (sp_SeqNum n)"
      using n(1) by (auto simp: readBatchCaughtUp_def next_position_def position_after_succ split: option.splits if_splits)
    have "sorted_wrt (\<lambda>x y. sr_SeqNum x < sr_SeqNum y) (rb_Records b')"
      using ok unfolding P batch_ok_def by (blast intro: sorted_wrt_filter)
    then have "delivery_ok e"
      using seq tl tail ac(1) ok P unfolding delivery_ok_def n(2) by (auto simp: batch_ok_def)
    then show ?thesis using n(2) seq(2) ok P by (auto simp: batch_ok_def)
  qed
qed

lemma with_reader_ok:
  assumes ok: "session_ok s ph low" and r: "st_recordsCh r = channel s" "st_errorCh r = st_errorCh (rss_reader s)"
    "st_chClosed r = st_chClosed (rss_reader s)"
    and caught: "inv_caught (s\<lparr>rss_reader := r\<rparr>) ph"
  shows "session_ok (s\<lparr>rss_reader := r\<rparr>) ph low"
proof (rule session_ok_cong [OF ok _ _ _ _ _ _ _ _ _ caught])
  show "inv_error (s\<lparr>rss_reader := r\<rparr>) ph" using session_okD(5) [OF ok] r unfolding inv_error_def by simp
qed (simp_all add: r)

lemma behind_caught:
  assumes "inv_caught s ph" "st_caughtUp r = setBehind (st_caughtUp (rss_reader s))" "ph' \<noteq> Gone"
  shows "inv_caught (s\<lparr>rss_reader := r\<rparr>) ph'"
  using assms by (auto simp: inv_caught_def Let_def)

lemma inv_position_next:
  assumes "inv_position s ph low"
    "\<And>lo. chain lo (untaken s @ sending ph) low \<Longrightarrow> chain lo (untaken s' @ sending ph') low'"
    "rss_pendingNext s' = rss_pendingNext s" "rss_pending s' = rss_pending s" "rss_position s' = rss_position s"
    "rss_returned s' = rss_returned s"
  shows "inv_position s' ph' low'"
proof -
  have "position_low s' = position_low s" using assms(5) by (simp add: position_low_def)
  then show ?thesis using assms(1,2) unfolding inv_position_def assms(3-6) by (auto split: option.splits)
qed

lemma batch_step_ok:
  assumes ok: "session_ok s Reading low" and b: "batch_ok low b" and h: "handle_batch b now (rss_reader s) = (d, r)"
  shows "session_ok (s\<lparr>rss_reader := r\<rparr>) (case d of None \<Rightarrow> Reading | Some d \<Rightarrow> Sending d) (raise_low d low)"
proof -
  note i = session_okD [OF ok] and hb = handle_batch_delivery [OF h b]
  let ?s = "s\<lparr>rss_reader := r\<rparr>"
  have un: "untaken ?s = untaken s" by (simp add: untaken_def hb(1))
  show ?thesis
  proof (cases d)
    case None
    then have "inv_caught ?s Reading" using hb(4) by (intro behind_caught [OF i(4)]) auto
    then show ?thesis using None with_reader_ok [OF ok hb(1-3)] by (simp add: raise_low_def)
  next
    case (Some e)
    note e = hb(5) [OF Some]
    obtain n where n: "rdv_next e = Some n" using e by (auto simp: delivery_ok_def split: option.splits)
    have "inv_position ?s (Sending e) (sp_SeqNum n)"
    proof (rule inv_position_next [OF i(2)])
      fix lo assume "chain lo (untaken s @ sending Reading) low"
      then have "chain lo (untaken s) low" by simp
      then show "chain lo (untaken ?s @ sending (Sending e)) (sp_SeqNum n)"
        using chain_snoc [of lo "untaken s" low e] e n un by simp
    qed simp_all
    moreover have "inv_sync ?s (Sending e)"
    proof (rule inv_syncI)
      show "\<not> rss_pendingConsumed ?s \<and> (\<forall>d\<in>set (untaken ?s). \<not> rdv_consumed d)"
        using inv_syncD(6) [OF i(3)] un by simp
    qed (use inv_syncD(1-5) [OF i(3)] un in simp_all)
    moreover have "inv_caught ?s (Sending e)"
    proof (cases "st_caughtUp r = setBehind (st_caughtUp (rss_reader s))")
      case False
      then have "st_caughtUp r = st_caughtUp (rss_reader s)" "rdv_records e = []" "rdv_caughtUpTail e \<noteq> None"
        using hb(4) Some by auto
      then show ?thesis using i(4) un unfolding inv_caught_def Let_def by auto
    qed (use behind_caught [OF i(4)] in auto)
    moreover have "inv_order ?s" using i(1) un hb(1) unfolding inv_order_def by simp
    moreover have "inv_error ?s (Sending e)" using i(5) hb(1-3) unfolding inv_error_def by auto
    ultimately show ?thesis using Some n by (simp add: session_ok_def raise_low_def)
  qed
qed

lemma send_step_ok:
  assumes ok: "session_ok s (Sending d) low" and room: "length (channel s) < rss_taken s + readSessionBatchesBuffer"
  shows "session_ok ((upd_reader (\<lambda>r. r\<lparr>st_recordsCh := st_recordsCh r @ [d]\<rparr>) s)\<lparr>rss_consumed := False\<rparr>)
    (if rdv_consumed d then Awaiting else Reading) low"
proof -
  note i = session_okD [OF ok]
  let ?s = "(upd_reader (\<lambda>r. r\<lparr>st_recordsCh := st_recordsCh r @ [d]\<rparr>) s)\<lparr>rss_consumed := False\<rparr>"
  let ?ph = "if rdv_consumed d then Awaiting else Reading"
  have ch: "channel ?s = channel s @ [d]" by (simp add: upd_reader_def)
  have un: "untaken ?s = untaken s @ [d]" using i(1) by (simp add: untaken_def inv_order_def upd_reader_def)
  have "rss_taken s \<le> length (channel s)" using i(1) by (simp add: inv_order_def)
  then have len: "length (untaken s) < readSessionBatchesBuffer" using room by (simp add: untaken_def)
  have quiet: "sending ?ph = []" by simp
  have free: "\<not> rss_pendingConsumed s \<and> (\<forall>e\<in>set (untaken s). \<not> rdv_consumed e)" using inv_syncD(6) [OF i(3)] by blast
  have order: "inv_order ?s"
    using i(1) un len unfolding inv_order_def by (simp add: upd_reader_def)
  moreover have "inv_position ?s ?ph low"
  proof (rule inv_position_next [OF i(2)])
    show "chain lo (untaken s @ sending (Sending d)) low \<Longrightarrow> chain lo (untaken ?s @ sending ?ph) low" for lo
      unfolding un quiet by simp
  qed (simp_all add: upd_reader_def)
  moreover have "inv_sync ?s ?ph"
  proof (rule inv_syncI)
    assume "?ph = Reading \<or> (\<exists>e. ?ph = Sending e) \<or> (?ph = Awaiting \<and> rss_consumed ?s)"
    then have "\<not> rdv_consumed d" by (simp split: if_splits)
    then show "\<not> rss_pendingConsumed ?s \<and> (\<forall>e\<in>set (untaken ?s). \<not> rdv_consumed e)"
      using free unfolding un by (simp add: upd_reader_def)
  qed (use inv_syncD(1-3) [OF i(3)] free un in \<open>simp_all add: upd_reader_def\<close>)
  moreover have "inv_caught ?s ?ph"
    using i(4) unfolding inv_caught_def Let_def un quiet by (simp add: upd_reader_def)
  moreover have "inv_error ?s ?ph" using i(5) unfolding inv_error_def by (auto simp: upd_reader_def)
  ultimately show ?thesis by (simp add: session_ok_def)
qed

lemma consumed_step_ok:
  assumes ok: "session_ok s Awaiting low" and c: "rss_consumed s"
  shows "session_ok s Reading low"
proof -
  note i = session_okD [OF ok]
  have "inv_position s Reading low" by (rule inv_position_next [OF i(2)]) simp_all
  moreover have "inv_sync s Reading"
  proof (rule inv_syncI)
    show "\<not> rss_pendingConsumed s \<and> (\<forall>d\<in>set (untaken s). \<not> rdv_consumed d)" using inv_syncD(6) [OF i(3)] c by blast
  qed (use inv_syncD(1-5) [OF i(3)] in simp_all)
  moreover have "inv_caught s Reading" using i(4) unfolding inv_caught_def Let_def by simp
  moreover have "inv_error s Reading" using i(5) unfolding inv_error_def by auto
  ultimately show ?thesis using i(1) by (simp add: session_ok_def)
qed

lemma retry_fields:
  assumes "after_attempt cfg a n f (Some err) r = (nx, f', r')" "nx = Reconnects \<or> nx = BacksOff delay"
  shows "st_recordsCh r' = st_recordsCh r \<and> st_errorCh r' = st_errorCh r \<and> st_chClosed r' = st_chClosed r \<and>
    st_caughtUp r' = setBehind (st_caughtUp r)"
  using assms by (auto simp: after_attempt_def Let_def upd_caughtUp_def split: if_splits option.splits)

lemma gone_step_ok:
  assumes ok: "session_ok s ph low" and ph: "ph \<noteq> Gone"
  shows "session_ok (upd_reader (run_finish e) s) Gone low"
proof -
  note i = session_okD [OF ok]
  let ?s = "upd_reader (run_finish e) s"
  have ch: "channel ?s = channel s" "rss_taken ?s = rss_taken s" and cl: "cu_terminalErr (st_caughtUp (rss_reader ?s)) \<noteq> None"
    and er: "set (st_errorCh (rss_reader s)) \<subseteq> set (st_errorCh (rss_reader ?s))"
    and rest: "rss_pending ?s = rss_pending s" "rss_returned ?s = rss_returned s" "rss_pendingNext ?s = rss_pendingNext s"
      "rss_position ?s = rss_position s" "rss_err ?s = rss_err s" "rss_readerErr ?s = rss_readerErr s"
      "rss_pendingCaughtUpTail ?s = rss_pendingCaughtUpTail s" "rss_pendingConsumed ?s = rss_pendingConsumed s"
    by (auto simp: upd_reader_def run_finish_def Let_def upd_caughtUp_def simp del: not_None_eq split: option.split)
  have un: "untaken ?s = untaken s" by (simp add: untaken_def ch)
  have "inv_order ?s" using i(1) unfolding inv_order_def un ch rest .
  moreover have "inv_position ?s Gone low"
    by (rule inv_position_next [OF i(2)]) (simp_all add: un rest chain_prefix)
  moreover have "inv_sync ?s Gone"
    by (rule inv_syncI) (use inv_syncD(1-5) [OF i(3)] un rest in simp_all)
  moreover have "inv_caught ?s Gone" using cl by (rule over_caught)
  moreover have "inv_error ?s Gone" using i(5) ph er rest unfolding inv_error_def by auto
  ultimately show ?thesis by (simp add: session_ok_def)
qed

lemma future_ok:
  assumes ok: "session_ok s ph low"
  shows "session_ok (snd (CaughtUp s)) ph low"
proof -
  obtain f c where nf: "newFuture (st_caughtUp (rss_reader s)) = (f, c)" by fastforce
  then have c: "cu_tail c = cu_tail (st_caughtUp (rss_reader s))" "cu_terminalErr c = cu_terminalErr (st_caughtUp (rss_reader s))"
    by (auto simp: newFuture_def Let_def settle_def split: option.splits)
  have eq: "snd (CaughtUp s) = s\<lparr>rss_reader := (rss_reader s)\<lparr>st_caughtUp := c\<rparr>\<rparr>" by (simp add: CaughtUp_def nf upd_reader_def)
  have "inv_caught (s\<lparr>rss_reader := (rss_reader s)\<lparr>st_caughtUp := c\<rparr>\<rparr>) ph"
    using session_okD(4) [OF ok] c unfolding inv_caught_def Let_def by (simp add: untaken_def)
  then show ?thesis unfolding eq by (intro with_reader_ok [OF ok]) simp_all
qed

lemma read_inv_alt: "read_inv y \<longleftrightarrow> session_ok (ys_session y) (ys_phase y) (ys_low y) \<and>
    (ys_inNext y \<longrightarrow> rss_pending (ys_session y) = [])"
  by (simp add: read_inv_def session_ok_def conj_assoc)

lemma pending_steps [simp]: "rss_pending (snd (CaughtUp s)) = rss_pending s" "rss_pending (upd_reader f s) = rss_pending s"
  by (simp_all add: CaughtUp_def upd_reader_def split: prod.split)

interpretation reads: invariant_system read_init read_step read_inv
proof unfold_locales
  show "read_inv y" if init: "read_init y" for y
  proof -
    obtain s opts where y: "y = \<lparr>ys_session = newReadSession s opts, ys_phase = Reading, ys_inNext = False, ys_low = 0\<rparr>"
      using init by (auto simp: read_init_def)
    show ?thesis
      by (simp add: y read_inv_def inv_order_def inv_position_def inv_sync_def inv_caught_def inv_error_def Let_def
          newReadSession_def newStreamReader_def new_caughtUp_def untaken_def position_low_def)
  qed
  show "read_inv y'" if inv: "read_inv y" and step: "read_step y y'" for y y'
    using step
  proof cases
    case (rd_batch b now d r)
    then show ?thesis using inv batch_step_ok [of "ys_session y" "ys_low y" b now d r] by (simp add: read_inv_alt)
  next
    case (rd_send d s)
    then show ?thesis using inv send_step_ok [of "ys_session y" d "ys_low y"] by (simp add: read_inv_alt)
  next
    case rd_consumed
    then show ?thesis using inv consumed_step_ok [of "ys_session y" "ys_low y"] by (simp add: read_inv_alt)
  next
    case (rd_retry cfg a before failures err nx failures' r delay)
    have ok: "session_ok (ys_session y) (ys_phase y) (ys_low y)" using inv by (simp add: read_inv_alt)
    have f: "st_recordsCh r = channel (ys_session y)" "st_errorCh r = st_errorCh (rss_reader (ys_session y))"
      "st_chClosed r = st_chClosed (rss_reader (ys_session y))" "st_caughtUp r = setBehind (st_caughtUp (rss_reader (ys_session y)))"
      using retry_fields [OF rd_retry(3,4)] by simp_all
    have "inv_caught ((ys_session y)\<lparr>rss_reader := r\<rparr>) (ys_phase y)"
      using rd_retry(2) by (intro behind_caught [OF session_okD(4) [OF ok] f(4)]) simp
    then have "session_ok ((ys_session y)\<lparr>rss_reader := r\<rparr>) (ys_phase y) (ys_low y)" by (rule with_reader_ok [OF ok f(1-3)])
    then show ?thesis using rd_retry(1) inv by (simp add: read_inv_alt)
  next
    case (rd_gone e)
    then show ?thesis using inv gone_step_ok [of "ys_session y" "ys_phase y" "ys_low y" e] by (simp add: read_inv_alt)
  next
    case (cs_begin res s)
    then show ?thesis using inv Next_begin_ok [of "ys_session y" "ys_phase y" "ys_low y" res s] by (simp add: read_inv_alt)
  next
    case (cs_loop ev res s)
    then show ?thesis using inv Next_loop_ok [of "ys_session y" "ys_phase y" "ys_low y" ev res s] by (simp add: read_inv_alt)
  next
    case cs_close
    then show ?thesis using inv close_ok [of "ys_session y" "ys_phase y" "ys_low y"] by (simp add: read_inv_alt)
  next
    case cs_future
    then show ?thesis using inv future_ok [of "ys_session y" "ys_phase y" "ys_low y"] by (simp add: read_inv_alt)
  qed
qed

end
