(* ===== verification/Read_Stream_Props.thy ===== *)
theory Read_Stream_Props
  imports Read_Stream
begin

text \<open>
  Correctness of the stream reader.  \<open>acc r A\<close> says that the counters and the resume position of the reader
  account for exactly the records \<open>A\<close>; \<open>delivered\<close> is what was put on the channel.  Against a server that
  honours the requested sequence number the deliveries of all attempts together are a gapless piece of
  the stream, and the limits of the caller hold over the whole session.
\<close>

section \<open>Accounting\<close>

definition ignores :: "streamReader \<Rightarrow> bool" where
  "ignores r = (case st_baseOpts r of Some o' \<Rightarrow> ro_IgnoreCommandRecords o' | None \<Rightarrow> False)"

definition visible :: "streamReader \<Rightarrow> SequencedRecord list \<Rightarrow> SequencedRecord list" where
  "visible r A = (if ignores r then filter (\<lambda>x. \<not> IsCommandRecord x) A else A)"

definition delivered :: "streamReader \<Rightarrow> SequencedRecord list" where
  "delivered r = concat (map rdv_records (st_recordsCh r))"

definition acc :: "streamReader \<Rightarrow> SequencedRecord list \<Rightarrow> bool" where
  "acc r A \<longleftrightarrow> st_hasNextSeq r = (A \<noteq> []) \<and> (A \<noteq> [] \<longrightarrow> st_nextSeq r = sr_SeqNum (last A) + 1) \<and>
     st_recordsRead r = word_of_nat (length A) \<and> st_bytesRead r = metered_sum A"

definition same_base :: "streamReader \<Rightarrow> streamReader \<Rightarrow> bool" where
  "same_base r r' \<longleftrightarrow> st_baseOpts r' = st_baseOpts r \<and> st_streamClient r' = st_streamClient r \<and>
     st_retryConfig r' = st_retryConfig r"

lemma same_base_refl [simp]: "same_base r r"
  by (simp add: same_base_def)

lemma same_base_trans: "same_base r r' \<Longrightarrow> same_base r' r'' \<Longrightarrow> same_base r r''"
  by (simp add: same_base_def)

lemma visible_same: "same_base r r' \<Longrightarrow> visible r' A = visible r A"
  by (simp add: same_base_def visible_def ignores_def)

lemma visible_append [simp]: "visible r (A @ B) = visible r A @ visible r B" and visible_Nil [simp]: "visible r [] = []"
  by (simp_all add: visible_def)

lemma metered_sum_from: "fold (\<lambda>rec n. n + MeteredSequencedRecordBytes rec) rs k = k + metered_sum rs"
proof (induction rs arbitrary: k)
  case (Cons x rs)
  have "metered_sum (x # rs) = MeteredSequencedRecordBytes x + metered_sum rs"
    using Cons [of "0 + MeteredSequencedRecordBytes x"] by (simp add: metered_sum_def)
  then show ?case using Cons [of "k + MeteredSequencedRecordBytes x"] by simp
qed (simp add: metered_sum_def)

lemma metered_sum_append: "metered_sum (A @ B) = metered_sum A + metered_sum B"
  using metered_sum_from [of B "metered_sum A"] by (simp add: metered_sum_def)

lemma metered_sum_Nil [simp]: "metered_sum [] = 0"
  by (simp add: metered_sum_def)

lemma observe_tail_frame [frame_simps]:
  "acc (observe_tail b now r) A = acc r A" "same_base r (observe_tail b now r)"
  "st_recordsCh (observe_tail b now r) = st_recordsCh r" "st_baseOpts (observe_tail b now r) = st_baseOpts r"
  by (simp_all add: observe_tail_def acc_def same_base_def split: option.splits)

lemma upd_caughtUp_frame [frame_simps]:
  "acc (upd_caughtUp f r) A = acc r A" "same_base r (upd_caughtUp f r)" "st_recordsCh (upd_caughtUp f r) = st_recordsCh r"
  "st_recordsRead (upd_caughtUp f r) = st_recordsRead r" "st_baseOpts (upd_caughtUp f r) = st_baseOpts r"
  by (simp_all add: upd_caughtUp_def acc_def same_base_def)

lemma account_batch_acc:
  assumes "account_batch b r = (b', r')" "acc r A"
  shows "acc r' (A @ rb_Records b) \<and> same_base r r' \<and> st_recordsCh r' = st_recordsCh r \<and>
    rb_Records b' = visible r (rb_Records b)"
proof (cases "rb_Records b = []")
  case False
  with assms(1) have b': "b' = (if ignores r then filterCommandRecords b else b)"
    and r': "r' = advanceState (word_of_nat (length (rb_Records b))) (metered_sum (rb_Records b)) (last (rb_Records b)) r"
    by (auto simp: account_batch_def Let_def ignores_def advanceState_def)
  have "acc r' (A @ rb_Records b)"
    using assms(2) False unfolding r' acc_def by (simp add: advanceState_def metered_sum_append)
  then show ?thesis by (simp add: b' r' advanceState_def same_base_def visible_def)
qed (use assms in \<open>simp add: account_batch_def\<close>)

lemma handle_batch_acc:
  assumes "handle_batch b now r = (d, r')" "acc r A"
  shows "acc r' (A @ rb_Records b) \<and> same_base r r' \<and> st_recordsCh r' = st_recordsCh r \<and>
    (case d of None \<Rightarrow> rb_Records b = [] | Some d \<Rightarrow> rdv_records d = visible r (rb_Records b))"
proof -
  obtain b' r1 where ab: "account_batch b (observe_tail b now r) = (b', r1)" by fastforce
  have ac: "acc r1 (A @ rb_Records b)" "same_base (observe_tail b now r) r1" "st_recordsCh r1 = st_recordsCh r"
    "rb_Records b' = visible r (rb_Records b)"
    using account_batch_acc [OF ab, of A] assms(2) by (auto simp: frame_simps visible_def ignores_def)
  have r': "r' = r1 \<or> r' = upd_caughtUp setBehind r1"
    and d: "d = map_option (\<lambda>n. \<lparr>rdv_records = rb_Records b',
      rdv_caughtUpTail = (if readBatchCaughtUp b then rb_Tail b' else None),
      rdv_consumed = readBatchCaughtUp b, rdv_next = Some n\<rparr>) (next_position b)"
    using assms(1) ab by (auto simp: handle_batch_def Let_def)
  have "same_base r r'"
    using r' same_base_trans [OF observe_tail_frame(2) ac(2)] upd_caughtUp_frame(2) same_base_trans by blast
  moreover have "next_position b = None \<Longrightarrow> rb_Records b = []" by (simp add: next_position_def split: if_splits)
  ultimately show ?thesis using r' d ac by (auto simp: frame_simps split: option.splits)
qed

section \<open>One attempt\<close>

definition event_records :: "read_env \<Rightarrow> once_event \<Rightarrow> SequencedRecord list" where
  "event_records env ev = (case ev of
     OnceFrame (Inr f) _ _ _ \<Rightarrow>
       (if f_Terminal f then []
        else case DecompressedBody (hx_codec (rv_http env)) f of
          Inl _ \<Rightarrow> []
        | Inr body \<Rightarrow> (case parseReadBatch (rv_unmarshal env) body of Inl _ \<Rightarrow> [] | Inr b \<Rightarrow> rb_Records b))
   | _ \<Rightarrow> [])"

definition attempt_records :: "read_env \<Rightarrow> once_event list \<Rightarrow> SequencedRecord list" where
  "attempt_records env evs = concat (map (event_records env) evs)"

fun unsent :: "once_event \<Rightarrow> bool" where
  "unsent (OnceFrame _ _ (NotSent _) _) = True"
| "unsent _ = False"

lemma acc_poison [simp]: "acc (poison_reader r) A = acc r A" "same_base r (poison_reader r)"
    "st_recordsCh (poison_reader r) = st_recordsCh r"
  by (simp_all add: poison_reader_def acc_def same_base_def)

lemma handle_read_frame_acc:
  assumes "handle_read_frame env f now r = (res, r')" "acc r A"
  shows "same_base r r' \<and> st_recordsCh r' = st_recordsCh r \<and>
    (case res of Inl _ \<Rightarrow> acc r' A
     | Inr d \<Rightarrow> acc r' (A @ event_records env (OnceFrame (Inr f) now out later)) \<and>
         (case d of None \<Rightarrow> event_records env (OnceFrame (Inr f) now out later) = []
          | Some d \<Rightarrow> rdv_records d = visible r (event_records env (OnceFrame (Inr f) now out later))))"
proof (cases "DecompressedBody (hx_codec (rv_http env)) f")
  case (Inl e)
  with assms show ?thesis by (auto simp: handle_read_frame_def)
next
  case body: (Inr body)
  show ?thesis
  proof (cases "f_Terminal f")
    case True
    with assms body show ?thesis
      by (auto simp: handle_read_frame_def Let_def split: option.splits if_splits)
  next
    case False
    show ?thesis
    proof (cases "parseReadBatch (rv_unmarshal env) body")
      case (Inl e)
      with assms body False show ?thesis by (auto simp: handle_read_frame_def)
    next
      case (Inr b)
      then have "event_records env (OnceFrame (Inr f) now out later) = rb_Records b"
        using body False by (simp add: event_records_def)
      moreover obtain d where "handle_batch b now r = (d, r')" "res = Inr d"
        using assms body False Inr by (auto simp: handle_read_frame_def split: prod.splits)
      ultimately show ?thesis using handle_batch_acc [of b now r d r', OF _ assms(2)] by (cases d) auto
    qed
  qed
qed

lemma take_advice_acc:
  "take_advice f declined now r = (res, r') \<Longrightarrow> acc r' A = acc r A \<and> same_base r r' \<and> st_recordsCh r' = st_recordsCh r"
  by (auto simp: take_advice_def Let_def split: if_splits)

text \<open>An attempt accounts for a prefix of the records that arrive; they are all delivered, but for the last
  batch when the context ends while it is being sent.\<close>

lemma runOnce_loop_acc:
  assumes "runOnce_loop env r declined evs = (res, r')" "acc r A" "delivered r = visible r A"
  shows "\<exists>B C. prefix (B @ C) (attempt_records env evs) \<and> acc r' (A @ B @ C) \<and> delivered r' = visible r (A @ B) \<and>
    same_base r r' \<and> (C \<noteq> [] \<longrightarrow> (\<exists>e. res = OnceReturns (Some e)) \<and> (\<exists>ev\<in>set evs. unsent ev))"
  using assms
proof (induction env r declined evs arbitrary: A rule: runOnce_loop.induct)
  case (5 env r declined f now out later evs)
  let ?ev = "OnceFrame (Inr f) now out later"
  let ?E = "event_records env ?ev"
  have rest: "attempt_records env (?ev # evs) = ?E @ attempt_records env evs" by (simp add: attempt_records_def)
  obtain hres r1 where h: "handle_read_frame env f now r = (hres, r1)" by fastforce
  note hr = handle_read_frame_acc [OF h "5.prems"(2), of out later]
  show ?case
  proof (cases hres)
    case (Inl x)
    then have "r' = r1" using "5.prems"(1) h by simp
    with Inl hr "5.prems"(3) show ?thesis
      by (intro exI [of _ "[]"] exI [of _ "[]"]) (simp add: delivered_def)
  next
    case (Inr d)
    have acc1: "acc r1 (A @ ?E)" using hr Inr by simp
    obtain e r2 where sent: "(case d of None \<Rightarrow> (None, r1) | Some d \<Rightarrow> sendDelivery r1 d out) = (e, r2)" by fastforce
    have acc2: "acc r2 (A @ ?E)" and base2: "same_base r r2"
      using sent acc1 hr by (auto simp: sendDelivery_def Let_def acc_def same_base_def split: option.splits send_outcome.splits if_splits)
    have del: "(unsent ?ev \<and> delivered r2 = visible r A \<and> (e \<noteq> None \<or> ?E = [])) \<or> delivered r2 = visible r (A @ ?E)"
      using sent hr Inr "5.prems"(3)
      by (auto simp: sendDelivery_def Let_def delivered_def split: option.splits send_outcome.splits if_splits)
    show ?thesis
    proof (cases e)
      case (Some err)
      then have r': "r' = r2" "res = OnceReturns (Some err)" using "5.prems"(1) h Inr sent by simp_all
      from del show ?thesis
      proof
        assume "unsent ?ev \<and> delivered r2 = visible r A \<and> (e \<noteq> None \<or> ?E = [])"
        then show ?thesis using r' acc2 base2 rest
          by - (rule exI [of _ "[]"], rule exI [of _ ?E], simp)
      next
        assume "delivered r2 = visible r (A @ ?E)"
        then show ?thesis using r' acc2 base2 rest
          by - (rule exI [of _ ?E], rule exI [of _ "[]"], simp)
      qed
    next
      case None
      have del2: "delivered r2 = visible r2 (A @ ?E)" using del None visible_same [OF base2] by auto
      obtain adv r3 where ad: "take_advice f declined later r2 = (adv, r3)" by fastforce
      note ta = take_advice_acc [OF ad]
      have base3: "same_base r r3" and acc3: "acc r3 (A @ ?E)"
        using ta base2 acc2 by (auto intro: same_base_trans)
      have del3: "delivered r3 = visible r3 (A @ ?E)"
        using ta del2 visible_same [OF base2] visible_same [OF base3] by (simp add: delivered_def)
      show ?thesis
      proof (cases adv)
        case (Inl err)
        then have "r' = r3" using "5.prems"(1) h Inr sent None ad by simp
        then show ?thesis using acc3 del3 base3 rest visible_same [OF base3]
          by - (rule exI [of _ ?E], rule exI [of _ "[]"], simp)
      next
        case adv: (Inr declined')
        have go: "runOnce_loop env r3 declined' evs = (res, r')"
          using "5.prems"(1) h Inr sent None ad adv by simp
        obtain B C where BC: "prefix (B @ C) (attempt_records env evs)" "acc r' ((A @ ?E) @ B @ C)"
          "delivered r' = visible r3 ((A @ ?E) @ B)" "same_base r3 r'"
          "C \<noteq> [] \<longrightarrow> (\<exists>e. res = OnceReturns (Some e)) \<and> (\<exists>ev\<in>set evs. unsent ev)"
          using "5.IH" [OF h [symmetric] Inr sent [symmetric] None ad [symmetric] adv go acc3 del3] by blast
        show ?thesis
        proof (rule exI [of _ "?E @ B"], rule exI [of _ C], intro conjI)
          show "prefix ((?E @ B) @ C) (attempt_records env (?ev # evs))" using BC(1) rest by simp
          show "acc r' (A @ (?E @ B) @ C)" using BC(2) by simp
          show "delivered r' = visible r (A @ ?E @ B)" using BC(3) visible_same [OF base3] by simp
          show "same_base r r'" using base3 BC(4) by (rule same_base_trans)
          show "C \<noteq> [] \<longrightarrow> (\<exists>e. res = OnceReturns (Some e)) \<and> (\<exists>ev\<in>set (?ev # evs). unsent ev)" using BC(5) by auto
        qed
      qed
    qed
  qed
qed (auto intro!: exI [of _ "[]"] split: if_splits)

lemma acc_fields:
  "acc (r\<lparr>st_poisoned := b\<rparr>) A = acc r A" "acc (r\<lparr>st_requests := q\<rparr>) A = acc r A" "acc (r\<lparr>st_respBody := b\<rparr>) A = acc r A"
  "same_base r (r\<lparr>st_poisoned := b\<rparr>)" "same_base r (r\<lparr>st_requests := q\<rparr>)" "same_base r (r\<lparr>st_respBody := b\<rparr>)"
  by (simp_all add: acc_def same_base_def)

lemma runOnce_acc:
  assumes "runOnce env r opts answer evs = (res, r')" "acc r A" "delivered r = visible r A"
  shows "\<exists>B C. prefix (B @ C) (attempt_records env evs) \<and> acc r' (A @ B @ C) \<and> delivered r' = visible r (A @ B) \<and>
    same_base r r' \<and> (C \<noteq> [] \<longrightarrow> (\<exists>e. res = OnceReturns (Some e)) \<and> (\<exists>ev\<in>set evs. unsent ev))"
proof -
  define r1 where "r1 = r\<lparr>st_poisoned := False\<rparr>"
  define r2 where "r2 = r1\<lparr>st_requests := st_requests r1 @ [opts]\<rparr>"
  have r1: "acc r1 A" "same_base r r1" "delivered r1 = visible r A"
    using assms by (simp_all add: r1_def acc_fields delivered_def)
  then have r2: "acc r2 A" "same_base r r2" "delivered r2 = visible r A"
    by (simp_all add: r2_def acc_fields delivered_def same_base_def)
  have quiet: "?thesis" if "acc r' A" "same_base r r'" "delivered r' = visible r A"
    using that by (intro exI [of _ "[]"]) simp
  note run = assms(1) [unfolded runOnce_def Let_def, folded r1_def, folded r2_def]
  consider (no_request) e where "read_request env (st_streamClient r1) opts = Inl e"
    | (no_answer) q e where "read_request env (st_streamClient r1) opts = Inr q" "answer = Inl e"
    | (bad) q resp where "read_request env (st_streamClient r1) opts = Inr q" "answer = Inr resp" "rs_StatusCode resp \<ge> 400"
    | (ok) q resp where "read_request env (st_streamClient r1) opts = Inr q" "answer = Inr resp" "\<not> rs_StatusCode resp \<ge> 400"
    by (metis sum.exhaust)
  then show ?thesis
  proof cases
    case no_request
    then show ?thesis using run r1 by (intro quiet) simp_all
  next
    case no_answer
    then show ?thesis using run r2 by (intro quiet) simp_all
  next
    case bad
    then have "r' = r2 \<or> r' = poison_reader r2" using run by (simp split: if_splits)
    then show ?thesis using r2 same_base_trans by (intro quiet) (auto simp: delivered_def)
  next
    case ok
    define r3 where "r3 = r2\<lparr>st_respBody := True\<rparr>"
    obtain res' r4 where loop: "runOnce_loop env r3 False evs = (res', r4)" by fastforce
    have r3: "acc r3 A" "same_base r r3" "delivered r3 = visible r3 A"
      using r2 by (simp_all add: r3_def acc_fields delivered_def same_base_def visible_def ignores_def)
    have out: "res = res'" "r' = r4 \<or> r' = r4\<lparr>st_respBody := False\<rparr>"
      using run ok loop by (simp_all add: r3_def [symmetric] split: once_result.splits)
    obtain B C where BC: "prefix (B @ C) (attempt_records env evs)" "acc r4 (A @ B @ C)" "delivered r4 = visible r3 (A @ B)"
      "same_base r3 r4" "C \<noteq> [] \<longrightarrow> (\<exists>e. res' = OnceReturns (Some e)) \<and> (\<exists>ev\<in>set evs. unsent ev)"
      using runOnce_loop_acc [OF loop r3(1,3)] by blast
    have "acc r' (A @ B @ C)" "delivered r' = visible r (A @ B)" "same_base r r'"
      using out(2) BC(2,3) same_base_trans [OF r3(2) BC(4)] visible_same [OF r3(2)]
      by (auto simp: acc_fields delivered_def same_base_def)
    then show ?thesis using BC(1,5) out(1) by blast
  qed
qed

section \<open>All attempts\<close>

text \<open>\<open>log\<close> is the stream.  An attempt that asks for a sequence number is served the records from there on; any
  other attempt is served from some place.\<close>

definition served :: "SequencedRecord list \<Rightarrow> u64 option \<Rightarrow> SequencedRecord list \<Rightarrow> bool" where
  "served log start A = (case start of
     Some n \<Rightarrow> prefix A (filter (\<lambda>x. n \<le> sr_SeqNum x) log)
   | None \<Rightarrow> \<exists>m. prefix A (drop m log))"

definition start_of :: "ReadOptions option \<Rightarrow> u64 option" where
  "start_of opts = (case opts of None \<Rightarrow> None | Some o' \<Rightarrow> ro_SeqNum o')"

definition increasing :: "SequencedRecord list \<Rightarrow> bool" where
  "increasing log \<longleftrightarrow> sorted_wrt (\<lambda>x y. sr_SeqNum x < sr_SeqNum y) log \<and> (\<forall>x\<in>set log. sr_SeqNum x \<noteq> - 1)"

definition honest_server_reads ::
    "read_env \<Rightarrow> SequencedRecord list \<Rightarrow> (nat \<Rightarrow> ReadOptions option \<Rightarrow> read_attempt) \<Rightarrow> bool" where
  "honest_server_reads env log serve \<longleftrightarrow>
     (\<forall>k opts. served log (start_of opts) (attempt_records env (ra_events (serve k opts))))"

text \<open>The context of an attempt is a child of the session's and is not cancelled before the attempt returns.\<close>

definition context_ok :: "(nat \<Rightarrow> ReadOptions option \<Rightarrow> read_attempt) \<Rightarrow> bool" where
  "context_ok serve \<longleftrightarrow>
     (\<forall>k opts. (\<exists>ev\<in>set (ra_events (serve k opts)). unsent ev) \<longrightarrow> ra_ctxErr (serve k opts) \<noteq> None)"

lemma served_prefix: "prefix R A \<Longrightarrow> served log start A \<Longrightarrow> served log start R"
  by (auto simp: served_def split: option.splits intro: prefix_order.trans)

lemma filter_after:
  assumes "increasing (A @ v)" "A \<noteq> []"
  shows "filter (\<lambda>x. sr_SeqNum (last A) + 1 \<le> sr_SeqNum x) (A @ v) = v"
proof -
  obtain B y where A: "A = B @ [y]" using assms(2) by (cases A rule: rev_cases) simp_all
  have "sr_SeqNum y \<noteq> - 1" using assms(1) A by (simp add: increasing_def)
  note le = succ_le [OF this]
  have "\<forall>x\<in>set B. sr_SeqNum x < sr_SeqNum y" "\<forall>x\<in>set v. sr_SeqNum y < sr_SeqNum x"
    using assms(1) A by (simp_all add: increasing_def sorted_wrt_append)
  then have "filter (\<lambda>x. sr_SeqNum y < sr_SeqNum x) B = []" "filter (\<lambda>x. sr_SeqNum y < sr_SeqNum x) v = v"
    by (auto simp: filter_empty_conv filter_id_conv)
  then show ?thesis by (simp add: A le)
qed

lemma increasing_filter: "increasing log \<Longrightarrow> increasing (filter P log)"
  by (simp add: increasing_def sorted_wrt_filter)

lemma served_extend:
  assumes "increasing log" "served log start A" "A \<noteq> []" "served log (Some (sr_SeqNum (last A) + 1)) R"
  shows "served log start (A @ R)"
proof (cases start)
  case (Some n)
  let ?X = "filter (\<lambda>x. n \<le> sr_SeqNum x) log"
  obtain v where v: "?X = A @ v" using assms(2) Some by (auto simp: served_def prefix_def)
  have last: "last A \<in> set ?X" using v assms(3) by simp
  then have "n \<le> sr_SeqNum (last A)" "sr_SeqNum (last A) \<noteq> - 1" using assms(1) by (auto simp: increasing_def)
  then have "sr_SeqNum (last A) + 1 \<le> sr_SeqNum x \<Longrightarrow> n \<le> sr_SeqNum x" for x
    using succ_le by (meson le_less_trans less_imp_le)
  then have "filter (\<lambda>x. sr_SeqNum (last A) + 1 \<le> sr_SeqNum x) log =
      filter (\<lambda>x. sr_SeqNum (last A) + 1 \<le> sr_SeqNum x) ?X"
    unfolding filter_filter by (intro filter_cong) auto
  also have "\<dots> = v" using filter_after [of A v] increasing_filter [OF assms(1), of "\<lambda>x. n \<le> sr_SeqNum x"] v assms(3) by simp
  finally show ?thesis using assms(4) v Some by (simp add: served_def prefix_def)
next
  case None
  obtain m v where v: "drop m log = A @ v" using assms(2) None by (auto simp: served_def prefix_def)
  then have log: "log = take m log @ A @ v" by (metis append_take_drop_id)
  have "filter (\<lambda>x. sr_SeqNum (last A) + 1 \<le> sr_SeqNum x) ((take m log @ A) @ v) = v"
    using filter_after [of "take m log @ A" v] assms(1,3) by (simp add: v [symmetric])
  then have "prefix R v" using assms(4) by (simp add: served_def v [symmetric] del: filter_append)
  then have "prefix (A @ R) (drop m log)" using v by simp
  then show ?thesis using None by (auto simp: served_def)
qed

lemma limit_options_start [simp]: "ro_SeqNum (limit_options now d r base o') = ro_SeqNum o'"
  by (simp add: limit_options_def Let_def split: option.splits)

lemma attempt_start:
  assumes "acc r A"
  shows "start_of (buildAttemptOptions now d r) =
    (if A = [] then start_of (st_baseOpts r) else Some (sr_SeqNum (last A) + 1))"
proof (cases "st_baseOpts r")
  case None
  with assms show ?thesis by (simp add: acc_def buildAttemptOptions_def start_of_def no_options_def empty_ReadOptions_def)
next
  case (Some base)
  define w where "w = limit_options now d r base
    (if st_hasNextSeq r then base\<lparr>ro_SeqNum := Some (st_nextSeq r), ro_Timestamp := None, ro_TailOffset := None\<rparr> else base)"
  have "buildAttemptOptions now d r = (if no_options w then None else Some w)"
    using Some by (simp add: buildAttemptOptions_def Let_def w_def)
  then have "start_of (buildAttemptOptions now d r) = ro_SeqNum w" by (simp add: start_of_def no_options_def)
  then show ?thesis using assms Some by (simp add: w_def acc_def start_of_def)
qed

lemma after_attempt_frame:
  assumes "after_attempt cfg a n f err r = (nx, f', r')"
  shows "acc r' A = acc r A" "same_base r r'" "st_recordsCh r' = st_recordsCh r"
    "err = Some e \<Longrightarrow> ra_ctxErr a \<noteq> None \<Longrightarrow> nx = Stops None"
proof -
  have r': "r' = r \<or> (\<exists>g. r' = upd_caughtUp g r) \<or> (\<exists>g w. r' = upd_caughtUp g r\<lparr>st_advisedReconnects := w\<rparr>) \<or>
      (\<exists>g w. r' = upd_caughtUp g (r\<lparr>st_advisedReconnects := w\<rparr>))"
    using assms by (auto simp: after_attempt_def Let_def split: option.splits if_splits)
  then show "acc r' A = acc r A" "same_base r r'" "st_recordsCh r' = st_recordsCh r"
    by (auto simp: upd_caughtUp_def acc_def same_base_def)
  show "err = Some e \<Longrightarrow> ra_ctxErr a \<noteq> None \<Longrightarrow> nx = Stops None"
    using assms by (simp add: after_attempt_def)
qed

text \<open>What holds of the records accounted for and is kept by every attempt holds at the end, of the records
  accounted for and of the records delivered.\<close>

lemma run_loop_keeps:
  assumes ctx: "context_ok serve"
    and step: "\<And>k r A now delay R. acc r A \<Longrightarrow> same_base r0 r \<Longrightarrow> Inv A \<Longrightarrow> \<not> limitsReached r \<Longrightarrow>
      prefix R (attempt_records env (ra_events (serve k (buildAttemptOptions now delay r)))) \<Longrightarrow> Inv (A @ R)"
    and start: "acc r A" "delivered r = visible r0 A" "same_base r0 r" "Inv A"
    and run: "run_loop env serve cfg fuel k r (buildAttemptOptions now delay r) f = (res, r')"
  shows "\<exists>D A'. prefix D A' \<and> acc r' A' \<and> delivered r' = visible r0 D \<and> Inv D \<and> Inv A' \<and> same_base r0 r'"
  using start run
proof (induction fuel arbitrary: k r A now delay f)
  case 0
  then show ?case by auto
next
  case (Suc fuel)
  let ?opts = "buildAttemptOptions now delay r"
  let ?a = "serve k ?opts"
  show ?case
  proof (cases "limitsReached r")
    case True
    then show ?thesis using Suc.prems by auto
  next
    case False
    obtain once r1 where once: "runOnce env r ?opts (ra_answer ?a) (ra_events ?a) = (once, r1)" by fastforce
    have vis: "visible r B = visible r0 B" for B by (rule visible_same [OF Suc.prems(3)])
    obtain B C where BC: "prefix (B @ C) (attempt_records env (ra_events ?a))" "acc r1 (A @ B @ C)"
      "delivered r1 = visible r (A @ B)" "same_base r r1"
      "C \<noteq> [] \<longrightarrow> (\<exists>e. once = OnceReturns (Some e)) \<and> (\<exists>ev\<in>set (ra_events ?a). unsent ev)"
      using runOnce_acc [OF once Suc.prems(1) Suc.prems(2) [folded vis]] by blast
    have inv: "Inv (A @ B)" "Inv (A @ B @ C)"
      using step [OF Suc.prems(1,3,4) False] BC(1) append_prefixD by blast+
    have base1: "same_base r0 r1" by (rule same_base_trans [OF Suc.prems(3) BC(4)])
    have stop: ?thesis if "acc r' (A @ B @ C)" "st_recordsCh r' = st_recordsCh r1" "same_base r0 r'"
      using that BC(3) inv vis by (intro exI [of _ "A @ B"] exI [of _ "A @ B @ C"]) (simp add: delivered_def)
    show ?thesis
    proof (cases once)
      case OnceWaits
      then show ?thesis using Suc.prems(5) False once BC(2) base1 by (intro stop) (simp_all add: Let_def)
    next
      case (OnceReturns err)
      obtain nx f' r2 where nxt: "after_attempt cfg ?a (st_recordsRead r) f err r1 = (nx, f', r2)" using prod_cases3 by blast
      note fr = after_attempt_frame [OF nxt]
      have r2: "acc r2 (A @ B @ C)" "st_recordsCh r2 = st_recordsCh r1" "same_base r0 r2"
        using fr(1) [of "A @ B @ C"] BC(2) fr(3) same_base_trans [OF base1 fr(2)] by simp_all
      note go = Suc.prems(5) [simplified, unfolded Let_def once OnceReturns prod.case once_result.case nxt]
      show ?thesis
      proof (cases "C = []")
        case False
        then obtain e where "err = Some e" "ra_ctxErr ?a \<noteq> None"
          using BC(5) OnceReturns ctx by (auto simp: context_ok_def)
        then have "nx = Stops None" by (rule fr(4))
        then have "r' = r2" using go \<open>\<not> limitsReached r\<close> by simp
        then show ?thesis using r2 by (intro stop) simp_all
      next
        case True
        have ready: "acc r2 (A @ B)" "delivered r2 = visible r0 (A @ B)" "Inv (A @ B)"
          using r2 BC(3) inv True vis by (simp_all add: delivered_def)
        show ?thesis
        proof (cases nx)
          case (Stops e)
          then show ?thesis using go \<open>\<not> limitsReached r\<close> r2 by (intro stop) simp_all
        next
          case Panics
          then show ?thesis using go \<open>\<not> limitsReached r\<close> r2 by (intro stop) simp_all
        next
          case Reconnects
          then show ?thesis
            using Suc.IH [OF ready(1,2) r2(3) ready(3)] go \<open>\<not> limitsReached r\<close> by simp
        next
          case (BacksOff d)
          show ?thesis
          proof (cases "ra_waitErr ?a d")
            case None
            then show ?thesis
              using Suc.IH [OF ready(1,2) r2(3) ready(3)] go \<open>\<not> limitsReached r\<close> BacksOff by simp
          next
            case (Some e)
            then show ?thesis using go \<open>\<not> limitsReached r\<close> r2 BacksOff by (intro stop) simp_all
          qed
        qed
      qed
    qed
  qed
qed

lemma new_reader_acc: "acc (newStreamReader s opts) []" "delivered (newStreamReader s opts) = []"
    "st_baseOpts (newStreamReader s opts) = opts"
  by (simp_all add: newStreamReader_def acc_def delivered_def Let_def)

lemma run_finish_frame: "acc (run_finish e r) A = acc r A" "same_base r (run_finish e r)"
    "delivered (run_finish e r) = delivered r"
  by (simp_all add: run_finish_def Let_def acc_def same_base_def delivered_def upd_caughtUp_def split: option.splits)

lemma run_keeps:
  assumes "context_ok serve"
    and "\<And>k r A now delay R. acc r A \<Longrightarrow> same_base (newStreamReader s opts) r \<Longrightarrow> Inv A \<Longrightarrow> \<not> limitsReached r \<Longrightarrow>
      prefix R (attempt_records env (ra_events (serve k (buildAttemptOptions now delay r)))) \<Longrightarrow> Inv (A @ R)"
    and "Inv []" "run env serve now fuel (newStreamReader s opts) = (res, r')"
  shows "\<exists>D A'. prefix D A' \<and> acc r' A' \<and> delivered r' = visible (newStreamReader s opts) D \<and> Inv D \<and> Inv A'"
proof -
  let ?r = "newStreamReader s opts"
  let ?cfg = "case st_retryConfig ?r of Some c \<Rightarrow> c | None \<Rightarrow> DefaultRetryConfig"
  obtain res1 r1 where loop: "run_loop env serve ?cfg fuel 0 ?r (buildAttemptOptions now 0 ?r) 0 = (res1, r1)" by fastforce
  have "\<exists>D A'. prefix D A' \<and> acc r1 A' \<and> delivered r1 = visible ?r D \<and> Inv D \<and> Inv A' \<and> same_base ?r r1"
    by (rule run_loop_keeps [where A = "[]" and ?r0.0 = ?r and Inv = Inv, OF assms(1,2) _ _ _ assms(3) loop])
       (auto simp: new_reader_acc)
  moreover have "r' = r1 \<or> (\<exists>e. r' = run_finish e r1)"
    using assms(4) loop by (auto simp: run_def Let_def split: run_end.splits)
  ultimately show ?thesis by (metis run_finish_frame(1,3))
qed

section \<open>Properties\<close>

text \<open>C12: Over all the attempts of a read session, however often it reconnects, the records put on the channel are
  one gapless piece of the stream in order: from the requested sequence number on when one was given,
  with no record lost, repeated or reordered, and with the command records left out exactly when the
  caller asked to ignore them.\<close>

theorem read_no_gaps:
  assumes "honest_server_reads env log serve" "context_ok serve" "increasing log"
    "run env serve now fuel (newStreamReader s opts) = (res, r')"
  shows "\<exists>A. served log (start_of opts) A \<and>
    delivered r' = (if ignores (newStreamReader s opts) then filter (\<lambda>x. \<not> IsCommandRecord x) A else A)"
proof -
  have "\<exists>D A'. prefix D A' \<and> acc r' A' \<and> delivered r' = visible (newStreamReader s opts) D \<and>
      served log (start_of opts) D \<and> served log (start_of opts) A'"
  proof (rule run_keeps [OF assms(2) _ _ assms(4)])
    show "served log (start_of opts) []" by (simp add: served_def split: option.split)
    fix k r A now delay R
    assume A: "acc r A" "same_base (newStreamReader s opts) r" "served log (start_of opts) A"
      and R: "prefix R (attempt_records env (ra_events (serve k (buildAttemptOptions now delay r))))"
    have "served log (start_of (buildAttemptOptions now delay r)) R"
      using assms(1) served_prefix [OF R] by (simp add: honest_server_reads_def)
    then show "served log (start_of opts) (A @ R)"
      using attempt_start [OF A(1), of now delay] A served_extend [OF assms(3) A(3)]
      by (cases "A = []") (simp_all add: same_base_def new_reader_acc)
  qed
  then show ?thesis by (auto simp: visible_def)
qed

section \<open>The limits of the caller\<close>

definition bytes_total :: "SequencedRecord list \<Rightarrow> nat" where
  "bytes_total A = sum_list (map (\<lambda>x. unat (MeteredSequencedRecordBytes x)) A)"

definition within :: "ReadOptions option \<Rightarrow> SequencedRecord list \<Rightarrow> bool" where
  "within opts A = (case opts of None \<Rightarrow> True | Some o' \<Rightarrow>
     (case ro_Count o' of Some c \<Rightarrow> length A \<le> unat c | None \<Rightarrow> True) \<and>
     (case ro_Bytes o' of Some b \<Rightarrow> bytes_total A \<le> unat b | None \<Rightarrow> True))"

definition honours_limits :: "read_env \<Rightarrow> (nat \<Rightarrow> ReadOptions option \<Rightarrow> read_attempt) \<Rightarrow> bool" where
  "honours_limits env serve \<longleftrightarrow> (\<forall>k opts. within opts (attempt_records env (ra_events (serve k opts))))"

lemma metered_sum_total: "metered_sum A = word_of_nat (bytes_total A)"
proof (induction A)
  case (Cons x A)
  have "metered_sum (x # A) = MeteredSequencedRecordBytes x + metered_sum A"
    using metered_sum_append [of "[x]" A] by (simp add: metered_sum_def)
  then show ?case using Cons by (simp add: bytes_total_def)
qed (simp add: bytes_total_def)

lemma bytes_total_append [simp]: "bytes_total (A @ B) = bytes_total A + bytes_total B"
  by (simp add: bytes_total_def)

lemma within_prefix: "prefix R A \<Longrightarrow> within opts A \<Longrightarrow> within opts R"
  by (auto simp: within_def prefix_def split: option.splits)

lemma attempt_limits:
  assumes "st_baseOpts r = Some base" "ro_Count base \<noteq> None \<or> ro_Bytes base \<noteq> None"
  obtains w where "buildAttemptOptions now d r = Some w"
    "ro_Count w = map_option (\<lambda>c. remaining c (st_recordsRead r)) (ro_Count base)"
    "ro_Bytes w = map_option (\<lambda>b. remaining b (st_bytesRead r)) (ro_Bytes base)"
proof -
  define w where "w = limit_options now d r base
    (if st_hasNextSeq r then base\<lparr>ro_SeqNum := Some (st_nextSeq r), ro_Timestamp := None, ro_TailOffset := None\<rparr> else base)"
  have lim: "ro_Count w = map_option (\<lambda>c. remaining c (st_recordsRead r)) (ro_Count base)"
    "ro_Bytes w = map_option (\<lambda>b. remaining b (st_bytesRead r)) (ro_Bytes base)"
    by (simp_all add: w_def limit_options_def Let_def split: option.split)
  moreover have "buildAttemptOptions now d r = Some w"
    using assms(1) lim assms(2) by (auto simp: buildAttemptOptions_def Let_def w_def [symmetric] no_options_def)
  ultimately show ?thesis using that by blast
qed

text \<open>What is left of a limit after \<open>n\<close> of it are used.\<close>

lemma remaining_nat:
  assumes "n \<le> unat c" "\<not> word_of_nat n \<ge> c"
  shows "n + unat (remaining c (word_of_nat n)) = unat c"
proof -
  have "unat c < 18446744073709551616" using unsigned_less [of c] by simp
  then have "unat (word_of_nat n :: u64) = n" using assms(1) by (simp add: unat_of_nat)
  then show ?thesis using assms(1) by (simp add: remaining_def word_le_nat_alt unat_sub)
qed

lemma within_extend:
  assumes "acc r A" "within (st_baseOpts r) A" "\<not> limitsReached r" "within (buildAttemptOptions now d r) R"
  shows "within (st_baseOpts r) (A @ R)"
proof (cases "st_baseOpts r")
  case (Some base)
  show ?thesis
  proof (cases "ro_Count base \<noteq> None \<or> ro_Bytes base \<noteq> None")
    case True
    obtain w where w: "buildAttemptOptions now d r = Some w"
      "ro_Count w = map_option (\<lambda>c. remaining c (st_recordsRead r)) (ro_Count base)"
      "ro_Bytes w = map_option (\<lambda>b. remaining b (st_bytesRead r)) (ro_Bytes base)"
      by (rule attempt_limits [OF Some True])
    have "length A + length R \<le> unat c" if "ro_Count base = Some c" for c
      using remaining_nat [of "length A" c] that assms w Some by (simp add: within_def limitsReached_def acc_def)
    moreover have "bytes_total A + bytes_total R \<le> unat b" if "ro_Bytes base = Some b" for b
      using remaining_nat [of "bytes_total A" b] that assms w Some
      by (simp add: within_def limitsReached_def acc_def metered_sum_total)
    ultimately show ?thesis using Some by (simp add: within_def split: option.split)
  qed (use Some in \<open>simp add: within_def split: option.split\<close>)
qed (simp add: within_def)

lemma within_mono: "length B \<le> length A \<Longrightarrow> bytes_total B \<le> bytes_total A \<Longrightarrow> within opts A \<Longrightarrow> within opts B"
  by (auto simp: within_def split: option.splits)

lemma within_visible: "within opts D \<Longrightarrow> within opts (visible r D)"
proof (rule within_mono [of "visible r D" D])
  have "bytes_total (filter P D) \<le> bytes_total D" for P by (induction D) (simp_all add: bytes_total_def)
  then show "bytes_total (visible r D) \<le> bytes_total D" by (simp add: visible_def)
qed (simp_all add: visible_def)

text \<open>C13: The record and byte limits of the caller bound the whole session, not each attempt: against a server that
  honours the limits of each request, no number of reconnects makes the session deliver more records or
  more metered bytes than the caller asked for.\<close>

theorem read_limits:
  assumes "honours_limits env serve" "context_ok serve" "run env serve now fuel (newStreamReader s opts) = (res, r')"
  shows "within opts (delivered r')"
proof -
  have "\<exists>D A'. prefix D A' \<and> acc r' A' \<and> delivered r' = visible (newStreamReader s opts) D \<and> within opts D \<and> within opts A'"
  proof (rule run_keeps [OF assms(2) _ _ assms(3)])
    show "within opts []" by (simp add: within_def bytes_total_def split: option.split)
    fix k r A now delay R
    assume A: "acc r A" "same_base (newStreamReader s opts) r" "within opts A" "\<not> limitsReached r"
      and R: "prefix R (attempt_records env (ra_events (serve k (buildAttemptOptions now delay r))))"
    have "within (buildAttemptOptions now delay r) R"
      using within_prefix [OF R] assms(1) by (simp add: honours_limits_def)
    moreover have "st_baseOpts r = opts" using A(2) by (simp add: same_base_def new_reader_acc)
    ultimately show "within opts (A @ R)" using within_extend [OF A(1) _ A(4)] A(3) by metis
  qed
  then show ?thesis using within_visible by auto
qed

section \<open>Giving up\<close>

text \<open>What the attempts do to the caught-up state are steps of it, and they report no error.\<close>

definition steady :: "streamReader \<Rightarrow> streamReader \<Rightarrow> bool" where
  "steady r r' \<longleftrightarrow> st_errorCh r' = st_errorCh r \<and> cu_nextFuture (st_caughtUp r') = cu_nextFuture (st_caughtUp r) \<and>
     steps caught_up_step (st_caughtUp r) (st_caughtUp r')"

lemma steady_refl [simp, intro]: "steady r r"
  by (simp add: steady_def steps_refl)

lemma steps_compose: "steps step b c \<Longrightarrow> steps step a b \<Longrightarrow> steps step a c"
  by (induction rule: steps.induct) (auto intro: steps_trans)

lemma steady_trans: "steady a b \<Longrightarrow> steady b c \<Longrightarrow> steady a c"
  by (auto simp: steady_def intro: steps_compose)

lemma steady_same: "st_errorCh r' = st_errorCh r \<Longrightarrow> st_caughtUp r' = st_caughtUp r \<Longrightarrow> steady r r'"
  by (simp add: steady_def steps_refl)

lemma fold_settle_future [simp]:
  "cu_nextFuture (fold (settle x) fs c) = cu_nextFuture c" "cu_terminalErr (fold (settle x) fs c) = cu_terminalErr c"
  by (induction fs arbitrary: c) (simp_all add: settle_def)

lemma end_future [simp]: "cu_nextFuture (end_caughtUp e c) = cu_nextFuture c" "cu_terminalErr (end_caughtUp e c) \<noteq> None"
  by (simp_all add: end_caughtUp_def Let_def split: option.split)

lemma steady_upd [simp]:
  "steady r (upd_caughtUp setBehind r)" "steady r (upd_caughtUp (end_caughtUp e) r)"
proof -
  have one: "caught_up_step c c' \<Longrightarrow> steps caught_up_step c c'" for c c' by (rule steps_trans [OF steps_refl])
  show "steady r (upd_caughtUp setBehind r)" using one [OF cu_behind] by (simp add: steady_def upd_caughtUp_def) (simp add: setBehind_def)
  show "steady r (upd_caughtUp (end_caughtUp e) r)" using one [OF cu_end] by (simp add: steady_def upd_caughtUp_def)
qed

lemma handle_batch_steady: "handle_batch b now r = (d, r') \<Longrightarrow> steady r r'"
proof -
  assume h: "handle_batch b now r = (d, r')"
  obtain b' r1 where ab: "account_batch b (observe_tail b now r) = (b', r1)" by fastforce
  have "st_errorCh r1 = st_errorCh r \<and> st_caughtUp r1 = st_caughtUp r"
    using ab by (auto simp: account_batch_def observe_tail_def advanceState_def Let_def split: if_splits option.splits)
  then have "steady r r1" by (simp add: steady_same)
  moreover have "r' = r1 \<or> r' = upd_caughtUp setBehind r1" using h ab by (auto simp: handle_batch_def Let_def)
  ultimately show ?thesis using steady_trans steady_upd(1) by blast
qed

lemma handle_read_frame_steady: "handle_read_frame env f now r = (res, r') \<Longrightarrow> steady r r'"
proof -
  have "steady q (poison_reader q)" for q by (rule steady_same) (simp_all add: poison_reader_def)
  then show "handle_read_frame env f now r = (res, r') \<Longrightarrow> steady r r'"
    by (auto simp: handle_read_frame_def Let_def dest: handle_batch_steady split: sum.splits option.splits if_splits prod.splits)
qed

lemma sendDelivery_steady: "sendDelivery r d out = (e, r') \<Longrightarrow> steady r r'"
  by (auto simp: sendDelivery_def Let_def intro: steady_same split: send_outcome.splits if_splits)

lemma take_advice_steady: "take_advice f declined now r = (res, r') \<Longrightarrow> steady r r'"
  by (auto simp: take_advice_def Let_def poison_reader_def intro: steady_same split: if_splits)

lemma runOnce_loop_steady: "runOnce_loop env r declined evs = (res, r') \<Longrightarrow> steady r r'"
proof (induction env r declined evs rule: runOnce_loop.induct)
  case (5 env r declined f now out later evs)
  obtain hres r1 where h: "handle_read_frame env f now r = (hres, r1)" by fastforce
  note s1 = handle_read_frame_steady [OF h]
  show ?case
  proof (cases hres)
    case (Inl x)
    then show ?thesis using "5.prems" h s1 by simp
  next
    case (Inr d)
    obtain e r2 where sent: "(case d of None \<Rightarrow> (None, r1) | Some d \<Rightarrow> sendDelivery r1 d out) = (e, r2)" by fastforce
    then have s2: "steady r r2" using steady_trans [OF s1] sendDelivery_steady s1 by (cases d) auto
    show ?thesis
    proof (cases e)
      case (Some err)
      then show ?thesis using "5.prems" h Inr sent s2 by simp
    next
      case None
      obtain adv r3 where ad: "take_advice f declined later r2 = (adv, r3)" by fastforce
      have s3: "steady r r3" by (rule steady_trans [OF s2 take_advice_steady [OF ad]])
      show ?thesis
      proof (cases adv)
        case (Inl err)
        then show ?thesis using "5.prems" h Inr sent None ad s3 by simp
      next
        case adv: (Inr declined')
        have "runOnce_loop env r3 declined' evs = (res, r')" using "5.prems" h Inr sent None ad adv by simp
        from steady_trans [OF s3 "5.IH" [OF h [symmetric] Inr sent [symmetric] None ad [symmetric] adv this]] show ?thesis .
      qed
    qed
  qed
qed auto

lemma runOnce_steady:
  assumes "runOnce env r opts answer evs = (res, r')"
  shows "steady r r'"
proof -
  have set: "steady r q \<Longrightarrow> steady r (q\<lparr>st_poisoned := b\<rparr>)" "steady r q \<Longrightarrow> steady r (q\<lparr>st_requests := w\<rparr>)"
    "steady r q \<Longrightarrow> steady r (q\<lparr>st_respBody := b\<rparr>)" "steady r q \<Longrightarrow> steady r (poison_reader q)" for q b w
    by (simp_all add: steady_def poison_reader_def)
  have "steady r q'" if "steady r q" "runOnce_loop env q d evs = (x, q')" for q d x q'
    using steady_trans [OF that(1) runOnce_loop_steady [OF that(2)]] .
  then show ?thesis using assms
    by (auto simp: runOnce_def Let_def intro!: set split: sum.splits if_splits prod.splits once_result.splits)
      (metis set steady_refl)+
qed

lemma after_attempt_steady: "after_attempt cfg a n f err r = (nx, f', r') \<Longrightarrow> steady r r'"
proof -
  have "steady q (upd_caughtUp g q\<lparr>st_advisedReconnects := w\<rparr>)" "steady q (upd_caughtUp g (q\<lparr>st_advisedReconnects := w\<rparr>))"
    if "steady q (upd_caughtUp g q)" for q g w
    using that by (simp_all add: steady_def upd_caughtUp_def)
  then show "after_attempt cfg a n f err r = (nx, f', r') \<Longrightarrow> steady r r'"
    by (auto simp: after_attempt_def Let_def split: option.splits if_splits)
qed

text \<open>Every attempt returns, and from attempt \<open>n\<close> on it brings no records and what ends it is no advice to reconnect and
  no server that drains; both of these are followed without being counted.\<close>

definition fruitless :: "nat \<Rightarrow> read_env \<Rightarrow> (nat \<Rightarrow> ReadOptions option \<Rightarrow> read_attempt) \<Rightarrow> bool" where
  "fruitless n env serve \<longleftrightarrow> (\<forall>k opts r. \<exists>err r'.
     runOnce env r opts (ra_answer (serve k opts)) (ra_events (serve k opts)) = (OnceReturns err, r') \<and>
     (n \<le> k \<longrightarrow> (\<forall>e. err = Some e \<longrightarrow>
        st_recordsRead r' = st_recordsRead r \<and> \<not> errors_Is e ErrReconnectAdvised \<and> \<not> isServerDraining e)))"

text \<open>The count of failures after an attempt: below the maximum if the loop goes on, and one more for a fruitless one.\<close>

lemma attempt_count:
  assumes "after_attempt cfg a n f err r = (nx, f', r')" "0 \<le> f" "f < clamp_attempts cfg"
  shows "nx \<noteq> Panics" "nx = Reconnects \<or> nx = BacksOff d \<Longrightarrow> 0 \<le> f' \<and> f' < clamp_attempts cfg"
    "nx = Reconnects \<or> nx = BacksOff d \<Longrightarrow> \<forall>e. err = Some e \<longrightarrow>
      st_recordsRead r = n \<and> \<not> errors_Is e ErrReconnectAdvised \<and> \<not> isServerDraining e \<Longrightarrow> f' = f + 1"
proof -
  have none: "calculateRetryBackoff g cfg m = None \<Longrightarrow> False" for g m using calculateRetryBackoff_Some by (metis option.distinct(1))
  then show "nx \<noteq> Panics" using assms(1) by (auto simp: after_attempt_def Let_def dest: none split: option.splits if_splits)
  show "nx = Reconnects \<or> nx = BacksOff d \<Longrightarrow> 0 \<le> f' \<and> f' < clamp_attempts cfg"
    using assms by (auto simp: after_attempt_def Let_def split: option.splits if_splits)
  show "nx = Reconnects \<or> nx = BacksOff d \<Longrightarrow> \<forall>e. err = Some e \<longrightarrow>
      st_recordsRead r = n \<and> \<not> errors_Is e ErrReconnectAdvised \<and> \<not> isServerDraining e \<Longrightarrow> f' = f + 1"
    using assms(1) by (auto simp: after_attempt_def Let_def split: option.splits if_splits)
qed

lemma run_loop_gives_up:
  assumes "fruitless n env serve"
  shows "0 \<le> f \<Longrightarrow> f < clamp_attempts cfg \<Longrightarrow>
    (if k < n then int (n - k) + clamp_attempts cfg else clamp_attempts cfg - f) \<le> int fuel \<Longrightarrow>
    \<exists>e r'. run_loop env serve cfg fuel k r opts f = (RunEnds e, r') \<and> steady r r'"
proof (induction fuel arbitrary: k r opts f)
  case (Suc fuel)
  show ?case
  proof (cases "limitsReached r")
    case False
    let ?a = "serve k opts"
    obtain err r1 where once: "runOnce env r opts (ra_answer ?a) (ra_events ?a) = (OnceReturns err, r1)"
      and err: "n \<le> k \<Longrightarrow> \<forall>e. err = Some e \<longrightarrow>
        st_recordsRead r1 = st_recordsRead r \<and> \<not> errors_Is e ErrReconnectAdvised \<and> \<not> isServerDraining e"
      using assms unfolding fruitless_def by blast
    obtain nx f' r2 where nxt: "after_attempt cfg ?a (st_recordsRead r) f err r1 = (nx, f', r2)" using prod_cases3 by blast
    have s: "steady r r2" by (rule steady_trans [OF runOnce_steady [OF once] after_attempt_steady [OF nxt]])
    note count = attempt_count [OF nxt Suc.prems(1,2)]
    have go: "\<exists>e r'. run_loop env serve cfg fuel (k + 1) r2 opts' f' = (RunEnds e, r') \<and> steady r r'"
      if "nx = Reconnects \<or> nx = BacksOff d" for d opts'
    proof -
      have f': "0 \<le> f' \<and> f' < clamp_attempts cfg" by (rule count(2) [OF that])
      have "f' = f + 1" if "n \<le> k" using count(3) [OF \<open>nx = Reconnects \<or> nx = BacksOff d\<close> err [OF that]] .
      then have "(if k + 1 < n then int (n - (k + 1)) + clamp_attempts cfg else clamp_attempts cfg - f') \<le> int fuel"
        using Suc.prems(3) f' by (auto split: if_splits)
      from Suc.IH [OF _ _ this, of r2 opts'] f' show ?thesis using steady_trans [OF s] by blast
    qed
    show ?thesis
    proof (cases nx)
      case (Stops e)
      then show ?thesis using False once nxt s by (simp add: Let_def)
    next
      case Panics
      with count(1) show ?thesis by simp
    next
      case Reconnects
      then show ?thesis using go [of 0] False once nxt by (simp add: Let_def)
    next
      case (BacksOff d)
      then show ?thesis using go [of d] False once nxt s by (cases "ra_waitErr ?a d") (simp_all add: Let_def)
    qed
  qed auto
qed (auto split: if_splits)


section \<open>The wait budget\<close>

lemma sdiv_nonneg: "0 \<le> (a :: int) \<Longrightarrow> 0 < b \<Longrightarrow> a sdiv b = a div b"
  by (simp add: signed_divide_int_def sgn_if)

text \<open>The duration a reconnect asks the server to wait is what is left of the caller's: the whole of it while
  no tail was seen, afterwards the duration less the whole seconds since the tail was last seen and of
  the planned backoff, never negative and never more than what the caller asked for.\<close>

theorem wait_budget_exact:
  assumes "0 \<le> wait" "wait < 2 ^ 31" "lastTailAt \<noteq> 0 \<Longrightarrow> lastTailAt \<le> now" "0 \<le> delay"
    "now - lastTailAt + delay < 2 ^ 31 * time_Second"
  shows "waitBudget now delay lastTailAt wait =
      (if lastTailAt = 0 then wait else max 0 (wait - (now - lastTailAt + delay) div time_Second)) \<and>
    0 \<le> waitBudget now delay lastTailAt wait \<and> waitBudget now delay lastTailAt wait \<le> wait"
proof (cases "lastTailAt = 0")
  case True
  with assms(1) show ?thesis by (simp add: waitBudget_def time_IsZero_def)
next
  case False
  let ?e = "now - lastTailAt + delay"
  have e: "0 \<le> ?e" "?e < 2 ^ 31 * 1000000000" using assms(3-5) False by (simp_all add: time_Second_def)
  have since: "time_Since now lastTailAt = now - lastTailAt" using assms(3,4) e False by (simp add: time_Since_def)
  have secs: "0 \<le> ?e div 1000000000" "?e div 1000000000 < 2 ^ 31" using e by simp_all
  have small: "i32 x = x" if "0 \<le> x" "x < 2 ^ 31" for x using that by (simp add: i32_def)
  have "i32 (i64 (time_Since now lastTailAt + delay) sdiv time_Second) = ?e div time_Second"
    using e secs by (simp add: since time_Second_def sdiv_nonneg small)
  then have "waitBudget now delay lastTailAt wait =
      (if wait \<le> ?e div time_Second then 0 else i32 (wait - ?e div time_Second))"
    using False by (simp add: waitBudget_def time_IsZero_def Let_def)
  moreover have "\<not> wait \<le> ?e div time_Second \<Longrightarrow> i32 (wait - ?e div time_Second) = wait - ?e div time_Second"
    using secs assms(2) by (intro small) (simp_all add: time_Second_def)
  ultimately show ?thesis using False secs assms(1) by (auto simp: time_Second_def)
qed

section \<open>A concrete session\<close>

text \<open>A stream of three records whose server sends one record per attempt and then falls silent.\<close>

definition demo_record :: "byte \<Rightarrow> SequencedRecord" where
  "demo_record n = \<lparr>sr_Body = [], sr_Headers = [], sr_SeqNum = ucast n, sr_Timestamp = 0\<rparr>"

definition demo_unmarshal :: "byte list \<Rightarrow> goerr + pb_ReadBatch" where
  "demo_unmarshal body = (case body of
     [] \<Rightarrow> Inl (OpaqueError ''proto: empty message'')
   | t # ns \<Rightarrow> Inr \<lparr>pbb_Records = map (\<lambda>n. \<lparr>pbs_SeqNum = ucast n, pbs_Timestamp = 0, pbs_Headers = [], pbs_Body = []\<rparr>) ns,
       pbb_Tail = (if t = 0 then None else Some \<lparr>pbp_SeqNum = ucast t, pbp_Timestamp = 0\<rparr>)\<rparr>)"

definition demo_env :: read_env where
  "demo_env = \<lparr>rv_http = echo_env, rv_unmarshal = demo_unmarshal\<rparr>"

definition demo_frame :: "byte \<Rightarrow> byte list \<Rightarrow> once_event" where
  "demo_frame t ns = OnceFrame (Inr \<lparr>f_Terminal = False, f_Compression = CompressionNone, f_StatusCode = None,
     f_Body = t # ns, f_ReconnectAdvised = False\<rparr>) 1 Delivered 1"

definition demo_attempt :: "once_event list \<Rightarrow> read_attempt" where
  "demo_attempt evs = \<lparr>ra_answer = Inr \<lparr>rs_StatusCode = 200, rs_Header = [], rs_Body = [], rs_BodyErr = None\<rparr>,
     ra_events = evs @ [OnceWatchdog], ra_ctxErr = None, ra_ctxRetry = None, ra_ctxLast = None, ra_now = 2, ra_since = 3,
     ra_rnd = (\<lambda>n. 0), ra_waitErr = (\<lambda>_. None)\<rparr>"

definition demo_stream :: "byte list" where "demo_stream = [5, 6, 7]"
definition demo_log :: "SequencedRecord list" where "demo_log = map demo_record demo_stream"

definition demo_next :: "ReadOptions option \<Rightarrow> byte list" where
  "demo_next opts = (let ns = take 1 (case start_of opts of
        Some n \<Rightarrow> filter (\<lambda>b. n \<le> ucast b) demo_stream | None \<Rightarrow> demo_stream)
     in if within opts (map demo_record ns) then ns else [])"

definition demo_serve :: "nat \<Rightarrow> ReadOptions option \<Rightarrow> read_attempt" where
  "demo_serve k opts = demo_attempt [demo_frame 0 (demo_next opts)]"

definition demo_client :: StreamClient where
  "demo_client = \<lparr>sc_name = ''s'', sc_basinClient = \<lparr>bc_name = ''basin'', bc_baseURL = ''u'', bc_accessToken = ''t'',
     bc_retryConfig = None, bc_includeBasinHeader = False, bc_compression = CompressionNone\<rparr>, sc_encryptionKey = None\<rparr>"

definition demo_opts :: ReadOptions where
  "demo_opts = empty_ReadOptions\<lparr>ro_SeqNum := Some 6, ro_Count := Some 2\<rparr>"

definition demo_end :: "run_end \<times> streamReader" where
  "demo_end = run demo_env demo_serve 1 3 (newStreamReader demo_client (Some demo_opts))"

lemma demo_records: "attempt_records demo_env (ra_events (demo_serve k opts)) = map demo_record (demo_next opts)"
  by (simp add: attempt_records_def demo_serve_def demo_attempt_def demo_frame_def event_records_def demo_env_def echo_env_def
      DecompressedBody_def parseReadBatch_def demo_unmarshal_def convertPbReadBatch_def convertPbSequencedRecord_def
      demo_record_def comp_def)

lemma demo_honest: "honest_server_reads demo_env demo_log demo_serve"
proof -
  have pre: "prefix (demo_next opts) (case start_of opts of
        Some n \<Rightarrow> filter (\<lambda>b. n \<le> ucast b) demo_stream | None \<Rightarrow> demo_stream)" for opts
    by (simp add: demo_next_def Let_def take_is_prefix)
  have fil: "filter (\<lambda>x. n \<le> sr_SeqNum x) demo_log = map demo_record (filter (\<lambda>b. n \<le> ucast b) demo_stream)" for n
    by (simp add: demo_log_def filter_map comp_def demo_record_def)
  have "served demo_log (start_of opts) (map demo_record (demo_next opts))" for opts
  proof (cases "start_of opts")
    case None
    then have "prefix (map demo_record (demo_next opts)) (drop 0 demo_log)"
      using pre [of opts] by (simp add: demo_log_def map_mono_prefix)
    then have "\<exists>m. prefix (map demo_record (demo_next opts)) (drop m demo_log)" by blast
    then show ?thesis using None by (simp add: served_def)
  next
    case (Some n)
    then show ?thesis using pre [of opts] by (simp add: served_def fil map_mono_prefix)
  qed
  then show ?thesis by (simp add: honest_server_reads_def demo_records)
qed

lemma demo_limits: "honours_limits demo_env demo_serve"
proof -
  have "within opts []" for opts by (simp add: within_def bytes_total_def split: option.split)
  then show ?thesis by (simp add: honours_limits_def demo_records demo_next_def Let_def)
qed

lemma demo_context: "context_ok demo_serve"
  by (simp add: context_ok_def demo_serve_def demo_attempt_def demo_frame_def)

lemma demo_increasing: "increasing demo_log"
  by (simp add: increasing_def demo_log_def demo_stream_def demo_record_def)

lemma demo_delivered: "delivered (snd demo_end) = [demo_record 6, demo_record 7]"
  by code_simp

lemma demo_run: "run demo_env demo_serve 1 3 (newStreamReader demo_client (Some demo_opts)) = (fst demo_end, snd demo_end)"
  by (simp add: demo_end_def)

theorem read_no_gaps_witness:
  "delivered (snd demo_end) = [demo_record 6, demo_record 7] \<and>
    (\<exists>A. served demo_log (Some 6) A \<and> delivered (snd demo_end) = A)"
proof -
  have "ignores (newStreamReader demo_client (Some demo_opts)) = False" "start_of (Some demo_opts) = Some 6"
    by (simp_all add: ignores_def newStreamReader_def Let_def demo_opts_def empty_ReadOptions_def start_of_def)
  then show ?thesis
    using read_no_gaps [OF demo_honest demo_context demo_increasing demo_run] by (simp add: demo_delivered)
qed

theorem read_limits_witness: "within (Some demo_opts) (delivered (snd demo_end)) \<and> length (delivered (snd demo_end)) = 2"
  using read_limits [OF demo_limits demo_context demo_run] by (simp add: demo_delivered)

definition refused_serve :: "nat \<Rightarrow> ReadOptions option \<Rightarrow> read_attempt" where
  "refused_serve k opts = (demo_attempt [])\<lparr>ra_answer := Inl (NetError ''connection refused'')\<rparr>"

lemma demo_request: "\<exists>q. read_request demo_env s opts = Inr q"
  by (simp add: read_request_def read_headers_def demo_env_def echo_env_def Let_def setStreamConfigHeader_def split: option.split)

lemma refused_fruitless: "fruitless 0 demo_env refused_serve"
proof -
  have "read_request demo_env s opts \<noteq> Inl e" for s opts e using demo_request by (metis sum.distinct(1))
  moreover have "\<not> isStreamResetError (NetError m)" "\<not> errors_Is (errorf_w p (NetError m)) ErrReconnectAdvised"
    "\<not> isServerDraining (errorf_w p (NetError m))" for m p
    by (simp_all add: isStreamResetError_def errors_Is_def errorf_w_def isServerDraining_def errors_As_S2Error_def chain_find_def)
  ultimately have "\<exists>err r'. runOnce demo_env r opts (Inl (NetError m)) evs = (OnceReturns err, r') \<and> (\<forall>e. err = Some e \<longrightarrow>
      st_recordsRead r' = st_recordsRead r \<and> \<not> errors_Is e ErrReconnectAdvised \<and> \<not> isServerDraining e)" for r opts m evs
    by (auto simp: runOnce_def Let_def split: sum.split)
  then show ?thesis by (simp add: fruitless_def refused_serve_def demo_attempt_def)
qed

text \<open>A consumer waits for the session to catch up when it gives up.\<close>

definition waiting_reader :: streamReader where
  "waiting_reader = (newStreamReader demo_client None)\<lparr>st_caughtUp := snd (newFuture new_caughtUp)\<rparr>"


theorem wait_budget_exact_witness: "waitBudget (12 * time_Second) (time_Second div 2) time_Second 60 = 49"
  using wait_budget_exact [of 60 time_Second "12 * time_Second" "time_Second div 2"]
  by (simp add: time_Second_def)

definition tail_opts :: ReadOptions where
  "tail_opts = empty_ReadOptions\<lparr>ro_TailOffset := Some 0\<rparr>"

text \<open>A server with a log: record \<open>i\<close> has the sequence number \<open>i\<close>.  When attempt 0 connects the log holds the records
  below \<open>n0\<close>, when attempt 1 connects those below \<open>n1\<close>, and those below \<open>n2\<close> when it answers.  The server
  resolves the requested start against the log it has when the request arrives, sends the records from there on with
  the tail of the log, and then falls silent.\<close>

definition resolve_start :: "ReadOptions option \<Rightarrow> nat \<Rightarrow> nat" where
  "resolve_start opts held = (case opts of None \<Rightarrow> 0 | Some o' \<Rightarrow>
     (case ro_SeqNum o' of Some n \<Rightarrow> unat n
      | None \<Rightarrow> (case ro_TailOffset o' of Some k \<Rightarrow> nat (int held - k) | None \<Rightarrow> 0)))"

definition log_serve :: "nat \<Rightarrow> nat \<Rightarrow> nat \<Rightarrow> nat \<Rightarrow> ReadOptions option \<Rightarrow> read_attempt" where
  "log_serve n0 n1 n2 k opts =
     (let (at_request, at_answer) = (if k = 0 then (n0, n0) else (n1, n2))
      in demo_attempt [demo_frame (word_of_nat at_answer) (map word_of_nat [resolve_start opts at_request..<at_answer])])"

definition log_batch :: "nat \<Rightarrow> nat \<Rightarrow> ReadBatch" where
  "log_batch i n = \<lparr>rb_Records = map (demo_record \<circ> word_of_nat) [i..<n],
     rb_Tail = Some \<lparr>sp_SeqNum = word_of_nat n, sp_Timestamp = 0\<rparr>\<rparr>"

lemma byte_u64: "n < 256 \<Longrightarrow> (ucast (word_of_nat n :: byte) :: u64) = word_of_nat n"
  by (intro word_unat_eq_iff [THEN iffD2]) (simp add: unat_of_nat unsigned_ucast_eq take_bit_nat_eq_self_iff)

lemma log_batch_facts:
  assumes "n < 256"
  shows "readBatchCaughtUp (log_batch i n)" "next_position (log_batch i n) = Some \<lparr>sp_SeqNum = word_of_nat n, sp_Timestamp = 0\<rparr>"
proof -
  have "position_after (last (rb_Records (log_batch i n))) = \<lparr>sp_SeqNum = word_of_nat n, sp_Timestamp = 0\<rparr>" if "i < n"
  proof -
    have "last (rb_Records (log_batch i n)) = demo_record (word_of_nat (n - 1))"
      using that by (simp add: log_batch_def last_map comp_def)
    moreover have "(ucast (word_of_nat (n - 1) :: byte) :: u64) + 1 = word_of_nat n"
      unfolding byte_u64 [of "n - 1", OF less_imp_diff_less [OF assms]] using that by (simp add: of_nat_diff)
    ultimately show ?thesis by (simp add: position_after_def demo_record_def)
  qed
  then show "readBatchCaughtUp (log_batch i n)" "next_position (log_batch i n) = Some \<lparr>sp_SeqNum = word_of_nat n, sp_Timestamp = 0\<rparr>"
    by (cases "i < n"; simp add: readBatchCaughtUp_def next_position_def log_batch_def position_after_def)+
qed

lemma log_frame:
  assumes "0 < n" "n < 256"
  shows "handle_read_frame demo_env \<lparr>f_Terminal = False, f_Compression = CompressionNone, f_StatusCode = None,
     f_Body = word_of_nat n # map word_of_nat [i..<n], f_ReconnectAdvised = False\<rparr> now r =
    (case handle_batch (log_batch i n) now r of (d, r) \<Rightarrow> (Inr d, r))"
proof -
  have u: "unat (word_of_nat n :: byte) = n" using assms by (simp add: unat_of_nat)
  then have "(word_of_nat n :: byte) \<noteq> 0" using assms(1) by auto
  then show ?thesis
    by (simp add: handle_read_frame_def demo_env_def echo_env_def DecompressedBody_def parseReadBatch_def demo_unmarshal_def
        convertPbReadBatch_def convertPbSequencedRecord_def convertPbStreamPosition_def log_batch_def demo_record_def comp_def Let_def byte_u64 [OF assms(2)])
qed

lemma log_attempt:
  assumes "0 < n" "n < 256" "st_baseOpts r = Some tail_opts"
  shows "\<exists>d r'. runOnce demo_env r opts (ra_answer (demo_attempt [demo_frame (word_of_nat n) (map word_of_nat [i..<n])]))
      (ra_events (demo_attempt [demo_frame (word_of_nat n) (map word_of_nat [i..<n])])) = (OnceReturns (Some watchdog_error), r') \<and>
    st_recordsCh r' = st_recordsCh r @ [d] \<and> rdv_records d = map (demo_record \<circ> word_of_nat) [i..<n] \<and>
    map_option sp_SeqNum (rdv_next d) = Some (word_of_nat n) \<and> st_requests r' = st_requests r @ [opts] \<and>
    st_baseOpts r' = Some tail_opts \<and> st_retryConfig r' = st_retryConfig r \<and>
    (n \<le> i \<longrightarrow> st_hasNextSeq r' = st_hasNextSeq r \<and> st_recordsRead r' = st_recordsRead r)"
proof -
  let ?b = "log_batch i n"
  define q where "q = r\<lparr>st_poisoned := False, st_requests := st_requests r @ [opts], st_respBody := True\<rparr>"
  obtain req where req: "read_request demo_env (st_streamClient r) opts = Inr req" using demo_request by blast
  obtain b' q1 where ab: "account_batch ?b (observe_tail ?b 1 q) = (b', q1)" by fastforce
  have ob: "st_baseOpts (observe_tail ?b 1 q) = Some tail_opts" "st_recordsCh (observe_tail ?b 1 q) = st_recordsCh r"
    "st_requests (observe_tail ?b 1 q) = st_requests r @ [opts]" "st_hasNextSeq (observe_tail ?b 1 q) = st_hasNextSeq r"
    "st_recordsRead (observe_tail ?b 1 q) = st_recordsRead r" "st_retryConfig (observe_tail ?b 1 q) = st_retryConfig r"
    using assms(3) by (simp_all add: observe_tail_def log_batch_def q_def)
  have b': "rb_Records b' = rb_Records ?b" and q1: "st_recordsCh q1 = st_recordsCh r" "st_requests q1 = st_requests r @ [opts]"
    "st_baseOpts q1 = Some tail_opts" "st_retryConfig q1 = st_retryConfig r"
    "n \<le> i \<longrightarrow> st_hasNextSeq q1 = st_hasNextSeq r \<and> st_recordsRead q1 = st_recordsRead r"
    using ab ob by (auto simp: account_batch_def Let_def advanceState_def tail_opts_def empty_ReadOptions_def log_batch_def split: if_splits)
  let ?d = "\<lparr>rdv_records = rb_Records ?b, rdv_caughtUpTail = rb_Tail b', rdv_consumed = True,
    rdv_next = Some \<lparr>sp_SeqNum = word_of_nat n, sp_Timestamp = 0\<rparr>\<rparr>"
  obtain q2 where h: "handle_batch ?b 1 q = (Some ?d, q2)" and q2: "q2 = q1 \<or> q2 = upd_caughtUp setBehind q1"
    using ab b' by (simp add: handle_batch_def Let_def log_batch_facts [OF assms(2)])
  let ?r' = "q2\<lparr>st_recordsCh := st_recordsCh q2 @ [?d], st_respBody := False\<rparr>"
  have "runOnce demo_env r opts (ra_answer (demo_attempt [demo_frame (word_of_nat n) (map word_of_nat [i..<n])]))
      (ra_events (demo_attempt [demo_frame (word_of_nat n) (map word_of_nat [i..<n])])) = (OnceReturns (Some watchdog_error), ?r')"
    using req h by (simp add: runOnce_def demo_attempt_def demo_frame_def log_frame [OF assms(1,2)] q_def [symmetric] Let_def
        sendDelivery_def take_advice_def)
  then show ?thesis using q1 q2 by (intro exI [of _ ?d] exI [of _ ?r']) (auto simp: upd_caughtUp_def log_batch_def)
qed

text \<open>The watchdog's error is retried while there are attempts left.\<close>

lemma watchdog_backoff:
  assumes "0 \<le> f" "f + 1 < clamp_attempts cfg"
  shows "\<exists>d f'. after_attempt cfg (demo_attempt evs) m f (Some watchdog_error) r = (BacksOff d, f', upd_caughtUp setBehind r) \<and>
    0 \<le> f' \<and> f' \<le> f + 1"
proof -
  have w: "\<not> errors_Is watchdog_error ErrReconnectAdvised" "\<not> isServerDraining watchdog_error" "isRetryableReadError None watchdog_error"
    by code_simp+
  have "\<exists>d. calculateRetryBackoff (\<lambda>n. 0) cfg k = Some d" for k using calculateRetryBackoff_Some by blast
  then obtain g where "\<And>k. calculateRetryBackoff (\<lambda>n. 0) cfg k = Some (g k)" by metis
  then show ?thesis using assms w by (simp add: after_attempt_def demo_attempt_def Let_def)
qed

definition tail_end :: "nat \<Rightarrow> nat \<Rightarrow> nat \<Rightarrow> streamReader" where
  "tail_end n0 n1 n2 = snd (run demo_env (log_serve n0 n1 n2) 1 2 (newStreamReader demo_client (Some tail_opts)))"

text \<open>C40: A session that starts at the tail can skip records.  The server resolves the start at the tail \<open>n0\<close> and says so
  with an empty batch, from which the consumer learns that its position is \<open>n0\<close>; when the connection then fails, the
  reader asks again for the tail instead of for \<open>n0\<close>.  If the log has grown to \<open>n1\<close> by then, exactly the records from \<open>n1\<close>
  on are delivered, and those from \<open>n0\<close> to \<open>n1\<close>, appended in between, never are.  (The server is the log \<open>log_serve\<close>,
  whose sequence numbers fit the one byte its frames give them.)\<close>

theorem tail_start_skips:
  assumes "0 < n0" "n0 \<le> n1" "n1 \<le> n2" "n2 < 256"
  shows "st_requests (tail_end n0 n1 n2) = [Some tail_opts, Some tail_opts] \<and>
    map (map_option sp_SeqNum \<circ> rdv_next) (st_recordsCh (tail_end n0 n1 n2)) = [Some (word_of_nat n0), Some (word_of_nat n2)] \<and>
    delivered (tail_end n0 n1 n2) = map (demo_record \<circ> word_of_nat) [n1..<n2] \<and>
    (\<forall>i. n0 \<le> i \<and> i < n1 \<longrightarrow> demo_record (word_of_nat i) \<notin> set (delivered (tail_end n0 n1 n2)))"
proof -
  let ?r = "newStreamReader demo_client (Some tail_opts)"
  let ?a0 = "demo_attempt [demo_frame (word_of_nat n0) (map word_of_nat [n0..<n0])]"
  let ?a1 = "demo_attempt [demo_frame (word_of_nat n2) (map word_of_nat [n1..<n2])]"
  have opts: "buildAttemptOptions now delay r = Some tail_opts" if "st_baseOpts r = Some tail_opts" "\<not> st_hasNextSeq r" for now delay r
    using that by (simp add: buildAttemptOptions_def limit_options_def no_options_def tail_opts_def empty_ReadOptions_def Let_def)
  have lim: "\<not> limitsReached r" if "st_baseOpts r = Some tail_opts" for r
    using that by (simp add: limitsReached_def tail_opts_def empty_ReadOptions_def)
  have serve: "log_serve n0 n1 n2 0 (Some tail_opts) = ?a0" "log_serve n0 n1 n2 1 (Some tail_opts) = ?a1"
    by (simp_all add: log_serve_def resolve_start_def tail_opts_def empty_ReadOptions_def)
  have r: "st_baseOpts ?r = Some tail_opts" "\<not> st_hasNextSeq ?r" "st_recordsCh ?r = []" "st_requests ?r = []"
    "st_retryConfig ?r = Some DefaultRetryConfig" by (simp_all add: newStreamReader_def demo_client_def Let_def)
  have clamp: "clamp_attempts DefaultRetryConfig = 3" by code_simp
  have less: "n0 < 256" "0 < n2" using assms by simp_all
  obtain d0 r0 where 0: "runOnce demo_env ?r (Some tail_opts) (ra_answer ?a0) (ra_events ?a0) = (OnceReturns (Some watchdog_error), r0)"
    "st_recordsCh r0 = [d0]" "rdv_records d0 = []" "map_option sp_SeqNum (rdv_next d0) = Some (word_of_nat n0)"
    "st_requests r0 = [Some tail_opts]" "st_baseOpts r0 = Some tail_opts" "\<not> st_hasNextSeq r0"
    using log_attempt [OF assms(1) less(1) r(1), of "Some tail_opts" n0] r by auto
  obtain w0 f0 where b0: "after_attempt DefaultRetryConfig ?a0 (st_recordsRead ?r) 0 (Some watchdog_error) r0 =
      (BacksOff w0, f0, upd_caughtUp setBehind r0)" "0 \<le> f0" "f0 \<le> 1"
    using watchdog_backoff [of 0 DefaultRetryConfig] clamp by fastforce
  let ?r1 = "upd_caughtUp setBehind r0"
  have r1: "st_baseOpts ?r1 = Some tail_opts" "\<not> st_hasNextSeq ?r1" "st_recordsCh ?r1 = [d0]" "st_requests ?r1 = [Some tail_opts]"
    using 0 by (simp_all add: upd_caughtUp_def)
  obtain d1 r2 where 1: "runOnce demo_env ?r1 (Some tail_opts) (ra_answer ?a1) (ra_events ?a1) = (OnceReturns (Some watchdog_error), r2)"
    "st_recordsCh r2 = [d0, d1]" "rdv_records d1 = map (demo_record \<circ> word_of_nat) [n1..<n2]"
    "map_option sp_SeqNum (rdv_next d1) = Some (word_of_nat n2)" "st_requests r2 = [Some tail_opts, Some tail_opts]"
    using log_attempt [OF less(2) assms(4) r1(1), of "Some tail_opts" n1] r1 by auto
  obtain w1 f1 where b1: "after_attempt DefaultRetryConfig ?a1 (st_recordsRead ?r1) f0 (Some watchdog_error) r2 =
      (BacksOff w1, f1, upd_caughtUp setBehind r2)"
    using watchdog_backoff [of f0 DefaultRetryConfig] clamp b0 by fastforce
  have wait: "ra_waitErr (demo_attempt evs) w = None" for evs w by (simp_all add: demo_attempt_def)
  have "run demo_env (log_serve n0 n1 n2) 1 2 ?r = (RunOut, upd_caughtUp setBehind r2)"
    using 0(1) 1(1) b0(1) b1
    by (simp add: run_def r(5) opts [OF r(1,2)] opts [OF r1(1,2)] lim [OF r(1)] lim [OF r1(1)] numeral_2_eq_2 serve [simplified] wait Let_def)
  then have e: "tail_end n0 n1 n2 = upd_caughtUp setBehind r2" by (simp add: tail_end_def)
  have d: "delivered (tail_end n0 n1 n2) = map (demo_record \<circ> word_of_nat) [n1..<n2]"
    using 0(3) 1(2,3) by (simp add: e delivered_def upd_caughtUp_def)
  have "demo_record (word_of_nat i) \<noteq> demo_record (word_of_nat j)" if "i < n1" "n1 \<le> j" "j < n2" for i j
  proof
    assume "demo_record (word_of_nat i) = demo_record (word_of_nat j)"
    then have "(word_of_nat i :: u64) = word_of_nat j" using that assms(4) by (simp add: demo_record_def byte_u64)
    then have "unat (word_of_nat i :: u64) = unat (word_of_nat j :: u64)" by simp
    then show False using that assms(4) by (simp add: unat_of_nat)
  qed
  then have "demo_record (word_of_nat i) \<notin> set (delivered (tail_end n0 n1 n2))" if "i < n1" for i
    unfolding d using that by fastforce
  then show ?thesis using d 0(4) 1(2,4,5) by (simp add: e upd_caughtUp_def)
qed

theorem tail_start_skips_witness:
  "delivered (tail_end 5 7 8) = [demo_record 7] \<and> demo_record 6 \<notin> set (delivered (tail_end 5 7 8))"
proof -
  have "demo_record 6 \<noteq> demo_record 7" by (simp add: demo_record_def)
  then show ?thesis using tail_start_skips [of 5 7 8] by (simp add: upt_rec)
qed

end
