(* ===== verification/Read_Session_Props.thy ===== *)
theory Read_Session_Props
  imports Read_Session Read_Stream_Props
begin

text \<open>
  The contract of a read session, for every interleaving of the caller with the reader: what \<open>Next\<close> returns,
  what \<open>NextReadPosition\<close> means and what being caught up means.  The records come from a server whose
  batches are in order (\<open>batch_ok\<close>).
\<close>

section \<open>Properties\<close>

text \<open>C14: The records returned by \<open>Next\<close> are exactly the records the reader delivered, in order and each once: what
  is not returned yet is pending or buffered, at most ten deliveries are buffered, and when the session
  reports an error it is the reader's and every delivered record was returned before it.\<close>

theorem session_returns_deliveries:
  assumes "reach read_init read_step y" "s = ys_session y"
  shows "rss_returned s @ rss_pending s @ concat (map rdv_records (drop (rss_taken s) (channel s))) = delivered (rss_reader s) \<and>
    length (channel s) \<le> rss_taken s + readSessionBatchesBuffer \<and>
    (\<forall>e. rss_err s = Some e \<longrightarrow> e \<in> set (st_errorCh (rss_reader s)) \<and> rss_returned s = delivered (rss_reader s))"
proof -
  have inv: "inv_order s" "inv_error s (ys_phase y)"
    using reads.reach_inv [OF assms(1)] assms(2) by (simp_all add: read_inv_def)
  have split: "rss_returned s @ rss_pending s @ concat (map rdv_records (drop (rss_taken s) (channel s))) = delivered (rss_reader s)"
    "length (channel s) \<le> rss_taken s + readSessionBatchesBuffer"
    using inv(1) by (auto simp: inv_order_def untaken_def delivered_def)
  have "e \<in> set (st_errorCh (rss_reader s)) \<and> rss_returned s = delivered (rss_reader s)" if "rss_err s = Some e" for e
  proof -
    have e: "rss_taken s = length (channel s)" "rss_pending s = []" "e \<in> set (st_errorCh (rss_reader s))"
      using inv(2) that by (auto simp: inv_error_def)
    then show ?thesis using split(1) by simp
  qed
  with split show ?thesis by blast
qed

lemma chain_above:
  "chain lo ds hi \<Longrightarrow> x \<in> set (concat (map rdv_records ds)) \<Longrightarrow> lo \<le> sr_SeqNum x"
  by (induction lo ds hi rule: chain.induct) (auto intro: order_trans)

lemma inv_position_above:
  assumes "inv_position s ph low" "x \<in> set (rss_pending s @ concat (map rdv_records (untaken s @ sending ph)))"
  shows "position_low s \<le> sr_SeqNum x"
proof (cases "rss_pendingNext s")
  case None
  then show ?thesis using assms chain_above [of "position_low s" "untaken s @ sending ph" low x]
    by (auto simp: inv_position_def)
next
  case (Some n)
  have pend: "\<forall>y\<in>set (rss_pending s). position_low s \<le> sr_SeqNum y \<and> sr_SeqNum y < sp_SeqNum n" "rss_pending s \<noteq> []"
    "chain (sp_SeqNum n) (untaken s @ sending ph) low"
    using assms(1) Some by (auto simp: inv_position_def)
  then have "position_low s \<le> sp_SeqNum n" by (meson less_imp_le list.set_sel(1) order_trans)
  moreover have "x \<in> set (rss_pending s) \<or> x \<in> set (concat (map rdv_records (untaken s @ sending ph)))" using assms(2) by simp
  ultimately show ?thesis using pend(1) chain_above [OF pend(3), of x] by (meson order_trans)
qed

text \<open>C15: \<open>NextReadPosition\<close> separates, among the records that have arrived, the ones that were returned from the ones
  that were not: if the batches that arrive continue each other in order (each begins where the one before ended,
  with increasing sequence numbers and not beyond its tail), then every returned record lies before the position, and
  every record that is pending, buffered or on its way lies at or after it.  In particular records that
  the reader has only buffered are not counted in the position.  Nothing is said about records that never arrive.\<close>

theorem next_read_position_separates:
  assumes "reach read_init (read_step_with ok) y" "\<forall>low b. ok low b \<longrightarrow> batch_ok low b"
    and "s = ys_session y" "NextReadPosition s = Some p"
  shows "(\<forall>x\<in>set (rss_returned s). sr_SeqNum x < sp_SeqNum p) \<and>
    (\<forall>x\<in>set (rss_pending s @ concat (map rdv_records (untaken s @ sending (ys_phase y)))). sp_SeqNum p \<le> sr_SeqNum x)"
proof -
  have "reach read_init read_step y" by (rule read_reach_mono [OF assms(1)]) (use assms(2) in blast)
  then have inv: "inv_position s (ys_phase y) (ys_low y)"
    using reads.reach_inv assms(3) by (auto simp: read_inv_def)
  have low: "position_low s = sp_SeqNum p" using assms(4) by (auto simp: NextReadPosition_def position_low_def split: option.splits)
  have "\<forall>x\<in>set (rss_returned s). sr_SeqNum x < sp_SeqNum p" using inv low by (simp add: inv_position_def)
  moreover have "\<forall>x\<in>set (rss_pending s @ concat (map rdv_records (untaken s @ sending (ys_phase y)))). sp_SeqNum p \<le> sr_SeqNum x"
    using inv_position_above [OF inv] low by simp
  ultimately show ?thesis by blast
qed

text \<open>C16: A session that says it is caught up is: while it is not over, every record delivered by the reader was
  returned, none is on its way, and the read position is the tail that was reported.\<close>

theorem caught_up_means_read:
  assumes "reach read_init read_step y" "s = ys_session y" "IsCaughtUp s" "cu_terminalErr (st_caughtUp (rss_reader s)) = None"
  shows "rss_returned s = delivered (rss_reader s) \<and> concat (map rdv_records (sending (ys_phase y))) = [] \<and>
    (\<exists>p t. NextReadPosition s = Some p \<and> cu_tail (st_caughtUp (rss_reader s)) = Some t \<and> sp_SeqNum p = sp_SeqNum t)"
proof -
  have inv: "inv_order s" "inv_caught s (ys_phase y)"
    using reads.reach_inv [OF assms(1)] assms(2) by (simp_all add: read_inv_def)
  obtain t where t: "cu_tail (st_caughtUp (rss_reader s)) = Some t" using assms(3) by (auto simp: IsCaughtUp_def isCaughtUp_def)
  have c: "rss_pending s = []" "map_option sp_SeqNum (rss_position s) = Some (sp_SeqNum t)"
    "\<forall>d\<in>set (untaken s @ sending (ys_phase y)). rdv_records d = []"
    using inv(2) assms(4) t by (auto simp: inv_caught_def Let_def)
  have none: "concat (map rdv_records (untaken s)) = []" "concat (map rdv_records (sending (ys_phase y))) = []"
    using c(3) by (simp_all add: concat_eq_Nil_conv)
  then have "rss_returned s = delivered (rss_reader s)"
    using inv(1) c(1) none(1) by (simp add: inv_order_def delivered_def del: concat_eq_Nil_conv)
  then show ?thesis using c(2) none(2) t by (auto simp: NextReadPosition_def)
qed

section \<open>Witnesses\<close>

text \<open>The reader receives a batch of two records up to the tail and delivers it; two calls of \<open>Next\<close> return them.\<close>

definition demo_batch :: ReadBatch where
  "demo_batch = \<lparr>rb_Records = [demo_record 5, demo_record 6], rb_Tail = Some \<lparr>sp_SeqNum = 7, sp_Timestamp = 0\<rparr>\<rparr>"

definition demo_delivery :: readDelivery where
  "demo_delivery = \<lparr>rdv_records = [demo_record 5, demo_record 6], rdv_caughtUpTail = Some \<lparr>sp_SeqNum = 7, sp_Timestamp = 0\<rparr>,
     rdv_consumed = True, rdv_next = Some \<lparr>sp_SeqNum = 7, sp_Timestamp = 0\<rparr>\<rparr>"

definition read0 :: read_sys where
  "read0 = \<lparr>ys_session = newReadSession demo_client None, ys_phase = Reading, ys_inNext = False, ys_low = 0\<rparr>"

definition read1 :: read_sys where
  "read1 = read0\<lparr>ys_session := (ys_session read0)\<lparr>rss_reader := snd (handle_batch demo_batch 1 (rss_reader (ys_session read0)))\<rparr>,
     ys_phase := Sending demo_delivery, ys_low := 7\<rparr>"

definition read2 :: read_sys where
  "read2 = read1\<lparr>ys_session := (upd_reader (\<lambda>r. r\<lparr>st_recordsCh := st_recordsCh r @ [demo_delivery]\<rparr>) (ys_session read1))
     \<lparr>rss_consumed := False\<rparr>, ys_phase := Awaiting\<rparr>"

definition read3 :: read_sys where
  "read3 = read2\<lparr>ys_session := snd (Next_begin (ys_session read2)), ys_inNext := True\<rparr>"

definition read4 :: read_sys where
  "read4 = read3\<lparr>ys_session := snd (Next_loop GotDelivery (ys_session read3)), ys_inNext := False\<rparr>"

definition read5 :: read_sys where
  "read5 = read4\<lparr>ys_session := snd (Next_begin (ys_session read4)), ys_inNext := False\<rparr>"

lemma read1_reached: "reach read_init read_step read1"
proof (rule reach_step [where s = read0])
  show "reach read_init read_step read0" by (rule reach_init) (auto simp: read_init_def read0_def)
  have h: "handle_batch demo_batch 1 (rss_reader (ys_session read0)) =
      (Some demo_delivery, snd (handle_batch demo_batch 1 (rss_reader (ys_session read0))))"
    by (rule prod.expand) (simp, code_simp)
  have "ys_phase read0 = Reading" "batch_ok (ys_low read0) demo_batch" by code_simp+
  from rd_batch [where ok = batch_ok, OF this h] show "read_step read0 read1"
    by (simp add: read1_def raise_low_def demo_delivery_def)
qed

lemma read2_reached: "reach read_init read_step read2"
proof (rule reach_step [OF read1_reached])
  have "ys_phase read1 = Sending demo_delivery" "rdv_consumed demo_delivery"
    "length (channel (ys_session read1)) < rss_taken (ys_session read1) + readSessionBatchesBuffer"
    by code_simp+
  then show "read_step read1 read2"
    using rd_send [of read1 demo_delivery "ys_session read1"] by (simp add: read2_def)
qed

lemma read4_reached: "reach read_init read_step read4"
proof (rule reach_step [where s = read3])
  show "reach read_init read_step read3"
  proof (rule reach_step [OF read2_reached])
    have "\<not> ys_inNext read2" "fst (Next_begin (ys_session read2)) = None" by code_simp+
    then show "read_step read2 read3"
      using cs_begin [of read2 None "snd (Next_begin (ys_session read2))"] by (simp add: read3_def prod_eq_iff)
  qed
  have "ys_inNext read3" "next_ready GotDelivery (ys_session read3)" "fst (Next_loop GotDelivery (ys_session read3)) = Some True"
    by code_simp+
  then show "read_step read3 read4"
    using cs_loop [of read3 GotDelivery "Some True" "snd (Next_loop GotDelivery (ys_session read3))"]
    by (simp add: read4_def prod_eq_iff)
qed

lemma read5_reached: "reach read_init read_step read5"
proof (rule reach_step [OF read4_reached])
  have "\<not> ys_inNext read4" "fst (Next_begin (ys_session read4)) = Some True" by code_simp+
  then show "read_step read4 read5"
    using cs_begin [of read4 "Some True" "snd (Next_begin (ys_session read4))"] by (simp add: read5_def prod_eq_iff)
qed

theorem session_returns_deliveries_witness:
  "rss_returned (ys_session read4) = [demo_record 5] \<and>
    rss_returned (ys_session read4) @ rss_pending (ys_session read4) = delivered (rss_reader (ys_session read4))"
proof -
  have "rss_returned (ys_session read4) = [demo_record 5]" "drop (rss_taken (ys_session read4)) (channel (ys_session read4)) = []"
    by code_simp+
  then show ?thesis using session_returns_deliveries [OF read4_reached refl] by simp
qed

theorem next_read_position_separates_witness:
  "rss_pending (ys_session read4) = [demo_record 6] \<and>
    NextReadPosition (ys_session read4) = Some \<lparr>sp_SeqNum = 6, sp_Timestamp = 0\<rparr> \<and>
    sr_SeqNum (demo_record 5) < 6 \<and> 6 \<le> sr_SeqNum (demo_record 6)"
proof -
  have "rss_pending (ys_session read4) = [demo_record 6]" "rss_returned (ys_session read4) = [demo_record 5]"
    "NextReadPosition (ys_session read4) = Some \<lparr>sp_SeqNum = 6, sp_Timestamp = 0\<rparr>"
    by code_simp+
  then show ?thesis
    using next_read_position_separates [OF read4_reached _ refl, of "\<lparr>sp_SeqNum = 6, sp_Timestamp = 0\<rparr>"] by simp
qed

theorem caught_up_means_read_witness:
  "IsCaughtUp (ys_session read5) \<and> rss_returned (ys_session read5) = delivered (rss_reader (ys_session read5)) \<and>
    rss_returned (ys_session read5) = [demo_record 5, demo_record 6]"
proof -
  have "IsCaughtUp (ys_session read5)" "cu_terminalErr (st_caughtUp (rss_reader (ys_session read5))) = None"
    "rss_returned (ys_session read5) = [demo_record 5, demo_record 6]"
    by code_simp+
  then show ?thesis using caught_up_means_read [OF read5_reached refl] by simp
qed

end
