(* ===== verification/Batcher.thy ===== *)
theory Batcher
  imports Step_Systems Records
begin

text \<open>
  The record batcher (\<open>src/s2/batcher.go\<close>): records are buffered until a count, size or linger
  limit is reached and are then emitted as one batch.  Every operation runs under the batcher's
  mutex, so an operation is one function on the state.

  \<open>flushLocked\<close> ends in a select between the send on \<open>batchesCh\<close> and \<open>ctx.Done()\<close>; the argument
  \<open>sel\<close> is the case taken, \<open>None\<close> for the send and \<open>Some err\<close> for a done context with \<open>ctx.Err()\<close> =
  \<open>err\<close>.  The effects visible outside are collected in \<open>b_out\<close>: batches and barriers sent, in
  channel order, and the batches dropped, whose permits are released and whose results are resolved
  with the error.  Result channels, permits and barriers are identified by numbers.

  The capacity \<open>ChannelBuffer\<close> of \<open>batchesCh\<close> is not modelled: a send that waits for room, with the mutex held,
  is an operation that happens when there is room.  What is said about the batcher therefore does not say that an
  operation returns while nobody receives.
\<close>

section \<open>State\<close>

record BatchingOptions =
  bo_Linger :: duration
  bo_MaxRecords :: int
  bo_MaxMeteredBytes :: u64
  bo_MatchSeqNum :: "u64 option"
  bo_FencingToken :: "string option"
  bo_ChannelBuffer :: int

record recordMeta =
  rm_index :: nat
  rm_resultCh :: nat
  rm_permit :: "nat option"

datatype batch_event =
    Batch AppendInput "recordMeta list"
  | Barrier nat
  | Dropped "AppendRecord list" "recordMeta list" goerr

record Batcher =
  b_opts :: BatchingOptions
  b_buffer :: "AppendRecord list"
  b_bufferBytes :: u64
  b_recordMeta :: "recordMeta list"
  b_timer :: bool
  b_timerSeq :: u64
  b_closed :: bool
  b_closeErr :: "goerr option"
  b_nextMatchSeqNum :: "u64 option"
  b_out :: "batch_event list"
  b_chanClosed :: bool

section \<open>Operations\<close>

definition applyBatchingDefaults :: "BatchingOptions option \<Rightarrow> BatchingOptions" where
  "applyBatchingDefaults opts =
     (let result = (case opts of None \<Rightarrow> \<lparr>bo_Linger = 0, bo_MaxRecords = 0, bo_MaxMeteredBytes = 0,
            bo_MatchSeqNum = None, bo_FencingToken = None, bo_ChannelBuffer = 0\<rparr> | Some o' \<Rightarrow> o');
          result = result\<lparr>bo_FencingToken := cloneStringPtr (bo_FencingToken result)\<rparr>;
          result = (if bo_Linger result = 0 then result\<lparr>bo_Linger := 5 * 1000000\<rparr> else result);
          result = (if bo_MaxRecords result \<le> 0 \<or> bo_MaxRecords result > int MaxBatchRecords
            then result\<lparr>bo_MaxRecords := int MaxBatchRecords\<rparr> else result);
          result = (if bo_MaxMeteredBytes result = 0 \<or> bo_MaxMeteredBytes result > word_of_int MaxBatchMeteredBytes
            then result\<lparr>bo_MaxMeteredBytes := word_of_int MaxBatchMeteredBytes\<rparr> else result)
      in if bo_ChannelBuffer result \<le> 0 then result\<lparr>bo_ChannelBuffer := 100\<rparr> else result)"

definition NewBatcher :: "BatchingOptions option \<Rightarrow> Batcher" where
  "NewBatcher opts =
     (let opts = applyBatchingDefaults opts;
          nextMatchSeqNum = (case bo_MatchSeqNum opts of None \<Rightarrow> None | Some v \<Rightarrow> Some v)
      in \<lparr>b_opts = opts, b_buffer = [], b_bufferBytes = 0, b_recordMeta = [], b_timer = False,
          b_timerSeq = 0, b_closed = False, b_closeErr = None, b_nextMatchSeqNum = nextMatchSeqNum,
          b_out = [], b_chanClosed = False\<rparr>)"

definition flushLocked :: "Batcher \<Rightarrow> goerr option \<Rightarrow> goerr option \<times> Batcher" where
  "flushLocked b sel =
     (if length (b_buffer b) = 0 then (None, b)
      else
        let records = b_buffer b;
            b = b\<lparr>b_buffer := [], b_bufferBytes := 0\<rparr>;
            b = (if b_timer b then b\<lparr>b_timer := False\<rparr> else b);
            matchSeqNum = b_nextMatchSeqNum b;
            input = \<lparr>ai_Records = records, ai_MatchSeqNum = matchSeqNum,
              ai_FencingToken = bo_FencingToken (b_opts b), ai_StreamConfig = None\<rparr>;
            meta = b_recordMeta b;
            b = b\<lparr>b_recordMeta := []\<rparr>
        in case sel of
             None \<Rightarrow>
               let b = b\<lparr>b_out := b_out b @ [Batch input meta]\<rparr>
               in (None, case b_nextMatchSeqNum b of None \<Rightarrow> b
                     | Some v \<Rightarrow> b\<lparr>b_nextMatchSeqNum := Some (v + word_of_nat (length records))\<rparr>)
           | Some err \<Rightarrow>
               let b = (if b_closeErr b = None then b\<lparr>b_closeErr := Some err\<rparr> else b)
               in (Some err, b\<lparr>b_out := b_out b @ [Dropped records meta err]\<rparr>))"

definition record_too_large :: goerr where
  "record_too_large = S2E \<lparr>e_Message = ''record exceeds max batch bytes'', e_Code = '''', e_Status = 0,
     e_Origin = ''''\<rparr>"

text \<open>Whether the record must go into a new batch, the append to the buffer, and the flush or timer
  that follows it: the three parts of \<open>addWithPermit\<close>.\<close>

definition too_full :: "Batcher \<Rightarrow> u64 \<Rightarrow> bool" where
  "too_full b recordBytes \<longleftrightarrow> length (b_buffer b) > 0 \<and>
     (int (length (b_buffer b)) + 1 > bo_MaxRecords (b_opts b) \<or>
      b_bufferBytes b + recordBytes > bo_MaxMeteredBytes (b_opts b))"

definition push_record :: "Batcher \<Rightarrow> AppendRecord \<Rightarrow> u64 \<Rightarrow> nat option \<Rightarrow> nat option \<Rightarrow> Batcher" where
  "push_record b rec recordBytes resultCh permit =
     (let index = length (b_buffer b);
          b = b\<lparr>b_buffer := b_buffer b @ [rec], b_bufferBytes := b_bufferBytes b + recordBytes\<rparr>
      in case resultCh of None \<Rightarrow> b
         | Some ch \<Rightarrow> b\<lparr>b_recordMeta := b_recordMeta b @
             [\<lparr>rm_index = index, rm_resultCh = ch, rm_permit = permit\<rparr>]\<rparr>)"

definition after_push :: "Batcher \<Rightarrow> goerr option \<Rightarrow> Batcher" where
  "after_push b sel =
     (if int (length (b_buffer b)) \<ge> bo_MaxRecords (b_opts b) \<or> b_bufferBytes b \<ge> bo_MaxMeteredBytes (b_opts b)
      then snd (flushLocked b sel)
      else if bo_Linger (b_opts b) > 0 \<and> \<not> b_timer b
      then b\<lparr>b_timerSeq := b_timerSeq b + 1, b_timer := True\<rparr> else b)"

text \<open>\<open>sel1\<close> and \<open>sel2\<close> are the select outcomes of the two flushes the operation may make; their
  errors are not looked at.\<close>

definition addWithPermit :: "Batcher \<Rightarrow> AppendRecord \<Rightarrow> nat option \<Rightarrow> nat option \<Rightarrow>
    goerr option \<Rightarrow> goerr option \<Rightarrow> goerr option \<times> Batcher" where
  "addWithPermit b record resultCh permit sel1 sel2 =
     (if b_closed b then (Some (Sentinel ErrSessionClosed), b)
      else
        let cloned = cloneAppendRecords [record];
            rec = cloned ! 0;
            recordBytes = MeteredPayloadBytes rec
        in if recordBytes > bo_MaxMeteredBytes (b_opts b) then (Some record_too_large, b)
        else
          let b1 = (if too_full b recordBytes then snd (flushLocked b sel1) else b);
              b2 = push_record b1 rec recordBytes resultCh permit
          in (None, after_push b2 sel2))"

definition Add :: "Batcher \<Rightarrow> AppendRecord \<Rightarrow> nat option \<Rightarrow> goerr option \<Rightarrow> goerr option \<Rightarrow>
    goerr option \<times> Batcher" where
  "Add b record resultCh sel1 sel2 = addWithPermit b record resultCh None sel1 sel2"

definition flushForBackpressure :: "Batcher \<Rightarrow> goerr option \<Rightarrow> goerr option \<times> Batcher" where
  "flushForBackpressure b sel =
     (if b_closed b then (Some (Sentinel ErrSessionClosed), b) else flushLocked b sel)"

definition shutdownCause :: "Batcher \<Rightarrow> goerr option \<Rightarrow> goerr" where
  "shutdownCause b ctxErr = (case b_closeErr b of Some err \<Rightarrow> err
     | None \<Rightarrow> if b_closed b then Sentinel ErrSessionClosed
         else case ctxErr of Some err \<Rightarrow> err | None \<Rightarrow> Sentinel ErrSessionClosed)"

text \<open>\<open>sel\<close> and \<open>sel2\<close> are the cases taken by the two selects, \<open>ctxErr\<close> is \<open>ctx.Err()\<close> between them.\<close>

definition flushBarrier :: "Batcher \<Rightarrow> nat \<Rightarrow> goerr option \<Rightarrow> goerr option \<Rightarrow> goerr option \<Rightarrow>
    goerr option \<times> Batcher" where
  "flushBarrier b barrier sel ctxErr sel2 =
     (if b_closed b then (Some (Sentinel ErrSessionClosed), b)
      else case flushLocked b sel of
        (Some err, b) \<Rightarrow> (Some err, b)
      | (None, b) \<Rightarrow>
          (case ctxErr of Some err \<Rightarrow> (Some err, b)
           | None \<Rightarrow> (case sel2 of
               None \<Rightarrow> (None, b\<lparr>b_out := b_out b @ [Barrier barrier]\<rparr>)
             | Some err \<Rightarrow> (Some err, b))))"

definition flushFromTimer :: "Batcher \<Rightarrow> u64 \<Rightarrow> goerr option \<Rightarrow> Batcher" where
  "flushFromTimer b timerSeq sel =
     (if \<not> b_timer b \<or> b_timerSeq b \<noteq> timerSeq then b
      else
        let b = b\<lparr>b_timer := False\<rparr>
        in if \<not> b_closed b then snd (flushLocked b sel) else b)"

definition Flush :: "Batcher \<Rightarrow> goerr option \<Rightarrow> Batcher" where
  "Flush b sel = snd (flushLocked b sel)"

definition close_batcher :: "Batcher \<Rightarrow> goerr option \<Rightarrow> goerr option \<times> Batcher" where
  "close_batcher b sel =
     (if b_closed b then (b_closeErr b, b)
      else
        let b = b\<lparr>b_closed := True\<rparr>;
            b = snd (flushLocked b sel);
            b = (if b_timer b then b\<lparr>b_timer := False\<rparr> else b)
        in (b_closeErr b, b\<lparr>b_chanClosed := True\<rparr>))"

section \<open>What a batcher promises\<close>

text \<open>
  An accepted record is kept with the result channel and permit it came with.  \<open>meta_of\<close> is what
  \<open>recordMeta\<close> must be for a group of accepted records, \<open>event_group\<close> says that an event carries
  exactly that group.
\<close>

type_synonym entry = "AppendRecord \<times> nat option \<times> nat option"

definition meta_of :: "entry list \<Rightarrow> recordMeta list" where
  "meta_of es = concat (map (\<lambda>i. case fst (snd (es ! i)) of None \<Rightarrow> []
     | Some ch \<Rightarrow> [\<lparr>rm_index = i, rm_resultCh = ch, rm_permit = snd (snd (es ! i))\<rparr>]) [0..<length es])"

fun event_group :: "batch_event \<Rightarrow> entry list \<Rightarrow> bool" where
  "event_group (Batch input meta) es \<longleftrightarrow> ai_Records input = map fst es \<and> meta = meta_of es"
| "event_group (Dropped records meta err) es \<longleftrightarrow> records = map fst es \<and> meta = meta_of es"
| "event_group (Barrier k) es \<longleftrightarrow> es = []"

text \<open>The sequence numbers matched: each batch starts where the one before it ended.\<close>

fun match_chain :: "u64 option \<Rightarrow> batch_event list \<Rightarrow> u64 option \<Rightarrow> bool" where
  "match_chain start [] fin \<longleftrightarrow> start = fin"
| "match_chain start (Batch input meta # evs) fin \<longleftrightarrow> ai_MatchSeqNum input = start \<and>
     match_chain (map_option (\<lambda>v. v + word_of_nat (length (ai_Records input))) start) evs fin"
| "match_chain start (_ # evs) fin \<longleftrightarrow> match_chain start evs fin"

fun event_valid :: "BatchingOptions \<Rightarrow> batch_event \<Rightarrow> bool" where
  "event_valid opts (Batch input meta) \<longleftrightarrow> ai_Records input \<noteq> [] \<and>
     int (length (ai_Records input)) \<le> bo_MaxRecords opts \<and>
     (\<Sum>r\<leftarrow>ai_Records input. metered_size r) \<le> unat (bo_MaxMeteredBytes opts) \<and>
     ai_FencingToken input = bo_FencingToken opts"
| "event_valid opts _ \<longleftrightarrow> True"

definition opts_ok :: "BatchingOptions \<Rightarrow> bool" where
  "opts_ok opts \<longleftrightarrow> 1 \<le> bo_MaxRecords opts \<and> bo_MaxRecords opts \<le> 1000 \<and>
     1 \<le> unat (bo_MaxMeteredBytes opts) \<and> unat (bo_MaxMeteredBytes opts) \<le> 1048576"

definition batcher_core :: "u64 option \<Rightarrow> Batcher \<Rightarrow> entry list \<Rightarrow> bool" where
  "batcher_core start b accepted \<longleftrightarrow>
     opts_ok (b_opts b) \<and>
     unat (b_bufferBytes b) = (\<Sum>r\<leftarrow>b_buffer b. metered_size r) \<and>
     int (length (b_buffer b)) \<le> bo_MaxRecords (b_opts b) \<and>
     b_bufferBytes b \<le> bo_MaxMeteredBytes (b_opts b) \<and>
     (\<forall>ev\<in>set (b_out b). event_valid (b_opts b) ev) \<and>
     match_chain start (b_out b) (b_nextMatchSeqNum b) \<and>
     (\<exists>groups pending. list_all2 event_group (b_out b) groups \<and>
        accepted = concat groups @ pending \<and> b_buffer b = map fst pending \<and>
        b_recordMeta b = meta_of pending)"

definition batcher_inv :: "u64 option \<Rightarrow> Batcher \<times> entry list \<Rightarrow> bool" where
  "batcher_inv start s \<longleftrightarrow> (case s of (b, accepted) \<Rightarrow>
     batcher_core start b accepted \<and>
     (b_timer b \<longrightarrow> b_buffer b \<noteq> [] \<and> \<not> b_closed b) \<and>
     (b_buffer b \<noteq> [] \<longrightarrow> \<not> b_closed b \<and> (0 < bo_Linger (b_opts b) \<longrightarrow> b_timer b)) \<and>
     (b_chanClosed b \<longrightarrow> b_closed b))"

section \<open>Flushing\<close>

lemma match_chain_snoc_Batch:
  "match_chain start (evs @ [Batch input meta]) fin \<longleftrightarrow>
     (\<exists>mid. match_chain start evs mid \<and> ai_MatchSeqNum input = mid \<and>
       fin = map_option (\<lambda>v. v + word_of_nat (length (ai_Records input))) mid)"
  by (induction start evs fin rule: match_chain.induct) auto

lemma match_chain_snoc_other:
  "ev = Barrier k \<or> ev = Dropped rs ms e \<Longrightarrow> match_chain start (evs @ [ev]) fin = match_chain start evs fin"
  by (induction start evs fin rule: match_chain.induct) auto

lemma meta_of_Nil [simp]: "meta_of [] = []"
  by (simp add: meta_of_def)

lemma meta_of_snoc:
  "meta_of (es @ [(r, ch, permit)]) = meta_of es @ (case ch of None \<Rightarrow> []
     | Some c \<Rightarrow> [\<lparr>rm_index = length es, rm_resultCh = c, rm_permit = permit\<rparr>])"
proof -
  have "concat (map (\<lambda>i. case fst (snd ((es @ [(r, ch, permit)]) ! i)) of None \<Rightarrow> []
     | Some ch' \<Rightarrow> [\<lparr>rm_index = i, rm_resultCh = ch', rm_permit = snd (snd ((es @ [(r, ch, permit)]) ! i))\<rparr>])
       [0..<length es]) = meta_of es"
    unfolding meta_of_def by (intro arg_cong [of _ _ concat] map_cong) (simp_all add: nth_append split: option.splits)
  then show ?thesis by (simp add: meta_of_def [of "es @ _"] split: option.splits)
qed

lemma meta_of_index: "m \<in> set (meta_of es) \<Longrightarrow> rm_index m < length es"
  by (auto simp: meta_of_def split: option.splits)

lemma flushLocked_empty [simp]: "b_buffer b = [] \<Longrightarrow> flushLocked b sel = (None, b)"
  by (simp add: flushLocked_def)

text \<open>The fields after a flush of a non-empty buffer.\<close>

lemma flushLocked_fields:
  assumes "b_buffer b \<noteq> []" "flushLocked b sel = (err, b')"
  shows "b_buffer b' = []" "b_bufferBytes b' = 0" "b_recordMeta b' = []" "\<not> b_timer b'"
    "b_opts b' = b_opts b" "b_closed b' = b_closed b" "b_chanClosed b' = b_chanClosed b" "err = sel"
    "b_timerSeq b' = b_timerSeq b"
    "b_out b' = b_out b @ [case sel of
       None \<Rightarrow> Batch \<lparr>ai_Records = b_buffer b, ai_MatchSeqNum = b_nextMatchSeqNum b,
         ai_FencingToken = bo_FencingToken (b_opts b), ai_StreamConfig = None\<rparr> (b_recordMeta b)
     | Some e \<Rightarrow> Dropped (b_buffer b) (b_recordMeta b) e]"
    "b_nextMatchSeqNum b' = (case sel of
       None \<Rightarrow> map_option (\<lambda>v. v + word_of_nat (length (b_buffer b))) (b_nextMatchSeqNum b)
     | Some e \<Rightarrow> b_nextMatchSeqNum b)"
  using assms by (auto simp: flushLocked_def Let_def split: option.splits if_splits)

lemma flushLocked_core:
  assumes core: "batcher_core start b accepted" and run: "flushLocked b sel = (err, b')"
  shows "batcher_core start b' accepted"
proof (cases "b_buffer b = []")
  case False
  note f = flushLocked_fields [OF False run]
  obtain groups pending where g: "list_all2 event_group (b_out b) groups"
    "accepted = concat groups @ pending" "b_buffer b = map fst pending" "b_recordMeta b = meta_of pending"
    using core by (auto simp: batcher_core_def)
  have "list_all2 event_group (b_out b') (groups @ [pending])"
    using g by (auto simp: f intro!: list_all2_appendI split: option.splits)
  moreover have "accepted = concat (groups @ [pending]) @ []" using g by simp
  ultimately have "\<exists>groups pending. list_all2 event_group (b_out b') groups \<and>
      accepted = concat groups @ pending \<and> b_buffer b' = map fst pending \<and> b_recordMeta b' = meta_of pending"
    using f(1,3) by (intro exI [of _ "groups @ [pending]"] exI [of _ "[]"]) simp
  moreover have "match_chain start (b_out b') (b_nextMatchSeqNum b')"
    using core by (auto simp: batcher_core_def f match_chain_snoc_Batch match_chain_snoc_other split: option.splits)
  moreover have "\<forall>ev\<in>set (b_out b'). event_valid (b_opts b') ev"
    using core False by (auto simp: batcher_core_def f word_le_nat_alt split: option.splits)
  ultimately show ?thesis using core by (auto simp: batcher_core_def f)
qed (use assms in auto)

lemma flushLocked_inv:
  assumes "batcher_core start b accepted" "b_timer b \<longrightarrow> b_buffer b \<noteq> []"
    and "b_chanClosed b \<longrightarrow> b_closed b" "flushLocked b sel = (err, b')"
  shows "batcher_inv start (b', accepted) \<and> b_buffer b' = []"
proof (cases "b_buffer b = []")
  case True
  with assms show ?thesis by (simp add: batcher_inv_def)
next
  case False
  note f = flushLocked_fields [OF False assms(4)]
  show ?thesis using flushLocked_core [OF assms(1,4)] assms(3) f(1,4,6,7) by (simp add: batcher_inv_def)
qed

section \<open>Adding\<close>

lemma addWithPermit_eq:
  "addWithPermit b rec resultCh permit sel1 sel2 =
     (if b_closed b then (Some (Sentinel ErrSessionClosed), b)
      else if MeteredPayloadBytes rec > bo_MaxMeteredBytes (b_opts b) then (Some record_too_large, b)
      else (None, after_push (push_record
        (if too_full b (MeteredPayloadBytes rec) then snd (flushLocked b sel1) else b) rec
        (MeteredPayloadBytes rec) resultCh permit) sel2))"
  by (simp add: addWithPermit_def)

lemma push_record_fields:
  "push_record b rec n resultCh permit =
     b\<lparr>b_buffer := b_buffer b @ [rec], b_bufferBytes := b_bufferBytes b + n,
       b_recordMeta := b_recordMeta b @ (case resultCh of None \<Rightarrow> []
         | Some ch \<Rightarrow> [\<lparr>rm_index = length (b_buffer b), rm_resultCh = ch, rm_permit = permit\<rparr>])\<rparr>"
  by (cases b) (simp add: push_record_def split: option.splits)

lemma push_record_core:
  assumes core: "batcher_core start b accepted" and fits: "\<not> too_full b (MeteredPayloadBytes rec)"
    and rec: "MeteredPayloadBytes rec \<le> bo_MaxMeteredBytes (b_opts b)" "metered_size rec < 2 ^ 64"
  shows "batcher_core start (push_record b rec (MeteredPayloadBytes rec) resultCh permit) (accepted @ [(rec, resultCh, permit)])"
proof -
  let ?r = "MeteredPayloadBytes rec" and ?M = "bo_MaxMeteredBytes (b_opts b)"
  have size: "unat ?r = metered_size rec" using rec(2) by (simp add: MeteredPayloadBytes_eq unat_of_nat)
  have M: "unat ?M \<le> 1048576" using core by (simp add: batcher_core_def opts_ok_def)
  have bytes: "unat (b_bufferBytes b) \<le> unat ?M" "unat ?r \<le> unat ?M"
    using core rec(1) by (simp_all add: batcher_core_def word_le_nat_alt)
  then have sum: "unat (b_bufferBytes b + ?r) = unat (b_bufferBytes b) + unat ?r"
    using M by (subst unat_add_lem [symmetric]) simp
  have le: "b_bufferBytes b + ?r \<le> ?M"
  proof (cases "b_buffer b = []")
    case True
    then have "b_bufferBytes b = 0" using core by (simp add: batcher_core_def unat_eq_zero)
    with rec(1) show ?thesis by simp
  qed (use fits in \<open>simp add: too_full_def not_less\<close>)
  have len: "int (length (b_buffer b)) + 1 \<le> bo_MaxRecords (b_opts b)"
    using fits core by (cases "b_buffer b = []") (auto simp: too_full_def not_less batcher_core_def opts_ok_def)
  obtain groups pending where g: "list_all2 event_group (b_out b) groups"
    "accepted = concat groups @ pending" "b_buffer b = map fst pending" "b_recordMeta b = meta_of pending"
    using core by (auto simp: batcher_core_def)
  have "\<exists>gs pd. list_all2 event_group (b_out b) gs \<and> accepted @ [(rec, resultCh, permit)] = concat gs @ pd \<and>
      b_buffer b @ [rec] = map fst pd \<and>
      b_recordMeta (push_record b rec (MeteredPayloadBytes rec) resultCh permit) = meta_of pd"
    using g by (intro exI [of _ groups] exI [of _ "pending @ [(rec, resultCh, permit)]"])
      (simp add: push_record_fields meta_of_snoc split: option.splits)
  with core sum size le len show ?thesis by (auto simp: batcher_core_def push_record_fields)
qed

lemma after_push_inv:
  assumes "batcher_core start b accepted" "b_buffer b \<noteq> []" "\<not> b_closed b" "\<not> b_chanClosed b"
  shows "batcher_inv start (after_push b sel, accepted)"
proof -
  have flush: "batcher_inv start (snd (flushLocked b sel), accepted)"
    using flushLocked_inv [OF assms(1) _ _ prod.collapse [symmetric]] assms by blast
  have keep: "batcher_core start (b\<lparr>b_timerSeq := t, b_timer := f\<rparr>) accepted" for t f
    using assms(1) by (simp add: batcher_core_def)
  show ?thesis using flush keep assms by (simp add: after_push_def batcher_inv_def)
qed

lemma addWithPermit_inv:
  assumes inv: "batcher_inv start (b, accepted)" and run: "addWithPermit b rec ch permit sel1 sel2 = (err, b')"
    and size: "metered_size rec < 2 ^ 64"
  shows "batcher_inv start (b', if err = None then accepted @ [(rec, ch, permit)] else accepted)"
proof (cases "b_closed b \<or> MeteredPayloadBytes rec > bo_MaxMeteredBytes (b_opts b)")
  case False
  let ?b1 = "if too_full b (MeteredPayloadBytes rec) then snd (flushLocked b sel1) else b"
  have core: "batcher_core start b accepted" and open': "\<not> b_chanClosed b"
    using inv False by (auto simp: batcher_inv_def)
  have b1: "batcher_core start ?b1 accepted \<and> \<not> too_full ?b1 (MeteredPayloadBytes rec) \<and>
      b_opts ?b1 = b_opts b \<and> b_closed ?b1 = b_closed b \<and> b_chanClosed ?b1 = b_chanClosed b"
  proof (cases "too_full b (MeteredPayloadBytes rec)")
    case True
    then have "b_buffer b \<noteq> []" by (auto simp: too_full_def)
    with flushLocked_core [OF core prod.collapse [symmetric], of sel1]
      flushLocked_fields [OF _ prod.collapse [symmetric], of b sel1] True
    show ?thesis by (simp add: too_full_def)
  qed (use core in simp)
  have "batcher_core start (push_record ?b1 rec (MeteredPayloadBytes rec) ch permit) (accepted @ [(rec, ch, permit)])"
    by (rule push_record_core) (use b1 False size in auto)
  from after_push_inv [OF this, of sel2] b1 False open' run
  show ?thesis by (simp add: addWithPermit_eq push_record_fields)
qed (use inv run in \<open>auto simp: addWithPermit_eq split: if_splits\<close>)

section \<open>The batcher in use\<close>

inductive batcher_step :: "Batcher \<times> entry list \<Rightarrow> Batcher \<times> entry list \<Rightarrow> bool" where
  step_add: "metered_size rec < 2 ^ 64 \<Longrightarrow> addWithPermit b rec ch permit sel1 sel2 = (err, b') \<Longrightarrow>
    batcher_step (b, acc) (b', if err = None then acc @ [(rec, ch, permit)] else acc)"
| step_flush: "batcher_step (b, acc) (Flush b sel, acc)"
| step_backpressure: "batcher_step (b, acc) (snd (flushForBackpressure b sel), acc)"
| step_barrier: "batcher_step (b, acc) (snd (flushBarrier b k sel ctxErr sel2), acc)"
| step_timer: "batcher_step (b, acc) (flushFromTimer b tseq sel, acc)"
| step_close: "batcher_step (b, acc) (snd (close_batcher b sel), acc)"

definition batcher_init :: "BatchingOptions option \<Rightarrow> Batcher \<times> entry list \<Rightarrow> bool" where
  "batcher_init opts s \<longleftrightarrow> s = (NewBatcher opts, [])"

lemma flush_keeps_inv:
  "batcher_inv start (b, acc) \<Longrightarrow> batcher_inv start (snd (flushLocked b sel), acc)"
  using flushLocked_inv [OF _ _ _ prod.collapse [symmetric], of start b acc sel]
  unfolding batcher_inv_def by blast

lemma flushBarrier_inv:
  assumes "batcher_inv start (b, acc)"
  shows "batcher_inv start (snd (flushBarrier b k sel ctxErr sel2), acc)"
proof (cases "b_closed b")
  case False
  obtain err b1 where run: "flushLocked b sel = (err, b1)" by fastforce
  with flush_keeps_inv [OF assms, of sel] have inv: "batcher_inv start (b1, acc)" by simp
  have "list_all2 event_group (b_out b1 @ [Barrier k]) (groups @ [[]])"
    if "list_all2 event_group (b_out b1) groups" for groups
    using that by (auto intro!: list_all2_appendI)
  then have "batcher_inv start (b1\<lparr>b_out := b_out b1 @ [Barrier k]\<rparr>, acc)"
    using inv by (auto simp: batcher_inv_def batcher_core_def match_chain_snoc_other) (metis append_Nil2 concat.simps concat_append)+
  with inv run False show ?thesis
    by (auto simp: flushBarrier_def split: option.splits)
qed (use assms in \<open>simp add: flushBarrier_def\<close>)

lemma flushFromTimer_inv:
  assumes "batcher_inv start (b, acc)"
  shows "batcher_inv start (flushFromTimer b tseq sel, acc)"
proof (cases "\<not> b_timer b \<or> b_timerSeq b \<noteq> tseq")
  case False
  have "batcher_core start (b\<lparr>b_timer := False\<rparr>) acc" "\<not> b_closed b" "b_chanClosed b \<longrightarrow> b_closed b"
    using assms False by (auto simp: batcher_inv_def batcher_core_def)
  with flushLocked_inv [OF this(1) _ _ prod.collapse [symmetric], of sel] False show ?thesis
    by (simp add: flushFromTimer_def)
qed (use assms in \<open>simp add: flushFromTimer_def\<close>)

lemma close_batcher_inv:
  assumes "batcher_inv start (b, acc)"
  shows "batcher_inv start (snd (close_batcher b sel), acc)"
proof (cases "b_closed b")
  case False
  let ?b1 = "snd (flushLocked (b\<lparr>b_closed := True\<rparr>) sel)"
  have "batcher_core start (b\<lparr>b_closed := True\<rparr>) acc"
    using assms by (simp add: batcher_inv_def batcher_core_def)
  then have "batcher_inv start (?b1, acc) \<and> b_buffer ?b1 = []"
    by (intro flushLocked_inv [OF _ _ _ prod.collapse [symmetric]])
      (use assms in \<open>auto simp: batcher_inv_def\<close>)
  moreover have "b_closed ?b1"
    using flushLocked_fields(6) [OF _ prod.collapse [symmetric], of "b\<lparr>b_closed := True\<rparr>" sel]
    by (cases "b_buffer b = []") simp_all
  ultimately show ?thesis using False
    by (auto simp: close_batcher_def Let_def batcher_inv_def batcher_core_def)
qed (use assms in \<open>simp add: close_batcher_def\<close>)

lemma applyBatchingDefaults_ok: "opts_ok (applyBatchingDefaults opts)"
proof -
  let ?o = "applyBatchingDefaults opts"
  have rec: "1 \<le> bo_MaxRecords ?o \<and> bo_MaxRecords ?o \<le> 1000"
    by (cases opts) (auto simp: applyBatchingDefaults_def Let_def MaxBatchRecords_def)
  have "bo_MaxMeteredBytes ?o \<noteq> 0 \<and> bo_MaxMeteredBytes ?o \<le> 1048576"
    by (cases opts) (auto simp: applyBatchingDefaults_def Let_def MaxBatchMeteredBytes_def)
  then have "1 \<le> unat (bo_MaxMeteredBytes ?o) \<and> unat (bo_MaxMeteredBytes ?o) \<le> 1048576"
    by (simp add: word_le_nat_alt unat_eq_zero Suc_le_eq unat_gt_0)
  with rec show ?thesis by (simp add: opts_ok_def)
qed

interpretation batcher: invariant_system "batcher_init opts" batcher_step
  "batcher_inv (bo_MatchSeqNum (applyBatchingDefaults opts))"
  for opts
proof unfold_locales
  fix s s' assume inv: "batcher_inv (bo_MatchSeqNum (applyBatchingDefaults opts)) s" and "batcher_step s s'"
  from this(2) inv show "batcher_inv (bo_MatchSeqNum (applyBatchingDefaults opts)) s'"
    by cases (auto simp: Flush_def flushForBackpressure_def flush_keeps_inv flushBarrier_inv
        flushFromTimer_inv close_batcher_inv dest: addWithPermit_inv)
next
  fix s assume "batcher_init opts s"
  then show "batcher_inv (bo_MatchSeqNum (applyBatchingDefaults opts)) s"
    using applyBatchingDefaults_ok [of opts]
    by (auto simp: batcher_init_def batcher_inv_def batcher_core_def NewBatcher_def Let_def
        opts_ok_def split: option.splits)
qed

section \<open>Properties\<close>

fun event_records :: "batch_event \<Rightarrow> AppendRecord list" where
  "event_records (Batch input meta) = ai_Records input"
| "event_records (Dropped records meta err) = records"
| "event_records (Barrier k) = []"

lemma event_group_records: "list_all2 event_group evs groups \<Longrightarrow>
    concat (map event_records evs) = map fst (concat groups)"
proof (induction evs groups rule: list_all2_induct)
  case (Cons ev evs g groups)
  then show ?case by (cases ev) auto
qed simp

text \<open>C21: The batcher neither loses, duplicates nor reorders records: the records of the batches
  emitted and of the batches dropped because the context was done, followed by what is still
  buffered, are exactly the records accepted, in the order they were added; and every batch carries
  the result channels and permits of exactly its own records, each with the position of its record.\<close>

theorem batcher_conserves_records:
  assumes "reach (batcher_init opts) batcher_step (b, accepted)"
  shows "concat (map event_records (b_out b)) @ b_buffer b = map fst accepted \<and>
    (\<exists>groups pending. accepted = concat groups @ pending \<and> list_all2 event_group (b_out b) groups \<and>
      b_recordMeta b = meta_of pending)"
proof -
  obtain groups pending where "list_all2 event_group (b_out b) groups" "accepted = concat groups @ pending"
    "b_buffer b = map fst pending" "b_recordMeta b = meta_of pending"
    using batcher.reach_inv [OF assms] by (auto simp: batcher_inv_def batcher_core_def)
  then show ?thesis using event_group_records by fastforce
qed

text \<open>C22: Every batch the batcher emits passes the append validation, whatever the configured limits,
  as long as the fencing token is short enough: batch limits are never exceeded.\<close>

theorem batcher_batches_valid:
  assumes "reach (batcher_init opts) batcher_step (b, accepted)" "Batch input meta \<in> set (b_out b)"
    and "case bo_FencingToken (b_opts b) of None \<Rightarrow> True | Some t \<Rightarrow> length t \<le> MaxFencingTokenLength"
  shows "\<exists>n. validateAppendInput (Some input) = Inr n \<and> nat n \<le> unat (bo_MaxMeteredBytes (b_opts b))"
proof -
  have v: "event_valid (b_opts b) (Batch input meta)" and o: "opts_ok (b_opts b)"
    using batcher.reach_inv [OF assms(1)] assms(2) by (auto simp: batcher_inv_def batcher_core_def)
  then have small: "(\<Sum>r\<leftarrow>ai_Records input. metered_size r) \<le> 1048576" by (auto simp: opts_ok_def)
  then have "MeteredBatchBytes (ai_Records input) = int (\<Sum>r\<leftarrow>ai_Records input. metered_size r)"
    by (intro MeteredBatchBytes_eq) (rule le_less_trans, assumption, simp)
  with v o small assms(3) show ?thesis
    by (auto simp: validateAppendInput_Inr opts_ok_def MaxBatchRecords_def MaxBatchMeteredBytes_def
        split: option.splits)
qed

text \<open>With a starting sequence number configured, the batches emitted match consecutive ranges:
  the first one the starting number and each following one the number after the records of the batch
  before it, also when batches in between were dropped.\<close>

theorem batcher_match_seq_nums:
  assumes "reach (batcher_init opts) batcher_step (b, accepted)"
  shows "match_chain (bo_MatchSeqNum (applyBatchingDefaults opts)) (b_out b) (b_nextMatchSeqNum b)"
  using batcher.reach_inv [OF assms] by (auto simp: batcher_inv_def batcher_core_def)

text \<open>A record never stays in the buffer unnoticed: while records are buffered the batcher is open
  and (with a positive linger) a timer is armed whose expiry empties the buffer; a timer that was
  superseded by a flush changes nothing.\<close>

theorem batcher_linger:
  assumes "reach (batcher_init opts) batcher_step (b, accepted)" "b_buffer b \<noteq> []"
  shows "\<not> b_closed b \<and> (0 < bo_Linger (b_opts b) \<longrightarrow> b_timer b) \<and>
    (b_timer b \<longrightarrow> b_buffer (flushFromTimer b (b_timerSeq b) sel) = []) \<and>
    (tseq \<noteq> b_timerSeq b \<longrightarrow> flushFromTimer b tseq sel = b)"
  using batcher.reach_inv [OF assms(1)] assms(2)
    flushLocked_fields(1) [OF _ prod.collapse [symmetric], of "b\<lparr>b_timer := False\<rparr>" sel]
  by (auto simp: batcher_inv_def flushFromTimer_def)

text \<open>After closing, nothing is sent any more (a send on the closed channel would panic) and no
  record is accepted: whatever operation runs next, a late timer included, the output and the set of
  accepted records stay as they were.\<close>

theorem batcher_closed_final:
  assumes "reach (batcher_init opts) batcher_step (b, accepted)" "b_closed b"
    and "batcher_step (b, accepted) (b', accepted')"
  shows "b_out b' = b_out b \<and> accepted' = accepted \<and> b_buffer b' = []"
proof -
  have "b_buffer b = []" "\<not> b_timer b"
    using batcher.reach_inv [OF assms(1)] assms(2) by (auto simp: batcher_inv_def)
  with assms(3,2) show ?thesis
    by cases (auto simp: addWithPermit_eq Flush_def flushForBackpressure_def flushBarrier_def
        flushFromTimer_def close_batcher_def)
qed

section \<open>Witnesses\<close>

definition tiny_opts :: BatchingOptions where
  "tiny_opts = \<lparr>bo_Linger = 7, bo_MaxRecords = 2, bo_MaxMeteredBytes = 100, bo_MatchSeqNum = Some 5,
     bo_FencingToken = Some ''t'', bo_ChannelBuffer = 1\<rparr>"

definition rec_of :: "byte \<Rightarrow> AppendRecord" where
  "rec_of x = \<lparr>ar_Timestamp = None, ar_Headers = [], ar_Body = [x]\<rparr>"

lemma rec_of_size: "metered_size (rec_of x) = 9" "MeteredPayloadBytes (rec_of x) = 9"
  by (simp_all add: rec_of_def metered_size_def MeteredPayloadBytes_def headers_size_def)

text \<open>Three records with a limit of two: one batch sent, one record waiting with its timer armed.\<close>

definition b1 :: Batcher where "b1 = snd (addWithPermit (NewBatcher (Some tiny_opts)) (rec_of 1) (Some 11) None None None)"
definition b2 :: Batcher where "b2 = snd (addWithPermit b1 (rec_of 2) None None None None)"
definition b3 :: Batcher where "b3 = snd (addWithPermit b2 (rec_of 3) (Some 13) (Some 4) None None)"

lemma tiny_defaults: "applyBatchingDefaults (Some tiny_opts) = tiny_opts"
  by (simp add: applyBatchingDefaults_def tiny_opts_def MaxBatchRecords_def MaxBatchMeteredBytes_def)

lemma tiny_start:
  "NewBatcher (Some tiny_opts) = \<lparr>b_opts = tiny_opts, b_buffer = [], b_bufferBytes = 0, b_recordMeta = [],
     b_timer = False, b_timerSeq = 0, b_closed = False, b_closeErr = None, b_nextMatchSeqNum = Some 5,
     b_out = [], b_chanClosed = False\<rparr>"
  by (simp add: NewBatcher_def tiny_defaults) (simp add: tiny_opts_def)

lemmas add_eval = addWithPermit_eq push_record_fields after_push_def too_full_def flushLocked_def
  rec_of_size Let_def

lemma b1_eq: "b1 = \<lparr>b_opts = tiny_opts, b_buffer = [rec_of 1], b_bufferBytes = 9,
     b_recordMeta = [\<lparr>rm_index = 0, rm_resultCh = 11, rm_permit = None\<rparr>],
     b_timer = True, b_timerSeq = 1, b_closed = False, b_closeErr = None, b_nextMatchSeqNum = Some 5,
     b_out = [], b_chanClosed = False\<rparr>"
  by (simp add: b1_def tiny_start add_eval) (simp add: tiny_opts_def)

definition tiny_input :: AppendInput where
  "tiny_input = \<lparr>ai_Records = [rec_of 1, rec_of 2], ai_MatchSeqNum = Some 5, ai_FencingToken = Some ''t'',
     ai_StreamConfig = None\<rparr>"

lemma b2_eq: "b2 = \<lparr>b_opts = tiny_opts, b_buffer = [], b_bufferBytes = 0, b_recordMeta = [],
     b_timer = False, b_timerSeq = 1, b_closed = False, b_closeErr = None, b_nextMatchSeqNum = Some 7,
     b_out = [Batch tiny_input [\<lparr>rm_index = 0, rm_resultCh = 11, rm_permit = None\<rparr>]], b_chanClosed = False\<rparr>"
  by (simp add: b2_def b1_eq add_eval tiny_input_def) (simp add: tiny_opts_def)

lemma b3_eq: "b3 = \<lparr>b_opts = tiny_opts, b_buffer = [rec_of 3], b_bufferBytes = 9,
     b_recordMeta = [\<lparr>rm_index = 0, rm_resultCh = 13, rm_permit = Some 4\<rparr>],
     b_timer = True, b_timerSeq = 2, b_closed = False, b_closeErr = None, b_nextMatchSeqNum = Some 7,
     b_out = [Batch tiny_input [\<lparr>rm_index = 0, rm_resultCh = 11, rm_permit = None\<rparr>]], b_chanClosed = False\<rparr>"
  by (simp add: b3_def b2_eq add_eval) (simp add: tiny_opts_def)

definition tiny_accepted :: "entry list" where
  "tiny_accepted = [(rec_of 1, Some 11, None), (rec_of 2, None, None), (rec_of 3, Some 13, Some 4)]"

lemma add_reach:
  assumes "reach (batcher_init opts) batcher_step (b, acc)" "metered_size rec < 2 ^ 64"
    and "fst (addWithPermit b rec ch permit None None) = None"
  shows "reach (batcher_init opts) batcher_step
    (snd (addWithPermit b rec ch permit None None), acc @ [(rec, ch, permit)])"
proof -
  have "addWithPermit b rec ch permit None None = (None, snd (addWithPermit b rec ch permit None None))"
    using assms(3) by (simp add: prod_eq_iff)
  from reach_step [OF assms(1) step_add [OF assms(2) this]] show ?thesis by simp
qed

lemma tiny_reach: "reach (batcher_init (Some tiny_opts)) batcher_step (b3, tiny_accepted)"
proof -
  have 0: "reach (batcher_init (Some tiny_opts)) batcher_step (NewBatcher (Some tiny_opts), [])"
    by (rule reach_init) (simp add: batcher_init_def)
  have ok: "fst (addWithPermit b (rec_of x) ch p None None) = None" if "b_opts b = tiny_opts" "\<not> b_closed b" for b x ch p
    using that by (simp add: addWithPermit_eq rec_of_size tiny_opts_def)
  have 1: "reach (batcher_init (Some tiny_opts)) batcher_step (b1, [(rec_of 1, Some 11, None)])"
    using add_reach [OF 0, of "rec_of 1" "Some 11" None] ok [of "NewBatcher (Some tiny_opts)"]
    by (simp add: b1_def rec_of_size tiny_start)
  have 2: "reach (batcher_init (Some tiny_opts)) batcher_step (b2, [(rec_of 1, Some 11, None), (rec_of 2, None, None)])"
    using add_reach [OF 1, of "rec_of 2" None None] ok [of b1] by (simp add: b2_def rec_of_size b1_eq)
  show ?thesis
    using add_reach [OF 2, of "rec_of 3" "Some 13" "Some 4"] ok [of b2]
    by (simp add: b3_def rec_of_size b2_eq tiny_accepted_def)
qed

theorem batcher_conserves_records_witness:
  "concat (map event_records (b_out b3)) @ b_buffer b3 = [rec_of 1, rec_of 2, rec_of 3]"
  using batcher_conserves_records [OF tiny_reach] by (simp add: tiny_accepted_def)

theorem batcher_batches_valid_witness: "\<exists>n. validateAppendInput (Some tiny_input) = Inr n \<and> nat n \<le> 100"
  using batcher_batches_valid [OF tiny_reach, of tiny_input]
  by (simp add: b3_eq) (simp add: tiny_opts_def MaxFencingTokenLength_def)

theorem batcher_match_seq_nums_witness: "match_chain (Some 5) (b_out b3) (Some 7)"
  using batcher_match_seq_nums [OF tiny_reach]
  by (simp add: tiny_defaults b3_eq) (simp add: tiny_opts_def tiny_input_def)

theorem batcher_linger_witness: "b_timer b3 \<and> b_buffer (flushFromTimer b3 2 None) = []"
  using batcher_linger [OF tiny_reach, of None 0] by (simp add: b3_eq)

theorem batcher_closed_final_witness:
  "b_out (flushFromTimer (snd (close_batcher b3 None)) 2 None) = b_out (snd (close_batcher b3 None))"
proof -
  have "reach (batcher_init (Some tiny_opts)) batcher_step (snd (close_batcher b3 None), tiny_accepted)"
    by (rule reach_step [OF tiny_reach step_close])
  from batcher_closed_final [OF this _ step_timer] show ?thesis
    by (simp add: close_batcher_def b3_eq flushLocked_def Let_def)
qed

end
