(* ===== verification/Capacity.thy ===== *)
theory Capacity
  imports Step_Systems Errors
begin

text \<open>
  The in-flight capacity of an append session (\<open>src/s2/capacity.go\<close>): bytes and items reserved
  before a batch is queued and released when it is resolved.  The counters are Go \<open>int64\<close>/\<open>int\<close>
  values, so every addition goes through \<open>i64\<close>.  \<open>ctx.Err()\<close> is a parameter (\<open>ctxErr\<close>).

  \<open>reserve\<close> waits on a condition variable.  Each time it holds the mutex it sees some state of the
  tracker and of the context; the model takes the sequence of what it sees, and \<open>None\<close> means that
  it is still waiting when the sequence ends.
\<close>

record capacityTracker =
  ct_maxBytes :: int
  ct_maxItems :: int
  ct_curBytes :: int
  ct_curItems :: int
  ct_closed :: bool

definition newCapacityTracker :: "int \<Rightarrow> int \<Rightarrow> capacityTracker" where
  "newCapacityTracker maxBytes maxItems =
     \<lparr>ct_maxBytes = maxBytes, ct_maxItems = maxItems, ct_curBytes = 0, ct_curItems = 0, ct_closed = False\<rparr>"

definition hasCapacity :: "capacityTracker \<Rightarrow> int \<Rightarrow> bool" where
  "hasCapacity c bytes =
     (if ct_maxBytes c > 0 \<and> i64 (ct_curBytes c + bytes) > ct_maxBytes c then False
      else if ct_maxItems c > 0 \<and> ct_curItems c \<ge> ct_maxItems c then False
      else True)"

definition reserveLocked :: "capacityTracker \<Rightarrow> int \<Rightarrow> capacityTracker" where
  "reserveLocked c bytes =
     (let c = c\<lparr>ct_curBytes := i64 (ct_curBytes c + bytes)\<rparr>
      in if ct_maxItems c > 0 then c\<lparr>ct_curItems := i64 (ct_curItems c + 1)\<rparr> else c)"

definition tryReserve ::
    "capacityTracker \<Rightarrow> goerr option \<Rightarrow> int \<Rightarrow> (goerr + bool) \<times> capacityTracker" where
  "tryReserve c ctxErr bytes =
     (if ct_maxBytes c > 0 \<and> bytes > ct_maxBytes c then
        (Inl (errorf (''batch size '' @ dec_int bytes @ '' exceeds max inflight bytes '' @
           dec_int (ct_maxBytes c))), c)
      else if ct_maxItems c \<noteq> 0 \<and> ct_maxItems c < 1 then
        (Inl (errorf (''max inflight batches must be at least 1, got '' @ dec_int (ct_maxItems c))), c)
      else if ct_closed c then (Inl (Sentinel ErrSessionClosed), c)
      else case ctxErr of
             Some err \<Rightarrow> (Inl err, c)
           | None \<Rightarrow>
               if \<not> hasCapacity c bytes then (Inr False, c)
               else (Inr True, reserveLocked c bytes))"

text \<open>The checks made under the lock, once before the wait loop and at every wake-up.\<close>

fun reserve_wait ::
    "int \<Rightarrow> (capacityTracker \<times> goerr option) list \<Rightarrow> (goerr option \<times> capacityTracker) option" where
  "reserve_wait bytes [] = None"
| "reserve_wait bytes ((c, ctxErr) # seen) =
     (if ct_closed c then Some (Some (Sentinel ErrSessionClosed), c)
      else case ctxErr of
             Some err \<Rightarrow> Some (Some err, c)
           | None \<Rightarrow>
               if hasCapacity c bytes then Some (None, reserveLocked c bytes)
               else reserve_wait bytes seen)"

fun reserve ::
    "int \<Rightarrow> (capacityTracker \<times> goerr option) list \<Rightarrow> (goerr option \<times> capacityTracker) option" where
  "reserve bytes [] = None"
| "reserve bytes ((c, ctxErr) # seen) =
     (case tryReserve c ctxErr bytes of
        (Inl err, c) \<Rightarrow> Some (Some err, c)
      | (Inr True, c) \<Rightarrow> Some (None, c)
      | (Inr False, c) \<Rightarrow> reserve_wait bytes seen)"

definition release :: "capacityTracker \<Rightarrow> int \<Rightarrow> capacityTracker" where
  "release c bytes =
     (let c = (if bytes > 0 then
            let c = c\<lparr>ct_curBytes := i64 (ct_curBytes c - bytes)\<rparr>
            in if ct_curBytes c < 0 then c\<lparr>ct_curBytes := 0\<rparr> else c
          else c)
      in if ct_maxItems c > 0 \<and> ct_curItems c > 0 then c\<lparr>ct_curItems := i64 (ct_curItems c - 1)\<rparr> else c)"

definition Close_capacity :: "capacityTracker \<Rightarrow> capacityTracker" where
  "Close_capacity c = (if ct_closed c then c else c\<lparr>ct_closed := True\<rparr>)"

section \<open>The contract of an account\<close>

text \<open>
  What a client needs: an admitted amount is added, an amount given back is subtracted, and the
  total stays between 0 and the limit.  Then the client's own list of what it holds and the
  account agree whatever the order of operations.
\<close>

locale capacity_account =
  fixes ok :: "'c \<Rightarrow> bool" and held :: "'c \<Rightarrow> int" and limit :: "'c \<Rightarrow> int"
    and admits :: "'c \<Rightarrow> int \<Rightarrow> bool"
    and acquire :: "'c \<Rightarrow> int \<Rightarrow> 'c" and give_back :: "'c \<Rightarrow> int \<Rightarrow> 'c"
  assumes acquire_law: "ok c \<Longrightarrow> 0 \<le> n \<Longrightarrow> admits c n \<Longrightarrow>
      ok (acquire c n) \<and> held (acquire c n) = held c + n \<and> limit (acquire c n) = limit c"
    and give_back_law: "ok c \<Longrightarrow> 0 \<le> n \<Longrightarrow> n \<le> held c \<Longrightarrow>
      ok (give_back c n) \<and> held (give_back c n) = held c - n \<and> limit (give_back c n) = limit c"
    and bounded: "ok c \<Longrightarrow> 0 \<le> held c \<and> held c \<le> limit c"
begin

lemma ledger_acquire:
  assumes "ok c" "held c = sum_list out" "0 \<le> n" "admits c n"
  shows "ok (acquire c n) \<and> held (acquire c n) = sum_list (n # out)"
  using acquire_law [OF assms(1,3,4)] assms(2) by simp

lemma ledger_give_back:
  assumes "ok c" "held c = sum_list out" "n \<in> set out" "\<forall>m\<in>set out. 0 \<le> m"
  shows "ok (give_back c n) \<and> held (give_back c n) = sum_list (remove1 n out)"
  using give_back_law [OF assms(1), of n] assms by (simp add: sum_list_remove1 member_le_sum_list)

lemma ledger_bounded: "ok c \<Longrightarrow> held c = sum_list out \<Longrightarrow> sum_list out \<le> limit c"
  using bounded [of c] by simp

lemma ledger_give_back_all:
  assumes "ok c" "held c = sum_list out" "\<forall>m\<in>set out. 0 \<le> m"
  shows "ok (foldl give_back c out) \<and> held (foldl give_back c out) = 0"
  using assms
proof (induction out arbitrary: c)
  case (Cons n out)
  with give_back_law [of c n] show ?case by (simp add: sum_list_nonneg_int)
qed simp

end

section \<open>The tracker keeps the contract\<close>

text \<open>Limits below \<open>2 ^ 62\<close> keep the addition of two admitted amounts inside \<open>int64\<close>.\<close>

definition tracker_ok :: "capacityTracker \<Rightarrow> bool" where
  "tracker_ok c \<longleftrightarrow> 0 < ct_maxBytes c \<and> ct_maxBytes c < 2 ^ 62 \<and>
     0 \<le> ct_maxItems c \<and> ct_maxItems c < 2 ^ 62 \<and>
     0 \<le> ct_curBytes c \<and> ct_curBytes c \<le> ct_maxBytes c \<and>
     0 \<le> ct_curItems c \<and> ct_curItems c \<le> ct_maxItems c"

lemma reserveLocked_ok:
  assumes "tracker_ok c" "0 \<le> n" "n \<le> ct_maxBytes c" "hasCapacity c n"
  shows "tracker_ok (reserveLocked c n) \<and> ct_curBytes (reserveLocked c n) = ct_curBytes c + n \<and>
    ct_curItems (reserveLocked c n) = (if ct_maxItems c > 0 then ct_curItems c + 1 else 0)"
  using assms by (auto simp: tracker_ok_def hasCapacity_def reserveLocked_def Let_def split: if_splits)

lemma release_ok:
  assumes "tracker_ok c" "0 \<le> n" "n \<le> ct_curBytes c"
  shows "tracker_ok (release c n) \<and> ct_curBytes (release c n) = ct_curBytes c - n \<and>
    ct_curItems (release c n) = max 0 (ct_curItems c - 1)"
  using assms by (auto simp: tracker_ok_def release_def Let_def split: if_splits)

lemma reserveLocked_frame [frame_simps, simp]:
  "ct_maxBytes (reserveLocked c n) = ct_maxBytes c" "ct_maxItems (reserveLocked c n) = ct_maxItems c"
  "ct_closed (reserveLocked c n) = ct_closed c"
  by (simp_all add: reserveLocked_def Let_def)

lemma release_frame [frame_simps, simp]:
  "ct_maxBytes (release c n) = ct_maxBytes c" "ct_maxItems (release c n) = ct_maxItems c"
  "ct_closed (release c n) = ct_closed c"
  by (simp_all add: release_def Let_def)

lemma Close_frame [frame_simps, simp]:
  "ct_maxBytes (Close_capacity c) = ct_maxBytes c" "ct_maxItems (Close_capacity c) = ct_maxItems c"
  "ct_curBytes (Close_capacity c) = ct_curBytes c" "ct_curItems (Close_capacity c) = ct_curItems c"
  "ct_closed (Close_capacity c)"
  by (simp_all add: Close_capacity_def)

definition tracker_admits :: "capacityTracker \<Rightarrow> int \<Rightarrow> bool" where
  "tracker_admits c n \<longleftrightarrow> n \<le> ct_maxBytes c \<and> hasCapacity c n"

interpretation tracker: capacity_account tracker_ok ct_curBytes ct_maxBytes tracker_admits
  reserveLocked release
proof unfold_locales
  fix c n
  assume "tracker_ok c" "0 \<le> n" "tracker_admits c n"
  then show "tracker_ok (reserveLocked c n) \<and> ct_curBytes (reserveLocked c n) = ct_curBytes c + n \<and>
      ct_maxBytes (reserveLocked c n) = ct_maxBytes c"
    using reserveLocked_ok [of c n] by (simp add: tracker_admits_def)
next
  fix c n
  assume "tracker_ok c" "0 \<le> n" "n \<le> ct_curBytes c"
  then show "tracker_ok (release c n) \<and> ct_curBytes (release c n) = ct_curBytes c - n \<and>
      ct_maxBytes (release c n) = ct_maxBytes c"
    using release_ok [of c n] by simp
qed (simp add: tracker_ok_def)

section \<open>The tracker in use\<close>

text \<open>
  Clients reserve (at once or after waiting), release what they hold and close, in any order.  The
  second component is the list of amounts held.
\<close>

inductive capacity_step :: "capacityTracker \<times> int list \<Rightarrow> capacityTracker \<times> int list \<Rightarrow> bool" where
  try_granted: "0 \<le> n \<Longrightarrow> tryReserve c ctxErr n = (Inr True, c') \<Longrightarrow>
    capacity_step (c, out) (c', n # out)"
| try_refused: "tryReserve c ctxErr n = (r, c') \<Longrightarrow> r \<noteq> Inr True \<Longrightarrow> capacity_step (c, out) (c', out)"
| wait_granted: "0 \<le> n \<Longrightarrow> n \<le> ct_maxBytes c \<Longrightarrow> reserve_wait n [(c, ctxErr)] = Some (None, c') \<Longrightarrow>
    capacity_step (c, out) (c', n # out)"
| released: "n \<in> set out \<Longrightarrow> capacity_step (c, out) (release c n, remove1 n out)"
| closing: "capacity_step (c, out) (Close_capacity c, out)"

inductive_cases capacity_stepE: "capacity_step (c, out) s'"

definition ledger_inv :: "capacityTracker \<times> int list \<Rightarrow> bool" where
  "ledger_inv s \<longleftrightarrow> (case s of (c, out) \<Rightarrow>
     tracker_ok c \<and> (\<forall>n\<in>set out. 0 \<le> n) \<and> ct_curBytes c = sum_list out \<and>
     (ct_maxItems c > 0 \<longrightarrow> ct_curItems c = int (length out)))"

lemma tryReserve_granted:
  assumes "tryReserve c ctxErr n = (Inr True, c')" "tracker_ok c"
  shows "c' = reserveLocked c n \<and> n \<le> ct_maxBytes c \<and> hasCapacity c n \<and> \<not> ct_closed c"
  using assms by (auto simp: tryReserve_def tracker_ok_def split: if_splits option.splits)

lemma tryReserve_refused:
  "tryReserve c ctxErr n = (r, c') \<Longrightarrow> r \<noteq> Inr True \<Longrightarrow> c' = c"
  by (auto simp: tryReserve_def split: if_splits option.splits)

lemma tryReserve_closed: "ct_closed c \<Longrightarrow> \<exists>e'. tryReserve c e n = (Inl e', c)"
  by (simp add: tryReserve_def)

lemma reserve_wait_granted:
  "reserve_wait n [(c, ctxErr)] = Some (None, c') \<Longrightarrow>
     c' = reserveLocked c n \<and> hasCapacity c n \<and> \<not> ct_closed c"
  by (auto split: if_splits option.splits)

lemma ledger_grant:
  assumes "ledger_inv (c, out)" "0 \<le> n" "n \<le> ct_maxBytes c" "hasCapacity c n"
  shows "ledger_inv (reserveLocked c n, n # out)"
  using assms reserveLocked_ok [of c n] by (auto simp: ledger_inv_def)

lemma ledger_release:
  assumes "ledger_inv (c, out)" "n \<in> set out"
  shows "ledger_inv (release c n, remove1 n out)"
proof -
  have "n \<le> ct_curBytes c" "0 \<le> n" using assms by (auto simp: ledger_inv_def member_le_sum_list)
  moreover have "length out \<noteq> 0" using assms(2) by auto
  ultimately show ?thesis using assms release_ok [of c n]
    by (auto simp: ledger_inv_def sum_list_remove1 length_remove1 of_nat_diff Suc_le_eq
        dest: notin_set_remove1)
qed

definition capacity_init :: "int \<Rightarrow> int \<Rightarrow> capacityTracker \<times> int list \<Rightarrow> bool" where
  "capacity_init maxBytes maxItems s \<longleftrightarrow> s = (newCapacityTracker maxBytes maxItems, []) \<and>
     0 < maxBytes \<and> maxBytes < 2 ^ 62 \<and> 0 \<le> maxItems \<and> maxItems < 2 ^ 62"

interpretation ledger: invariant_system "capacity_init maxBytes maxItems" capacity_step
  "\<lambda>s. ledger_inv s \<and> ct_maxBytes (fst s) = maxBytes \<and> ct_maxItems (fst s) = maxItems"
proof unfold_locales
  fix s s' assume inv: "ledger_inv s \<and> ct_maxBytes (fst s) = maxBytes \<and> ct_maxItems (fst s) = maxItems"
    and step: "capacity_step s s'"
  from step inv show "ledger_inv s' \<and> ct_maxBytes (fst s') = maxBytes \<and> ct_maxItems (fst s') = maxItems"
  proof cases
    case (try_granted n c ctxErr c' out)
    with inv have "c' = reserveLocked c n \<and> n \<le> ct_maxBytes c \<and> hasCapacity c n"
      using tryReserve_granted [OF try_granted(4)] by (simp add: ledger_inv_def)
    with inv try_granted ledger_grant [of c out n] show ?thesis by simp
  next
    case (wait_granted n c ctxErr c' out)
    with inv reserve_wait_granted [OF wait_granted(5)] ledger_grant [of c out n] show ?thesis by simp
  next
    case (closing c out)
    with inv show ?thesis by (auto simp: ledger_inv_def tracker_ok_def)
  qed (use inv in \<open>auto simp: ledger_release dest: tryReserve_refused\<close>)
qed (auto simp: capacity_init_def ledger_inv_def tracker_ok_def newCapacityTracker_def)

section \<open>Properties\<close>

text \<open>Whatever the order of reservations, waits, releases and closing, the tracker's byte count
  is the sum of the reservations held and never exceeds the limit, the item count is their number
  and never exceeds its limit, and neither counter wraps or goes negative.\<close>

theorem capacity_never_exceeded:
  assumes "reach (capacity_init maxBytes maxItems) capacity_step (c, out)"
  shows "ct_curBytes c = sum_list out \<and> 0 \<le> ct_curBytes c \<and> ct_curBytes c \<le> maxBytes \<and>
    (0 < maxItems \<longrightarrow> ct_curItems c = int (length out) \<and> int (length out) \<le> maxItems)"
  using ledger.reach_inv [OF assms] by (auto simp: ledger_inv_def tracker_ok_def)

text \<open>No reservation waits for ever: once everything held is released, a request within the byte
  limit is granted at once by an open tracker with a live context; and a request above the limit is
  refused with an error instead of waiting.\<close>

theorem reserve_not_stuck:
  assumes "ledger_inv (c, out)" "0 \<le> n"
  shows "(n \<le> ct_maxBytes c \<longrightarrow> \<not> ct_closed c \<longrightarrow>
       fst (tryReserve (foldl release c out) None n) = Inr True) \<and>
    (ct_maxBytes c < n \<longrightarrow> (\<exists>e c'. reserve n [(c, None)] = Some (Some e, c')))"
proof -
  have "ledger_inv (foldl release c out, []) \<and> ct_maxBytes (foldl release c out) = ct_maxBytes c \<and>
      ct_maxItems (foldl release c out) = ct_maxItems c \<and> ct_closed (foldl release c out) = ct_closed c"
    using assms(1)
  proof (induction out arbitrary: c)
    case (Cons m out)
    from ledger_release [OF Cons.prems, of m] have "ledger_inv (release c m, out)" by simp
    with Cons.IH [OF this] show ?case by simp
  qed simp
  then show ?thesis using assms
    by (auto simp: ledger_inv_def tracker_ok_def tryReserve_def hasCapacity_def)
qed

text \<open>After \<open>Close\<close> no call of \<open>reserve\<close> succeeds, neither a new one nor one that was waiting: as
  soon as it sees the closed tracker it returns an error.\<close>

theorem closed_never_grants:
  assumes "\<forall>(c, e) \<in> set seen. ct_closed c"
  shows "reserve n seen \<noteq> Some (None, c') \<and>
    (seen \<noteq> [] \<longrightarrow> (\<exists>e c. reserve n seen = Some (Some e, c)) \<and>
      (\<forall>c e. (c, e) \<in> set seen \<longrightarrow> (\<exists>r. reserve_wait n [(c, e)] = Some (Some (Sentinel ErrSessionClosed), r))))"
proof (cases seen)
  case (Cons s rest)
  obtain c e where s: "s = (c, e)" by fastforce
  with assms Cons have "ct_closed c" by simp
  then obtain e' where "tryReserve c e n = (Inl e', c)" using tryReserve_closed by blast
  with assms s Cons show ?thesis by (auto split: option.splits)
qed simp

section \<open>Witnesses\<close>

theorem capacity_never_exceeded_witness:
  "let c = reserveLocked (reserveLocked (newCapacityTracker 100 5) 40) 60
   in ct_curBytes c = 100 \<and> ct_curBytes c \<le> 100 \<and> ct_curItems c = 2"
proof -
  let ?s0 = "(newCapacityTracker 100 5, [] :: int list)"
  let ?c1 = "reserveLocked (newCapacityTracker 100 5) 40"
  have "reach (capacity_init 100 5) capacity_step ?s0"
    by (rule reach_init) (simp add: capacity_init_def)
  moreover have "capacity_step ?s0 (?c1, [40])"
    by (rule try_granted [of _ _ None])
      (simp_all add: tryReserve_def hasCapacity_def newCapacityTracker_def)
  moreover have "capacity_step (?c1, [40]) (reserveLocked ?c1 60, [60, 40])"
    by (rule wait_granted [of _ _ None])
      (simp_all add: hasCapacity_def newCapacityTracker_def reserveLocked_def)
  ultimately have "reach (capacity_init 100 5) capacity_step (reserveLocked ?c1 60, [60, 40])"
    by (meson reach_step)
  from capacity_never_exceeded [OF this] show ?thesis by simp
qed

theorem reserve_not_stuck_witness:
  "fst (tryReserve (foldl release (reserveLocked (newCapacityTracker 100 5) 40) [40]) None 100) = Inr True"
proof -
  have "ledger_inv (reserveLocked (newCapacityTracker 100 5) 40, [40])"
    by (simp add: ledger_inv_def tracker_ok_def newCapacityTracker_def reserveLocked_def)
  from reserve_not_stuck [OF this, of 100] show ?thesis by (simp add: newCapacityTracker_def)
qed

theorem closed_never_grants_witness:
  "\<exists>e c. reserve 1 [(Close_capacity (newCapacityTracker 100 5), None)] = Some (Some e, c)"
  using closed_never_grants [of "[(Close_capacity (newCapacityTracker 100 5), None)]" 1] by simp

end
