(* ===== verification/Transport.thy ===== *)
theory Transport
  imports Framing Records
begin

text \<open>
  One streaming append connection, \<open>transportAppendSession\<close> of \<open>src/s2/append.go\<close>: writing inputs as
  frames, reading acknowledgement frames and publishing them on \<open>acksCh\<close>, reporting errors on
  \<open>errorsCh\<close>, half-close and close.  The state is a record; the channels are the lists of what has been
  sent on them, the request pipe is the list of frames written.  Where a Go \<open>select\<close> may take either of
  two ready cases, the choice is the field \<open>te_pickSend\<close> of the environment.  Compression, JSON and
  protobuf are parameters (\<open>te_codec\<close>, \<open>te_json\<close>, \<open>te_marshal\<close>, \<open>te_unmarshalAck\<close>).
\<close>

section \<open>State\<close>

record transportAppendSession =
  ts_acksCh :: "AppendAck list"
  ts_errorsCh :: "goerr list"
  ts_acksClosed :: bool
  ts_errorsClosed :: bool
  ts_closed :: bool
  ts_conn :: bool
  ts_requestWriter :: bool
  ts_wire :: "byte list list"
  ts_pendingWrites :: int
  ts_terminalErr :: "goerr option"
  ts_reconnectAdvised :: bool
  ts_reconnectDeclined :: bool
  ts_halfCloseDone :: bool
  ts_poisoned :: bool

record transport_env =
  te_codec :: codec
  te_json :: json_codec
  te_statusText :: "int \<Rightarrow> string"
  te_quoted :: "byte list \<Rightarrow> string"
  te_compression :: CompressionType
  te_marshal :: "pb_AppendInput option \<Rightarrow> goerr + byte list"
  te_unmarshalAck :: "byte list \<Rightarrow> goerr + pb_AppendAck"
  te_pickSend :: bool

text \<open>The session right after \<open>createAppendSession\<close>: channels made, the pipe writer installed.\<close>

definition createAppendSession :: transportAppendSession where
  "createAppendSession = \<lparr>ts_acksCh = [], ts_errorsCh = [], ts_acksClosed = False, ts_errorsClosed = False,
     ts_closed = False, ts_conn = False, ts_requestWriter = True, ts_wire = [], ts_pendingWrites = 0,
     ts_terminalErr = None, ts_reconnectAdvised = False, ts_reconnectDeclined = False,
     ts_halfCloseDone = False, ts_poisoned = False\<rparr>"

section \<open>Errors and closing\<close>

definition isClosed :: "transportAppendSession \<Rightarrow> bool" where
  "isClosed p = ts_closed p"

definition terminalError :: "transportAppendSession \<Rightarrow> goerr option" where
  "terminalError p = ts_terminalErr p"

definition recordTerminalError :: "transportAppendSession \<Rightarrow> goerr \<Rightarrow> transportAppendSession" where
  "recordTerminalError p err = (if ts_terminalErr p = None then p\<lparr>ts_terminalErr := Some err\<rparr> else p)"

text \<open>\<open>errorsCh\<close> has room for one error; the send is dropped when it is full or the session is closed
  (unless the closed session's select picks the send).\<close>

definition reportError :: "transport_env \<Rightarrow> transportAppendSession \<Rightarrow> goerr \<Rightarrow> transportAppendSession" where
  "reportError env p err =
     (let p = recordTerminalError p err in
      if ts_closed p \<and> \<not> te_pickSend env then p
      else if length (ts_errorsCh p) < 1 then p\<lparr>ts_errorsCh := ts_errorsCh p @ [err]\<rparr> else p)"

definition reportErrorIfOpen :: "transport_env \<Rightarrow> transportAppendSession \<Rightarrow> goerr \<Rightarrow> transportAppendSession" where
  "reportErrorIfOpen env p err = (if ts_closed p then p else reportError env p err)"

definition Close_transport :: "transportAppendSession \<Rightarrow> transportAppendSession" where
  "Close_transport p =
     (if ts_closed p then p
      else p\<lparr>ts_closed := True, ts_requestWriter := False, ts_conn := False\<rparr>)"

definition halfClose :: "transportAppendSession \<Rightarrow> transportAppendSession" where
  "halfClose p =
     (if ts_halfCloseDone p then p else p\<lparr>ts_halfCloseDone := True, ts_requestWriter := False\<rparr>)"

definition poison_transport :: "transportAppendSession \<Rightarrow> transportAppendSession" where
  "poison_transport p = p\<lparr>ts_poisoned := True\<rparr>"

section \<open>Reconnect advice\<close>

definition ReconnectAdvised :: "transportAppendSession \<Rightarrow> bool" where
  "ReconnectAdvised p = ts_reconnectAdvised p"

definition holdInputsForReconnect :: "transportAppendSession \<Rightarrow> bool" where
  "holdInputsForReconnect p \<longleftrightarrow> ReconnectAdvised p \<and> \<not> ts_reconnectDeclined p"

definition declineReconnect :: "transportAppendSession \<Rightarrow> transportAppendSession" where
  "declineReconnect p = p\<lparr>ts_reconnectDeclined := True\<rparr>"

section \<open>Writing\<close>

definition markWriteSignalled :: "transportAppendSession \<Rightarrow> transportAppendSession" where
  "markWriteSignalled p = p\<lparr>ts_pendingWrites := ts_pendingWrites p + 1\<rparr>"

definition markAckReceived :: "transportAppendSession \<Rightarrow> transportAppendSession" where
  "markAckReceived p =
     (if ts_pendingWrites p > 0 then p\<lparr>ts_pendingWrites := ts_pendingWrites p - 1\<rparr> else p)"

definition effectSignalled :: "transportAppendSession \<Rightarrow> bool" where
  "effectSignalled p \<longleftrightarrow> ts_pendingWrites p > 0"

text \<open>
  \<open>writer.Write\<close> blocks until the frame is taken or the pipe is closed: \<open>during\<close> is what other
  goroutines do to the session meanwhile and \<open>writeErr\<close> its result.
\<close>

definition appendInput :: "transport_env \<Rightarrow> transportAppendSession \<Rightarrow> AppendInput \<Rightarrow>
    (transportAppendSession \<Rightarrow> transportAppendSession) \<Rightarrow> goerr option \<Rightarrow>
    goerr option \<times> transportAppendSession" where
  "appendInput env p input during writeErr =
     (if isClosed p then
        (case terminalError p of Some err \<Rightarrow> (Some err, p) | None \<Rightarrow> (Some (Sentinel ErrSessionClosed), p))
      else
        let pbInput = convertAppendInputToProto (Some input) in
        case MarshalProtoFrame (te_codec env) (te_marshal env) pbInput (te_compression env) of
          Inl err \<Rightarrow> (Some (errorf_w ''failed to marshal append input: '' err), p)
        | Inr frame \<Rightarrow>
            if \<not> ts_requestWriter p then
              (case terminalError p of Some err \<Rightarrow> (Some err, p) | None \<Rightarrow> (Some (Sentinel ErrSessionClosed), p))
            else
              let p = markWriteSignalled p; p = during p in
              case writeErr of
                None \<Rightarrow> (None, p\<lparr>ts_wire := ts_wire p @ [frame]\<rparr>)
              | Some err \<Rightarrow>
                  (case terminalError p of
                     Some terminalErr \<Rightarrow> (Some terminalErr, p)
                   | None \<Rightarrow>
                       if isClosed p then (Some (Sentinel ErrSessionClosed), p)
                       else (Some (errorf_w ''failed to write frame: '' err), p)))"

section \<open>Connecting\<close>

text \<open>The answer of \<open>http.Client.Do\<close>: a failure, or a status with the error body read from it.\<close>

datatype http_answer =
    DoFailed goerr
  | DoStatus int "byte list" "goerr option"

definition connectAndRead :: "transport_env \<Rightarrow> transportAppendSession \<Rightarrow> http_answer \<Rightarrow>
    transportAppendSession \<times> bool" where
  "connectAndRead env p answer = (case answer of
     DoFailed err \<Rightarrow>
       (if isStreamResetError err
        then (reportError env p (makeStreamResetError (Some err) ''pipelined session''), False)
        else (reportError env p (errorf_w ''failed to connect: '' err), False))
   | DoStatus status body readErr \<Rightarrow>
       if status \<ge> 400 then
         let apiErr = (case readErr of Some e \<Rightarrow> newBodyReadError (te_quoted env) status body e
               | None \<Rightarrow> decodeAPIError (te_json env) (te_statusText env) status body);
             p = (if isServerDraining apiErr then poison_transport p else p)
         in (reportError env p apiErr, False)
       else if ts_closed p then (p, False)
       else (p\<lparr>ts_conn := True\<rparr>, True))"

section \<open>Reading acknowledgements\<close>

definition handleFrame :: "transport_env \<Rightarrow> transportAppendSession \<Rightarrow> S2SFrame \<Rightarrow>
    goerr option \<times> transportAppendSession" where
  "handleFrame env p frame = (case DecompressedBody (te_codec env) frame of
     Inl err \<Rightarrow> (Some (errorf_w ''failed to decompress frame: '' err), p)
   | Inr body \<Rightarrow>
       if f_Terminal frame then
         (case f_StatusCode frame of
            Some code \<Rightarrow>
              if code \<ge> 400 then
                let err = decodeAPIError (te_json env) (te_statusText env) code body;
                    p = (if isServerDraining err then poison_transport p else p)
                in (Some err, p)
              else (None, p)
          | None \<Rightarrow> (None, p))
       else
         let p = (if f_ReconnectAdvised frame then
               if \<not> ts_reconnectAdvised p then poison_transport (p\<lparr>ts_reconnectAdvised := True\<rparr>) else p
             else p)
         in case te_unmarshalAck env body of
              Inl err \<Rightarrow> (Some (errorf_w ''failed to parse AppendAck: '' err), p)
            | Inr pbAck \<Rightarrow>
                let ack = convertPbAppendAck pbAck in
                if ts_closed p \<and> \<not> te_pickSend env then (None, p)
                else (None, p\<lparr>ts_acksCh := ts_acksCh p @ [ack]\<rparr>))"

text \<open>The deferred calls at the end of the loop, in the order they run.\<close>

definition acks_loop_end :: "transportAppendSession \<Rightarrow> transportAppendSession" where
  "acks_loop_end p = Close_transport (p\<lparr>ts_errorsClosed := True, ts_acksClosed := True\<rparr>)"

partial_function (option) readAcksLoop ::
    "transport_env \<Rightarrow> transportAppendSession \<Rightarrow> FrameReader \<Rightarrow> transportAppendSession option" where
  "readAcksLoop env p fr =
     (case ReadFrame fr of
        (Inl err, fr) \<Rightarrow>
          (if isExpectedFrameReadError err then Some (acks_loop_end p)
           else Some (acks_loop_end (reportErrorIfOpen env p (errorf_w ''read frame error: '' err))))
      | (Inr frame, fr) \<Rightarrow>
          (case handleFrame env p frame of
             (Some err, p) \<Rightarrow> Some (acks_loop_end (reportErrorIfOpen env p err))
           | (None, p) \<Rightarrow> readAcksLoop env p fr))"

section \<open>The reading loop returns\<close>

lemma decode_frame_shorter: "decode_frame bs = Decoded f rest \<Longrightarrow> length rest < length bs"
proof -
  assume dec: "decode_frame bs = Decoded f rest"
  then have "length bs \<ge> 4" by (cases bs rule: decode_frame.cases) auto
  then show ?thesis using decode_frame_Decoded [OF dec] by (auto simp: length_drop)
qed

lemma ReadFrame_frame:
  assumes "parser_inv (fr_parser fr)" "ReadFrame fr = (Inr f, fr')"
  shows "decode_frame (stream_bytes fr) = Decoded f (stream_bytes fr') \<and> parser_inv (fr_parser fr') \<and>
    stream_end fr' = stream_end fr"
  using ReadFrame_stream [OF assms] by (cases "decode_frame (stream_bytes fr)") auto

lemma readAcksLoop_returns:
  "parser_inv (fr_parser fr) \<Longrightarrow> \<exists>p'. readAcksLoop env p fr = Some p'"
proof (induction "length (stream_bytes fr)" arbitrary: fr p rule: less_induct)
  case less
  obtain res fr' where run: "ReadFrame fr = (res, fr')" by fastforce
  show ?case
  proof (cases res)
    case (Inr f)
    note next' = ReadFrame_frame [OF less.prems run [unfolded Inr]]
    obtain e q where h: "handleFrame env p f = (e, q)" by fastforce
    have "\<exists>p'. readAcksLoop env q fr' = Some p'"
      using next' by (intro less.hyps) (auto dest: decode_frame_shorter)
    then show ?thesis using run Inr h by (subst readAcksLoop.simps) (auto split: option.splits)
  qed (use run in \<open>subst readAcksLoop.simps, simp\<close>)
qed

section \<open>Frames read in sequence\<close>

lemma readAcksLoop_frames:
  assumes "parser_inv (fr_parser fr)" "stream_bytes fr = concat (map enc xs) @ rest"
    and "\<And>x tl. x \<in> set xs \<Longrightarrow> decode_frame (enc x @ tl) = Decoded (g x) tl"
    and "\<And>x q. x \<in> set xs \<Longrightarrow> \<not> ts_closed q \<Longrightarrow> handleFrame env q (g x) = (None, q\<lparr>ts_acksCh := ts_acksCh q @ [a x]\<rparr>)"
    and "\<not> ts_closed p"
  shows "\<exists>fr'. readAcksLoop env p fr = readAcksLoop env (p\<lparr>ts_acksCh := ts_acksCh p @ map a xs\<rparr>) fr' \<and>
    stream_bytes fr' = rest \<and> stream_end fr' = stream_end fr \<and> parser_inv (fr_parser fr')"
  using assms
proof (induction xs arbitrary: fr p)
  case Nil
  then show ?case by auto
next
  case (Cons x xs)
  obtain res fr1 where run: "ReadFrame fr = (res, fr1)" by fastforce
  have "decode_frame (stream_bytes fr) = Decoded (g x) (concat (map enc xs) @ rest)"
    using Cons.prems(2,3) by simp
  with ReadFrame_stream [OF Cons.prems(1) run]
  have one: "res = Inr (g x)" "stream_bytes fr1 = concat (map enc xs) @ rest"
    "stream_end fr1 = stream_end fr" "parser_inv (fr_parser fr1)" by simp_all
  let ?q = "p\<lparr>ts_acksCh := ts_acksCh p @ [a x]\<rparr>"
  have "readAcksLoop env p fr = readAcksLoop env ?q fr1"
    using run one(1) Cons.prems(4) [of x p] Cons.prems(5) by (subst readAcksLoop.simps) simp
  moreover have "\<exists>fr'. readAcksLoop env ?q fr1 = readAcksLoop env (?q\<lparr>ts_acksCh := ts_acksCh ?q @ map a xs\<rparr>) fr' \<and>
    stream_bytes fr' = rest \<and> stream_end fr' = stream_end fr1 \<and> parser_inv (fr_parser fr')"
    using Cons.prems(3,4,5) by (intro Cons.IH one) auto
  ultimately show ?case using one(3) by simp
qed

lemma readAcksLoop_end:
  assumes "parser_inv (fr_parser fr)" "stream_bytes fr = []" "stream_end fr = Sentinel IoEOF"
  shows "readAcksLoop env p fr = Some (acks_loop_end p)"
proof -
  obtain res fr' where run: "ReadFrame fr = (res, fr')" by fastforce
  have "res = Inl (Sentinel IoEOF)" using ReadFrame_stream [OF assms(1) run] assms(2,3) by (simp add: truncated_def)
  moreover have "isExpectedFrameReadError (Sentinel IoEOF)"
    by (subst isExpectedFrameReadError.simps) (simp add: expected_sentinel_def errors_Is_def)
  ultimately show ?thesis using run by (subst readAcksLoop.simps) simp
qed

lemma readAcksLoop_terminal:
  assumes "parser_inv (fr_parser fr)" "decode_frame (stream_bytes fr) = Decoded f rest"
    and "handleFrame env p f = (Some err, q)"
  shows "readAcksLoop env p fr = Some (acks_loop_end (reportErrorIfOpen env q err))"
proof -
  obtain res fr' where run: "ReadFrame fr = (res, fr')" by fastforce
  have "res = Inr f" using ReadFrame_stream [OF assms(1) run] assms(2) by simp
  with run assms(3) show ?thesis by (subst readAcksLoop.simps) simp
qed

lemma handleFrame_ack:
  assumes "codec_ok (te_codec env)" "te_unmarshalAck env data = Inr pbAck" "\<not> ts_closed q"
  shows "handleFrame env q (written_frame (te_codec env) data False compression 0) =
    (None, q\<lparr>ts_acksCh := ts_acksCh q @ [convertPbAppendAck pbAck]\<rparr>)"
  using assms DecompressedBody_written [OF assms(1), of data False compression 0]
  by (simp add: handleFrame_def written_frame_def)

lemma handleFrame_error:
  assumes "codec_ok (te_codec env)" "400 \<le> code"
  shows "handleFrame env q (written_frame (te_codec env) data True compression code) =
    (let err = decodeAPIError (te_json env) (te_statusText env) code data
     in (Some err, if isServerDraining err then poison_transport q else q))"
  using assms DecompressedBody_written [OF assms(1), of data True compression code]
  by (simp add: handleFrame_def written_frame_def Let_def)

section \<open>Properties\<close>

text \<open>How the server ends the response: by closing the stream, or with a terminal frame.\<close>

definition response_end :: "codec \<Rightarrow> (int \<times> byte list) option \<Rightarrow> byte list" where
  "response_end cd fin = (case fin of None \<Rightarrow> []
     | Some (code, body) \<Rightarrow> CreateFrameWithStatus cd body True CompressionNone code)"

text \<open>However the bytes of the response are cut into reads, the acknowledgement frames the server
  wrote are published on \<open>acksCh\<close> in order and completely; the loop then ends, a final error status is
  reported as the decoded API error and a clean end as no error, both channels are closed and the
  session is closed.\<close>

theorem acks_delivered:
  assumes "codec_ok (te_codec env)" "\<not> ts_closed p" "ts_errorsCh p = []"
    and "\<forall>m\<in>set msgs. frame_len (te_codec env) (fst m) False (snd m) \<le> MaxFrameSize \<and>
           te_unmarshalAck env (fst m) = Inr (pb (fst m))"
    and "\<forall>code body. fin = Some (code, body) \<longrightarrow> 400 \<le> code \<and> code < 65536 \<and> length body + 3 \<le> MaxFrameSize"
    and "reader_bytes r = concat (map (\<lambda>m. CreateFrame (te_codec env) (fst m) False (snd m)) msgs) @
           response_end (te_codec env) fin"
    and "reader_end r = Sentinel IoEOF"
  shows "\<exists>p'. readAcksLoop env p (NewFrameReader r) = Some p' \<and>
    ts_acksCh p' = ts_acksCh p @ map (\<lambda>m. convertPbAppendAck (pb (fst m))) msgs \<and>
    ts_errorsCh p' = (case fin of None \<Rightarrow> []
      | Some (code, body) \<Rightarrow> [decodeAPIError (te_json env) (te_statusText env) code body]) \<and>
    ts_acksClosed p' \<and> ts_errorsClosed p' \<and> ts_closed p'"
proof -
  let ?cd = "te_codec env" and ?a = "\<lambda>m. convertPbAppendAck (pb (fst m))"
  have dec: "decode_frame (CreateFrame ?cd (fst m) False (snd m) @ tl) =
      Decoded (written_frame ?cd (fst m) False (snd m) 0) tl" if "m \<in> set msgs" for m tl
    using assms(1,4) that by (simp add: CreateFrame_def decode_CreateFrame)
  have hf: "handleFrame env q (written_frame ?cd (fst m) False (snd m) 0) =
      (None, q\<lparr>ts_acksCh := ts_acksCh q @ [?a m]\<rparr>)" if "m \<in> set msgs" "\<not> ts_closed q" for m q
    using handleFrame_ack [OF assms(1) _ that(2)] assms(4) that(1) by blast
  obtain fr' where fr': "readAcksLoop env p (NewFrameReader r) =
      readAcksLoop env (p\<lparr>ts_acksCh := ts_acksCh p @ map ?a msgs\<rparr>) fr'"
    "stream_bytes fr' = response_end ?cd fin" "stream_end fr' = Sentinel IoEOF" "parser_inv (fr_parser fr')"
    using readAcksLoop_frames [OF NewFrameReader_stream(3), of r "\<lambda>m. CreateFrame ?cd (fst m) False (snd m)" msgs
        "response_end ?cd fin" "\<lambda>m. written_frame ?cd (fst m) False (snd m) 0" env ?a p]
      dec hf assms(2,6,7) by auto
  show ?thesis
  proof (cases fin)
    case None
    with fr' assms(2,3) show ?thesis
      by (simp add: readAcksLoop_end response_end_def acks_loop_end_def Close_transport_def)
  next
    case (Some cb)
    obtain code body where cb: "cb = (code, body)" by fastforce
    let ?q = "p\<lparr>ts_acksCh := ts_acksCh p @ map ?a msgs\<rparr>"
    have "frame_len ?cd body True CompressionNone \<le> MaxFrameSize"
      using assms(5) Some cb by (simp add: frame_len_def frame_payload_def)
    then have "decode_frame (stream_bytes fr') = Decoded (written_frame ?cd body True CompressionNone code) []"
      using decode_CreateFrame [OF assms(1), of body True CompressionNone code "[]"] assms(5) Some cb fr'(2)
      by (simp add: response_end_def)
    note ends = readAcksLoop_terminal [OF fr'(4) this, of env ?q]
    show ?thesis using ends handleFrame_error [OF assms(1), of code ?q body CompressionNone] fr'(1) Some cb assms(2,3,5)
      by (simp add: Let_def reportErrorIfOpen_def reportError_def recordTerminalError_def poison_transport_def
          acks_loop_end_def Close_transport_def)
  qed
qed

text \<open>An input reported as written is on the wire as exactly one frame that decodes to the
  marshalled message, and counts as a pending effect; an input refused before the write (closed or
  half-closed session, marshalling error) leaves the wire and the pending count as they were.\<close>

theorem appendInput_effect:
  assumes "codec_ok (te_codec env)"
    and "\<And>data. te_marshal env (convertAppendInputToProto (Some input)) = Inr data \<Longrightarrow>
           frame_len (te_codec env) data False (te_compression env) \<le> MaxFrameSize"
  shows "(\<forall>p'. appendInput env p input id writeErr = (None, p') \<longrightarrow>
      (\<exists>frame data. ts_wire p' = ts_wire p @ [frame] \<and> ts_pendingWrites p' = ts_pendingWrites p + 1 \<and>
        te_marshal env (convertAppendInputToProto (Some input)) = Inr data \<and>
        (\<exists>f. decode_frame frame = Decoded f [] \<and> DecompressedBody (te_codec env) f = Inr data))) \<and>
    (ts_closed p \<or> \<not> ts_requestWriter p \<longrightarrow>
      (\<exists>e. appendInput env p input id writeErr = (Some e, p)))"
proof (cases "te_marshal env (convertAppendInputToProto (Some input))")
  case (Inr data)
  have frame: "MarshalProtoFrame (te_codec env) (te_marshal env) (convertAppendInputToProto (Some input))
      (te_compression env) = Inr (CreateFrame (te_codec env) data False (te_compression env))"
    using Inr by (simp add: MarshalProtoFrame_eq)
  let ?f = "written_frame (te_codec env) data False (te_compression env) 0"
  have "decode_frame (CreateFrame (te_codec env) data False (te_compression env)) = Decoded ?f []"
    using decode_CreateFrame [OF assms(1) assms(2) [OF Inr], of 0 "[]"] by (simp add: CreateFrame_def)
  with frame Inr DecompressedBody_written [OF assms(1)] show ?thesis
    by (auto simp: appendInput_def Let_def isClosed_def markWriteSignalled_def split: option.splits)
next
  case (Inl err)
  then show ?thesis
    by (auto simp: appendInput_def MarshalProtoFrame_eq isClosed_def Let_def split: option.splits)
qed

section \<open>Witnesses\<close>

definition pb_pos :: "nat \<Rightarrow> pb_StreamPosition" where
  "pb_pos n = \<lparr>pbp_SeqNum = word_of_nat n, pbp_Timestamp = 0\<rparr>"

text \<open>A one-byte encoding of acknowledgements of single records.\<close>

definition tiny_ack :: "byte list \<Rightarrow> pb_AppendAck" where
  "tiny_ack data = (let n = unat (hd data) in
     \<lparr>pbk_Start = Some (pb_pos n), pbk_End = Some (pb_pos (n + 1)), pbk_Tail = Some (pb_pos (n + 1))\<rparr>)"

definition tiny_env :: transport_env where
  "tiny_env = \<lparr>te_codec = marker_codec,
     te_json = \<lparr>jc_map = (\<lambda>_. None), jc_ErrorInfo = (\<lambda>_. None), jc_TailResponse = (\<lambda>_. None)\<rparr>,
     te_statusText = (\<lambda>_. ''status''), te_quoted = string_of, te_compression = CompressionNone,
     te_marshal = (\<lambda>m. Inr (case m of None \<Rightarrow> [] | Some i \<Rightarrow> concat (map pba_Body (pbi_Records i)))),
     te_unmarshalAck = (\<lambda>data. Inr (tiny_ack data)), te_pickSend = False\<rparr>"

definition tiny_response :: io_reader where
  "tiny_response = [([0, 0, 2, 0, 5, 0, 0], None), ([2, 0, 6, 0, 0, 3], None), ([0x80, 1, 0xF4], Some (Sentinel IoEOF))]"

lemma tiny_ack_start: "unat (sp_SeqNum (aa_Start (convertPbAppendAck (tiny_ack [x])))) = unat x"
proof -
  have "sp_SeqNum (aa_Start (convertPbAppendAck (tiny_ack [x]))) = word_of_nat (unat x)"
    unfolding convertPbAppendAck_def tiny_ack_def pb_pos_def Let_def by simp
  then show ?thesis using unat_byte_less [of x] by (simp only: unat_of_nat) simp
qed

theorem acks_delivered_witness:
  "\<exists>p'. readAcksLoop tiny_env createAppendSession (NewFrameReader tiny_response) = Some p' \<and>
    map (\<lambda>a. unat (sp_SeqNum (aa_Start a))) (ts_acksCh p') = [5, 6] \<and>
    ts_errorsCh p' = [decodeAPIError (te_json tiny_env) (te_statusText tiny_env) 500 []] \<and> ts_closed p'"
proof -
  have frames: "CreateFrame marker_codec [5] False CompressionNone @ CreateFrame marker_codec [6] False CompressionNone @
      response_end marker_codec (Some (500, [])) = [0, 0, 2, 0, 5, 0, 0, 2, 0, 6, 0, 0, 3, 0x80, 1, 0xF4]"
    by (simp add: response_end_def frame_eval drop_bit_eq_div)
  let ?msgs = "[([5], CompressionNone), ([6], CompressionNone)]" and ?fin = "Some (500 :: int, [] :: byte list)"
  have cd: "te_codec tiny_env = marker_codec" and un: "te_unmarshalAck tiny_env = (\<lambda>d. Inr (tiny_ack d))"
    by (simp_all add: tiny_env_def)
  have len: "frame_len marker_codec [x] False CompressionNone \<le> MaxFrameSize" for x
    by (simp add: frame_len_def frame_payload_def MaxFrameSize_def)
  have bytes: "reader_bytes tiny_response = concat (map (\<lambda>m. CreateFrame (te_codec tiny_env) (fst m) False (snd m))
      ?msgs) @ response_end (te_codec tiny_env) ?fin"
    unfolding cd by (simp add: frames [simplified]) (simp add: tiny_response_def)
  have ok: "codec_ok (te_codec tiny_env)" unfolding cd by (rule marker_codec_ok)
  have msgs: "\<forall>m\<in>set ?msgs. frame_len (te_codec tiny_env) (fst m) False (snd m) \<le> MaxFrameSize \<and>
      te_unmarshalAck tiny_env (fst m) = Inr (tiny_ack (fst m))"
    unfolding cd un using len by simp
  have fin: "\<forall>code body. ?fin = Some (code, body) \<longrightarrow>
      400 \<le> code \<and> code < 65536 \<and> length body + 3 \<le> MaxFrameSize"
    by (simp add: MaxFrameSize_def)
  have start: "\<not> ts_closed createAppendSession" "ts_errorsCh createAppendSession = []"
    by (simp_all add: createAppendSession_def)
  have eof: "reader_end tiny_response = Sentinel IoEOF" by (simp add: tiny_response_def)
  from acks_delivered [OF ok start msgs fin bytes eof] obtain p' where
    p': "readAcksLoop tiny_env createAppendSession (NewFrameReader tiny_response) = Some p'"
    "ts_acksCh p' = ts_acksCh createAppendSession @ map (\<lambda>m. convertPbAppendAck (tiny_ack (fst m))) ?msgs"
    "ts_errorsCh p' = [decodeAPIError (te_json tiny_env) (te_statusText tiny_env) 500 []]" "ts_closed p'"
    unfolding option.case prod.case by blast
  have "map (\<lambda>a. unat (sp_SeqNum (aa_Start a))) (ts_acksCh p') = [5, 6]"
    unfolding p'(2) by (simp add: tiny_ack_start createAppendSession_def)
  with p'(1,3,4) show ?thesis by (intro exI [of _ p'] conjI)
qed

theorem appendInput_effect_witness:
  "\<exists>p' frame. appendInput tiny_env createAppendSession one_record id None = (None, p') \<and> ts_wire p' = [frame] \<and>
    (\<exists>f. decode_frame frame = Decoded f [] \<and> DecompressedBody marker_codec f = Inr [1, 2])"
proof -
  have m: "te_marshal tiny_env (convertAppendInputToProto (Some one_record)) = Inr [1, 2]"
    by (simp add: tiny_env_def convertAppendInputToProto_Some pb_record_of_def one_record_def)
  obtain p' where "appendInput tiny_env createAppendSession one_record id None = (None, p')"
    using m by (simp add: appendInput_def MarshalProtoFrame_eq createAppendSession_def isClosed_def Let_def)
  then show ?thesis using appendInput_effect [of tiny_env one_record createAppendSession None] m
    by (auto simp: tiny_env_def marker_codec_ok frame_len_def frame_payload_def MaxFrameSize_def
        createAppendSession_def)
qed

end
