(* ===== verification/Append_Session.thy ===== *)
theory Append_Session
  imports Capacity Retry Transport
begin

text \<open>
  The append session (\<open>src/s2/append_session.go\<close>): a queue of in-flight batches that a pump goroutine
  writes to the current transport session, acknowledgements that complete the head of the queue,
  failures that are claimed once and then retried or turned into a terminal error, request timeouts,
  advised reconnects and closing.

  Entries and transport sessions are Go pointers shared between the queue, copies of the queue and the
  goroutines; the model names them by numbers (\<open>as_entries\<close>, \<open>as_sessions\<close> are the heaps, \<open>as_nextEntry\<close>
  and \<open>as_nextSession\<close> the next free numbers).  Each function below is one critical section of the
  code or a handler composed of them in the order of the code; the step relation at the end of the
  component interleaves the critical sections of the pump, the ack readers, the submitters and
  \<open>Close\<close>.  \<open>ie_resultCh\<close> lists everything sent on an entry's result channel (it is closed after the
  first send, so a second send would panic).  Logging is left out.
\<close>

section \<open>State\<close>

datatype inflightResult = AckResult AppendAck | ErrResult goerr

record inflightEntry =
  ie_input :: AppendInput
  ie_expectedCount :: nat
  ie_meteredBytes :: int
  ie_attemptStart :: gotime
  ie_requestTimeout :: duration
  ie_resultCh :: "inflightResult list"
  ie_completed :: bool
  ie_sentOnSessions :: "nat list"
  ie_priorUncertainty :: bool

record AppendSession =
  as_options :: AppendSessionOptions
  as_requestTimeout :: duration
  as_entries :: "nat \<Rightarrow> inflightEntry"
  as_nextEntry :: nat
  as_inflightQueue :: "nat list"
  as_sessionRefs :: "nat \<Rightarrow> int option"
  as_capacity :: capacityTracker
  as_sessions :: "nat \<Rightarrow> transportAppendSession"
  as_nextSession :: nat
  as_currentSession :: "nat option"
  as_failuresPending :: int
  as_pumpCancelled :: bool
  as_closing :: bool
  as_closeDone :: bool
  as_closed :: bool
  as_lastAckedPosition :: "AppendAck option"
  as_wakeup :: bool
  as_currentAttempt :: int
  as_retryAt :: gotime
  as_advisedReconnects :: advisedReconnects

definition upd_entry :: "(inflightEntry \<Rightarrow> inflightEntry) \<Rightarrow> nat \<Rightarrow> AppendSession \<Rightarrow> AppendSession" where
  "upd_entry f e r = r\<lparr>as_entries := (as_entries r)(e := f (as_entries r e))\<rparr>"

definition upd_session ::
    "(transportAppendSession \<Rightarrow> transportAppendSession) \<Rightarrow> nat \<Rightarrow> AppendSession \<Rightarrow> AppendSession" where
  "upd_session f s r = r\<lparr>as_sessions := (as_sessions r)(s := f (as_sessions r s))\<rparr>"

definition session_config :: "AppendSession \<Rightarrow> RetryConfig" where
  "session_config r = (case aso_RetryConfig (as_options r) of Some c \<Rightarrow> c | None \<Rightarrow> DefaultRetryConfig)"

text \<open>\<open>StreamClient.AppendSession\<close>; the pump goroutine is started by the step relation.\<close>

definition NewAppendSession ::
    "AppendSessionOptions option \<Rightarrow> RetryConfig option \<Rightarrow> duration \<Rightarrow> goerr + AppendSession" where
  "NewAppendSession opts baseRetry requestTimeout = (case applyAppendSessionDefaults opts baseRetry of
     Inl err \<Rightarrow> Inl err
   | Inr opts \<Rightarrow> Inr
     \<lparr>as_options = opts, as_requestTimeout = requestTimeout,
      as_entries = (\<lambda>_. \<lparr>ie_input = \<lparr>ai_Records = [], ai_MatchSeqNum = None, ai_FencingToken = None,
          ai_StreamConfig = None\<rparr>, ie_expectedCount = 0, ie_meteredBytes = 0, ie_attemptStart = 0,
          ie_requestTimeout = 0, ie_resultCh = [], ie_completed = False, ie_sentOnSessions = [],
          ie_priorUncertainty = False\<rparr>),
      as_nextEntry = 0, as_inflightQueue = [], as_sessionRefs = (\<lambda>_. None),
      as_capacity = newCapacityTracker (sint (aso_MaxInflightBytes opts)) (uint (aso_MaxInflightBatches opts)),
      as_sessions = (\<lambda>_. createAppendSession), as_nextSession = 0, as_currentSession = None,
      as_failuresPending = 0, as_pumpCancelled = False, as_closing = False, as_closeDone = False,
      as_closed = False, as_lastAckedPosition = None, as_wakeup = False, as_currentAttempt = 0,
      as_retryAt = 0, as_advisedReconnects = \<lparr>adv_count = 0, adv_last = 0\<rparr>\<rparr>)"

definition wakeupPump :: "AppendSession \<Rightarrow> AppendSession" where
  "wakeupPump r = r\<lparr>as_wakeup := True\<rparr>"

definition signalCloseDone :: "AppendSession \<Rightarrow> AppendSession" where
  "signalCloseDone r = r\<lparr>as_closeDone := True\<rparr>"

section \<open>Submitting\<close>

definition Submit :: "AppendSession \<Rightarrow> AppendInput option \<Rightarrow> goerr + AppendInput option \<times> int" where
  "Submit r input =
     (if as_closing r then Inl (Sentinel ErrSessionClosed) else prepareAppendInput input)"

definition submitOwned :: "AppendSession \<Rightarrow> AppendInput option \<Rightarrow> goerr + AppendInput option \<times> int" where
  "submitOwned r input =
     (if as_closing r then Inl (Sentinel ErrSessionClosed)
      else case validateAppendInput input of Inl err \<Rightarrow> Inl err | Inr sz \<Rightarrow> Inr (input, sz))"

definition enqueueReservedEntry ::
    "AppendSession \<Rightarrow> AppendInput \<Rightarrow> int \<Rightarrow> (goerr + nat) \<times> AppendSession" where
  "enqueueReservedEntry r input sz =
     (let entry = \<lparr>ie_input = input, ie_expectedCount = length (ai_Records input), ie_meteredBytes = sz,
            ie_attemptStart = 0, ie_requestTimeout = as_requestTimeout r, ie_resultCh = [],
            ie_completed = False, ie_sentOnSessions = [], ie_priorUncertainty = False\<rparr>
      in if as_closing r then (Inl (Sentinel ErrSessionClosed), r)
         else
           let e = as_nextEntry r;
               r = r\<lparr>as_entries := (as_entries r)(e := entry), as_nextEntry := e + 1,
                     as_inflightQueue := as_inflightQueue r @ [e]\<rparr>
           in (Inr e, wakeupPump r))"

text \<open>The end of the goroutine started by \<open>createSubmitFuture\<close>, once the capacity is reserved.\<close>

definition submit_reserved ::
    "AppendSession \<Rightarrow> AppendInput \<Rightarrow> int \<Rightarrow> (goerr + nat) \<times> AppendSession" where
  "submit_reserved r input sz = (case enqueueReservedEntry r input sz of
     (Inl err, r) \<Rightarrow> (Inl err, r\<lparr>as_capacity := release (as_capacity r) sz\<rparr>)
   | (Inr e, r) \<Rightarrow> (Inr e, r))"

section \<open>Session references\<close>

definition wasSentOnSessionLocked :: "inflightEntry \<Rightarrow> nat \<Rightarrow> bool" where
  "wasSentOnSessionLocked entry session \<longleftrightarrow> session \<in> set (ie_sentOnSessions entry)"

fun release_sessions :: "nat list \<Rightarrow> (nat \<Rightarrow> int option) \<Rightarrow> nat list \<times> (nat \<Rightarrow> int option)" where
  "release_sessions [] refs = ([], refs)"
| "release_sessions (session # rest) refs = (case refs session of
     None \<Rightarrow> release_sessions rest refs
   | Some count \<Rightarrow>
       if count \<le> 1 then
         (let (toClose, refs') = release_sessions rest (refs(session := None)) in (session # toClose, refs'))
       else release_sessions rest (refs(session \<mapsto> count - 1)))"

definition releaseEntrySessionsLocked :: "AppendSession \<Rightarrow> nat \<Rightarrow> nat list \<times> AppendSession" where
  "releaseEntrySessionsLocked r e =
     (let (toClose, refs) = release_sessions (ie_sentOnSessions (as_entries r e)) (as_sessionRefs r)
      in (toClose, upd_entry (\<lambda>en. en\<lparr>ie_sentOnSessions := []\<rparr>) e (r\<lparr>as_sessionRefs := refs\<rparr>)))"

definition collectSessionRefsLocked :: "AppendSession \<Rightarrow> nat list \<times> AppendSession" where
  "collectSessionRefsLocked r =
     (filter (\<lambda>s. as_sessionRefs r s \<noteq> None) [0..<as_nextSession r], r\<lparr>as_sessionRefs := (\<lambda>_. None)\<rparr>)"

definition closeAllSessions :: "AppendSession \<Rightarrow> nat list \<Rightarrow> AppendSession" where
  "closeAllSessions r sessions = fold (upd_session Close_transport) sessions r"

definition closeStaleSessions :: "AppendSession \<Rightarrow> nat list \<Rightarrow> AppendSession" where
  "closeStaleSessions r sessions =
     fold (upd_session Close_transport) (filter (\<lambda>s. as_currentSession r \<noteq> Some s) sessions) r"

definition closeSessionIfUnused :: "AppendSession \<Rightarrow> nat \<Rightarrow> AppendSession" where
  "closeSessionIfUnused r s =
     (let count = (case as_sessionRefs r s of None \<Rightarrow> 0 | Some c \<Rightarrow> c)
      in if count = 0 then upd_session Close_transport s (r\<lparr>as_sessionRefs := (as_sessionRefs r)(s := None)\<rparr>)
         else r)"

section \<open>Failing everything in flight\<close>

text \<open>One round of the loop over the queue: complete the entry if nobody has, release its bytes.\<close>

definition fail_entry :: "(inflightEntry \<Rightarrow> goerr) \<Rightarrow> nat \<Rightarrow> AppendSession \<Rightarrow> AppendSession" where
  "fail_entry errOf e r =
     (let r = (if \<not> ie_completed (as_entries r e)
            then upd_entry (\<lambda>en. en\<lparr>ie_completed := True,
                   ie_resultCh := ie_resultCh en @ [ErrResult (errOf en)]\<rparr>) e r
            else r)
      in r\<lparr>as_capacity := release (as_capacity r) (ie_meteredBytes (as_entries r e))\<rparr>)"

definition failAllInflightLocked :: "AppendSession \<Rightarrow> goerr \<Rightarrow> nat list \<times> AppendSession" where
  "failAllInflightLocked r err =
     (let r = fold (fail_entry (\<lambda>en. withPriorUncertainty err (ie_priorUncertainty en))) (as_inflightQueue r) r;
          r = r\<lparr>as_inflightQueue := []\<rparr>;
          (sessionsToClose, r) = collectSessionRefsLocked r;
          r = (if \<not> as_closed r
            then r\<lparr>as_closed := True, as_capacity := Close_capacity (as_capacity r)\<rparr> else r);
          r = r\<lparr>as_closing := True\<rparr>;
          r = signalCloseDone r
      in (sessionsToClose, r\<lparr>as_pumpCancelled := True\<rparr>))"

definition failAllInflight :: "AppendSession \<Rightarrow> goerr \<Rightarrow> AppendSession" where
  "failAllInflight r err =
     (let (sessionsToClose, r) = failAllInflightLocked r err;
          sessionsToClose = (case as_currentSession r of None \<Rightarrow> sessionsToClose
            | Some current \<Rightarrow> sessionsToClose @ [current])
      in closeAllSessions r sessionsToClose)"

section \<open>Retries\<close>

text \<open>\<open>rnd\<close> is the random source, \<open>now\<close> is \<open>time.Now()\<close>.  The backoff never panics
  (\<open>calculateRetryBackoff_Some\<close>), so the branch \<open>None\<close> is not taken.\<close>

definition scheduleRetry :: "(int \<Rightarrow> int) \<Rightarrow> gotime \<Rightarrow> AppendSession \<Rightarrow> AppendSession" where
  "scheduleRetry rnd now r =
     (case calculateRetryBackoff rnd (session_config r) (as_currentAttempt r) of
        None \<Rightarrow> r
      | Some delay \<Rightarrow>
          let r = (if delay > 0 \<and> time_IsZero (as_retryAt r) then r\<lparr>as_retryAt := now + delay\<rparr> else r)
          in wakeupPump r)"

definition attempts_exhausted :: "AppendSession \<Rightarrow> goerr \<Rightarrow> goerr" where
  "attempts_exhausted r err = Errorf (''max attempts ('' @ dec_int (clamp_attempts (session_config r)) @
     '') exhausted, last error: '' @ Error err @ '': '' @ Error (Sentinel ErrMaxAttemptsExhausted))
     [err, Sentinel ErrMaxAttemptsExhausted]"

definition handleSessionStartError :: "(int \<Rightarrow> int) \<Rightarrow> gotime \<Rightarrow> AppendSession \<Rightarrow> goerr \<Rightarrow> AppendSession" where
  "handleSessionStartError rnd now r err =
     (if as_currentAttempt r \<ge> clamp_attempts (session_config r) - 1
      then failAllInflight r (attempts_exhausted r err)
      else scheduleRetry rnd now (r\<lparr>as_currentAttempt := as_currentAttempt r + 1\<rparr>))"

definition markInflightUncertainty :: "AppendSession \<Rightarrow> nat option \<Rightarrow> goerr \<Rightarrow> AppendSession" where
  "markInflightUncertainty r failedSession err =
     (if isNoSideEffectsError err then r
      else fold (\<lambda>e r. if failedSession = None \<or>
             wasSentOnSessionLocked (as_entries r e) (the failedSession)
           then upd_entry (\<lambda>en. en\<lparr>ie_priorUncertainty := True\<rparr>) e r else r) (as_inflightQueue r) r)"

definition resetInflightAttemptStarts :: "AppendSession \<Rightarrow> AppendSession" where
  "resetInflightAttemptStarts r =
     fold (upd_entry (\<lambda>en. en\<lparr>ie_attemptStart := 0\<rparr>)) (as_inflightQueue r) r"

definition requiresNoSideEffectsRetries :: "AppendSession \<Rightarrow> bool" where
  "requiresNoSideEffectsRetries r \<longleftrightarrow> (case aso_RetryConfig (as_options r) of None \<Rightarrow> False
     | Some c \<Rightarrow> rc_AppendRetryPolicy c = AppendRetryPolicyNoSideEffects)"

definition canRetryUnderNoSideEffects :: "AppendSession \<Rightarrow> nat option \<Rightarrow> goerr \<Rightarrow> bool" where
  "canRetryUnderNoSideEffects r failedSession err =
     (if isNoSideEffectsError err then True
      else case failedSession of None \<Rightarrow> False | Some s \<Rightarrow> \<not> effectSignalled (as_sessions r s))"

definition isIdempotentEntry :: "inflightEntry \<Rightarrow> bool" where
  "isIdempotentEntry entry \<longleftrightarrow> ai_MatchSeqNum (ie_input entry) \<noteq> None"

definition hasNonIdempotentSentPipelinedEntries :: "AppendSession \<Rightarrow> bool" where
  "hasNonIdempotentSentPipelinedEntries r \<longleftrightarrow>
     (\<exists>e\<in>set (drop 1 (as_inflightQueue r)). \<not> isIdempotentEntry (as_entries r e) \<and>
        length (ie_sentOnSessions (as_entries r e)) > 0)"

section \<open>Session failures\<close>

text \<open>
  The decision of \<open>handleClaimedSessionError\<close>, the body without the deferred function.  The three
  early exits fail everything in flight.
\<close>

definition resolve_failure ::
    "(int \<Rightarrow> int) \<Rightarrow> gotime \<Rightarrow> AppendSession \<Rightarrow> nat \<Rightarrow> goerr \<Rightarrow> AppendSession" where
  "resolve_failure rnd now r failedSession err =
     (if isServerDraining err then
        let r = r\<lparr>as_advisedReconnects := record_advised (as_advisedReconnects r) now\<rparr>;
            r = resetInflightAttemptStarts r
        in wakeupPump r
      else if requiresNoSideEffectsRetries r \<and> \<not> canRetryUnderNoSideEffects r (Some failedSession) err
      then failAllInflight r err
      else if requiresNoSideEffectsRetries r \<and> hasNonIdempotentSentPipelinedEntries r
      then failAllInflight r err
      else if (case errors_As_S2Error err of None \<Rightarrow> False | Some s2Err \<Rightarrow> \<not> IsRetryable s2Err)
      then failAllInflight r err
      else if as_currentAttempt r \<ge> clamp_attempts (session_config r) - 1
      then failAllInflight r (attempts_exhausted r err)
      else
        let r = r\<lparr>as_currentAttempt := as_currentAttempt r + 1\<rparr>;
            r = markInflightUncertainty r (Some failedSession) err;
            r = resetInflightAttemptStarts r
        in scheduleRetry rnd now r)"

definition handleClaimedSessionError ::
    "(int \<Rightarrow> int) \<Rightarrow> gotime \<Rightarrow> AppendSession \<Rightarrow> nat \<Rightarrow> goerr \<Rightarrow> AppendSession" where
  "handleClaimedSessionError rnd now r failedSession err =
     (let r = resolve_failure rnd now r failedSession err;
          r = r\<lparr>as_failuresPending := as_failuresPending r - 1\<rparr>
      in wakeupPump r)"

text \<open>Claiming: whoever finds the failed session still current takes it away.\<close>

definition claimSession :: "AppendSession \<Rightarrow> nat \<Rightarrow> bool \<times> AppendSession" where
  "claimSession r failedSession =
     (let claimed = (as_currentSession r = Some failedSession);
          r = (if claimed then r\<lparr>as_currentSession := None, as_failuresPending := as_failuresPending r + 1\<rparr>
               else r)
      in (claimed, closeSessionIfUnused r failedSession))"

definition handleSessionError ::
    "(int \<Rightarrow> int) \<Rightarrow> gotime \<Rightarrow> AppendSession \<Rightarrow> nat option \<Rightarrow> goerr \<Rightarrow> AppendSession" where
  "handleSessionError rnd now r failedSession err =
     (if as_closed r then r
      else case failedSession of None \<Rightarrow> r
      | Some s \<Rightarrow>
          (case claimSession r s of
             (False, r) \<Rightarrow> r
           | (True, r) \<Rightarrow> handleClaimedSessionError rnd now r s err))"

section \<open>Acknowledgements\<close>

definition validateAckLocked :: "AppendSession \<Rightarrow> inflightEntry \<Rightarrow> AppendAck option \<Rightarrow> goerr option" where
  "validateAckLocked r entry ack = (case ack of
     None \<Rightarrow> Some (errorf ''append ack invariant violated: received nil ack'')
   | Some ack \<Rightarrow>
       let start = sp_SeqNum (aa_Start ack); end = sp_SeqNum (aa_End ack) in
       if end < start then
         Some (errorf (''append ack invariant violated: end seq '' @ dec_nat (unat end) @
           '' is less than start seq '' @ dec_nat (unat start)))
       else
         let ackCount = end - start in
         if ackCount \<noteq> word_of_nat (ie_expectedCount entry) then
           Some (errorf (''append ack invariant violated: expected '' @ dec_nat (ie_expectedCount entry) @
             '' records, got '' @ dec_nat (unat ackCount) @ '' (start='' @ dec_nat (unat start) @
             '', end='' @ dec_nat (unat end) @ '')''))
         else case as_lastAckedPosition r of
                None \<Rightarrow> None
              | Some lastAck \<Rightarrow>
                  let prevEnd = sp_SeqNum (aa_End lastAck) in
                  if end \<le> prevEnd then
                    Some (errorf (''append ack invariant violated: end seq '' @ dec_nat (unat end) @
                      '' is not greater than previous end '' @ dec_nat (unat prevEnd)))
                  else None)"

definition stale_ack :: "AppendSession \<Rightarrow> AppendAck option \<Rightarrow> bool" where
  "stale_ack r ack \<longleftrightarrow> (case (ack, as_lastAckedPosition r) of
     (Some a, Some lastAck) \<Rightarrow> sp_SeqNum (aa_End a) \<le> sp_SeqNum (aa_End lastAck) | _ \<Rightarrow> False)"

text \<open>The head of the queue is complete: what happens to it.\<close>

definition complete_head :: "AppendSession \<Rightarrow> nat \<Rightarrow> nat \<Rightarrow> nat list \<Rightarrow> AppendAck \<Rightarrow> AppendSession" where
  "complete_head r session e rest ack =
     (let r = upd_entry (\<lambda>en. en\<lparr>ie_completed := True\<rparr>) e r;
          r = upd_session markAckReceived session r;
          r = r\<lparr>as_inflightQueue := rest\<rparr>;
          (sessionsToClose, r) = releaseEntrySessionsLocked r e;
          r = r\<lparr>as_lastAckedPosition := Some ack, as_currentAttempt := 0\<rparr>;
          r = r\<lparr>as_capacity := release (as_capacity r) (ie_meteredBytes (as_entries r e))\<rparr>;
          r = upd_entry (\<lambda>en. en\<lparr>ie_resultCh := ie_resultCh en @ [AckResult ack]\<rparr>) e r;
          r = closeStaleSessions r sessionsToClose
      in wakeupPump r)"

definition handleAck :: "AppendSession \<Rightarrow> nat \<Rightarrow> AppendAck option \<Rightarrow> AppendSession" where
  "handleAck r session ack = (case as_inflightQueue r of
     [] \<Rightarrow> r
   | e # rest \<Rightarrow>
       if \<not> wasSentOnSessionLocked (as_entries r e) session then r
       else if stale_ack r ack then r
       else case (validateAckLocked r (as_entries r e) ack, ack) of
              (Some err, _) \<Rightarrow> failAllInflight r err
            | (None, Some a) \<Rightarrow> if ie_completed (as_entries r e) then r else complete_head r session e rest a
            | (None, None) \<Rightarrow> r)"

section \<open>Reconnect advice\<close>

definition hasUnackedOnSession :: "AppendSession \<Rightarrow> nat \<Rightarrow> bool" where
  "hasUnackedOnSession r session \<longleftrightarrow> (\<exists>e\<in>set (as_inflightQueue r).
     \<not> ie_completed (as_entries r e) \<and> wasSentOnSessionLocked (as_entries r e) session)"

definition shouldReconnectOnAdvice :: "AppendSession \<Rightarrow> gotime \<Rightarrow> bool" where
  "shouldReconnectOnAdvice r now = shouldReconnect (as_advisedReconnects r) now"

definition truncated_response :: goerr where
  "truncated_response = errorf ''append session ended before acknowledging all appends''"

definition handleReconnectAdvice :: "(int \<Rightarrow> int) \<Rightarrow> gotime \<Rightarrow> AppendSession \<Rightarrow> nat \<Rightarrow> AppendSession" where
  "handleReconnectAdvice rnd now r session =
     (if as_closed r then r
      else if hasUnackedOnSession r session then
        handleSessionError rnd now r (Some session) truncated_response
      else if as_currentSession r \<noteq> Some session then closeSessionIfUnused r session
      else
        let r = r\<lparr>as_currentSession := None\<rparr>;
            r = closeSessionIfUnused r session;
            r = r\<lparr>as_advisedReconnects := record_advised (as_advisedReconnects r) now\<rparr>
        in wakeupPump r)"

text \<open>What a select in \<open>readAcks\<close> can deliver.  With an error or with the closed error channel come the
  acknowledgements still buffered.\<close>

datatype reader_event =
    AckReady "AppendAck option"
  | AcksChClosed
  | ErrorReady goerr "AppendAck option list"
  | ErrorsChClosed "AppendAck option list"
  | PumpCtxDone

record reader_state =
  rd_adviceHandled :: bool
  rd_reconnectAccepted :: bool

definition processAck ::
    "gotime \<Rightarrow> nat \<Rightarrow> AppendAck option \<Rightarrow> AppendSession \<times> reader_state \<Rightarrow> AppendSession \<times> reader_state" where
  "processAck now session ack s = (case s of (r, rd) \<Rightarrow>
     (let r = handleAck r session ack in
      if ReconnectAdvised (as_sessions r session) \<and> \<not> rd_adviceHandled rd then
        let rd = rd\<lparr>rd_adviceHandled := True\<rparr> in
        if shouldReconnectOnAdvice r now
        then (upd_session halfClose session r, rd\<lparr>rd_reconnectAccepted := True\<rparr>)
        else (wakeupPump (upd_session declineReconnect session r), rd)
      else (r, rd)))"

fun readAcks ::
    "(int \<Rightarrow> int) \<Rightarrow> gotime \<Rightarrow> nat \<Rightarrow> reader_event list \<Rightarrow> AppendSession \<times> reader_state \<Rightarrow> AppendSession" where
  "readAcks rnd now session [] s = fst s"
| "readAcks rnd now session (AckReady ack # evs) s = readAcks rnd now session evs (processAck now session ack s)"
| "readAcks rnd now session (AcksChClosed # evs) s = readAcks rnd now session evs s"
| "readAcks rnd now session (ErrorsChClosed acks # evs) s =
     (let s = fold (processAck now session) acks s
      in if rd_reconnectAccepted (snd s) then handleReconnectAdvice rnd now (fst s) session else fst s)"
| "readAcks rnd now session (ErrorReady err acks # evs) s =
     (let s = fold (processAck now session) acks s
      in handleSessionError rnd now (fst s) (Some session) err)"
| "readAcks rnd now session (PumpCtxDone # evs) s = fst s"

section \<open>The pump\<close>

definition nextPumpDeadline :: "AppendSession \<Rightarrow> gotime" where
  "nextPumpDeadline r =
     (let deadline = as_retryAt r in
      case as_inflightQueue r of
        [] \<Rightarrow> deadline
      | e # _ \<Rightarrow>
          let head = as_entries r e in
          if ie_requestTimeout head > 0 \<and> \<not> time_IsZero (ie_attemptStart head) then
            let timeoutAt = ie_attemptStart head + ie_requestTimeout head in
            if time_IsZero deadline \<or> timeoutAt < deadline then timeoutAt else deadline
          else deadline)"

definition resetAppendPumpTimer :: "gotime \<Rightarrow> gotime \<Rightarrow> duration option" where
  "resetAppendPumpTimer deadline now =
     (if time_IsZero deadline then None
      else let delay = deadline - now in Some (if delay < 0 then 0 else delay))"

definition shouldStopPump :: "AppendSession \<Rightarrow> bool \<times> AppendSession" where
  "shouldStopPump r =
     (if \<not> as_closing r then (False, r)
      else if as_inflightQueue r \<noteq> [] then (False, r)
      else (True, signalCloseDone r))"

text \<open>The beginning of \<open>processInflightQueue\<close>: whether the pump may go on, and \<open>retryAt\<close> cleared.\<close>

definition pump_gate :: "gotime \<Rightarrow> AppendSession \<Rightarrow> bool \<times> AppendSession" where
  "pump_gate now r =
     (if as_pumpCancelled r then (False, r)
      else if \<not> time_IsZero (as_retryAt r) \<and> now < as_retryAt r then (False, r)
      else
        let r = (if \<not> time_IsZero (as_retryAt r) then r\<lparr>as_retryAt := 0\<rparr> else r)
        in (as_inflightQueue r \<noteq> [], r))"

text \<open>\<open>startErr\<close> is the result of \<open>createAppendSession\<close> when one is opened.\<close>

definition getSession :: "goerr option \<Rightarrow> AppendSession \<Rightarrow> goerr option \<times> AppendSession" where
  "getSession startErr r =
     (if as_currentSession r \<noteq> None then (None, r)
      else if as_failuresPending r > 0 \<or> as_pumpCancelled r then (None, r)
      else case startErr of
             Some err \<Rightarrow> (Some err, r)
           | None \<Rightarrow>
               let s = as_nextSession r
               in (None, r\<lparr>as_sessions := (as_sessions r)(s := createAppendSession), as_nextSession := s + 1,
                           as_currentSession := Some s\<rparr>))"

definition handle_start_error :: "(int \<Rightarrow> int) \<Rightarrow> gotime \<Rightarrow> AppendSession \<Rightarrow> goerr \<Rightarrow> AppendSession" where
  "handle_start_error rnd now r err =
     (if (case errors_As_S2Error err of None \<Rightarrow> False | Some s2Err \<Rightarrow> IsRetryable s2Err)
      then handleSessionStartError rnd now r err else failAllInflight r err)"

text \<open>\<open>submitInflightBatches\<close>: the session and the copy of the queue it works on, the critical section
  per entry, and the write.\<close>

definition submit_snapshot :: "AppendSession \<Rightarrow> (nat \<times> nat list) option" where
  "submit_snapshot r = (case as_currentSession r of
     None \<Rightarrow> None
   | Some session \<Rightarrow>
       if holdInputsForReconnect (as_sessions r session) then None else Some (session, as_inflightQueue r))"

definition mark_sent :: "gotime \<Rightarrow> AppendSession \<Rightarrow> nat \<Rightarrow> nat \<Rightarrow> bool \<times> AppendSession" where
  "mark_sent now r session e =
     (if ie_completed (as_entries r e) then (False, r)
      else if wasSentOnSessionLocked (as_entries r e) session then (False, r)
      else
        let r = upd_entry (\<lambda>en. en\<lparr>ie_sentOnSessions := ie_sentOnSessions en @ [session]\<rparr>) e r;
            r = r\<lparr>as_sessionRefs := (as_sessionRefs r)(session \<mapsto>
                  (case as_sessionRefs r session of None \<Rightarrow> 0 | Some c \<Rightarrow> c) + 1)\<rparr>;
            r = (if time_IsZero (ie_attemptStart (as_entries r e))
                 then upd_entry (\<lambda>en. en\<lparr>ie_attemptStart := now\<rparr>) e r else r)
        in (True, r))"

definition write_entry :: "transport_env \<Rightarrow> (transportAppendSession \<Rightarrow> transportAppendSession) \<Rightarrow> goerr option \<Rightarrow>
    AppendSession \<Rightarrow> nat \<Rightarrow> nat \<Rightarrow> goerr option \<times> AppendSession" where
  "write_entry env during writeErr r session e =
     (case appendInput env (as_sessions r session) (ie_input (as_entries r e)) during writeErr of
        (res, p) \<Rightarrow> (res, upd_session (\<lambda>_. p) session r))"

fun submit_loop :: "transport_env \<Rightarrow> (int \<Rightarrow> int) \<Rightarrow> gotime \<Rightarrow> (nat \<Rightarrow> goerr option) \<Rightarrow> nat \<Rightarrow> nat list \<Rightarrow>
    AppendSession \<Rightarrow> AppendSession" where
  "submit_loop env rnd now writeErrs session [] r = r"
| "submit_loop env rnd now writeErrs session (e # es) r =
     (case mark_sent now r session e of
        (False, r) \<Rightarrow> submit_loop env rnd now writeErrs session es r
      | (True, r) \<Rightarrow>
          (case write_entry env id (writeErrs e) r session e of
             (Some err, r) \<Rightarrow> handleSessionError rnd now r (Some session) err
           | (None, r) \<Rightarrow> submit_loop env rnd now writeErrs session es r))"

definition submitInflightBatches :: "transport_env \<Rightarrow> (int \<Rightarrow> int) \<Rightarrow> gotime \<Rightarrow> (nat \<Rightarrow> goerr option) \<Rightarrow>
    AppendSession \<Rightarrow> AppendSession" where
  "submitInflightBatches env rnd now writeErrs r = (case submit_snapshot r of
     None \<Rightarrow> r | Some (session, entries) \<Rightarrow> submit_loop env rnd now writeErrs session entries r)"

definition processInflightQueue :: "transport_env \<Rightarrow> (int \<Rightarrow> int) \<Rightarrow> gotime \<Rightarrow> goerr option \<Rightarrow>
    (nat \<Rightarrow> goerr option) \<Rightarrow> AppendSession \<Rightarrow> AppendSession" where
  "processInflightQueue env rnd now startErr writeErrs r = (case pump_gate now r of
     (False, r) \<Rightarrow> r
   | (True, r) \<Rightarrow>
       (case getSession startErr r of
          (Some err, r) \<Rightarrow> handle_start_error rnd now r err
        | (None, r) \<Rightarrow> submitInflightBatches env rnd now writeErrs r))"

text \<open>\<open>checkTimeouts\<close>: the claim made under the locks, and the error handed to
  \<open>handleClaimedSessionError\<close>; \<open>showDur\<close> renders a duration.\<close>

definition claim_timeout :: "(duration \<Rightarrow> string) \<Rightarrow> gotime \<Rightarrow> AppendSession \<Rightarrow>
    (nat \<times> goerr) option \<times> AppendSession" where
  "claim_timeout showDur now r =
     (if as_pumpCancelled r \<or> as_closed r then (None, r)
      else case as_inflightQueue r of
        [] \<Rightarrow> (None, r)
      | e # _ \<Rightarrow>
          let head = as_entries r e;
              attemptStart = ie_attemptStart head; requestTimeout = ie_requestTimeout head in
          if requestTimeout \<le> 0 \<or> time_IsZero attemptStart \<or> now < attemptStart + requestTimeout then (None, r)
          else case as_currentSession r of
            None \<Rightarrow> (None, r)
          | Some session \<Rightarrow>
              let r = r\<lparr>as_currentSession := None, as_failuresPending := as_failuresPending r + 1\<rparr>;
                  r = closeSessionIfUnused r session;
                  err = S2E \<lparr>e_Message = ''append request timed out after '' @ showDur (now - attemptStart) @
                      '' (attempt '' @ dec_int (as_currentAttempt r) @ '')'',
                    e_Code = ''REQUEST_TIMEOUT'', e_Status = 408, e_Origin = ''sdk''\<rparr>
              in (Some (session, err), r))"

definition checkTimeouts :: "(duration \<Rightarrow> string) \<Rightarrow> (int \<Rightarrow> int) \<Rightarrow> gotime \<Rightarrow> AppendSession \<Rightarrow> AppendSession" where
  "checkTimeouts showDur rnd now r = (case claim_timeout showDur now r of
     (None, r) \<Rightarrow> r
   | (Some (session, err), r) \<Rightarrow> handleClaimedSessionError rnd now r session err)"

text \<open>One round of \<open>runPump\<close>, after the select: the context is done, or there is work.\<close>

definition pump_round :: "transport_env \<Rightarrow> (duration \<Rightarrow> string) \<Rightarrow> (int \<Rightarrow> int) \<Rightarrow> gotime \<Rightarrow> goerr option \<Rightarrow>
    (nat \<Rightarrow> goerr option) \<Rightarrow> AppendSession \<Rightarrow> bool \<times> AppendSession" where
  "pump_round env showDur rnd now startErr writeErrs r =
     (if as_pumpCancelled r then (True, failAllInflight r (Sentinel ErrSessionClosed))
      else
        let r = r\<lparr>as_wakeup := False\<rparr>;
            r = processInflightQueue env rnd now startErr writeErrs r;
            r = checkTimeouts showDur rnd now r
        in shouldStopPump r)"

section \<open>Closing\<close>

definition close_begin :: "AppendSession \<Rightarrow> AppendSession" where
  "close_begin r =
     wakeupPump (r\<lparr>as_closing := True, as_capacity := Close_capacity (as_capacity r)\<rparr>)"

text \<open>The rest of \<open>Close\<close>, once \<open>closeDone\<close> is closed and the pump has returned.\<close>

definition close_finish :: "AppendSession \<Rightarrow> AppendSession" where
  "close_finish r =
     (let r = r\<lparr>as_closed := True, as_pumpCancelled := True\<rparr>;
          r = fold (fail_entry (\<lambda>_. Sentinel ErrSessionClosed)) (as_inflightQueue r) r;
          r = r\<lparr>as_inflightQueue := []\<rparr>;
          (sessionsToClose, r) = collectSessionRefsLocked r;
          sessionsToClose = (case as_currentSession r of None \<Rightarrow> sessionsToClose
            | Some current \<Rightarrow> sessionsToClose @ [current])
      in closeAllSessions r sessionsToClose)"

definition LastAckedPosition :: "AppendSession \<Rightarrow> AppendAck option" where
  "LastAckedPosition r = as_lastAckedPosition r"

end
