(* ===== verification/Producer.thy ===== *)
theory Producer
  imports Batcher Append_Session
begin

text \<open>
  The producer (\<open>src/s2/producer.go\<close>): single records go through a batcher to an append session, each
  record gets its own result, a permit for its bytes is held until the result is known, and \<open>Flush\<close> puts a
  barrier behind everything accepted so far.

  Several goroutines run the code: callers of \<open>Submit\<close> (one at a time behind \<open>submitMu\<close>), of \<open>Flush\<close> and
  \<open>Close\<close>, the consumer of the batcher's channel, one goroutine per batch that waits for its
  acknowledgement, timers, and the callbacks of the two contexts.  Each definition is what one of them does
  between two points where it can block; \<open>p_sub\<close>, \<open>p_consumer\<close>, \<open>p_acks\<close> and \<open>p_close\<close> say where they
  are.  The release of the permits of a batch and the resolution of its records are one step, as are the
  assignments \<open>recordTerminalError_producer\<close> makes after it has set the error.  Result channels and permits are
  numbers, a record's channel and permit share one.  The append session is the interface
  \<open>appendSessionAPI\<close>: its answers are arguments.
\<close>

section \<open>Results of single records\<close>

record IndexedAppendAck =
  ia_batchAck :: AppendAck
  ia_index :: u64

definition BatchAppendAck :: "IndexedAppendAck \<Rightarrow> AppendAck" where
  "BatchAppendAck a = ia_batchAck a"

definition SeqNum_indexed :: "IndexedAppendAck \<Rightarrow> u64" where
  "SeqNum_indexed a = sp_SeqNum (aa_Start (ia_batchAck a)) + ia_index a"

record producerOutcome =
  po_indexedAck :: "IndexedAppendAck option"
  po_err :: "goerr option"

text \<open>A channel of capacity 1: everything sent on it, how much of that was received, whether it is closed.\<close>

record resultChan =
  rch_sent :: "producerOutcome list"
  rch_received :: nat
  rch_closed :: bool

definition new_resultChan :: resultChan where
  "new_resultChan = \<lparr>rch_sent = [], rch_received = 0, rch_closed = False\<rparr>"

text \<open>\<open>recordMeta.resolve\<close>; \<open>None\<close> is the panic of a send on a closed channel.\<close>

definition resolve :: "resultChan \<Rightarrow> producerOutcome \<Rightarrow> resultChan option" where
  "resolve ch outcome =
     (if rch_closed ch then None
      else if length (rch_sent ch) - rch_received ch < 1
      then Some (ch\<lparr>rch_sent := rch_sent ch @ [outcome], rch_closed := True\<rparr>)
      else Some ch)"

text \<open>\<open>RecordSubmitTicket.Ack\<close>; \<open>sel\<close> is the error of a done context whose case was taken, \<open>None\<close> the
  receive; the result \<open>None\<close> means that it still waits.\<close>

definition Ack_ticket :: "resultChan \<Rightarrow> goerr option \<Rightarrow> ((goerr + IndexedAppendAck option) \<times> resultChan) option" where
  "Ack_ticket ch sel = (case sel of
     Some err \<Rightarrow> Some (Inl err, ch)
   | None \<Rightarrow>
       if rch_received ch < length (rch_sent ch) then
         let outcome = rch_sent ch ! rch_received ch;
             ch = ch\<lparr>rch_received := rch_received ch + 1\<rparr>
         in case po_err outcome of
              Some err \<Rightarrow> Some (Inl err, ch)
            | None \<Rightarrow> Some (Inr (po_indexedAck outcome), ch)
       else if rch_closed ch then Some (Inl (errorf ''record submit ticket resolved without a payload''), ch)
       else None)"

text \<open>\<open>RecordSubmitFuture.Wait\<close>: the ticket is sent before the future is returned, so the receive is
  always possible.\<close>

definition Wait_record :: "nat list \<Rightarrow> goerr option \<Rightarrow> ((goerr + nat) \<times> nat list) option" where
  "Wait_record ticketCh sel = (case sel of
     Some err \<Rightarrow> Some (Inl err, ticketCh)
   | None \<Rightarrow> (case ticketCh of [] \<Rightarrow> None | ticket # rest \<Rightarrow> Some (Inr ticket, rest)))"

section \<open>Permits\<close>

record producerPermit =
  pp_capacity :: nat
  pp_bytes :: int

record permit_heap =
  ph_permits :: "nat \<Rightarrow> producerPermit"
  ph_trackers :: "nat \<Rightarrow> capacityTracker"

definition newProducerPermit :: "nat \<Rightarrow> int \<Rightarrow> producerPermit" where
  "newProducerPermit capacity bytes = \<lparr>pp_capacity = capacity, pp_bytes = bytes\<rparr>"

definition take_permit :: "nat option \<Rightarrow> permit_heap \<Rightarrow> int \<times> permit_heap" where
  "take_permit permit h = (case permit of
     None \<Rightarrow> (0, h)
   | Some k \<Rightarrow> (pp_bytes (ph_permits h k),
       h\<lparr>ph_permits := (ph_permits h)(k := (ph_permits h k)\<lparr>pp_bytes := 0\<rparr>)\<rparr>))"

definition release_tracker :: "nat \<Rightarrow> int \<Rightarrow> permit_heap \<Rightarrow> permit_heap" where
  "release_tracker c bytes h = h\<lparr>ph_trackers := (ph_trackers h)(c := release (ph_trackers h c) bytes)\<rparr>"

definition release_permit :: "nat \<Rightarrow> permit_heap \<Rightarrow> permit_heap" where
  "release_permit k h =
     (let (bytes, h) = take_permit (Some k) h
      in if bytes > 0 then release_tracker (pp_capacity (ph_permits h k)) bytes h else h)"

text \<open>The closure \<open>release\<close> and the loop of \<open>releaseProducerPermits\<close>.\<close>

definition release_run :: "nat option \<Rightarrow> int \<Rightarrow> permit_heap \<Rightarrow> permit_heap" where
  "release_run capacity bytes h = (case capacity of
     Some c \<Rightarrow> if bytes > 0 then release_tracker c bytes h else h
   | None \<Rightarrow> h)"

fun release_loop :: "recordMeta list \<Rightarrow> nat option \<Rightarrow> int \<Rightarrow> permit_heap \<Rightarrow> permit_heap" where
  "release_loop [] capacity bytes h = release_run capacity bytes h"
| "release_loop (record' # meta) capacity bytes h = (case rm_permit record' of
     None \<Rightarrow> release_loop meta capacity bytes h
   | Some k \<Rightarrow>
       let (reserved, h) = take_permit (Some k) h in
       if reserved = 0 then release_loop meta capacity bytes h
       else
         let own = pp_capacity (ph_permits h k);
             (h, bytes) = (if capacity \<noteq> None \<and> capacity \<noteq> Some own
               then (release_run capacity bytes h, 0) else (h, bytes))
         in release_loop meta (Some own) (i64 (bytes + reserved)) h)"

definition releaseProducerPermits :: "recordMeta list \<Rightarrow> permit_heap \<Rightarrow> permit_heap" where
  "releaseProducerPermits meta h = release_loop meta None 0 h"

section \<open>State\<close>

text \<open>
  Where the goroutines are.  A submitter holds \<open>submitMu\<close> and is about to try the reservation, to flush the
  batcher, to reserve for the first time or after a wake-up, or to add the record it holds bytes for.  The
  consumer is between batches, waits for the ticket of a batch, for earlier acknowledgements before it
  reports a synchronous error or answers a barrier, or has ended.
\<close>

datatype sub_pc =
    SubNone
  | SubTry AppendRecord
  | SubFlush AppendRecord
  | SubReserve AppendRecord
  | SubWait AppendRecord
  | SubAdd AppendRecord

datatype consumer_pc =
    ConIdle
  | ConTicket AppendInput "recordMeta list"
  | ConSync "recordMeta list" goerr
  | ConBarrier nat
  | ConDone

datatype close_pc = CloseNot | CloseBatcher | CloseWait | CloseDone

text \<open>
  \<open>p_submitCtx\<close> is the error and the cause of \<open>submitCtx\<close> once it is done; \<open>p_batcherCtx\<close> and \<open>p_ctx\<close> the
  errors of the other contexts.  \<open>p_closers\<close> says that a goroutine which closes the batcher was started,
  the \<open>p_after\<close> fields that the callbacks of the contexts have run.  \<open>p_taken\<close> counts the messages the
  consumer has received, \<open>p_acks\<close> are the batches whose acknowledgement is awaited (the wait group),
  \<open>p_submitted\<close> the batches handed to the session, \<open>p_barriers\<close> what was sent on each barrier channel.
\<close>

record Producer =
  p_batcher :: Batcher
  p_batcherCtx :: "goerr option"
  p_heap :: permit_heap
  p_capacity :: nat
  p_ctx :: "goerr option"
  p_submitCtx :: "(goerr \<times> goerr) option"
  p_terminalErr :: "goerr option"
  p_appendErr :: "goerr option"
  p_closing :: bool
  p_closers :: bool
  p_afterBatcher :: bool
  p_afterCtx :: bool
  p_results :: "nat \<Rightarrow> resultChan"
  p_nextId :: nat
  p_barriers :: "nat \<Rightarrow> goerr option list"
  p_nextBarrier :: nat
  p_taken :: nat
  p_consumer :: consumer_pc
  p_acks :: "(AppendInput \<times> recordMeta list) list"
  p_submitted :: "AppendInput list"
  p_sub :: sub_pc
  p_close :: close_pc
  p_closeErr :: "goerr option"
  p_panicked :: bool

definition producerMaxInflightBytes :: "AppendSession \<Rightarrow> int" where
  "producerMaxInflightBytes r = sint (aso_MaxInflightBytes (as_options r))"

text \<open>\<open>provider\<close> is the session's \<open>producerMaxInflightBytes\<close>, where it has one.\<close>

definition newProducerWithSession :: "Batcher \<Rightarrow> int option \<Rightarrow> Producer" where
  "newProducerWithSession b provider =
     (let maxInflightBytes = (case provider of None \<Rightarrow> sint defaultMaxInflightBytes | Some n \<Rightarrow> n)
      in \<lparr>p_batcher = b, p_batcherCtx = None,
          p_heap = \<lparr>ph_permits = (\<lambda>_. newProducerPermit 0 0), ph_trackers = (\<lambda>_. newCapacityTracker maxInflightBytes 0)\<rparr>,
          p_capacity = 0, p_ctx = None, p_submitCtx = None, p_terminalErr = None, p_appendErr = None,
          p_closing = False, p_closers = False, p_afterBatcher = False, p_afterCtx = False,
          p_results = (\<lambda>_. new_resultChan), p_nextId = 0, p_barriers = (\<lambda>_. []), p_nextBarrier = 0,
          p_taken = 0, p_consumer = ConIdle, p_acks = [], p_submitted = [], p_sub = SubNone,
          p_close = CloseNot, p_closeErr = None, p_panicked = False\<rparr>)"

definition NewProducer :: "Batcher \<Rightarrow> AppendSession \<Rightarrow> Producer" where
  "NewProducer b session = newProducerWithSession b (Some (producerMaxInflightBytes session))"

definition own_tracker :: "Producer \<Rightarrow> capacityTracker" where
  "own_tracker p = ph_trackers (p_heap p) (p_capacity p)"

definition set_tracker :: "capacityTracker \<Rightarrow> Producer \<Rightarrow> Producer" where
  "set_tracker c p = p\<lparr>p_heap := (p_heap p)\<lparr>ph_trackers := (ph_trackers (p_heap p))(p_capacity p := c)\<rparr>\<rparr>"

section \<open>Errors and contexts\<close>

definition terminalError_producer :: "Producer \<Rightarrow> goerr option" where
  "terminalError_producer p = p_terminalErr p"

definition appendError :: "Producer \<Rightarrow> goerr option" where
  "appendError p = p_appendErr p"

definition cancelSubmit :: "goerr \<Rightarrow> Producer \<Rightarrow> Producer" where
  "cancelSubmit cause p = (case p_submitCtx p of
     None \<Rightarrow> p\<lparr>p_submitCtx := Some (Sentinel Canceled, cause)\<rparr> | Some _ \<Rightarrow> p)"

text \<open>The producer's context ends, with its child \<open>submitCtx\<close>: by its own \<open>cancel\<close> or because its parent
  ended with an error and a cause.\<close>

definition end_ctx :: "goerr \<Rightarrow> goerr \<Rightarrow> Producer \<Rightarrow> Producer" where
  "end_ctx err cause p = (case p_ctx p of
     Some _ \<Rightarrow> p
   | None \<Rightarrow>
       let p = p\<lparr>p_ctx := Some err\<rparr>
       in case p_submitCtx p of None \<Rightarrow> p\<lparr>p_submitCtx := Some (err, cause)\<rparr> | Some _ \<Rightarrow> p)"

definition cancel_producer :: "Producer \<Rightarrow> Producer" where
  "cancel_producer p = end_ctx (Sentinel Canceled) (Sentinel Canceled) p"

definition recordTerminalError_producer :: "goerr \<Rightarrow> Producer \<Rightarrow> goerr \<times> Producer" where
  "recordTerminalError_producer err p = (case p_terminalErr p of
     Some terminalErr \<Rightarrow> (terminalErr, p)
   | None \<Rightarrow>
       let p = p\<lparr>p_terminalErr := Some err\<rparr>;
           p = p\<lparr>p_closing := True\<rparr>;
           p = cancelSubmit err p;
           p = set_tracker (Close_capacity (own_tracker p)) p;
           p = cancel_producer p
       in (err, p\<lparr>p_closers := True\<rparr>))"

text \<open>The callbacks registered by \<open>newProducerWithSession\<close>, for an ended batcher context and an ended
  producer context.\<close>

definition after_batcher :: "goerr \<Rightarrow> Producer \<Rightarrow> Producer" where
  "after_batcher ctxErr p =
     (let cause = shutdownCause (p_batcher p) (Some ctxErr);
          p = cancelSubmit cause p
      in if \<not> errors_Is cause ErrSessionClosed then snd (recordTerminalError_producer cause p) else p)"

definition after_ctx :: "goerr \<Rightarrow> Producer \<Rightarrow> Producer" where
  "after_ctx ctxErr p = (if \<not> p_closing p then snd (recordTerminalError_producer ctxErr p) else p)"

section \<open>Resolving records\<close>

definition resolve_record :: "producerOutcome \<Rightarrow> recordMeta \<Rightarrow> Producer \<Rightarrow> Producer" where
  "resolve_record outcome m p = (case resolve (p_results p (rm_resultCh m)) outcome of
     None \<Rightarrow> p\<lparr>p_panicked := True\<rparr>
   | Some ch \<Rightarrow> p\<lparr>p_results := (p_results p)(rm_resultCh m := ch)\<rparr>)"

definition release_batch :: "recordMeta list \<Rightarrow> Producer \<Rightarrow> Producer" where
  "release_batch meta p = p\<lparr>p_heap := releaseProducerPermits meta (p_heap p)\<rparr>"

definition resolveBatchAck :: "recordMeta list \<Rightarrow> AppendAck \<Rightarrow> Producer \<Rightarrow> Producer" where
  "resolveBatchAck meta ack p =
     (let p = release_batch meta p
      in fold (\<lambda>m p. resolve_record \<lparr>po_indexedAck = Some \<lparr>ia_batchAck = ack, ia_index = word_of_nat (rm_index m)\<rparr>,
             po_err = None\<rparr> m p) meta p)"

definition resolve_errors :: "recordMeta list \<Rightarrow> goerr \<Rightarrow> Producer \<Rightarrow> Producer" where
  "resolve_errors meta err p = fold (resolve_record \<lparr>po_indexedAck = None, po_err = Some err\<rparr>) meta p"

definition dispatchBatchError :: "recordMeta list \<Rightarrow> goerr \<Rightarrow> Producer \<Rightarrow> Producer" where
  "dispatchBatchError meta err p =
     (let p = (if p_appendErr p = None then p\<lparr>p_appendErr := Some err\<rparr> else p);
          p = release_batch meta p
      in resolve_errors meta err p)"

text \<open>An operation of the batcher leaves the new state \<open>b\<close>; batches it dropped are resolved by the batcher
  itself, at the end of \<open>flushLocked\<close>.\<close>

fun settle_drop :: "batch_event \<Rightarrow> Producer \<Rightarrow> Producer" where
  "settle_drop (Dropped records meta err) p = resolve_errors meta err (release_batch meta p)"
| "settle_drop _ p = p"

definition with_batcher :: "Batcher \<Rightarrow> Producer \<Rightarrow> Producer" where
  "with_batcher b p =
     fold settle_drop (drop (length (b_out (p_batcher p))) (b_out b)) (p\<lparr>p_batcher := b\<rparr>)"

definition timer_fires :: "u64 \<Rightarrow> goerr option \<Rightarrow> Producer \<Rightarrow> Producer" where
  "timer_fires timerSeq sel p = with_batcher (flushFromTimer (p_batcher p) timerSeq sel) p"

text \<open>\<open>batcher.close()\<close>, with the cancellation of the batcher's context that follows it.\<close>

definition close_batch :: "goerr option \<Rightarrow> Producer \<Rightarrow> goerr option \<times> Producer" where
  "close_batch sel p =
     (let already = b_closed (p_batcher p);
          (err, b) = close_batcher (p_batcher p) sel;
          p = with_batcher b p
      in (err, if already then p else case p_batcherCtx p of
            None \<Rightarrow> p\<lparr>p_batcherCtx := Some (Sentinel Canceled)\<rparr> | Some _ \<Rightarrow> p))"

section \<open>Submit\<close>

definition mapSubmitError :: "goerr \<Rightarrow> Producer \<Rightarrow> goerr \<times> Producer" where
  "mapSubmitError err p = (case terminalError_producer p of
     Some terminalErr \<Rightarrow> (terminalErr, p)
   | None \<Rightarrow>
       if p_closing p then (Sentinel ErrSessionClosed, p)
       else case p_submitCtx p of
              Some (_, cause) \<Rightarrow>
                if errors_Is cause ErrSessionClosed then (Sentinel ErrSessionClosed, p)
                else recordTerminalError_producer cause p
            | None \<Rightarrow> (err, p))"

text \<open>The three checks made on entry and again when the bytes are reserved.\<close>

definition submit_checks :: "Producer \<Rightarrow> goerr option \<times> Producer" where
  "submit_checks p = (case terminalError_producer p of
     Some err \<Rightarrow> (Some err, p)
   | None \<Rightarrow>
       if p_closing p then (Some (Sentinel ErrSessionClosed), p)
       else case p_ctx p of
              Some err \<Rightarrow> (let (terminalErr, p) = recordTerminalError_producer err p in (Some terminalErr, p))
            | None \<Rightarrow> (None, p))"

definition Submit_enter :: "AppendRecord \<Rightarrow> Producer \<Rightarrow> goerr option \<times> Producer" where
  "Submit_enter rec p = (case submit_checks p of
     (Some err, p) \<Rightarrow> (Some err, p)
   | (None, p) \<Rightarrow>
       if MeteredPayloadBytes rec > bo_MaxMeteredBytes (b_opts (p_batcher p))
       then (Some record_too_large, p) else (None, p))"

definition record_bytes :: "AppendRecord \<Rightarrow> int" where
  "record_bytes rec = sint (MeteredPayloadBytes rec)"

definition submit_ctxErr :: "Producer \<Rightarrow> goerr option" where
  "submit_ctxErr p = map_option fst (p_submitCtx p)"

text \<open>Each part returns the error the call ends with, if it ends here, and moves \<open>p_sub\<close> on.\<close>

definition submit_fails :: "goerr \<Rightarrow> Producer \<Rightarrow> goerr option \<times> Producer" where
  "submit_fails err p = (let (err, p) = mapSubmitError err p in (Some err, p\<lparr>p_sub := SubNone\<rparr>))"

definition Submit_try :: "AppendRecord \<Rightarrow> Producer \<Rightarrow> goerr option \<times> Producer" where
  "Submit_try rec p = (case tryReserve (own_tracker p) (submit_ctxErr p) (record_bytes rec) of
     (Inl err, c) \<Rightarrow> submit_fails err (set_tracker c p)
   | (Inr True, c) \<Rightarrow> (None, (set_tracker c p)\<lparr>p_sub := SubAdd rec\<rparr>)
   | (Inr False, c) \<Rightarrow> (None, (set_tracker c p)\<lparr>p_sub := SubFlush rec\<rparr>))"

definition Submit_flush :: "AppendRecord \<Rightarrow> goerr option \<Rightarrow> Producer \<Rightarrow> goerr option \<times> Producer" where
  "Submit_flush rec sel p =
     (let (err, b) = flushForBackpressure (p_batcher p) sel;
          p = with_batcher b p
      in case err of
           Some err \<Rightarrow> submit_fails err p
         | None \<Rightarrow> (None, p\<lparr>p_sub := SubReserve rec\<rparr>))"

definition Submit_reserve :: "bool \<Rightarrow> AppendRecord \<Rightarrow> Producer \<Rightarrow> goerr option \<times> Producer" where
  "Submit_reserve first rec p =
     (let look = [(own_tracker p, submit_ctxErr p)]
      in case (if first then reserve (record_bytes rec) look else reserve_wait (record_bytes rec) look) of
           None \<Rightarrow> (None, p\<lparr>p_sub := SubWait rec\<rparr>)
         | Some (Some err, c) \<Rightarrow> submit_fails err (set_tracker c p)
         | Some (None, c) \<Rightarrow> (None, (set_tracker c p)\<lparr>p_sub := SubAdd rec\<rparr>))"

text \<open>The rest of the call, with the bytes reserved: the permit, the second round of checks, the record
  into the batcher.  The result is the number of the result channel the ticket holds.\<close>

definition with_permit :: "AppendRecord \<Rightarrow> Producer \<Rightarrow> Producer" where
  "with_permit rec p = p\<lparr>p_sub := SubNone, p_nextId := p_nextId p + 1,
     p_heap := (p_heap p)\<lparr>ph_permits := (ph_permits (p_heap p))(p_nextId p := newProducerPermit (p_capacity p) (record_bytes rec))\<rparr>\<rparr>"

definition free_permit :: "nat \<Rightarrow> Producer \<Rightarrow> Producer" where
  "free_permit k p = p\<lparr>p_heap := release_permit k (p_heap p)\<rparr>"

definition Submit_add ::
    "AppendRecord \<Rightarrow> goerr option \<Rightarrow> goerr option \<Rightarrow> Producer \<Rightarrow> (goerr + nat) \<times> Producer" where
  "Submit_add rec sel1 sel2 p =
     (let k = p_nextId p;
          p = with_permit rec p
      in case fst (submit_checks p) of
           Some err \<Rightarrow> (Inl err, snd (submit_checks (free_permit k p)))
         | None \<Rightarrow>
             (case addWithPermit (p_batcher p) rec (Some k) (Some k) sel1 sel2 of
                (Some err, b) \<Rightarrow>
                  let p = free_permit k (with_batcher b p)
                  in (Inl (if errors_Is err ErrSessionClosed
                       then (case terminalError_producer p of Some terminalErr \<Rightarrow> terminalErr | None \<Rightarrow> err) else err), p)
              | (None, b) \<Rightarrow> (Inr k, with_batcher b p)))"

text \<open>The whole call when no other goroutine runs in between: \<open>None\<close> when it would wait for capacity.\<close>

definition Submit_producer :: "AppendRecord \<Rightarrow> Producer \<Rightarrow> ((goerr + nat) \<times> Producer) option" where
  "Submit_producer rec p = (case Submit_enter rec p of
     (Some err, p) \<Rightarrow> Some (Inl err, p)
   | (None, p) \<Rightarrow> (case Submit_try rec p of
       (Some err, p) \<Rightarrow> Some (Inl err, p)
     | (None, p) \<Rightarrow>
         if p_sub p = SubAdd rec then Some (Submit_add rec None None p)
         else (case Submit_flush rec None p of
             (Some err, p) \<Rightarrow> Some (Inl err, p)
           | (None, p) \<Rightarrow> (case Submit_reserve True rec p of
               (Some err, p) \<Rightarrow> Some (Inl err, p)
             | (None, p) \<Rightarrow>
                 if p_sub p = SubAdd rec then Some (Submit_add rec None None p) else None))))"

section \<open>Flush\<close>

text \<open>What a call of \<open>Flush\<close> does next: return, wait until the consumer has ended and return the error,
  have the barrier ordered, or wait for the barrier.\<close>

datatype flush_next = FlushReturn "goerr option" | FlushDrain goerr | FlushOrder | FlushBarrier

definition Flush_enter :: "goerr option \<Rightarrow> Producer \<Rightarrow> flush_next \<times> Producer" where
  "Flush_enter ctxErr p = (case ctxErr of
     Some err \<Rightarrow> (FlushReturn (Some err), p)
   | None \<Rightarrow> (case terminalError_producer p of
       Some err \<Rightarrow> (FlushDrain err, p)
     | None \<Rightarrow>
         if p_closing p then (FlushReturn (Some (Sentinel ErrSessionClosed)), p)
         else case p_ctx p of
                Some err \<Rightarrow> (let (terminalErr, p) = recordTerminalError_producer err p in (FlushDrain terminalErr, p))
              | None \<Rightarrow> (FlushOrder, p)))"

text \<open>The goroutine that orders the barrier.  \<open>sel\<close> is the select of the flush; the barrier itself is sent
  exactly when the batcher's context is not done, as \<open>flushBarrier\<close> checks before the send: the second select is fixed
  to the send.  That the context ends between this check and the select, and its case is taken, has the same effect as
  a flush of the batcher before the end of the context and \<open>flush_order\<close> after it.\<close>

definition flush_order :: "goerr option \<Rightarrow> Producer \<Rightarrow> goerr option \<times> Producer" where
  "flush_order sel p =
     (let k = p_nextBarrier p;
          p = p\<lparr>p_nextBarrier := k + 1\<rparr>;
          (err, b) = flushBarrier (p_batcher p) k sel (p_batcherCtx p) None;
          p = with_batcher b p
      in case err of
           None \<Rightarrow> (None, p)
         | Some err \<Rightarrow>
             if \<not> errors_Is err ErrSessionClosed
             then (let (err, p) = recordTerminalError_producer err p in (Some err, p))
             else (Some err, p))"

definition flush_ordered :: "goerr option \<Rightarrow> Producer \<Rightarrow> flush_next" where
  "flush_ordered err p = (case err of
     None \<Rightarrow> FlushBarrier
   | Some err \<Rightarrow>
       if errors_Is err ErrSessionClosed then
         (case terminalError_producer p of Some terminalErr \<Rightarrow> FlushDrain terminalErr | None \<Rightarrow> FlushReturn (Some err))
       else FlushDrain err)"

text \<open>The waits of \<open>Flush\<close>; \<open>sel\<close> is the error of the caller's context if its case is taken.  The outer
  \<open>None\<close> means that the call still waits.\<close>

definition waitForTerminalDrain :: "goerr option \<Rightarrow> goerr \<Rightarrow> Producer \<Rightarrow> goerr option option" where
  "waitForTerminalDrain sel terminalErr p = (case sel of
     Some err \<Rightarrow> Some (Some err)
   | None \<Rightarrow> if p_consumer p = ConDone then Some (Some terminalErr) else None)"

definition flush_barrier_wait :: "goerr option \<Rightarrow> nat \<Rightarrow> Producer \<Rightarrow> goerr option option" where
  "flush_barrier_wait sel k p = (case sel of
     Some err \<Rightarrow> Some (Some err)
   | None \<Rightarrow> (case p_barriers p k of [] \<Rightarrow> None | err # _ \<Rightarrow> Some err))"

section \<open>The consumer\<close>

fun is_Dropped :: "batch_event \<Rightarrow> bool" where
  "is_Dropped (Dropped _ _ _) = True"
| "is_Dropped _ = False"

definition messages :: "Batcher \<Rightarrow> batch_event list" where
  "messages b = filter (\<lambda>ev. \<not> is_Dropped ev) (b_out b)"

text \<open>\<open>processBatch\<close> up to the answer of the session's \<open>Submit\<close>, which is \<open>submitErr\<close>.\<close>

definition processBatch :: "AppendInput \<Rightarrow> recordMeta list \<Rightarrow> goerr option \<Rightarrow> Producer \<Rightarrow> Producer" where
  "processBatch input meta submitErr p = (case terminalError_producer p of
     Some err \<Rightarrow> dispatchBatchError meta err p
   | None \<Rightarrow>
       let p = p\<lparr>p_submitted := p_submitted p @ [input]\<rparr>
       in case submitErr of
            Some err \<Rightarrow> (let (terminalErr, p) = recordTerminalError_producer err p in p\<lparr>p_consumer := ConSync meta terminalErr\<rparr>)
          | None \<Rightarrow> p\<lparr>p_consumer := ConTicket input meta\<rparr>)"

text \<open>One round of \<open>consumeBatches\<close> up to the point where it waits: the next message is taken.\<close>

definition consumeBatches :: "goerr option \<Rightarrow> Producer \<Rightarrow> Producer" where
  "consumeBatches submitErr p =
     (case messages (p_batcher p) ! p_taken p of
        Batch input meta \<Rightarrow> processBatch input meta submitErr (p\<lparr>p_taken := p_taken p + 1\<rparr>)
      | Barrier k \<Rightarrow> p\<lparr>p_taken := p_taken p + 1, p_consumer := ConBarrier k\<rparr>
      | Dropped _ _ _ \<Rightarrow> p)"

text \<open>\<open>ready\<close> is what the future holds: \<open>Some None\<close> the ticket, \<open>Some (Some err)\<close> an error, \<open>None\<close> neither.
  The result \<open>None\<close> means that it still waits.\<close>

definition waitForBatchSubmission :: "goerr option option \<Rightarrow> Producer \<Rightarrow> goerr option option" where
  "waitForBatchSubmission ready p = (case ready of
     Some r \<Rightarrow> Some r
   | None \<Rightarrow> (case p_ctx p of Some err \<Rightarrow> Some (Some err) | None \<Rightarrow> None))"

text \<open>\<open>ready\<close> is what the ticket's channel holds: \<open>Some (Some r)\<close> a result, \<open>Some None\<close> that it is closed
  without one, \<open>None\<close> nothing yet.\<close>

definition waitForBatchAck :: "inflightResult option option \<Rightarrow> Producer \<Rightarrow> (goerr + AppendAck) option" where
  "waitForBatchAck ready p = (case ready of
     Some None \<Rightarrow> Some (Inl (errorf ''batch submit ticket resolved without a payload''))
   | Some (Some (AckResult ack)) \<Rightarrow> Some (Inr ack)
   | Some (Some (ErrResult err)) \<Rightarrow> Some (Inl err)
   | None \<Rightarrow> (case p_ctx p of Some err \<Rightarrow> Some (Inl err) | None \<Rightarrow> None))"

text \<open>After the wait for the ticket: on an error \<open>resolveSynchronousBatchError\<close> starts, otherwise the
  goroutine that waits for the acknowledgement is started.\<close>

definition submission_known :: "AppendInput \<Rightarrow> recordMeta list \<Rightarrow> goerr option \<Rightarrow> Producer \<Rightarrow> Producer" where
  "submission_known input meta err p = (case err of
     Some err \<Rightarrow> (let (terminalErr, p) = recordTerminalError_producer err p in p\<lparr>p_consumer := ConSync meta terminalErr\<rparr>)
   | None \<Rightarrow> p\<lparr>p_acks := p_acks p @ [(input, meta)], p_consumer := ConIdle\<rparr>)"

text \<open>The end of \<open>resolveSynchronousBatchError\<close>, when the wait group is empty.\<close>

definition sync_error :: "recordMeta list \<Rightarrow> goerr \<Rightarrow> Producer \<Rightarrow> Producer" where
  "sync_error meta terminalErr p = (dispatchBatchError meta terminalErr p)\<lparr>p_consumer := ConIdle\<rparr>"

definition answer_barrier :: "nat \<Rightarrow> Producer \<Rightarrow> Producer" where
  "answer_barrier k p =
     p\<lparr>p_barriers := (p_barriers p)(k := p_barriers p k @ [appendError p]), p_consumer := ConIdle\<rparr>"

text \<open>The goroutine of a submitted batch, when its wait has ended.\<close>

definition batch_acked :: "AppendInput \<times> recordMeta list \<Rightarrow> goerr + AppendAck \<Rightarrow> Producer \<Rightarrow> Producer" where
  "batch_acked w res p =
     (let p = (case res of
          Inl err \<Rightarrow> (let (terminalErr, p) = recordTerminalError_producer err p in dispatchBatchError (snd w) terminalErr p)
        | Inr ack \<Rightarrow> resolveBatchAck (snd w) ack p)
      in p\<lparr>p_acks := remove1 w (p_acks p)\<rparr>)"

section \<open>Close\<close>

definition Close_begin :: "Producer \<Rightarrow> Producer" where
  "Close_begin p =
     (let p = p\<lparr>p_closing := True\<rparr>;
          p = cancelSubmit (Sentinel ErrSessionClosed) p;
          p = set_tracker (Close_capacity (own_tracker p)) p
      in p\<lparr>p_close := CloseBatcher\<rparr>)"

definition Close_batcher :: "goerr option \<Rightarrow> Producer \<Rightarrow> Producer" where
  "Close_batcher sel p =
     (let (err, p) = close_batch sel p;
          p = (case err of Some err \<Rightarrow> snd (recordTerminalError_producer err p) | None \<Rightarrow> p)
      in p\<lparr>p_close := CloseWait\<rparr>)"

text \<open>When \<open>consumerDone\<close> is closed.\<close>

definition Close_end :: "Producer \<Rightarrow> Producer" where
  "Close_end p =
     (let p = (case p_ctx p of
          Some err \<Rightarrow> if terminalError_producer p = None then snd (recordTerminalError_producer err p) else p
        | None \<Rightarrow> p);
          p = cancel_producer p
      in p\<lparr>p_closeErr := terminalError_producer p, p_close := CloseDone\<rparr>)"

end
