(* ===== verification/Producer_Permits.thy ===== *)
theory Producer_Permits
  imports Producer
begin

text \<open>
  The permits of the producer: \<open>releaseProducerPermits\<close> returns the bytes of a whole batch with as few
  tracker updates as possible, and is the same as releasing every permit on its own.
\<close>

section \<open>Giving permits back\<close>

text \<open>The reference: every permit released on its own.\<close>

fun release_each :: "recordMeta list \<Rightarrow> permit_heap \<Rightarrow> permit_heap" where
  "release_each [] h = h"
| "release_each (m # meta) h = release_each meta (case rm_permit m of None \<Rightarrow> h | Some k \<Rightarrow> release_permit k h)"

definition permit_of :: "permit_heap \<Rightarrow> recordMeta \<Rightarrow> int" where
  "permit_of h m = (case rm_permit m of None \<Rightarrow> 0 | Some k \<Rightarrow> pp_bytes (ph_permits h k))"

definition trackers_plain :: "permit_heap \<Rightarrow> bool" where
  "trackers_plain h \<longleftrightarrow> (\<forall>c. ct_maxItems (ph_trackers h c) = 0 \<and> 0 \<le> ct_curBytes (ph_trackers h c) \<and>
     ct_curBytes (ph_trackers h c) < 2 ^ 62)"

lemma release_plain:
  assumes "ct_maxItems c = 0" "0 \<le> ct_curBytes c" "ct_curBytes c < 2 ^ 62" "0 \<le> n" "n < 2 ^ 62"
  shows "release c n = c\<lparr>ct_curBytes := max 0 (ct_curBytes c - n)\<rparr>"
proof -
  have "i64 (ct_curBytes c - n) = ct_curBytes c - n" using assms by (intro i64_id) simp_all
  with assms show ?thesis by (cases c) (auto simp: release_def Let_def max_def)
qed

lemma release_tracker_twice:
  assumes "trackers_plain h" "0 \<le> a" "0 \<le> b" "a + b < 2 ^ 62"
  shows "release_tracker c b (release_tracker c a h) = release_tracker c (a + b) h"
proof -
  let ?t = "ph_trackers h c"
  have t: "ct_maxItems ?t = 0" "0 \<le> ct_curBytes ?t" "ct_curBytes ?t < 2 ^ 62"
    using assms(1) by (auto simp: trackers_plain_def)
  have "release (release ?t a) b = release ?t (a + b)"
    using t assms(2-4) by (simp add: release_plain max_def)
  then show ?thesis by (simp add: release_tracker_def)
qed

lemma release_tracker_zero: "trackers_plain h \<Longrightarrow> release_tracker c 0 h = h"
  by (simp add: release_tracker_def release_def trackers_plain_def)

lemma release_tracker_plain: "trackers_plain h \<Longrightarrow> 0 \<le> n \<Longrightarrow> n < 2 ^ 62 \<Longrightarrow> trackers_plain (release_tracker c n h)"
  unfolding trackers_plain_def
proof
  fix d
  assume a: "\<forall>c. ct_maxItems (ph_trackers h c) = 0 \<and> 0 \<le> ct_curBytes (ph_trackers h c) \<and> ct_curBytes (ph_trackers h c) < 2 ^ 62"
    "0 \<le> n" "n < 2 ^ 62"
  then have "ct_curBytes (ph_trackers h c) - n < 2 ^ 62" using spec [OF a(1), of c] by linarith
  with a show "ct_maxItems (ph_trackers (release_tracker c n h) d) = 0 \<and> 0 \<le> ct_curBytes (ph_trackers (release_tracker c n h) d) \<and>
      ct_curBytes (ph_trackers (release_tracker c n h) d) < 2 ^ 62"
    by (cases "d = c") (simp_all add: release_tracker_def release_plain)
qed

lemma release_run_eq:
  "trackers_plain h \<Longrightarrow> 0 \<le> n \<Longrightarrow> release_run cap n h = (case cap of None \<Rightarrow> h | Some c \<Rightarrow> release_tracker c n h)"
  by (auto simp: release_run_def release_tracker_zero split: option.splits)

text \<open>Taking a permit and crediting a tracker touch different parts of the heap.\<close>

lemma take_permit_Some [simp]:
  "(case take_permit (Some k) h of (reserved, h') \<Rightarrow> f reserved h') = f (pp_bytes (ph_permits h k)) (snd (take_permit (Some k) h))"
  by (simp add: take_permit_def)

lemma take_permit_fields:
  "ph_trackers (snd (take_permit pm h)) = ph_trackers h"
  "pp_capacity (ph_permits (snd (take_permit pm h)) j) = pp_capacity (ph_permits h j)"
  "pp_bytes (ph_permits (snd (take_permit (Some k) h)) j) = (if j = k then 0 else pp_bytes (ph_permits h j))"
  by (simp_all add: take_permit_def split: option.splits)

lemma release_tracker_permits [simp]: "ph_permits (release_tracker c n h) = ph_permits h"
  by (simp add: release_tracker_def)

lemma take_permit_commute:
  "snd (take_permit pm (release_tracker c n h)) = release_tracker c n (snd (take_permit pm h))"
  "fst (take_permit pm (release_tracker c n h)) = fst (take_permit pm h)"
  by (simp_all add: take_permit_def release_tracker_def split: option.splits)

lemma release_permit_eq:
  assumes "trackers_plain h" "0 \<le> pp_bytes (ph_permits h k)"
  shows "release_permit k h = release_tracker (pp_capacity (ph_permits h k)) (pp_bytes (ph_permits h k)) (snd (take_permit (Some k) h))"
proof -
  have "trackers_plain (snd (take_permit (Some k) h))" using assms(1) by (simp add: trackers_plain_def take_permit_fields)
  moreover have "pp_bytes (ph_permits h k) = 0 \<or> pp_bytes (ph_permits h k) > 0" using assms(2) by linarith
  moreover have "release_permit k h = (if pp_bytes (ph_permits h k) > 0 then release_tracker (pp_capacity (ph_permits h k))
      (pp_bytes (ph_permits h k)) (snd (take_permit (Some k) h)) else snd (take_permit (Some k) h))"
    by (simp add: release_permit_def take_permit_fields)
  ultimately show ?thesis by (auto simp: release_tracker_zero)
qed

lemma release_loop_each:
  assumes "trackers_plain h" "\<And>k. 0 \<le> pp_bytes (ph_permits h k)" "0 \<le> bytes" "cap = None \<Longrightarrow> bytes = 0"
    and "bytes + (\<Sum>m\<leftarrow>meta. permit_of h m) < 2 ^ 62"
  shows "release_loop meta cap bytes h = release_each meta (release_run cap bytes h)"
  using assms
proof (induction meta arbitrary: cap bytes h)
  case (Cons m meta)
  have pos: "0 \<le> permit_of h x" for x using Cons.prems(2) by (simp add: permit_of_def split: option.splits)
  then have rest: "0 \<le> (\<Sum>m\<leftarrow>meta. permit_of h m)" by (intro sum_list_nonneg) auto
  have run: "release_run c n h' = (case c of None \<Rightarrow> h' | Some c \<Rightarrow> release_tracker c n h')"
    if "trackers_plain h'" "0 \<le> n" for c n h' by (rule release_run_eq [OF that])
  show ?case
  proof (cases "rm_permit m")
    case None
    with Cons.IH [OF Cons.prems(1,2,3)] Cons.prems(4,5) show ?thesis by (simp add: permit_of_def)
  next
    case (Some k)
    let ?r = "pp_bytes (ph_permits h k)" and ?h1 = "snd (take_permit (Some k) h)" and ?own = "pp_capacity (ph_permits h k)"
    have r: "0 \<le> ?r" by (rule Cons.prems(2))
    have pl: "trackers_plain ?h1" using Cons.prems(1) by (simp add: trackers_plain_def take_permit_fields)
    have pos1: "0 \<le> pp_bytes (ph_permits ?h1 j)" for j using Cons.prems(2) by (simp add: take_permit_fields)
    have le: "(\<Sum>m\<leftarrow>meta. permit_of ?h1 m) \<le> (\<Sum>m\<leftarrow>meta. permit_of h m)"
      using Cons.prems(2) by (intro sum_list_mono) (auto simp: permit_of_def take_permit_fields split: option.splits)
    have bound: "bytes + ?r + (\<Sum>m\<leftarrow>meta. permit_of h m) < 2 ^ 62" using Cons.prems(5) Some by (simp add: permit_of_def)
    have i: "i64 (bytes + ?r) = bytes + ?r" "i64 ?r = ?r"
      using bound rest r Cons.prems(3) by simp_all
    have small: "bytes < 2 ^ 62" "?r < 2 ^ 62" "bytes + ?r < 2 ^ 62" using bound rest r Cons.prems(3) by linarith+
    have pos2: "\<And>c n j. 0 \<le> pp_bytes (ph_permits (release_tracker c n ?h1) j)" using pos1 by simp
    have perm: "permit_of (release_tracker c n ?h1) x = permit_of ?h1 x" for c n x by (simp add: permit_of_def split: option.splits)
    have each: "release_each (m # meta) (release_run cap bytes h) =
        release_each meta (release_tracker ?own ?r (case cap of None \<Rightarrow> ?h1 | Some c \<Rightarrow> release_tracker c bytes ?h1))"
      using Some r Cons.prems(1,3) small(1)
      by (auto simp: run release_permit_eq take_permit_commute release_tracker_plain split: option.splits)
    show ?thesis
    proof (cases "?r = 0")
      case True
      have "release_each (m # meta) (release_run cap bytes h) = release_each meta (release_run cap bytes ?h1)"
        unfolding each True using pl Cons.prems(3) small(1)
        by (auto simp: run release_tracker_zero release_tracker_plain split: option.splits)
      moreover have "release_loop (m # meta) cap bytes h = release_loop meta cap bytes ?h1"
        using True Some by simp
      moreover note Cons.IH [OF pl pos1 Cons.prems(3,4)]
      ultimately show ?thesis using le bound True by simp
    next
      case False
      have loop: "release_loop (m # meta) cap bytes h =
          (if cap \<noteq> None \<and> cap \<noteq> Some ?own then release_loop meta (Some ?own) ?r (release_run cap bytes ?h1)
           else release_loop meta (Some ?own) (bytes + ?r) ?h1)"
        using False Some by (simp add: take_permit_fields i)
      have ih: "release_loop meta (Some ?own) n h' = release_each meta (release_tracker ?own n h')"
        if "trackers_plain h'" "\<And>j. 0 \<le> pp_bytes (ph_permits h' j)" "0 \<le> n" "n + (\<Sum>m\<leftarrow>meta. permit_of h' m) < 2 ^ 62" for n h'
        using Cons.IH [OF that(1-3), of "Some ?own"] that run by simp
      show ?thesis
      proof (cases "cap \<noteq> None \<and> cap \<noteq> Some ?own")
        case True
        then obtain c where c: "cap = Some c" by auto
        have "release_loop meta (Some ?own) ?r (release_tracker c bytes ?h1) =
            release_each meta (release_tracker ?own ?r (release_tracker c bytes ?h1))"
          by (rule ih) (use pl pos2 r le bound Cons.prems(3) small(1) in \<open>simp_all add: release_tracker_plain perm\<close>)
        with True c loop each show ?thesis using run [OF pl Cons.prems(3)] by simp
      next
        case False
        have "release_loop meta (Some ?own) (bytes + ?r) ?h1 = release_each meta (release_tracker ?own (bytes + ?r) ?h1)"
          by (rule ih) (use pl pos1 r le bound Cons.prems(3) in simp_all)
        moreover have "release_tracker ?own ?r (release_tracker ?own bytes ?h1) = release_tracker ?own (bytes + ?r) ?h1"
          by (rule release_tracker_twice) (use pl r Cons.prems(3) small(3) in simp_all)
        ultimately show ?thesis using False loop each Cons.prems(4) by (auto split: option.splits)
      qed
    qed
  qed
qed (use assms in simp)

text \<open>A batch whose records all hold a permit of one tracker: its bytes are returned at once.\<close>

lemma release_owned_loop:
  assumes "distinct (map rm_resultCh meta)"
    "\<forall>m\<in>set meta. rm_permit m = Some (rm_resultCh m) \<and> pp_capacity (ph_permits h (rm_resultCh m)) = c \<and>
       0 < pp_bytes (ph_permits h (rm_resultCh m))"
    "0 \<le> bytes" "cap = None \<and> bytes = 0 \<or> cap = Some c"
    "bytes + (\<Sum>m\<leftarrow>meta. pp_bytes (ph_permits h (rm_resultCh m))) < 2 ^ 62"
  shows "release_loop meta cap bytes h =
    h\<lparr>ph_permits := (\<lambda>k. if k \<in> rm_resultCh ` set meta then (ph_permits h k)\<lparr>pp_bytes := 0\<rparr> else ph_permits h k),
      ph_trackers := (let n = bytes + (\<Sum>m\<leftarrow>meta. pp_bytes (ph_permits h (rm_resultCh m)))
        in if 0 < n then (ph_trackers h)(c := release (ph_trackers h c) n) else ph_trackers h)\<rparr>"
  using assms
proof (induction meta arbitrary: cap bytes h)
  case Nil
  then show ?case by (auto simp: release_run_def release_tracker_def)
next
  case (Cons m meta)
  let ?k = "rm_resultCh m"
  let ?r = "pp_bytes (ph_permits h ?k)" and ?h1 = "snd (take_permit (Some ?k) h)"
  have neq: "rm_resultCh x \<noteq> ?k" if "x \<in> set meta" for x
    using Cons.prems(1) that by (metis distinct.simps(2) image_eqI list.simps(9) set_map)
  have bytes: "(\<Sum>m\<leftarrow>meta. pp_bytes (ph_permits ?h1 (rm_resultCh m))) = (\<Sum>m\<leftarrow>meta. pp_bytes (ph_permits h (rm_resultCh m)))"
    using Cons.prems(1) by (intro arg_cong [of _ _ sum_list] map_cong) (auto simp: take_permit_fields rev_image_eqI)
  have r: "0 < ?r" using Cons.prems(2) by simp
  have rest: "0 \<le> (\<Sum>m\<leftarrow>meta. pp_bytes (ph_permits h (rm_resultCh m)))"
    using Cons.prems(2) by (intro sum_list_nonneg) (auto simp: less_imp_le)
  have i: "i64 (bytes + ?r) = bytes + ?r" using Cons.prems(3,5) r rest by simp
  have "release_loop (m # meta) cap bytes h = release_loop meta (Some c) (bytes + ?r) ?h1"
    using Cons.prems(2,4) r i by (auto simp: take_permit_fields)
  also have "\<dots> = ?h1\<lparr>ph_permits := (\<lambda>k. if k \<in> rm_resultCh ` set meta then (ph_permits ?h1 k)\<lparr>pp_bytes := 0\<rparr> else ph_permits ?h1 k),
      ph_trackers := (let n = bytes + ?r + (\<Sum>m\<leftarrow>meta. pp_bytes (ph_permits ?h1 (rm_resultCh m)))
        in if 0 < n then (ph_trackers ?h1)(c := release (ph_trackers ?h1 c) n) else ph_trackers ?h1)\<rparr>"
    by (rule Cons.IH) (use Cons.prems bytes r neq in \<open>auto simp: take_permit_fields\<close>)
  finally show ?case
    unfolding bytes by (simp add: take_permit_def add.assoc Let_def fun_eq_iff)
qed

lemmas release_owned = release_owned_loop [where cap = None and bytes = 0, folded releaseProducerPermits_def, simplified]

section \<open>Properties\<close>

text \<open>Returning the permits of a batch in runs of one tracker gives the same permits and the same trackers
  as returning every permit on its own, also when the batch mixes the records of several producers, as long
  as the bytes fit.\<close>

theorem release_permits_equivalent:
  assumes "trackers_plain h" "\<And>k. 0 \<le> pp_bytes (ph_permits h k)" "(\<Sum>m\<leftarrow>meta. permit_of h m) < 2 ^ 62"
  shows "releaseProducerPermits meta h = release_each meta h"
  unfolding releaseProducerPermits_def
  by (subst release_loop_each) (use assms in \<open>simp_all add: release_run_def\<close>)

definition demo_permits :: permit_heap where
  "demo_permits = \<lparr>ph_permits = (\<lambda>k. newProducerPermit (k mod 2) (if k < 4 then 10 else 0)),
     ph_trackers = (\<lambda>c. (newCapacityTracker 100 0)\<lparr>ct_curBytes := 50\<rparr>)\<rparr>"

definition demo_metas :: "recordMeta list" where
  "demo_metas = map (\<lambda>k. \<lparr>rm_index = k, rm_resultCh = k, rm_permit = Some k\<rparr>) [0, 2, 1, 3]"

theorem release_permits_equivalent_witness:
  "ct_curBytes (ph_trackers (releaseProducerPermits demo_metas demo_permits) 1) = 30"
proof -
  have "releaseProducerPermits demo_metas demo_permits = release_each demo_metas demo_permits"
    by (rule release_permits_equivalent)
      (simp_all add: trackers_plain_def demo_permits_def newCapacityTracker_def newProducerPermit_def permit_of_def demo_metas_def)
  then show ?thesis
    by (simp add: demo_metas_def demo_permits_def newCapacityTracker_def newProducerPermit_def release_permit_def
        release_tracker_def release_def take_permit_def Let_def)
qed

end
