(* ===== verification/Producer_Inv.thy ===== *)
theory Producer_Inv
  imports Producer_Permits Step_Systems "HOL-Library.Multiset"
begin

text \<open>
  The producer under all interleavings of its goroutines: the step relation \<open>producer_step\<close>, and who owns
  what.  Every accepted record is at any moment in exactly one place (the batcher's buffer, its channel,
  the consumer, a goroutine waiting for an acknowledgement) with its result channel open and its bytes
  accounted for, or it is resolved; a record changes hands only as a whole.
\<close>

section \<open>The system\<close>

text \<open>The state is paired with the records accepted so far.  \<open>answer input ack\<close> says which
  acknowledgements the session may deliver for a batch.  A select of the batcher takes the case of its
  context only when that is done.\<close>

definition sel_ok :: "Producer \<Rightarrow> goerr option \<Rightarrow> bool" where
  "sel_ok p sel \<longleftrightarrow> sel = None \<or> sel = p_batcherCtx p"

inductive producer_step :: "(AppendInput \<Rightarrow> AppendAck \<Rightarrow> bool) \<Rightarrow> Producer \<times> entry list \<Rightarrow> Producer \<times> entry list \<Rightarrow> bool"
  for answer :: "AppendInput \<Rightarrow> AppendAck \<Rightarrow> bool" where
  pr_enter: "producer_step answer (p, acc) (snd (Submit_enter rec p), acc)"
| pr_lock: "p_sub p = SubNone \<Longrightarrow> metered_size rec < 2 ^ 64 \<Longrightarrow>
    MeteredPayloadBytes rec \<le> bo_MaxMeteredBytes (b_opts (p_batcher p)) \<Longrightarrow>
    producer_step answer (p, acc) (p\<lparr>p_sub := SubTry rec\<rparr>, acc)"
| pr_try: "p_sub p = SubTry rec \<Longrightarrow> producer_step answer (p, acc) (snd (Submit_try rec p), acc)"
| pr_backpressure: "p_sub p = SubFlush rec \<Longrightarrow> sel_ok p sel \<Longrightarrow>
    producer_step answer (p, acc) (snd (Submit_flush rec sel p), acc)"
| pr_reserve: "p_sub p = SubReserve rec \<Longrightarrow> producer_step answer (p, acc) (snd (Submit_reserve True rec p), acc)"
| pr_wait: "p_sub p = SubWait rec \<Longrightarrow> producer_step answer (p, acc) (snd (Submit_reserve False rec p), acc)"
| pr_add: "p_sub p = SubAdd rec \<Longrightarrow> sel_ok p sel1 \<Longrightarrow> sel_ok p sel2 \<Longrightarrow> Submit_add rec sel1 sel2 p = (res, p') \<Longrightarrow>
    producer_step answer (p, acc) (p', case res of Inl _ \<Rightarrow> acc | Inr k \<Rightarrow> acc @ [(rec, Some k, Some k)])"
| pr_timer: "sel_ok p sel \<Longrightarrow> producer_step answer (p, acc) (timer_fires tseq sel p, acc)"
| pr_user_flush: "sel_ok p sel \<Longrightarrow> producer_step answer (p, acc) (with_batcher (Batcher.Flush (p_batcher p) sel) p, acc)"
| pr_user_close: "sel_ok p sel \<Longrightarrow> producer_step answer (p, acc) (snd (close_batch sel p), acc)"
| pr_flush: "producer_step answer (p, acc) (snd (Flush_enter ctxErr p), acc)"
| pr_order: "sel_ok p sel \<Longrightarrow> producer_step answer (p, acc) (snd (flush_order sel p), acc)"
| pr_consume: "p_consumer p = ConIdle \<Longrightarrow> p_taken p < length (messages (p_batcher p)) \<Longrightarrow>
    producer_step answer (p, acc) (consumeBatches submitErr p, acc)"
| pr_ticket: "p_consumer p = ConTicket input meta \<Longrightarrow> waitForBatchSubmission ready p = Some err \<Longrightarrow>
    producer_step answer (p, acc) (submission_known input meta err p, acc)"
| pr_sync: "p_consumer p = ConSync meta err \<Longrightarrow> p_acks p = [] \<Longrightarrow>
    producer_step answer (p, acc) (sync_error meta err p, acc)"
| pr_barrier: "p_consumer p = ConBarrier k \<Longrightarrow> p_acks p = [] \<Longrightarrow>
    producer_step answer (p, acc) (answer_barrier k p, acc)"
| pr_drained: "p_consumer p = ConIdle \<Longrightarrow> b_chanClosed (p_batcher p) \<Longrightarrow>
    p_taken p = length (messages (p_batcher p)) \<Longrightarrow> p_acks p = [] \<Longrightarrow>
    producer_step answer (p, acc) (p\<lparr>p_consumer := ConDone\<rparr>, acc)"
| pr_acked: "w \<in> set (p_acks p) \<Longrightarrow> waitForBatchAck ready p = Some res \<Longrightarrow>
    (\<And>ack. res = Inr ack \<Longrightarrow> answer (fst w) ack) \<Longrightarrow>
    producer_step answer (p, acc) (batch_acked w res p, acc)"
| pr_receive: "Ack_ticket (p_results p k) sel = Some (res, ch) \<Longrightarrow>
    producer_step answer (p, acc) (p\<lparr>p_results := (p_results p)(k := ch)\<rparr>, acc)"
| pr_parent: "producer_step answer (p, acc) (end_ctx err cause p, acc)"
| pr_batcher_ctx: "p_batcherCtx p = None \<Longrightarrow>
    producer_step answer (p, acc) (p\<lparr>p_batcherCtx := Some err\<rparr>, acc)"
| pr_after_batcher: "p_batcherCtx p = Some err \<Longrightarrow> \<not> p_afterBatcher p \<Longrightarrow>
    producer_step answer (p, acc) ((after_batcher err p)\<lparr>p_afterBatcher := True\<rparr>, acc)"
| pr_after_ctx: "p_ctx p = Some err \<Longrightarrow> \<not> p_afterCtx p \<Longrightarrow>
    producer_step answer (p, acc) ((after_ctx err p)\<lparr>p_afterCtx := True\<rparr>, acc)"
| pr_closer: "p_closers p \<Longrightarrow> sel_ok p sel \<Longrightarrow>
    producer_step answer (p, acc) ((snd (close_batch sel p))\<lparr>p_closers := False\<rparr>, acc)"
| pr_close: "p_close p = CloseNot \<Longrightarrow> producer_step answer (p, acc) (Close_begin p, acc)"
| pr_close_batcher: "p_close p = CloseBatcher \<Longrightarrow> sel_ok p sel \<Longrightarrow>
    producer_step answer (p, acc) (Close_batcher sel p, acc)"
| pr_close_end: "p_close p = CloseWait \<Longrightarrow> p_consumer p = ConDone \<Longrightarrow>
    producer_step answer (p, acc) (Close_end p, acc)"

definition producer_init :: "BatchingOptions option \<Rightarrow> int option \<Rightarrow> Producer \<times> entry list \<Rightarrow> bool" where
  "producer_init opts provider s \<longleftrightarrow> s = (newProducerWithSession (NewBatcher opts) provider, []) \<and>
     (case provider of None \<Rightarrow> True | Some n \<Rightarrow> 0 < n \<and> n < 2 ^ 62)"

section \<open>Steps that move no record\<close>

text \<open>Errors and contexts are recorded in fields of their own: such a step leaves everything else as it
  was, and what is recorded stays.\<close>

definition view where
  "view p = ((p_batcher p, p_batcherCtx p, ph_permits (p_heap p), p_capacity p),
     (ct_maxBytes (own_tracker p), ct_maxItems (own_tracker p), ct_curBytes (own_tracker p), ct_curItems (own_tracker p)),
     (p_results p, p_nextId p, p_barriers p, p_nextBarrier p, p_taken p, p_consumer p, p_acks p, p_submitted p),
     (p_sub p, p_appendErr p, p_panicked p))"

definition quiet :: "Producer \<Rightarrow> Producer \<Rightarrow> bool" where
  "quiet p p' \<longleftrightarrow> view p' = view p \<and>
     (p_terminalErr p = None \<or> p_terminalErr p' = p_terminalErr p) \<and>
     (p_closing p \<longrightarrow> p_closing p') \<and> (p_terminalErr p' \<noteq> p_terminalErr p \<longrightarrow> p_closing p')"

lemma quiet_refl [simp, intro]: "quiet p p"
  by (simp add: quiet_def)

lemma quiet_trans: "quiet a b \<Longrightarrow> quiet b c \<Longrightarrow> quiet a c"
  unfolding quiet_def by auto

lemma quietD:
  assumes "quiet p p'"
  shows "p_batcher p' = p_batcher p" "p_batcherCtx p' = p_batcherCtx p" "ph_permits (p_heap p') = ph_permits (p_heap p)"
    "p_capacity p' = p_capacity p" "ct_maxBytes (own_tracker p') = ct_maxBytes (own_tracker p)"
    "ct_maxItems (own_tracker p') = ct_maxItems (own_tracker p)" "ct_curBytes (own_tracker p') = ct_curBytes (own_tracker p)"
    "ct_curItems (own_tracker p') = ct_curItems (own_tracker p)" "p_results p' = p_results p" "p_nextId p' = p_nextId p"
    "p_barriers p' = p_barriers p" "p_nextBarrier p' = p_nextBarrier p" "p_taken p' = p_taken p"
    "p_consumer p' = p_consumer p" "p_acks p' = p_acks p" "p_submitted p' = p_submitted p" "p_sub p' = p_sub p"
    "p_appendErr p' = p_appendErr p" "p_panicked p' = p_panicked p"
  using assms by (simp_all add: quiet_def view_def)

lemma own_set_tracker [simp]: "own_tracker (set_tracker c p) = c"
  by (simp add: own_tracker_def set_tracker_def)

lemma cancelSubmit_quiet [simp]: "quiet p (cancelSubmit cause p)"
  by (simp add: quiet_def view_def cancelSubmit_def own_tracker_def split: option.splits)

lemma end_ctx_quiet [simp]: "quiet p (end_ctx err cause p)"
  by (simp add: quiet_def view_def end_ctx_def own_tracker_def Let_def split: option.splits)

lemma cancel_producer_quiet [simp]: "quiet p (cancel_producer p)"
  by (simp add: cancel_producer_def)

lemma close_tracker_quiet [simp]: "quiet p (set_tracker (Close_capacity (own_tracker p)) p)"
  by (simp add: quiet_def view_def) (simp add: set_tracker_def)

lemma recordTerminalError_eq:
  "recordTerminalError_producer err p = (case p_terminalErr p of Some t \<Rightarrow> (t, p)
   | None \<Rightarrow> (err, (cancel_producer (set_tracker (Close_capacity (own_tracker
       (cancelSubmit err (p\<lparr>p_terminalErr := Some err, p_closing := True\<rparr>))))
       (cancelSubmit err (p\<lparr>p_terminalErr := Some err, p_closing := True\<rparr>))))\<lparr>p_closers := True\<rparr>))"
  by (simp add: recordTerminalError_producer_def Let_def split: option.splits)

lemma flag_quiet [simp]:
  "quiet p (p\<lparr>p_closers := b\<rparr>)" "quiet p (p\<lparr>p_afterBatcher := b\<rparr>)" "quiet p (p\<lparr>p_afterCtx := b\<rparr>)"
  "quiet p (p\<lparr>p_close := c\<rparr>)" "quiet p (p\<lparr>p_closeErr := e\<rparr>)" "quiet p (p\<lparr>p_closing := True\<rparr>)"
  "p_terminalErr p = None \<Longrightarrow> quiet p (p\<lparr>p_terminalErr := Some err, p_closing := True\<rparr>)"
  by (simp_all add: quiet_def view_def own_tracker_def)

lemma recordTerminalError_quiet:
  assumes "recordTerminalError_producer err p = (t, p')"
  shows "quiet p p' \<and> p_terminalErr p' = Some t \<and> p_closing p' = (p_terminalErr p = None \<or> p_closing p)"
proof (cases "p_terminalErr p")
  case None
  let ?p1 = "p\<lparr>p_terminalErr := Some err, p_closing := True\<rparr>"
  have "quiet p ?p1" using None by simp
  moreover have "quiet ?p1 (cancelSubmit err ?p1)" by simp
  moreover have "quiet (cancelSubmit err ?p1) (set_tracker (Close_capacity (own_tracker (cancelSubmit err ?p1))) (cancelSubmit err ?p1))"
    by simp
  moreover note cancel_producer_quiet [of "set_tracker (Close_capacity (own_tracker (cancelSubmit err ?p1))) (cancelSubmit err ?p1)"]
  moreover have "p' = (cancel_producer (set_tracker (Close_capacity (own_tracker (cancelSubmit err ?p1))) (cancelSubmit err ?p1)))\<lparr>p_closers := True\<rparr>"
    and t: "t = err"
    using assms None by (auto simp: recordTerminalError_eq)
  ultimately have q: "quiet p p'" and q1: "quiet ?p1 p'" by (metis flag_quiet(1) quiet_trans)+
  from q1 have "p_terminalErr p' = Some err" "p_closing p'" by (simp_all add: quiet_def)
  with q t None show ?thesis by simp
qed (use assms in \<open>simp add: recordTerminalError_eq\<close>)

lemma recordTerminalError_snd [simp]: "quiet p (snd (recordTerminalError_producer err p))"
  using recordTerminalError_quiet [OF prod.collapse [symmetric]] by blast

lemma quiet_update: "quiet p p' \<Longrightarrow> quiet p' (f p') \<Longrightarrow> quiet p (f p')"
  by (rule quiet_trans)

lemma after_batcher_quiet [simp]: "quiet p (after_batcher err p)"
  by (auto simp: after_batcher_def Let_def intro: quiet_trans [OF cancelSubmit_quiet recordTerminalError_snd])

lemma after_ctx_quiet [simp]: "quiet p (after_ctx err p)"
  by (simp add: after_ctx_def)

lemma mapSubmitError_quiet: "mapSubmitError err p = (e, p') \<Longrightarrow> quiet p p'"
  by (auto simp: mapSubmitError_def dest: recordTerminalError_quiet split: option.splits if_splits)

lemma submit_checks_quiet: "submit_checks p = (e, p') \<Longrightarrow> quiet p p' \<and> (e = None \<longrightarrow> p' = p)"
  by (auto simp: submit_checks_def dest: recordTerminalError_quiet split: option.splits if_splits prod.splits)

lemma Submit_enter_quiet [simp]: "quiet p (snd (Submit_enter rec p))"
  by (cases "submit_checks p")
    (auto simp: Submit_enter_def dest: submit_checks_quiet split: option.splits)

lemma Flush_enter_quiet [simp]: "quiet p (snd (Flush_enter ctxErr p))"
  by (auto simp: Flush_enter_def dest: recordTerminalError_quiet split: option.splits prod.splits)

lemma Close_begin_quiet [simp]: "quiet p (Close_begin p)"
proof -
  let ?p1 = "p\<lparr>p_closing := True\<rparr>" and ?p2 = "cancelSubmit (Sentinel ErrSessionClosed) (p\<lparr>p_closing := True\<rparr>)"
  have "quiet p ?p1" "quiet ?p1 ?p2" "quiet ?p2 (set_tracker (Close_capacity (own_tracker ?p2)) ?p2)" by simp_all
  then show ?thesis unfolding Close_begin_def Let_def by (metis flag_quiet(4) quiet_trans)
qed

lemma Close_end_quiet [simp]: "quiet p (Close_end p)"
proof -
  let ?p1 = "case p_ctx p of Some err \<Rightarrow> if terminalError_producer p = None then snd (recordTerminalError_producer err p) else p | None \<Rightarrow> p"
  have "quiet p ?p1" by (simp split: option.splits)
  then have "quiet p (cancel_producer ?p1)" by (rule quiet_trans) simp
  then show ?thesis unfolding Close_end_def Let_def
    by (rule quiet_trans) (simp add: quiet_def view_def own_tracker_def)
qed

section \<open>Who owns a record\<close>

fun event_meta :: "batch_event \<Rightarrow> recordMeta list" where
  "event_meta (Batch input meta) = meta"
| "event_meta _ = []"

fun event_all :: "batch_event \<Rightarrow> recordMeta list" where
  "event_all (Batch input meta) = meta"
| "event_all (Dropped records meta err) = meta"
| "event_all (Barrier k) = []"

fun consumer_meta :: "consumer_pc \<Rightarrow> recordMeta list" where
  "consumer_meta (ConTicket input meta) = meta"
| "consumer_meta (ConSync meta err) = meta"
| "consumer_meta _ = []"

definition queued :: "Producer \<Rightarrow> recordMeta list" where
  "queued p = concat (map event_meta (drop (p_taken p) (messages (p_batcher p))))"

definition held :: "Producer \<Rightarrow> recordMeta list" where
  "held p = consumer_meta (p_consumer p) @ concat (map snd (p_acks p))"

definition live :: "Producer \<Rightarrow> recordMeta list" where
  "live p = queued p @ held p @ b_recordMeta (p_batcher p)"

fun sub_held :: "sub_pc \<Rightarrow> int" where
  "sub_held (SubAdd rec) = record_bytes rec"
| "sub_held _ = 0"

definition permit_bytes :: "Producer \<Rightarrow> nat \<Rightarrow> int" where
  "permit_bytes p k = pp_bytes (ph_permits (p_heap p) k)"

text \<open>\<open>L\<close> are the records not resolved yet, \<open>A\<close> the bytes of every record accepted, by number, \<open>extra\<close> bytes
  reserved for no record yet.\<close>

definition owns :: "Producer \<Rightarrow> recordMeta list \<Rightarrow> (nat \<rightharpoonup> int) \<Rightarrow> int \<Rightarrow> bool" where
  "owns p L A extra \<longleftrightarrow>
     distinct (map rm_resultCh L) \<and>
     (\<forall>m\<in>set L. rm_permit m = Some (rm_resultCh m) \<and> A (rm_resultCh m) = Some (permit_bytes p (rm_resultCh m)) \<and>
        p_results p (rm_resultCh m) = new_resultChan \<and>
        pp_capacity (ph_permits (p_heap p) (rm_resultCh m)) = p_capacity p \<and> 0 < permit_bytes p (rm_resultCh m)) \<and>
     (\<forall>k\<in>dom A. k < p_nextId p) \<and> (\<forall>k\<ge>p_nextId p. p_results p k = new_resultChan) \<and>
     (\<forall>k\<in>dom A. k \<notin> rm_resultCh ` set L \<longrightarrow> (\<exists>o'. rch_sent (p_results p k) = [o'] \<and> rch_closed (p_results p k))) \<and>
     tracker_ok (own_tracker p) \<and> ct_maxItems (own_tracker p) = 0 \<and> 0 \<le> extra \<and>
     ct_curBytes (own_tracker p) = (\<Sum>m\<leftarrow>L. permit_bytes p (rm_resultCh m)) + extra \<and>
     \<not> p_panicked p"

lemma owns_ids: "owns p L A extra \<Longrightarrow> m \<in> set L \<Longrightarrow> rm_resultCh m < p_nextId p"
  by (auto simp: owns_def)

lemma owns_ids_neq: "owns p L A extra \<Longrightarrow> m \<in> set L \<Longrightarrow> rm_resultCh m \<noteq> p_nextId p"
  using owns_ids by fastforce

lemma owns_mset:
  assumes "owns p L A extra" "mset L = mset L'"
  shows "owns p L' A extra"
proof -
  have "set L = set L'" using assms(2) by (metis set_mset_mset)
  moreover have "distinct (map rm_resultCh L) = distinct (map rm_resultCh L')"
    using assms(2) by (metis mset_eq_imp_distinct_iff mset_map)
  moreover have "(\<Sum>m\<leftarrow>L. permit_bytes p (rm_resultCh m)) = (\<Sum>m\<leftarrow>L'. permit_bytes p (rm_resultCh m))"
    using assms(2) by (metis mset_map sum_mset_sum_list)
  ultimately show ?thesis using assms(1) by (simp add: owns_def)
qed

lemma tracker_ok_close [simp]: "tracker_ok (Close_capacity c) = tracker_ok c"
  by (simp add: tracker_ok_def)

lemma owns_quiet:
  assumes "owns p L A extra" "quiet p p'"
  shows "owns p' L A extra"
  using assms(1) by (simp add: owns_def permit_bytes_def tracker_ok_def quietD [OF assms(2)])

end
