(* ===== verification/Producer_Steps.thy ===== *)
theory Producer_Steps
  imports Producer_Inv
begin

text \<open>
  What every step of the producer does to the ownership of the records and to what \<open>Flush\<close> relies on, and
  the invariant of the system.
\<close>

section \<open>Settling a batch\<close>

definition resolved :: "(recordMeta \<Rightarrow> producerOutcome) \<Rightarrow> recordMeta list \<Rightarrow> (nat \<Rightarrow> resultChan) \<Rightarrow> nat \<Rightarrow> resultChan" where
  "resolved out meta r =
     fold (\<lambda>m r. r(rm_resultCh m := \<lparr>rch_sent = [out m], rch_received = 0, rch_closed = True\<rparr>)) meta r"

lemma resolved_other: "k \<notin> rm_resultCh ` set meta \<Longrightarrow> resolved out meta r k = r k"
  unfolding resolved_def by (induction meta arbitrary: r) auto

lemma resolved_in:
  "distinct (map rm_resultCh meta) \<Longrightarrow> m \<in> set meta \<Longrightarrow>
     resolved out meta r (rm_resultCh m) = \<lparr>rch_sent = [out m], rch_received = 0, rch_closed = True\<rparr>"
proof (induction meta arbitrary: r)
  case (Cons x meta)
  show ?case
  proof (cases "m \<in> set meta")
    case True
    with Cons show ?thesis by (simp add: resolved_def)
  next
    case False
    with Cons.prems have "m = x" "rm_resultCh x \<notin> rm_resultCh ` set meta" by auto
    with resolved_other [of "rm_resultCh x" meta out "r(rm_resultCh x := \<lparr>rch_sent = [out x], rch_received = 0, rch_closed = True\<rparr>)"]
    show ?thesis by (simp add: resolved_def)
  qed
qed simp

lemma fold_resolve_record:
  assumes "distinct (map rm_resultCh meta)" "\<forall>m\<in>set meta. p_results p (rm_resultCh m) = new_resultChan"
  shows "fold (\<lambda>m. resolve_record (out m) m) meta p = p\<lparr>p_results := resolved out meta (p_results p)\<rparr>"
  using assms
proof (induction meta arbitrary: p)
  case (Cons x meta)
  let ?p1 = "p\<lparr>p_results := (p_results p)(rm_resultCh x := \<lparr>rch_sent = [out x], rch_received = 0, rch_closed = True\<rparr>)\<rparr>"
  have one: "resolve_record (out x) x p = ?p1"
    using Cons.prems by (simp add: resolve_record_def resolve_def new_resultChan_def)
  have neq: "rm_resultCh m \<noteq> rm_resultCh x" if "m \<in> set meta" for m
    using Cons.prems(1) that by (metis distinct.simps(2) image_eqI list.simps(9) set_map)
  have "fold (\<lambda>m. resolve_record (out m) m) meta ?p1 = ?p1\<lparr>p_results := resolved out meta (p_results ?p1)\<rparr>"
    by (rule Cons.IH) (use Cons.prems neq in auto)
  then show ?case by (simp add: one resolved_def)
qed (simp add: resolved_def)

text \<open>The permits of \<open>meta\<close> are returned and its records resolved; nothing else changes.\<close>

definition settled :: "(recordMeta \<Rightarrow> producerOutcome) \<Rightarrow> recordMeta list \<Rightarrow> Producer \<Rightarrow> Producer" where
  "settled out meta p = p\<lparr>p_heap := releaseProducerPermits meta (p_heap p), p_results := resolved out meta (p_results p)\<rparr>"

lemma settled_frame [simp]:
  "p_batcher (settled out meta p) = p_batcher p" "p_batcherCtx (settled out meta p) = p_batcherCtx p"
  "p_capacity (settled out meta p) = p_capacity p" "p_nextId (settled out meta p) = p_nextId p"
  "p_barriers (settled out meta p) = p_barriers p" "p_nextBarrier (settled out meta p) = p_nextBarrier p"
  "p_taken (settled out meta p) = p_taken p" "p_consumer (settled out meta p) = p_consumer p"
  "p_acks (settled out meta p) = p_acks p" "p_submitted (settled out meta p) = p_submitted p"
  "p_sub (settled out meta p) = p_sub p" "p_appendErr (settled out meta p) = p_appendErr p"
  "p_panicked (settled out meta p) = p_panicked p" "p_terminalErr (settled out meta p) = p_terminalErr p"
  "p_closing (settled out meta p) = p_closing p" "p_results (settled out meta p) = resolved out meta (p_results p)"
  "p_ctx (settled out meta p) = p_ctx p" "p_submitCtx (settled out meta p) = p_submitCtx p"
  "p_close (settled out meta p) = p_close p" "p_closeErr (settled out meta p) = p_closeErr p"
  by (simp_all add: settled_def)

lemma owns_split:
  assumes "owns p L A extra" "mset L = mset (meta @ L')"
  shows "distinct (map rm_resultCh meta)" "\<forall>m\<in>set meta. p_results p (rm_resultCh m) = new_resultChan"
    "rm_resultCh ` set meta \<inter> rm_resultCh ` set L' = {}"
proof -
  have "owns p (meta @ L') A extra" by (rule owns_mset [OF assms])
  then show "distinct (map rm_resultCh meta)" "\<forall>m\<in>set meta. p_results p (rm_resultCh m) = new_resultChan"
    "rm_resultCh ` set meta \<inter> rm_resultCh ` set L' = {}"
    by (auto simp: owns_def)
qed

lemma settle_eq:
  assumes "owns p L A extra" "mset L = mset (meta @ L')"
  shows "fold (\<lambda>m. resolve_record (out m) m) meta (release_batch meta p) = settled out meta p"
  using fold_resolve_record [of meta "release_batch meta p" out] owns_split [OF assms]
  by (simp add: release_batch_def settled_def)

lemma settled_owns:
  assumes "owns p L A extra" "mset L = mset (meta @ L')"
  shows "owns (settled out meta p) L' A extra"
proof -
  have o: "owns p (meta @ L') A extra" by (rule owns_mset [OF assms])
  note d = owns_split [OF assms]
  let ?h = "p_heap p" and ?c = "p_capacity p"
  let ?S = "\<Sum>m\<leftarrow>meta. permit_bytes p (rm_resultCh m)" and ?R = "\<Sum>m\<leftarrow>L'. permit_bytes p (rm_resultCh m)"
  have ok: "tracker_ok (own_tracker p)" "ct_maxItems (own_tracker p) = 0" "ct_curBytes (own_tracker p) = ?S + ?R + extra" "0 \<le> extra"
    using o by (auto simp: owns_def)
  have pos: "\<forall>m\<in>set (meta @ L'). 0 < permit_bytes p (rm_resultCh m)" using o by (auto simp: owns_def)
  have S: "0 \<le> ?S" "0 \<le> ?R" using pos by (auto intro!: sum_list_nonneg simp: less_imp_le)
  have small: "?S < 2 ^ 62" using ok S by (auto simp: tracker_ok_def)
  have heap: "releaseProducerPermits meta ?h =
    ?h\<lparr>ph_permits := (\<lambda>k. if k \<in> rm_resultCh ` set meta then (ph_permits ?h k)\<lparr>pp_bytes := 0\<rparr> else ph_permits ?h k),
      ph_trackers := (if 0 < ?S then (ph_trackers ?h)(?c := release (ph_trackers ?h ?c) ?S) else ph_trackers ?h)\<rparr>"
    using release_owned [of meta ?h ?c] d(1) o small by (auto simp: owns_def permit_bytes_def)
  let ?p' = "settled out meta p"
  have rel: "tracker_ok (release (own_tracker p) ?S) \<and> ct_curBytes (release (own_tracker p) ?S) = ct_curBytes (own_tracker p) - ?S"
    using release_ok [of "own_tracker p" ?S] ok S by simp
  have tr: "own_tracker ?p' = (if 0 < ?S then release (own_tracker p) ?S else own_tracker p)"
    by (simp add: own_tracker_def settled_def heap)
  have tr_ok: "tracker_ok (own_tracker ?p')" "ct_maxItems (own_tracker ?p') = 0" "ct_curBytes (own_tracker ?p') = ?R + extra"
    using ok rel S unfolding tr by auto
  have keep: "permit_bytes ?p' (rm_resultCh m) = permit_bytes p (rm_resultCh m)"
    "pp_capacity (ph_permits (p_heap ?p') (rm_resultCh m)) = pp_capacity (ph_permits ?h (rm_resultCh m))"
    "p_results ?p' (rm_resultCh m) = p_results p (rm_resultCh m)" if "m \<in> set L'" for m
    using d(3) that resolved_other [of "rm_resultCh m" meta out "p_results p"]
    by (auto simp: permit_bytes_def settled_def heap)
  then have sum: "(\<Sum>m\<leftarrow>L'. permit_bytes ?p' (rm_resultCh m)) = ?R"
    by (intro arg_cong [of _ _ sum_list] map_cong) auto
  have done': "\<exists>o'. rch_sent (p_results ?p' k) = [o'] \<and> rch_closed (p_results ?p' k)"
    if k: "k \<in> dom A" "k \<notin> rm_resultCh ` set L'" for k
  proof (cases "k \<in> rm_resultCh ` set meta")
    case True
    then obtain m where "m \<in> set meta" "k = rm_resultCh m" by auto
    with resolved_in [OF d(1), of m] show ?thesis by simp
  next
    case False
    then have "k \<notin> rm_resultCh ` set (meta @ L')" using k by auto
    with o k show ?thesis by (auto simp: owns_def resolved_other [OF False])
  qed
  have fresh: "p_results ?p' k = new_resultChan" if "p_nextId p \<le> k" for k
  proof -
    have "k \<notin> rm_resultCh ` set meta" using owns_ids [OF o] that by force
    with o that show ?thesis by (simp add: owns_def resolved_other)
  qed
  show ?thesis
    unfolding owns_def tr_ok sum
    using o keep done' fresh ok(4) tr_ok(1) by (simp add: owns_def)
qed

lemma dispatchBatchError_eq:
  assumes "owns p L A extra" "mset L = mset (meta @ L')"
  shows "dispatchBatchError meta err p = settled (\<lambda>_. \<lparr>po_indexedAck = None, po_err = Some err\<rparr>) meta
    (p\<lparr>p_appendErr := (if p_appendErr p = None then Some err else p_appendErr p)\<rparr>)"
proof -
  let ?p = "if p_appendErr p = None then p\<lparr>p_appendErr := Some err\<rparr> else p"
  have "owns ?p L A extra" using assms(1) by (simp add: owns_def permit_bytes_def own_tracker_def)
  from settle_eq [OF this assms(2), of "\<lambda>_. \<lparr>po_indexedAck = None, po_err = Some err\<rparr>"]
  have "dispatchBatchError meta err p = settled (\<lambda>_. \<lparr>po_indexedAck = None, po_err = Some err\<rparr>) meta ?p"
    by (simp add: dispatchBatchError_def resolve_errors_def Let_def)
  moreover have "?p = p\<lparr>p_appendErr := (if p_appendErr p = None then Some err else p_appendErr p)\<rparr>" by simp
  ultimately show ?thesis by metis
qed

lemma resolveBatchAck_eq:
  assumes "owns p L A extra" "mset L = mset (meta @ L')"
  shows "resolveBatchAck meta ack p = settled (\<lambda>m. \<lparr>po_indexedAck = Some \<lparr>ia_batchAck = ack,
    ia_index = word_of_nat (rm_index m)\<rparr>, po_err = None\<rparr>) meta p"
  using settle_eq [OF assms] by (simp add: resolveBatchAck_def Let_def)

section \<open>What the batcher emits\<close>

fun drop_meta :: "batch_event \<Rightarrow> recordMeta list" where
  "drop_meta (Dropped records meta err) = meta"
| "drop_meta _ = []"

fun is_Barrier :: "batch_event \<Rightarrow> bool" where
  "is_Barrier (Barrier k) = True"
| "is_Barrier _ = False"

text \<open>An operation appends the events \<open>evs\<close>; they take records from the buffer, to which \<open>new\<close> was added.\<close>

definition emits :: "Batcher \<Rightarrow> batch_event list \<Rightarrow> Batcher \<Rightarrow> recordMeta list \<Rightarrow> bool" where
  "emits b evs b' new \<longleftrightarrow> b_out b' = b_out b @ evs \<and> b_opts b' = b_opts b \<and>
     concat (map event_all evs) @ b_recordMeta b' = b_recordMeta b @ new"

lemma emits_refl [simp]: "emits b [] b []"
  by (simp add: emits_def)

lemma emits_trans: "emits b evs b' new \<Longrightarrow> emits b' evs' b'' new' \<Longrightarrow> emits b (evs @ evs') b'' (new @ new')"
proof -
  assume a: "emits b evs b' new" "emits b' evs' b'' new'"
  have "concat (map event_all (evs @ evs')) @ b_recordMeta b'' = concat (map event_all evs) @ (b_recordMeta b' @ new')"
    using a(2) by (simp add: emits_def)
  also have "\<dots> = (b_recordMeta b @ new) @ new'" unfolding append_assoc [symmetric] using a(1) by (simp add: emits_def)
  finally show ?thesis using a by (simp add: emits_def)
qed

lemma flushLocked_emits:
  "\<exists>evs. emits b evs (snd (flushLocked b sel)) [] \<and> (\<forall>ev\<in>set evs. \<not> is_Barrier ev) \<and> (sel = None \<longrightarrow> (\<forall>ev\<in>set evs. \<not> is_Dropped ev))"
proof (cases "b_buffer b = []")
  case True
  then have "emits b [] (snd (flushLocked b sel)) []" by simp
  then show ?thesis by (metis empty_iff empty_set)
next
  case False
  obtain err b' where f: "flushLocked b sel = (err, b')" by fastforce
  note fl = flushLocked_fields [OF False f]
  let ?ev = "case sel of
       None \<Rightarrow> Batch \<lparr>ai_Records = b_buffer b, ai_MatchSeqNum = b_nextMatchSeqNum b,
         ai_FencingToken = bo_FencingToken (b_opts b), ai_StreamConfig = None\<rparr> (b_recordMeta b)
     | Some e \<Rightarrow> Dropped (b_buffer b) (b_recordMeta b) e"
  have "emits b [?ev] b' []" using fl(3,5,10) by (simp add: emits_def split: option.splits)
  then show ?thesis unfolding f snd_conv by (intro exI [of _ "[?ev]"]) (simp split: option.splits)
qed

definition quiet_events :: "goerr option \<Rightarrow> batch_event list \<Rightarrow> bool" where
  "quiet_events sel evs \<longleftrightarrow> (\<forall>ev\<in>set evs. \<not> is_Barrier ev) \<and> (sel = None \<longrightarrow> (\<forall>ev\<in>set evs. \<not> is_Dropped ev))"

lemma quiet_events_Nil [simp]: "quiet_events sel []"
  by (simp add: quiet_events_def)

lemma emits_flags [simp]:
  "emits (b\<lparr>b_timer := t\<rparr>) evs b' new = emits b evs b' new" "emits (b\<lparr>b_closed := c\<rparr>) evs b' new = emits b evs b' new"
  "emits b evs (b'\<lparr>b_timer := t\<rparr>) new = emits b evs b' new" "emits b evs (b'\<lparr>b_timerSeq := s\<rparr>) new = emits b evs b' new"
  "emits b evs (b'\<lparr>b_chanClosed := c\<rparr>) new = emits b evs b' new"
  by (simp_all add: emits_def)

lemma flush_emits: "\<exists>evs. emits b evs (snd (flushLocked b sel)) [] \<and> quiet_events sel evs"
  using flushLocked_emits by (simp add: quiet_events_def)

lemma backpressure_emits: "\<exists>evs. emits b evs (snd (flushForBackpressure b sel)) [] \<and> quiet_events sel evs"
  using flush_emits by (auto simp: flushForBackpressure_def intro: exI [of _ "[]"])

lemma timer_emits: "\<exists>evs. emits b evs (flushFromTimer b tseq sel) [] \<and> quiet_events sel evs"
proof (cases "\<not> b_timer b \<or> b_timerSeq b \<noteq> tseq \<or> b_closed b")
  case True
  then have "emits b [] (flushFromTimer b tseq sel) []" by (auto simp: flushFromTimer_def)
  then show ?thesis by (metis quiet_events_Nil)
next
  case False
  then have "flushFromTimer b tseq sel = snd (flushLocked (b\<lparr>b_timer := False\<rparr>) sel)" by (simp add: flushFromTimer_def)
  with flush_emits [of "b\<lparr>b_timer := False\<rparr>" sel] show ?thesis by simp
qed

lemma close_emits: "\<exists>evs. emits b evs (snd (close_batcher b sel)) [] \<and> quiet_events sel evs"
proof (cases "b_closed b")
  case True
  then have "emits b [] (snd (close_batcher b sel)) []" by (simp add: close_batcher_def)
  then show ?thesis by (metis quiet_events_Nil)
next
  case False
  then show ?thesis using flush_emits [of "b\<lparr>b_closed := True\<rparr>" sel]
    by (simp add: close_batcher_def Let_def)
qed

lemma push_emits:
  "emits b [] (push_record b rec n (Some k) (Some k))
     [\<lparr>rm_index = length (b_buffer b), rm_resultCh = k, rm_permit = Some k\<rparr>]"
  by (simp add: emits_def push_record_fields)

lemma after_push_emits: "\<exists>evs. emits b evs (after_push b sel) [] \<and> quiet_events sel evs"
proof (cases "int (length (b_buffer b)) \<ge> bo_MaxRecords (b_opts b) \<or> b_bufferBytes b \<ge> bo_MaxMeteredBytes (b_opts b)")
  case True
  with flush_emits [of b sel] show ?thesis by (simp add: after_push_def)
next
  case False
  then have "emits b [] (after_push b sel) []" by (simp add: after_push_def emits_def)
  then show ?thesis by (metis quiet_events_Nil)
qed

lemma add_emits:
  assumes "addWithPermit b rec (Some k) (Some k) sel1 sel2 = (None, b')"
  shows "\<exists>evs i. emits b evs b' [\<lparr>rm_index = i, rm_resultCh = k, rm_permit = Some k\<rparr>] \<and>
    (\<forall>ev\<in>set evs. \<not> is_Barrier ev) \<and> (sel1 = None \<and> sel2 = None \<longrightarrow> (\<forall>ev\<in>set evs. \<not> is_Dropped ev))"
proof -
  let ?n = "MeteredPayloadBytes rec"
  let ?b1 = "if too_full b ?n then snd (flushLocked b sel1) else b"
  let ?m = "\<lparr>rm_index = length (b_buffer ?b1), rm_resultCh = k, rm_permit = Some k\<rparr>"
  have b': "b' = after_push (push_record ?b1 rec ?n (Some k) (Some k)) sel2"
    using assms by (simp add: addWithPermit_eq split: if_splits)
  obtain evs1 where 1: "emits b evs1 ?b1 []" "quiet_events sel1 evs1"
    using flush_emits [of b sel1] emits_refl [of b] quiet_events_Nil [of sel1] by (cases "too_full b ?n") (metis (full_types))+
  obtain evs2 where 2: "emits (push_record ?b1 rec ?n (Some k) (Some k)) evs2 b' []" "quiet_events sel2 evs2"
    using after_push_emits unfolding b' by blast
  have "emits b (evs1 @ [] @ evs2) b' ([] @ [?m] @ [])"
    by (intro emits_trans [OF 1(1)] emits_trans [OF push_emits 2(1)])
  moreover have "\<forall>ev\<in>set (evs1 @ [] @ evs2). \<not> is_Barrier ev" using 1(2) 2(2) by (auto simp: quiet_events_def)
  moreover have "sel1 = None \<and> sel2 = None \<longrightarrow> (\<forall>ev\<in>set (evs1 @ [] @ evs2). \<not> is_Dropped ev)"
    using 1(2) 2(2) by (auto simp: quiet_events_def)
  ultimately show ?thesis by (metis append_Nil append_Nil2)
qed

lemma barrier_emits:
  "\<exists>evs. emits b evs (snd (flushBarrier b k sel ctxErr None)) [] \<and> (sel = None \<longrightarrow> (\<forall>ev\<in>set evs. \<not> is_Dropped ev)) \<and>
     (\<exists>evs'. (\<forall>ev\<in>set evs'. \<not> is_Barrier ev) \<and> (evs = evs' \<or> evs = evs' @ [Barrier k] \<and> ctxErr = None))"
proof -
  obtain evs where 1: "emits b evs (snd (flushLocked b sel)) []" "quiet_events sel evs" using flush_emits by blast
  obtain err b1 where f: "flushLocked b sel = (err, b1)" by fastforce
  then have b1: "emits b evs b1 []" using 1(1) by simp
  consider "b_closed b" | "\<not> b_closed b" "err \<noteq> None \<or> ctxErr \<noteq> None" | "\<not> b_closed b" "err = None" "ctxErr = None" by blast
  then show ?thesis
  proof cases
    case 1
    then show ?thesis by (intro exI [of _ "[]"]) (simp add: flushBarrier_def)
  next
    case 2
    then have "snd (flushBarrier b k sel ctxErr None) = b1" using f by (auto simp: flushBarrier_def split: option.splits)
    with b1 1(2) show ?thesis by (intro exI [of _ evs]) (auto simp: quiet_events_def)
  next
    case 3
    then have "snd (flushBarrier b k sel ctxErr None) = b1\<lparr>b_out := b_out b1 @ [Barrier k]\<rparr>" using f by (simp add: flushBarrier_def)
    moreover have "emits b (evs @ [Barrier k]) (b1\<lparr>b_out := b_out b1 @ [Barrier k]\<rparr>) []" using b1 by (simp add: emits_def)
    ultimately show ?thesis using 1(2) 3(3) by (intro exI [of _ "evs @ [Barrier k]"]) (auto simp: quiet_events_def)
  qed
qed

section \<open>Operations of the batcher inside the producer\<close>

lemma fold_settle_drop:
  assumes "owns p L A extra" "mset L = mset (concat (map drop_meta evs) @ L')"
  shows "\<exists>h r. fold settle_drop evs p = p\<lparr>p_heap := h, p_results := r\<rparr> \<and>
    owns (p\<lparr>p_heap := h, p_results := r\<rparr>) L' A extra \<and>
    (\<forall>k. k \<notin> rm_resultCh ` set (concat (map drop_meta evs)) \<longrightarrow> r k = p_results p k) \<and>
    (\<forall>m\<in>set (concat (map drop_meta evs)). \<exists>o'. rch_sent (r (rm_resultCh m)) = [o'] \<and> po_err o' \<noteq> None)"
  using assms
proof (induction evs arbitrary: p L)
  case Nil
  then have "owns p L' A extra" by (auto intro: owns_mset)
  then show ?case by (intro exI [of _ "p_heap p"] exI [of _ "p_results p"]) simp
next
  case (Cons ev evs)
  show ?case
  proof (cases "is_Dropped ev")
    case False
    then have "drop_meta ev = []" "settle_drop ev p = p" by (cases ev; simp)+
    with Cons.IH [OF Cons.prems(1)] Cons.prems(2) show ?thesis by simp
  next
    case True
    then obtain rs meta err where ev: "ev = Dropped rs meta err" by (cases ev) auto
    let ?out = "\<lambda>_ :: recordMeta. \<lparr>po_indexedAck = None, po_err = Some err\<rparr>"
    let ?L = "concat (map drop_meta evs) @ L'"
    have L: "mset L = mset (meta @ ?L)" using Cons.prems(2) ev by simp
    have one: "settle_drop ev p = settled ?out meta p"
      using settle_eq [OF Cons.prems(1) L, of ?out] ev by (simp add: resolve_errors_def)
    have o: "owns (settled ?out meta p) ?L A extra" by (rule settled_owns [OF Cons.prems(1) L])
    obtain h r where hr: "fold settle_drop evs (settled ?out meta p) = (settled ?out meta p)\<lparr>p_heap := h, p_results := r\<rparr>"
      "owns ((settled ?out meta p)\<lparr>p_heap := h, p_results := r\<rparr>) L' A extra"
      "\<forall>k. k \<notin> rm_resultCh ` set (concat (map drop_meta evs)) \<longrightarrow> r k = resolved ?out meta (p_results p) k"
      "\<forall>m\<in>set (concat (map drop_meta evs)). \<exists>o'. rch_sent (r (rm_resultCh m)) = [o'] \<and> po_err o' \<noteq> None"
      using Cons.IH [OF o refl] by auto
    have same: "(settled ?out meta p)\<lparr>p_heap := h, p_results := r\<rparr> = p\<lparr>p_heap := h, p_results := r\<rparr>"
      by (simp add: settled_def)
    note d = owns_split [OF Cons.prems(1) L]
    have "\<exists>o'. rch_sent (r (rm_resultCh m)) = [o'] \<and> po_err o' \<noteq> None" if "m \<in> set meta" for m
    proof -
      have "rm_resultCh m \<notin> rm_resultCh ` set (concat (map drop_meta evs))" using d(3) that by auto
      with hr(3) resolved_in [OF d(1) that] show ?thesis by simp
    qed
    moreover have "r k = p_results p k" if "k \<notin> rm_resultCh ` set (concat (map drop_meta (ev # evs)))" for k
      using that hr(3) ev resolved_other [of k meta ?out "p_results p"] by (simp add: image_Un)
    ultimately show ?thesis using hr same one ev
      by (intro exI [of _ h] exI [of _ r]) auto
  qed
qed

lemma event_split: "mset (event_all ev) = mset (event_meta ev) + mset (drop_meta ev)"
  by (cases ev) auto

lemma events_split:
  "mset (concat (map event_all evs)) =
     mset (concat (map event_meta (filter (\<lambda>ev. \<not> is_Dropped ev) evs))) + mset (concat (map drop_meta evs))"
proof (induction evs)
  case (Cons ev evs)
  then show ?case using event_split [of ev] by (cases ev) auto
qed simp

lemma messages_emits: "emits b evs b' new \<Longrightarrow> messages b' = messages b @ filter (\<lambda>ev. \<not> is_Dropped ev) evs"
  by (simp add: emits_def messages_def)

text \<open>\<open>new\<close> is owned already, the record of \<open>Submit\<close> that the batcher has just accepted.\<close>

lemma with_batcher_owns:
  assumes own: "owns p (live p @ new) A extra" and e: "emits (p_batcher p) evs b' new"
    and t: "p_taken p \<le> length (messages (p_batcher p))"
  shows "\<exists>h r. with_batcher b' p = p\<lparr>p_batcher := b', p_heap := h, p_results := r\<rparr> \<and>
    owns (with_batcher b' p) (live (with_batcher b' p)) A extra \<and>
    (\<forall>k. k \<notin> rm_resultCh ` set (concat (map drop_meta evs)) \<longrightarrow> r k = p_results p k) \<and>
    (\<forall>m\<in>set (concat (map drop_meta evs)). \<exists>o'. rch_sent (r (rm_resultCh m)) = [o'] \<and> po_err o' \<noteq> None) \<and>
    set (concat (map drop_meta evs)) \<inter> set (held p) = {} \<and> set (concat (map drop_meta evs)) \<subseteq> set (live p @ new)"
proof -
  let ?p = "p\<lparr>p_batcher := b'\<rparr>" and ?D = "concat (map drop_meta evs)"
  let ?msgs = "filter (\<lambda>ev. \<not> is_Dropped ev) evs"
  have evs: "drop (length (b_out (p_batcher p))) (b_out b') = evs" using e by (simp add: emits_def)
  have q: "queued ?p = queued p @ concat (map event_meta ?msgs)"
    using messages_emits [OF e] t by (simp add: queued_def)
  have "mset (b_recordMeta (p_batcher p) @ new) = mset (concat (map event_all evs) @ b_recordMeta b')"
    using e by (simp add: emits_def)
  also have "\<dots> = mset (concat (map event_meta ?msgs)) + mset ?D + mset (b_recordMeta b')" by (simp only: mset_append events_split)
  finally have rm: "mset (b_recordMeta (p_batcher p) @ new) = mset (concat (map event_meta ?msgs)) + mset ?D + mset (b_recordMeta b')" .
  have m: "mset (live p @ new) = mset (?D @ live ?p)"
    using rm q by (simp add: live_def held_def ac_simps)
  have o: "owns ?p (live p @ new) A extra" using own by (simp add: owns_def permit_bytes_def own_tracker_def)
  have w: "with_batcher b' p = fold settle_drop evs ?p" by (simp add: with_batcher_def evs)
  obtain h r where hr: "with_batcher b' p = ?p\<lparr>p_heap := h, p_results := r\<rparr>" "owns (with_batcher b' p) (live ?p) A extra"
    "\<forall>k. k \<notin> rm_resultCh ` set ?D \<longrightarrow> r k = p_results p k"
    "\<forall>m\<in>set ?D. \<exists>o'. rch_sent (r (rm_resultCh m)) = [o'] \<and> po_err o' \<noteq> None"
    using fold_settle_drop [OF o m] w by auto
  have "live (with_batcher b' p) = live ?p" by (simp add: hr(1) live_def queued_def held_def)
  moreover have "set ?D \<inter> set (live ?p) = {}" using owns_split(3) [OF o m] by blast
  then have "set ?D \<inter> set (held p) = {}" by (auto simp: live_def held_def)
  moreover have "set ?D \<subseteq> set (live p @ new)" using m by (metis Un_upper1 mset_eq_setD set_append)
  ultimately show ?thesis using hr by (intro exI [of _ h] exI [of _ r]) simp
qed

section \<open>The invariant\<close>

definition entry_id :: "entry \<Rightarrow> nat" where
  "entry_id e = (case fst (snd e) of Some k \<Rightarrow> k | None \<Rightarrow> 0)"

definition entry_bytes :: "entry list \<Rightarrow> nat \<rightharpoonup> int" where
  "entry_bytes acc = map_of (map (\<lambda>e. (entry_id e, record_bytes (fst e))) acc)"

definition entries_ok :: "entry list \<Rightarrow> bool" where
  "entries_ok acc \<longleftrightarrow> distinct (map entry_id acc) \<and> (\<forall>e\<in>set acc. fst (snd e) = Some (entry_id e) \<and> snd (snd e) = Some (entry_id e))"

fun sub_record :: "sub_pc \<Rightarrow> AppendRecord option" where
  "sub_record SubNone = None"
| "sub_record (SubTry rec) = Some rec"
| "sub_record (SubFlush rec) = Some rec"
| "sub_record (SubReserve rec) = Some rec"
| "sub_record (SubWait rec) = Some rec"
| "sub_record (SubAdd rec) = Some rec"

definition sub_ok :: "Producer \<Rightarrow> bool" where
  "sub_ok p \<longleftrightarrow> (\<forall>rec. sub_record (p_sub p) = Some rec \<longrightarrow> metered_size rec < 2 ^ 64 \<and>
     MeteredPayloadBytes rec \<le> bo_MaxMeteredBytes (b_opts (p_batcher p)) \<and>
     (p_sub p = SubWait rec \<longrightarrow> record_bytes rec \<le> ct_maxBytes (own_tracker p)))"

definition errs_ok :: "Producer \<Rightarrow> bool" where
  "errs_ok p \<longleftrightarrow> (p_appendErr p \<noteq> None \<longrightarrow> p_appendErr p = p_terminalErr p) \<and>
     (\<forall>meta err. p_consumer p = ConSync meta err \<longrightarrow> p_terminalErr p = Some err) \<and>
     (p_terminalErr p \<noteq> None \<longrightarrow> p_closing p)"

text \<open>A batch in the hands of the consumer or of a waiting goroutine is a message of the channel; an
  acknowledged record has the acknowledgement of its batch and its own position in the batch.\<close>

definition ack_of_record :: "(AppendInput \<Rightarrow> AppendAck \<Rightarrow> bool) \<Rightarrow> batch_event list \<Rightarrow> nat \<Rightarrow> producerOutcome \<Rightarrow> bool" where
  "ack_of_record answer msgs k o' \<longleftrightarrow> (\<exists>input meta m ack. Batch input meta \<in> set msgs \<and> m \<in> set meta \<and> rm_resultCh m = k \<and>
     answer input ack \<and> o' = \<lparr>po_indexedAck = Some \<lparr>ia_batchAck = ack, ia_index = word_of_nat (rm_index m)\<rparr>, po_err = None\<rparr>)"

definition acks_from :: "(AppendInput \<Rightarrow> AppendAck \<Rightarrow> bool) \<Rightarrow> Producer \<Rightarrow> bool" where
  "acks_from answer p \<longleftrightarrow>
     (\<forall>w\<in>set (p_acks p). Batch (fst w) (snd w) \<in> set (messages (p_batcher p))) \<and>
     (\<forall>input meta. p_consumer p = ConTicket input meta \<longrightarrow> Batch input meta \<in> set (messages (p_batcher p))) \<and>
     (\<forall>k. \<forall>o'\<in>set (rch_sent (p_results p k)). po_err o' = None \<longrightarrow> ack_of_record answer (messages (p_batcher p)) k o')"

fun event_input :: "batch_event \<Rightarrow> AppendInput list" where
  "event_input (Batch input meta) = [input]"
| "event_input _ = []"

definition submits_order_ok :: "Producer \<Rightarrow> bool" where
  "submits_order_ok p \<longleftrightarrow> (let taken = concat (map event_input (take (p_taken p) (messages (p_batcher p))))
     in prefix (p_submitted p) taken \<and> (p_terminalErr p = None \<longrightarrow> p_submitted p = taken))"

text \<open>
  What \<open>Flush\<close> relies on.  No batch is dropped before a barrier, since a barrier is only sent while the
  batcher's context is alive.  Every record the consumer has received is still with it or with a waiting
  goroutine, or it is resolved, and if with an error then \<open>appendErr\<close> is set.  So a barrier answered without
  an error has only acknowledged records before it.
\<close>

definition acked :: "Producer \<Rightarrow> recordMeta \<Rightarrow> bool" where
  "acked p m \<longleftrightarrow> (\<exists>o'. rch_sent (p_results p (rm_resultCh m)) = [o'] \<and> po_err o' = None)"

definition accounted :: "Producer \<Rightarrow> recordMeta \<Rightarrow> bool" where
  "accounted p m \<longleftrightarrow> m \<in> set (held p) \<or> acked p m \<or> p_appendErr p \<noteq> None"

definition drops_ok :: "Producer \<Rightarrow> bool" where
  "drops_ok p \<longleftrightarrow> (p_batcherCtx p = None \<longrightarrow> (\<forall>ev\<in>set (b_out (p_batcher p)). \<not> is_Dropped ev)) \<and>
     (\<forall>ev\<in>set (dropWhile (\<lambda>ev. \<not> is_Dropped ev) (b_out (p_batcher p))). \<not> is_Barrier ev)"

fun barrier_id :: "batch_event \<Rightarrow> nat list" where
  "barrier_id (Barrier k) = [k]"
| "barrier_id _ = []"

lemma barrier_id_Nil: "barrier_id ev = [] \<longleftrightarrow> \<not> is_Barrier ev"
  by (cases ev) simp_all

lemma barrier_id_in: "k \<in> set (barrier_id ev) \<longleftrightarrow> ev = Barrier k"
  by (cases ev) auto

definition barriers_ok :: "Producer \<Rightarrow> bool" where
  "barriers_ok p \<longleftrightarrow> distinct (concat (map barrier_id (messages (p_batcher p)))) \<and>
     (\<forall>k. Barrier k \<in> set (messages (p_batcher p)) \<longrightarrow> k < p_nextBarrier p) \<and>
     (\<forall>k. p_barriers p k \<noteq> [] \<or> p_consumer p = ConBarrier k \<longrightarrow> Barrier k \<in> set (take (p_taken p) (messages (p_batcher p))))"

definition flush_ok :: "Producer \<Rightarrow> bool" where
  "flush_ok p \<longleftrightarrow>
     (\<forall>m\<in>set (concat (map event_meta (take (p_taken p) (messages (p_batcher p))))). accounted p m) \<and>
     (\<forall>i k. i < p_taken p \<longrightarrow> messages (p_batcher p) ! i = Barrier k \<longrightarrow> None \<in> set (p_barriers p k) \<longrightarrow>
        (\<forall>m\<in>set (concat (map event_meta (take i (messages (p_batcher p))))). acked p m))"

definition taken_ok :: "Producer \<Rightarrow> bool" where
  "taken_ok p \<longleftrightarrow> p_taken p \<le> length (messages (p_batcher p)) \<and>
     (p_consumer p = ConDone \<longrightarrow> b_chanClosed (p_batcher p) \<and> p_taken p = length (messages (p_batcher p)) \<and> p_acks p = [])"

definition producer_inv :: "(AppendInput \<Rightarrow> AppendAck \<Rightarrow> bool) \<Rightarrow> u64 option \<Rightarrow> Producer \<times> entry list \<Rightarrow> bool" where
  "producer_inv answer start s \<longleftrightarrow> (case s of (p, acc) \<Rightarrow>
     batcher_inv start (p_batcher p, acc) \<and> entries_ok acc \<and>
     owns p (live p) (entry_bytes acc) (sub_held (p_sub p)) \<and> sub_ok p \<and> taken_ok p \<and> errs_ok p \<and>
     acks_from answer p \<and> submits_order_ok p \<and> drops_ok p \<and> barriers_ok p \<and> flush_ok p)"

lemma producer_invI [inv_intro]:
  assumes "batcher_inv start (p_batcher p, acc)" "entries_ok acc"
    "owns p (live p) (entry_bytes acc) (sub_held (p_sub p))" "sub_ok p" "taken_ok p" "errs_ok p"
    "acks_from answer p" "submits_order_ok p" "drops_ok p" "barriers_ok p" "flush_ok p"
  shows "producer_inv answer start (p, acc)"
  using assms by (simp add: producer_inv_def)

lemma producer_invD:
  assumes "producer_inv answer start (p, acc)"
  shows "batcher_inv start (p_batcher p, acc)" "entries_ok acc"
    "owns p (live p) (entry_bytes acc) (sub_held (p_sub p))" "sub_ok p" "taken_ok p" "errs_ok p"
    "acks_from answer p" "submits_order_ok p" "drops_ok p" "barriers_ok p" "flush_ok p"
  using assms by (simp_all add: producer_inv_def)

section \<open>Preservation\<close>

lemma live_quiet: "quiet p p' \<Longrightarrow> live p' = live p \<and> held p' = held p"
  by (simp add: live_def queued_def held_def quietD)

lemma inv_quiet:
  assumes "producer_inv answer start (p, acc)" "quiet p p'"
  shows "producer_inv answer start (p', acc)"
proof -
  note q = quietD [OF assms(2)] and i = producer_invD [OF assms(1)]
  have t: "p_terminalErr p = None \<or> p_terminalErr p' = p_terminalErr p" "p_closing p \<longrightarrow> p_closing p'"
    "p_terminalErr p' \<noteq> p_terminalErr p \<longrightarrow> p_closing p'"
    using assms(2) by (auto simp: quiet_def)
  have l: "live p' = live p" "held p' = held p" using live_quiet [OF assms(2)] by auto
  show ?thesis
  proof (rule producer_invI)
    show "owns p' (live p') (entry_bytes acc) (sub_held (p_sub p'))"
      unfolding l q by (rule owns_quiet [OF i(3) assms(2)])
    show "errs_ok p'" using i(6) t unfolding errs_ok_def q by auto
    show "submits_order_ok p'" using i(8) t unfolding submits_order_ok_def q Let_def by auto
  qed (use i in \<open>simp_all add: sub_ok_def taken_ok_def acks_from_def drops_ok_def barriers_ok_def flush_ok_def accounted_def acked_def l q\<close>)
qed

text \<open>The submitter moves on or reserves bytes.\<close>

lemma inv_sub:
  assumes inv: "producer_inv answer start (p, acc)"
    and c: "tracker_ok c" "ct_maxItems c = 0" "ct_maxBytes c = ct_maxBytes (own_tracker p)"
      "ct_curBytes c = ct_curBytes (own_tracker p) - sub_held (p_sub p) + sub_held sub"
    and sub: "0 \<le> sub_held sub" "sub_ok (p\<lparr>p_sub := sub\<rparr>)"
  shows "producer_inv answer start ((set_tracker c p)\<lparr>p_sub := sub\<rparr>, acc)"
proof -
  note i = producer_invD [OF inv]
  let ?p = "(set_tracker c p)\<lparr>p_sub := sub\<rparr>"
  have f: "p_batcher ?p = p_batcher p" "p_batcherCtx ?p = p_batcherCtx p" "ph_permits (p_heap ?p) = ph_permits (p_heap p)"
    "p_capacity ?p = p_capacity p" "own_tracker ?p = c" "p_results ?p = p_results p" "p_nextId ?p = p_nextId p"
    "p_barriers ?p = p_barriers p" "p_nextBarrier ?p = p_nextBarrier p" "p_taken ?p = p_taken p"
    "p_consumer ?p = p_consumer p" "p_acks ?p = p_acks p" "p_submitted ?p = p_submitted p" "p_sub ?p = sub"
    "p_appendErr ?p = p_appendErr p" "p_panicked ?p = p_panicked p" "p_terminalErr ?p = p_terminalErr p" "p_closing ?p = p_closing p"
    by (simp_all add: set_tracker_def own_tracker_def)
  have l: "live ?p = live p" "held ?p = held p" by (simp_all add: live_def queued_def held_def f)
  show ?thesis
  proof (rule producer_invI)
    show "owns ?p (live ?p) (entry_bytes acc) (sub_held (p_sub ?p))"
      using i(3) c sub(1) unfolding owns_def permit_bytes_def l f by auto
    have "own_tracker (p\<lparr>p_sub := s\<rparr>) = own_tracker p" for s by (simp add: own_tracker_def)
    then show "sub_ok ?p" using sub(2) c(3) unfolding sub_ok_def f by simp
  qed (use i in \<open>simp_all add: errs_ok_def submits_order_ok_def Let_def taken_ok_def acks_from_def drops_ok_def barriers_ok_def
      flush_ok_def accounted_def acked_def l f\<close>)
qed

text \<open>An operation of the batcher.\<close>

lemma dropWhile_barrier:
  assumes "\<forall>ev\<in>set (dropWhile (\<lambda>ev. \<not> is_Dropped ev) xs). \<not> is_Barrier ev"
    and "\<forall>ev\<in>set ys. \<not> is_Barrier ev"
  shows "\<forall>ev\<in>set (dropWhile (\<lambda>ev. \<not> is_Dropped ev) (xs @ ys)). \<not> is_Barrier ev"
proof (cases "\<exists>x\<in>set xs. is_Dropped x")
  case True
  then have "dropWhile (\<lambda>ev. \<not> is_Dropped ev) (xs @ ys) = dropWhile (\<lambda>ev. \<not> is_Dropped ev) xs @ ys"
    by (auto simp: dropWhile_append1)
  with assms show ?thesis by auto
next
  case False
  then have "dropWhile (\<lambda>ev. \<not> is_Dropped ev) (xs @ ys) = dropWhile (\<lambda>ev. \<not> is_Dropped ev) ys"
    by (simp add: dropWhile_append2)
  with assms(2) show ?thesis by (auto dest: set_dropWhileD)
qed

lemma acked_mono:
  assumes "\<And>k. k \<in> K \<Longrightarrow> p_results p k = new_resultChan" "\<And>k. k \<notin> K \<Longrightarrow> r k = p_results p k" "acked p m"
  shows "r (rm_resultCh m) = p_results p (rm_resultCh m)"
  using assms by (cases "rm_resultCh m \<in> K") (auto simp: acked_def new_resultChan_def)

lemma release_loop_max: "ct_maxBytes (ph_trackers (release_loop meta cap n h) c) = ct_maxBytes (ph_trackers h c)"
proof (induction meta arbitrary: cap n h)
  case (Cons m meta)
  have "ct_maxBytes (ph_trackers (release_run cap' n' h') c) = ct_maxBytes (ph_trackers h' c)" for cap' n' h'
    by (simp add: release_run_def release_tracker_def split: option.splits)
  with Cons.IH show ?case by (simp add: take_permit_def Let_def split: option.splits prod.splits if_splits)
qed (simp add: release_run_def release_tracker_def split: option.splits)

lemma resolve_record_heap [simp]: "p_heap (resolve_record o' m p) = p_heap p" "p_capacity (resolve_record o' m p) = p_capacity p"
  by (simp_all add: resolve_record_def split: option.splits)

lemma resolve_errors_heap [simp]: "p_heap (resolve_errors meta err p) = p_heap p" "p_capacity (resolve_errors meta err p) = p_capacity p"
  unfolding resolve_errors_def by (induction meta arbitrary: p) simp_all

lemma settle_drops_max:
  "ct_maxBytes (own_tracker (fold settle_drop evs p)) = ct_maxBytes (own_tracker p)"
proof (induction evs arbitrary: p)
  case (Cons ev evs)
  have "ct_maxBytes (own_tracker (settle_drop ev p)) = ct_maxBytes (own_tracker p)"
    by (cases ev) (simp_all add: own_tracker_def release_batch_def releaseProducerPermits_def release_loop_max)
  with Cons show ?case by simp
qed simp

lemma with_batcher_max: "ct_maxBytes (own_tracker (with_batcher b p)) = ct_maxBytes (own_tracker p)"
proof -
  have "own_tracker (p\<lparr>p_batcher := b\<rparr>) = own_tracker p" by (simp add: own_tracker_def)
  then show ?thesis by (simp add: with_batcher_def settle_drops_max)
qed

lemma accounted_mono:
  assumes "accounted p m" "set (held p) \<subseteq> set (held p')" "acked p m \<Longrightarrow> p_results p' (rm_resultCh m) = p_results p (rm_resultCh m)"
    "p_appendErr p \<noteq> None \<Longrightarrow> p_appendErr p' \<noteq> None"
  shows "accounted p' m"
  using assms by (auto simp: accounted_def acked_def)

lemma flush_ok_mono:
  assumes "flush_ok p" "p_taken p' = p_taken p" "p_barriers p' = p_barriers p" "p_taken p \<le> length (messages (p_batcher p))"
    and "messages (p_batcher p') = messages (p_batcher p) @ msgs"
    and "\<And>m. accounted p m \<Longrightarrow> accounted p' m" "\<And>m. acked p m \<Longrightarrow> acked p' m"
  shows "flush_ok p'"
proof -
  have "take i (messages (p_batcher p')) = take i (messages (p_batcher p))" if "i \<le> p_taken p" for i
    using that assms(4) by (simp add: assms(5))
  moreover have "messages (p_batcher p') ! i = messages (p_batcher p) ! i" if "i < p_taken p" for i
    using that assms(4) by (simp add: assms(5) nth_append)
  ultimately show ?thesis using assms(1,6,7) unfolding flush_ok_def assms(2,3) by (metis less_imp_le order_refl)
qed

lemma ack_of_record_mono:
  "ack_of_record answer msgs k o' \<Longrightarrow> set msgs \<subseteq> set msgs' \<Longrightarrow> ack_of_record answer msgs' k o'"
  unfolding ack_of_record_def by blast

lemma inv_batcher:
  assumes b: "batcher_inv start (b', acc')" "entries_ok acc'"
    and own: "owns p (live p @ new) (entry_bytes acc') (sub_held (p_sub p))"
    and e: "emits (p_batcher p) evs b' new"
    and parts: "sub_ok p" "taken_ok p" "errs_ok p" "acks_from answer p" "submits_order_ok p" "drops_ok p" "barriers_ok p" "flush_ok p"
    and closed: "b_chanClosed (p_batcher p) \<Longrightarrow> b_out b' = b_out (p_batcher p) \<and> b_chanClosed b'"
    and ctx: "p_batcherCtx p = None \<Longrightarrow> \<forall>ev\<in>set evs. \<not> is_Dropped ev"
    and bar: "(\<forall>ev\<in>set evs'. \<not> is_Barrier ev) \<and> (evs = evs' \<or> evs = evs' @ [Barrier k] \<and> p_batcherCtx p = None)"
      "evs \<noteq> evs' \<Longrightarrow> Barrier k \<notin> set (messages (p_batcher p)) \<and> k < p_nextBarrier p"
  shows "producer_inv answer start (with_batcher b' p, acc')"
proof -
  let ?p = "with_batcher b' p" and ?D = "concat (map drop_meta evs)" and ?b = "p_batcher p"
  have t: "p_taken p \<le> length (messages ?b)" using parts(2) by (simp add: taken_ok_def)
  obtain h r where w: "?p = p\<lparr>p_batcher := b', p_heap := h, p_results := r\<rparr>"
    and own': "owns ?p (live ?p) (entry_bytes acc') (sub_held (p_sub p))"
    and keep: "\<And>k. k \<notin> rm_resultCh ` set ?D \<Longrightarrow> r k = p_results p k"
    and gone: "\<And>m. m \<in> set ?D \<Longrightarrow> \<exists>o'. rch_sent (r (rm_resultCh m)) = [o'] \<and> po_err o' \<noteq> None"
    and D: "set ?D \<inter> set (held p) = {}" "set ?D \<subseteq> set (live p @ new)"
    using with_batcher_owns [OF own e t] by blast
  have msgs: "messages b' = messages ?b @ filter (\<lambda>ev. \<not> is_Dropped ev) evs" by (rule messages_emits [OF e])
  have out: "b_out b' = b_out ?b @ evs" using e by (simp add: emits_def)
  have fresh: "p_results p k = new_resultChan" if "k \<in> rm_resultCh ` set ?D" for k
    using own D(2) that by (fastforce simp: owns_def)
  have ack: "r (rm_resultCh m) = p_results p (rm_resultCh m)" if "acked p m" for m
    by (rule acked_mono [OF fresh keep that])
  have f: "p_batcher ?p = b'" "p_batcherCtx ?p = p_batcherCtx p" "p_results ?p = r" "p_barriers ?p = p_barriers p"
    "p_nextBarrier ?p = p_nextBarrier p" "p_taken ?p = p_taken p" "p_consumer ?p = p_consumer p" "p_acks ?p = p_acks p"
    "p_submitted ?p = p_submitted p" "p_sub ?p = p_sub p" "p_appendErr ?p = p_appendErr p" "p_terminalErr ?p = p_terminalErr p"
    "p_closing ?p = p_closing p" "held ?p = held p"
    by (simp_all add: w held_def)
  have opts: "b_opts b' = b_opts ?b" using e by (simp add: emits_def)
  have tk: "take (p_taken p) (messages b') = take (p_taken p) (messages ?b)" using t by (simp add: msgs)
  show ?thesis
  proof (rule producer_invI)
    show "sub_ok ?p" using parts(1) by (simp add: sub_ok_def f opts with_batcher_max)
    have "filter (\<lambda>ev. \<not> is_Dropped ev) evs = []" if "b_chanClosed ?b" using closed [OF that] out by simp
    then show "taken_ok ?p" using parts(2) closed by (auto simp: taken_ok_def f msgs)
    show "errs_ok ?p" using parts(3) by (simp add: errs_ok_def f)
    show "submits_order_ok ?p" using parts(5) by (simp add: submits_order_ok_def f tk)
    show "acks_from answer ?p" unfolding acks_from_def f
    proof (intro conjI allI ballI impI)
      fix k o' assume o': "o' \<in> set (rch_sent (r k))" "po_err o' = None"
      have "k \<notin> rm_resultCh ` set ?D" using gone o' by fastforce
      with keep o' parts(4) have "ack_of_record answer (messages ?b) k o'" by (simp add: acks_from_def)
      then show "ack_of_record answer (messages b') k o'" by (rule ack_of_record_mono) (simp add: msgs)
    qed (use parts(4) in \<open>auto simp: acks_from_def msgs\<close>)
    show "drops_ok ?p" unfolding drops_ok_def f out
    proof
      show live: "p_batcherCtx p = None \<longrightarrow> (\<forall>ev\<in>set (b_out ?b @ evs). \<not> is_Dropped ev)"
        using ctx parts(6) by (auto simp: drops_ok_def)
      show "\<forall>ev\<in>set (dropWhile (\<lambda>ev. \<not> is_Dropped ev) (b_out ?b @ evs)). \<not> is_Barrier ev"
      proof (cases "p_batcherCtx p = None")
        case True
        then have "dropWhile (\<lambda>ev. \<not> is_Dropped ev) (b_out ?b @ evs) = []" using live by (simp only: dropWhile_eq_Nil_conv simp_thms)
        then show ?thesis by (simp only: list.set ball_empty)
      qed (rule dropWhile_barrier, use parts(6) bar(1) in \<open>auto simp: drops_ok_def\<close>)
    qed
    have ids: "concat (map barrier_id (filter (\<lambda>ev. \<not> is_Dropped ev) evs)) = (if evs = evs' then [] else [k])"
    proof -
      have "concat (map barrier_id (filter (\<lambda>ev. \<not> is_Dropped ev) xs)) = []" if "\<forall>ev\<in>set xs. \<not> is_Barrier ev" for xs
        using that by (auto simp: barrier_id_Nil)
      with bar(1) show ?thesis by auto
    qed
    have new: "Barrier j \<in> set xs \<longleftrightarrow> j \<in> set (concat (map barrier_id xs))" for j xs
      by (auto simp: barrier_id_in)
    have "j \<in> set (concat (map barrier_id (messages ?b))) \<Longrightarrow> j < p_nextBarrier p" for j
      using parts(7) new unfolding barriers_ok_def by blast
    moreover have "k \<notin> set (concat (map barrier_id (messages ?b))) \<and> k < p_nextBarrier p" if "evs \<noteq> evs'" using bar(2) [OF that] new by blast
    ultimately show "barriers_ok ?p" using parts(7) unfolding barriers_ok_def f tk new msgs map_append concat_append ids
      by (cases "evs = evs'") auto
    show "flush_ok ?p"
    proof (rule flush_ok_mono [OF parts(8)])
      show "accounted ?p m" if "accounted p m" for m
        by (rule accounted_mono [OF that]) (use ack f in auto)
      show "acked ?p m" if "acked p m" for m using that ack [OF that] f(3) by (simp add: acked_def)
    qed (use t msgs f in auto)
  qed (use b own' f in simp_all)
qed

lemma batcher_closed_quiet:
  assumes "batcher_inv start (b, acc)" "b_chanClosed b"
  shows "b_closed b" "b_buffer b = []" "\<not> b_timer b"
  using assms by (auto simp: batcher_inv_def)

lemma inv_batcher_op:
  assumes inv: "producer_inv answer start (p, acc)" and b: "batcher_inv start (b', acc)"
    and e: "emits (p_batcher p) evs b' []" "quiet_events sel evs" and sel: "sel_ok p sel"
    and closed: "b_closed (p_batcher p) \<Longrightarrow> b_buffer (p_batcher p) = [] \<Longrightarrow> \<not> b_timer (p_batcher p) \<Longrightarrow>
      b_out b' = b_out (p_batcher p) \<and> b_chanClosed b' = b_chanClosed (p_batcher p)"
  shows "producer_inv answer start (with_batcher b' p, acc)"
proof (rule inv_batcher [where evs' = evs and evs = evs and new = "[]"])
  note i = producer_invD [OF inv]
  show "b_out b' = b_out (p_batcher p) \<and> b_chanClosed b'" if "b_chanClosed (p_batcher p)"
    using closed batcher_closed_quiet [OF i(1) that] that by simp
  show "\<forall>ev\<in>set evs. \<not> is_Dropped ev" if "p_batcherCtx p = None"
    using e(2) sel that by (auto simp: quiet_events_def sel_ok_def)
qed (use producer_invD [OF inv] b e in \<open>simp_all add: quiet_events_def\<close>)

lemma inv_timer:
  assumes "producer_inv answer start (p, acc)" "sel_ok p sel"
  shows "producer_inv answer start (timer_fires tseq sel p, acc)"
proof -
  obtain evs where e: "emits (p_batcher p) evs (flushFromTimer (p_batcher p) tseq sel) []" "quiet_events sel evs"
    using timer_emits by blast
  show ?thesis unfolding timer_fires_def
    by (rule inv_batcher_op [OF assms(1) flushFromTimer_inv [OF producer_invD(1) [OF assms(1)]] e assms(2)])
      (simp add: flushFromTimer_def)
qed

lemma inv_flush:
  assumes "producer_inv answer start (p, acc)" "sel_ok p sel"
  shows "producer_inv answer start (with_batcher (snd (flushLocked (p_batcher p) sel)) p, acc)"
proof -
  obtain evs where e: "emits (p_batcher p) evs (snd (flushLocked (p_batcher p) sel)) []" "quiet_events sel evs"
    using flush_emits by blast
  show ?thesis
    by (rule inv_batcher_op [OF assms(1) flush_keeps_inv [OF producer_invD(1) [OF assms(1)]] e assms(2)]) simp
qed

lemma with_batcher_same [simp]: "with_batcher (p_batcher p) p = p"
  by (simp add: with_batcher_def)

lemma inv_batcherCtx:
  assumes "producer_inv answer start (p, acc)" "p_batcherCtx p = None"
  shows "producer_inv answer start (p\<lparr>p_batcherCtx := Some err\<rparr>, acc)"
proof -
  note i = producer_invD [OF assms(1)]
  have l: "live (p\<lparr>p_batcherCtx := Some err\<rparr>) = live p" "held (p\<lparr>p_batcherCtx := Some err\<rparr>) = held p"
    "own_tracker (p\<lparr>p_batcherCtx := Some err\<rparr>) = own_tracker p"
    by (simp_all add: live_def queued_def held_def own_tracker_def)
  show ?thesis
    by (rule producer_invI) (use i in \<open>simp_all add: owns_def permit_bytes_def sub_ok_def errs_ok_def submits_order_ok_def taken_ok_def
        acks_from_def drops_ok_def barriers_ok_def flush_ok_def accounted_def acked_def l\<close>)
qed

lemma inv_close_batch:
  assumes "producer_inv answer start (p, acc)" "sel_ok p sel"
  shows "producer_inv answer start (snd (close_batch sel p), acc)"
proof -
  let ?b = "snd (close_batcher (p_batcher p) sel)"
  obtain evs where e: "emits (p_batcher p) evs ?b []" "quiet_events sel evs" using close_emits by blast
  have w: "producer_inv answer start (with_batcher ?b p, acc)"
    by (rule inv_batcher_op [OF assms(1) close_batcher_inv [OF producer_invD(1) [OF assms(1)]] e assms(2)])
      (simp add: close_batcher_def)
  have "snd (close_batch sel p) = with_batcher ?b p \<or>
      (p_batcherCtx (with_batcher ?b p) = None \<and> snd (close_batch sel p) = (with_batcher ?b p)\<lparr>p_batcherCtx := Some (Sentinel Canceled)\<rparr>)"
    by (auto simp: close_batch_def split_beta Let_def split: option.splits)
  with w inv_batcherCtx [OF w] show ?thesis by metis
qed

lemma inv_order:
  assumes "producer_inv answer start (p, acc)" "sel_ok p sel"
  shows "producer_inv answer start (snd (flush_order sel p), acc)"
proof -
  note i = producer_invD [OF assms(1)]
  let ?k = "p_nextBarrier p"
  let ?p = "p\<lparr>p_nextBarrier := ?k + 1\<rparr>"
  let ?b = "snd (flushBarrier (p_batcher p) ?k sel (p_batcherCtx p) None)"
  obtain evs evs' where e: "emits (p_batcher p) evs ?b []" "sel = None \<longrightarrow> (\<forall>ev\<in>set evs. \<not> is_Dropped ev)"
    "(\<forall>ev\<in>set evs'. \<not> is_Barrier ev) \<and> (evs = evs' \<or> evs = evs' @ [Barrier ?k] \<and> p_batcherCtx p = None)"
    using barrier_emits [of "p_batcher p" ?k sel "p_batcherCtx p"] by (elim exE conjE) (rule that, assumption+, rule conjI)
  have l: "live (p\<lparr>p_nextBarrier := n\<rparr>) = live p" "held (p\<lparr>p_nextBarrier := n\<rparr>) = held p"
    "own_tracker (p\<lparr>p_nextBarrier := n\<rparr>) = own_tracker p" for n
    by (simp_all add: live_def queued_def held_def own_tracker_def)
  have "producer_inv answer start (?p, acc)"
  proof (rule producer_invI)
    show "barriers_ok ?p" using i(10) by (auto simp: barriers_ok_def)
  qed (use i in \<open>simp_all add: owns_def permit_bytes_def sub_ok_def errs_ok_def submits_order_ok_def taken_ok_def
        acks_from_def drops_ok_def flush_ok_def accounted_def acked_def l\<close>)
  note i' = producer_invD [OF this]
  have w: "producer_inv answer start (with_batcher ?b ?p, acc)"
  proof (rule inv_batcher [where evs = evs and evs' = evs' and new = "[]" and k = ?k])
    show "batcher_inv start (?b, acc)" by (rule flushBarrier_inv [OF i(1)])
    show "b_out ?b = b_out (p_batcher ?p) \<and> b_chanClosed ?b" if "b_chanClosed (p_batcher ?p)"
      using batcher_closed_quiet [OF i(1)] that by (simp add: flushBarrier_def)
    show "\<forall>ev\<in>set evs. \<not> is_Dropped ev" if "p_batcherCtx ?p = None"
      using e(2) assms(2) that by (auto simp: sel_ok_def)
    have "Barrier ?k \<notin> set (messages (p_batcher p))" using i(10) by (auto simp: barriers_ok_def)
    then show "Barrier ?k \<notin> set (messages (p_batcher ?p)) \<and> ?k < p_nextBarrier ?p" by simp
    show "owns ?p (live ?p @ []) (entry_bytes acc) (sub_held (p_sub ?p))" using i'(3) by simp
    show "emits (p_batcher ?p) evs ?b []" using e(1) by simp
    show "(\<forall>ev\<in>set evs'. \<not> is_Barrier ev) \<and> (evs = evs' \<or> evs = evs' @ [Barrier ?k] \<and> p_batcherCtx ?p = None)"
      using e(3) by simp
  qed (fact i')+
  have "quiet (with_batcher ?b ?p) (snd (flush_order sel p))"
    by (auto simp: flush_order_def split_beta Let_def split: option.splits)
  then show ?thesis by (rule inv_quiet [OF w])
qed

end
