(* ===== verification/Producer_Runs.thy ===== *)
theory Producer_Runs
  imports Producer_Steps
begin

text \<open>
  The remaining steps of the producer (submitting, consuming, acknowledging, closing) keep the invariant,
  which makes it an invariant of every reachable state.
\<close>

section \<open>Submitting\<close>

lemma set_own_tracker [simp]: "set_tracker (own_tracker p) p = p"
  by (simp add: set_tracker_def own_tracker_def)

lemma record_bytes_eq:
  assumes "batcher_inv start (b, acc)" "metered_size rec < 2 ^ 64" "MeteredPayloadBytes rec \<le> bo_MaxMeteredBytes (b_opts b)"
  shows "record_bytes rec = int (metered_size rec)" "0 < record_bytes rec"
proof -
  have u: "unat (MeteredPayloadBytes rec) = metered_size rec" using assms(2) by (simp add: MeteredPayloadBytes_eq unat_of_nat)
  have "unat (MeteredPayloadBytes rec) \<le> 1048576"
    using assms(1,3) by (simp add: batcher_inv_def batcher_core_def opts_ok_def word_le_nat_alt)
  then have "metered_size rec < 2 ^ 63" unfolding u by simp
  then show "record_bytes rec = int (metered_size rec)"
    unfolding record_bytes_def MeteredPayloadBytes_eq by (rule sint_word_of_nat_small)
  then show "0 < record_bytes rec" by (simp add: metered_size_def)
qed

lemma inv_sub_none:
  assumes "producer_inv answer start (p, acc)" "sub_held (p_sub p) = 0" "sub_held sub = 0" "sub_ok (p\<lparr>p_sub := sub\<rparr>)"
  shows "producer_inv answer start (p\<lparr>p_sub := sub\<rparr>, acc)"
proof -
  have "tracker_ok (own_tracker p)" "ct_maxItems (own_tracker p) = 0"
    using producer_invD(3) [OF assms(1)] by (simp_all add: owns_def)
  from inv_sub [OF assms(1) this refl _ _ assms(4)] assms(2,3) show ?thesis by simp
qed

lemma sub_ok_none [simp]: "sub_ok (p\<lparr>p_sub := SubNone\<rparr>)"
  by (simp add: sub_ok_def)

lemma inv_submit_fails:
  assumes "producer_inv answer start (p, acc)" "sub_held (p_sub p) = 0"
  shows "producer_inv answer start (snd (submit_fails err p), acc)"
proof -
  obtain e p' where m: "mapSubmitError err p = (e, p')" by fastforce
  have q: "quiet p p'" by (rule mapSubmitError_quiet [OF m])
  have "producer_inv answer start (p', acc)" by (rule inv_quiet [OF assms(1) q])
  from inv_sub_none [OF this, of SubNone] assms(2) quietD(17) [OF q] m show ?thesis by (simp add: submit_fails_def)
qed

text \<open>A granted reservation: the bytes are held by the submitter until the permit exists.\<close>

lemma inv_reserved:
  assumes inv: "producer_inv answer start (p, acc)" and sub: "sub_record (p_sub p) = Some rec" "sub_held (p_sub p) = 0"
    and grant: "record_bytes rec \<le> ct_maxBytes (own_tracker p)" "hasCapacity (own_tracker p) (record_bytes rec)"
  shows "producer_inv answer start ((set_tracker (reserveLocked (own_tracker p) (record_bytes rec)) p)\<lparr>p_sub := SubAdd rec\<rparr>, acc)"
proof -
  note i = producer_invD [OF inv]
  let ?c = "own_tracker p"
  have rec: "metered_size rec < 2 ^ 64" "MeteredPayloadBytes rec \<le> bo_MaxMeteredBytes (b_opts (p_batcher p))"
    using i(4) sub(1) by (simp_all add: sub_ok_def)
  have pos: "0 < record_bytes rec" by (rule record_bytes_eq(2) [OF i(1) rec])
  have c: "tracker_ok ?c" "ct_maxItems ?c = 0" using i(3) by (simp_all add: owns_def)
  have "tracker_ok (reserveLocked ?c (record_bytes rec)) \<and> ct_curBytes (reserveLocked ?c (record_bytes rec)) = ct_curBytes ?c + record_bytes rec"
    using reserveLocked_ok [OF c(1) _ grant] pos by simp
  then show ?thesis
    by (intro inv_sub [OF inv]) (use c sub(2) pos rec in \<open>simp_all add: sub_ok_def\<close>)
qed

lemma inv_try:
  assumes inv: "producer_inv answer start (p, acc)" and sub: "p_sub p = SubTry rec"
  shows "producer_inv answer start (snd (Submit_try rec p), acc)"
proof -
  note i = producer_invD [OF inv]
  obtain r c where t: "tryReserve (own_tracker p) (submit_ctxErr p) (record_bytes rec) = (r, c)" by fastforce
  consider err where "r = Inl err" | "r = Inr False" | "r = Inr True" by (metis (full_types) sum.exhaust)
  then show ?thesis
  proof cases
    case 1
    with tryReserve_refused [OF t] have "c = own_tracker p" by simp
    with 1 t inv_submit_fails [OF inv] sub show ?thesis by (simp add: Submit_try_def)
  next
    case 2
    with tryReserve_refused [OF t] have "c = own_tracker p" by simp
    with 2 t inv_sub_none [OF inv, of "SubFlush rec"] sub i(4) show ?thesis by (simp add: Submit_try_def sub_ok_def)
  next
    case 3
    have "c = reserveLocked (own_tracker p) (record_bytes rec) \<and> record_bytes rec \<le> ct_maxBytes (own_tracker p) \<and>
        hasCapacity (own_tracker p) (record_bytes rec)"
      using tryReserve_granted t 3 i(3) by (auto simp: owns_def)
    with 3 t inv_reserved [OF inv] sub show ?thesis by (simp add: Submit_try_def)
  qed
qed

lemma inv_backpressure:
  assumes inv: "producer_inv answer start (p, acc)" and sub: "p_sub p = SubFlush rec" and sel: "sel_ok p sel"
  shows "producer_inv answer start (snd (Submit_flush rec sel p), acc)"
proof -
  let ?b = "snd (flushForBackpressure (p_batcher p) sel)"
  have w: "producer_inv answer start (with_batcher ?b p, acc)"
    using inv_flush [OF inv sel] inv by (simp add: flushForBackpressure_def)
  have s: "p_sub (with_batcher ?b p) = SubFlush rec"
  proof -
    have "p_sub (fold settle_drop evs q) = p_sub q" for evs q
    proof (induction evs arbitrary: q)
      case (Cons ev evs)
      have "p_sub (resolve_errors meta err q) = p_sub q" for meta err q
        unfolding resolve_errors_def by (induction meta arbitrary: q) (simp_all add: resolve_record_def split: option.splits)
      then have "p_sub (settle_drop ev q) = p_sub q" by (cases ev) (simp_all add: release_batch_def)
      with Cons show ?case by simp
    qed simp
    with sub show ?thesis by (simp add: with_batcher_def)
  qed
  have "sub_ok ((with_batcher ?b p)\<lparr>p_sub := SubReserve rec\<rparr>)"
    using producer_invD(4) [OF w] s by (simp add: sub_ok_def)
  with inv_sub_none [OF w, of "SubReserve rec"] inv_submit_fails [OF w] s show ?thesis
    by (auto simp: Submit_flush_def split_beta Let_def split: option.splits)
qed

lemma inv_reserve:
  assumes inv: "producer_inv answer start (p, acc)" and sub: "p_sub p = (if first then SubReserve rec else SubWait rec)"
  shows "producer_inv answer start (snd (Submit_reserve first rec p), acc)"
proof -
  note i = producer_invD [OF inv]
  let ?c = "own_tracker p" and ?n = "record_bytes rec"
  have s: "sub_record (p_sub p) = Some rec" "sub_held (p_sub p) = 0" using sub by simp_all
  have ok: "tracker_ok ?c" using i(3) by (simp add: owns_def)
  let ?res = "if first then reserve ?n [(?c, submit_ctxErr p)] else reserve_wait ?n [(?c, submit_ctxErr p)]"
  have granted: "c = reserveLocked ?c ?n \<and> ?n \<le> ct_maxBytes ?c \<and> hasCapacity ?c ?n" if "?res = Some (None, c)" for c
  proof (cases first)
    case True
    with that have "tryReserve ?c (submit_ctxErr p) ?n = (Inr True, c)"
      by (auto split: prod.splits sum.splits bool.splits)
    with tryReserve_granted [OF this ok] show ?thesis by simp
  next
    case False
    with that have "reserve_wait ?n [(?c, submit_ctxErr p)] = Some (None, c)" by simp
    from reserve_wait_granted [OF this] False i(4) sub show ?thesis by (simp add: sub_ok_def)
  qed
  have refused: "c = ?c" if "?res = Some (Some err, c)" for err c
    using that by (auto simp: tryReserve_def split: prod.splits sum.splits bool.splits if_splits option.splits)
  have waiting: "?n \<le> ct_maxBytes ?c" if "?res = None"
    using that ok i(4) sub by (auto simp: tryReserve_def tracker_ok_def sub_ok_def split: prod.splits sum.splits bool.splits if_splits option.splits)
  show ?thesis
  proof (cases ?res)
    case None
    have "sub_ok (p\<lparr>p_sub := SubWait rec\<rparr>)" using i(4) s(1) waiting [OF None] by (simp add: sub_ok_def own_tracker_def)
    with inv_sub_none [OF inv s(2), of "SubWait rec"] None show ?thesis by (simp add: Submit_reserve_def)
  next
    case (Some x)
    then obtain e c where x: "?res = Some (e, c)" by fastforce
    show ?thesis
    proof (cases e)
      case None
      with granted x have "c = reserveLocked ?c ?n" "?n \<le> ct_maxBytes ?c" "hasCapacity ?c ?n" by auto
      with inv_reserved [OF inv s] x None show ?thesis by (simp add: Submit_reserve_def)
    next
      case (Some err)
      with refused x have "c = ?c" by auto
      with inv_submit_fails [OF inv s(2)] x Some show ?thesis by (simp add: Submit_reserve_def)
    qed
  qed
qed

text \<open>The permit is created: the bytes of the submitter become bytes of a record that is not accepted yet.\<close>

lemma with_permit_frame [simp]:
  "p_batcher (with_permit rec p) = p_batcher p" "p_batcherCtx (with_permit rec p) = p_batcherCtx p"
  "p_capacity (with_permit rec p) = p_capacity p" "p_nextId (with_permit rec p) = Suc (p_nextId p)"
  "p_barriers (with_permit rec p) = p_barriers p" "p_nextBarrier (with_permit rec p) = p_nextBarrier p"
  "p_taken (with_permit rec p) = p_taken p" "p_consumer (with_permit rec p) = p_consumer p"
  "p_acks (with_permit rec p) = p_acks p" "p_submitted (with_permit rec p) = p_submitted p"
  "p_sub (with_permit rec p) = SubNone" "p_appendErr (with_permit rec p) = p_appendErr p"
  "p_panicked (with_permit rec p) = p_panicked p" "p_terminalErr (with_permit rec p) = p_terminalErr p"
  "p_closing (with_permit rec p) = p_closing p" "p_results (with_permit rec p) = p_results p"
  "own_tracker (with_permit rec p) = own_tracker p" "live (with_permit rec p) = live p" "held (with_permit rec p) = held p"
  by (simp_all add: with_permit_def own_tracker_def live_def queued_def held_def)

lemma with_permit_bytes:
  "permit_bytes (with_permit rec p) k = (if k = p_nextId p then record_bytes rec else permit_bytes p k)"
  "pp_capacity (ph_permits (p_heap (with_permit rec p)) k) =
     (if k = p_nextId p then p_capacity p else pp_capacity (ph_permits (p_heap p) k))"
  by (simp_all add: with_permit_def permit_bytes_def newProducerPermit_def)

lemma sum_live_with_permit:
  assumes "owns p (live p) A extra"
  shows "(\<Sum>m\<leftarrow>live p. permit_bytes (with_permit rec p) (rm_resultCh m)) = (\<Sum>m\<leftarrow>live p. permit_bytes p (rm_resultCh m))"
  using owns_ids_neq [OF assms] by (intro arg_cong [of _ _ sum_list] map_cong) (auto simp: with_permit_bytes)

lemma with_permit_owns:
  assumes o: "owns p (live p) A (record_bytes rec)" and pos: "0 < record_bytes rec" and m: "rm_resultCh m = p_nextId p" "rm_permit m = Some (p_nextId p)"
  shows "owns (with_permit rec p) (live (with_permit rec p) @ [m]) (A(p_nextId p \<mapsto> record_bytes rec)) 0"
proof -
  have lt: "x \<in> set (live p) \<Longrightarrow> rm_resultCh x < p_nextId p" for x by (rule owns_ids [OF o])
  have ne': "x \<in> set (live p) \<Longrightarrow> rm_resultCh x \<noteq> p_nextId p" for x by (rule owns_ids_neq [OF o])
  have ne: "p_nextId p \<notin> rm_resultCh ` set (live p)" using ne' by (metis imageE)
  have lt': "k \<in> dom A \<Longrightarrow> k < p_nextId p" for k using o by (simp add: owns_def)
  have new: "p_results p (p_nextId p) = new_resultChan" using o by (simp add: owns_def)
  have d: "distinct (map rm_resultCh (live p @ [m]))" using o ne m(1) by (simp add: owns_def)
  have each: "rm_permit x = Some (rm_resultCh x) \<and> (A(p_nextId p \<mapsto> record_bytes rec)) (rm_resultCh x) = Some (permit_bytes (with_permit rec p) (rm_resultCh x)) \<and> p_results p (rm_resultCh x) = new_resultChan \<and>
      pp_capacity (ph_permits (p_heap (with_permit rec p)) (rm_resultCh x)) = p_capacity p \<and> 0 < permit_bytes (with_permit rec p) (rm_resultCh x)"
    if "x \<in> set (live p @ [m])" for x
  proof (cases "x = m")
    case True
    then show ?thesis using m new pos by (simp add: with_permit_bytes)
  next
    case False
    then have "x \<in> set (live p)" using that by simp
    with o ne' show ?thesis by (simp add: with_permit_bytes owns_def)
  qed
  have sum: "(\<Sum>x\<leftarrow>live p @ [m]. permit_bytes (with_permit rec p) (rm_resultCh x)) = (\<Sum>x\<leftarrow>live p. permit_bytes p (rm_resultCh x)) + record_bytes rec"
    using sum_live_with_permit [OF o] m(1) by (simp add: with_permit_bytes)
  show ?thesis
    unfolding owns_def with_permit_frame sum
    using d each o lt' m(1) by (auto simp: owns_def less_Suc_eq)
qed

lemma with_permit_parts:
  assumes "producer_inv answer start (p, acc)"
  shows "sub_ok (with_permit rec p)" "taken_ok (with_permit rec p)" "errs_ok (with_permit rec p)" "acks_from answer (with_permit rec p)"
    "submits_order_ok (with_permit rec p)" "drops_ok (with_permit rec p)" "barriers_ok (with_permit rec p)" "flush_ok (with_permit rec p)"
  using producer_invD [OF assms]
  by (simp_all add: sub_ok_def taken_ok_def errs_ok_def acks_from_def submits_order_ok_def drops_ok_def barriers_ok_def flush_ok_def
      accounted_def acked_def)

lemma inv_release_permit:
  assumes inv: "producer_inv answer start (p, acc)" and o: "owns p (live p) A (record_bytes rec)" "A = entry_bytes acc" and pos: "0 < record_bytes rec"
  shows "producer_inv answer start ((with_permit rec p)\<lparr>p_heap := release_permit (p_nextId p) (p_heap (with_permit rec p))\<rparr>, acc)"
proof -
  let ?q = "with_permit rec p" and ?k = "p_nextId p" and ?n = "record_bytes rec"
  let ?p = "?q\<lparr>p_heap := release_permit ?k (p_heap ?q)\<rparr>"
  have heap: "release_permit ?k (p_heap ?q) = (p_heap p)\<lparr>ph_permits := (ph_permits (p_heap p))(?k := newProducerPermit (p_capacity p) 0),
      ph_trackers := (ph_trackers (p_heap p))(p_capacity p := release (own_tracker p) ?n)\<rparr>"
    using pos by (simp add: release_permit_def take_permit_def release_tracker_def with_permit_def newProducerPermit_def own_tracker_def)
  have ok: "tracker_ok (own_tracker p)" "ct_maxItems (own_tracker p) = 0"
    "ct_curBytes (own_tracker p) = (\<Sum>m\<leftarrow>live p. permit_bytes p (rm_resultCh m)) + ?n"
    using o(1) by (simp_all add: owns_def)
  have S: "0 \<le> (\<Sum>m\<leftarrow>live p. permit_bytes p (rm_resultCh m))"
    using o(1) by (auto intro!: sum_list_nonneg simp: owns_def less_imp_le)
  have tr: "own_tracker ?p = release (own_tracker p) ?n" by (simp add: own_tracker_def heap)
  have rel: "tracker_ok (release (own_tracker p) ?n)" "ct_curBytes (release (own_tracker p) ?n) = (\<Sum>m\<leftarrow>live p. permit_bytes p (rm_resultCh m))"
    using release_ok [OF ok(1), of ?n] ok(3) pos S by simp_all
  have lt: "x \<in> set (live p) \<Longrightarrow> rm_resultCh x \<noteq> ?k" for x by (rule owns_ids_neq [OF o(1)])
  have keep: "permit_bytes ?p j = permit_bytes p j" "pp_capacity (ph_permits (p_heap ?p) j) = pp_capacity (ph_permits (p_heap p) j)" if "j \<noteq> ?k" for j
    using that by (simp_all add: permit_bytes_def heap)
  have l: "live ?p = live p" "held ?p = held p" by (simp_all add: live_def queued_def held_def)
  have sum: "(\<Sum>m\<leftarrow>live p. permit_bytes ?p (rm_resultCh m)) = (\<Sum>m\<leftarrow>live p. permit_bytes p (rm_resultCh m))"
    using lt keep by (intro arg_cong [of _ _ sum_list] map_cong) auto
  show ?thesis
  proof (rule producer_invI)
    have A: "k < Suc (p_nextId p)" if "A k = Some y" for k y
      using o(1) domI [of A k y] that unfolding owns_def by (metis less_SucI)
    show "owns ?p (live ?p) (entry_bytes acc) (sub_held (p_sub ?p))"
      unfolding owns_def l tr sum o(2) [symmetric] using o(1) rel ok(2) lt keep A by (auto simp: owns_def)
  qed (use producer_invD [OF inv] with_permit_parts [OF inv, of rec] in
      \<open>simp_all add: sub_ok_def taken_ok_def errs_ok_def acks_from_def submits_order_ok_def drops_ok_def barriers_ok_def flush_ok_def
        accounted_def acked_def l\<close>)
qed

lemma entries_ok_snoc:
  assumes "entries_ok acc" "\<forall>k\<in>dom (entry_bytes acc). k < n"
  shows "entries_ok (acc @ [(rec, Some n, Some n)])" "entry_bytes (acc @ [(rec, Some n, Some n)]) = (entry_bytes acc)(n \<mapsto> record_bytes rec)"
proof -
  have dom: "dom (entry_bytes acc) = entry_id ` set acc" by (simp add: entry_bytes_def dom_map_of_conv_image_fst image_image)
  then show "entries_ok (acc @ [(rec, Some n, Some n)])" using assms by (auto simp: entries_ok_def entry_id_def)
  have "n \<notin> dom (entry_bytes acc)" using assms(2) by auto
  then show "entry_bytes (acc @ [(rec, Some n, Some n)]) = (entry_bytes acc)(n \<mapsto> record_bytes rec)"
    by (auto simp: entry_bytes_def entry_id_def map_add_def fun_eq_iff domIff split: option.splits)
qed

lemma inv_add:
  assumes inv: "producer_inv answer start (p, acc)" and sub: "p_sub p = SubAdd rec"
    and sel: "sel_ok p sel1" "sel_ok p sel2" and run: "Submit_add rec sel1 sel2 p = (res, p')"
  shows "producer_inv answer start (p', case res of Inl _ \<Rightarrow> acc | Inr k \<Rightarrow> acc @ [(rec, Some k, Some k)])"
proof -
  note i = producer_invD [OF inv]
  let ?q = "with_permit rec p" and ?k = "p_nextId p" and ?A = "entry_bytes acc"
  let ?freed = "free_permit ?k ?q"
  have rec: "metered_size rec < 2 ^ 64" "MeteredPayloadBytes rec \<le> bo_MaxMeteredBytes (b_opts (p_batcher p))"
    using i(4) sub by (simp_all add: sub_ok_def)
  have pos: "0 < record_bytes rec" by (rule record_bytes_eq(2) [OF i(1) rec])
  have o: "owns p (live p) ?A (record_bytes rec)" using i(3) sub by simp
  have freed: "producer_inv answer start (?freed, acc)" unfolding free_permit_def by (rule inv_release_permit [OF inv o refl pos])
  show ?thesis
  proof (cases "fst (submit_checks ?q)")
    case (Some e)
    have "quiet ?freed (snd (submit_checks ?freed))" using submit_checks_quiet [OF prod.collapse [symmetric]] by blast
    from inv_quiet [OF freed this] run Some show ?thesis by (auto simp: Submit_add_def Let_def)
  next
    case None
    obtain err b where a: "addWithPermit (p_batcher p) rec (Some ?k) (Some ?k) sel1 sel2 = (err, b)" by fastforce
    show ?thesis
    proof (cases err)
      case (Some e)
      then have b: "b = p_batcher ?q" using a by (auto simp: addWithPermit_eq split: if_splits)
      have same: "with_batcher (p_batcher p) ?q = ?q" using with_batcher_same [of ?q] by simp
      show ?thesis using run None Some a b freed by (auto simp: Submit_add_def Let_def same)
    next
      case None': None
      obtain evs idx where e: "emits (p_batcher p) evs b [\<lparr>rm_index = idx, rm_resultCh = ?k, rm_permit = Some ?k\<rparr>]"
        "\<forall>ev\<in>set evs. \<not> is_Barrier ev" "sel1 = None \<and> sel2 = None \<longrightarrow> (\<forall>ev\<in>set evs. \<not> is_Dropped ev)"
        using add_emits [of "p_batcher p" rec ?k sel1 sel2 b] a None' by auto
      have lt: "\<forall>k\<in>dom ?A. k < ?k" using o by (simp add: owns_def)
      note snoc = entries_ok_snoc [OF i(2) lt, of rec]
      have "producer_inv answer start (with_batcher b ?q, acc @ [(rec, Some ?k, Some ?k)])"
      proof (rule inv_batcher [where evs = evs and evs' = evs and new = "[\<lparr>rm_index = idx, rm_resultCh = ?k, rm_permit = Some ?k\<rparr>]"])
        show "batcher_inv start (b, acc @ [(rec, Some ?k, Some ?k)])"
          using addWithPermit_inv [OF i(1) a rec(1)] None' by simp
        show "owns ?q (live ?q @ [\<lparr>rm_index = idx, rm_resultCh = ?k, rm_permit = Some ?k\<rparr>])
            (entry_bytes (acc @ [(rec, Some ?k, Some ?k)])) (sub_held (p_sub ?q))"
          unfolding snoc(2) using with_permit_owns [OF o pos] by simp
        show "b_out b = b_out (p_batcher ?q) \<and> b_chanClosed b" if "b_chanClosed (p_batcher ?q)"
          using batcher_closed_quiet [OF i(1)] that a None' by (simp add: addWithPermit_eq)
        show "\<forall>ev\<in>set evs. \<not> is_Dropped ev" if "p_batcherCtx ?q = None"
          using e(3) sel that by (auto simp: sel_ok_def)
      qed (use e snoc(1) with_permit_parts [OF inv, of rec] in simp_all)
      then show ?thesis using run None None' a by (auto simp: Submit_add_def Let_def)
    qed
  qed
qed

section \<open>Consuming and acknowledging\<close>

text \<open>The batch \<open>meta\<close>, no longer in any queue of \<open>q\<close>, is settled.\<close>

lemma inv_settled:
  assumes base: "batcher_inv start (p_batcher q, acc)" "entries_ok acc"
    and own: "owns q L (entry_bytes acc) (sub_held (p_sub q))" "mset L = mset (meta @ live q)"
    and parts: "sub_ok q" "taken_ok q" "errs_ok q" "acks_from answer q" "submits_order_ok q" "drops_ok q" "barriers_ok q"
    and flush: "\<forall>m\<in>set (concat (map event_meta (take (p_taken q) (messages (p_batcher q))))). m \<in> set meta \<or> accounted q m"
      "\<forall>i k. i < p_taken q \<longrightarrow> messages (p_batcher q) ! i = Barrier k \<longrightarrow> None \<in> set (p_barriers q k) \<longrightarrow>
        (\<forall>m\<in>set (concat (map event_meta (take i (messages (p_batcher q))))). acked q m)"
    and out: "(\<forall>m. po_err (out m) \<noteq> None) \<and> p_appendErr q \<noteq> None \<or>
      (\<forall>m\<in>set meta. po_err (out m) = None \<and> ack_of_record answer (messages (p_batcher q)) (rm_resultCh m) (out m))"
  shows "producer_inv answer start (settled out meta q, acc)"
proof -
  let ?p = "settled out meta q"
  note d = owns_split [OF own]
  have l: "live ?p = live q" "held ?p = held q" by (simp_all add: live_def queued_def held_def)
  have ack: "p_results ?p (rm_resultCh m) = p_results q (rm_resultCh m)" if "acked q m" for m
  proof -
    have "rm_resultCh m \<notin> rm_resultCh ` set meta" using that d(2) by (auto simp: acked_def new_resultChan_def)
    then show ?thesis by (simp add: resolved_other)
  qed
  then have acked: "acked q m \<Longrightarrow> acked ?p m" for m by (simp add: acked_def)
  have acc: "accounted q m \<Longrightarrow> accounted ?p m" for m using acked by (auto simp: accounted_def l)
  have mem: "accounted ?p m" if "m \<in> set meta" for m
    using out resolved_in [OF d(1) that, of out "p_results q"] that by (auto simp: accounted_def acked_def)
  have max: "ct_maxBytes (own_tracker ?p) = ct_maxBytes (own_tracker q)"
    by (simp add: own_tracker_def settled_def releaseProducerPermits_def release_loop_max)
  show ?thesis
  proof (rule producer_invI)
    show "owns ?p (live ?p) (entry_bytes acc) (sub_held (p_sub ?p))"
      unfolding l using settled_owns [OF own] by simp
    show "acks_from answer ?p" unfolding acks_from_def settled_frame
    proof (intro conjI allI ballI impI)
      fix k o' assume o': "o' \<in> set (rch_sent (resolved out meta (p_results q) k))" "po_err o' = None"
      show "ack_of_record answer (messages (p_batcher q)) k o'"
      proof (cases "k \<in> rm_resultCh ` set meta")
        case True
        then obtain m where m: "m \<in> set meta" "k = rm_resultCh m" by auto
        with o' resolved_in [OF d(1) m(1)] have "o' = out m" by simp
        with m o'(2) out show ?thesis by metis
      next
        case False
        with o' parts(4) show ?thesis by (simp add: acks_from_def resolved_other)
      qed
    qed (use parts(4) in \<open>simp_all add: acks_from_def\<close>)
    have "accounted ?p m" if "m \<in> set (concat (map event_meta (take (p_taken q) (messages (p_batcher q)))))" for m
      using flush(1) that mem acc by blast
    then show "flush_ok ?p" using flush(2) acked unfolding flush_ok_def settled_frame by blast
    show "sub_ok ?p" using parts(1) max by (simp add: sub_ok_def)
  qed (use base parts in \<open>simp_all add: taken_ok_def errs_ok_def submits_order_ok_def drops_ok_def barriers_ok_def\<close>)
qed

text \<open>The next message is taken off the channel.\<close>

lemma take_next:
  assumes "p_taken p < length (messages (p_batcher p))"
  shows "take (Suc (p_taken p)) (messages (p_batcher p)) = take (p_taken p) (messages (p_batcher p)) @ [messages (p_batcher p) ! p_taken p]"
    "queued p = event_meta (messages (p_batcher p) ! p_taken p) @ concat (map event_meta (drop (Suc (p_taken p)) (messages (p_batcher p))))"
  using assms by (simp_all add: take_Suc_conv_app_nth queued_def flip: Cons_nth_drop_Suc)

lemma flush_ok_take:
  assumes "flush_ok p" "p_taken p < length (messages (p_batcher p))" "p_batcher q = p_batcher p" "p_taken q = Suc (p_taken p)"
    "p_barriers q = p_barriers p" "\<And>m. acked p m \<Longrightarrow> acked q m" "\<And>m. accounted p m \<Longrightarrow> accounted q m"
    and new: "\<And>k. messages (p_batcher p) ! p_taken p = Barrier k \<Longrightarrow> p_barriers p k = []"
  shows "\<forall>m\<in>set (concat (map event_meta (take (p_taken q) (messages (p_batcher q))))).
      m \<in> set (event_meta (messages (p_batcher p) ! p_taken p)) \<or> accounted q m"
    "\<forall>i k. i < p_taken q \<longrightarrow> messages (p_batcher q) ! i = Barrier k \<longrightarrow> None \<in> set (p_barriers q k) \<longrightarrow>
        (\<forall>m\<in>set (concat (map event_meta (take i (messages (p_batcher q))))). acked q m)"
proof -
  show "\<forall>m\<in>set (concat (map event_meta (take (p_taken q) (messages (p_batcher q))))).
      m \<in> set (event_meta (messages (p_batcher p) ! p_taken p)) \<or> accounted q m"
    using assms(1,7) unfolding assms(3,4) take_next(1) [OF assms(2)] by (auto simp: flush_ok_def)
  show "\<forall>i k. i < p_taken q \<longrightarrow> messages (p_batcher q) ! i = Barrier k \<longrightarrow> None \<in> set (p_barriers q k) \<longrightarrow>
        (\<forall>m\<in>set (concat (map event_meta (take i (messages (p_batcher q))))). acked q m)"
  proof (intro allI impI)
    fix i k assume a: "i < p_taken q" "messages (p_batcher q) ! i = Barrier k" "None \<in> set (p_barriers q k)"
    have "i \<noteq> p_taken p" using a new unfolding assms(3,5) by auto
    then have "i < p_taken p" using a(1) assms(4) by simp
    with a assms(1,6) show "\<forall>m\<in>set (concat (map event_meta (take i (messages (p_batcher q))))). acked q m"
      unfolding flush_ok_def assms(3,5) by blast
  qed
qed

lemma nth_take_new:
  assumes "distinct (concat (map barrier_id xs))" "i < length xs" "xs ! i = Barrier k"
  shows "Barrier k \<notin> set (take i xs)"
proof
  assume "Barrier k \<in> set (take i xs)"
  moreover have "xs = take i xs @ xs ! i # drop (Suc i) xs" using assms(2) by (rule id_take_nth_drop)
  then have "distinct (concat (map barrier_id (take i xs @ xs ! i # drop (Suc i) xs)))" using assms(1) by simp
  then have "k \<notin> set (concat (map barrier_id (take i xs)))" using assms(3) by auto
  ultimately show False by (auto simp: barrier_id_in)
qed

lemma barriers_ok_new:
  assumes "barriers_ok p" "p_taken p < length (messages (p_batcher p))" "messages (p_batcher p) ! p_taken p = Barrier k"
  shows "p_barriers p k = []"
  using nth_take_new [OF _ assms(2,3)] assms(1) by (auto simp: barriers_ok_def)

text \<open>A change of consumer and wait group that keeps the records held.\<close>

lemma inv_move:
  assumes inv: "producer_inv answer start (p, acc)"
    and held: "mset (consumer_meta con @ concat (map snd acks)) = mset (held p)"
    and con: "\<And>meta err. con = ConSync meta err \<Longrightarrow> p_terminalErr p = Some err"
      "\<And>input meta. con = ConTicket input meta \<Longrightarrow> Batch input meta \<in> set (messages (p_batcher p))"
      "\<And>k. con = ConBarrier k \<Longrightarrow> p_consumer p = ConBarrier k"
      "con = ConDone \<Longrightarrow> b_chanClosed (p_batcher p) \<and> p_taken p = length (messages (p_batcher p)) \<and> acks = []"
    and acks: "\<forall>w\<in>set acks. Batch (fst w) (snd w) \<in> set (messages (p_batcher p))"
  shows "producer_inv answer start (p\<lparr>p_consumer := con, p_acks := acks\<rparr>, acc)"
proof -
  note i = producer_invD [OF inv]
  let ?p = "p\<lparr>p_consumer := con, p_acks := acks\<rparr>"
  have h: "set (Producer_Inv.held ?p) = set (Producer_Inv.held p)"
    using mset_eq_setD [OF held] by (simp add: held_def)
  have m: "mset (live p) = mset (live ?p)" using held by (simp add: live_def queued_def held_def)
  have tr: "own_tracker ?p = own_tracker p" by (simp add: own_tracker_def)
  show ?thesis
  proof (rule producer_invI)
    have "owns ?p (live p) (entry_bytes acc) (sub_held (p_sub ?p))"
      using i(3) by (simp add: owns_def permit_bytes_def tr)
    then show "owns ?p (live ?p) (entry_bytes acc) (sub_held (p_sub ?p))" by (rule owns_mset [OF _ m])
    show "flush_ok ?p" using i(11) by (simp add: flush_ok_def accounted_def acked_def h)
    show "taken_ok ?p" using i(5) con(4) by (auto simp: taken_ok_def)
    show "acks_from answer ?p" using i(7) con(2) acks by (simp add: acks_from_def)
    show "errs_ok ?p" using i(6) con(1) by (auto simp: errs_ok_def)
    show "barriers_ok ?p" using i(10) con(3) by (auto simp: barriers_ok_def)
  qed (use i in \<open>simp_all add: sub_ok_def submits_order_ok_def drops_ok_def tr\<close>)
qed

lemma recordTerminalError_consumer:
  "recordTerminalError_producer err (p\<lparr>p_consumer := con\<rparr>) =
     (fst (recordTerminalError_producer err p), (snd (recordTerminalError_producer err p))\<lparr>p_consumer := con\<rparr>)"
  by (simp add: recordTerminalError_eq cancelSubmit_def cancel_producer_def end_ctx_def set_tracker_def own_tracker_def
      split: option.splits)

lemma inv_to_sync:
  assumes inv: "producer_inv answer start (p, acc)" and con: "p_consumer p = ConTicket input meta"
  shows "producer_inv answer start ((snd (recordTerminalError_producer err p))\<lparr>p_consumer := ConSync meta (fst (recordTerminalError_producer err p))\<rparr>, acc)"
proof -
  obtain t p' where r: "recordTerminalError_producer err p = (t, p')" by fastforce
  from recordTerminalError_quiet [OF r] have q: "quiet p p'" and t: "p_terminalErr p' = Some t" by simp_all
  have inv': "producer_inv answer start (p', acc)" by (rule inv_quiet [OF inv q])
  have "producer_inv answer start (p'\<lparr>p_consumer := ConSync meta t, p_acks := p_acks p'\<rparr>, acc)"
    by (rule inv_move [OF inv']) (use t con quietD [OF q] producer_invD(7) [OF inv'] in \<open>simp_all add: held_def acks_from_def\<close>)
  then show ?thesis by (simp add: r)
qed

lemma inv_ticket:
  assumes inv: "producer_inv answer start (p, acc)" and con: "p_consumer p = ConTicket input meta"
  shows "producer_inv answer start (submission_known input meta err p, acc)"
proof (cases err)
  case None
  have "producer_inv answer start (p\<lparr>p_consumer := ConIdle, p_acks := p_acks p @ [(input, meta)]\<rparr>, acc)"
    by (rule inv_move [OF inv]) (use con producer_invD(7) [OF inv] in \<open>auto simp: held_def acks_from_def\<close>)
  moreover have "p\<lparr>p_consumer := ConIdle, p_acks := p_acks p @ [(input, meta)]\<rparr> = submission_known input meta err p"
    using None by (cases p) (simp add: submission_known_def)
  ultimately show ?thesis by metis
next
  case (Some e)
  with inv_to_sync [OF inv con, of e] show ?thesis by (simp add: submission_known_def split_beta)
qed

lemma inv_take_batch:
  assumes inv: "producer_inv answer start (p, acc)" and con: "p_consumer p = ConIdle"
    and t: "p_taken p < length (messages (p_batcher p))" "messages (p_batcher p) ! p_taken p = Batch input meta"
    and live: "p_terminalErr p = None"
  shows "producer_inv answer start (p\<lparr>p_taken := Suc (p_taken p), p_submitted := p_submitted p @ [input],
    p_consumer := ConTicket input meta\<rparr>, acc)"
proof -
  note i = producer_invD [OF inv]
  let ?p = "p\<lparr>p_taken := Suc (p_taken p), p_submitted := p_submitted p @ [input], p_consumer := ConTicket input meta\<rparr>"
  note nx = take_next [OF t(1)]
  have m: "mset (live p) = mset (live ?p)"
    unfolding live_def nx(2) using con t(2) by (simp add: queued_def held_def)
  have h: "set (held p) \<subseteq> set (held ?p)" "set meta \<subseteq> set (held ?p)" using con by (auto simp: held_def)
  have tr: "own_tracker ?p = own_tracker p" by (simp add: own_tracker_def)
  show ?thesis
  proof (rule producer_invI)
    have "owns ?p (live p) (entry_bytes acc) (sub_held (p_sub ?p))"
      using i(3) by (simp add: owns_def permit_bytes_def tr)
    then show "owns ?p (live ?p) (entry_bytes acc) (sub_held (p_sub ?p))" by (rule owns_mset [OF _ m])
    have acked: "acked p m \<Longrightarrow> acked ?p m" for m by (simp add: acked_def)
    have acc: "accounted p m \<Longrightarrow> accounted ?p m" for m using h(1) acked by (auto simp: accounted_def)
    note f = flush_ok_take [OF i(11) t(1), of ?p, OF _ _ _ acked acc]
    have "accounted ?p m" if "m \<in> set (concat (map event_meta (take (p_taken ?p) (messages (p_batcher ?p)))))" for m
      using f(1) that t(2) h(2) by (auto simp: accounted_def)
    moreover have "\<forall>i k. i < p_taken ?p \<longrightarrow> messages (p_batcher ?p) ! i = Barrier k \<longrightarrow> None \<in> set (p_barriers ?p k) \<longrightarrow>
        (\<forall>m\<in>set (concat (map event_meta (take i (messages (p_batcher ?p))))). acked ?p m)"
      by (rule f(2)) (use t(2) in simp_all)
    ultimately show "flush_ok ?p" unfolding flush_ok_def by blast
    show "taken_ok ?p" using i(5) t(1) by (simp add: taken_ok_def)
    show "acks_from answer ?p" using i(7) nth_mem [OF t(1)] t(2) by (simp add: acks_from_def)
    show "submits_order_ok ?p" using i(8) live t(2) by (simp add: submits_order_ok_def nx(1) Let_def)
    show "barriers_ok ?p" using i(10) con by (auto simp: barriers_ok_def nx(1))
  qed (use i live con in \<open>simp_all add: sub_ok_def errs_ok_def drops_ok_def tr\<close>)
qed

lemma inv_take_barrier:
  assumes inv: "producer_inv answer start (p, acc)" and con: "p_consumer p = ConIdle"
    and t: "p_taken p < length (messages (p_batcher p))" "messages (p_batcher p) ! p_taken p = Barrier k"
  shows "producer_inv answer start (p\<lparr>p_taken := Suc (p_taken p), p_consumer := ConBarrier k\<rparr>, acc)"
proof -
  note i = producer_invD [OF inv]
  let ?p = "p\<lparr>p_taken := Suc (p_taken p), p_consumer := ConBarrier k\<rparr>"
  note nx = take_next [OF t(1)]
  have l: "live ?p = live p" "held ?p = held p"
    unfolding live_def nx(2) using con t(2) by (simp_all add: queued_def held_def)
  have tr: "own_tracker ?p = own_tracker p" by (simp add: own_tracker_def)
  show ?thesis
  proof (rule producer_invI)
    show "owns ?p (live ?p) (entry_bytes acc) (sub_held (p_sub ?p))"
      unfolding l using i(3) by (simp add: owns_def permit_bytes_def tr)
    have acked: "acked p m \<Longrightarrow> acked ?p m" for m by (simp add: acked_def)
    have acc: "accounted p m \<Longrightarrow> accounted ?p m" for m using l acked by (auto simp: accounted_def)
    note f = flush_ok_take [OF i(11) t(1), of ?p, OF _ _ _ acked acc]
    have "\<forall>m\<in>set (concat (map event_meta (take (p_taken ?p) (messages (p_batcher ?p))))). accounted ?p m"
      using f(1) barriers_ok_new [OF i(10) t(1)] t(2) by simp
    moreover have "\<forall>i k. i < p_taken ?p \<longrightarrow> messages (p_batcher ?p) ! i = Barrier k \<longrightarrow> None \<in> set (p_barriers ?p k) \<longrightarrow>
        (\<forall>m\<in>set (concat (map event_meta (take i (messages (p_batcher ?p))))). acked ?p m)"
      by (rule f(2)) (use barriers_ok_new [OF i(10) t(1)] in simp_all)
    ultimately show "flush_ok ?p" unfolding flush_ok_def by blast
    show "taken_ok ?p" using i(5) t(1) by (simp add: taken_ok_def)
    show "submits_order_ok ?p" using i(8) t(2) by (simp add: submits_order_ok_def nx(1) Let_def)
    show "barriers_ok ?p" using i(10) con t(2) by (auto simp: barriers_ok_def nx(1))
  qed (use i con in \<open>simp_all add: sub_ok_def errs_ok_def drops_ok_def acks_from_def tr\<close>)
qed

text \<open>A batch is failed: \<open>q\<close> is the state in which it is out of all queues.\<close>

lemma inv_dispatch:
  assumes q: "batcher_inv start (p_batcher q, acc)" "entries_ok acc"
      "owns q L (entry_bytes acc) (sub_held (p_sub q))" "mset L = mset (meta @ live q)"
      "sub_ok q" "taken_ok q" "acks_from answer q" "submits_order_ok q" "drops_ok q" "barriers_ok q"
      "\<forall>m\<in>set (concat (map event_meta (take (p_taken q) (messages (p_batcher q))))). m \<in> set meta \<or> accounted q m"
      "\<forall>i k. i < p_taken q \<longrightarrow> messages (p_batcher q) ! i = Barrier k \<longrightarrow> None \<in> set (p_barriers q k) \<longrightarrow>
        (\<forall>m\<in>set (concat (map event_meta (take i (messages (p_batcher q))))). acked q m)"
    and errs: "errs_ok q" "p_terminalErr q = Some err"
  shows "producer_inv answer start (dispatchBatchError meta err q, acc)"
proof -
  let ?q = "q\<lparr>p_appendErr := (if p_appendErr q = None then Some err else p_appendErr q)\<rparr>"
  have l: "live ?q = live q" "held ?q = held q" "own_tracker ?q = own_tracker q"
    by (simp_all add: live_def queued_def held_def own_tracker_def)
  have acked: "acked ?q m = acked q m" for m by (simp add: acked_def)
  have acc: "accounted q m \<Longrightarrow> accounted ?q m" for m by (auto simp: accounted_def acked l)
  show ?thesis unfolding dispatchBatchError_eq [OF q(3,4)]
  proof (rule inv_settled)
    show "owns ?q L (entry_bytes acc) (sub_held (p_sub ?q))" using q(3) by (simp add: owns_def permit_bytes_def l)
    show "mset L = mset (meta @ live ?q)" using q(4) by (simp add: l)
    have f: "p_taken ?q = p_taken q" "p_batcher ?q = p_batcher q" by simp_all
    show "\<forall>m\<in>set (concat (map event_meta (take (p_taken ?q) (messages (p_batcher ?q))))). m \<in> set meta \<or> accounted ?q m"
      unfolding f using q(11) acc by blast
    show "errs_ok ?q" using errs by (auto simp: errs_ok_def)
    show "(\<forall>m :: recordMeta. po_err \<lparr>po_indexedAck = None, po_err = Some err\<rparr> \<noteq> None) \<and> p_appendErr ?q \<noteq> None \<or>
      (\<forall>m\<in>set meta. po_err \<lparr>po_indexedAck = None, po_err = Some err\<rparr> = None \<and>
        ack_of_record answer (messages (p_batcher ?q)) (rm_resultCh m) \<lparr>po_indexedAck = None, po_err = Some err\<rparr>)" by simp
  qed (use q in \<open>simp_all add: sub_ok_def taken_ok_def acks_from_def submits_order_ok_def drops_ok_def barriers_ok_def acked l\<close>)
qed

lemma inv_consume:
  assumes inv: "producer_inv answer start (p, acc)" and con: "p_consumer p = ConIdle" and t: "p_taken p < length (messages (p_batcher p))"
  shows "producer_inv answer start (consumeBatches submitErr p, acc)"
proof (cases "messages (p_batcher p) ! p_taken p")
  case (Barrier k)
  with inv_take_barrier [OF inv con t] show ?thesis by (simp add: consumeBatches_def)
next
  case (Dropped rs meta err)
  moreover have "messages (p_batcher p) ! p_taken p \<in> set (messages (p_batcher p))" by (rule nth_mem [OF t])
  ultimately show ?thesis by (simp add: messages_def)
next
  case (Batch input meta)
  note i = producer_invD [OF inv]
  show ?thesis
  proof (cases "p_terminalErr p")
    case None
    let ?q = "p\<lparr>p_taken := Suc (p_taken p), p_submitted := p_submitted p @ [input]\<rparr>"
    have tick: "producer_inv answer start (?q\<lparr>p_consumer := ConTicket input meta\<rparr>, acc)"
      using inv_take_batch [OF inv con t Batch None] by simp
    show ?thesis
    proof (cases submitErr)
      case None': None
      with None tick Batch show ?thesis by (simp add: consumeBatches_def processBatch_def terminalError_producer_def)
    next
      case (Some e)
      have "producer_inv answer start ((snd (recordTerminalError_producer e ?q))\<lparr>p_consumer := ConSync meta (fst (recordTerminalError_producer e ?q))\<rparr>, acc)"
        using inv_to_sync [OF tick, of input meta e] unfolding recordTerminalError_consumer by simp
      with None Some Batch show ?thesis by (simp add: consumeBatches_def processBatch_def terminalError_producer_def split_beta Let_def)
    qed
  next
    case (Some err)
    let ?q = "p\<lparr>p_taken := Suc (p_taken p)\<rparr>"
    note nx = take_next [OF t]
    have m: "mset (live p) = mset (meta @ live ?q)"
      unfolding live_def nx(2) using Batch by (simp add: queued_def held_def)
    have tr: "own_tracker ?q = own_tracker p" and h: "held ?q = held p" by (simp_all add: own_tracker_def held_def)
    have acked: "acked p m \<Longrightarrow> acked ?q m" for m by (simp add: acked_def)
    have acc: "accounted p m \<Longrightarrow> accounted ?q m" for m using acked by (auto simp: accounted_def h)
    note f = flush_ok_take [OF i(11) t, of ?q, OF _ _ _ acked acc]
    have "producer_inv answer start (dispatchBatchError meta err ?q, acc)"
    proof (rule inv_dispatch [OF _ _ _ m])
      show "owns ?q (live p) (entry_bytes acc) (sub_held (p_sub ?q))" using i(3) by (simp add: owns_def permit_bytes_def tr)
      show "taken_ok ?q" using i(5) t con by (simp add: taken_ok_def)
      show "submits_order_ok ?q" using i(8) Some by (auto simp: submits_order_ok_def nx(1) Let_def intro: prefix_order.trans)
      show "barriers_ok ?q" using i(10) con by (auto simp: barriers_ok_def nx(1))
      show "\<forall>m\<in>set (concat (map event_meta (take (p_taken ?q) (messages (p_batcher ?q))))). m \<in> set meta \<or> accounted ?q m"
        using f(1) Batch by simp
      show "\<forall>i k. i < p_taken ?q \<longrightarrow> messages (p_batcher ?q) ! i = Barrier k \<longrightarrow> None \<in> set (p_barriers ?q k) \<longrightarrow>
        (\<forall>m\<in>set (concat (map event_meta (take i (messages (p_batcher ?q))))). acked ?q m)"
        by (rule f(2)) (use Batch in simp_all)
    qed (use i Some in \<open>simp_all add: sub_ok_def errs_ok_def acks_from_def drops_ok_def tr\<close>)
    with Some Batch show ?thesis by (simp add: consumeBatches_def processBatch_def terminalError_producer_def)
  qed
qed

lemma dispatch_move:
  assumes "owns p L A extra" "mset L = mset (meta @ L')"
  shows "(dispatchBatchError meta err p)\<lparr>p_consumer := con\<rparr> = dispatchBatchError meta err (p\<lparr>p_consumer := con\<rparr>)"
    "(dispatchBatchError meta err p)\<lparr>p_acks := acks\<rparr> = dispatchBatchError meta err (p\<lparr>p_acks := acks\<rparr>)"
proof -
  have tr: "own_tracker (p\<lparr>p_consumer := con\<rparr>) = own_tracker p" "own_tracker (p\<lparr>p_acks := acks\<rparr>) = own_tracker p"
    by (simp_all add: own_tracker_def)
  have o: "owns (p\<lparr>p_consumer := con\<rparr>) L A extra" "owns (p\<lparr>p_acks := acks\<rparr>) L A extra"
    using assms(1) by (simp_all add: owns_def permit_bytes_def tr)
  show "(dispatchBatchError meta err p)\<lparr>p_consumer := con\<rparr> = dispatchBatchError meta err (p\<lparr>p_consumer := con\<rparr>)"
    "(dispatchBatchError meta err p)\<lparr>p_acks := acks\<rparr> = dispatchBatchError meta err (p\<lparr>p_acks := acks\<rparr>)"
    unfolding dispatchBatchError_eq [OF assms] dispatchBatchError_eq [OF o(1) assms(2)] dispatchBatchError_eq [OF o(2) assms(2)]
    by (simp_all add: settled_def)
qed

lemma inv_sync:
  assumes inv: "producer_inv answer start (p, acc)" and con: "p_consumer p = ConSync meta err" and acks: "p_acks p = []"
  shows "producer_inv answer start (sync_error meta err p, acc)"
proof -
  note i = producer_invD [OF inv]
  let ?q = "p\<lparr>p_consumer := ConIdle\<rparr>"
  have m: "mset (live p) = mset (meta @ live ?q)" using con by (simp add: live_def queued_def held_def)
  have h: "held p = meta" "held ?q = []" using con acks by (simp_all add: held_def)
  have tr: "own_tracker ?q = own_tracker p" by (simp add: own_tracker_def)
  have acked: "acked ?q m = acked p m" for m by (simp add: acked_def)
  have "producer_inv answer start (dispatchBatchError meta err ?q, acc)"
  proof (rule inv_dispatch [OF _ _ _ m])
    show "owns ?q (live p) (entry_bytes acc) (sub_held (p_sub ?q))" using i(3) by (simp add: owns_def permit_bytes_def tr)
    show "barriers_ok ?q" using i(10) by (auto simp: barriers_ok_def)
    show "\<forall>m\<in>set (concat (map event_meta (take (p_taken ?q) (messages (p_batcher ?q))))). m \<in> set meta \<or> accounted ?q m"
      using i(11) by (auto simp: flush_ok_def accounted_def acked h)
    show "\<forall>i k. i < p_taken ?q \<longrightarrow> messages (p_batcher ?q) ! i = Barrier k \<longrightarrow> None \<in> set (p_barriers ?q k) \<longrightarrow>
        (\<forall>m\<in>set (concat (map event_meta (take i (messages (p_batcher ?q))))). acked ?q m)"
      using i(11) by (simp add: flush_ok_def acked)
    show "p_terminalErr ?q = Some err" "errs_ok ?q" using i(6) con by (auto simp: errs_ok_def)
  qed (use i in \<open>simp_all add: sub_ok_def taken_ok_def acks_from_def submits_order_ok_def drops_ok_def tr\<close>)
  then show ?thesis unfolding sync_error_def dispatch_move(1) [OF i(3) m] .
qed

lemma inv_barrier:
  assumes inv: "producer_inv answer start (p, acc)" and con: "p_consumer p = ConBarrier k" and acks: "p_acks p = []"
  shows "producer_inv answer start (answer_barrier k p, acc)"
proof -
  note i = producer_invD [OF inv]
  let ?p = "answer_barrier k p"
  have f: "p_batcher ?p = p_batcher p" "p_batcherCtx ?p = p_batcherCtx p" "p_heap ?p = p_heap p" "p_capacity ?p = p_capacity p"
    "own_tracker ?p = own_tracker p" "p_results ?p = p_results p" "p_nextId ?p = p_nextId p" "p_nextBarrier ?p = p_nextBarrier p"
    "p_taken ?p = p_taken p" "p_consumer ?p = ConIdle" "p_acks ?p = []" "p_submitted ?p = p_submitted p" "p_sub ?p = p_sub p"
    "p_appendErr ?p = p_appendErr p" "p_panicked ?p = p_panicked p" "p_terminalErr ?p = p_terminalErr p" "p_closing ?p = p_closing p"
    "p_barriers ?p = (p_barriers p)(k := p_barriers p k @ [p_appendErr p])"
    using acks by (simp_all add: answer_barrier_def own_tracker_def appendError_def)
  have l: "live ?p = live p" "held ?p = []" "held p = []" using con acks by (simp_all add: live_def queued_def held_def f)
  have acked: "acked ?p m = acked p m" for m by (simp add: acked_def f)
  have t: "p_taken p \<le> length (messages (p_batcher p))" using i(5) by (simp add: taken_ok_def)
  have all: "acked p m" if "p_appendErr p = None" "m \<in> set (concat (map event_meta (take (p_taken p) (messages (p_batcher p)))))" for m
    using i(11) that unfolding flush_ok_def accounted_def l by auto
  show ?thesis
  proof (rule producer_invI)
    show "flush_ok ?p" unfolding flush_ok_def
    proof (intro conjI allI impI)
      show "\<forall>m\<in>set (concat (map event_meta (take (p_taken ?p) (messages (p_batcher ?p))))). accounted ?p m"
        using i(11) unfolding flush_ok_def accounted_def acked l f by blast
      fix j k' assume j: "j < p_taken ?p" "messages (p_batcher ?p) ! j = Barrier k'" "None \<in> set (p_barriers ?p k')"
      show "\<forall>m\<in>set (concat (map event_meta (take j (messages (p_batcher ?p))))). acked ?p m"
      proof (cases "None \<in> set (p_barriers p k')")
        case True
        with j i(11) show ?thesis unfolding flush_ok_def acked f by blast
      next
        case False
        then have "p_appendErr p = None" using j(3) by (auto simp: f split: if_splits)
        moreover have "set (concat (map event_meta (take j (messages (p_batcher p))))) \<subseteq>
            set (concat (map event_meta (take (p_taken p) (messages (p_batcher p)))))"
          using set_take_subset_set_take [of j "p_taken p" "messages (p_batcher p)"] j(1) by (auto simp: f)
        ultimately show ?thesis using all unfolding acked f by blast
      qed
    qed
    show "barriers_ok ?p" using i(10) con by (auto simp: barriers_ok_def f)
  qed (use i in \<open>simp_all add: owns_def permit_bytes_def sub_ok_def taken_ok_def errs_ok_def acks_from_def submits_order_ok_def drops_ok_def f l\<close>)
qed

lemma inv_drained:
  assumes inv: "producer_inv answer start (p, acc)" and "p_consumer p = ConIdle" "b_chanClosed (p_batcher p)"
    "p_taken p = length (messages (p_batcher p))" "p_acks p = []"
  shows "producer_inv answer start (p\<lparr>p_consumer := ConDone\<rparr>, acc)"
proof -
  have "producer_inv answer start (p\<lparr>p_consumer := ConDone, p_acks := p_acks p\<rparr>, acc)"
    by (rule inv_move [OF inv]) (use assms in \<open>simp_all add: held_def\<close>)
  then show ?thesis by simp
qed

lemma mset_remove1_concat: "w \<in> set ws \<Longrightarrow> mset (concat (map snd ws)) = mset (snd w) + mset (concat (map snd (remove1 w ws)))"
  by (induction ws) auto

text \<open>What is needed of the state in which the waiting goroutine \<open>w\<close> is gone.\<close>

lemma acks_removed:
  assumes inv: "producer_inv answer start (p, acc)" and w: "w \<in> set (p_acks p)" and q: "q = p\<lparr>p_acks := remove1 w (p_acks p)\<rparr>"
  shows "owns q (live p) (entry_bytes acc) (sub_held (p_sub q))" "mset (live p) = mset (snd w @ live q)"
    "sub_ok q" "taken_ok q" "errs_ok q" "acks_from answer q" "submits_order_ok q" "drops_ok q" "barriers_ok q"
    "\<forall>m\<in>set (concat (map event_meta (take (p_taken q) (messages (p_batcher q))))). m \<in> set (snd w) \<or> accounted q m"
    "\<forall>i k. i < p_taken q \<longrightarrow> messages (p_batcher q) ! i = Barrier k \<longrightarrow> None \<in> set (p_barriers q k) \<longrightarrow>
        (\<forall>m\<in>set (concat (map event_meta (take i (messages (p_batcher q))))). acked q m)"
proof -
  note i = producer_invD [OF inv] and m = mset_remove1_concat [OF w]
  have tr: "own_tracker q = own_tracker p" and acked: "\<And>m. acked q m = acked p m" by (simp_all add: q own_tracker_def acked_def)
  show "owns q (live p) (entry_bytes acc) (sub_held (p_sub q))" using i(3) by (simp add: owns_def permit_bytes_def tr) (simp add: q)
  show "mset (live p) = mset (snd w @ live q)" using m by (simp add: live_def queued_def held_def q)
  have held: "set (held p) = set (snd w) \<union> set (held q)"
    using mset_eq_setD [OF m [folded mset_append]] by (auto simp: held_def q)
  have "m \<in> set (snd w) \<or> accounted q m" if "accounted p m" for m
    using that unfolding accounted_def held acked by (auto simp: q)
  then show "\<forall>m\<in>set (concat (map event_meta (take (p_taken q) (messages (p_batcher q))))). m \<in> set (snd w) \<or> accounted q m"
    using i(11) by (auto simp: flush_ok_def q)
  show "\<forall>i k. i < p_taken q \<longrightarrow> messages (p_batcher q) ! i = Barrier k \<longrightarrow> None \<in> set (p_barriers q k) \<longrightarrow>
        (\<forall>m\<in>set (concat (map event_meta (take i (messages (p_batcher q))))). acked q m)"
    unfolding acked using i(11) by (simp add: flush_ok_def q)
  show "acks_from answer q" using i(7) set_remove1_subset [of w "p_acks p"] by (auto simp: acks_from_def q)
  show "taken_ok q" using i(5) by (auto simp: taken_ok_def q)
  show "sub_ok q" "errs_ok q" "submits_order_ok q" "drops_ok q" "barriers_ok q"
    using i by (simp_all add: sub_ok_def errs_ok_def submits_order_ok_def drops_ok_def barriers_ok_def tr) (simp_all add: q)
qed

lemma inv_acked:
  assumes inv: "producer_inv answer start (p, acc)" and w: "w \<in> set (p_acks p)" and res: "\<And>ack. res = Inr ack \<Longrightarrow> answer (fst w) ack"
  shows "producer_inv answer start (batch_acked w res p, acc)"
proof (cases res)
  case (Inr ack)
  let ?q = "p\<lparr>p_acks := remove1 w (p_acks p)\<rparr>"
  let ?out = "\<lambda>m. \<lparr>po_indexedAck = Some \<lparr>ia_batchAck = ack, ia_index = word_of_nat (rm_index m)\<rparr>, po_err = None\<rparr>"
  note i = producer_invD [OF inv] and a = acks_removed [OF inv w refl]
  have in': "Batch (fst w) (snd w) \<in> set (messages (p_batcher p))" using i(7) w by (simp add: acks_from_def)
  have "producer_inv answer start (settled ?out (snd w) ?q, acc)"
  proof (rule inv_settled [OF _ _ a])
    have "ack_of_record answer (messages (p_batcher ?q)) (rm_resultCh m) (?out m)" if "m \<in> set (snd w)" for m
      using in' that res [OF Inr] unfolding ack_of_record_def by auto
    then show "(\<forall>m. po_err (?out m) \<noteq> None) \<and> p_appendErr ?q \<noteq> None \<or>
      (\<forall>m\<in>set (snd w). po_err (?out m) = None \<and> ack_of_record answer (messages (p_batcher ?q)) (rm_resultCh m) (?out m))"
      by simp
  qed (use i in simp_all)
  moreover have "batch_acked w res p = settled ?out (snd w) ?q"
    unfolding batch_acked_def Inr using resolveBatchAck_eq [OF i(3) a(2)] by (simp add: settled_def)
  ultimately show ?thesis by simp
next
  case (Inl err)
  obtain t p1 where r: "recordTerminalError_producer err p = (t, p1)" by fastforce
  from recordTerminalError_quiet [OF r] have q: "quiet p p1" and t: "p_terminalErr p1 = Some t" by simp_all
  let ?q = "p1\<lparr>p_acks := remove1 w (p_acks p1)\<rparr>"
  have inv1: "producer_inv answer start (p1, acc)" by (rule inv_quiet [OF inv q])
  have w1: "w \<in> set (p_acks p1)" using w quietD(15) [OF q] by simp
  note i = producer_invD [OF inv1] and a = acks_removed [OF inv1 w1 refl]
  have "producer_inv answer start (dispatchBatchError (snd w) t ?q, acc)"
    by (rule inv_dispatch [OF _ _ a(1,2,3,4,6,7,8,9,10,11,5)]) (use i t in simp_all)
  moreover have "batch_acked w res p = dispatchBatchError (snd w) t ?q"
  proof -
    have "p_acks (dispatchBatchError (snd w) t p1) = p_acks p1" unfolding dispatchBatchError_eq [OF i(3) a(2)] by simp
    with dispatch_move(2) [OF i(3) a(2)] show ?thesis by (simp add: batch_acked_def Inl r)
  qed
  ultimately show ?thesis by simp
qed

text \<open>A caller receives the result of its record: only the count of what was received changes.\<close>

lemma inv_receive:
  assumes inv: "producer_inv answer start (p, acc)" and r: "Ack_ticket (p_results p k) sel = Some (res, ch)"
  shows "producer_inv answer start (p\<lparr>p_results := (p_results p)(k := ch)\<rparr>, acc)"
proof -
  note i = producer_invD [OF inv]
  let ?p = "p\<lparr>p_results := (p_results p)(k := ch)\<rparr>"
  have ch: "rch_sent ch = rch_sent (p_results p k)" "rch_closed ch = rch_closed (p_results p k)"
    "rch_sent (p_results p k) = [] \<Longrightarrow> ch = p_results p k"
    using r by (auto simp: Ack_ticket_def Let_def split: option.splits if_splits)
  have sent: "rch_sent (p_results ?p j) = rch_sent (p_results p j)" "rch_closed (p_results ?p j) = rch_closed (p_results p j)"
    "p_results p j = new_resultChan \<Longrightarrow> p_results ?p j = new_resultChan" for j
    using ch by (auto simp: new_resultChan_def)
  have l: "live ?p = live p" "held ?p = held p" "own_tracker ?p = own_tracker p"
    by (simp_all add: live_def queued_def held_def own_tracker_def)
  have acked: "acked ?p m = acked p m" for m by (simp only: acked_def sent)
  show ?thesis
  proof (rule producer_invI)
    show "owns ?p (live ?p) (entry_bytes acc) (sub_held (p_sub ?p))"
      using i(3) sent unfolding owns_def l permit_bytes_def by simp
    show "acks_from answer ?p" using i(7) unfolding acks_from_def sent by simp
    show "flush_ok ?p" using i(11) unfolding flush_ok_def accounted_def acked l by simp
  qed (use i in \<open>simp_all add: sub_ok_def taken_ok_def errs_ok_def submits_order_ok_def drops_ok_def barriers_ok_def l\<close>)
qed

lemma inv_close_batcher:
  assumes "producer_inv answer start (p, acc)" "sel_ok p sel"
  shows "producer_inv answer start (Close_batcher sel p, acc)"
proof -
  have "quiet (snd (close_batch sel p)) (Close_batcher sel p)"
  proof -
    have "quiet q ((case err of Some err \<Rightarrow> snd (recordTerminalError_producer err q) | None \<Rightarrow> q)\<lparr>p_close := c\<rparr>)" for q err c
      by (rule quiet_trans [OF _ flag_quiet(4)]) (simp split: option.splits)
    then show ?thesis by (simp add: Close_batcher_def split_beta Let_def)
  qed
  with inv_quiet [OF inv_close_batch [OF assms]] show ?thesis by blast
qed

section \<open>Every reachable state\<close>

lemma inv_lock:
  assumes "producer_inv answer start (p, acc)" "p_sub p = SubNone" "metered_size rec < 2 ^ 64"
    "MeteredPayloadBytes rec \<le> bo_MaxMeteredBytes (b_opts (p_batcher p))"
  shows "producer_inv answer start (p\<lparr>p_sub := SubTry rec\<rparr>, acc)"
  by (rule inv_sub_none [OF assms(1)]) (use assms in \<open>simp_all add: sub_ok_def\<close>)

lemma producer_step_inv:
  assumes "producer_step answer s s'" "producer_inv answer start s"
  shows "producer_inv answer start s'"
  using assms
proof cases
  case (pr_reserve p rec acc)
  with assms(2) inv_reserve [of answer start p acc True rec] show ?thesis by simp
next
  case (pr_wait p rec acc)
  with assms(2) inv_reserve [of answer start p acc False rec] show ?thesis by simp
next
  case (pr_user_flush p sel acc)
  with assms(2) inv_flush [of answer start p acc sel] show ?thesis by (simp add: Batcher.Flush_def)
next
  case (pr_closer p sel acc)
  with assms(2) inv_close_batch [of answer start p acc sel] show ?thesis
    by (auto intro: inv_quiet [OF _ flag_quiet(1)])
next
  case (pr_after_batcher p err acc)
  then show ?thesis using assms(2) by (auto intro: inv_quiet [OF _ quiet_trans [OF after_batcher_quiet flag_quiet(2)]])
next
  case (pr_after_ctx p err acc)
  then show ?thesis using assms(2) by (auto intro: inv_quiet [OF _ quiet_trans [OF after_ctx_quiet flag_quiet(3)]])
qed (use assms(2) in \<open>auto intro: inv_quiet inv_lock inv_try inv_backpressure inv_add inv_timer inv_close_batch inv_order inv_consume
    inv_ticket inv_sync inv_barrier inv_drained inv_acked inv_receive inv_batcherCtx inv_close_batcher\<close>)

lemma producer_init_inv:
  assumes "producer_init opts provider s"
  shows "producer_inv answer (bo_MatchSeqNum (applyBatchingDefaults opts)) s"
proof -
  let ?b = "NewBatcher opts" and ?p = "newProducerWithSession (NewBatcher opts) provider"
  have s: "s = (?p, [])" and n: "case provider of None \<Rightarrow> True | Some n \<Rightarrow> 0 < n \<and> n < 2 ^ 62"
    using assms by (simp_all add: producer_init_def)
  have b: "batcher_inv (bo_MatchSeqNum (applyBatchingDefaults opts)) (?b, [])"
    by (rule batcher.init_inv) (simp add: batcher_init_def)
  have e: "b_out ?b = []" "b_recordMeta ?b = []" by (simp_all add: NewBatcher_def Let_def split: option.splits)
  have f: "p_batcher ?p = ?b" "p_batcherCtx ?p = None" "p_capacity ?p = 0" "p_results ?p = (\<lambda>_. new_resultChan)" "p_nextId ?p = 0"
    "p_barriers ?p = (\<lambda>_. [])" "p_nextBarrier ?p = 0" "p_taken ?p = 0" "p_consumer ?p = ConIdle" "p_acks ?p = []" "p_submitted ?p = []"
    "p_sub ?p = SubNone" "p_appendErr ?p = None" "p_panicked ?p = False" "p_terminalErr ?p = None"
    "own_tracker ?p = newCapacityTracker (case provider of None \<Rightarrow> sint defaultMaxInflightBytes | Some n \<Rightarrow> n) 0"
    by (simp_all add: newProducerWithSession_def Let_def own_tracker_def)
  have l: "live ?p = []" by (simp add: live_def queued_def held_def messages_def f e)
  have tr: "tracker_ok (own_tracker ?p)" "ct_maxItems (own_tracker ?p) = 0" "ct_curBytes (own_tracker ?p) = 0"
    using n by (auto simp: f tracker_ok_def newCapacityTracker_def defaultMaxInflightBytes_def split: option.splits)
  show ?thesis unfolding s
    by (rule producer_invI) (use b tr in \<open>simp_all add: f e l entries_ok_def entry_bytes_def owns_def sub_ok_def taken_ok_def errs_ok_def acks_from_def
        submits_order_ok_def drops_ok_def barriers_ok_def flush_ok_def messages_def new_resultChan_def\<close>)
qed

interpretation producer: invariant_system "producer_init opts provider" "producer_step answer"
  "producer_inv answer (bo_MatchSeqNum (applyBatchingDefaults opts))"
  for opts provider answer
  by unfold_locales (auto intro: producer_init_inv producer_step_inv)

end
