(* ===== verification/Append_Session_Inv.thy ===== *)
theory Append_Session_Inv
  imports Append_Session Step_Systems "HOL-Library.Multiset"
begin

text \<open>
  The append session under all interleavings of its goroutines.  \<open>session_sys\<close> adds to the session what
  the goroutines hold between two critical sections: submitters with capacity reserved but not yet
  queued, the pump inside its loop over a copy of the queue, and failures claimed but not yet resolved.
  Two logs record what happened, for the statements: \<open>sy_hist\<close>, the failures an entry was retried
  after, and \<open>sy_sent\<close>, which entry was marked as sent on which session, in order.
\<close>

section \<open>What each building block leaves alone\<close>

lemma upd_session_frame [frame_simps, simp]:
  "as_options (upd_session f s r) = as_options r" "as_entries (upd_session f s r) = as_entries r"
  "as_nextEntry (upd_session f s r) = as_nextEntry r" "as_inflightQueue (upd_session f s r) = as_inflightQueue r"
  "as_sessionRefs (upd_session f s r) = as_sessionRefs r" "as_capacity (upd_session f s r) = as_capacity r"
  "as_nextSession (upd_session f s r) = as_nextSession r" "as_currentSession (upd_session f s r) = as_currentSession r"
  "as_failuresPending (upd_session f s r) = as_failuresPending r" "as_pumpCancelled (upd_session f s r) = as_pumpCancelled r"
  "as_closing (upd_session f s r) = as_closing r" "as_closeDone (upd_session f s r) = as_closeDone r"
  "as_closed (upd_session f s r) = as_closed r" "as_lastAckedPosition (upd_session f s r) = as_lastAckedPosition r"
  "as_currentAttempt (upd_session f s r) = as_currentAttempt r" "as_retryAt (upd_session f s r) = as_retryAt r"
  "as_advisedReconnects (upd_session f s r) = as_advisedReconnects r"
  by (simp_all add: upd_session_def)

text \<open>Everything but the transport sessions, the wake-up token, the timers and the reconnect budget.\<close>

record core =
  c_options :: AppendSessionOptions
  c_entries :: "nat \<Rightarrow> inflightEntry"
  c_nextEntry :: nat
  c_queue :: "nat list"
  c_refs :: "nat \<Rightarrow> int option"
  c_capacity :: capacityTracker
  c_nextSession :: nat
  c_current :: "nat option"
  c_failures :: int
  c_closing :: bool
  c_closed :: bool
  c_lastAcked :: "AppendAck option"
  c_attempt :: int

definition core_of :: "AppendSession \<Rightarrow> core" where
  "core_of r = \<lparr>c_options = as_options r, c_entries = as_entries r, c_nextEntry = as_nextEntry r,
     c_queue = as_inflightQueue r, c_refs = as_sessionRefs r, c_capacity = as_capacity r,
     c_nextSession = as_nextSession r, c_current = as_currentSession r, c_failures = as_failuresPending r,
     c_closing = as_closing r, c_closed = as_closed r, c_lastAcked = as_lastAckedPosition r,
     c_attempt = as_currentAttempt r\<rparr>"

lemma core_of_fields:
  "c_options (core_of r) = as_options r" "c_entries (core_of r) = as_entries r"
  "c_nextEntry (core_of r) = as_nextEntry r" "c_queue (core_of r) = as_inflightQueue r"
  "c_refs (core_of r) = as_sessionRefs r" "c_capacity (core_of r) = as_capacity r"
  "c_nextSession (core_of r) = as_nextSession r" "c_current (core_of r) = as_currentSession r"
  "c_failures (core_of r) = as_failuresPending r" "c_closing (core_of r) = as_closing r"
  "c_closed (core_of r) = as_closed r" "c_lastAcked (core_of r) = as_lastAckedPosition r"
  "c_attempt (core_of r) = as_currentAttempt r"
  by (simp_all add: core_of_def)

lemma core_upd_session [simp]: "core_of (upd_session f s r) = core_of r"
  by (simp add: core_of_def)

lemma core_fold_upd_session [simp]: "core_of (fold (upd_session f) ss r) = core_of r"
  by (induction ss arbitrary: r) simp_all

lemma core_closeAllSessions [simp]: "core_of (closeAllSessions r ss) = core_of r"
  by (simp add: closeAllSessions_def)

lemma core_closeStaleSessions [simp]: "core_of (closeStaleSessions r ss) = core_of r"
  by (simp add: closeStaleSessions_def)

lemma core_wakeupPump [simp]: "core_of (wakeupPump r) = core_of r"
  by (simp add: core_of_def wakeupPump_def)

lemma core_signalCloseDone [simp]: "core_of (signalCloseDone r) = core_of r"
  by (simp add: core_of_def signalCloseDone_def)

lemma core_timers [simp]:
  "core_of (r\<lparr>as_retryAt := t\<rparr>) = core_of r" "core_of (r\<lparr>as_wakeup := w\<rparr>) = core_of r"
  "core_of (r\<lparr>as_advisedReconnects := a\<rparr>) = core_of r" "core_of (r\<lparr>as_pumpCancelled := b\<rparr>) = core_of r"
  by (simp_all add: core_of_def)

lemma core_scheduleRetry [simp]: "core_of (scheduleRetry rnd now r) = core_of r"
  by (simp add: scheduleRetry_def Let_def split: option.splits)

section \<open>Loops over the queue\<close>

lemma fold_upd_entry:
  assumes "distinct es"
  shows "fold (upd_entry f) es r = r\<lparr>as_entries := (\<lambda>e. if e \<in> set es then f (as_entries r e) else as_entries r e)\<rparr>"
  using assms
proof (induction es arbitrary: r)
  case (Cons x es)
  then show ?case by (cases r) (auto simp: upd_entry_def fun_eq_iff)
qed (simp add: upd_entry_def)

lemma markInflightUncertainty_eq:
  assumes "distinct (as_inflightQueue r)"
  shows "markInflightUncertainty r (Some s) err = (if isNoSideEffectsError err then r
    else r\<lparr>as_entries := (\<lambda>e. if e \<in> set (as_inflightQueue r) \<and> wasSentOnSessionLocked (as_entries r e) s
      then (as_entries r e)\<lparr>ie_priorUncertainty := True\<rparr> else as_entries r e)\<rparr>)"
proof -
  let ?f = "\<lambda>e r. if Some s = None \<or> wasSentOnSessionLocked (as_entries r e) (the (Some s))
           then upd_entry (\<lambda>en. en\<lparr>ie_priorUncertainty := True\<rparr>) e r else r"
  have "fold ?f es r = r\<lparr>as_entries := (\<lambda>e. if e \<in> set es \<and> wasSentOnSessionLocked (as_entries r e) s
      then (as_entries r e)\<lparr>ie_priorUncertainty := True\<rparr> else as_entries r e)\<rparr>" if "distinct es" for es r
    using that
  proof (induction es arbitrary: r)
    case (Cons x es)
    then show ?case by (cases r) (auto simp: upd_entry_def fun_eq_iff wasSentOnSessionLocked_def)
  qed simp
  with assms show ?thesis by (simp add: markInflightUncertainty_def)
qed

lemma fold_fail_entry:
  assumes "distinct es" "\<forall>e\<in>set es. \<not> ie_completed (as_entries r e)"
  shows "fold (fail_entry f) es r = r\<lparr>as_entries := (\<lambda>e. if e \<in> set es then
        (as_entries r e)\<lparr>ie_completed := True, ie_resultCh := ie_resultCh (as_entries r e) @ [ErrResult (f (as_entries r e))]\<rparr>
        else as_entries r e),
      as_capacity := foldl release (as_capacity r) (map (\<lambda>e. ie_meteredBytes (as_entries r e)) es)\<rparr>"
  using assms
proof (induction es arbitrary: r)
  case (Cons x es)
  let ?r1 = "r\<lparr>as_entries := (as_entries r)(x := (as_entries r x)\<lparr>ie_completed := True,
      ie_resultCh := ie_resultCh (as_entries r x) @ [ErrResult (f (as_entries r x))]\<rparr>),
      as_capacity := release (as_capacity r) (ie_meteredBytes (as_entries r x))\<rparr>"
  have one: "fail_entry f x r = ?r1"
    using Cons.prems by (simp add: fail_entry_def upd_entry_def Let_def)
  have bytes: "map (\<lambda>e. ie_meteredBytes (as_entries ?r1 e)) es = map (\<lambda>e. ie_meteredBytes (as_entries r e)) es"
    using Cons.prems(1) by auto
  have "fold (fail_entry f) (x # es) r = fold (fail_entry f) es ?r1" by (simp add: one)
  also have "\<dots> = ?r1\<lparr>as_entries := (\<lambda>e. if e \<in> set es then
        (as_entries ?r1 e)\<lparr>ie_completed := True, ie_resultCh := ie_resultCh (as_entries ?r1 e) @ [ErrResult (f (as_entries ?r1 e))]\<rparr>
        else as_entries ?r1 e),
      as_capacity := foldl release (as_capacity ?r1) (map (\<lambda>e. ie_meteredBytes (as_entries ?r1 e)) es)\<rparr>"
    using Cons.prems by (intro Cons.IH) auto
  finally show ?case unfolding bytes using Cons.prems(1)
    by (auto simp: fun_eq_iff intro!: arg_cong2 [of _ _ _ _ "\<lambda>g c. r\<lparr>as_entries := g, as_capacity := c\<rparr>"])
qed simp

section \<open>The system\<close>

datatype pump_pc = PIdle | PScan nat "nat list" | PWrite nat nat "nat list"

record session_sys =
  sy_r :: AppendSession
  sy_reserved :: "(AppendInput \<times> int) list"
  sy_pump :: pump_pc
  sy_pending :: "(nat \<times> goerr) list"
  sy_hist :: "(nat \<times> goerr) list"
  sy_sent :: "(nat \<times> nat) list"

text \<open>The failure was retried when the entries are still in the queue afterwards.\<close>

definition retried_after :: "AppendSession \<Rightarrow> AppendSession \<Rightarrow> nat \<Rightarrow> goerr \<Rightarrow> (nat \<times> goerr) list" where
  "retried_after r r' s err = map (\<lambda>e. (e, err))
     (filter (\<lambda>e. e \<in> set (as_inflightQueue r') \<and> wasSentOnSessionLocked (as_entries r e) s) (as_inflightQueue r))"

inductive session_step :: "session_sys \<Rightarrow> session_sys \<Rightarrow> bool" where
  ss_reserve: "prepareAppendInput (Some input) = Inr (Some input, sz) \<Longrightarrow> 0 \<le> sz \<Longrightarrow>
      tryReserve (as_capacity (sy_r y)) ctxErr sz = (Inr True, c) \<or>
      sz \<le> ct_maxBytes (as_capacity (sy_r y)) \<and> reserve_wait sz [(as_capacity (sy_r y), ctxErr)] = Some (None, c) \<Longrightarrow>
    session_step y (y\<lparr>sy_r := (sy_r y)\<lparr>as_capacity := c\<rparr>, sy_reserved := (input, sz) # sy_reserved y\<rparr>)"
| ss_enqueue: "(input, sz) \<in> set (sy_reserved y) \<Longrightarrow>
    session_step y (y\<lparr>sy_r := snd (submit_reserved (sy_r y) input sz),
      sy_reserved := remove1 (input, sz) (sy_reserved y)\<rparr>)"
| ss_gate: "session_step y (y\<lparr>sy_r := snd (pump_gate now (sy_r y))\<rparr>)"
| ss_open: "getSession startErr (sy_r y) = (None, r) \<Longrightarrow> session_step y (y\<lparr>sy_r := r\<rparr>)"
| ss_open_failed: "getSession startErr (sy_r y) = (Some err, r) \<Longrightarrow>
    session_step y (y\<lparr>sy_r := handle_start_error rnd now r err\<rparr>)"
| ss_snapshot: "sy_pump y = PIdle \<Longrightarrow> submit_snapshot (sy_r y) = Some (s, es) \<Longrightarrow>
    session_step y (y\<lparr>sy_pump := PScan s es\<rparr>)"
| ss_skip: "sy_pump y = PScan s (e # es) \<Longrightarrow> mark_sent now (sy_r y) s e = (False, r) \<Longrightarrow>
    session_step y (y\<lparr>sy_r := r, sy_pump := PScan s es\<rparr>)"
| ss_mark: "sy_pump y = PScan s (e # es) \<Longrightarrow> mark_sent now (sy_r y) s e = (True, r) \<Longrightarrow>
    session_step y (y\<lparr>sy_r := r, sy_pump := PWrite s e es, sy_sent := sy_sent y @ [(s, e)]\<rparr>)"
| ss_write: "sy_pump y = PWrite s e es \<Longrightarrow> write_entry env during writeErr (sy_r y) s e = (None, r) \<Longrightarrow>
    session_step y (y\<lparr>sy_r := r, sy_pump := PScan s es\<rparr>)"
| ss_write_failed: "sy_pump y = PWrite s e es \<Longrightarrow> write_entry env during writeErr (sy_r y) s e = (Some err, r) \<Longrightarrow>
    \<not> as_closed r \<Longrightarrow> claimSession r s = (claimed, r') \<Longrightarrow>
    session_step y (y\<lparr>sy_r := r', sy_pump := PIdle,
      sy_pending := (if claimed then (s, err) # sy_pending y else sy_pending y)\<rparr>)"
| ss_write_closed: "sy_pump y = PWrite s e es \<Longrightarrow> write_entry env during writeErr (sy_r y) s e = (Some err, r) \<Longrightarrow>
    as_closed r \<Longrightarrow> session_step y (y\<lparr>sy_r := r, sy_pump := PIdle\<rparr>)"
| ss_scanned: "sy_pump y = PScan s [] \<Longrightarrow> session_step y (y\<lparr>sy_pump := PIdle\<rparr>)"
| ss_ack: "session_step y (y\<lparr>sy_r := handleAck (sy_r y) s ack\<rparr>)"
| ss_transport: "session_step y (y\<lparr>sy_r := upd_session f s (sy_r y)\<rparr>)"
| ss_wakeup: "session_step y (y\<lparr>sy_r := wakeupPump (sy_r y)\<rparr>)"
| ss_woken: "session_step y (y\<lparr>sy_r := (sy_r y)\<lparr>as_wakeup := False\<rparr>\<rparr>)"
| ss_claim: "\<not> as_closed (sy_r y) \<Longrightarrow> claimSession (sy_r y) s = (claimed, r) \<Longrightarrow>
    session_step y (y\<lparr>sy_r := r, sy_pending := (if claimed then (s, err) # sy_pending y else sy_pending y)\<rparr>)"
| ss_timeout: "claim_timeout showDur now (sy_r y) = (Some (s, err), r) \<Longrightarrow>
    session_step y (y\<lparr>sy_r := r, sy_pending := (s, err) # sy_pending y\<rparr>)"
| ss_resolve: "(s, err) \<in> set (sy_pending y) \<Longrightarrow> r = handleClaimedSessionError rnd now (sy_r y) s err \<Longrightarrow>
    session_step y (y\<lparr>sy_r := r, sy_pending := remove1 (s, err) (sy_pending y),
      sy_hist := sy_hist y @ retried_after (sy_r y) r s err\<rparr>)"
| ss_advice: "\<not> as_closed (sy_r y) \<Longrightarrow> \<not> hasUnackedOnSession (sy_r y) s \<Longrightarrow>
    session_step y (y\<lparr>sy_r := handleReconnectAdvice rnd now (sy_r y) s\<rparr>)"
| ss_stop: "session_step y (y\<lparr>sy_r := snd (shouldStopPump (sy_r y))\<rparr>)"
| ss_cancelled: "as_pumpCancelled (sy_r y) \<Longrightarrow>
    session_step y (y\<lparr>sy_r := failAllInflight (sy_r y) (Sentinel ErrSessionClosed)\<rparr>)"
| ss_ctx_cancelled: "session_step y (y\<lparr>sy_r := (sy_r y)\<lparr>as_pumpCancelled := True\<rparr>\<rparr>)"
| ss_close_begin: "session_step y (y\<lparr>sy_r := close_begin (sy_r y)\<rparr>)"
| ss_close_finish: "as_closeDone (sy_r y) \<Longrightarrow> as_closing (sy_r y) \<Longrightarrow>
    session_step y (y\<lparr>sy_r := close_finish (sy_r y)\<rparr>)"

section \<open>The invariant\<close>

text \<open>The queue holds the newest entries in order; exactly the queued entries are incomplete, and every
  other entry has exactly one result.\<close>

definition queue_ok :: "core \<Rightarrow> bool" where
  "queue_ok c \<longleftrightarrow> (\<exists>k\<le>c_nextEntry c. c_queue c = [k..<c_nextEntry c]) \<and>
     (\<forall>e<c_nextEntry c. if e \<in> set (c_queue c)
        then \<not> ie_completed (c_entries c e) \<and> ie_resultCh (c_entries c e) = []
        else ie_completed (c_entries c e) \<and> length (ie_resultCh (c_entries c e)) = 1)"

text \<open>The capacity account holds exactly the bytes of queued entries and of pending submissions.\<close>

definition held_bytes :: "core \<Rightarrow> (AppendInput \<times> int) list \<Rightarrow> int list" where
  "held_bytes c reserved = map (\<lambda>e. ie_meteredBytes (c_entries c e)) (c_queue c) @ map snd reserved"

definition caps_ok :: "core \<Rightarrow> (AppendInput \<times> int) list \<Rightarrow> bool" where
  "caps_ok c reserved \<longleftrightarrow> ledger_inv (c_capacity c, held_bytes c reserved)"

text \<open>A transport session is referenced once for every queued entry sent on it.\<close>

definition sent_count :: "core \<Rightarrow> nat \<Rightarrow> nat" where
  "sent_count c s = length (filter (\<lambda>e. s \<in> set (ie_sentOnSessions (c_entries c e))) (c_queue c))"

definition ref_of :: "nat \<Rightarrow> int option" where
  "ref_of n = (if n = 0 then None else Some (int n))"

lemma ref_of_pred [simp]: "nat (the (ref_of (Suc n))) - Suc 0 = n"
  by (simp add: ref_of_def nat_add_distrib)

definition refs_ok :: "core \<Rightarrow> bool" where
  "refs_ok c \<longleftrightarrow> (\<forall>e\<in>set (c_queue c). distinct (ie_sentOnSessions (c_entries c e)) \<and>
       (\<forall>s\<in>set (ie_sentOnSessions (c_entries c e)). s < c_nextSession c)) \<and>
     (\<forall>s. c_refs c s = ref_of (sent_count c s))"

text \<open>Acknowledgements fit their entries and increase in the order of submission.\<close>

definition ack_end :: "AppendAck \<Rightarrow> nat" where
  "ack_end a = unat (sp_SeqNum (aa_End a))"

definition ack_fits :: "inflightEntry \<Rightarrow> AppendAck \<Rightarrow> bool" where
  "ack_fits en a \<longleftrightarrow> sp_SeqNum (aa_Start a) \<le> sp_SeqNum (aa_End a) \<and>
     sp_SeqNum (aa_End a) - sp_SeqNum (aa_Start a) = word_of_nat (ie_expectedCount en)"

definition acks_ok :: "core \<Rightarrow> bool" where
  "acks_ok c \<longleftrightarrow>
     (\<forall>e<c_nextEntry c. \<forall>a. ie_resultCh (c_entries c e) = [AckResult a] \<longrightarrow> ack_fits (c_entries c e) a \<and>
        (\<exists>l. c_lastAcked c = Some l \<and> ack_end a \<le> ack_end l)) \<and>
     (\<forall>e1 e2 a1 a2. e1 < e2 \<longrightarrow> e2 < c_nextEntry c \<longrightarrow> ie_resultCh (c_entries c e1) = [AckResult a1] \<longrightarrow>
        ie_resultCh (c_entries c e2) = [AckResult a2] \<longrightarrow> ack_end a1 < ack_end a2)"

text \<open>Every failure an entry was retried after is harmless or remembered.\<close>

definition harmless :: "goerr \<Rightarrow> bool" where
  "harmless err \<longleftrightarrow> isNoSideEffectsError err \<or> isServerDraining err"

definition taint_ok :: "core \<Rightarrow> (nat \<times> goerr) list \<Rightarrow> bool" where
  "taint_ok c hist \<longleftrightarrow>
     (\<forall>(e, err)\<in>set hist. e < c_nextEntry c \<and> (ie_priorUncertainty (c_entries c e) \<or> harmless err)) \<and>
     (\<forall>e<c_nextEntry c. \<forall>x. ie_resultCh (c_entries c e) = [ErrResult x] \<longrightarrow> HasNoSideEffects x \<longrightarrow>
        \<not> ie_priorUncertainty (c_entries c e))"

definition ctl_ok :: "core \<Rightarrow> (nat \<times> goerr) list \<Rightarrow> bool" where
  "ctl_ok c pending \<longleftrightarrow> c_failures c = int (length pending) \<and>
     (\<exists>cfg. aso_RetryConfig (c_options c) = Some cfg \<and> 0 \<le> c_attempt c \<and> c_attempt c \<le> clamp_attempts cfg - 1) \<and>
     (c_closed c \<longrightarrow> c_queue c = [] \<and> c_closing c) \<and> (c_closing c \<longrightarrow> ct_closed (c_capacity c)) \<and>
     (\<forall>s. c_current c = Some s \<longrightarrow> s < c_nextSession c) \<and>
     ct_maxBytes (c_capacity c) = uint (aso_MaxInflightBytes (c_options c)) \<and>
     ct_maxItems (c_capacity c) = uint (aso_MaxInflightBatches (c_options c))"

text \<open>On each session the entries are sent in the order of submission.\<close>

definition unsent :: "core \<Rightarrow> nat \<Rightarrow> nat set" where
  "unsent c s = {e \<in> set (c_queue c). s \<notin> set (ie_sentOnSessions (c_entries c e))}"

definition sent_on :: "(nat \<times> nat) list \<Rightarrow> nat \<Rightarrow> nat list" where
  "sent_on sent s = map snd (filter (\<lambda>x. fst x = s) sent)"

definition ahead :: "core \<Rightarrow> (nat \<times> nat) list \<Rightarrow> nat \<Rightarrow> bool" where
  "ahead c sent s \<longleftrightarrow> (\<forall>w\<in>set (sent_on sent s). \<forall>e\<in>unsent c s. w < e) \<and>
     (\<forall>w\<in>set (sent_on sent s). w < c_nextEntry c)"

definition scan_ok :: "core \<Rightarrow> nat \<Rightarrow> nat list \<Rightarrow> bool" where
  "scan_ok c s es \<longleftrightarrow> sorted_wrt (<) es \<and> (\<forall>e\<in>unsent c s. e \<in> set es \<or> (\<forall>x\<in>set es. x < e)) \<and>
     (\<forall>x\<in>set es. x < c_nextEntry c) \<and> s < c_nextSession c"

fun scanning :: "core \<Rightarrow> pump_pc \<Rightarrow> bool" where
  "scanning c PIdle = True"
| "scanning c (PScan s es) = scan_ok c s es"
| "scanning c (PWrite s e es) = scan_ok c s es"

fun pump_session :: "pump_pc \<Rightarrow> nat option" where
  "pump_session PIdle = None"
| "pump_session (PScan s es) = Some s"
| "pump_session (PWrite s e es) = Some s"

definition order_ok :: "core \<Rightarrow> pump_pc \<Rightarrow> (nat \<times> nat) list \<Rightarrow> bool" where
  "order_ok c pump sent \<longleftrightarrow> (\<forall>s. sorted_wrt (<) (sent_on sent s)) \<and> scanning c pump \<and>
     (\<forall>s. c_current c = Some s \<or> pump_session pump = Some s \<longrightarrow> ahead c sent s) \<and>
     (\<forall>x\<in>set sent. fst x < c_nextSession c)"

definition session_inv :: "session_sys \<Rightarrow> bool" where
  "session_inv y \<longleftrightarrow> (let c = core_of (sy_r y) in
     queue_ok c \<and> caps_ok c (sy_reserved y) \<and> refs_ok c \<and> acks_ok c \<and> taint_ok c (sy_hist y) \<and>
     ctl_ok c (sy_pending y) \<and> order_ok c (sy_pump y) (sy_sent y))"

lemma queue_ok_distinct: "queue_ok c \<Longrightarrow> distinct (c_queue c)"
  by (auto simp: queue_ok_def)

lemma queue_ok_less: "queue_ok c \<Longrightarrow> e \<in> set (c_queue c) \<Longrightarrow> e < c_nextEntry c"
  by (auto simp: queue_ok_def)

lemma queue_ok_head:
  assumes "queue_ok c" "c_queue c = e # rest"
  shows "c_queue c = [e..<c_nextEntry c]"
proof -
  obtain k where k: "c_queue c = [k..<c_nextEntry c]" using assms(1) by (auto simp: queue_ok_def)
  then have "k < c_nextEntry c" using assms(2) by (cases "k < c_nextEntry c") auto
  then have "k = e" using k assms(2) by (simp add: upt_conv_Cons)
  with k show ?thesis by simp
qed

lemma queue_ok_open: "queue_ok c \<Longrightarrow> e \<in> set (c_queue c) \<Longrightarrow>
    \<not> ie_completed (c_entries c e) \<and> ie_resultCh (c_entries c e) = []"
  using queue_ok_less [of c e] unfolding queue_ok_def by simp

section \<open>Capacity\<close>

lemma ledger_inv_perm: "ledger_inv (c, xs) \<Longrightarrow> mset xs = mset ys \<Longrightarrow> ledger_inv (c, ys)"
  unfolding ledger_inv_def by (auto dest: mset_eq_length mset_eq_setD simp: sum_mset_sum_list [symmetric])

lemma ledger_release_cons:
  assumes "ledger_inv (c, out)" "mset out = mset (n # rest)"
  shows "ledger_inv (release c n, rest)"
  using ledger_release [of c "n # rest" n] ledger_inv_perm [OF assms] by simp

lemma ledger_release_list:
  "ledger_inv (c, xs @ out) \<Longrightarrow> ledger_inv (foldl release c xs, out)"
proof (induction xs arbitrary: c)
  case (Cons x xs)
  then have "ledger_inv (release c x, xs @ out)" by (intro ledger_release_cons) auto
  then show ?case using Cons.IH by simp
qed simp

lemma ledger_close: "ledger_inv (c, out) \<Longrightarrow> ledger_inv (Close_capacity c, out)"
  by (simp add: ledger_inv_def tracker_ok_def)

section \<open>Failing everything keeps the invariant\<close>

definition fail_core :: "(inflightEntry \<Rightarrow> goerr) \<Rightarrow> bool \<Rightarrow> core \<Rightarrow> core" where
  "fail_core f cl c = (let cap = foldl release (c_capacity c) (map (\<lambda>e. ie_meteredBytes (c_entries c e)) (c_queue c))
     in c\<lparr>c_entries := (\<lambda>e. if e \<in> set (c_queue c) then (c_entries c e)\<lparr>ie_completed := True,
            ie_resultCh := ie_resultCh (c_entries c e) @ [ErrResult (f (c_entries c e))]\<rparr> else c_entries c e),
          c_capacity := (if cl then Close_capacity cap else cap),
          c_queue := [], c_refs := (\<lambda>_. None), c_closing := True, c_closed := True\<rparr>)"

lemma core_failAllInflight:
  assumes "queue_ok (core_of r)"
  shows "core_of (failAllInflight r err) =
    fail_core (\<lambda>en. withPriorUncertainty err (ie_priorUncertainty en)) (\<not> as_closed r) (core_of r)"
proof -
  have q: "distinct (as_inflightQueue r)" "\<forall>e\<in>set (as_inflightQueue r). \<not> ie_completed (as_entries r e)"
    using queue_ok_distinct [OF assms] queue_ok_open [OF assms] by (auto simp: core_of_fields)
  show ?thesis
    unfolding failAllInflight_def failAllInflightLocked_def fold_fail_entry [OF q]
    by (simp add: Let_def collectSessionRefsLocked_def split: option.splits)
      (simp add: core_of_def fail_core_def signalCloseDone_def cong: if_cong)
qed

lemma core_close_finish:
  assumes "queue_ok (core_of r)" "as_closing r"
  shows "core_of (close_finish r) = fail_core (\<lambda>_. Sentinel ErrSessionClosed) False (core_of r)"
proof -
  let ?r = "r\<lparr>as_closed := True, as_pumpCancelled := True\<rparr>"
  have q: "distinct (as_inflightQueue ?r)" "\<forall>e\<in>set (as_inflightQueue ?r). \<not> ie_completed (as_entries ?r e)"
    using queue_ok_distinct [OF assms(1)] queue_ok_open [OF assms(1)] by (auto simp: core_of_fields)
  show ?thesis using assms(2)
    unfolding close_finish_def Let_def fold_fail_entry [OF q]
    by (simp add: collectSessionRefsLocked_def split: option.splits)
      (simp add: core_of_def fail_core_def cong: if_cong)
qed

definition harmless_result :: "(inflightEntry \<Rightarrow> goerr) \<Rightarrow> bool" where
  "harmless_result f \<longleftrightarrow> (\<forall>en. HasNoSideEffects (f en) \<longrightarrow> \<not> ie_priorUncertainty en)"

lemma harmless_result_intros [simp]:
  "harmless_result (\<lambda>en. withPriorUncertainty err (ie_priorUncertainty en))"
  "harmless_result (\<lambda>_. Sentinel s)"
  by (simp add: harmless_result_def) (simp add: harmless_result_def HasNoSideEffects_def)

definition core_inv :: "core \<Rightarrow> session_sys \<Rightarrow> bool" where
  "core_inv c y \<longleftrightarrow> queue_ok c \<and> caps_ok c (sy_reserved y) \<and> refs_ok c \<and> acks_ok c \<and> taint_ok c (sy_hist y) \<and>
     ctl_ok c (sy_pending y) \<and> order_ok c (sy_pump y) (sy_sent y)"

lemma session_inv_core: "session_inv y \<longleftrightarrow> core_inv (core_of (sy_r y)) y"
  by (simp add: session_inv_def core_inv_def Let_def)

lemma scanning_empty: "scanning c pump \<Longrightarrow> c_nextEntry c' = c_nextEntry c \<Longrightarrow>
    c_nextSession c' = c_nextSession c \<Longrightarrow> (\<And>s. unsent c' s \<subseteq> unsent c s) \<Longrightarrow> scanning c' pump"
  by (cases pump) (auto simp: scan_ok_def subset_iff)

lemma order_ok_mono:
  assumes "order_ok c pump sent" "c_nextEntry c' = c_nextEntry c" "c_nextSession c' = c_nextSession c"
    and "\<And>s. unsent c' s \<subseteq> unsent c s" "c_current c' = c_current c \<or> c_current c' = None"
  shows "order_ok c' pump sent"
proof -
  have "ahead c' sent s" if "ahead c sent s" for s
    using that assms(2,4) by (fastforce simp: ahead_def)
  moreover have "scanning c' pump" using assms scanning_empty by (auto simp: order_ok_def)
  ultimately show ?thesis using assms by (auto simp: order_ok_def)
qed

lemma acks_ok_mono:
  assumes a: "acks_ok c" and last: "c_lastAcked c' = c_lastAcked c"
    and sub: "\<And>e x. e < c_nextEntry c' \<Longrightarrow> ie_resultCh (c_entries c' e) = [AckResult x] \<Longrightarrow>
      e < c_nextEntry c \<and> ie_resultCh (c_entries c e) = [AckResult x] \<and>
      ie_expectedCount (c_entries c' e) = ie_expectedCount (c_entries c e)"
  shows "acks_ok c'"
proof -
  have one: "ack_fits (c_entries c' e) x \<and> (\<exists>l. c_lastAcked c' = Some l \<and> ack_end x \<le> ack_end l)"
    if "e < c_nextEntry c'" "ie_resultCh (c_entries c' e) = [AckResult x]" for e x
    using a sub [OF that] unfolding acks_ok_def last ack_fits_def by auto
  have two: "ack_end a1 < ack_end a2" if "e1 < e2" "e2 < c_nextEntry c'"
    "ie_resultCh (c_entries c' e1) = [AckResult a1]" "ie_resultCh (c_entries c' e2) = [AckResult a2]" for e1 e2 a1 a2
  proof -
    have "e1 < c_nextEntry c'" using that by simp
    from sub [OF this that(3)] sub [OF that(2,4)] a that(1) show ?thesis unfolding acks_ok_def by blast
  qed
  show ?thesis unfolding acks_ok_def using one two by blast
qed

lemma taint_ok_mono:
  assumes t: "taint_ok c hist" and n: "c_nextEntry c \<le> c_nextEntry c'"
    and keep: "\<And>e. e < c_nextEntry c \<Longrightarrow> ie_priorUncertainty (c_entries c e) \<Longrightarrow> ie_priorUncertainty (c_entries c' e)"
    and res: "\<And>e x. e < c_nextEntry c' \<Longrightarrow> ie_resultCh (c_entries c' e) = [ErrResult x] \<Longrightarrow>
      HasNoSideEffects x \<Longrightarrow> \<not> ie_priorUncertainty (c_entries c' e)"
  shows "taint_ok c' hist"
proof -
  have "fst h < c_nextEntry c' \<and> (ie_priorUncertainty (c_entries c' (fst h)) \<or> harmless (snd h))"
    if "h \<in> set hist" for h
    using t n keep [of "fst h"] that unfolding taint_ok_def by fastforce
  with res show ?thesis unfolding taint_ok_def split_beta by blast
qed

lemma taint_ok_result:
  "taint_ok c hist \<Longrightarrow> e < c_nextEntry c \<Longrightarrow> ie_resultCh (c_entries c e) = [ErrResult x] \<Longrightarrow>
     HasNoSideEffects x \<Longrightarrow> \<not> ie_priorUncertainty (c_entries c e)"
  unfolding taint_ok_def by blast

lemma fail_core_inv:
  assumes inv: "core_inv c y" and f: "harmless_result f" and cl: "cl \<or> ct_closed (c_capacity c)"
  shows "core_inv (fail_core f cl c) y"
proof -
  let ?c = "fail_core f cl c"
  have q: "queue_ok c" using inv by (simp add: core_inv_def)
  note open' = queue_ok_open [OF q]
  have fields: "c_queue ?c = []" "c_nextEntry ?c = c_nextEntry c" "c_refs ?c = (\<lambda>_. None)"
    "c_lastAcked ?c = c_lastAcked c" "c_options ?c = c_options c" "c_attempt ?c = c_attempt c"
    "c_failures ?c = c_failures c" "c_current ?c = c_current c" "c_nextSession ?c = c_nextSession c"
    "c_closed ?c" "c_closing ?c"
    by (simp_all add: fail_core_def Let_def)
  have entries: "c_entries ?c e = (if e \<in> set (c_queue c) then (c_entries c e)\<lparr>ie_completed := True,
      ie_resultCh := [ErrResult (f (c_entries c e))]\<rparr> else c_entries c e)" for e
    using open' by (simp add: fail_core_def Let_def)
  have "queue_ok ?c" using q open' by (auto simp: queue_ok_def fields entries)
  moreover have "caps_ok ?c (sy_reserved y)"
  proof -
    have "ledger_inv (foldl release (c_capacity c) (map (\<lambda>e. ie_meteredBytes (c_entries c e)) (c_queue c)),
        map snd (sy_reserved y))"
      using inv by (intro ledger_release_list) (simp add: core_inv_def caps_ok_def held_bytes_def)
    then show ?thesis by (simp add: caps_ok_def held_bytes_def fail_core_def Let_def ledger_close)
  qed
  moreover have "refs_ok ?c" by (simp add: refs_ok_def fields sent_count_def ref_of_def)
  moreover have "acks_ok ?c"
  proof -
    have "acks_ok c" using inv by (simp add: core_inv_def)
    then show ?thesis by (rule acks_ok_mono) (simp_all add: fields entries split: if_splits)
  qed
  moreover have "taint_ok ?c (sy_hist y)"
  proof -
    have t: "taint_ok c (sy_hist y)" using inv by (simp add: core_inv_def)
    have "\<not> ie_priorUncertainty (c_entries ?c e)"
      if "e < c_nextEntry c" "ie_resultCh (c_entries ?c e) = [ErrResult x]" "HasNoSideEffects x" for e x
      using that f taint_ok_result [OF t, of e x] by (auto simp: entries harmless_result_def split: if_splits)
    then show ?thesis by (intro taint_ok_mono [OF t]) (simp_all add: fields entries)
  qed
  moreover have "ctl_ok ?c (sy_pending y)"
  proof -
    have frame: "ct_closed (foldl release c0 xs) = ct_closed c0 \<and> ct_maxBytes (foldl release c0 xs) = ct_maxBytes c0 \<and>
        ct_maxItems (foldl release c0 xs) = ct_maxItems c0" for c0 xs
      by (induction xs arbitrary: c0) simp_all
    have "ct_closed (c_capacity ?c)" "ct_maxBytes (c_capacity ?c) = ct_maxBytes (c_capacity c)"
      "ct_maxItems (c_capacity ?c) = ct_maxItems (c_capacity c)"
      using cl by (auto simp: fail_core_def Let_def frame)
    then show ?thesis using inv by (simp add: core_inv_def ctl_ok_def fields)
  qed
  moreover have "order_ok ?c (sy_pump y) (sy_sent y)"
  proof (rule order_ok_mono)
    show "order_ok c (sy_pump y) (sy_sent y)" using inv by (simp add: core_inv_def)
  qed (simp_all add: fields unsent_def)
  ultimately show ?thesis by (simp add: core_inv_def)
qed

section \<open>Queueing an entry\<close>

definition new_entry :: "AppendInput \<Rightarrow> int \<Rightarrow> duration \<Rightarrow> inflightEntry" where
  "new_entry input sz timeout = \<lparr>ie_input = input, ie_expectedCount = length (ai_Records input), ie_meteredBytes = sz,
     ie_attemptStart = 0, ie_requestTimeout = timeout, ie_resultCh = [], ie_completed = False,
     ie_sentOnSessions = [], ie_priorUncertainty = False\<rparr>"

lemma new_entry_simps [simp]:
  "ie_resultCh (new_entry input sz t) = []" "\<not> ie_completed (new_entry input sz t)"
  "ie_sentOnSessions (new_entry input sz t) = []" "ie_meteredBytes (new_entry input sz t) = sz"
  "\<not> ie_priorUncertainty (new_entry input sz t)"
  by (simp_all add: new_entry_def)

definition enqueue_core :: "inflightEntry \<Rightarrow> core \<Rightarrow> core" where
  "enqueue_core en c = c\<lparr>c_entries := (c_entries c)(c_nextEntry c := en), c_nextEntry := c_nextEntry c + 1,
     c_queue := c_queue c @ [c_nextEntry c]\<rparr>"

lemma core_enqueue:
  "\<not> as_closing r \<Longrightarrow> core_of (snd (enqueueReservedEntry r input sz)) =
     enqueue_core (new_entry input sz (as_requestTimeout r)) (core_of r)"
  by (simp add: enqueueReservedEntry_def Let_def) (simp add: core_of_def enqueue_core_def new_entry_def)

lemma mset_map_remove1: "x \<in> set xs \<Longrightarrow> mset (map f xs) = add_mset (f x) (mset (map f (remove1 x xs)))"
  by (induction xs) auto

lemma enqueue_core_inv:
  assumes inv: "core_inv c y" and mem: "(input, sz) \<in> set (sy_reserved y)" and open': "\<not> c_closing c"
  shows "core_inv (enqueue_core (new_entry input sz t) c) (y\<lparr>sy_reserved := remove1 (input, sz) (sy_reserved y)\<rparr>)"
proof -
  let ?c = "enqueue_core (new_entry input sz t) c" and ?n = "c_nextEntry c"
  have q: "queue_ok c" using inv by (simp add: core_inv_def)
  have less: "e < ?n" if "e \<in> set (c_queue c)" for e using queue_ok_less [OF q that] .
  have fields: "c_queue ?c = c_queue c @ [?n]" "c_nextEntry ?c = Suc ?n" "c_refs ?c = c_refs c"
    "c_capacity ?c = c_capacity c" "c_lastAcked ?c = c_lastAcked c" "c_options ?c = c_options c"
    "c_attempt ?c = c_attempt c" "c_failures ?c = c_failures c" "c_current ?c = c_current c"
    "c_nextSession ?c = c_nextSession c" "c_closed ?c = c_closed c" "c_closing ?c = c_closing c"
    by (simp_all add: enqueue_core_def)
  have old: "c_entries ?c e = c_entries c e" if "e < ?n" for e using that by (simp add: enqueue_core_def)
  have new: "c_entries ?c ?n = new_entry input sz t" by (simp add: enqueue_core_def)
  have old_queue: "c_entries ?c e = c_entries c e" if "e \<in> set (c_queue c)" for e using old less that by simp
  have "queue_ok ?c"
  proof -
    obtain k where "k \<le> ?n" "c_queue c = [k..<?n]" using q by (auto simp: queue_ok_def)
    then have "\<exists>k\<le>Suc ?n. c_queue c @ [?n] = [k..<Suc ?n]" by (intro exI [of _ k]) simp
    moreover have "if e \<in> set (c_queue c @ [?n])
        then \<not> ie_completed (c_entries ?c e) \<and> ie_resultCh (c_entries ?c e) = []
        else ie_completed (c_entries ?c e) \<and> length (ie_resultCh (c_entries ?c e)) = 1" if "e < Suc ?n" for e
    proof (cases "e = ?n")
      case False
      with that have "e < ?n" by simp
      with q False old [OF this] show ?thesis by (auto simp: queue_ok_def)
    qed (simp add: new)
    ultimately show ?thesis unfolding queue_ok_def fields by blast
  qed
  moreover have "caps_ok ?c (remove1 (input, sz) (sy_reserved y))"
  proof -
    have "held_bytes ?c (remove1 (input, sz) (sy_reserved y)) =
        map (\<lambda>e. ie_meteredBytes (c_entries c e)) (c_queue c) @ [sz] @ map snd (remove1 (input, sz) (sy_reserved y))"
      using old_queue by (simp add: held_bytes_def fields new)
    then have "mset (held_bytes c (sy_reserved y)) = mset (held_bytes ?c (remove1 (input, sz) (sy_reserved y)))"
      using mset_map_remove1 [OF mem, of snd] by (simp add: held_bytes_def)
    with inv show ?thesis unfolding core_inv_def caps_ok_def fields by (blast intro: ledger_inv_perm)
  qed
  moreover have "refs_ok ?c"
  proof -
    have "filter (\<lambda>e. s \<in> set (ie_sentOnSessions (c_entries ?c e))) (c_queue c) =
        filter (\<lambda>e. s \<in> set (ie_sentOnSessions (c_entries c e))) (c_queue c)" for s
      using old_queue by (intro filter_cong) simp_all
    then have "sent_count ?c s = sent_count c s" for s
      by (simp add: sent_count_def fields new)
    with inv show ?thesis
      by (auto simp: refs_ok_def core_inv_def fields new old_queue)
  qed
  moreover have "acks_ok ?c"
  proof -
    have a: "acks_ok c" using inv by (simp add: core_inv_def)
    have "e < ?n \<and> ie_resultCh (c_entries c e) = [AckResult x] \<and>
        ie_expectedCount (c_entries ?c e) = ie_expectedCount (c_entries c e)"
      if "e < Suc ?n" "ie_resultCh (c_entries ?c e) = [AckResult x]" for e x
      using that old [of e] by (cases "e = ?n") (auto simp: new)
    then show ?thesis by (intro acks_ok_mono [OF a]) (simp_all add: fields)
  qed
  moreover have "taint_ok ?c (sy_hist y)"
  proof -
    have t: "taint_ok c (sy_hist y)" using inv by (simp add: core_inv_def)
    have "\<not> ie_priorUncertainty (c_entries ?c e)"
      if "e < Suc ?n" "ie_resultCh (c_entries ?c e) = [ErrResult x]" "HasNoSideEffects x" for e x
      using that taint_ok_result [OF t, of e x] old [of e] by (cases "e = ?n") (auto simp: new)
    then show ?thesis by (intro taint_ok_mono [OF t]) (simp_all add: fields old)
  qed
  moreover have "ctl_ok ?c (sy_pending y)"
    using inv open' by (simp add: core_inv_def ctl_ok_def fields)
  moreover have "order_ok ?c (sy_pump y) (sy_sent y)"
  proof -
    have o: "order_ok c (sy_pump y) (sy_sent y)" using inv by (simp add: core_inv_def)
    have uns: "unsent ?c s = insert ?n (unsent c s)" for s
      by (auto simp: unsent_def fields new old_queue)
    have "ahead ?c (sy_sent y) s" if "ahead c (sy_sent y) s" for s
      using that unfolding ahead_def uns fields by auto
    moreover have "scan_ok ?c s es" if "scan_ok c s es" for s es
      using that unfolding scan_ok_def uns fields by auto
    ultimately show ?thesis using o unfolding order_ok_def fields by (cases "sy_pump y") auto
  qed
  ultimately show ?thesis by (simp add: core_inv_def)
qed

section \<open>Completing the head\<close>

lemma release_sessions_refs:
  assumes "distinct sl" "\<forall>s\<in>set sl. \<exists>n. refs s = ref_of (Suc n)"
  shows "snd (release_sessions sl refs) = (\<lambda>s. if s \<in> set sl then ref_of (nat (the (refs s)) - 1) else refs s)"
  using assms
proof (induction sl arbitrary: refs)
  case (Cons x sl)
  obtain n where n: "refs x = Some (int (Suc n))" using Cons.prems(2) by (auto simp: ref_of_def)
  let ?refs = "refs(x := ref_of n)"
  have "snd (release_sessions (x # sl) refs) = snd (release_sessions sl ?refs)"
    using n by (auto simp: ref_of_def split_beta Let_def)
  also have "\<dots> = (\<lambda>s. if s \<in> set sl then ref_of (nat (the (?refs s)) - 1) else ?refs s)"
    using Cons.prems by (intro Cons.IH) auto
  finally have "snd (release_sessions (x # sl) refs) =
    (\<lambda>s. if s \<in> set sl then ref_of (nat (the (?refs s)) - 1) else ?refs s)" .
  moreover have "nat (the (refs x)) - 1 = n" using n by simp
  ultimately show ?case using Cons.prems(1) by (simp add: fun_eq_iff del: release_sessions.simps)
qed simp

definition complete_core :: "nat \<Rightarrow> nat list \<Rightarrow> AppendAck \<Rightarrow> core \<Rightarrow> core" where
  "complete_core e rest ack c = c\<lparr>c_entries := (c_entries c)(e := (c_entries c e)\<lparr>ie_completed := True,
       ie_sentOnSessions := [], ie_resultCh := ie_resultCh (c_entries c e) @ [AckResult ack]\<rparr>),
     c_queue := rest, c_refs := snd (release_sessions (ie_sentOnSessions (c_entries c e)) (c_refs c)),
     c_lastAcked := Some ack, c_attempt := 0,
     c_capacity := release (c_capacity c) (ie_meteredBytes (c_entries c e))\<rparr>"

lemma core_complete_head: "core_of (complete_head r s e rest ack) = complete_core e rest ack (core_of r)"
  by (simp add: complete_head_def Let_def split_beta releaseEntrySessionsLocked_def)
    (simp add: core_of_def complete_core_def upd_entry_def)

lemma complete_core_inv:
  assumes inv: "core_inv c y" and head: "c_queue c = e # rest" and fits: "ack_fits (c_entries c e) ack"
    and grows: "\<And>l. c_lastAcked c = Some l \<Longrightarrow> ack_end l < ack_end ack"
  shows "core_inv (complete_core e rest ack c) y"
proof -
  let ?c = "complete_core e rest ack c"
  have q: "queue_ok c" and r: "refs_ok c" using inv by (simp_all add: core_inv_def)
  have e_less: "e < c_nextEntry c" using queue_ok_less [OF q] head by simp
  have e_open: "ie_resultCh (c_entries c e) = []" using queue_ok_open [OF q] head by simp
  have notin: "e \<notin> set rest" using queue_ok_distinct [OF q] head by simp
  have fields: "c_queue ?c = rest" "c_nextEntry ?c = c_nextEntry c" "c_lastAcked ?c = Some ack"
    "c_options ?c = c_options c" "c_attempt ?c = 0" "c_failures ?c = c_failures c" "c_current ?c = c_current c"
    "c_nextSession ?c = c_nextSession c" "c_closed ?c = c_closed c" "c_closing ?c = c_closing c"
    "c_capacity ?c = release (c_capacity c) (ie_meteredBytes (c_entries c e))"
    by (simp_all add: complete_core_def)
  have ent: "c_entries ?c x = (if x = e then (c_entries c e)\<lparr>ie_completed := True, ie_sentOnSessions := [],
      ie_resultCh := [AckResult ack]\<rparr> else c_entries c x)" for x
    by (simp add: complete_core_def e_open)
  have rest_ent: "c_entries ?c x = c_entries c x" if "x \<in> set rest" for x using that notin by (auto simp: ent)
  have "queue_ok ?c"
  proof -
    have "rest = [Suc e..<c_nextEntry c]"
      using queue_ok_head [OF q head] head e_less by (simp add: upt_conv_Cons)
    then have "\<exists>k\<le>c_nextEntry c. rest = [k..<c_nextEntry c]" using e_less by (intro exI [of _ "Suc e"]) simp
    with q head notin show ?thesis unfolding queue_ok_def fields by (auto simp: ent)
  qed
  moreover have "caps_ok ?c (sy_reserved y)"
  proof -
    have same: "map (\<lambda>e. ie_meteredBytes (c_entries ?c e)) rest = map (\<lambda>e. ie_meteredBytes (c_entries c e)) rest"
      using rest_ent by simp
    have "ledger_inv (c_capacity c, held_bytes c (sy_reserved y))"
      using inv by (simp add: core_inv_def caps_ok_def)
    then have "ledger_inv (release (c_capacity c) (ie_meteredBytes (c_entries c e)),
        map (\<lambda>e. ie_meteredBytes (c_entries c e)) rest @ map snd (sy_reserved y))"
      by (rule ledger_release_cons) (simp add: held_bytes_def head)
    then show ?thesis unfolding caps_ok_def held_bytes_def fields same .
  qed
  moreover have "refs_ok ?c"
  proof -
    let ?sl = "ie_sentOnSessions (c_entries c e)"
    have sl: "distinct ?sl" and cnt: "\<And>s. c_refs c s = ref_of (sent_count c s)"
      using r head by (simp_all add: refs_ok_def)
    have filt: "filter (\<lambda>x. s \<in> set (ie_sentOnSessions (c_entries ?c x))) rest =
        filter (\<lambda>x. s \<in> set (ie_sentOnSessions (c_entries c x))) rest" for s
      by (intro filter_cong) (simp_all add: rest_ent)
    have count: "sent_count c s = (if s \<in> set ?sl then Suc (sent_count ?c s) else sent_count ?c s)" for s
      unfolding sent_count_def fields head filt by simp
    have "c_refs ?c = (\<lambda>s. if s \<in> set ?sl then ref_of (nat (the (c_refs c s)) - 1) else c_refs c s)"
      using release_sessions_refs [OF sl, of "c_refs c"] cnt count by (auto simp: complete_core_def)
    then have "c_refs ?c s = ref_of (sent_count ?c s)" for s
      using cnt [of s] count [of s] by simp
    then show ?thesis using r head rest_ent by (simp add: refs_ok_def fields)
  qed
  moreover have "acks_ok ?c"
  proof -
    have a: "acks_ok c" using inv by (simp add: core_inv_def)
    have below: "ack_end x < ack_end ack" if "x' < c_nextEntry c" "ie_resultCh (c_entries c x') = [AckResult x]" for x x'
    proof -
      from a that obtain l where "c_lastAcked c = Some l" "ack_end x \<le> ack_end l" unfolding acks_ok_def by blast
      with grows [of l] show ?thesis by simp
    qed
    have above: "ie_resultCh (c_entries c x) = []" if "e < x" "x < c_nextEntry c" for x
    proof -
      have "x \<in> set (c_queue c)" unfolding queue_ok_head [OF q head] using that by simp
      then show ?thesis using queue_ok_open [OF q] by simp
    qed
    have "ack_fits (c_entries ?c x) z \<and> ack_end z \<le> ack_end ack"
      if "x < c_nextEntry c" "ie_resultCh (c_entries ?c x) = [AckResult z]" for x z
    proof (cases "x = e")
      case True
      with that have "z = ack" by (simp add: ent)
      with True fits show ?thesis by (simp add: ent ack_fits_def)
    next
      case False
      with that have "ie_resultCh (c_entries c x) = [AckResult z]" by (simp add: ent)
      with a that(1) below [OF that(1) this] False show ?thesis by (auto simp: ent acks_ok_def)
    qed
    moreover have "ack_end a1 < ack_end a2" if "e1 < e2" "e2 < c_nextEntry c"
      "ie_resultCh (c_entries ?c e1) = [AckResult a1]" "ie_resultCh (c_entries ?c e2) = [AckResult a2]" for e1 e2 a1 a2
    proof (cases "e2 = e")
      case True
      with that below [of e1 a1] show ?thesis by (auto simp: ent split: if_splits)
    next
      case False
      with that above [of e2] have "e1 \<noteq> e" by (auto simp: ent split: if_splits)
      with False that a show ?thesis by (auto simp: ent acks_ok_def)
    qed
    ultimately show ?thesis unfolding acks_ok_def fields by blast
  qed
  moreover have "taint_ok ?c (sy_hist y)"
  proof -
    have t: "taint_ok c (sy_hist y)" using inv by (simp add: core_inv_def)
    then show ?thesis using taint_ok_result [OF t]
      by (intro taint_ok_mono [OF t]) (auto simp: fields ent split: if_splits)
  qed
  moreover have "ctl_ok ?c (sy_pending y)"
    using inv head by (auto simp: core_inv_def ctl_ok_def fields clamp_attempts_def)
  moreover have "order_ok ?c (sy_pump y) (sy_sent y)"
  proof (rule order_ok_mono)
    show "order_ok c (sy_pump y) (sy_sent y)" using inv by (simp add: core_inv_def)
    show "unsent ?c s \<subseteq> unsent c s" for s using head rest_ent by (auto simp: unsent_def fields)
  qed (simp_all add: fields)
  ultimately show ?thesis by (simp add: core_inv_def)
qed

section \<open>Sending an entry\<close>

definition mark_core :: "nat \<Rightarrow> nat \<Rightarrow> gotime \<Rightarrow> core \<Rightarrow> core" where
  "mark_core s e t c = c\<lparr>c_entries := (c_entries c)(e := (c_entries c e)\<lparr>ie_sentOnSessions :=
       ie_sentOnSessions (c_entries c e) @ [s], ie_attemptStart := t\<rparr>),
     c_refs := (c_refs c)(s \<mapsto> (case c_refs c s of None \<Rightarrow> 0 | Some n \<Rightarrow> n) + 1)\<rparr>"

lemma mark_sent_False: "mark_sent now r s e = (False, r') \<Longrightarrow>
    r' = r \<and> (ie_completed (as_entries r e) \<or> wasSentOnSessionLocked (as_entries r e) s)"
  by (auto simp: mark_sent_def Let_def split: if_splits)

lemma core_mark_sent:
  assumes "mark_sent now r s e = (True, r')"
  shows "\<exists>t. core_of r' = mark_core s e t (core_of r)" "\<not> ie_completed (as_entries r e)"
    "s \<notin> set (ie_sentOnSessions (as_entries r e))"
proof -
  show "\<not> ie_completed (as_entries r e)" "s \<notin> set (ie_sentOnSessions (as_entries r e))"
    using assms by (auto simp: mark_sent_def wasSentOnSessionLocked_def split: if_splits)
  have "r' = (let r = upd_entry (\<lambda>en. en\<lparr>ie_sentOnSessions := ie_sentOnSessions en @ [s]\<rparr>) e r;
            r = r\<lparr>as_sessionRefs := (as_sessionRefs r)(s \<mapsto>
                  (case as_sessionRefs r s of None \<Rightarrow> 0 | Some c \<Rightarrow> c) + 1)\<rparr>
        in if time_IsZero (ie_attemptStart (as_entries r e))
           then upd_entry (\<lambda>en. en\<lparr>ie_attemptStart := now\<rparr>) e r else r)"
    using assms by (auto simp: mark_sent_def Let_def split: if_splits)
  then have "core_of r' = mark_core s e (if time_IsZero (ie_attemptStart (as_entries r e)) then now
      else ie_attemptStart (as_entries r e)) (core_of r)"
    by (simp add: core_of_def mark_core_def upd_entry_def Let_def fun_upd_def fun_eq_iff)
  then show "\<exists>t. core_of r' = mark_core s e t (core_of r)" by blast
qed

lemma sent_on_snoc: "sent_on (sent @ [(s, e)]) s' = (if s' = s then sent_on sent s @ [e] else sent_on sent s')"
  by (simp add: sent_on_def)

lemma mark_core_inv:
  assumes inv: "core_inv c y" and pump: "sy_pump y = PScan s (e # es)"
    and e: "\<not> ie_completed (c_entries c e)" "s \<notin> set (ie_sentOnSessions (c_entries c e))"
  shows "core_inv (mark_core s e t c) (y\<lparr>sy_pump := PWrite s e es, sy_sent := sy_sent y @ [(s, e)]\<rparr>)"
proof -
  let ?c = "mark_core s e t c"
  have q: "queue_ok c" and o: "order_ok c (sy_pump y) (sy_sent y)" using inv by (simp_all add: core_inv_def)
  have scan: "scan_ok c s (e # es)" using o pump by (simp add: order_ok_def)
  then have "e < c_nextEntry c" "s < c_nextSession c" by (simp_all add: scan_ok_def)
  then have inq: "e \<in> set (c_queue c)" using q e(1) by (auto simp: queue_ok_def split: if_splits)
  have fields: "c_queue ?c = c_queue c" "c_nextEntry ?c = c_nextEntry c" "c_lastAcked ?c = c_lastAcked c"
    "c_options ?c = c_options c" "c_attempt ?c = c_attempt c" "c_failures ?c = c_failures c" "c_current ?c = c_current c"
    "c_nextSession ?c = c_nextSession c" "c_closed ?c = c_closed c" "c_closing ?c = c_closing c"
    "c_capacity ?c = c_capacity c"
    by (simp_all add: mark_core_def)
  have same: "ie_completed (c_entries ?c x) = ie_completed (c_entries c x)"
    "ie_resultCh (c_entries ?c x) = ie_resultCh (c_entries c x)"
    "ie_meteredBytes (c_entries ?c x) = ie_meteredBytes (c_entries c x)"
    "ie_expectedCount (c_entries ?c x) = ie_expectedCount (c_entries c x)"
    "ie_priorUncertainty (c_entries ?c x) = ie_priorUncertainty (c_entries c x)" for x
    by (simp_all add: mark_core_def)
  have sent: "ie_sentOnSessions (c_entries ?c x) =
      (if x = e then ie_sentOnSessions (c_entries c e) @ [s] else ie_sentOnSessions (c_entries c x))" for x
    by (simp add: mark_core_def)
  have "queue_ok ?c" using q by (simp add: queue_ok_def fields same)
  moreover have "caps_ok ?c (sy_reserved y)"
    using inv by (simp add: core_inv_def caps_ok_def held_bytes_def fields same)
  moreover have "refs_ok ?c"
  proof -
    have r: "refs_ok c" using inv by (simp add: core_inv_def)
    have other: "sent_count ?c s' = sent_count c s'" if "s' \<noteq> s" for s'
      unfolding sent_count_def fields using that
      by (intro arg_cong [of _ _ length] filter_cong) (simp_all add: sent)
    obtain us vs where qs: "c_queue c = us @ e # vs" using inq by (auto simp: in_set_conv_decomp)
    have uv: "e \<notin> set us" "e \<notin> set vs" using queue_ok_distinct [OF q] qs by auto
    have "filter (\<lambda>x. s \<in> set (ie_sentOnSessions (c_entries ?c x))) xs =
        filter (\<lambda>x. s \<in> set (ie_sentOnSessions (c_entries c x))) xs" if "e \<notin> set xs" for xs
      using that by (intro filter_cong) (auto simp: sent)
    then have this_count: "sent_count ?c s = Suc (sent_count c s)"
      using uv e(2) by (simp add: sent_count_def fields qs sent)
    have "c_refs ?c s' = ref_of (sent_count ?c s')" for s'
      using r other [of s'] this_count
      by (cases "s' = s") (auto simp: refs_ok_def mark_core_def ref_of_def split: option.splits)
    then show ?thesis using r e(2) \<open>s < c_nextSession c\<close> by (auto simp: refs_ok_def fields sent)
  qed
  moreover have "acks_ok ?c"
  proof (rule acks_ok_mono)
    show "acks_ok c" using inv by (simp add: core_inv_def)
  qed (simp_all add: fields same)
  moreover have "taint_ok ?c (sy_hist y)"
    using inv by (simp add: core_inv_def taint_ok_def fields same)
  moreover have "ctl_ok ?c (sy_pending y)"
    using inv by (simp add: core_inv_def ctl_ok_def fields)
  moreover have "order_ok ?c (PWrite s e es) (sy_sent y @ [(s, e)])"
  proof -
    have uns: "unsent ?c s = unsent c s - {e}" "s' \<noteq> s \<Longrightarrow> unsent ?c s' = unsent c s'" for s'
      by (auto simp: unsent_def fields sent)
    have eu: "e \<in> unsent c s" using inq e(2) by (simp add: unsent_def)
    have ah: "ahead c (sy_sent y) s" using o pump by (simp add: order_ok_def)
    have later: "e < x" if "x \<in> unsent c s - {e}" for x
      using scan that by (auto simp: scan_ok_def)
    have "sorted_wrt (<) (sent_on (sy_sent y) s @ [e])"
      using o ah eu by (auto simp: order_ok_def ahead_def sorted_wrt_append)
    then have "sorted_wrt (<) (sent_on (sy_sent y @ [(s, e)]) s')" for s'
      using o by (simp add: sent_on_snoc order_ok_def)
    moreover have "ahead ?c (sy_sent y @ [(s, e)]) s' " if "ahead c (sy_sent y) s'" for s'
      using that later uns \<open>e < c_nextEntry c\<close> by (auto simp: ahead_def sent_on_snoc fields)
    moreover have "scan_ok ?c s es" using scan by (auto simp: scan_ok_def fields uns)
    ultimately show ?thesis using o pump \<open>s < c_nextSession c\<close> by (auto simp: order_ok_def fields)
  qed
  ultimately show ?thesis by (simp add: core_inv_def)
qed

lemma skip_inv:
  assumes inv: "core_inv c y" and pump: "sy_pump y = PScan s (e # es)"
    and e: "ie_completed (c_entries c e) \<or> s \<in> set (ie_sentOnSessions (c_entries c e))"
  shows "core_inv c (y\<lparr>sy_pump := PScan s es\<rparr>)"
proof -
  have "e \<notin> unsent c s" using inv e queue_ok_open [of c e] by (auto simp: core_inv_def unsent_def)
  moreover have "scan_ok c s (e # es)" using inv pump by (simp add: core_inv_def order_ok_def)
  ultimately have "scan_ok c s es" by (auto simp: scan_ok_def)
  with inv pump show ?thesis by (simp add: core_inv_def order_ok_def)
qed

lemma pump_idle_inv: "core_inv c y \<Longrightarrow> core_inv c (y\<lparr>sy_pump := PIdle\<rparr>)"
  by (auto simp: core_inv_def order_ok_def)

lemma snapshot_inv:
  assumes inv: "core_inv c y" and s: "c_current c = Some s"
  shows "core_inv c (y\<lparr>sy_pump := PScan s (c_queue c)\<rparr>)"
proof -
  have q: "queue_ok c" using inv by (simp add: core_inv_def)
  then obtain k where "c_queue c = [k..<c_nextEntry c]" by (auto simp: queue_ok_def)
  then have "sorted_wrt (<) (c_queue c)" by simp
  moreover have "s < c_nextSession c" using inv s by (simp add: core_inv_def ctl_ok_def)
  ultimately have "scan_ok c s (c_queue c)" using queue_ok_less [OF q] by (auto simp: scan_ok_def unsent_def)
  with inv s show ?thesis by (auto simp: core_inv_def order_ok_def)
qed

section \<open>Failures\<close>

lemma fail_all_inv:
  assumes "core_inv (core_of r) y"
  shows "core_inv (core_of (failAllInflight r err)) y"
proof -
  have "queue_ok (core_of r)" using assms by (simp add: core_inv_def)
  moreover have "as_closed r \<Longrightarrow> ct_closed (c_capacity (core_of r))"
    using assms by (simp add: core_inv_def ctl_ok_def core_of_fields)
  ultimately show ?thesis using assms by (auto simp: core_failAllInflight intro!: fail_core_inv)
qed

lemma fail_all_queue: "queue_ok (core_of r) \<Longrightarrow> as_inflightQueue (failAllInflight r err) = []"
  using arg_cong [OF core_failAllInflight [of r err], of c_queue] by (simp add: core_of_fields fail_core_def Let_def)

text \<open>A retry changes, of the queued entries only, when the attempt started and whether an earlier
  attempt is uncertain.\<close>

definition retry_entries :: "core \<Rightarrow> (nat \<Rightarrow> inflightEntry) \<Rightarrow> bool" where
  "retry_entries c g \<longleftrightarrow> (\<forall>e. \<exists>t u. g e = (c_entries c e)\<lparr>ie_attemptStart := t,
       ie_priorUncertainty := (ie_priorUncertainty (c_entries c e) \<or> e \<in> set (c_queue c) \<and> u)\<rparr>)"

lemma retry_entries_inv:
  assumes inv: "core_inv c y" and g: "retry_entries c g"
    and n: "\<And>cfg. aso_RetryConfig (c_options c) = Some cfg \<Longrightarrow> 0 \<le> n \<and> n \<le> clamp_attempts cfg - 1"
  shows "core_inv (c\<lparr>c_entries := g, c_attempt := n\<rparr>) y"
proof -
  let ?c = "c\<lparr>c_entries := g, c_attempt := n\<rparr>"
  have q: "queue_ok c" using inv by (simp add: core_inv_def)
  have same: "ie_completed (g x) = ie_completed (c_entries c x)"
    "ie_resultCh (g x) = ie_resultCh (c_entries c x)"
    "ie_meteredBytes (g x) = ie_meteredBytes (c_entries c x)"
    "ie_expectedCount (g x) = ie_expectedCount (c_entries c x)"
    "ie_sentOnSessions (g x) = ie_sentOnSessions (c_entries c x)"
    "ie_priorUncertainty (c_entries c x) \<Longrightarrow> ie_priorUncertainty (g x)"
    "x \<notin> set (c_queue c) \<Longrightarrow> ie_priorUncertainty (g x) = ie_priorUncertainty (c_entries c x)" for x
  proof -
    obtain t u where "g x = (c_entries c x)\<lparr>ie_attemptStart := t,
       ie_priorUncertainty := (ie_priorUncertainty (c_entries c x) \<or> x \<in> set (c_queue c) \<and> u)\<rparr>"
      using g unfolding retry_entries_def by blast
    then show "ie_completed (g x) = ie_completed (c_entries c x)"
      "ie_resultCh (g x) = ie_resultCh (c_entries c x)"
      "ie_meteredBytes (g x) = ie_meteredBytes (c_entries c x)"
      "ie_expectedCount (g x) = ie_expectedCount (c_entries c x)"
      "ie_sentOnSessions (g x) = ie_sentOnSessions (c_entries c x)"
      "ie_priorUncertainty (c_entries c x) \<Longrightarrow> ie_priorUncertainty (g x)"
      "x \<notin> set (c_queue c) \<Longrightarrow> ie_priorUncertainty (g x) = ie_priorUncertainty (c_entries c x)"
      by simp_all
  qed
  have "queue_ok ?c" using q by (simp add: queue_ok_def same)
  moreover have "caps_ok ?c (sy_reserved y)"
    using inv by (simp add: core_inv_def caps_ok_def held_bytes_def same)
  moreover have "refs_ok ?c" using inv by (simp add: core_inv_def refs_ok_def sent_count_def same)
  moreover have "acks_ok ?c"
  proof (rule acks_ok_mono)
    show "acks_ok c" using inv by (simp add: core_inv_def)
  qed (simp_all add: same)
  moreover have "taint_ok ?c (sy_hist y)"
  proof -
    have t: "taint_ok c (sy_hist y)" using inv by (simp add: core_inv_def)
    have "\<not> ie_priorUncertainty (g e)" if "e < c_nextEntry c" "ie_resultCh (g e) = [ErrResult x]" "HasNoSideEffects x" for e x
    proof -
      have "e \<notin> set (c_queue c)" using queue_ok_open [OF q, of e] that(2) by (auto simp: same)
      then show ?thesis using taint_ok_result [OF t that(1)] that(2,3) by (simp add: same)
    qed
    then show ?thesis by (intro taint_ok_mono [OF t]) (simp_all add: same)
  qed
  moreover have "ctl_ok ?c (sy_pending y)"
    using inv n by (auto simp: core_inv_def ctl_ok_def)
  moreover have "order_ok ?c (sy_pump y) (sy_sent y)"
  proof (rule order_ok_mono)
    show "order_ok c (sy_pump y) (sy_sent y)" using inv by (simp add: core_inv_def)
  qed (simp_all add: unsent_def same)
  ultimately show ?thesis by (simp add: core_inv_def)
qed

lemma core_reset:
  assumes "queue_ok (core_of r)"
  shows "\<exists>g. core_of (resetInflightAttemptStarts r) = (core_of r)\<lparr>c_entries := g\<rparr> \<and>
    (\<forall>e. \<exists>t. g e = (as_entries r e)\<lparr>ie_attemptStart := t\<rparr>)"
proof -
  have "distinct (as_inflightQueue r)" using queue_ok_distinct [OF assms] by (simp add: core_of_fields)
  then have "core_of (resetInflightAttemptStarts r) = (core_of r)\<lparr>c_entries := (\<lambda>e. if e \<in> set (as_inflightQueue r)
      then (as_entries r e)\<lparr>ie_attemptStart := 0\<rparr> else as_entries r e)\<rparr>"
    by (simp add: resetInflightAttemptStarts_def fold_upd_entry core_of_def)
  moreover have "\<exists>t. (if e \<in> set (as_inflightQueue r) then (as_entries r e)\<lparr>ie_attemptStart := 0\<rparr> else as_entries r e) =
      (as_entries r e)\<lparr>ie_attemptStart := t\<rparr>" for e
    by (cases "as_entries r e") auto
  ultimately show ?thesis by blast
qed

text \<open>The three ways a claimed failure ends.\<close>

lemma resolve_failure_cases:
  assumes inv: "core_inv (core_of r) y" and r': "r' = resolve_failure rnd now r s err"
  obtains (failed) x where "r' = failAllInflight r x"
  | (draining) g where "isServerDraining err" "core_of r' = (core_of r)\<lparr>c_entries := g\<rparr>"
      "retry_entries (core_of r) g" "as_inflightQueue r' = as_inflightQueue r"
  | (retried) g where "core_of r' = (core_of r)\<lparr>c_entries := g, c_attempt := as_currentAttempt r + 1\<rparr>"
      "retry_entries (core_of r) g" "as_inflightQueue r' = as_inflightQueue r"
      "as_currentAttempt r < clamp_attempts (session_config r) - 1"
      "\<And>e. e \<in> set (as_inflightQueue r) \<Longrightarrow> wasSentOnSessionLocked (as_entries r e) s \<Longrightarrow>
         \<not> isNoSideEffectsError err \<Longrightarrow> ie_priorUncertainty (g e)"
proof (cases "isServerDraining err")
  case True
  let ?r1 = "r\<lparr>as_advisedReconnects := record_advised (as_advisedReconnects r) now\<rparr>"
  have "queue_ok (core_of ?r1)" using inv by (simp add: core_inv_def)
  then obtain g where g: "core_of (resetInflightAttemptStarts ?r1) = (core_of ?r1)\<lparr>c_entries := g\<rparr>"
    "\<forall>e. \<exists>t. g e = (as_entries ?r1 e)\<lparr>ie_attemptStart := t\<rparr>" using core_reset by blast
  have "core_of r' = (core_of r)\<lparr>c_entries := g\<rparr>" using True r' g(1) by (simp add: resolve_failure_def Let_def)
  moreover have "retry_entries (core_of r) g"
    unfolding retry_entries_def
  proof
    fix e obtain t where "g e = (as_entries r e)\<lparr>ie_attemptStart := t\<rparr>" using g(2) by auto
    then have "g e = (c_entries (core_of r) e)\<lparr>ie_attemptStart := t, ie_priorUncertainty :=
        (ie_priorUncertainty (c_entries (core_of r) e) \<or> e \<in> set (c_queue (core_of r)) \<and> False)\<rparr>"
      by (cases "as_entries r e") (simp add: core_of_fields)
    then show "\<exists>t u. g e = (c_entries (core_of r) e)\<lparr>ie_attemptStart := t, ie_priorUncertainty :=
        (ie_priorUncertainty (c_entries (core_of r) e) \<or> e \<in> set (c_queue (core_of r)) \<and> u)\<rparr>" by blast
  qed
  moreover have "as_inflightQueue r' = as_inflightQueue r"
    using calculation(1) by (metis core_of_fields(4) core.select_convs(4) core.surjective core.update_convs(2))
  ultimately show ?thesis using True draining by blast
next
  case False
  show ?thesis
  proof (cases "\<exists>x. r' = failAllInflight r x")
    case True
    then show ?thesis using failed by blast
  next
    case nofail: False
    let ?r1 = "r\<lparr>as_currentAttempt := as_currentAttempt r + 1\<rparr>"
    let ?r2 = "markInflightUncertainty ?r1 (Some s) err"
    have r'_eq: "r' = scheduleRetry rnd now (resetInflightAttemptStarts ?r2)"
      and lim: "as_currentAttempt r < clamp_attempts (session_config r) - 1"
      using r' nofail False by (auto simp: resolve_failure_def Let_def split: if_splits)
    have "queue_ok (core_of r)" using inv by (simp add: core_inv_def)
    then have q1: "queue_ok (core_of ?r1)" by (simp add: queue_ok_def core_of_fields cong: if_cong)
    have d1: "distinct (as_inflightQueue ?r1)" using queue_ok_distinct [OF q1] by (simp add: core_of_fields)
    let ?h = "\<lambda>e. if \<not> isNoSideEffectsError err \<and> e \<in> set (as_inflightQueue r) \<and>
        wasSentOnSessionLocked (as_entries r e) s then (as_entries r e)\<lparr>ie_priorUncertainty := True\<rparr> else as_entries r e"
    have r2: "core_of ?r2 = (core_of r)\<lparr>c_entries := ?h, c_attempt := as_currentAttempt r + 1\<rparr>"
      unfolding markInflightUncertainty_eq [OF d1] by (simp add: core_of_def cong: if_cong)
    have "ie_completed (?h e) = ie_completed (as_entries r e)" "ie_resultCh (?h e) = ie_resultCh (as_entries r e)" for e
      by simp_all
    then have "queue_ok (core_of ?r2)" using q1 unfolding r2 queue_ok_def by (simp add: core_of_fields cong: if_cong)
    then obtain g where g: "core_of (resetInflightAttemptStarts ?r2) = (core_of ?r2)\<lparr>c_entries := g\<rparr>"
      "\<forall>e. \<exists>t. g e = (as_entries ?r2 e)\<lparr>ie_attemptStart := t\<rparr>" using core_reset by blast
    have ent2: "as_entries ?r2 = ?h" using arg_cong [OF r2, of c_entries] by (simp add: core_of_fields)
    have ge: "\<exists>t. g e = (?h e)\<lparr>ie_attemptStart := t\<rparr>" for e using g(2) unfolding ent2 by blast
    have core': "core_of r' = (core_of r)\<lparr>c_entries := g, c_attempt := as_currentAttempt r + 1\<rparr>"
      using g(1) r2 by (simp add: r'_eq)
    have "retry_entries (core_of r) g"
      unfolding retry_entries_def
    proof
      fix e obtain t where t: "g e = (?h e)\<lparr>ie_attemptStart := t\<rparr>" using ge by blast
      let ?u = "\<not> isNoSideEffectsError err \<and> wasSentOnSessionLocked (as_entries r e) s"
      have "g e = (c_entries (core_of r) e)\<lparr>ie_attemptStart := t, ie_priorUncertainty :=
          (ie_priorUncertainty (c_entries (core_of r) e) \<or> e \<in> set (c_queue (core_of r)) \<and> ?u)\<rparr>"
        unfolding t by (cases "as_entries r e") (simp add: core_of_fields, blast)
      then show "\<exists>t u. g e = (c_entries (core_of r) e)\<lparr>ie_attemptStart := t, ie_priorUncertainty :=
        (ie_priorUncertainty (c_entries (core_of r) e) \<or> e \<in> set (c_queue (core_of r)) \<and> u)\<rparr>" by blast
    qed
    moreover have "as_inflightQueue r' = as_inflightQueue r"
      using arg_cong [OF core', of c_queue] by (simp add: core_of_fields)
    moreover have "ie_priorUncertainty (g e)" if "e \<in> set (as_inflightQueue r)"
      "wasSentOnSessionLocked (as_entries r e) s" "\<not> isNoSideEffectsError err" for e
      using ge [of e] that by auto
    ultimately show ?thesis using retried core' lim by blast
  qed
qed

end
