(* ===== verification/Append_Session_Steps.thy ===== *)
theory Append_Session_Steps
  imports Append_Session_Inv
begin

text \<open>
  Every step of the append session keeps the invariant of \<open>Append_Session_Inv\<close>: the steps not covered
  there (opening, claiming and resolving failures, timeouts, advised reconnects, closing), the
  interpretation of the invariant on the step relation, and what follows for the session.
\<close>

section \<open>Claims\<close>

lemma core_closeSessionIfUnused:
  assumes "refs_ok (core_of r)"
  shows "core_of (closeSessionIfUnused r s) = core_of r"
proof -
  have "as_sessionRefs r s = ref_of (sent_count (core_of r) s)"
    using assms by (simp add: refs_ok_def core_of_fields)
  then have "(case as_sessionRefs r s of None \<Rightarrow> 0 | Some c \<Rightarrow> c) = 0 \<Longrightarrow> as_sessionRefs r s = None"
    by (simp add: ref_of_def split: if_splits)
  then have "(case as_sessionRefs r s of None \<Rightarrow> 0 | Some c \<Rightarrow> c) = 0 \<Longrightarrow> (as_sessionRefs r)(s := None) = as_sessionRefs r"
    by auto
  then show ?thesis by (simp add: closeSessionIfUnused_def Let_def)
qed

definition claim_core :: "core \<Rightarrow> core" where
  "claim_core c = c\<lparr>c_current := None, c_failures := c_failures c + 1\<rparr>"

lemma claim_core_parts:
  "queue_ok (claim_core c) = queue_ok c" "caps_ok (claim_core c) res = caps_ok c res"
  "refs_ok (claim_core c) = refs_ok c" "acks_ok (claim_core c) = acks_ok c"
  "taint_ok (claim_core c) hist = taint_ok c hist"
  by (simp_all add: claim_core_def queue_ok_def caps_ok_def held_bytes_def refs_ok_def sent_count_def
      acks_ok_def taint_ok_def cong: if_cong)

lemma claim_core_inv:
  assumes inv: "core_inv c y"
  shows "core_inv (claim_core c) (y\<lparr>sy_pending := p # sy_pending y\<rparr>)"
proof -
  have "order_ok (claim_core c) (sy_pump y) (sy_sent y)"
  proof (rule order_ok_mono)
    show "order_ok c (sy_pump y) (sy_sent y)" using inv by (simp add: core_inv_def)
  qed (simp_all add: claim_core_def unsent_def)
  moreover have "ctl_ok (claim_core c) (p # sy_pending y)"
    using inv by (auto simp: core_inv_def ctl_ok_def claim_core_def)
  ultimately show ?thesis using inv by (simp add: core_inv_def claim_core_parts)
qed

lemma claim_core_of:
  "core_of (r\<lparr>as_currentSession := None, as_failuresPending := as_failuresPending r + 1\<rparr>) = claim_core (core_of r)"
  by (simp add: core_of_def claim_core_def)

lemma core_claimSession:
  assumes "refs_ok (core_of r)" "claimSession r s = (claimed, r')"
  shows "core_of r' = (if claimed then claim_core (core_of r) else core_of r)"
  using assms by (auto simp: claimSession_def Let_def core_closeSessionIfUnused claim_core_of claim_core_parts)

lemma claimSession_inv:
  assumes inv: "core_inv (core_of r) y" and cl: "claimSession r s = (claimed, r')"
  shows "core_inv (core_of r') (y\<lparr>sy_pending := (if claimed then (s, err) # sy_pending y else sy_pending y)\<rparr>)"
proof -
  have "refs_ok (core_of r)" using inv by (simp add: core_inv_def)
  from core_claimSession [OF this cl] inv show ?thesis by (auto intro: claim_core_inv)
qed

lemma claim_timeout_inv:
  assumes inv: "core_inv (core_of r) y" and cl: "claim_timeout showDur now r = (Some p, r')"
  shows "core_inv (core_of r') (y\<lparr>sy_pending := p # sy_pending y\<rparr>)"
proof -
  let ?r = "r\<lparr>as_currentSession := None, as_failuresPending := as_failuresPending r + 1\<rparr>"
  have "refs_ok (core_of ?r)" using inv by (simp add: core_inv_def claim_core_of claim_core_parts)
  moreover obtain s where "r' = closeSessionIfUnused ?r s"
    using cl by (auto simp: claim_timeout_def Let_def split: if_splits list.splits option.splits)
  ultimately have "core_of r' = claim_core (core_of r)" by (simp add: core_closeSessionIfUnused claim_core_of)
  with inv show ?thesis by (simp add: claim_core_inv)
qed

section \<open>Resolving a claimed failure\<close>

lemma core_inv_config:
  assumes "core_inv (core_of r) y"
  shows "aso_RetryConfig (as_options r) = Some (session_config r)" "0 \<le> as_currentAttempt r"
    "as_currentAttempt r \<le> clamp_attempts (session_config r) - 1"
  using assms by (auto simp: core_inv_def ctl_ok_def core_of_fields session_config_def)

lemma resolve_pending_inv:
  assumes inv: "core_inv c y" and mem: "p \<in> set (sy_pending y)"
    and hist: "taint_ok c (sy_hist y @ hs)"
  shows "core_inv (c\<lparr>c_failures := c_failures c - 1\<rparr>)
    (y\<lparr>sy_pending := remove1 p (sy_pending y), sy_hist := sy_hist y @ hs\<rparr>)"
proof -
  let ?c = "c\<lparr>c_failures := c_failures c - 1\<rparr>"
  have "0 < length (sy_pending y)" using mem by auto
  then have len: "int (length (remove1 p (sy_pending y))) = int (length (sy_pending y)) - 1"
    using mem by (simp add: length_remove1 of_nat_diff Suc_le_eq)
  have "ctl_ok c (sy_pending y)" using inv by (simp add: core_inv_def)
  then have "ctl_ok ?c (remove1 p (sy_pending y))" using len by (simp add: ctl_ok_def)
  moreover have "order_ok ?c (sy_pump y) (sy_sent y)"
  proof (rule order_ok_mono)
    show "order_ok c (sy_pump y) (sy_sent y)" using inv by (simp add: core_inv_def)
  qed (simp_all add: unsent_def)
  moreover have "queue_ok ?c = queue_ok c" "caps_ok ?c (sy_reserved y) = caps_ok c (sy_reserved y)"
    "refs_ok ?c = refs_ok c" "acks_ok ?c = acks_ok c" "taint_ok ?c (sy_hist y @ hs) = taint_ok c (sy_hist y @ hs)"
    by (simp_all add: queue_ok_def caps_ok_def held_bytes_def refs_ok_def sent_count_def
      acks_ok_def taint_ok_def cong: if_cong)
  ultimately show ?thesis using inv hist by (simp add: core_inv_def)
qed

lemma taint_ok_append:
  "taint_ok c hist \<Longrightarrow> (\<And>e err. (e, err) \<in> set hs \<Longrightarrow> e < c_nextEntry c \<and>
     (ie_priorUncertainty (c_entries c e) \<or> harmless err)) \<Longrightarrow> taint_ok c (hist @ hs)"
  unfolding taint_ok_def by fastforce

lemma retried_after_mem:
  "(e, x) \<in> set (retried_after r r' s err) \<longleftrightarrow> x = err \<and> e \<in> set (as_inflightQueue r) \<and>
     e \<in> set (as_inflightQueue r') \<and> wasSentOnSessionLocked (as_entries r e) s"
  by (auto simp: retried_after_def)

lemma resolve_failure_inv:
  assumes inv: "core_inv (core_of r) y" and r': "r' = resolve_failure rnd now r s err"
  shows "core_inv (core_of r') y \<and> taint_ok (core_of r') (sy_hist y @ retried_after r r' s err)"
  using inv r'
proof (cases rule: resolve_failure_cases)
  case (failed x)
  have "queue_ok (core_of r)" using inv by (simp add: core_inv_def)
  then have "retried_after r r' s err = []" unfolding failed by (simp add: retried_after_def fail_all_queue)
  moreover have "core_inv (core_of r') y" unfolding failed by (rule fail_all_inv [OF inv])
  ultimately show ?thesis by (simp add: core_inv_def)
next
  case (draining g)
  have eq: "(core_of r)\<lparr>c_entries := g\<rparr> = (core_of r)\<lparr>c_entries := g, c_attempt := as_currentAttempt r\<rparr>"
    by (simp add: core_of_def)
  have k: "core_inv (core_of r') y"
    unfolding trans [OF draining(2) eq]
    by (rule retry_entries_inv [OF inv draining(3)])
      (use core_inv_config [OF inv] in \<open>simp add: core_of_fields\<close>)
  have "taint_ok (core_of r') (sy_hist y @ retried_after r r' s err)"
  proof (rule taint_ok_append)
    show "taint_ok (core_of r') (sy_hist y)" using k by (simp add: core_inv_def)
    fix e x assume m: "(e, x) \<in> set (retried_after r r' s err)"
    have "queue_ok (core_of r')" using k by (simp add: core_inv_def)
    with m draining(1) show "e < c_nextEntry (core_of r') \<and> (ie_priorUncertainty (c_entries (core_of r') e) \<or> harmless x)"
      using queue_ok_less [of "core_of r'" e] by (simp add: retried_after_mem harmless_def core_of_fields)
  qed
  with k show ?thesis by blast
next
  case (retried g)
  have k: "core_inv (core_of r') y"
    unfolding retried(1)
    by (rule retry_entries_inv [OF inv retried(2)])
      (use core_inv_config [OF inv] retried(4) in \<open>simp add: core_of_fields\<close>)
  have "taint_ok (core_of r') (sy_hist y @ retried_after r r' s err)"
  proof (rule taint_ok_append)
    show "taint_ok (core_of r') (sy_hist y)" using k by (simp add: core_inv_def)
    fix e x assume m: "(e, x) \<in> set (retried_after r r' s err)"
    have "queue_ok (core_of r')" using k by (simp add: core_inv_def)
    moreover have "c_entries (core_of r') = g" by (simp add: retried(1))
    ultimately show "e < c_nextEntry (core_of r') \<and> (ie_priorUncertainty (c_entries (core_of r') e) \<or> harmless x)"
      using queue_ok_less [of "core_of r'" e] retried(5) [of e] m
      by (auto simp: retried_after_mem harmless_def core_of_fields)
  qed
  with k show ?thesis by blast
qed

lemma core_claimed_error: "core_of (handleClaimedSessionError rnd now r s err) =
    (core_of (resolve_failure rnd now r s err))\<lparr>c_failures := c_failures (core_of (resolve_failure rnd now r s err)) - 1\<rparr>"
  by (simp add: handleClaimedSessionError_def Let_def) (simp add: core_of_def)

lemma claimed_error_queue:
  "as_inflightQueue (handleClaimedSessionError rnd now r s err) = as_inflightQueue (resolve_failure rnd now r s err)"
  by (simp add: handleClaimedSessionError_def Let_def wakeupPump_def)

lemma claimed_error_inv:
  assumes inv: "core_inv (core_of r) y" and mem: "(s, err) \<in> set (sy_pending y)"
    and r': "r' = handleClaimedSessionError rnd now r s err"
  shows "core_inv (core_of r') (y\<lparr>sy_pending := remove1 (s, err) (sy_pending y),
      sy_hist := sy_hist y @ retried_after r r' s err\<rparr>)"
proof -
  let ?q = "resolve_failure rnd now r s err"
  have same: "retried_after r r' s err = retried_after r ?q s err"
    by (simp add: r' retried_after_def claimed_error_queue)
  from resolve_failure_inv [OF inv refl] have q: "core_inv (core_of ?q) y"
    "taint_ok (core_of ?q) (sy_hist y @ retried_after r ?q s err)" by blast+
  from resolve_pending_inv [OF q(1) mem q(2)] show ?thesis
    unfolding r' core_claimed_error using same by (simp add: r')
qed

section \<open>Reserving, opening, acknowledging, closing\<close>

lemma reserve_inv:
  assumes inv: "core_inv (core_of r) y" and sz: "0 \<le> sz"
    and grant: "tryReserve (as_capacity r) ctxErr sz = (Inr True, c) \<or>
      sz \<le> ct_maxBytes (as_capacity r) \<and> reserve_wait sz [(as_capacity r, ctxErr)] = Some (None, c)"
  shows "core_inv (core_of (r\<lparr>as_capacity := c\<rparr>)) (y\<lparr>sy_reserved := (input, sz) # sy_reserved y\<rparr>)"
proof -
  let ?c = "(core_of r)\<lparr>c_capacity := c\<rparr>"
  have led: "ledger_inv (as_capacity r, held_bytes (core_of r) (sy_reserved y))"
    using inv by (simp add: core_inv_def caps_ok_def core_of_fields)
  then have "tracker_ok (as_capacity r)" by (simp add: ledger_inv_def)
  then have c: "c = reserveLocked (as_capacity r) sz \<and> sz \<le> ct_maxBytes (as_capacity r) \<and>
      hasCapacity (as_capacity r) sz \<and> \<not> ct_closed (as_capacity r)"
    using grant tryReserve_granted reserve_wait_granted by blast
  then have "ledger_inv (c, sz # held_bytes (core_of r) (sy_reserved y))"
    using ledger_grant [OF led sz] by blast
  then have "caps_ok ?c ((input, sz) # sy_reserved y)"
    by (auto simp: caps_ok_def held_bytes_def elim!: ledger_inv_perm)
  moreover have "ctl_ok ?c (sy_pending y)"
  proof -
    have "ctl_ok (core_of r) (sy_pending y)" using inv by (simp add: core_inv_def)
    then show ?thesis using c by (auto simp: ctl_ok_def core_of_fields)
  qed
  moreover have "order_ok ?c (sy_pump y) (sy_sent y)"
  proof (rule order_ok_mono)
    show "order_ok (core_of r) (sy_pump y) (sy_sent y)" using inv by (simp add: core_inv_def)
  qed (simp_all add: unsent_def)
  moreover have "queue_ok ?c = queue_ok (core_of r)" "refs_ok ?c = refs_ok (core_of r)"
    "acks_ok ?c = acks_ok (core_of r)" "taint_ok ?c (sy_hist y) = taint_ok (core_of r) (sy_hist y)"
    by (simp_all add: queue_ok_def refs_ok_def sent_count_def acks_ok_def taint_ok_def cong: if_cong)
  ultimately have "core_inv ?c (y\<lparr>sy_reserved := (input, sz) # sy_reserved y\<rparr>)"
    using inv by (simp add: core_inv_def)
  moreover have "core_of (r\<lparr>as_capacity := c\<rparr>) = ?c" by (simp add: core_of_def)
  ultimately show ?thesis by simp
qed

lemma submit_reserved_inv:
  assumes inv: "core_inv (core_of r) y" and mem: "(input, sz) \<in> set (sy_reserved y)"
  shows "core_inv (core_of (snd (submit_reserved r input sz))) (y\<lparr>sy_reserved := remove1 (input, sz) (sy_reserved y)\<rparr>)"
proof (cases "as_closing r")
  case False
  have "snd (submit_reserved r input sz) = snd (enqueueReservedEntry r input sz)"
    by (auto simp: submit_reserved_def split: prod.splits sum.splits) (simp add: enqueueReservedEntry_def False Let_def)
  with False show ?thesis using enqueue_core_inv [OF inv mem] by (simp add: core_enqueue core_of_fields)
next
  case True
  let ?cap = "release (as_capacity r) sz" and ?res = "remove1 (input, sz) (sy_reserved y)"
  let ?c = "(core_of r)\<lparr>c_capacity := ?cap\<rparr>"
  have "mset (held_bytes (core_of r) (sy_reserved y)) = mset (sz # held_bytes ?c ?res)"
    using mset_map_remove1 [OF mem, of snd] by (simp add: held_bytes_def)
  moreover have "ledger_inv (as_capacity r, held_bytes (core_of r) (sy_reserved y))"
    using inv by (simp add: core_inv_def caps_ok_def core_of_fields)
  ultimately have "caps_ok ?c ?res" using ledger_release_cons by (simp add: caps_ok_def)
  moreover have "ctl_ok ?c (sy_pending y)"
    using inv by (simp add: core_inv_def ctl_ok_def core_of_fields)
  moreover have "order_ok ?c (sy_pump y) (sy_sent y)"
  proof (rule order_ok_mono)
    show "order_ok (core_of r) (sy_pump y) (sy_sent y)" using inv by (simp add: core_inv_def)
  qed (simp_all add: unsent_def)
  moreover have "queue_ok ?c = queue_ok (core_of r)" "refs_ok ?c = refs_ok (core_of r)"
    "acks_ok ?c = acks_ok (core_of r)" "taint_ok ?c (sy_hist y) = taint_ok (core_of r) (sy_hist y)"
    by (simp_all add: queue_ok_def refs_ok_def sent_count_def acks_ok_def taint_ok_def cong: if_cong)
  ultimately have "core_inv ?c (y\<lparr>sy_reserved := ?res\<rparr>)" using inv by (simp add: core_inv_def)
  moreover have "core_of (snd (submit_reserved r input sz)) = ?c"
    using True by (simp add: submit_reserved_def enqueueReservedEntry_def core_of_def)
  ultimately show ?thesis by simp
qed

lemma getSession_Some: "getSession startErr r = (Some err, r') \<Longrightarrow> r' = r"
  by (auto simp: getSession_def Let_def split: if_splits option.splits)

lemma core_getSession:
  "getSession startErr r = (None, r') \<Longrightarrow> core_of r' = core_of r \<or>
     core_of r' = (core_of r)\<lparr>c_nextSession := as_nextSession r + 1, c_current := Some (as_nextSession r)\<rparr>"
  by (auto simp: getSession_def Let_def core_of_def split: if_splits option.splits)

lemma open_core_inv:
  assumes inv: "core_inv c y"
  shows "core_inv (c\<lparr>c_nextSession := c_nextSession c + 1, c_current := Some (c_nextSession c)\<rparr>) y"
proof -
  let ?c = "c\<lparr>c_nextSession := c_nextSession c + 1, c_current := Some (c_nextSession c)\<rparr>"
  have o: "order_ok c (sy_pump y) (sy_sent y)" and q: "queue_ok c" using inv by (simp_all add: core_inv_def)
  have uns: "unsent ?c s = unsent c s" for s by (simp add: unsent_def)
  have "sent_on (sy_sent y) (c_nextSession c) = []"
    using o by (fastforce simp: order_ok_def sent_on_def filter_empty_conv)
  then have "ahead ?c (sy_sent y) (c_nextSession c)" by (simp add: ahead_def)
  moreover have "ahead ?c (sy_sent y) s = ahead c (sy_sent y) s" for s unfolding ahead_def uns by simp
  moreover have "scanning ?c (sy_pump y)"
    using o by (cases "sy_pump y") (auto simp: order_ok_def scan_ok_def uns [unfolded Suc_eq_plus1 [symmetric]])
  ultimately have "order_ok ?c (sy_pump y) (sy_sent y)" using o by (auto simp: order_ok_def)
  moreover have "ctl_ok ?c (sy_pending y)" using inv by (simp add: core_inv_def ctl_ok_def)
  moreover have "refs_ok ?c" using inv by (fastforce simp: core_inv_def refs_ok_def sent_count_def)
  moreover have "queue_ok ?c = queue_ok c" "caps_ok ?c (sy_reserved y) = caps_ok c (sy_reserved y)"
    "acks_ok ?c = acks_ok c" "taint_ok ?c (sy_hist y) = taint_ok c (sy_hist y)"
    by (simp_all add: queue_ok_def caps_ok_def held_bytes_def acks_ok_def taint_ok_def cong: if_cong)
  ultimately show ?thesis using inv by (simp add: core_inv_def)
qed

lemma getSession_inv: "core_inv (core_of r) y \<Longrightarrow> getSession startErr r = (None, r') \<Longrightarrow> core_inv (core_of r') y"
  using core_getSession [of startErr r r'] open_core_inv [of "core_of r" y] by (auto simp: core_of_fields)

lemma attempt_core_inv:
  assumes inv: "core_inv c y" and n: "ctl_ok (c\<lparr>c_attempt := n\<rparr>) (sy_pending y)"
  shows "core_inv (c\<lparr>c_attempt := n\<rparr>) y"
proof -
  have "order_ok (c\<lparr>c_attempt := n\<rparr>) (sy_pump y) (sy_sent y)"
  proof (rule order_ok_mono)
    show "order_ok c (sy_pump y) (sy_sent y)" using inv by (simp add: core_inv_def)
  qed (simp_all add: unsent_def)
  moreover have "queue_ok (c\<lparr>c_attempt := n\<rparr>) = queue_ok c" "refs_ok (c\<lparr>c_attempt := n\<rparr>) = refs_ok c"
    "caps_ok (c\<lparr>c_attempt := n\<rparr>) (sy_reserved y) = caps_ok c (sy_reserved y)"
    "acks_ok (c\<lparr>c_attempt := n\<rparr>) = acks_ok c" "taint_ok (c\<lparr>c_attempt := n\<rparr>) (sy_hist y) = taint_ok c (sy_hist y)"
    by (simp_all add: queue_ok_def caps_ok_def held_bytes_def refs_ok_def sent_count_def acks_ok_def taint_ok_def cong: if_cong)
  ultimately show ?thesis using inv n by (simp add: core_inv_def)
qed

lemma start_error_inv:
  assumes inv: "core_inv (core_of r) y"
  shows "core_inv (core_of (handle_start_error rnd now r err)) y"
proof -
  have "core_inv (core_of (handleSessionStartError rnd now r err)) y"
  proof (cases "as_currentAttempt r \<ge> clamp_attempts (session_config r) - 1")
    case False
    have eq: "core_of (r\<lparr>as_currentAttempt := n\<rparr>) = (core_of r)\<lparr>c_attempt := n\<rparr>" for n by (simp add: core_of_def)
    have "ctl_ok (core_of r) (sy_pending y)" using inv by (simp add: core_inv_def)
    then have "ctl_ok ((core_of r)\<lparr>c_attempt := as_currentAttempt r + 1\<rparr>) (sy_pending y)"
      using False core_inv_config [OF inv] by (simp add: ctl_ok_def core_of_fields)
    with False show ?thesis by (simp add: handleSessionStartError_def eq attempt_core_inv [OF inv])
  qed (simp add: handleSessionStartError_def fail_all_inv [OF inv])
  then show ?thesis by (simp add: handle_start_error_def fail_all_inv [OF inv] del: option.case_cong)
qed

lemma validateAckLocked_None:
  assumes "validateAckLocked r en (Some a) = None"
  shows "ack_fits en a" "\<And>l. as_lastAckedPosition r = Some l \<Longrightarrow> ack_end l < ack_end a"
  using assms
  by (auto simp: validateAckLocked_def ack_fits_def ack_end_def Let_def not_less not_le word_less_nat_alt
      word_le_nat_alt split: if_splits option.splits)

lemma handleAck_cases:
  obtains (ignored) "handleAck r s ack = r"
  | (invalid) e rest err where "as_inflightQueue r = e # rest" "wasSentOnSessionLocked (as_entries r e) s"
      "\<not> stale_ack r ack" "validateAckLocked r (as_entries r e) ack = Some err"
      "handleAck r s ack = failAllInflight r err"
  | (completes) e rest a where "as_inflightQueue r = e # rest" "ack = Some a"
      "wasSentOnSessionLocked (as_entries r e) s" "\<not> ie_completed (as_entries r e)"
      "validateAckLocked r (as_entries r e) ack = None" "handleAck r s ack = complete_head r s e rest a"
proof (cases "as_inflightQueue r")
  case (Cons e rest)
  show ?thesis
  proof (cases "\<not> wasSentOnSessionLocked (as_entries r e) s \<or> stale_ack r ack \<or> ie_completed (as_entries r e) \<and>
      validateAckLocked r (as_entries r e) ack = None")
    case True
    then have "handleAck r s ack = r" using Cons by (auto simp: handleAck_def split: option.splits)
    then show ?thesis by (rule ignored)
  next
    case False
    then show ?thesis
      using Cons invalid completes ignored
      by (cases "validateAckLocked r (as_entries r e) ack"; cases ack) (simp_all add: handleAck_def)
  qed
qed (simp add: handleAck_def ignored)

lemma handleAck_inv:
  assumes inv: "core_inv (core_of r) y"
  shows "core_inv (core_of (handleAck r s ack)) y"
proof (cases rule: handleAck_cases [of r s ack])
  case (completes e rest a)
  have v: "validateAckLocked r (as_entries r e) (Some a) = None" using completes by simp
  show ?thesis unfolding completes(6) core_complete_head
    by (rule complete_core_inv [OF inv])
      (use completes(1) validateAckLocked_None [OF v] in \<open>simp_all add: core_of_fields\<close>)
qed (use inv fail_all_inv in auto)

lemma advice_inv:
  assumes inv: "core_inv (core_of r) y" and idle: "\<not> as_closed r" "\<not> hasUnackedOnSession r s"
  shows "core_inv (core_of (handleReconnectAdvice rnd now r s)) y"
proof -
  have refs: "refs_ok (core_of r)" using inv by (simp add: core_inv_def)
  let ?c = "(core_of r)\<lparr>c_current := None\<rparr>"
  have "order_ok ?c (sy_pump y) (sy_sent y)"
  proof (rule order_ok_mono)
    show "order_ok (core_of r) (sy_pump y) (sy_sent y)" using inv by (simp add: core_inv_def)
  qed (simp_all add: unsent_def)
  moreover have parts: "queue_ok ?c = queue_ok (core_of r)" "refs_ok ?c = refs_ok (core_of r)"
    "caps_ok ?c (sy_reserved y) = caps_ok (core_of r) (sy_reserved y)"
    "acks_ok ?c = acks_ok (core_of r)" "taint_ok ?c (sy_hist y) = taint_ok (core_of r) (sy_hist y)"
    by (simp_all add: queue_ok_def caps_ok_def held_bytes_def refs_ok_def sent_count_def acks_ok_def taint_ok_def cong: if_cong)
  moreover have "ctl_ok ?c (sy_pending y)" using inv by (simp add: core_inv_def ctl_ok_def)
  ultimately have dropped: "core_inv ?c y" using inv by (simp add: core_inv_def)
  have eq: "core_of (r\<lparr>as_currentSession := None\<rparr>) = ?c" by (simp add: core_of_def)
  show ?thesis using inv dropped refs idle
    by (simp add: handleReconnectAdvice_def Let_def core_closeSessionIfUnused eq parts)
qed

lemma close_begin_inv:
  assumes inv: "core_inv (core_of r) y"
  shows "core_inv (core_of (close_begin r)) y"
proof -
  let ?c = "(core_of r)\<lparr>c_closing := True, c_capacity := Close_capacity (as_capacity r)\<rparr>"
  have "order_ok ?c (sy_pump y) (sy_sent y)"
  proof (rule order_ok_mono)
    show "order_ok (core_of r) (sy_pump y) (sy_sent y)" using inv by (simp add: core_inv_def)
  qed (simp_all add: unsent_def)
  moreover have "queue_ok ?c = queue_ok (core_of r)" "refs_ok ?c = refs_ok (core_of r)"
    "acks_ok ?c = acks_ok (core_of r)" "taint_ok ?c (sy_hist y) = taint_ok (core_of r) (sy_hist y)"
    by (simp_all add: queue_ok_def refs_ok_def sent_count_def acks_ok_def taint_ok_def cong: if_cong)
  moreover have "caps_ok ?c (sy_reserved y)"
    using inv by (simp add: core_inv_def caps_ok_def held_bytes_def ledger_close core_of_fields)
  moreover have "ctl_ok ?c (sy_pending y)" using inv by (simp add: core_inv_def ctl_ok_def core_of_fields)
  ultimately have "core_inv ?c y" using inv by (simp add: core_inv_def)
  moreover have "core_of (close_begin r) = ?c"
    unfolding close_begin_def core_wakeupPump by (simp add: core_of_def)
  ultimately show ?thesis by simp
qed

lemma close_finish_inv:
  assumes inv: "core_inv (core_of r) y" and closing: "as_closing r"
  shows "core_inv (core_of (close_finish r)) y"
proof -
  have "queue_ok (core_of r)" using inv by (simp add: core_inv_def)
  moreover have "ct_closed (c_capacity (core_of r))"
    using inv closing by (simp add: core_inv_def ctl_ok_def core_of_fields)
  ultimately show ?thesis using fail_core_inv [OF inv, of _ False] closing by (simp add: core_close_finish)
qed

section \<open>The step relation keeps the invariant\<close>

lemma core_same:
  "core_of (snd (pump_gate now r)) = core_of r" "core_of (snd (shouldStopPump r)) = core_of r"
  "core_of (snd (write_entry env during writeErr r s e)) = core_of r"
  by (simp_all add: pump_gate_def shouldStopPump_def write_entry_def Let_def split_beta)

lemma session_invI:
  "core_inv (core_of r') z \<Longrightarrow> y' = z\<lparr>sy_r := r'\<rparr> \<Longrightarrow> session_inv y'"
  by (simp add: session_inv_core core_inv_def)

lemma core_write_entry:
  "write_entry env during writeErr r s e = (res, r') \<Longrightarrow> core_of r' = core_of r"
  using core_same(3) [of env during writeErr r s e] by simp

lemma session_step_inv:
  assumes inv': "session_inv y" and step: "session_step y y'"
  shows "session_inv y'"
proof -
  have inv: "core_inv (core_of (sy_r y)) y" using inv' by (simp add: session_inv_core)
  from step show ?thesis
  proof cases
    case (ss_reserve input sz ctxErr c)
    show ?thesis by (rule session_invI [OF reserve_inv [OF inv ss_reserve(3,4), of input]]) (use ss_reserve(1) in simp)
  next
    case (ss_enqueue input sz)
    show ?thesis by (rule session_invI [OF submit_reserved_inv [OF inv ss_enqueue(2)]]) (use ss_enqueue(1) in simp)
  next
    case (ss_gate now)
    show ?thesis by (rule session_invI [OF _ ss_gate(1)]) (use inv in \<open>simp add: core_same\<close>)
  next
    case (ss_open startErr r)
    show ?thesis by (rule session_invI [OF getSession_inv [OF inv ss_open(2)] ss_open(1)])
  next
    case (ss_open_failed startErr err r rnd now)
    show ?thesis using ss_open_failed(1) unfolding getSession_Some [OF ss_open_failed(2)]
      by (rule session_invI [OF start_error_inv [OF inv]])
  next
    case (ss_snapshot s es)
    have "as_currentSession (sy_r y) = Some s" "es = as_inflightQueue (sy_r y)"
      using ss_snapshot(3) by (auto simp: submit_snapshot_def split: option.splits if_splits)
    then have "core_inv (core_of (sy_r y)) (y\<lparr>sy_pump := PScan s es\<rparr>)"
      using snapshot_inv [OF inv, of s] by (simp add: core_of_fields)
    then show ?thesis by (rule session_invI) (use ss_snapshot(1) in simp)
  next
    case (ss_skip s e es now r)
    note r = mark_sent_False [OF ss_skip(3)]
    have "core_inv (core_of (sy_r y)) (y\<lparr>sy_pump := PScan s es\<rparr>)"
      by (rule skip_inv [OF inv ss_skip(2)]) (use r in \<open>auto simp: wasSentOnSessionLocked_def core_of_fields\<close>)
    then show ?thesis by (rule session_invI) (use ss_skip(1) r in simp)
  next
    case (ss_mark s e es now r)
    obtain t where "core_of r = mark_core s e t (core_of (sy_r y))" using core_mark_sent(1) [OF ss_mark(3)] by blast
    moreover have "core_inv (mark_core s e t (core_of (sy_r y)))
        (y\<lparr>sy_pump := PWrite s e es, sy_sent := sy_sent y @ [(s, e)]\<rparr>)"
      by (rule mark_core_inv [OF inv ss_mark(2)]) (use core_mark_sent(2,3) [OF ss_mark(3)] in \<open>simp_all add: core_of_fields\<close>)
    ultimately have "core_inv (core_of r) (y\<lparr>sy_pump := PWrite s e es, sy_sent := sy_sent y @ [(s, e)]\<rparr>)" by simp
    then show ?thesis by (rule session_invI) (use ss_mark(1) in simp)
  next
    case (ss_write s e es env during writeErr r)
    have "core_inv (core_of r) (y\<lparr>sy_pump := PScan s es\<rparr>)"
      using inv ss_write(2) unfolding core_write_entry [OF ss_write(3)] by (simp add: core_inv_def order_ok_def)
    then show ?thesis by (rule session_invI) (use ss_write(1) in simp)
  next
    case (ss_write_failed s e es env during writeErr err r claimed r')
    have "core_inv (core_of r) (y\<lparr>sy_pump := PIdle\<rparr>)"
      unfolding core_write_entry [OF ss_write_failed(3)] by (rule pump_idle_inv [OF inv])
    from claimSession_inv [OF this ss_write_failed(5), of err] show ?thesis
      by (rule session_invI) (use ss_write_failed(1) in simp)
  next
    case (ss_write_closed s e es env during writeErr err r)
    have "core_inv (core_of r) (y\<lparr>sy_pump := PIdle\<rparr>)"
      unfolding core_write_entry [OF ss_write_closed(3)] by (rule pump_idle_inv [OF inv])
    then show ?thesis by (rule session_invI) (use ss_write_closed(1) in simp)
  next
    case (ss_scanned s)
    show ?thesis by (rule session_invI [OF pump_idle_inv [OF inv]]) (use ss_scanned(1) in simp)
  next
    case (ss_ack s ack)
    show ?thesis by (rule session_invI [OF handleAck_inv [OF inv] ss_ack(1)])
  next
    case (ss_transport f s)
    show ?thesis by (rule session_invI [OF _ ss_transport(1)]) (use inv in simp)
  next
    case ss_wakeup
    show ?thesis by (rule session_invI [OF _ ss_wakeup(1)]) (use inv in simp)
  next
    case ss_woken
    show ?thesis by (rule session_invI [OF _ ss_woken(1)]) (use inv in simp)
  next
    case (ss_claim s claimed r err)
    show ?thesis by (rule session_invI [OF claimSession_inv [OF inv ss_claim(3), of err]]) (use ss_claim(1) in simp)
  next
    case (ss_timeout showDur now s err r)
    show ?thesis by (rule session_invI [OF claim_timeout_inv [OF inv ss_timeout(2)]]) (use ss_timeout(1) in simp)
  next
    case (ss_resolve s err r rnd now)
    show ?thesis by (rule session_invI [OF claimed_error_inv [OF inv ss_resolve(2,3)]]) (use ss_resolve(1) in simp)
  next
    case (ss_advice s rnd now)
    show ?thesis by (rule session_invI [OF advice_inv [OF inv ss_advice(2,3)] ss_advice(1)])
  next
    case ss_stop
    show ?thesis by (rule session_invI [OF _ ss_stop(1)]) (use inv in \<open>simp add: core_same\<close>)
  next
    case ss_cancelled
    show ?thesis by (rule session_invI [OF fail_all_inv [OF inv] ss_cancelled(1)])
  next
    case ss_ctx_cancelled
    show ?thesis by (rule session_invI [OF _ ss_ctx_cancelled(1)]) (use inv in simp)
  next
    case ss_close_begin
    show ?thesis by (rule session_invI [OF close_begin_inv [OF inv] ss_close_begin(1)])
  next
    case ss_close_finish
    show ?thesis by (rule session_invI [OF close_finish_inv [OF inv ss_close_finish(3)] ss_close_finish(1)])
  qed
qed

section \<open>Starting\<close>

definition new_sys :: "AppendSession \<Rightarrow> session_sys" where
  "new_sys r = \<lparr>sy_r = r, sy_reserved = [], sy_pump = PIdle, sy_pending = [], sy_hist = [], sy_sent = []\<rparr>"

text \<open>A byte limit of \<open>2 ^ 62\<close> or more would let the sum of two admitted batches leave \<open>int64\<close>.\<close>

definition session_init ::
    "AppendSessionOptions option \<Rightarrow> RetryConfig option \<Rightarrow> duration \<Rightarrow> session_sys \<Rightarrow> bool" where
  "session_init opts base timeout y \<longleftrightarrow> (\<exists>r. NewAppendSession opts base timeout = Inr r \<and>
     uint (aso_MaxInflightBytes (as_options r)) < 2 ^ 62 \<and> y = new_sys r)"

lemma defaults_Inr:
  assumes "applyAppendSessionDefaults opts base = Inr o'"
  shows "\<exists>c. aso_RetryConfig o' = Some c \<and> minInflightBytes \<le> aso_MaxInflightBytes o'"
proof -
  let ?o1 = "case opts of None \<Rightarrow> \<lparr>aso_MaxInflightBytes = 0, aso_MaxInflightBatches = 0,
    aso_RetryConfig = None, aso_StreamConfig = None\<rparr> | Some p \<Rightarrow> p"
  have "applyAppendSessionDefaults (Some ?o1) base = Inr o'"
    using assms by (simp add: applyAppendSessionDefaults_def Let_def split: option.splits)
  from this [unfolded applyAppendSessionDefaults_Inr] show ?thesis
    by (auto simp: minInflightBytes_def defaultMaxInflightBytes_def)
qed

lemma sint_below: "uint (w::u64) < 2 ^ 62 \<Longrightarrow> sint w = uint w"
  by (simp add: sint_uint signed_take_bit_eq_take_bit_minus bit_iff_odd take_bit_int_eq_self)

lemma session_init_inv: "session_init opts base timeout y \<Longrightarrow> session_inv y"
proof -
  assume "session_init opts base timeout y"
  then obtain r where r: "NewAppendSession opts base timeout = Inr r"
    "uint (aso_MaxInflightBytes (as_options r)) < 2 ^ 62" "y = new_sys r" by (auto simp: session_init_def)
  obtain o' where o': "applyAppendSessionDefaults opts base = Inr o'"
    using r(1) by (auto simp: NewAppendSession_def split: sum.splits)
  obtain c where c: "aso_RetryConfig o' = Some c" "minInflightBytes \<le> aso_MaxInflightBytes o'"
    using defaults_Inr [OF o'] by blast
  have opts: "as_options r = o'" and start: "as_inflightQueue r = []" "as_nextEntry r = 0" "as_sessionRefs r = (\<lambda>_. None)"
    "as_capacity r = newCapacityTracker (sint (aso_MaxInflightBytes o')) (uint (aso_MaxInflightBatches o'))"
    "as_currentSession r = None" "as_failuresPending r = 0" "\<not> as_closed r" "\<not> as_closing r" "as_currentAttempt r = 0"
    using r(1) o' by (auto simp: NewAppendSession_def)
  have "uint minInflightBytes \<le> uint (aso_MaxInflightBytes o')" using c(2) by (simp add: word_le_def)
  moreover have "uint (aso_MaxInflightBatches o') < 2 ^ 32" using uint_lt2p [of "aso_MaxInflightBatches o'"] by simp
  ultimately have "tracker_ok (as_capacity r)"
    using r(2) sint_below [of "aso_MaxInflightBytes o'"]
    by (simp add: start opts tracker_ok_def newCapacityTracker_def minInflightBytes_def)
  then have "caps_ok (core_of r) []"
    by (simp add: caps_ok_def held_bytes_def ledger_inv_def core_of_fields start newCapacityTracker_def)
  moreover have "1 \<le> clamp_attempts c" by (simp add: clamp_attempts_def)
  moreover have "ct_maxBytes (as_capacity r) = uint (aso_MaxInflightBytes o')"
    "ct_maxItems (as_capacity r) = uint (aso_MaxInflightBatches o')"
    using r(2) sint_below [of "aso_MaxInflightBytes o'"] by (simp_all add: start opts newCapacityTracker_def)
  ultimately show ?thesis
    by (simp add: r(3) new_sys_def session_inv_core core_inv_def queue_ok_def core_of_fields start opts c refs_ok_def
      sent_count_def ref_of_def acks_ok_def taint_ok_def ctl_ok_def order_ok_def sent_on_def)
qed

section \<open>What never changes back\<close>

text \<open>Entries are only added, with the number of records of their input as expected count, an entry keeps its input, a result once delivered stays, the session
  stays closed, and the acknowledged position only grows.\<close>

definition count_ok :: "core \<Rightarrow> bool" where
  "count_ok c \<longleftrightarrow> (\<forall>e<c_nextEntry c. ie_expectedCount (c_entries c e) = length (ai_Records (ie_input (c_entries c e))))"

definition core_le :: "core \<Rightarrow> core \<Rightarrow> bool" where
  "core_le c c' \<longleftrightarrow> (count_ok c \<longrightarrow> count_ok c') \<and> c_nextEntry c \<le> c_nextEntry c' \<and> c_options c' = c_options c \<and>
     (\<forall>e<c_nextEntry c. ie_input (c_entries c' e) = ie_input (c_entries c e) \<and>
        prefix (ie_resultCh (c_entries c e)) (ie_resultCh (c_entries c' e))) \<and>
     (c_closing c \<longrightarrow> c_closing c') \<and> (c_closed c \<longrightarrow> c_closed c') \<and>
     (\<forall>l. c_lastAcked c = Some l \<longrightarrow> (\<exists>l'. c_lastAcked c' = Some l' \<and> ack_end l \<le> ack_end l'))"

definition session_le :: "session_sys \<Rightarrow> session_sys \<Rightarrow> bool" where
  "session_le y y' \<longleftrightarrow> core_le (core_of (sy_r y)) (core_of (sy_r y')) \<and>
     prefix (sy_hist y) (sy_hist y') \<and> prefix (sy_sent y) (sy_sent y')"

lemma core_le_refl [simp]: "core_le c c"
  by (simp add: core_le_def)

lemma core_le_trans:
  assumes ab: "core_le a b" and bc: "core_le b c"
  shows "core_le a c"
proof -
  have e: "ie_input (c_entries c e) = ie_input (c_entries a e) \<and>
      prefix (ie_resultCh (c_entries a e)) (ie_resultCh (c_entries c e))" if "e < c_nextEntry a" for e
  proof -
    have "e < c_nextEntry b" using ab that by (simp add: core_le_def)
    then have b: "ie_input (c_entries c e) = ie_input (c_entries b e)"
      "prefix (ie_resultCh (c_entries b e)) (ie_resultCh (c_entries c e))" using bc by (simp_all add: core_le_def)
    have a: "ie_input (c_entries b e) = ie_input (c_entries a e)"
      "prefix (ie_resultCh (c_entries a e)) (ie_resultCh (c_entries b e))" using ab that by (simp_all add: core_le_def)
    from a b show ?thesis by (auto intro: prefix_order.trans)
  qed
  have l: "\<exists>l'. c_lastAcked c = Some l' \<and> ack_end l \<le> ack_end l'" if l: "c_lastAcked a = Some l" for l
  proof -
    obtain l' where l': "c_lastAcked b = Some l'" "ack_end l \<le> ack_end l'" using ab l unfolding core_le_def by blast
    then obtain l'' where "c_lastAcked c = Some l''" "ack_end l' \<le> ack_end l''" using bc unfolding core_le_def by blast
    with l' show ?thesis by auto
  qed
  have "count_ok a \<longrightarrow> count_ok c" "c_nextEntry a \<le> c_nextEntry c" "c_options c = c_options a" "c_closing a \<longrightarrow> c_closing c" "c_closed a \<longrightarrow> c_closed c"
    using ab bc by (auto simp: core_le_def)
  with e l show ?thesis unfolding core_le_def by blast
qed

lemma core_le_frame [simp]:
  "core_le c (c\<lparr>c_capacity := x\<rparr>)" "core_le c (c\<lparr>c_attempt := n\<rparr>)" "core_le c (c\<lparr>c_current := z\<rparr>)"
  "core_le c (c\<lparr>c_nextSession := k, c_current := z\<rparr>)" "core_le c (claim_core c)" "core_le c (c\<lparr>c_failures := i\<rparr>)"
  "core_le c (c\<lparr>c_closing := True, c_capacity := x\<rparr>)"
  by (simp_all add: core_le_def count_ok_def claim_core_def)

lemma core_le_blocks [simp]:
  "core_le c (fail_core f cl c)" "core_le c (enqueue_core (new_entry input sz timeout) c)" "core_le c (mark_core s e t c)"
  by (auto simp: core_le_def count_ok_def fail_core_def enqueue_core_def new_entry_def mark_core_def Let_def)

lemma core_le_complete:
  assumes "\<And>l. c_lastAcked c = Some l \<Longrightarrow> ack_end l < ack_end ack"
  shows "core_le c (complete_core e rest ack c)"
  using assms by (auto simp: core_le_def count_ok_def complete_core_def less_imp_le)

lemma core_le_retry:
  assumes "retry_entries c g"
  shows "core_le c (c\<lparr>c_entries := g, c_attempt := n\<rparr>)" "core_le c (c\<lparr>c_entries := g\<rparr>)"
proof -
  have "ie_input (g e) = ie_input (c_entries c e) \<and> ie_resultCh (g e) = ie_resultCh (c_entries c e) \<and>
      ie_expectedCount (g e) = ie_expectedCount (c_entries c e)" for e
  proof -
    obtain t u where "g e = (c_entries c e)\<lparr>ie_attemptStart := t,
       ie_priorUncertainty := (ie_priorUncertainty (c_entries c e) \<or> e \<in> set (c_queue c) \<and> u)\<rparr>"
      using assms unfolding retry_entries_def by blast
    then show ?thesis by simp
  qed
  then show "core_le c (c\<lparr>c_entries := g, c_attempt := n\<rparr>)" "core_le c (c\<lparr>c_entries := g\<rparr>)"
    by (simp_all add: core_le_def count_ok_def)
qed

lemma fail_all_le: "queue_ok (core_of r) \<Longrightarrow> core_le (core_of r) (core_of (failAllInflight r err))"
  by (simp add: core_failAllInflight)

lemma submit_reserved_le: "core_le (core_of r) (core_of (snd (submit_reserved r input sz)))"
proof (cases "as_closing r")
  case True
  then have "core_of (snd (submit_reserved r input sz)) = (core_of r)\<lparr>c_capacity := release (as_capacity r) sz\<rparr>"
    by (simp add: submit_reserved_def enqueueReservedEntry_def core_of_def)
  then show ?thesis by simp
next
  case False
  then have "snd (submit_reserved r input sz) = snd (enqueueReservedEntry r input sz)"
    by (auto simp: submit_reserved_def enqueueReservedEntry_def Let_def)
  with False show ?thesis by (simp add: core_enqueue)
qed

lemma start_error_le: "queue_ok (core_of r) \<Longrightarrow> core_le (core_of r) (core_of (handle_start_error rnd now r err))"
proof -
  assume q: "queue_ok (core_of r)"
  have "core_of (r\<lparr>as_currentAttempt := n\<rparr>) = (core_of r)\<lparr>c_attempt := n\<rparr>" for n by (simp add: core_of_def)
  then show ?thesis using fail_all_le [OF q] by (simp add: handle_start_error_def handleSessionStartError_def)
qed

lemma handleAck_le:
  assumes "queue_ok (core_of r)"
  shows "core_le (core_of r) (core_of (handleAck r s ack))"
proof (cases rule: handleAck_cases [of r s ack])
  case (completes e rest a)
  have v: "validateAckLocked r (as_entries r e) (Some a) = None" using completes by simp
  show ?thesis unfolding completes(6) core_complete_head
    by (rule core_le_complete) (use validateAckLocked_None(2) [OF v] in \<open>simp add: core_of_fields\<close>)
qed (use fail_all_le [OF assms] in simp_all)

lemma claimed_error_le:
  assumes inv: "core_inv (core_of r) y"
  shows "core_le (core_of r) (core_of (handleClaimedSessionError rnd now r s err))"
proof -
  define q where "q = resolve_failure rnd now r s err"
  have "core_le (core_of r) (core_of q)"
    using inv q_def
  proof (cases rule: resolve_failure_cases)
    case (failed x)
    have "queue_ok (core_of r)" using inv by (simp add: core_inv_def)
    then show ?thesis unfolding failed by (rule fail_all_le)
  next
    case (draining g)
    then show ?thesis by (simp add: core_le_retry)
  next
    case (retried g)
    then show ?thesis by (simp add: core_le_retry)
  qed
  then show ?thesis unfolding core_claimed_error q_def by (rule core_le_trans) simp
qed

lemma advice_le:
  assumes "refs_ok (core_of r)" "\<not> as_closed r" "\<not> hasUnackedOnSession r s"
  shows "core_le (core_of r) (core_of (handleReconnectAdvice rnd now r s))"
proof -
  have eq: "core_of (r\<lparr>as_currentSession := None\<rparr>) = (core_of r)\<lparr>c_current := None\<rparr>" by (simp add: core_of_def)
  have "refs_ok ((core_of r)\<lparr>c_current := None\<rparr>)" using assms(1) by (simp add: refs_ok_def sent_count_def)
  then show ?thesis using assms
    by (simp add: handleReconnectAdvice_def Let_def core_closeSessionIfUnused eq)
qed

lemma session_step_le:
  assumes inv': "session_inv y" and step: "session_step y y'"
  shows "session_le y y'"
proof -
  have inv: "core_inv (core_of (sy_r y)) y" using inv' by (simp add: session_inv_core)
  then have q: "queue_ok (core_of (sy_r y))" and refs: "refs_ok (core_of (sy_r y))" by (simp_all add: core_inv_def)
  from step show ?thesis
  proof cases
    case (ss_reserve input sz ctxErr c)
    have "core_of ((sy_r y)\<lparr>as_capacity := c\<rparr>) = (core_of (sy_r y))\<lparr>c_capacity := c\<rparr>" by (simp add: core_of_def)
    with ss_reserve show ?thesis by (simp add: session_le_def)
  next
    case (ss_open startErr r)
    from core_getSession [OF ss_open(2)] show ?thesis by (auto simp: session_le_def ss_open(1))
  next
    case (ss_open_failed startErr err r rnd now)
    with start_error_le [OF q] getSession_Some [OF ss_open_failed(2)] show ?thesis by (simp add: session_le_def)
  next
    case (ss_skip s e es now r)
    with mark_sent_False [OF ss_skip(3)] show ?thesis by (simp add: session_le_def)
  next
    case (ss_mark s e es now r)
    with core_mark_sent(1) [OF ss_mark(3)] show ?thesis by (auto simp: session_le_def)
  next
    case (ss_write s e es env during writeErr r)
    with core_write_entry [OF ss_write(3)] show ?thesis by (simp add: session_le_def)
  next
    case (ss_write_failed s e es env during writeErr err r claimed r')
    have r: "core_of r = core_of (sy_r y)" by (rule core_write_entry [OF ss_write_failed(3)])
    from core_claimSession [OF _ ss_write_failed(5)] refs ss_write_failed(1) show ?thesis by (simp add: session_le_def r)
  next
    case (ss_write_closed s e es env during writeErr err r)
    with core_write_entry [OF ss_write_closed(3)] show ?thesis by (simp add: session_le_def)
  next
    case (ss_claim s claimed r err)
    from core_claimSession [OF refs ss_claim(3)] ss_claim(1) show ?thesis by (simp add: session_le_def)
  next
    case (ss_timeout showDur now s err r)
    let ?r = "(sy_r y)\<lparr>as_currentSession := None, as_failuresPending := as_failuresPending (sy_r y) + 1\<rparr>"
    obtain s' where "r = closeSessionIfUnused ?r s'"
      using ss_timeout(2) by (auto simp: claim_timeout_def Let_def split: if_splits list.splits option.splits)
    then have "core_of r = claim_core (core_of (sy_r y))"
      using refs by (simp add: core_closeSessionIfUnused claim_core_of claim_core_parts)
    with ss_timeout(1) show ?thesis by (simp add: session_le_def)
  next
    case (ss_resolve s err r rnd now)
    with claimed_error_le [OF inv] show ?thesis by (simp add: session_le_def)
  next
    case (ss_advice s rnd now)
    with advice_le [OF refs] show ?thesis by (simp add: session_le_def)
  next
    case ss_close_begin
    have "core_of (close_begin (sy_r y)) = (core_of (sy_r y))\<lparr>c_closing := True, c_capacity := Close_capacity (as_capacity (sy_r y))\<rparr>"
      unfolding close_begin_def core_wakeupPump by (simp add: core_of_def)
    with ss_close_begin show ?thesis by (simp add: session_le_def)
  qed (use q fail_all_le [OF q] handleAck_le [OF q] in
      \<open>simp_all add: session_le_def core_same submit_reserved_le core_close_finish\<close>)
qed

interpretation session: monotone_system "session_init opts base timeout" session_step session_inv session_le
proof unfold_locales
  show "session_le y y" for y by (simp add: session_le_def)
  show "session_le a b \<Longrightarrow> session_le b c \<Longrightarrow> session_le a c" for a b c
    unfolding session_le_def by (blast intro: core_le_trans prefix_order.trans)
qed (use session_init_inv session_step_inv session_step_le in blast)+

lemma session_count:
  assumes "reach (session_init opts base timeout) session_step y"
  shows "count_ok (core_of (sy_r y))"
  using assms
proof (induction rule: reach.induct)
  case (reach_init y)
  then show ?case
    by (auto simp: session_init_def NewAppendSession_def count_ok_def core_of_fields new_sys_def split: sum.splits)
next
  case (reach_step y y')
  then have "session_le y y'" using session_step_le session.reach_inv by blast
  with reach_step.IH show ?case by (simp add: session_le_def core_le_def)
qed

end
