(* ===== verification/Append_Session_Runs.thy ===== *)
theory Append_Session_Runs
  imports Append_Session_Steps
begin

text \<open>
  The handlers of the append session as the code composes them (a round of the pump, an ack reader, a
  submission) are runs of the step relation, so the invariant covers them as well; and what a round of
  the pump achieves.
\<close>

definition run_to :: "session_sys \<Rightarrow> pump_pc \<Rightarrow> AppendSession \<Rightarrow> bool" where
  "run_to y p r \<longleftrightarrow> (\<exists>h t. steps session_step y (y\<lparr>sy_r := r, sy_pump := p, sy_hist := h, sy_sent := t\<rparr>))"

lemma run_refl: "p = sy_pump y \<Longrightarrow> r = sy_r y \<Longrightarrow> run_to y p r"
  unfolding run_to_def by (intro exI [of _ "sy_hist y"] exI [of _ "sy_sent y"]) (simp add: steps_refl)

lemma steps_append: "steps st b c \<Longrightarrow> steps st a b \<Longrightarrow> steps st a c"
  by (induction rule: steps.induct) (auto intro: steps_trans)

lemma run_trans:
  assumes "run_to y p r" "\<And>h t. run_to (y\<lparr>sy_r := r, sy_pump := p, sy_hist := h, sy_sent := t\<rparr>) p' r'"
  shows "run_to y p' r'"
proof -
  obtain h t where 1: "steps session_step y (y\<lparr>sy_r := r, sy_pump := p, sy_hist := h, sy_sent := t\<rparr>)"
    using assms(1) by (auto simp: run_to_def)
  obtain h' t' where "steps session_step (y\<lparr>sy_r := r, sy_pump := p, sy_hist := h, sy_sent := t\<rparr>)
      (y\<lparr>sy_r := r', sy_pump := p', sy_hist := h', sy_sent := t'\<rparr>)"
    using assms(2) [where h = h and t = t] by (auto simp: run_to_def)
  from steps_append [OF this 1] show ?thesis by (auto simp: run_to_def)
qed

lemma run_one:
  "session_step y (y\<lparr>sy_r := r, sy_pump := p, sy_hist := h, sy_sent := t\<rparr>) \<Longrightarrow> run_to y p r"
  unfolding run_to_def by (blast intro: steps_refl steps_trans)

lemma run_eq: "session_step y z \<Longrightarrow> z = y\<lparr>sy_r := r, sy_pump := p, sy_hist := h, sy_sent := t\<rparr> \<Longrightarrow> run_to y p r"
  by (simp add: run_one)

lemma run_simple:
  "session_step y (y\<lparr>sy_r := r\<rparr>) \<Longrightarrow> p = sy_pump y \<Longrightarrow> run_to y p r"
  by (rule run_one [where h = "sy_hist y" and t = "sy_sent y"]) simp

lemma run_two:
  assumes "session_step y y1" "session_step y1 (y\<lparr>sy_r := r, sy_pump := p, sy_hist := h, sy_sent := t\<rparr>)"
  shows "run_to y p r"
proof -
  have "steps session_step y y1" using steps_refl assms(1) by (rule steps_trans)
  from steps_trans [where step = session_step, OF this assms(2)] show ?thesis unfolding run_to_def by blast
qed

section \<open>Failures\<close>

lemma handleSessionError_run: "p = sy_pump y \<Longrightarrow> run_to y p (handleSessionError rnd now (sy_r y) (Some s) err)"
proof (cases "as_closed (sy_r y)")
  case False
  assume p: "p = sy_pump y"
  obtain claimed r where cl: "claimSession (sy_r y) s = (claimed, r)" by fastforce
  note claim = ss_claim [OF False cl, of err]
  show ?thesis
  proof (cases claimed)
    case True
    let ?y = "y\<lparr>sy_r := r, sy_pending := (s, err) # sy_pending y\<rparr>"
    have "session_step ?y (?y\<lparr>sy_r := handleClaimedSessionError rnd now r s err,
        sy_pending := remove1 (s, err) ((s, err) # sy_pending y),
        sy_hist := sy_hist y @ retried_after r (handleClaimedSessionError rnd now r s err) s err\<rparr>)"
      using ss_resolve [of s err ?y] by simp
    with claim True show ?thesis
      by (intro run_two [where ?y1.0 = "?y" and h = "sy_hist y @ retried_after r (handleClaimedSessionError rnd now r s err) s err" and t = "sy_sent y"])
        (simp_all add: handleSessionError_def False cl p)
  next
    case no: False
    with claim show ?thesis by (intro run_simple) (simp_all add: handleSessionError_def False cl p)
  qed
qed (simp add: handleSessionError_def run_refl)

lemma write_failed_run:
  assumes pump: "sy_pump y = PWrite s e es" and w: "write_entry env during writeErr (sy_r y) s e = (Some err, r)"
  shows "run_to y PIdle (handleSessionError rnd now r (Some s) err)"
proof (cases "as_closed r")
  case True
  with ss_write_closed [OF pump w] show ?thesis
    by (intro run_one [where h = "sy_hist y" and t = "sy_sent y"]) (simp add: handleSessionError_def)
next
  case False
  obtain claimed r' where cl: "claimSession r s = (claimed, r')" by fastforce
  note claim = ss_write_failed [OF pump w False cl]
  show ?thesis
  proof (cases claimed)
    case True
    let ?y = "y\<lparr>sy_r := r', sy_pump := PIdle, sy_pending := (s, err) # sy_pending y\<rparr>"
    let ?r = "handleClaimedSessionError rnd now r' s err"
    let ?h = "sy_hist y @ retried_after r' ?r s err"
    have "?y\<lparr>sy_r := ?r, sy_pending := remove1 (s, err) (sy_pending ?y), sy_hist := ?h\<rparr> =
        y\<lparr>sy_r := ?r, sy_pump := PIdle, sy_hist := ?h, sy_sent := sy_sent y\<rparr>" by simp
    moreover have "session_step ?y (?y\<lparr>sy_r := ?r, sy_pending := remove1 (s, err) (sy_pending ?y), sy_hist := ?h\<rparr>)"
      using ss_resolve [of s err ?y ?r] by simp
    ultimately have "session_step ?y (y\<lparr>sy_r := ?r, sy_pump := PIdle, sy_hist := ?h, sy_sent := sy_sent y\<rparr>)"
      by (simp only:)
    moreover have "handleSessionError rnd now r (Some s) err = ?r" using True by (simp add: handleSessionError_def False cl)
    moreover have "session_step y ?y" using claim True by simp
    ultimately show ?thesis using run_two by metis
  next
    case no: False
    with claim show ?thesis
      by (intro run_one [where h = "sy_hist y" and t = "sy_sent y"]) (simp add: handleSessionError_def False cl)
  qed
qed

section \<open>The pump\<close>

lemma submit_loop_run:
  "sy_pump y = PScan s es \<Longrightarrow> run_to y PIdle (submit_loop env rnd now writeErrs s es (sy_r y))"
proof (induction es arbitrary: y)
  case Nil
  then show ?case using ss_scanned [OF Nil] by (intro run_one [where h = "sy_hist y" and t = "sy_sent y"]) simp
next
  case (Cons e es)
  obtain b r where m: "mark_sent now (sy_r y) s e = (b, r)" by fastforce
  show ?case
  proof (cases b)
    case False
    have "run_to y (PScan s es) r"
      using ss_skip [OF Cons.prems m [simplified False]] by (intro run_one [where h = "sy_hist y" and t = "sy_sent y"]) simp
    moreover have "run_to (y\<lparr>sy_r := r, sy_pump := PScan s es, sy_hist := h, sy_sent := t\<rparr>) PIdle
        (submit_loop env rnd now writeErrs s es r)" for h t
      using Cons.IH [of "y\<lparr>sy_r := r, sy_pump := PScan s es, sy_hist := h, sy_sent := t\<rparr>"] by simp
    ultimately have "run_to y PIdle (submit_loop env rnd now writeErrs s es r)" by (rule run_trans)
    with m False show ?thesis by simp
  next
    case True
    have marked: "run_to y (PWrite s e es) r"
      using ss_mark [OF Cons.prems m [simplified True]]
      by (intro run_one [where h = "sy_hist y" and t = "sy_sent y @ [(s, e)]"]) simp
    obtain w r1 where w: "write_entry env id (writeErrs e) r s e = (w, r1)" by fastforce
    have rest: "run_to (y\<lparr>sy_r := r, sy_pump := PWrite s e es, sy_hist := h, sy_sent := t\<rparr>) PIdle
        (submit_loop env rnd now writeErrs s (e # es) (sy_r y))" for h t
    proof -
      let ?y = "y\<lparr>sy_r := r, sy_pump := PWrite s e es, sy_hist := h, sy_sent := t\<rparr>"
      show ?thesis
      proof (cases w)
        case None
        have "run_to ?y (PScan s es) r1"
          by (rule run_eq [OF ss_write [of ?y s e es env id "writeErrs e" r1], where h = h and t = t])
            (use w None in simp_all)
        moreover have "run_to (?y\<lparr>sy_r := r1, sy_pump := PScan s es, sy_hist := h', sy_sent := t'\<rparr>) PIdle
            (submit_loop env rnd now writeErrs s es r1)" for h' t'
          using Cons.IH [of "?y\<lparr>sy_r := r1, sy_pump := PScan s es, sy_hist := h', sy_sent := t'\<rparr>"] by simp
        ultimately have "run_to ?y PIdle (submit_loop env rnd now writeErrs s es r1)" by (rule run_trans)
        with m True w None show ?thesis by simp
      next
        case (Some err)
        with write_failed_run [of ?y s e es env id "writeErrs e" err r1] m True w show ?thesis by simp
      qed
    qed
    from run_trans [OF marked rest] show ?thesis by simp
  qed
qed

lemma submitInflightBatches_run:
  assumes "sy_pump y = PIdle"
  shows "run_to y PIdle (submitInflightBatches env rnd now writeErrs (sy_r y))"
proof (cases "submit_snapshot (sy_r y)")
  case None
  then show ?thesis using assms by (simp add: submitInflightBatches_def run_refl)
next
  case (Some x)
  obtain s es where x: "x = (s, es)" by fastforce
  have "run_to y (PScan s es) (sy_r y)"
    using ss_snapshot [OF assms Some [unfolded x]] by (intro run_one [where h = "sy_hist y" and t = "sy_sent y"]) simp
  moreover have "run_to (y\<lparr>sy_r := sy_r y, sy_pump := PScan s es, sy_hist := h, sy_sent := t\<rparr>) PIdle
      (submit_loop env rnd now writeErrs s es (sy_r y))" for h t
    using submit_loop_run [of "y\<lparr>sy_r := sy_r y, sy_pump := PScan s es, sy_hist := h, sy_sent := t\<rparr>"] by simp
  ultimately have "run_to y PIdle (submit_loop env rnd now writeErrs s es (sy_r y))" by (rule run_trans)
  then show ?thesis by (simp add: submitInflightBatches_def Some x)
qed

lemma processInflightQueue_run:
  assumes idle: "sy_pump y = PIdle"
  shows "run_to y PIdle (processInflightQueue env rnd now startErr writeErrs (sy_r y))"
proof -
  obtain b r where g: "pump_gate now (sy_r y) = (b, r)" by fastforce
  have gate: "run_to y PIdle r" using ss_gate [of y now] g idle by (intro run_simple) simp_all
  obtain w r1 where o: "getSession startErr r = (w, r1)" by fastforce
  have "run_to (y\<lparr>sy_r := r, sy_pump := PIdle, sy_hist := h, sy_sent := t\<rparr>) PIdle
      (processInflightQueue env rnd now startErr writeErrs (sy_r y))" if b for h t
  proof -
    let ?y = "y\<lparr>sy_r := r, sy_pump := PIdle, sy_hist := h, sy_sent := t\<rparr>"
    show ?thesis
    proof (cases w)
      case (Some err)
      have "run_to ?y PIdle (handle_start_error rnd now r1 err)"
        using ss_open_failed [of startErr ?y err r1 rnd now] o Some by (intro run_simple) simp_all
      with g o that Some show ?thesis by (simp add: processInflightQueue_def)
    next
      case None
      have "run_to ?y PIdle r1" using ss_open [of startErr ?y r1] o None by (intro run_simple) simp_all
      moreover have "run_to (?y\<lparr>sy_r := r1, sy_pump := PIdle, sy_hist := h', sy_sent := t'\<rparr>) PIdle
          (submitInflightBatches env rnd now writeErrs r1)" for h' t'
        using submitInflightBatches_run [of "?y\<lparr>sy_r := r1, sy_pump := PIdle, sy_hist := h', sy_sent := t'\<rparr>"] by simp
      ultimately have "run_to ?y PIdle (submitInflightBatches env rnd now writeErrs r1)" by (rule run_trans)
      with g o that None show ?thesis by (simp add: processInflightQueue_def)
    qed
  qed
  from run_trans [OF gate this] gate g show ?thesis by (cases b) (simp_all add: processInflightQueue_def)
qed

lemma checkTimeouts_run:
  assumes p: "p = sy_pump y"
  shows "run_to y p (checkTimeouts showDur rnd now (sy_r y))"
proof (cases "claim_timeout showDur now (sy_r y)")
  case (Pair w r)
  show ?thesis
  proof (cases w)
    case None
    then have "r = sy_r y" using Pair
      by (auto simp: claim_timeout_def Let_def split: if_splits list.splits option.splits)
    with None Pair p show ?thesis by (simp add: checkTimeouts_def run_refl)
  next
    case (Some x)
    obtain s err where x: "x = (s, err)" by fastforce
    let ?y = "y\<lparr>sy_r := r, sy_pending := (s, err) # sy_pending y\<rparr>"
    let ?h = "sy_hist y @ retried_after r (handleClaimedSessionError rnd now r s err) s err"
    have "session_step y ?y" using ss_timeout [of showDur now y s err r] Pair Some x by simp
    moreover have "session_step ?y (?y\<lparr>sy_r := handleClaimedSessionError rnd now r s err,
        sy_pending := remove1 (s, err) ((s, err) # sy_pending y), sy_hist := ?h\<rparr>)"
      using ss_resolve [of s err ?y] by simp
    ultimately show ?thesis
      by (intro run_two [where ?y1.0 = "?y" and h = "?h" and t = "sy_sent y"]) (simp_all add: checkTimeouts_def Pair Some x p)
  qed
qed

lemma pump_round_run:
  assumes idle: "sy_pump y = PIdle"
  shows "run_to y PIdle (snd (pump_round env showDur rnd now startErr writeErrs (sy_r y)))"
proof (cases "as_pumpCancelled (sy_r y)")
  case True
  then show ?thesis using ss_cancelled [OF True] idle by (intro run_simple) (simp_all add: pump_round_def)
next
  case False
  let ?r1 = "(sy_r y)\<lparr>as_wakeup := False\<rparr>"
  let ?r2 = "processInflightQueue env rnd now startErr writeErrs ?r1"
  let ?r3 = "checkTimeouts showDur rnd now ?r2"
  let ?y = "\<lambda>r h t. y\<lparr>sy_r := r, sy_pump := PIdle, sy_hist := h, sy_sent := t\<rparr>"
  have "run_to y PIdle ?r1" using ss_woken [of y] idle by (intro run_simple) simp_all
  moreover have "run_to (?y ?r1 h t) PIdle ?r2" for h t using processInflightQueue_run [of "?y ?r1 h t"] by simp
  ultimately have "run_to y PIdle ?r2" by (rule run_trans)
  moreover have "run_to (?y ?r2 h t) PIdle ?r3" for h t using checkTimeouts_run [of PIdle "?y ?r2 h t"] by simp
  ultimately have "run_to y PIdle ?r3" by (rule run_trans)
  moreover have "run_to (?y ?r3 h t) PIdle (snd (shouldStopPump ?r3))" for h t
    using ss_stop [of "?y ?r3 h t"] by (intro run_simple) simp_all
  ultimately have "run_to y PIdle (snd (shouldStopPump ?r3))" by (rule run_trans)
  with False show ?thesis by (simp add: pump_round_def Let_def)
qed

section \<open>The ack readers\<close>

lemma processAck_run:
  assumes "p = sy_pump y"
  shows "run_to y p (fst (processAck now s ack (sy_r y, rd)))"
proof -
  let ?r = "handleAck (sy_r y) s ack"
  let ?y = "\<lambda>r h t. y\<lparr>sy_r := r, sy_pump := p, sy_hist := h, sy_sent := t\<rparr>"
  have ack: "run_to y p ?r" using ss_ack [of y s ack] assms by (intro run_simple) simp_all
  have tr: "run_to (?y r h t) p (upd_session f s r)" for r f h t
    using ss_transport [of "?y r h t" f s] by (intro run_simple) simp_all
  have wk: "run_to (?y r h t) p (wakeupPump r)" for r h t
    using ss_wakeup [of "?y r h t"] by (intro run_simple) simp_all
  have "run_to y p (upd_session f s ?r)" for f using run_trans [OF ack tr] .
  moreover from this have "run_to y p (wakeupPump (upd_session f s ?r))" for f using run_trans wk by blast
  ultimately show ?thesis using ack by (simp add: processAck_def Let_def)
qed

lemma processAcks_run:
  "p = sy_pump y \<Longrightarrow> run_to y p (fst (fold (processAck now s) acks (sy_r y, rd)))"
proof (induction acks arbitrary: y rd)
  case (Cons a acks)
  obtain r rd' where pa: "processAck now s a (sy_r y, rd) = (r, rd')" by fastforce
  have "run_to y p r" using processAck_run [OF Cons.prems, of now s a rd] pa by simp
  moreover have "run_to (y\<lparr>sy_r := r, sy_pump := p, sy_hist := h, sy_sent := t\<rparr>) p
      (fst (fold (processAck now s) acks (r, rd')))" for h t
    using Cons.IH [of "y\<lparr>sy_r := r, sy_pump := p, sy_hist := h, sy_sent := t\<rparr>" rd'] by simp
  ultimately have "run_to y p (fst (fold (processAck now s) acks (r, rd')))" by (rule run_trans)
  then show ?case by (simp add: pa)
qed (simp add: run_refl)

lemma advice_run:
  assumes "p = sy_pump y"
  shows "run_to y p (handleReconnectAdvice rnd now (sy_r y) s)"
proof (cases "as_closed (sy_r y) \<or> hasUnackedOnSession (sy_r y) s")
  case True
  then show ?thesis using assms handleSessionError_run [OF assms, of rnd now s truncated_response]
    by (auto simp: handleReconnectAdvice_def run_refl)
next
  case False
  then show ?thesis using ss_advice [of y s rnd now] assms by (intro run_simple) simp_all
qed

lemma readAcks_run:
  "p = sy_pump y \<Longrightarrow> run_to y p (readAcks rnd now s evs (sy_r y, rd))"
proof (induction evs arbitrary: y rd)
  case (Cons ev evs)
  let ?y = "\<lambda>r h t. y\<lparr>sy_r := r, sy_pump := p, sy_hist := h, sy_sent := t\<rparr>"
  have acks: "run_to y p (fst (fold (processAck now s) acks (sy_r y, rd)))" for acks
    by (rule processAcks_run [OF Cons.prems])
  show ?case
  proof (cases ev)
    case (AckReady a)
    obtain r rd' where pa: "processAck now s a (sy_r y, rd) = (r, rd')" by fastforce
    have "run_to y p r" using processAck_run [OF Cons.prems, of now s a rd] pa by simp
    moreover have "run_to (?y r h t) p (readAcks rnd now s evs (r, rd'))" for h t
      using Cons.IH [of "?y r h t" rd'] by simp
    ultimately have "run_to y p (readAcks rnd now s evs (r, rd'))" by (rule run_trans)
    with AckReady pa show ?thesis by simp
  next
    case (ErrorReady err as)
    let ?r = "fst (fold (processAck now s) as (sy_r y, rd))"
    have "run_to (?y ?r h t) p (handleSessionError rnd now ?r (Some s) err)" for h t
      using handleSessionError_run [of p "?y ?r h t"] by simp
    from run_trans [OF acks this] ErrorReady show ?thesis by simp
  next
    case (ErrorsChClosed as)
    let ?r = "fst (fold (processAck now s) as (sy_r y, rd))"
    have "run_to (?y ?r h t) p (handleReconnectAdvice rnd now ?r s)" for h t
      using advice_run [of p "?y ?r h t"] by simp
    from run_trans [OF acks this] acks ErrorsChClosed show ?thesis by (simp add: Let_def)
  qed (use Cons in \<open>simp_all add: run_refl\<close>)
qed (simp add: run_refl)

end
