(* ===== verification/Append_Session_Demo.thy ===== *)
theory Append_Session_Demo
  imports Append_Session_Runs
begin

text \<open>
  A run of the append session on concrete data: two single-record batches, a request timeout, a second
  transport session.  The properties of the session are instantiated on it.
\<close>

section \<open>The data\<close>

definition ack_of :: "nat \<Rightarrow> nat \<Rightarrow> AppendAck" where
  "ack_of a b = \<lparr>aa_Start = \<lparr>sp_SeqNum = word_of_nat a, sp_Timestamp = 0\<rparr>,
     aa_End = \<lparr>sp_SeqNum = word_of_nat b, sp_Timestamp = 0\<rparr>,
     aa_Tail = \<lparr>sp_SeqNum = word_of_nat b, sp_Timestamp = 0\<rparr>\<rparr>"

text \<open>A batch of one record whose body is the byte \<open>b\<close>.\<close>

definition demo_in :: "byte \<Rightarrow> AppendInput" where
  "demo_in b = \<lparr>ai_Records = [\<lparr>ar_Timestamp = None, ar_Headers = [], ar_Body = [b]\<rparr>],
     ai_MatchSeqNum = None, ai_FencingToken = None, ai_StreamConfig = None\<rparr>"

definition demo_options :: AppendSessionOptions where
  "demo_options = \<lparr>aso_MaxInflightBytes = defaultMaxInflightBytes, aso_MaxInflightBatches = 0,
             aso_RetryConfig = Some DefaultRetryConfig, aso_StreamConfig = None\<rparr>"

lemma demo_options: "applyAppendSessionDefaults None None = Inr demo_options"
  by (simp add: applyAppendSessionDefaults_def demo_options_def Let_def fill_retry_def DefaultRetryConfig_def
   retry_defaults AppendRetryPolicyAll_def)
lemma demo_cap: "sint defaultMaxInflightBytes = 5242880" by (simp add: defaultMaxInflightBytes_def)

definition demo_start :: AppendSession where
 "demo_start = (case NewAppendSession None None 10 of Inr r \<Rightarrow> r)"

definition demo_entry :: "byte \<Rightarrow> nat list \<Rightarrow> gotime \<Rightarrow> bool \<Rightarrow> inflightResult list \<Rightarrow> inflightEntry" where
  "demo_entry b ss t u res = \<lparr>ie_input = demo_in b, ie_expectedCount = 1, ie_meteredBytes = 9, ie_attemptStart = t,
     ie_requestTimeout = 10, ie_resultCh = res, ie_completed = (res \<noteq> []), ie_sentOnSessions = ss, ie_priorUncertainty = u\<rparr>"

definition demo_submit :: "byte \<Rightarrow> AppendSession \<Rightarrow> AppendSession" where
  "demo_submit b r = snd (submit_reserved (r\<lparr>as_capacity := snd (tryReserve (as_capacity r) None 9)\<rparr>) (demo_in b) 9)"

definition demo_round :: "gotime \<Rightarrow> AppendSession \<Rightarrow> AppendSession" where
  "demo_round now r = snd (pump_round tiny_env (\<lambda>_. ''10ns'') (\<lambda>_. 0) now None (\<lambda>_. None) r)"

definition demo_queued :: AppendSession where
  "demo_queued = demo_submit 2 (demo_submit 1 demo_start)"

lemma demo_new: "NewAppendSession None None 10 = Inr demo_start"
  by (simp add: NewAppendSession_def demo_start_def demo_options)

lemmas demo_start = demo_start_def NewAppendSession_def demo_options demo_options_def demo_cap newCapacityTracker_def

lemma demo_queued:
  "as_inflightQueue demo_queued = [0, 1]" "as_nextEntry demo_queued = 2"
  "as_entries demo_queued 0 = demo_entry 1 [] 0 False []" "as_entries demo_queued 1 = demo_entry 2 [] 0 False []"
  "as_capacity demo_queued = \<lparr>ct_maxBytes = 5242880, ct_maxItems = 0, ct_curBytes = 18, ct_curItems = 0, ct_closed = False\<rparr>"
  "as_sessions demo_queued 0 = createAppendSession" "as_sessions demo_queued 1 = createAppendSession"
  "as_nextSession demo_queued = 0" "as_currentSession demo_queued = None" "as_currentAttempt demo_queued = 0"
  "as_retryAt demo_queued = 0" "as_failuresPending demo_queued = 0" "\<not> as_pumpCancelled demo_queued"
  "\<not> as_closing demo_queued" "\<not> as_closed demo_queued" "as_sessionRefs demo_queued = (\<lambda>_. None)"
  "as_options demo_queued = demo_options" "as_lastAckedPosition demo_queued = None"
  by (simp_all add: demo_queued_def demo_submit_def submit_reserved_def enqueueReservedEntry_def Let_def demo_start
    tryReserve_def hasCapacity_def reserveLocked_def wakeupPump_def demo_entry_def demo_in_def)

definition demo_frame :: "byte \<Rightarrow> byte list" where
  "demo_frame b = CreateFrame marker_codec [b] False CompressionNone"

lemma demo_write:
  "\<not> ts_closed p \<Longrightarrow> ts_requestWriter p \<Longrightarrow> appendInput tiny_env p (demo_in b) id None =
     (None, (markWriteSignalled p)\<lparr>ts_wire := ts_wire (markWriteSignalled p) @ [demo_frame b]\<rparr>)"
  by (simp add: appendInput_def MarshalProtoFrame_eq Let_def isClosed_def tiny_env_def convertAppendInputToProto_Some
     pb_record_of_def demo_in_def demo_frame_def)

text \<open>A transport session on which the batches \<open>bs\<close> are written and unacknowledged.\<close>

definition demo_link :: "byte list \<Rightarrow> transportAppendSession" where
  "demo_link bs = createAppendSession\<lparr>ts_pendingWrites := int (length bs), ts_wire := map demo_frame bs\<rparr>"

lemma demo_link0: "createAppendSession = demo_link []" by (simp add: demo_link_def createAppendSession_def)

lemma demo_link_write: "appendInput tiny_env (demo_link bs) (demo_in b) id None = (None, demo_link (bs @ [b]))"
  by (simp add: demo_link_def demo_write createAppendSession_def markWriteSignalled_def)

lemma demo_link_hold: "\<not> holdInputsForReconnect (demo_link bs)"
  by (simp add: demo_link_def createAppendSession_def holdInputsForReconnect_def ReconnectAdvised_def)

definition demo_sent :: AppendSession where
  "demo_sent = demo_round 1 demo_queued"

lemma demo_mark:
  assumes "as_entries r e = demo_entry b ss t u []" "s \<notin> set ss"
  shows "mark_sent now r s e = (True, r\<lparr>as_entries := (as_entries r)(e := demo_entry b (ss @ [s]) (if t = 0 then now else t) u []),
     as_sessionRefs := (as_sessionRefs r)(s \<mapsto> (case as_sessionRefs r s of None \<Rightarrow> 0 | Some c \<Rightarrow> c) + 1)\<rparr>)"
  using assms by (simp add: mark_sent_def demo_entry_def wasSentOnSessionLocked_def upd_entry_def time_IsZero_def Let_def)

lemma demo_write_entry:
  assumes "as_sessions r s = demo_link bs" "ie_input (as_entries r e) = demo_in b"
  shows "write_entry tiny_env id None r s e = (None, r\<lparr>as_sessions := (as_sessions r)(s := demo_link (bs @ [b]))\<rparr>)"
  using assms by (simp add: write_entry_def demo_link_write upd_session_def)

lemma demo_input: "ie_input (demo_entry b ss t u res) = demo_in b" by (simp add: demo_entry_def)

lemma demo_send_two:
  assumes "as_inflightQueue r = [0, 1]" "as_currentSession r = Some s" "as_sessions r s = demo_link []"
    "as_sessionRefs r s = None" "s \<notin> set ss"
    "as_entries r 0 = demo_entry 1 ss 0 u []" "as_entries r 1 = demo_entry 2 ss 0 u []" "now \<noteq> 0"
  shows "submitInflightBatches tiny_env rnd now (\<lambda>_. None) r = r\<lparr>as_sessions := (as_sessions r)(s := demo_link [1, 2]),
    as_entries := (as_entries r)(0 := demo_entry 1 (ss @ [s]) now u [], 1 := demo_entry 2 (ss @ [s]) now u []),
    as_sessionRefs := (as_sessionRefs r)(s \<mapsto> 2)\<rparr>"
  using assms by (simp add: submitInflightBatches_def submit_snapshot_def demo_link_hold demo_mark demo_write_entry demo_input numeral_2_eq_2)

lemma demo_sent_eq: "demo_sent = demo_queued\<lparr>as_wakeup := False, as_nextSession := 1, as_currentSession := Some 0,
   as_sessions := (as_sessions demo_queued)(0 := demo_link [1, 2]),
   as_entries := (as_entries demo_queued)(0 := demo_entry 1 [0] 1 False [], 1 := demo_entry 2 [0] 1 False []),
   as_sessionRefs := [0 \<mapsto> 2]\<rparr>"
proof -
  let ?r1 = "demo_queued\<lparr>as_wakeup := False\<rparr>"
  let ?r2 = "?r1\<lparr>as_sessions := (as_sessions demo_queued)(0 := demo_link []), as_nextSession := 1, as_currentSession := Some 0\<rparr>"
  let ?r3 = "submitInflightBatches tiny_env (\<lambda>_. 0) 1 (\<lambda>_. None) ?r2"
  have "pump_gate 1 ?r1 = (True, ?r1)" by (simp add: pump_gate_def demo_queued time_IsZero_def)
  moreover have "getSession None ?r1 = (None, ?r2)" by (simp add: getSession_def demo_queued demo_link0)
  ultimately have p: "processInflightQueue tiny_env (\<lambda>_. 0) 1 None (\<lambda>_. None) ?r1 = ?r3"
    by (simp add: processInflightQueue_def)
  have r3: "?r3 = demo_queued\<lparr>as_wakeup := False, as_nextSession := 1, as_currentSession := Some 0,
   as_sessions := (as_sessions demo_queued)(0 := demo_link [1, 2]),
   as_entries := (as_entries demo_queued)(0 := demo_entry 1 [0] 1 False [], 1 := demo_entry 2 [0] 1 False []),
   as_sessionRefs := [0 \<mapsto> 2]\<rparr>"
    by (subst demo_send_two [where s = 0 and ss = "[]" and u = False]) (simp_all add: demo_queued del: One_nat_def)
  have "checkTimeouts (\<lambda>_. ''10ns'') (\<lambda>_. 0) 1 ?r3 = ?r3" "shouldStopPump ?r3 = (False, ?r3)"
    unfolding r3 by (simp_all add: checkTimeouts_def claim_timeout_def demo_queued demo_entry_def time_IsZero_def shouldStopPump_def Let_def)
  then show ?thesis unfolding r3 [symmetric] demo_sent_def demo_round_def pump_round_def
    by (simp add: demo_queued p)
qed

lemma demo_backoff: "calculateRetryBackoff (\<lambda>_. 0) DefaultRetryConfig 1 = Some 100000000"
  by (simp add: calculateRetryBackoff_def DefaultRetryConfig_def retry_defaults backoff_base_def Let_def)

lemma demo_sent_fields:
  "as_inflightQueue demo_sent = [0, 1]" "as_nextEntry demo_sent = 2"
  "as_entries demo_sent 0 = demo_entry 1 [0] 1 False []" "as_entries demo_sent 1 = demo_entry 2 [0] 1 False []"
  "as_capacity demo_sent = \<lparr>ct_maxBytes = 5242880, ct_maxItems = 0, ct_curBytes = 18, ct_curItems = 0, ct_closed = False\<rparr>"
  "as_sessions demo_sent 0 = demo_link [1, 2]" "as_sessions demo_sent 1 = demo_link []"
  "as_nextSession demo_sent = 1" "as_currentSession demo_sent = Some 0" "as_currentAttempt demo_sent = 0"
  "as_retryAt demo_sent = 0" "as_failuresPending demo_sent = 0" "\<not> as_pumpCancelled demo_sent"
  "\<not> as_closing demo_sent" "\<not> as_closed demo_sent" "as_sessionRefs demo_sent = [0 \<mapsto> 2]"
  "as_options demo_sent = demo_options" "as_lastAckedPosition demo_sent = None"
  unfolding demo_sent_eq by (simp_all add: demo_queued demo_link0 del: One_nat_def)

definition demo_timeout :: goerr where
  "demo_timeout = S2E \<lparr>e_Message = ''append request timed out after '' @ ''10ns'' @ '' (attempt '' @ dec_int 0 @ '')'',
     e_Code = ''REQUEST_TIMEOUT'', e_Status = 408, e_Origin = ''sdk''\<rparr>"

lemma demo_timeout_facts:
  "\<not> isServerDraining demo_timeout" "\<not> isNoSideEffectsError demo_timeout"
  "(case errors_As_S2Error demo_timeout of None \<Rightarrow> False | Some s2Err \<Rightarrow> \<not> IsRetryable s2Err) = False"
  by (simp_all add: demo_timeout_def isServerDraining_def isNoSideEffectsError_def S2Error_HasNoSideEffects_def
      IsRetryable_def isRetryableStatus_def)

definition demo_expired :: AppendSession where
  "demo_expired = demo_round 20 demo_sent"

lemma demo_claim: "claim_timeout (\<lambda>_. ''10ns'') 20 (demo_sent\<lparr>as_wakeup := False\<rparr>) =
  (Some (0, demo_timeout), demo_sent\<lparr>as_wakeup := False, as_currentSession := None, as_failuresPending := 1\<rparr>)"
  by (simp add: claim_timeout_def demo_sent_fields demo_entry_def time_IsZero_def Let_def closeSessionIfUnused_def
      demo_timeout_def del: One_nat_def)

lemma demo_resolved:
  "handleClaimedSessionError (\<lambda>_. 0) 20 (demo_sent\<lparr>as_wakeup := False, as_currentSession := None, as_failuresPending := 1\<rparr>) 0 demo_timeout =
   demo_sent\<lparr>as_wakeup := True, as_currentSession := None, as_failuresPending := 0, as_currentAttempt := 1,
     as_entries := (as_entries demo_sent)(0 := demo_entry 1 [0] 0 True [], 1 := demo_entry 2 [0] 0 True []),
     as_retryAt := 100000020\<rparr>"
proof -
  let ?q = "demo_sent\<lparr>as_wakeup := False, as_currentSession := None, as_failuresPending := 1\<rparr>"
  let ?r = "?q\<lparr>as_currentAttempt := 1\<rparr>"
  let ?r1 = "?r\<lparr>as_entries := (as_entries demo_sent)(0 := demo_entry 1 [0] 1 True [], 1 := demo_entry 2 [0] 1 True [])\<rparr>"
  let ?r2 = "?r\<lparr>as_entries := (as_entries demo_sent)(0 := demo_entry 1 [0] 0 True [], 1 := demo_entry 2 [0] 0 True [])\<rparr>"
  have cfg: "session_config r = DefaultRetryConfig" if "as_options r = demo_options" for r
    using that by (simp add: session_config_def demo_options_def)
  have cq: "session_config ?q = DefaultRetryConfig" by (rule cfg) (simp add: demo_sent_fields)
  have low: "\<not> clamp_attempts DefaultRetryConfig - 1 \<le> as_currentAttempt ?q"
    by (simp add: demo_sent_fields clamp_attempts_def DefaultRetryConfig_def retry_defaults)
  have all: "\<not> requiresNoSideEffectsRetries ?q"
    by (simp add: requiresNoSideEffectsRetries_def demo_sent_fields demo_options_def DefaultRetryConfig_def
        retry_defaults AppendRetryPolicyAll_def AppendRetryPolicyNoSideEffects_def)
  have mark: "markInflightUncertainty ?r (Some 0) demo_timeout = ?r1"
    by (simp add: markInflightUncertainty_def demo_timeout_facts demo_sent_fields upd_entry_def wasSentOnSessionLocked_def
        demo_entry_def del: One_nat_def)
  have reset: "resetInflightAttemptStarts ?r1 = ?r2"
    by (simp add: resetInflightAttemptStarts_def demo_sent_fields upd_entry_def demo_entry_def fun_upd_twist del: One_nat_def)
  have sched: "scheduleRetry (\<lambda>_. 0) 20 ?r2 = ?r2\<lparr>as_retryAt := 100000020, as_wakeup := True\<rparr>"
    by (simp add: scheduleRetry_def cfg demo_sent_fields demo_backoff time_IsZero_def wakeupPump_def del: One_nat_def)
  have "as_currentAttempt ?q + 1 = 1" by (simp add: demo_sent_fields)
  then have "resolve_failure (\<lambda>_. 0) 20 ?q 0 demo_timeout = scheduleRetry (\<lambda>_. 0) 20 ?r2"
    unfolding resolve_failure_def Let_def
    using low all cq by (simp only: demo_timeout_facts mark reset if_False simp_thms)
  then show ?thesis unfolding handleClaimedSessionError_def sched by (simp add: wakeupPump_def)
qed

lemma demo_expired_eq: "demo_expired = demo_sent\<lparr>as_wakeup := True, as_currentSession := None,
     as_failuresPending := 0, as_currentAttempt := 1,
     as_entries := (as_entries demo_sent)(0 := demo_entry 1 [0] 0 True [], 1 := demo_entry 2 [0] 0 True []),
     as_retryAt := 100000020\<rparr>"
proof -
  let ?r = "demo_sent\<lparr>as_wakeup := False\<rparr>"
  have "pump_gate 20 ?r = (True, ?r)" by (simp add: pump_gate_def demo_sent_fields time_IsZero_def)
  moreover have "getSession None ?r = (None, ?r)" by (simp add: getSession_def demo_sent_fields)
  moreover have "submitInflightBatches tiny_env (\<lambda>_. 0) 20 (\<lambda>_. None) ?r = ?r"
    by (simp add: submitInflightBatches_def submit_snapshot_def demo_sent_fields demo_link_hold mark_sent_def demo_entry_def
        wasSentOnSessionLocked_def del: One_nat_def)
  ultimately have p: "processInflightQueue tiny_env (\<lambda>_. 0) 20 None (\<lambda>_. None) ?r = ?r"
    by (simp add: processInflightQueue_def)
  show ?thesis unfolding demo_expired_def demo_round_def pump_round_def Let_def p
    by (simp only: checkTimeouts_def demo_claim prod.case option.case demo_resolved)
      (simp add: shouldStopPump_def demo_sent_fields)
qed

text \<open>The second session carries both batches again.\<close>

definition demo_resent :: AppendSession where
  "demo_resent = demo_round 200000000 demo_expired"

lemma demo_resent_eq: "demo_resent = demo_sent\<lparr>as_wakeup := False, as_failuresPending := 0, as_currentAttempt := 1,
     as_retryAt := 0, as_nextSession := 2, as_currentSession := Some 1,
     as_sessions := (as_sessions demo_sent)(1 := demo_link [1, 2]),
     as_entries := (as_entries demo_sent)(0 := demo_entry 1 [0, 1] 200000000 True [], 1 := demo_entry 2 [0, 1] 200000000 True []),
     as_sessionRefs := [0 \<mapsto> 2, 1 \<mapsto> 2]\<rparr>"
proof -
  let ?r1 = "demo_expired\<lparr>as_wakeup := False\<rparr>"
  let ?r2 = "?r1\<lparr>as_retryAt := 0\<rparr>"
  let ?r3 = "?r2\<lparr>as_sessions := (as_sessions ?r2)(1 := createAppendSession), as_nextSession := 2, as_currentSession := Some 1\<rparr>"
  let ?r4 = "demo_sent\<lparr>as_wakeup := False, as_failuresPending := 0, as_currentAttempt := 1,
     as_retryAt := 0, as_nextSession := 2, as_currentSession := Some 1,
     as_sessions := (as_sessions demo_sent)(1 := demo_link [1, 2]),
     as_entries := (as_entries demo_sent)(0 := demo_entry 1 [0, 1] 200000000 True [], 1 := demo_entry 2 [0, 1] 200000000 True []),
     as_sessionRefs := [0 \<mapsto> 2, 1 \<mapsto> 2]\<rparr>"
  have "pump_gate 200000000 ?r1 = (True, ?r2)" by (simp add: pump_gate_def demo_expired_eq demo_sent_fields time_IsZero_def)
  moreover have "getSession None ?r2 = (None, ?r3)"
    unfolding demo_expired_eq by (simp add: getSession_def demo_sent_fields numeral_2_eq_2)
  moreover have "submitInflightBatches tiny_env (\<lambda>_. 0) 200000000 (\<lambda>_. None) ?r3 = ?r4"
    unfolding demo_expired_eq
    by (subst demo_send_two [where s = 1 and ss = "[0]" and u = True]) (simp_all add: demo_sent_fields demo_link0 del: One_nat_def)
  ultimately have p: "processInflightQueue tiny_env (\<lambda>_. 0) 200000000 None (\<lambda>_. None) ?r1 = ?r4"
    by (simp add: processInflightQueue_def)
  have "checkTimeouts (\<lambda>_. ''10ns'') (\<lambda>_. 0) 200000000 ?r4 = ?r4" "shouldStopPump ?r4 = (False, ?r4)"
    by (simp_all add: checkTimeouts_def claim_timeout_def demo_sent_fields demo_entry_def time_IsZero_def shouldStopPump_def Let_def)
  moreover have "\<not> as_pumpCancelled demo_expired" unfolding demo_expired_eq by (simp add: demo_sent_fields)
  ultimately show ?thesis unfolding demo_resent_def demo_round_def pump_round_def Let_def p by simp
qed

text \<open>The first session's acknowledgement of the first batch comes late; then the second session
  acknowledges what was written first on it, the second copy of the first batch.\<close>

definition demo_late :: AppendSession where
  "demo_late = handleAck demo_resent 0 (Some (ack_of 0 1))"

definition demo_shifted :: AppendSession where
  "demo_shifted = handleAck demo_late 1 (Some (ack_of 2 3))"

definition demo_acked :: AppendSession where
  "demo_acked = handleAck demo_sent 0 (Some (ack_of 0 1))"

definition demo_failed :: AppendSession where
  "demo_failed = failAllInflight demo_sent (Sentinel ErrSessionClosed)"

lemma handleAck_valid:
  assumes "as_inflightQueue r = e # rest" "s \<in> set (ie_sentOnSessions (as_entries r e))"
    "\<not> ie_completed (as_entries r e)" "\<not> stale_ack r (Some a)" "validateAckLocked r (as_entries r e) (Some a) = None"
  shows "handleAck r s (Some a) = complete_head r s e rest a"
  using assms by (simp add: handleAck_def wasSentOnSessionLocked_def)

lemma demo_resent_fields:
  "as_inflightQueue demo_resent = [0, 1]" "as_lastAckedPosition demo_resent = None"
  "as_entries demo_resent 0 = demo_entry 1 [0, 1] 200000000 True []"
  "as_entries demo_resent 1 = demo_entry 2 [0, 1] 200000000 True []"
  "as_sessions demo_resent 1 = demo_link [1, 2]"
  unfolding demo_resent_eq by (simp_all add: demo_sent_fields del: One_nat_def)

lemma demo_late_eq: "demo_late = complete_head demo_resent 0 0 [1] (ack_of 0 1)"
  unfolding demo_late_def
  by (rule handleAck_valid)
    (simp_all add: demo_resent_fields demo_entry_def stale_ack_def validateAckLocked_def ack_of_def Let_def del: One_nat_def)

lemma complete_head_core:
  "as_inflightQueue (complete_head r s e rest a) = rest" "as_lastAckedPosition (complete_head r s e rest a) = Some a"
  "as_entries (complete_head r s e rest a) = (as_entries r)(e := (as_entries r e)\<lparr>ie_completed := True,
     ie_sentOnSessions := [], ie_resultCh := ie_resultCh (as_entries r e) @ [AckResult a]\<rparr>)"
  using arg_cong [OF core_complete_head [of r s e rest a], of c_queue] arg_cong [OF core_complete_head [of r s e rest a], of c_lastAcked]
    arg_cong [OF core_complete_head [of r s e rest a], of c_entries]
  by (simp_all add: core_of_fields complete_core_def)

lemma fold_other_session: "s \<notin> set ss \<Longrightarrow> as_sessions (fold (upd_session f) ss r) s = as_sessions r s"
  by (induction ss arbitrary: r) (simp_all add: upd_session_def)

lemma demo_late_link: "as_sessions demo_late 1 = demo_link [1, 2]"
proof -
  have "release_sessions [0, 1] (as_sessionRefs demo_resent) = ([], [0 \<mapsto> 1, 1 \<mapsto> 1])"
    unfolding demo_resent_eq by (simp add: fun_eq_iff del: One_nat_def)
  then show ?thesis
    unfolding demo_late_eq complete_head_def releaseEntrySessionsLocked_def closeStaleSessions_def
    by (simp add: demo_resent_fields demo_entry_def upd_entry_def upd_session_def wakeupPump_def Let_def del: One_nat_def)
qed

lemma demo_late_fields:
  "as_inflightQueue demo_late = [1]" "as_lastAckedPosition demo_late = Some (ack_of 0 1)"
  "ie_resultCh (as_entries demo_late 0) = [AckResult (ack_of 0 1)]"
  "as_entries demo_late 1 = demo_entry 2 [0, 1] 200000000 True []"
  unfolding demo_late_eq complete_head_core by (simp_all add: demo_resent_fields demo_entry_def del: One_nat_def)

lemma demo_shifted_eq: "demo_shifted = complete_head demo_late 1 1 [] (ack_of 2 3)"
  unfolding demo_shifted_def
  by (rule handleAck_valid)
    (simp_all add: demo_late_fields demo_entry_def stale_ack_def validateAckLocked_def ack_of_def Let_def word_le_nat_alt del: One_nat_def)

lemma demo_shifted_result:
  "ie_resultCh (as_entries demo_shifted 1) = [AckResult (ack_of 2 3)]"
  unfolding demo_shifted_eq complete_head_core by (simp add: demo_late_fields demo_entry_def del: One_nat_def)

lemma demo_acked_fields:
  "as_inflightQueue demo_acked = [1]" "as_nextEntry demo_acked = 2"
  "ie_resultCh (as_entries demo_acked 0) = [AckResult (ack_of 0 1)]" "as_entries demo_acked 1 = demo_entry 2 [0] 1 False []"
  "ie_input (as_entries demo_acked 0) = demo_in 1"
proof -
  have eq: "demo_acked = complete_head demo_sent 0 0 [1] (ack_of 0 1)"
    unfolding demo_acked_def
    by (rule handleAck_valid)
      (simp_all add: demo_sent_fields demo_entry_def stale_ack_def validateAckLocked_def ack_of_def Let_def del: One_nat_def)
  show "as_inflightQueue demo_acked = [1]" "as_nextEntry demo_acked = 2"
    "ie_resultCh (as_entries demo_acked 0) = [AckResult (ack_of 0 1)]" "as_entries demo_acked 1 = demo_entry 2 [0] 1 False []"
    "ie_input (as_entries demo_acked 0) = demo_in 1"
    unfolding eq using arg_cong [OF core_complete_head [of demo_sent 0 0 "[1]" "ack_of 0 1"], of c_nextEntry]
    by (simp_all add: complete_head_core demo_sent_fields demo_entry_def core_of_fields complete_core_def del: One_nat_def)
qed

section \<open>The run is a run of the step relation\<close>

definition at_rest :: "RetryConfig option \<Rightarrow> AppendSession \<Rightarrow> session_sys \<Rightarrow> bool" where
  "at_rest base r y \<longleftrightarrow> reach (session_init None base 10) session_step y \<and> sy_r y = r \<and> sy_pump y = PIdle \<and> sy_reserved y = []"

lemma at_rest_run:
  assumes "at_rest base r y" "\<And>y. sy_pump y = PIdle \<Longrightarrow> sy_r y = r \<Longrightarrow> run_to y PIdle r'"
  shows "\<exists>y. at_rest base r' y"
proof -
  obtain h t where "steps session_step y (y\<lparr>sy_r := r', sy_pump := PIdle, sy_hist := h, sy_sent := t\<rparr>)"
    using assms(2) [of y] assms(1) by (auto simp: at_rest_def run_to_def)
  then have "reach (session_init None base 10) session_step (y\<lparr>sy_r := r', sy_pump := PIdle, sy_hist := h, sy_sent := t\<rparr>)"
    by (rule steps_reach) (use assms(1) in \<open>simp add: at_rest_def\<close>)
  with assms(1) show ?thesis by (auto simp: at_rest_def intro!: exI)
qed

lemma at_rest_round: "at_rest base r y \<Longrightarrow> \<exists>y. at_rest base (demo_round now r) y"
  by (rule at_rest_run) (use pump_round_run in \<open>auto simp: demo_round_def\<close>)

lemma at_rest_ack: "at_rest base r y \<Longrightarrow> \<exists>y. at_rest base (handleAck r s a) y"
  by (rule at_rest_run) (auto intro!: run_simple ss_ack)

lemma at_rest_submit:
  assumes "at_rest base r y" "fst (tryReserve (as_capacity r) None 9) = Inr True"
  shows "\<exists>y. at_rest base (demo_submit b r) y"
proof -
  let ?c = "snd (tryReserve (as_capacity r) None 9)"
  let ?y1 = "y\<lparr>sy_r := r\<lparr>as_capacity := ?c\<rparr>, sy_reserved := [(demo_in b, 9)]\<rparr>"
  have y: "reach (session_init None base 10) session_step y" "sy_r y = r" "sy_pump y = PIdle" "sy_reserved y = []"
    using assms(1) by (simp_all add: at_rest_def)
  have prep: "prepareAppendInput (Some (demo_in b)) = Inr (Some (demo_in b), 9)"
  proof -
    have "(\<Sum>r\<leftarrow>ai_Records (demo_in b). metered_size r) = 9" by (simp add: demo_in_def metered_size_def)
    then have "validateAppendInput (Some (demo_in b)) = Inr 9"
      using validateAppendInput_Inr [of "demo_in b"] MeteredBatchBytes_eq [of "ai_Records (demo_in b)"]
      by (simp add: demo_in_def MaxBatchRecords_def MaxBatchMeteredBytes_def)
    then show ?thesis by (simp add: prepareAppendInput_def cloneAppendInput_id)
  qed
  have grant: "tryReserve (as_capacity (sy_r y)) None 9 = (Inr True, ?c)" using assms(2) y(2) by (metis prod.collapse)
  have "session_step y (y\<lparr>sy_r := (sy_r y)\<lparr>as_capacity := ?c\<rparr>, sy_reserved := (demo_in b, 9) # sy_reserved y\<rparr>)"
    by (rule ss_reserve [OF prep _ disjI1 [OF grant]]) simp
  then have "session_step y ?y1" by (simp add: y)
  moreover have "session_step ?y1 (?y1\<lparr>sy_r := snd (submit_reserved (r\<lparr>as_capacity := ?c\<rparr>) (demo_in b) 9),
      sy_reserved := remove1 (demo_in b, 9) [(demo_in b, 9)]\<rparr>)"
    using ss_enqueue [of "demo_in b" 9 ?y1] by simp
  ultimately have "reach (session_init None base 10) session_step (?y1\<lparr>sy_r := demo_submit b r,
      sy_reserved := remove1 (demo_in b, 9) [(demo_in b, 9)]\<rparr>)"
    unfolding demo_submit_def by (meson reach_step y(1))
  then show ?thesis using y(3) by (auto simp: at_rest_def intro!: exI)
qed

lemma at_rest_start: "\<exists>y. at_rest None demo_start y"
proof -
  have "session_init None None 10 (new_sys demo_start)"
    unfolding session_init_def using demo_new
    by (auto simp: demo_start demo_options_def defaultMaxInflightBytes_def)
  then show ?thesis by (intro exI [of _ "new_sys demo_start"]) (simp add: at_rest_def new_sys_def reach_init)
qed

lemma demo_reachable:
  "\<exists>y. at_rest None demo_queued y" "\<exists>y. at_rest None demo_sent y" "\<exists>y. at_rest None demo_expired y" "\<exists>y. at_rest None demo_resent y"
  "\<exists>y. at_rest None demo_late y" "\<exists>y. at_rest None demo_acked y"
proof -
  have "fst (tryReserve (as_capacity demo_start) None 9) = Inr True"
    "fst (tryReserve (as_capacity (demo_submit 1 demo_start)) None 9) = Inr True"
    by (simp_all add: demo_submit_def submit_reserved_def enqueueReservedEntry_def Let_def demo_start
      tryReserve_def hasCapacity_def reserveLocked_def wakeupPump_def)
  then show q: "\<exists>y. at_rest None demo_queued y"
    unfolding demo_queued_def using at_rest_start at_rest_submit by blast
  then show s: "\<exists>y. at_rest None demo_sent y" unfolding demo_sent_def using at_rest_round by blast
  then show e: "\<exists>y. at_rest None demo_expired y" unfolding demo_expired_def using at_rest_round by blast
  then show r: "\<exists>y. at_rest None demo_resent y" unfolding demo_resent_def using at_rest_round by blast
  then show "\<exists>y. at_rest None demo_late y" unfolding demo_late_def using at_rest_ack by blast
  from s show "\<exists>y. at_rest None demo_acked y" unfolding demo_acked_def using at_rest_ack by blast
qed

lemma at_rest_open: "at_rest base r y \<Longrightarrow> getSession None r = (None, r') \<Longrightarrow> \<exists>y. at_rest base r' y"
  by (rule at_rest_run) (auto intro!: run_simple ss_open)

lemma at_rest_error: "at_rest base r y \<Longrightarrow> \<exists>y. at_rest base (handleSessionError rnd now r (Some s) err) y"
  by (erule at_rest_run) (metis handleSessionError_run)

section \<open>A denied session, and one under the policy \<open>noSideEffects\<close>\<close>

definition demo_denied :: goerr where
  "demo_denied = S2E \<lparr>e_Message = ''denied'', e_Code = ''permission_denied'', e_Status = 403, e_Origin = ''server''\<rparr>"

lemma demo_denied_facts:
  "\<not> isServerDraining demo_denied" "HasNoSideEffects demo_denied"
  "(case errors_As_S2Error demo_denied of None \<Rightarrow> False | Some s2Err \<Rightarrow> \<not> IsRetryable s2Err) = True"
  by (simp_all add: demo_denied_def isServerDraining_def HasNoSideEffects_def S2Error_HasNoSideEffects_def
      IsRetryable_def errorCodes_def errorCodes_list_def code_info_def)

definition demo_rejected :: AppendSession where
  "demo_rejected = handleSessionError (\<lambda>_. 0) 2 demo_sent (Some 0) demo_denied"

lemma demo_rejected_fields:
  "as_nextEntry demo_rejected = 2" "ie_resultCh (as_entries demo_rejected 0) = [ErrResult demo_denied]"
proof -
  let ?q = "demo_sent\<lparr>as_currentSession := None, as_failuresPending := 1\<rparr>"
  obtain y where "at_rest None demo_sent y" using demo_reachable by blast
  then have "session_inv y" "sy_r y = demo_sent" using session.reach_inv by (auto simp: at_rest_def)
  then have q: "queue_ok (core_of ?q)"
    using claim_core_of [of demo_sent] by (simp add: session_inv_core core_inv_def claim_core_parts demo_sent_fields)
  have cl: "claimSession demo_sent 0 = (True, ?q)"
    by (simp add: claimSession_def demo_sent_fields closeSessionIfUnused_def)
  have "\<not> requiresNoSideEffectsRetries ?q"
    by (simp add: requiresNoSideEffectsRetries_def demo_sent_fields demo_options_def DefaultRetryConfig_def
        retry_defaults AppendRetryPolicyAll_def AppendRetryPolicyNoSideEffects_def)
  then have "resolve_failure (\<lambda>_. 0) 2 ?q 0 demo_denied = failAllInflight ?q demo_denied"
    unfolding resolve_failure_def by (simp only: demo_denied_facts simp_thms if_True if_False)
  then have r: "core_of demo_rejected = (core_of (failAllInflight ?q demo_denied))
      \<lparr>c_failures := c_failures (core_of (failAllInflight ?q demo_denied)) - 1\<rparr>"
    by (simp add: demo_rejected_def handleSessionError_def demo_sent_fields cl core_claimed_error)
  show "as_nextEntry demo_rejected = 2" "ie_resultCh (as_entries demo_rejected 0) = [ErrResult demo_denied]"
    using arg_cong [OF r, of c_nextEntry] fun_cong [OF arg_cong [OF r, of c_entries], of 0]
    unfolding core_failAllInflight [OF q]
    by (simp_all add: core_of_fields fail_core_def Let_def demo_sent_fields demo_entry_def withPriorUncertainty_def)
qed

definition demo_strict :: RetryConfig where
  "demo_strict = DefaultRetryConfig\<lparr>rc_AppendRetryPolicy := AppendRetryPolicyNoSideEffects\<rparr>"

definition strict_start :: AppendSession where
  "strict_start = (case NewAppendSession None (Some demo_strict) 10 of Inr r \<Rightarrow> r)"

definition strict_queued :: AppendSession where
  "strict_queued = demo_submit 1 strict_start"

lemma strict_new: "NewAppendSession None (Some demo_strict) 10 = Inr strict_start"
  by (simp add: NewAppendSession_def strict_start_def applyAppendSessionDefaults_def Let_def)

lemma strict_options: "applyAppendSessionDefaults None (Some demo_strict) = Inr (demo_options\<lparr>aso_RetryConfig := Some demo_strict\<rparr>)"
  by (simp add: applyAppendSessionDefaults_def demo_options_def demo_strict_def Let_def fill_retry_def DefaultRetryConfig_def
   retry_defaults AppendRetryPolicyNoSideEffects_def)

lemmas strict_start = strict_start_def NewAppendSession_def strict_options demo_options_def demo_cap newCapacityTracker_def

lemma strict_reachable: "\<exists>y. at_rest (Some demo_strict) strict_queued y"
proof -
  have "session_init None (Some demo_strict) 10 (new_sys strict_start)"
    unfolding session_init_def using strict_new by (auto simp: strict_start defaultMaxInflightBytes_def)
  then have "at_rest (Some demo_strict) strict_start (new_sys strict_start)"
    by (simp add: at_rest_def new_sys_def reach_init)
  moreover have "fst (tryReserve (as_capacity strict_start) None 9) = Inr True"
    by (simp add: strict_start tryReserve_def hasCapacity_def)
  ultimately show ?thesis unfolding strict_queued_def by (rule at_rest_submit)
qed

lemma strict_queued:
  "as_inflightQueue strict_queued = [0]" "as_options strict_queued = demo_options\<lparr>aso_RetryConfig := Some demo_strict\<rparr>"
  "as_sessions strict_queued 0 = createAppendSession" "as_currentAttempt strict_queued = 0"
  by (simp_all add: strict_queued_def demo_submit_def submit_reserved_def enqueueReservedEntry_def Let_def strict_start
    tryReserve_def hasCapacity_def reserveLocked_def wakeupPump_def demo_in_def)

lemma retry_queue:
  "as_inflightQueue (scheduleRetry rnd now (resetInflightAttemptStarts (markInflightUncertainty r (Some s) err))) = as_inflightQueue r"
proof -
  have upd: "as_inflightQueue (fold (upd_entry f) es r) = as_inflightQueue r" for f es r
    by (induction es arbitrary: r) (simp_all add: upd_entry_def)
  have mark: "as_inflightQueue (fold (\<lambda>e r. if P e r then upd_entry f e r else r) es r) = as_inflightQueue r" for P f es r
    by (induction es arbitrary: r) (simp_all add: upd_entry_def)
  show ?thesis
    by (simp add: scheduleRetry_def resetInflightAttemptStarts_def markInflightUncertainty_def upd mark wakeupPump_def Let_def
        split: option.splits)
qed

end
