(* ===== verification/Append_Session_Props.thy ===== *)
theory Append_Session_Props
  imports Append_Session_Demo
begin

text \<open>
  What the append session guarantees, in every state that any interleaving of its goroutines can reach:
  each batch is resolved exactly once and for good, acknowledgements come in the order of submission,
  the in-flight limits are respected, retries are bounded and only claimed harmless when they were.  One
  run shows where an acknowledgement is delivered to the wrong batch.
\<close>

section \<open>What a round of the pump puts on the wire\<close>

definition frame_of :: "transport_env \<Rightarrow> AppendInput \<Rightarrow> byte list option" where
  "frame_of env input = (case MarshalProtoFrame (te_codec env) (te_marshal env) (convertAppendInputToProto (Some input))
      (te_compression env) of Inl _ \<Rightarrow> None | Inr frame \<Rightarrow> Some frame)"

lemma write_entry_open:
  assumes "\<not> ts_closed (as_sessions r s)" "ts_requestWriter (as_sessions r s)"
    "frame_of env (ie_input (as_entries r e)) = Some fr"
  shows "write_entry env id None r s e = (None, upd_session (\<lambda>p. (markWriteSignalled p)\<lparr>ts_wire := ts_wire p @ [fr]\<rparr>) s r)"
  using assms
  by (auto simp: write_entry_def appendInput_def isClosed_def frame_of_def markWriteSignalled_def Let_def upd_session_def
      split: sum.splits)

lemma mark_sent_entries:
  assumes "mark_sent now r s e = (b, r')"
  shows "as_sessions r' = as_sessions r" "as_inflightQueue r' = as_inflightQueue r"
    "ie_input (as_entries r' x) = ie_input (as_entries r x)" "ie_completed (as_entries r' x) = ie_completed (as_entries r x)"
    "set (ie_sentOnSessions (as_entries r' x)) = set (ie_sentOnSessions (as_entries r x)) \<union> (if b \<and> x = e then {s} else {})"
    "b \<longleftrightarrow> \<not> ie_completed (as_entries r e) \<and> s \<notin> set (ie_sentOnSessions (as_entries r e))"
  using assms by (auto simp: mark_sent_def Let_def upd_entry_def wasSentOnSessionLocked_def split: if_splits)

lemma submit_loop_sends:
  assumes "\<not> ts_closed (as_sessions r s)" "ts_requestWriter (as_sessions r s)" "distinct es"
    "\<forall>e\<in>set es. \<not> ie_completed (as_entries r e) \<and> frame_of env (ie_input (as_entries r e)) \<noteq> None"
    and r': "r' = submit_loop env rnd now (\<lambda>_. None) s es r"
  shows "ts_wire (as_sessions r' s) = ts_wire (as_sessions r s) @ map (\<lambda>e. the (frame_of env (ie_input (as_entries r e))))
      (filter (\<lambda>e. s \<notin> set (ie_sentOnSessions (as_entries r e))) es) \<and>
    (\<forall>e\<in>set es. s \<in> set (ie_sentOnSessions (as_entries r' e))) \<and>
    (\<forall>e. set (ie_sentOnSessions (as_entries r e)) \<subseteq> set (ie_sentOnSessions (as_entries r' e))) \<and>
    as_inflightQueue r' = as_inflightQueue r"
  using assms
proof (induction es arbitrary: r r')
  case (Cons e es)
  obtain b r1 where m: "mark_sent now r s e = (b, r1)" by fastforce
  note m' = mark_sent_entries [OF m]
  show ?case
  proof (cases b)
    case False
    then have sent: "s \<in> set (ie_sentOnSessions (as_entries r e))" using m'(6) Cons.prems(4) by simp
    have "r1 = r" using mark_sent_False m False by auto
    with Cons.IH [of r "submit_loop env rnd now (\<lambda>_. None) s es r"] Cons.prems m False sent
    show ?thesis by auto
  next
    case True
    then have unsent: "s \<notin> set (ie_sentOnSessions (as_entries r e))" using m'(6) by simp
    obtain fr where fr: "frame_of env (ie_input (as_entries r e)) = Some fr" using Cons.prems(4) by auto
    let ?r2 = "upd_session (\<lambda>p. (markWriteSignalled p)\<lparr>ts_wire := ts_wire p @ [fr]\<rparr>) s r1"
    have w: "write_entry env id None r1 s e = (None, ?r2)"
      by (rule write_entry_open) (use Cons.prems(1,2) fr m' in simp_all)
    have r2: "as_entries ?r2 = as_entries r1" "as_inflightQueue ?r2 = as_inflightQueue r"
      "as_sessions ?r2 s = (markWriteSignalled (as_sessions r s))\<lparr>ts_wire := ts_wire (as_sessions r s) @ [fr]\<rparr>"
      using m'(1,2) by (simp_all add: upd_session_def)
    have loop: "r' = submit_loop env rnd now (\<lambda>_. None) s es ?r2" using Cons.prems(5) m True w by simp
    have open2: "\<not> ts_closed (as_sessions ?r2 s)" "ts_requestWriter (as_sessions ?r2 s)"
      unfolding r2 using Cons.prems(1,2) by (simp_all add: markWriteSignalled_def)
    have es: "distinct es" "\<forall>e\<in>set es. \<not> ie_completed (as_entries ?r2 e) \<and> frame_of env (ie_input (as_entries ?r2 e)) \<noteq> None"
      using Cons.prems(3,4) m' by (simp_all add: r2)
    note ih = Cons.IH [OF open2 es loop]
    have keep: "filter (\<lambda>x. s \<notin> set (ie_sentOnSessions (as_entries ?r2 x))) es =
        filter (\<lambda>x. s \<notin> set (ie_sentOnSessions (as_entries r x))) es"
      using Cons.prems(3) m'(5) by (intro filter_cong) (auto simp: r2)
    have wire: "ts_wire (as_sessions r' s) = ts_wire (as_sessions r s) @ fr # map (\<lambda>e. the (frame_of env (ie_input (as_entries r e))))
        (filter (\<lambda>x. s \<notin> set (ie_sentOnSessions (as_entries r x))) es)"
      using ih keep by (simp add: r2 m'(3))
    have sub: "set (ie_sentOnSessions (as_entries r x)) \<subseteq> set (ie_sentOnSessions (as_entries r' x))" for x
      using ih m'(5) [of x] unfolding r2 by blast
    have "s \<in> set (ie_sentOnSessions (as_entries r1 e))" using m'(5) [of e] True by simp
    then have "s \<in> set (ie_sentOnSessions (as_entries r' e))" using ih unfolding r2 by blast
    with ih wire sub unsent fr show ?thesis by (simp add: r2 m'(2))
  qed
qed simp

lemma fold_upd_session_frame:
  "as_pumpCancelled (fold (upd_session f) ss r) = as_pumpCancelled r"
  by (induction ss arbitrary: r) simp_all

section \<open>Properties\<close>

text \<open>C1: In every reachable state of an append session, each batch ever queued either is still in the
  queue and has no result, or has left it with exactly one result; the queue holds the newest batches
  in the order of submission.\<close>

theorem session_exactly_one_result:
  assumes "reach (session_init opts base timeout) session_step y"
  shows "(\<exists>k. as_inflightQueue (sy_r y) = [k..<as_nextEntry (sy_r y)]) \<and>
    (\<forall>e<as_nextEntry (sy_r y).
       e \<in> set (as_inflightQueue (sy_r y)) \<and> ie_resultCh (as_entries (sy_r y) e) = [] \<or>
       e \<notin> set (as_inflightQueue (sy_r y)) \<and> (\<exists>x. ie_resultCh (as_entries (sy_r y) e) = [x]))"
proof -
  have "queue_ok (core_of (sy_r y))"
    using session.reach_inv [OF assms] by (simp add: session_inv_core core_inv_def)
  then show ?thesis
    by (fastforce simp: queue_ok_def core_of_fields length_Suc_conv split: if_splits)
qed

text \<open>A delivered result is final: whatever the goroutines do afterwards, the batch keeps its input
  and its result, and a closed session stays closed.\<close>

theorem session_results_final:
  assumes "reach (session_init opts base timeout) session_step y" and "steps session_step y y'"
  shows "(\<forall>e<as_nextEntry (sy_r y). ie_input (as_entries (sy_r y') e) = ie_input (as_entries (sy_r y) e) \<and>
      (\<forall>x. ie_resultCh (as_entries (sy_r y) e) = [x] \<longrightarrow> ie_resultCh (as_entries (sy_r y') e) = [x])) \<and>
    (as_closed (sy_r y) \<longrightarrow> as_closed (sy_r y'))"
proof -
  have inv: "session_inv y" by (rule session.reach_inv [OF assms(1)])
  have le: "core_le (core_of (sy_r y)) (core_of (sy_r y'))"
    using session.steps_rel [OF assms(2) inv] by (simp add: session_le_def)
  have q: "queue_ok (core_of (sy_r y'))"
    using session.steps_inv [OF assms(2) inv] by (simp add: session_inv_core core_inv_def)
  have "ie_resultCh (as_entries (sy_r y') e) = [x]"
    if "e < as_nextEntry (sy_r y)" "ie_resultCh (as_entries (sy_r y) e) = [x]" for e x
  proof -
    have less: "e < as_nextEntry (sy_r y')" using le that(1) by (simp add: core_le_def core_of_fields)
    have pre: "prefix [x] (ie_resultCh (as_entries (sy_r y') e))"
      using le that by (auto simp: core_le_def core_of_fields)
    have "length (ie_resultCh (as_entries (sy_r y') e)) \<le> 1"
      using q less by (auto simp: queue_ok_def core_of_fields split: if_splits)
    with pre show ?thesis by (auto simp: prefix_def)
  qed
  with le show ?thesis by (auto simp: core_le_def core_of_fields)
qed

text \<open>C2: Every acknowledgement delivered to a batch covers exactly as many sequence numbers as the input
  that was submitted has records, without wrap-around; the acknowledged ends strictly increase in the order of
  submission, and the session's last acknowledged position is at least the end of each of them.\<close>

theorem session_acks_in_order:
  assumes "reach (session_init opts base timeout) session_step y" "e < as_nextEntry (sy_r y)"
    and "ie_resultCh (as_entries (sy_r y) e) = [AckResult a]"
  shows "sp_SeqNum (aa_Start a) \<le> sp_SeqNum (aa_End a) \<and>
    sp_SeqNum (aa_End a) - sp_SeqNum (aa_Start a) = word_of_nat (length (ai_Records (ie_input (as_entries (sy_r y) e)))) \<and>
    ack_fits (as_entries (sy_r y) e) a \<and>
    (\<forall>e' a'. e' < e \<longrightarrow> ie_resultCh (as_entries (sy_r y) e') = [AckResult a'] \<longrightarrow> ack_end a' < ack_end a) \<and>
    (\<exists>l. LastAckedPosition (sy_r y) = Some l \<and> ack_end a \<le> ack_end l)"
proof -
  have "acks_ok (core_of (sy_r y))"
    using session.reach_inv [OF assms(1)] by (simp add: session_inv_core core_inv_def)
  then have a: "ack_fits (as_entries (sy_r y) e) a"
    "\<forall>e' a'. e' < e \<longrightarrow> ie_resultCh (as_entries (sy_r y) e') = [AckResult a'] \<longrightarrow> ack_end a' < ack_end a"
    "\<exists>l. LastAckedPosition (sy_r y) = Some l \<and> ack_end a \<le> ack_end l"
    using assms(2,3) unfolding acks_ok_def core_of_fields LastAckedPosition_def by blast+
  have "ie_expectedCount (as_entries (sy_r y) e) = length (ai_Records (ie_input (as_entries (sy_r y) e)))"
    using session_count [OF assms(1)] assms(2) by (simp add: count_ok_def core_of_fields)
  then show ?thesis using a unfolding ack_fits_def by simp
qed

text \<open>C3: The bytes the session accounts for are exactly the metered bytes of the queued batches and of
  the submissions that have reserved but not queued yet, and never exceed the configured limit; nor does
  their number exceed the configured number of batches.\<close>

theorem session_inflight_limit:
  assumes "reach (session_init opts base timeout) session_step y"
  shows "ct_curBytes (as_capacity (sy_r y)) =
      (\<Sum>e\<leftarrow>as_inflightQueue (sy_r y). ie_meteredBytes (as_entries (sy_r y) e)) + sum_list (map snd (sy_reserved y)) \<and>
    ct_curBytes (as_capacity (sy_r y)) \<le> uint (aso_MaxInflightBytes (as_options (sy_r y))) \<and>
    (aso_MaxInflightBatches (as_options (sy_r y)) \<noteq> 0 \<longrightarrow>
      length (as_inflightQueue (sy_r y)) + length (sy_reserved y) \<le> unat (aso_MaxInflightBatches (as_options (sy_r y))))"
proof -
  let ?c = "as_capacity (sy_r y)" and ?o = "as_options (sy_r y)"
  have inv: "core_inv (core_of (sy_r y)) y" using session.reach_inv [OF assms] by (simp add: session_inv_core)
  then have led: "ledger_inv (?c, held_bytes (core_of (sy_r y)) (sy_reserved y))"
    by (simp add: core_inv_def caps_ok_def core_of_fields)
  have mx: "ct_maxBytes ?c = uint (aso_MaxInflightBytes ?o)" "ct_maxItems ?c = uint (aso_MaxInflightBatches ?o)"
    using inv by (simp_all add: core_inv_def ctl_ok_def core_of_fields)
  have items: "int (length (as_inflightQueue (sy_r y)) + length (sy_reserved y)) \<le> int (unat (aso_MaxInflightBatches ?o))"
    if "aso_MaxInflightBatches ?o \<noteq> 0"
  proof -
    have "uint (aso_MaxInflightBatches ?o) \<noteq> 0" using that by (simp add: unsigned_eq_0_iff)
    then have "0 < ct_maxItems ?c" using unsigned_greater_eq [of "aso_MaxInflightBatches ?o", where 'a = int] unfolding mx by linarith
    then show ?thesis using led mx by (simp add: ledger_inv_def tracker_ok_def held_bytes_def core_of_fields)
  qed
  have "length (as_inflightQueue (sy_r y)) + length (sy_reserved y) \<le> unat (aso_MaxInflightBatches ?o)"
    if "aso_MaxInflightBatches ?o \<noteq> 0" using items [OF that] by (simp only: of_nat_le_iff)
  then show ?thesis using led mx
    by (simp add: ledger_inv_def tracker_ok_def held_bytes_def core_of_fields)
qed

text \<open>C4: An error delivered to a batch that claims to have no side effects is true to its claim as far as
  the session's retries go: every earlier failure after which the batch was retried was itself free of
  side effects or the server draining.\<close>

theorem session_no_side_effects_sound:
  assumes "reach (session_init opts base timeout) session_step y" "e < as_nextEntry (sy_r y)"
    and "ie_resultCh (as_entries (sy_r y) e) = [ErrResult err]" "HasNoSideEffects err"
  shows "\<forall>cause. (e, cause) \<in> set (sy_hist y) \<longrightarrow> isNoSideEffectsError cause \<or> isServerDraining cause"
proof -
  have t: "taint_ok (core_of (sy_r y)) (sy_hist y)"
    using session.reach_inv [OF assms(1)] by (simp add: session_inv_core core_inv_def)
  have "\<not> ie_priorUncertainty (c_entries (core_of (sy_r y)) e)"
    by (rule taint_ok_result [OF t]) (use assms in \<open>simp_all add: core_of_fields\<close>)
  with t show ?thesis by (auto simp: taint_ok_def harmless_def)
qed

text \<open>C5: On every transport session the batches are sent in the order of submission and each at most once,
  and the session is referenced exactly as long as a queued batch was sent on it.\<close>

theorem session_send_order:
  assumes "reach (session_init opts base timeout) session_step y"
  shows "sorted_wrt (<) (sent_on (sy_sent y) s) \<and> distinct (sent_on (sy_sent y) s) \<and>
    (as_sessionRefs (sy_r y) s = None \<longleftrightarrow>
       (\<forall>e\<in>set (as_inflightQueue (sy_r y)). \<not> wasSentOnSessionLocked (as_entries (sy_r y) e) s)) \<and>
    (\<forall>n. as_sessionRefs (sy_r y) s = Some n \<longrightarrow>
       n = int (length (filter (\<lambda>e. wasSentOnSessionLocked (as_entries (sy_r y) e) s) (as_inflightQueue (sy_r y)))))"
proof -
  have inv: "core_inv (core_of (sy_r y)) y" using session.reach_inv [OF assms] by (simp add: session_inv_core)
  then have o: "sorted_wrt (<) (sent_on (sy_sent y) s)" by (simp add: core_inv_def order_ok_def)
  have r: "as_sessionRefs (sy_r y) s = ref_of (sent_count (core_of (sy_r y)) s)"
    using inv by (simp add: core_inv_def refs_ok_def core_of_fields)
  have "distinct (sent_on (sy_sent y) s)" using o strict_sorted_iff by blast
  with o show ?thesis unfolding r sent_count_def ref_of_def core_of_fields wasSentOnSessionLocked_def
    by (auto simp: filter_empty_conv)
qed

text \<open>Between two acknowledgements the session makes at most \<open>MaxAttempts\<close> attempts: the attempt counter
  stays below the configured maximum; and no transport session is opened while a claimed failure waits
  to be resolved.\<close>

theorem session_attempts_bounded:
  assumes "reach (session_init opts base timeout) session_step y"
  shows "0 \<le> as_currentAttempt (sy_r y) \<and>
    as_currentAttempt (sy_r y) < max 1 (rc_MaxAttempts (session_config (sy_r y))) \<and>
    (sy_pending y \<noteq> [] \<longrightarrow> (\<forall>startErr r w. getSession startErr (sy_r y) = (w, r) \<longrightarrow>
       as_nextSession r = as_nextSession (sy_r y)))"
proof -
  have inv: "core_inv (core_of (sy_r y)) y" using session.reach_inv [OF assms] by (simp add: session_inv_core)
  have "as_failuresPending (sy_r y) = int (length (sy_pending y))"
    using inv by (simp add: core_inv_def ctl_ok_def core_of_fields)
  then have "as_nextSession r = as_nextSession (sy_r y)"
    if "sy_pending y \<noteq> []" "getSession startErr (sy_r y) = (w, r)" for startErr w r
    using that by (auto simp: getSession_def split: if_splits)
  moreover have "clamp_attempts (session_config (sy_r y)) = max 1 (rc_MaxAttempts (session_config (sy_r y)))"
    by (simp add: clamp_attempts_def)
  ultimately show ?thesis using core_inv_config [OF inv] by simp
qed

text \<open>Under the policy \<open>noSideEffects\<close> a failure that is not the server draining is retried only when it
  cannot have had an effect (its error says so, or nothing was pending on the failed session) and every
  batch sent behind the head carries a match sequence number.\<close>

theorem session_policy_no_side_effects:
  assumes "reach (session_init opts base timeout) session_step y" "requiresNoSideEffectsRetries (sy_r y)"
    and "\<not> isServerDraining err" "as_inflightQueue (resolve_failure rnd now (sy_r y) s err) \<noteq> []"
  shows "(isNoSideEffectsError err \<or> \<not> effectSignalled (as_sessions (sy_r y) s)) \<and>
    (\<forall>e\<in>set (tl (as_inflightQueue (sy_r y))). ie_sentOnSessions (as_entries (sy_r y) e) = [] \<or>
       ai_MatchSeqNum (ie_input (as_entries (sy_r y) e)) \<noteq> None)"
proof -
  let ?r = "sy_r y"
  have q: "queue_ok (core_of ?r)" using session.reach_inv [OF assms(1)] by (simp add: session_inv_core core_inv_def)
  have "resolve_failure rnd now ?r s err \<noteq> failAllInflight ?r err" using assms(4) fail_all_queue [OF q] by auto
  then have "canRetryUnderNoSideEffects ?r (Some s) err" "\<not> hasNonIdempotentSentPipelinedEntries ?r"
    using assms(2,3) by (auto simp: resolve_failure_def split: if_splits)
  then show ?thesis
    by (auto simp: canRetryUnderNoSideEffects_def hasNonIdempotentSentPipelinedEntries_def isIdempotentEntry_def drop_Suc
        split: if_splits)
qed

text \<open>A terminal failure resolves everything at once: every queued batch gets an error, the queue is
  empty, the session is closed and only submissions that still hold a reservation are accounted for.\<close>

theorem session_fail_all:
  assumes "reach (session_init opts base timeout) session_step y" and "r = failAllInflight (sy_r y) err"
  shows "as_inflightQueue r = [] \<and> as_closed r \<and> as_pumpCancelled r \<and>
    (\<forall>e<as_nextEntry r. \<exists>x. ie_resultCh (as_entries r e) = [x]) \<and>
    (\<forall>e\<in>set (as_inflightQueue (sy_r y)). ie_resultCh (as_entries r e) =
       [ErrResult (withPriorUncertainty err (ie_priorUncertainty (as_entries (sy_r y) e)))]) \<and>
    ct_curBytes (as_capacity r) = sum_list (map snd (sy_reserved y))"
proof -
  have inv: "core_inv (core_of (sy_r y)) y" using session.reach_inv [OF assms(1)] by (simp add: session_inv_core)
  then have q: "queue_ok (core_of (sy_r y))" by (simp add: core_inv_def)
  have inv': "core_inv (core_of r) y" unfolding assms(2) by (rule fail_all_inv [OF inv])
  note core = core_failAllInflight [OF q, of err, folded assms(2)]
  have fields: "as_inflightQueue r = []" "as_closed r"
    using arg_cong [OF core, of c_queue] arg_cong [OF core, of c_closed] by (simp_all add: core_of_fields fail_core_def Let_def)
  have ent: "as_entries r e = (if e \<in> set (as_inflightQueue (sy_r y)) then (as_entries (sy_r y) e)\<lparr>ie_completed := True,
      ie_resultCh := ie_resultCh (as_entries (sy_r y) e) @
        [ErrResult (withPriorUncertainty err (ie_priorUncertainty (as_entries (sy_r y) e)))]\<rparr> else as_entries (sy_r y) e)" for e
    using fun_cong [OF arg_cong [OF core, of c_entries], of e] by (simp add: core_of_fields fail_core_def Let_def)
  have "ie_resultCh (as_entries (sy_r y) e) = []" if "e \<in> set (as_inflightQueue (sy_r y))" for e
    using queue_ok_open [OF q, of e] that by (simp add: core_of_fields)
  moreover have "\<exists>x. ie_resultCh (as_entries r e) = [x]" if "e < as_nextEntry r" for e
    using inv' that fields(1) by (auto simp: core_inv_def queue_ok_def core_of_fields length_Suc_conv)
  moreover have "ct_curBytes (as_capacity r) = sum_list (map snd (sy_reserved y))"
    using inv' fields(1) by (simp add: core_inv_def caps_ok_def held_bytes_def ledger_inv_def core_of_fields)
  moreover have "as_pumpCancelled r"
    unfolding assms(2) failAllInflight_def failAllInflightLocked_def closeAllSessions_def Let_def split_beta
    by (simp add: fold_upd_session_frame)
  ultimately show ?thesis using fields ent by simp
qed

text \<open>C6: A pass of the pump over the queue puts exactly the batches not yet written to the current session on
  its wire, one frame each, in the order of submission, and afterwards every queued batch has been sent
  on that session, provided the session is open and writes and marshalling succeed.\<close>

theorem submitInflightBatches_complete:
  assumes "reach (session_init opts base timeout) session_step y" "submit_snapshot (sy_r y) = Some (s, es)"
    and "\<not> ts_closed (as_sessions (sy_r y) s)" "ts_requestWriter (as_sessions (sy_r y) s)"
    and "\<forall>e\<in>set (as_inflightQueue (sy_r y)). frame_of env (ie_input (as_entries (sy_r y) e)) \<noteq> None"
    and "r' = submitInflightBatches env rnd now (\<lambda>_. None) (sy_r y)"
  shows "ts_wire (as_sessions r' s) = ts_wire (as_sessions (sy_r y) s) @
      map (\<lambda>e. the (frame_of env (ie_input (as_entries (sy_r y) e))))
        (filter (\<lambda>e. \<not> wasSentOnSessionLocked (as_entries (sy_r y) e) s) (as_inflightQueue (sy_r y))) \<and>
    as_inflightQueue r' = as_inflightQueue (sy_r y) \<and>
    (\<forall>e\<in>set (as_inflightQueue r'). wasSentOnSessionLocked (as_entries r' e) s)"
proof -
  have es: "es = as_inflightQueue (sy_r y)"
    using assms(2) by (auto simp: submit_snapshot_def split: option.splits if_splits)
  have q: "queue_ok (core_of (sy_r y))"
    using session.reach_inv [OF assms(1)] by (simp add: session_inv_core core_inv_def)
  have d: "distinct es" "\<forall>e\<in>set es. \<not> ie_completed (as_entries (sy_r y) e) \<and> frame_of env (ie_input (as_entries (sy_r y) e)) \<noteq> None"
    using queue_ok_distinct [OF q] queue_ok_open [OF q] assms(5) by (simp_all add: es core_of_fields)
  have "r' = submit_loop env rnd now (\<lambda>_. None) s es (sy_r y)"
    using assms(2,6) by (simp add: submitInflightBatches_def)
  from submit_loop_sends [OF assms(3,4) d this] show ?thesis by (simp add: es wasSentOnSessionLocked_def)
qed

text \<open>C39: Acknowledgements are matched with batches by position, not by session.  After a request timeout
  both batches are written again on a new session; the first session's late acknowledgement completes the
  first batch, and then the new session's first acknowledgement, the one for its first frame, which is
  the first batch again, is delivered as the result of the second batch.\<close>

theorem late_ack_misattributed:
  "\<exists>y. reach (session_init None None 10) session_step y \<and>
     ts_wire (as_sessions (sy_r y) 1) = [demo_frame 1, demo_frame 2] \<and> ts_pendingWrites (as_sessions (sy_r y) 1) = 2 \<and>
     ie_input (as_entries (sy_r y) 0) = demo_in 1 \<and> ie_input (as_entries (sy_r y) 1) = demo_in 2 \<and>
     ie_resultCh (as_entries (sy_r y) 0) = [AckResult (ack_of 0 1)] \<and> as_inflightQueue (sy_r y) = [1] \<and>
     ie_resultCh (as_entries (handleAck (sy_r y) 1 (Some (ack_of 2 3))) 1) = [AckResult (ack_of 2 3)]"
proof -
  obtain y where y: "at_rest None demo_late y" using demo_reachable(5) by blast
  have "ie_input (as_entries demo_late 0) = demo_in 1"
    unfolding demo_late_eq complete_head_core by (simp add: demo_resent_fields demo_entry_def)
  with y show ?thesis using demo_late_link demo_late_fields demo_shifted_result
    by (intro exI [of _ y]) (simp add: at_rest_def demo_link_def demo_entry_def demo_shifted_def)
qed

section \<open>Witnesses\<close>

lemma at_rest_reach: "at_rest base r y \<Longrightarrow> reach (session_init None base 10) session_step y \<and> sy_r y = r \<and> sy_pump y = PIdle \<and> sy_reserved y = []"
  by (simp add: at_rest_def)

theorem session_exactly_one_result_witness:
  "\<exists>k x. as_inflightQueue demo_acked = [k..<2] \<and> ie_resultCh (as_entries demo_acked 0) = [x]"
proof -
  obtain y where y: "at_rest None demo_acked y" using demo_reachable by blast
  from session_exactly_one_result [of None None 10 y] at_rest_reach [OF y] show ?thesis
    by (auto simp: demo_acked_fields)
qed

theorem session_results_final_witness:
  "ie_resultCh (as_entries (handleAck demo_acked 0 (Some (ack_of 1 2))) 0) = [AckResult (ack_of 0 1)]"
proof -
  obtain y where y: "at_rest None demo_acked y" using demo_reachable by blast
  let ?y = "y\<lparr>sy_r := handleAck (sy_r y) 0 (Some (ack_of 1 2))\<rparr>"
  have "steps session_step y ?y" by (rule steps_trans [where step = session_step, OF steps_refl ss_ack])
  with session_results_final [of None None 10 y ?y] at_rest_reach [OF y] show ?thesis by (simp add: demo_acked_fields)
qed

theorem session_acks_in_order_witness:
  "sp_SeqNum (aa_End (ack_of 0 1)) - sp_SeqNum (aa_Start (ack_of 0 1)) =
    word_of_nat (length (ai_Records (ie_input (as_entries demo_acked 0))))"
proof -
  obtain y where y: "at_rest None demo_acked y" using demo_reachable by blast
  have r: "reach (session_init None None 10) session_step y" "sy_r y = demo_acked" using at_rest_reach [OF y] by simp_all
  from session_acks_in_order [OF r(1), of 0 "ack_of 0 1"] show ?thesis by (simp add: r(2) demo_acked_fields)
qed

theorem session_inflight_limit_witness:
  "(\<Sum>e\<leftarrow>as_inflightQueue demo_sent. ie_meteredBytes (as_entries demo_sent e)) = 18 \<and>
    ct_curBytes (as_capacity demo_sent) = 18 \<and> 18 \<le> uint (aso_MaxInflightBytes (as_options demo_sent))"
proof -
  obtain y where y: "at_rest None demo_sent y" using demo_reachable by blast
  from session_inflight_limit [of None None 10 y] at_rest_reach [OF y] show ?thesis
    by (auto simp: demo_sent_fields)
qed

theorem session_send_order_witness:
  "as_sessionRefs demo_sent 0 = Some 2 \<and>
    (\<exists>y :: session_sys. sy_r y = demo_sent \<and> sorted_wrt (<) (sent_on (sy_sent y) 0) \<and> distinct (sent_on (sy_sent y) 0))"
proof -
  obtain y where y: "at_rest None demo_sent y" using demo_reachable by blast
  from session_send_order [of None None 10 y 0] at_rest_reach [OF y]
  have "sorted_wrt (<) (sent_on (sy_sent y) 0) \<and> distinct (sent_on (sy_sent y) 0)" by blast
  with at_rest_reach [OF y] show ?thesis by (intro conjI exI [of _ y]) (simp_all add: demo_sent_fields)
qed

theorem session_attempts_bounded_witness:
  "as_currentAttempt demo_resent = 1 \<and> 1 < max 1 (rc_MaxAttempts (session_config demo_resent))"
proof -
  obtain y where y: "at_rest None demo_resent y" using demo_reachable by blast
  have "as_currentAttempt demo_resent = 1" unfolding demo_resent_eq by simp
  with session_attempts_bounded [of None None 10 y] at_rest_reach [OF y] show ?thesis by simp
qed

theorem session_fail_all_witness:
  "as_inflightQueue demo_failed = [] \<and> as_closed demo_failed \<and>
    ie_resultCh (as_entries demo_failed 0) = [ErrResult (Sentinel ErrSessionClosed)]"
proof -
  obtain y where y: "at_rest None demo_sent y" using demo_reachable by blast
  from session_fail_all [of None None 10 y demo_failed "Sentinel ErrSessionClosed"] at_rest_reach [OF y] show ?thesis
    by (auto simp: demo_sent_fields demo_failed_def demo_entry_def withPriorUncertainty_def)
qed

theorem session_no_side_effects_sound_witness:
  "HasNoSideEffects demo_denied \<and> (\<exists>y :: session_sys. sy_r y = demo_rejected \<and>
    (0, demo_timeout) \<notin> set (sy_hist y))"
proof -
  obtain y0 where "at_rest None demo_sent y0" using demo_reachable by blast
  from at_rest_error [OF this] obtain y where y: "at_rest None demo_rejected y" unfolding demo_rejected_def by blast
  from session_no_side_effects_sound [of None None 10 y 0 demo_denied] at_rest_reach [OF y] demo_denied_facts(2)
  have "\<forall>cause. (0, cause) \<in> set (sy_hist y) \<longrightarrow> isNoSideEffectsError cause \<or> isServerDraining cause"
    by (simp add: demo_rejected_fields)
  with at_rest_reach [OF y] demo_denied_facts(2) demo_timeout_facts show ?thesis by blast
qed

theorem session_policy_no_side_effects_witness:
  "\<not> effectSignalled (as_sessions strict_queued 0)"
proof -
  obtain y where y: "at_rest (Some demo_strict) strict_queued y" using strict_reachable by blast
  have strict: "requiresNoSideEffectsRetries strict_queued"
    by (simp add: requiresNoSideEffectsRetries_def strict_queued demo_strict_def)
  have cfg: "\<not> clamp_attempts (session_config strict_queued) - 1 \<le> as_currentAttempt strict_queued"
    by (simp add: session_config_def strict_queued demo_strict_def clamp_attempts_def DefaultRetryConfig_def retry_defaults)
  have can: "canRetryUnderNoSideEffects strict_queued (Some 0) demo_timeout"
    by (simp add: canRetryUnderNoSideEffects_def strict_queued effectSignalled_def createAppendSession_def)
  have pipe: "\<not> hasNonIdempotentSentPipelinedEntries strict_queued"
    by (simp add: hasNonIdempotentSentPipelinedEntries_def strict_queued)
  have "as_inflightQueue (resolve_failure (\<lambda>_. 0) 1 strict_queued 0 demo_timeout) = [0]"
    unfolding resolve_failure_def Let_def using strict cfg can pipe
    by (simp only: demo_timeout_facts simp_thms if_True if_False retry_queue) (simp add: strict_queued)
  from session_policy_no_side_effects [of None "Some demo_strict" 10 y demo_timeout "\<lambda>_. 0" 1 0] this
    at_rest_reach [OF y] strict demo_timeout_facts show ?thesis by simp
qed

theorem submitInflightBatches_complete_witness:
  "ts_wire (as_sessions (submitInflightBatches tiny_env (\<lambda>_. 0) 1 (\<lambda>_. None) (snd (getSession None demo_queued))) 0) =
     [demo_frame 1, demo_frame 2]"
proof -
  let ?r = "demo_queued\<lparr>as_sessions := (as_sessions demo_queued)(0 := createAppendSession), as_nextSession := 1,
     as_currentSession := Some 0\<rparr>"
  have g: "getSession None demo_queued = (None, ?r)" by (simp add: getSession_def demo_queued)
  obtain y0 where "at_rest None demo_queued y0" using demo_reachable by blast
  from at_rest_open [OF this g] obtain y where y: "at_rest None ?r y" by blast
  have fr: "frame_of tiny_env (demo_in b) = Some (demo_frame b)" for b
    by (simp add: frame_of_def MarshalProtoFrame_eq tiny_env_def convertAppendInputToProto_Some pb_record_of_def demo_in_def demo_frame_def)
  have "submit_snapshot ?r = Some (0, [0, 1])"
    by (simp add: submit_snapshot_def demo_queued demo_link_hold demo_link0 del: One_nat_def)
  moreover have "as_entries ?r 0 = demo_entry 1 [] 0 False []" "as_entries ?r 1 = demo_entry 2 [] 0 False []" "as_inflightQueue ?r = [0, 1]"
    by (simp_all add: demo_queued del: One_nat_def)
  moreover have "\<forall>e\<in>set (as_inflightQueue ?r). frame_of tiny_env (ie_input (as_entries ?r e)) \<noteq> None"
    using calculation(2-4) by (simp add: demo_input fr del: One_nat_def)
  moreover have "\<not> ts_closed (as_sessions ?r 0)" "ts_requestWriter (as_sessions ?r 0)" "ts_wire (as_sessions ?r 0) = []"
    by (simp_all add: createAppendSession_def)
  moreover have "\<not> wasSentOnSessionLocked (demo_entry b [] 0 False []) 0" for b
    by (simp add: demo_entry_def wasSentOnSessionLocked_def)
  ultimately show ?thesis
    using submitInflightBatches_complete [of None None 10 y 0 "[0, 1]" tiny_env _ "\<lambda>_. 0" 1, THEN conjunct1, OF _ _ _ _ _ refl]
      at_rest_reach [OF y] fr
    unfolding g snd_conv by (simp only:) (simp add: demo_input del: One_nat_def)
qed

end
