(* ===== verification/Producer_Props.thy ===== *)
theory Producer_Props
  imports Producer_Runs Append_Session_Props
begin

text \<open>
  What the producer guarantees: one result per accepted record and no send on a closed channel, bytes
  within the limit, submission in the order of acceptance, a \<open>Flush\<close> that returns without an error only
  when everything accepted before it is acknowledged, sequence numbers of single records, and a terminal error
  that stays.
\<close>

section \<open>What no step undoes\<close>

text \<open>Resolving records touches the results, permits and the panic flag only.\<close>

lemma resolve_record_frame [simp]:
  "p_batcher (resolve_record o' m p) = p_batcher p" "p_terminalErr (resolve_record o' m p) = p_terminalErr p"
  "p_closing (resolve_record o' m p) = p_closing p" "p_consumer (resolve_record o' m p) = p_consumer p"
  "p_acks (resolve_record o' m p) = p_acks p" "p_taken (resolve_record o' m p) = p_taken p"
  "p_batcherCtx (resolve_record o' m p) = p_batcherCtx p"
  by (simp_all add: resolve_record_def split: option.splits)

lemma fold_resolve_frame [simp]:
  "p_batcher (fold (\<lambda>m. resolve_record (out m) m) meta p) = p_batcher p"
  "p_terminalErr (fold (\<lambda>m. resolve_record (out m) m) meta p) = p_terminalErr p"
  "p_closing (fold (\<lambda>m. resolve_record (out m) m) meta p) = p_closing p"
  "p_consumer (fold (\<lambda>m. resolve_record (out m) m) meta p) = p_consumer p"
  "p_acks (fold (\<lambda>m. resolve_record (out m) m) meta p) = p_acks p"
  "p_taken (fold (\<lambda>m. resolve_record (out m) m) meta p) = p_taken p"
  "p_batcherCtx (fold (\<lambda>m. resolve_record (out m) m) meta p) = p_batcherCtx p"
  "p_heap (fold (\<lambda>m. resolve_record (out m) m) meta p) = p_heap p"
  "p_capacity (fold (\<lambda>m. resolve_record (out m) m) meta p) = p_capacity p"
  by (induction meta arbitrary: p) simp_all

lemma resolve_errors_frame [simp]:
  "p_batcher (resolve_errors meta err p) = p_batcher p" "p_terminalErr (resolve_errors meta err p) = p_terminalErr p"
  "p_closing (resolve_errors meta err p) = p_closing p" "p_consumer (resolve_errors meta err p) = p_consumer p"
  "p_acks (resolve_errors meta err p) = p_acks p" "p_taken (resolve_errors meta err p) = p_taken p"
  "p_batcherCtx (resolve_errors meta err p) = p_batcherCtx p"
  unfolding resolve_errors_def by (rule fold_resolve_frame)+

lemma dispatchBatchError_frame [simp]:
  "p_batcher (dispatchBatchError meta err p) = p_batcher p" "p_terminalErr (dispatchBatchError meta err p) = p_terminalErr p"
  "p_closing (dispatchBatchError meta err p) = p_closing p" "p_consumer (dispatchBatchError meta err p) = p_consumer p"
  "p_acks (dispatchBatchError meta err p) = p_acks p" "p_taken (dispatchBatchError meta err p) = p_taken p"
  by (simp_all add: dispatchBatchError_def Let_def release_batch_def)

lemma resolveBatchAck_frame [simp]:
  "p_batcher (resolveBatchAck meta ack p) = p_batcher p" "p_terminalErr (resolveBatchAck meta ack p) = p_terminalErr p"
  "p_closing (resolveBatchAck meta ack p) = p_closing p" "p_consumer (resolveBatchAck meta ack p) = p_consumer p"
  "p_acks (resolveBatchAck meta ack p) = p_acks p" "p_taken (resolveBatchAck meta ack p) = p_taken p"
  by (simp_all add: resolveBatchAck_def Let_def release_batch_def)

lemma settle_drop_frame [simp]:
  "p_batcher (settle_drop ev p) = p_batcher p" "p_terminalErr (settle_drop ev p) = p_terminalErr p"
  "p_closing (settle_drop ev p) = p_closing p" "p_batcherCtx (settle_drop ev p) = p_batcherCtx p"
  by (cases ev; simp add: release_batch_def)+

lemma with_batcher_frame [simp]:
  "p_batcher (with_batcher b p) = b" "p_terminalErr (with_batcher b p) = p_terminalErr p" "p_closing (with_batcher b p) = p_closing p"
  "p_batcherCtx (with_batcher b p) = p_batcherCtx p"
proof -
  have "p_batcher (fold settle_drop evs q) = p_batcher q \<and> p_terminalErr (fold settle_drop evs q) = p_terminalErr q \<and>
      p_closing (fold settle_drop evs q) = p_closing q \<and> p_batcherCtx (fold settle_drop evs q) = p_batcherCtx q" for evs q
    by (induction evs arbitrary: q) simp_all
  then show "p_batcher (with_batcher b p) = b" "p_terminalErr (with_batcher b p) = p_terminalErr p"
    "p_closing (with_batcher b p) = p_closing p" "p_batcherCtx (with_batcher b p) = p_batcherCtx p"
    by (simp_all add: with_batcher_def)
qed

text \<open>The batcher's output and the accepted records are only extended, a terminal error stays.\<close>

definition grows :: "Producer \<Rightarrow> Producer \<Rightarrow> bool" where
  "grows p p' \<longleftrightarrow> prefix (b_out (p_batcher p)) (b_out (p_batcher p')) \<and>
     (p_terminalErr p = None \<or> p_terminalErr p' = p_terminalErr p) \<and> (p_closing p \<longrightarrow> p_closing p')"

lemma grows_refl [simp, intro]: "grows p p"
  by (simp add: grows_def)

lemma grows_trans: "grows a b \<Longrightarrow> grows b c \<Longrightarrow> grows a c"
  unfolding grows_def by (auto intro: prefix_order.trans)

lemma grows_quiet: "quiet p p' \<Longrightarrow> grows p p'"
  by (auto simp: grows_def quiet_def view_def)

lemma grows_batcher: "\<exists>evs. emits (p_batcher p) evs b new \<and> P evs \<Longrightarrow> grows p (with_batcher b p)"
  by (auto simp: grows_def emits_def)

lemma grows_fields: "p_batcher p' = p_batcher p \<Longrightarrow> p_terminalErr p' = p_terminalErr p \<Longrightarrow> p_closing p' = p_closing p \<Longrightarrow> grows p p'"
  by (simp add: grows_def)

lemma grows_record: "recordTerminalError_producer err p = (t, p') \<Longrightarrow> grows p p'"
  using recordTerminalError_quiet grows_quiet by blast

lemma grows_submit_fails: "grows p (snd (submit_fails err p))"
proof -
  obtain e p' where m: "mapSubmitError err p = (e, p')" by fastforce
  have "grows p p'" by (rule grows_quiet [OF mapSubmitError_quiet [OF m]])
  with m show ?thesis by (auto simp: submit_fails_def grows_def)
qed

lemma grows_set_tracker [simp]: "grows p (set_tracker c p)" "grows p ((set_tracker c p)\<lparr>p_sub := s\<rparr>)" "grows p (p\<lparr>p_sub := s\<rparr>)"
  by (simp_all add: grows_def set_tracker_def)

lemma grows_close_batch: "grows p (snd (close_batch sel p))"
  using grows_batcher [OF close_emits [of "p_batcher p" sel]]
  by (auto simp: close_batch_def split_beta Let_def grows_def split: option.splits)

lemma grows_add:
  assumes "Submit_add rec sel1 sel2 p = (res, p')"
  shows "grows p p'"
proof -
  let ?q = "with_permit rec p" and ?k = "p_nextId p"
  have q: "grows p ?q" "grows p (free_permit ?k ?q)" by (simp_all add: grows_def free_permit_def)
  have checks: "grows p (snd (submit_checks (free_permit ?k ?q)))"
    using grows_trans [OF q(2) grows_quiet] submit_checks_quiet [OF prod.collapse [symmetric]] by blast
  obtain err b where a: "addWithPermit (p_batcher ?q) rec (Some ?k) (Some ?k) sel1 sel2 = (err, b)" by fastforce
  have b: "grows p (with_batcher b ?q)"
  proof (cases err)
    case None
    then have "\<exists>evs i. emits (p_batcher ?q) evs b [\<lparr>rm_index = i, rm_resultCh = ?k, rm_permit = Some ?k\<rparr>]"
      using add_emits a by blast
    then show ?thesis by (auto simp: grows_def emits_def)
  next
    case (Some e)
    then have "b = p_batcher ?q" using a by (auto simp: addWithPermit_eq split: if_splits)
    then show ?thesis by (simp add: grows_def)
  qed
  have fb: "grows p (free_permit ?k (with_batcher b ?q))" using b by (simp add: grows_def free_permit_def)
  show ?thesis using assms checks b fb a
    by (cases "fst (submit_checks ?q)"; cases err) (auto simp: Submit_add_def Let_def)
qed

lemma grows_try: "grows p (snd (Submit_try rec p))"
  using grows_trans [OF grows_set_tracker(1) grows_submit_fails]
  by (auto simp: Submit_try_def split: prod.splits sum.splits bool.splits)

lemma grows_reserve: "grows p (snd (Submit_reserve first rec p))"
  using grows_trans [OF grows_set_tracker(1) grows_submit_fails] grows_submit_fails
  by (simp add: Submit_reserve_def Let_def split: prod.splits option.splits)

lemma grows_backpressure: "grows p (snd (Submit_flush rec sel p))"
proof -
  have "grows p (with_batcher (snd (flushForBackpressure (p_batcher p) sel)) p)"
    by (rule grows_batcher [OF backpressure_emits])
  from this grows_trans [OF this grows_submit_fails] grows_trans [OF this grows_set_tracker(3)] show ?thesis
    by (simp add: Submit_flush_def split_beta Let_def split: option.splits)
qed

lemma grows_order: "grows p (snd (flush_order sel p))"
proof -
  let ?p = "p\<lparr>p_nextBarrier := Suc (p_nextBarrier p)\<rparr>"
  let ?b = "snd (flushBarrier (p_batcher p) (p_nextBarrier p) sel (p_batcherCtx p) None)"
  have "\<exists>evs. emits (p_batcher ?p) evs ?b [] \<and> True"
    using barrier_emits [of "p_batcher p" "p_nextBarrier p" sel "p_batcherCtx p"] by auto
  then have "grows ?p (with_batcher ?b ?p)" by (rule grows_batcher)
  then have 1: "grows p (with_batcher ?b ?p)" by (simp add: grows_def)
  have "quiet (with_batcher ?b ?p) (snd (flush_order sel p))"
    by (auto simp: flush_order_def split_beta Let_def split: option.splits)
  with 1 show ?thesis by (blast intro: grows_trans grows_quiet)
qed

lemma grows_record_then:
  "grows p (snd (recordTerminalError_producer err p))" "grows p ((snd (recordTerminalError_producer err p))\<lparr>p_consumer := c\<rparr>)"
  "grows p (dispatchBatchError meta t (snd (recordTerminalError_producer err p)))"
proof -
  show 1: "grows p (snd (recordTerminalError_producer err p))" by (rule grows_quiet) simp
  then show "grows p ((snd (recordTerminalError_producer err p))\<lparr>p_consumer := c\<rparr>)"
    "grows p (dispatchBatchError meta t (snd (recordTerminalError_producer err p)))"
    by (simp_all add: grows_def)
qed

lemma grows_consume: "grows p (consumeBatches submitErr p)"
proof (cases "messages (p_batcher p) ! p_taken p")
  case (Batch input meta)
  let ?p = "p\<lparr>p_taken := Suc (p_taken p)\<rparr>"
  let ?p' = "?p\<lparr>p_submitted := p_submitted p @ [input]\<rparr>"
  have "grows p ?p'" by (simp add: grows_def)
  from grows_trans [OF this grows_record_then(2)] Batch show ?thesis
    by (auto simp: consumeBatches_def processBatch_def Let_def split_beta grows_def split: option.splits)
qed (simp_all add: consumeBatches_def grows_def)

lemma grows_known: "grows p (submission_known input meta err p)"
  using grows_record_then(2) by (auto simp: submission_known_def split_beta grows_fields split: option.splits)

lemma grows_acked: "grows p (batch_acked w res p)"
proof -
  have "grows p (q\<lparr>p_acks := a\<rparr>)" if "grows p q" for q a using that by (simp add: grows_def)
  moreover have "grows p (resolveBatchAck (snd w) ack p)" for ack by (simp add: grows_def)
  ultimately show ?thesis using grows_record_then(3)
    by (simp add: batch_acked_def Let_def split_beta split: sum.splits)
qed

lemma grows_Close_batcher: "grows p (Close_batcher sel p)"
proof -
  have "grows q ((case err of Some err \<Rightarrow> snd (recordTerminalError_producer err q) | None \<Rightarrow> q)\<lparr>p_close := c\<rparr>)" for q err c
    using grows_record_then(1) by (auto simp: grows_def split: option.splits)
  from grows_trans [OF grows_close_batch this] show ?thesis by (simp add: Close_batcher_def split_beta Let_def)
qed

lemma step_grows:
  assumes "producer_step answer (p, acc) (p', acc')"
  shows "grows p p' \<and> prefix acc acc'"
  using assms
proof cases
  case (pr_add rec sel1 sel2 res)
  then show ?thesis using grows_add by (auto split: sum.splits)
next
  case (pr_timer sel tseq)
  then show ?thesis using grows_batcher [OF timer_emits] by (simp add: timer_fires_def)
next
  case (pr_user_flush sel)
  then show ?thesis using grows_batcher [OF flush_emits] by (simp add: Batcher.Flush_def)
next
  case (pr_closer sel)
  then show ?thesis using grows_close_batch [of p sel] by (simp add: grows_def)
next
  case (pr_after_batcher err)
  then show ?thesis using grows_quiet [OF quiet_trans [OF after_batcher_quiet flag_quiet(2)]] by simp
next
  case (pr_after_ctx err)
  then show ?thesis using grows_quiet [OF quiet_trans [OF after_ctx_quiet flag_quiet(3)]] by simp
qed (auto simp: grows_try grows_reserve grows_backpressure grows_close_batch grows_order grows_consume grows_known grows_acked
    grows_Close_batcher grows_fields sync_error_def answer_barrier_def intro: grows_quiet)

interpretation producer_runs: monotone_system "producer_init opts provider" "producer_step answer"
  "producer_inv answer (bo_MatchSeqNum (applyBatchingDefaults opts))" "\<lambda>s s'. grows (fst s) (fst s') \<and> prefix (snd s) (snd s')"
  for opts provider answer
  by unfold_locales (auto intro: grows_trans prefix_order.trans dest: step_grows)

section \<open>The limit of the tracker\<close>

definition limit :: "Producer \<Rightarrow> int" where
  "limit p = ct_maxBytes (own_tracker p)"

lemma limit_quiet: "quiet p p' \<Longrightarrow> limit p' = limit p"
  by (simp add: limit_def quietD)

lemma limit_fields: "p_heap p' = p_heap p \<Longrightarrow> p_capacity p' = p_capacity p \<Longrightarrow> limit p' = limit p"
  by (simp add: limit_def own_tracker_def)

lemma limit_with_batcher: "limit (with_batcher b p) = limit p"
  by (simp add: limit_def with_batcher_max)

lemma limit_set_tracker: "ct_maxBytes c = limit p \<Longrightarrow> limit (set_tracker c p) = limit p"
  by (simp add: limit_def)

lemma limit_updates [simp]:
  "limit (p\<lparr>p_sub := s\<rparr>) = limit p" "limit (p\<lparr>p_consumer := c\<rparr>) = limit p" "limit (p\<lparr>p_acks := a\<rparr>) = limit p"
  "limit (p\<lparr>p_taken := n\<rparr>) = limit p" "limit (p\<lparr>p_submitted := xs\<rparr>) = limit p" "limit (p\<lparr>p_results := r\<rparr>) = limit p"
  "limit (p\<lparr>p_batcherCtx := e\<rparr>) = limit p" "limit (p\<lparr>p_closers := b\<rparr>) = limit p" "limit (p\<lparr>p_afterBatcher := b\<rparr>) = limit p"
  "limit (p\<lparr>p_afterCtx := b\<rparr>) = limit p" "limit (p\<lparr>p_close := cl\<rparr>) = limit p" "limit (p\<lparr>p_nextBarrier := k\<rparr>) = limit p"
  "limit (p\<lparr>p_barriers := bs\<rparr>) = limit p" "limit (p\<lparr>p_appendErr := e\<rparr>) = limit p" "limit (p\<lparr>p_terminalErr := e\<rparr>) = limit p"
  by (rule limit_fields; simp)+

lemma limit_settle [simp]:
  "limit (dispatchBatchError meta err p) = limit p" "limit (resolveBatchAck meta ack p) = limit p"
proof -
  have r: "limit (release_batch meta q) = limit q" for q
    by (simp add: limit_def own_tracker_def release_batch_def releaseProducerPermits_def release_loop_max)
  have "limit (resolve_errors meta err q) = limit q" for q by (rule limit_fields) simp_all
  with r show "limit (dispatchBatchError meta err p) = limit p" by (simp add: dispatchBatchError_def Let_def)
  have "limit (fold (\<lambda>m. resolve_record (out m) m) meta q) = limit q" for out q by (rule limit_fields) simp_all
  with r show "limit (resolveBatchAck meta ack p) = limit p" by (simp add: resolveBatchAck_def Let_def)
qed

lemma limit_record [simp]: "limit (snd (recordTerminalError_producer err p)) = limit p"
  by (rule limit_quiet) simp

lemma limit_submit_fails: "limit (snd (submit_fails err p)) = limit p"
proof -
  obtain e p' where m: "mapSubmitError err p = (e, p')" by fastforce
  have "limit p' = limit p" by (rule limit_quiet [OF mapSubmitError_quiet [OF m]])
  with m show ?thesis by (simp add: submit_fails_def)
qed

lemma tryReserve_max: "tryReserve c e n = (r, c') \<Longrightarrow> ct_maxBytes c' = ct_maxBytes c"
  by (auto simp: tryReserve_def split: if_splits option.splits)

lemma limit_try: "limit (snd (Submit_try rec p)) = limit p"
proof -
  obtain r c where t: "tryReserve (own_tracker p) (submit_ctxErr p) (record_bytes rec) = (r, c)" by fastforce
  have "limit (set_tracker c p) = limit p" by (rule limit_set_tracker) (use tryReserve_max [OF t] in \<open>simp add: limit_def\<close>)
  with t show ?thesis by (simp add: Submit_try_def limit_submit_fails split: sum.splits bool.splits)
qed

lemma limit_reserve: "limit (snd (Submit_reserve first rec p)) = limit p"
proof -
  let ?res = "if first then reserve (record_bytes rec) [(own_tracker p, submit_ctxErr p)]
    else reserve_wait (record_bytes rec) [(own_tracker p, submit_ctxErr p)]"
  have "ct_maxBytes c = ct_maxBytes (own_tracker p)" if "?res = Some (e, c)" for e c
    using that by (auto dest: tryReserve_max split: if_splits option.splits prod.splits sum.splits bool.splits)
  then have "limit (set_tracker c p) = limit p" if "?res = Some (e, c)" for e c
    using that by (intro limit_set_tracker) (simp add: limit_def)
  then show ?thesis by (cases ?res) (auto simp: Submit_reserve_def Let_def limit_submit_fails split: option.splits)
qed

lemma limit_permit: "limit (with_permit rec p) = limit p" "limit (free_permit k p) = limit p"
proof -
  show "limit (with_permit rec p) = limit p" by (simp add: limit_def)
  show "limit (free_permit k p) = limit p"
    by (simp add: limit_def own_tracker_def free_permit_def release_permit_def take_permit_def release_tracker_def)
qed

lemma limit_add: "limit (snd (Submit_add rec sel1 sel2 p)) = limit p"
proof -
  have "limit (snd (submit_checks q)) = limit q" for q
    by (rule limit_quiet) (use submit_checks_quiet [OF prod.collapse [symmetric]] in blast)
  then show ?thesis
    by (simp add: Submit_add_def Let_def limit_with_batcher limit_permit split: option.splits prod.splits)
qed

lemma limit_close_batch [simp]: "limit (snd (close_batch sel p)) = limit p"
  by (simp add: close_batch_def split_beta Let_def limit_with_batcher split: option.splits)

lemma step_limit:
  assumes "producer_step answer (p, acc) (p', acc')"
  shows "limit p' = limit p"
  using assms
proof cases
  case (pr_add rec sel1 sel2 res)
  then show ?thesis using limit_add [of rec sel1 sel2 p] by simp
next
  case (pr_order sel)
  have "limit (snd (flush_order sel p)) = limit p"
    by (simp add: flush_order_def split_beta Let_def limit_with_batcher split: option.splits)
  with pr_order show ?thesis by simp
next
  case (pr_consume submitErr)
  have "limit (consumeBatches submitErr p) = limit p"
    by (simp add: consumeBatches_def processBatch_def split_beta Let_def split: batch_event.splits option.splits)
  with pr_consume show ?thesis by simp
next
  case (pr_close_batcher sel)
  have "limit (Close_batcher sel p) = limit p"
    by (simp add: Close_batcher_def split_beta Let_def split: option.splits)
  with pr_close_batcher show ?thesis by simp
next
  case (pr_receive k sel res ch)
  then show ?thesis by simp
qed (simp_all add: limit_try limit_reserve Submit_flush_def split_beta Let_def limit_with_batcher limit_submit_fails
    timer_fires_def submission_known_def sync_error_def answer_barrier_def batch_acked_def limit_quiet
    split: option.splits sum.splits)

lemma reach_limit:
  assumes "reach (producer_init opts provider) (producer_step answer) (p, acc)"
  shows "limit p = (case provider of None \<Rightarrow> sint defaultMaxInflightBytes | Some n \<Rightarrow> n)"
proof -
  have "limit (fst s) = (case provider of None \<Rightarrow> sint defaultMaxInflightBytes | Some n \<Rightarrow> n)"
    if "reach (producer_init opts provider) (producer_step answer) s" for s
    using that
  proof (induction rule: reach.induct)
    case (reach_init s)
    then show ?case
      by (simp add: producer_init_def limit_def own_tracker_def newProducerWithSession_def newCapacityTracker_def Let_def split: option.splits)
  next
    case (reach_step s s')
    then show ?case using step_limit by (metis prod.collapse)
  qed
  from this [OF assms] show ?thesis by simp
qed

section \<open>Accounting\<close>

definition unresolved :: "Producer \<Rightarrow> entry list \<Rightarrow> entry list" where
  "unresolved p acc = filter (\<lambda>e. rch_sent (p_results p (entry_id e)) = []) acc"

lemma dom_entry_bytes: "dom (entry_bytes acc) = entry_id ` set acc"
  by (simp add: entry_bytes_def dom_map_of_conv_image_fst image_image)

lemma entry_bytes_in: "entries_ok acc \<Longrightarrow> e \<in> set acc \<Longrightarrow> entry_bytes acc (entry_id e) = Some (record_bytes (fst e))"
  unfolding entry_bytes_def by (rule map_of_is_SomeI) (auto simp: entries_ok_def comp_def)

lemma live_unresolved:
  assumes "producer_inv answer start (p, acc)"
  shows "rm_resultCh ` set (live p) = entry_id ` set (unresolved p acc)"
    "e \<in> set acc \<Longrightarrow> rch_sent (p_results p (entry_id e)) = [] \<or>
      (\<exists>o'. rch_sent (p_results p (entry_id e)) = [o']) \<and> rch_closed (p_results p (entry_id e))"
proof -
  note o = producer_invD(3) [OF assms]
  have a: "rm_resultCh m \<in> entry_id ` set acc \<and> rch_sent (p_results p (rm_resultCh m)) = []" if "m \<in> set (live p)" for m
  proof -
    have "entry_bytes acc (rm_resultCh m) \<noteq> None" "p_results p (rm_resultCh m) = new_resultChan" using o that by (auto simp: owns_def)
    then show ?thesis using dom_entry_bytes [of acc] by (auto simp: new_resultChan_def domIff)
  qed
  have b: "(\<exists>o'. rch_sent (p_results p (entry_id e)) = [o']) \<and> rch_closed (p_results p (entry_id e))"
    if "e \<in> set acc" "entry_id e \<notin> rm_resultCh ` set (live p)" for e
    using o that dom_entry_bytes [of acc] by (auto simp: owns_def)
  show "rm_resultCh ` set (live p) = entry_id ` set (unresolved p acc)"
    using a b by (force simp: unresolved_def)
  show "rch_sent (p_results p (entry_id e)) = [] \<or>
      (\<exists>o'. rch_sent (p_results p (entry_id e)) = [o']) \<and> rch_closed (p_results p (entry_id e))" if "e \<in> set acc"
    using a b that by (cases "entry_id e \<in> rm_resultCh ` set (live p)") auto
qed

lemma live_bytes:
  assumes "producer_inv answer start (p, acc)"
  shows "(\<Sum>m\<leftarrow>live p. permit_bytes p (rm_resultCh m)) = (\<Sum>e\<leftarrow>unresolved p acc. record_bytes (fst e))"
proof -
  note i = producer_invD [OF assms]
  let ?f = "\<lambda>k. the (entry_bytes acc k)"
  have d: "distinct (map rm_resultCh (live p))" "distinct (map entry_id (unresolved p acc))"
    using i(2,3) by (auto simp: owns_def entries_ok_def unresolved_def distinct_map_filter)
  have "(\<Sum>m\<leftarrow>live p. permit_bytes p (rm_resultCh m)) = sum_list (map ?f (map rm_resultCh (live p)))"
    using i(3) unfolding map_map comp_def by (intro arg_cong [of _ _ sum_list] map_cong) (auto simp: owns_def)
  also have "\<dots> = (\<Sum>k\<in>rm_resultCh ` set (live p). ?f k)" using sum_list_distinct_conv_sum_set [OF d(1), of ?f] by (simp only: set_map)
  also have "\<dots> = (\<Sum>k\<in>entry_id ` set (unresolved p acc). ?f k)" by (simp only: live_unresolved(1) [OF assms])
  also have "\<dots> = sum_list (map ?f (map entry_id (unresolved p acc)))" using sum_list_distinct_conv_sum_set [OF d(2), of ?f] by (simp only: set_map)
  also have "\<dots> = (\<Sum>e\<leftarrow>unresolved p acc. record_bytes (fst e))"
    unfolding map_map comp_def using entry_bytes_in [OF i(2)]
    by (intro arg_cong [of _ _ sum_list] map_cong) (auto simp: unresolved_def)
  finally show ?thesis .
qed

lemma batcher_closed_metas: "batcher_inv start (b, acc) \<Longrightarrow> b_chanClosed b \<Longrightarrow> b_recordMeta b = []"
  by (auto simp: batcher_inv_def batcher_core_def)

lemma done_live:
  assumes "producer_inv answer start (p, acc)" "p_consumer p = ConDone"
  shows "live p = []"
  using producer_invD(1,5) [OF assms(1)] assms(2) batcher_closed_metas
  by (auto simp: live_def queued_def held_def taken_ok_def)

lemma inputs_messages: "concat (map event_input (messages b)) = concat (map event_input (b_out b))"
proof -
  have "concat (map event_input (filter (\<lambda>ev. \<not> is_Dropped ev) evs)) = concat (map event_input evs)" for evs
  proof (induction evs)
    case (Cons ev evs)
    then show ?case by (cases ev) auto
  qed simp
  then show ?thesis by (simp add: messages_def)
qed

lemma records_of_inputs: "\<forall>ev\<in>set evs. \<not> is_Dropped ev \<Longrightarrow>
    concat (map ai_Records (concat (map event_input evs))) = concat (map event_records evs)"
proof (induction evs)
  case (Cons ev evs)
  then show ?case by (cases ev) auto
qed simp

lemma prefix_concat_map: "prefix xs ys \<Longrightarrow> prefix (concat (map f xs)) (concat (map f ys))"
  by (auto simp: prefix_def)

lemma meta_of_mem:
  assumes "e \<in> set es" "fst (snd e) = Some k"
  shows "\<exists>m\<in>set (meta_of es). rm_resultCh m = k"
proof -
  obtain i where "i < length es" "es ! i = e" using assms(1) by (auto simp: in_set_conv_nth)
  with assms(2) show ?thesis by (auto simp: meta_of_def intro!: bexI [of _ i])
qed

lemma group_metas:
  assumes "list_all2 event_group evs groups" "\<forall>ev\<in>set evs. \<not> is_Dropped ev" "e \<in> set (concat groups)" "fst (snd e) = Some k"
  shows "\<exists>m\<in>set (concat (map event_meta evs)). rm_resultCh m = k"
  using assms(1-3)
proof (induction evs groups rule: list_all2_induct)
  case (Cons ev evs g groups)
  show ?case
  proof (cases "e \<in> set g")
    case True
    with Cons.hyps Cons.prems(1) have "event_meta ev = meta_of g" by (cases ev) auto
    with meta_of_mem [OF True assms(4)] show ?thesis by auto
  next
    case False
    with Cons show ?thesis by auto
  qed
qed simp

lemma no_drop_before:
  assumes "\<forall>ev\<in>set (dropWhile (\<lambda>ev. \<not> is_Dropped ev) (pre @ Barrier k # post)). \<not> is_Barrier ev"
  shows "\<forall>ev\<in>set pre. \<not> is_Dropped ev"
proof (rule ccontr)
  assume "\<not> ?thesis"
  then have "dropWhile (\<lambda>ev. \<not> is_Dropped ev) (pre @ Barrier k # post) = dropWhile (\<lambda>ev. \<not> is_Dropped ev) pre @ Barrier k # post"
    by (auto simp: dropWhile_append1)
  with assms show False by auto
qed

text \<open>Ordering the barrier: everything accepted so far is in front of it.\<close>

lemma flush_order_covers:
  assumes inv: "producer_inv answer start (p, acc)" and run: "flush_order sel p = (None, p')"
  shows "\<exists>pre groups. b_out (p_batcher p') = pre @ [Barrier (p_nextBarrier p)] \<and> list_all2 event_group pre groups \<and> acc = concat groups"
proof -
  let ?b = "p_batcher p" and ?k = "p_nextBarrier p"
  have r: "fst (flushBarrier ?b ?k sel (p_batcherCtx p) None) = None"
    and b': "p_batcher p' = snd (flushBarrier ?b ?k sel (p_batcherCtx p) None)"
    using run by (auto simp: flush_order_def split_beta Let_def split: option.splits if_splits)
  obtain e b1 where f: "flushLocked ?b sel = (e, b1)" by fastforce
  have out: "b_out (p_batcher p') = b_out b1 @ [Barrier ?k]"
    using r b' f by (auto simp: flushBarrier_def split: if_splits option.splits)
  have "batcher_inv start (b1, acc)" using flush_keeps_inv [OF producer_invD(1) [OF inv], of sel] f by simp
  moreover have "b_buffer b1 = []"
  proof (cases "b_buffer ?b = []")
    case False
    show ?thesis by (rule flushLocked_fields(1) [OF False f])
  qed (use f in auto)
  ultimately obtain groups where "list_all2 event_group (b_out b1) groups" "acc = concat groups"
    by (auto simp: batcher_inv_def batcher_core_def)
  with out show ?thesis by blast
qed

section \<open>Properties\<close>

text \<open>C8: Every record accepted by \<open>Submit\<close> has its own result channel, on which nothing or exactly one
  result was sent, and then it is closed; no goroutine ever sends on a closed channel, which would panic.  The
  records without a result are exactly those the batcher's buffer or channel, the consumer or a
  waiting goroutine still holds, each in one place.\<close>

theorem producer_one_result:
  assumes "reach (producer_init opts provider) (producer_step answer) (p, acc)"
  shows "\<not> p_panicked p \<and> distinct (map entry_id acc) \<and> distinct (map rm_resultCh (live p)) \<and>
    rm_resultCh ` set (live p) = entry_id ` set (unresolved p acc) \<and>
    (\<forall>e\<in>set acc. rch_sent (p_results p (entry_id e)) = [] \<or>
      (\<exists>o'. rch_sent (p_results p (entry_id e)) = [o']) \<and> rch_closed (p_results p (entry_id e)))"
proof -
  note inv = producer.reach_inv [OF assms]
  show ?thesis using producer_invD(2,3) [OF inv] live_unresolved [OF inv] by (auto simp: owns_def entries_ok_def)
qed

text \<open>C10: The bytes a producer accounts for are exactly the bytes of the accepted records without a
  result and of the submission that has reserved but not added yet, and never exceed the limit of the session
  it was created with.\<close>

theorem producer_inflight_bytes:
  assumes "reach (producer_init opts provider) (producer_step answer) (p, acc)"
  shows "ct_curBytes (own_tracker p) = (\<Sum>e\<leftarrow>unresolved p acc. record_bytes (fst e)) + sub_held (p_sub p) \<and>
    ct_curBytes (own_tracker p) \<le> (case provider of None \<Rightarrow> sint defaultMaxInflightBytes | Some n \<Rightarrow> n)"
proof -
  note inv = producer.reach_inv [OF assms]
  show ?thesis using producer_invD(3) [OF inv] live_bytes [OF inv] reach_limit [OF assms]
    by (simp add: owns_def tracker_ok_def limit_def)
qed

text \<open>When the consumer has ended, which \<open>Close\<close> and a \<open>Flush\<close> after a terminal error wait for,
  every accepted record has its result and only a submission in progress holds bytes.\<close>

theorem producer_drained:
  assumes "reach (producer_init opts provider) (producer_step answer) (p, acc)" "p_consumer p = ConDone"
  shows "(\<forall>e\<in>set acc. \<exists>o'. rch_sent (p_results p (entry_id e)) = [o']) \<and> ct_curBytes (own_tracker p) = sub_held (p_sub p)"
proof -
  note inv = producer.reach_inv [OF assms(1)]
  have l: "live p = []" by (rule done_live [OF inv assms(2)])
  then have "unresolved p acc = []" using live_unresolved(1) [OF inv] by simp
  then have "rch_sent (p_results p (entry_id e)) \<noteq> []" if "e \<in> set acc" for e
    using that by (auto simp: unresolved_def filter_empty_conv)
  then show ?thesis using live_unresolved(2) [OF inv] producer_invD(3) [OF inv] l by (auto simp: owns_def)
qed

text \<open>The batches handed to the session are the first batches the batcher sent, in order and
  without a gap, whatever fails; as long as the batcher's context is alive their records are the first
  records accepted.\<close>

theorem producer_submits_in_order:
  assumes "reach (producer_init opts provider) (producer_step answer) (p, acc)"
  shows "prefix (p_submitted p) (concat (map event_input (b_out (p_batcher p)))) \<and>
    (p_batcherCtx p = None \<longrightarrow> prefix (concat (map ai_Records (p_submitted p))) (map fst acc))"
proof -
  note i = producer_invD [OF producer.reach_inv [OF assms]]
  let ?b = "p_batcher p"
  have "prefix (p_submitted p) (concat (map event_input (take (p_taken p) (messages ?b))))"
    using i(8) by (simp add: Producer_Steps.submits_order_ok_def Let_def)
  also have "prefix \<dots> (concat (map event_input (messages ?b)))" by (rule prefix_concat_map) (rule take_is_prefix)
  finally have pre: "prefix (p_submitted p) (concat (map event_input (b_out ?b)))" unfolding inputs_messages .
  have "prefix (concat (map ai_Records (p_submitted p))) (map fst acc)" if ctx: "p_batcherCtx p = None"
  proof -
    have "\<forall>ev\<in>set (b_out ?b). \<not> is_Dropped ev" using i(9) ctx by (simp add: drops_ok_def)
    then have rec: "concat (map ai_Records (concat (map event_input (b_out ?b)))) = concat (map event_records (b_out ?b))"
      by (rule records_of_inputs)
    obtain groups pending where g: "list_all2 event_group (b_out ?b) groups" "acc = concat groups @ pending"
      using i(1) by (auto simp: batcher_inv_def batcher_core_def)
    note prefix_concat_map [OF pre, of ai_Records, unfolded rec]
    also have "prefix (concat (map event_records (b_out ?b))) (map fst acc)"
      unfolding g(2) event_group_records [OF g(1)] by simp
    finally show ?thesis .
  qed
  with pre show ?thesis by simp
qed

text \<open>C7: \<open>Flush\<close> keeps its promise: if its barrier was ordered when the records \<open>acc\<close> were accepted, and
  later the barrier is answered without an error, then every one of these records has been acknowledged by
  the session.\<close>

theorem producer_flush_durable:
  assumes "reach (producer_init opts provider) (producer_step answer) (p, acc)" "sel_ok p sel"
    and "flush_order sel p = (None, p')" "steps (producer_step answer) (p', acc) (p'', acc'')"
    and "flush_barrier_wait None (p_nextBarrier p) p'' = Some None"
  shows "\<forall>e\<in>set acc. \<exists>o'. rch_sent (p_results p'' (entry_id e)) = [o'] \<and> po_err o' = None"
proof -
  let ?k = "p_nextBarrier p" and ?start = "bo_MatchSeqNum (applyBatchingDefaults opts)"
  have inv: "producer_inv answer ?start (p, acc)" by (rule producer.reach_inv [OF assms(1)])
  have "producer_step answer (p, acc) (p', acc)" using pr_order [OF assms(2), of answer acc] assms(3) by simp
  then have inv': "producer_inv answer ?start (p', acc)" by (rule producer_step_inv [OF _ inv])
  have inv'': "producer_inv answer ?start (p'', acc'')" by (rule producer.steps_inv [OF assms(4) inv'])
  note i = producer_invD [OF inv'']
  obtain pre groups where pre: "b_out (p_batcher p') = pre @ [Barrier ?k]" "list_all2 event_group pre groups" "acc = concat groups"
    using flush_order_covers [OF inv assms(3)] by blast
  have "prefix (b_out (p_batcher p')) (b_out (p_batcher p''))"
    using producer_runs.steps_rel [OF assms(4) inv'] by (simp add: grows_def)
  then obtain post where out: "b_out (p_batcher p'') = pre @ Barrier ?k # post" using pre(1) by (auto simp: prefix_def)
  have nodrop: "\<forall>ev\<in>set pre. \<not> is_Dropped ev"
    by (rule no_drop_before [of pre ?k post]) (use i(9) out in \<open>simp add: drops_ok_def\<close>)
  let ?msgs = "messages (p_batcher p'')"
  have msgs: "?msgs = pre @ Barrier ?k # filter (\<lambda>ev. \<not> is_Dropped ev) post" using nodrop by (simp add: messages_def out)
  have ans: "None \<in> set (p_barriers p'' ?k)" using assms(5) by (auto simp: flush_barrier_wait_def split: list.splits)
  then have "Barrier ?k \<in> set (take (p_taken p'') ?msgs)" using i(10) unfolding barriers_ok_def by (metis empty_iff empty_set)
  then obtain j where j: "j < p_taken p''" "j < length ?msgs" "?msgs ! j = Barrier ?k" by (auto simp: in_set_conv_nth)
  have d: "distinct (concat (map barrier_id ?msgs))" using i(10) by (simp add: barriers_ok_def)
  have at: "length pre < length ?msgs" "?msgs ! length pre = Barrier ?k" by (simp_all add: msgs)
  have "\<not> j < length pre" using nth_take_new [OF d at] j(2,3) by (metis in_set_conv_nth length_take min_less_iff_conj nth_take)
  moreover have "\<not> length pre < j" using nth_take_new [OF d j(2,3)] at by (metis in_set_conv_nth length_take min_less_iff_conj nth_take)
  ultimately have "length pre < p_taken p''" using j(1) by simp
  then have acked: "\<forall>m\<in>set (concat (map event_meta (take (length pre) ?msgs))). acked p'' m"
    using i(11) at(2) ans unfolding flush_ok_def by blast
  show ?thesis
  proof
    fix e assume e: "e \<in> set acc"
    have "fst (snd e) = Some (entry_id e)" using producer_invD(2) [OF inv] e by (simp add: entries_ok_def)
    from group_metas [OF pre(2) nodrop _ this] e pre(3)
    obtain m where "m \<in> set (concat (map event_meta pre))" "rm_resultCh m = entry_id e" by blast
    with acked show "\<exists>o'. rch_sent (p_results p'' (entry_id e)) = [o'] \<and> po_err o' = None"
      by (auto simp: msgs acked_def) (metis)
  qed
qed

text \<open>A terminal error is final: whatever happens afterwards it stays the producer's error, every later
  \<open>Submit\<close> and \<open>Flush\<close> reports exactly it, so does \<open>Close\<close>, and the error batches failed with is no other.\<close>

theorem producer_terminal_sticky:
  assumes "reach (producer_init opts provider) (producer_step answer) (p, acc)" "p_terminalErr p = Some err"
    and "steps (producer_step answer) (p, acc) (p', acc')"
  shows "p_terminalErr p' = Some err \<and> p_closing p' \<and> Submit_enter rec p' = (Some err, p') \<and>
    Flush_enter None p' = (FlushDrain err, p') \<and> p_closeErr (Close_end p') = Some err \<and>
    (p_appendErr p' = None \<or> p_appendErr p' = Some err)"
proof -
  note inv = producer.reach_inv [OF assms(1)]
  have "grows p p'" using producer_runs.steps_rel [OF assms(3) inv] by simp
  with assms(2) have t: "p_terminalErr p' = Some err" by (simp add: grows_def)
  have e: "errs_ok p'" by (rule producer_invD(6) [OF producer.steps_inv [OF assms(3) inv]])
  have "p_terminalErr (cancel_producer p') = Some err"
    using t by (simp add: cancel_producer_def end_ctx_def Let_def split: option.splits)
  then have "p_closeErr (Close_end p') = Some err" using t by (simp add: Close_end_def terminalError_producer_def Let_def split: option.splits)
  with t e show ?thesis
    by (auto simp: Submit_enter_def submit_checks_def Flush_enter_def terminalError_producer_def errs_ok_def)
qed

section \<open>Sequence numbers of single records\<close>

text \<open>An acknowledged record has the acknowledgement of a batch in which it stands at its index.\<close>

lemma meta_of_nth: "m \<in> set (meta_of es) \<Longrightarrow> rm_index m < length es \<and> fst (snd (es ! rm_index m)) = Some (rm_resultCh m)"
  by (auto simp: meta_of_def split: option.splits)

lemma batch_group:
  assumes "list_all2 event_group evs groups" "Batch input meta \<in> set evs"
  shows "\<exists>g\<in>set groups. ai_Records input = map fst g \<and> meta = meta_of g"
  using assms by (induction evs groups rule: list_all2_induct) auto

lemma group_slice:
  assumes "es \<in> set groups"
  shows "\<exists>j. j + length es \<le> length (concat groups @ pending) \<and> take (length es) (drop j (concat groups @ pending)) = es"
proof -
  obtain before after where "groups = before @ es # after" using split_list [OF assms] by blast
  then show ?thesis by (intro exI [of _ "length (concat before)"]) simp
qed

text \<open>A batch of the producer is a contiguous part of the accepted records, from position \<open>j\<close> on.\<close>

definition own_batch :: "Producer \<Rightarrow> entry list \<Rightarrow> nat \<Rightarrow> AppendInput \<Rightarrow> bool" where
  "own_batch p acc j input \<longleftrightarrow> (\<exists>meta. Batch input meta \<in> set (b_out (p_batcher p))) \<and>
     j + length (ai_Records input) \<le> length acc \<and>
     ai_Records input = map fst (take (length (ai_Records input)) (drop j acc))"

lemma record_position:
  assumes inv: "producer_inv answer start (p, acc)" and e: "e \<in> set acc"
    and o': "rch_sent (p_results p (entry_id e)) = [o']" "po_err o' = None"
  shows "\<exists>j input ack i. own_batch p acc j input \<and> answer input ack \<and> i < length (ai_Records input) \<and> length (ai_Records input) \<le> 1000 \<and>
    acc ! (j + i) = e \<and> o' = \<lparr>po_indexedAck = Some \<lparr>ia_batchAck = ack, ia_index = word_of_nat i\<rparr>, po_err = None\<rparr>"
proof -
  note i = producer_invD [OF inv]
  have "ack_of_record answer (messages (p_batcher p)) (entry_id e) o'" using i(7) o' by (auto simp: acks_from_def)
  then obtain input meta m ack where m: "Batch input meta \<in> set (b_out (p_batcher p))" "m \<in> set meta" "rm_resultCh m = entry_id e"
    "answer input ack" "o' = \<lparr>po_indexedAck = Some \<lparr>ia_batchAck = ack, ia_index = word_of_nat (rm_index m)\<rparr>, po_err = None\<rparr>"
    by (auto simp: ack_of_record_def messages_def)
  obtain groups pending where g: "list_all2 event_group (b_out (p_batcher p)) groups" "acc = concat groups @ pending"
    and valid: "\<forall>ev\<in>set (b_out (p_batcher p)). event_valid (b_opts (p_batcher p)) ev" "opts_ok (b_opts (p_batcher p))"
    using i(1) by (auto simp: batcher_inv_def batcher_core_def)
  obtain es where es: "es \<in> set groups" "ai_Records input = map fst es" "meta = meta_of es" using batch_group [OF g(1) m(1)] by blast
  obtain j where j: "j + length es \<le> length acc" "take (length es) (drop j acc) = es"
    using group_slice [OF es(1), of pending] g(2) by blast
  have n: "rm_index m < length es" "fst (snd (es ! rm_index m)) = Some (entry_id e)"
    using meta_of_nth m(2,3) es(3) by auto
  have at: "acc ! (j + rm_index m) = es ! rm_index m" using j n(1) by (metis add_leE nth_drop nth_take)
  then have mem: "es ! rm_index m \<in> set acc" using j(1) n(1) by (metis add_less_cancel_left less_le_trans nth_mem)
  then have "entry_id (es ! rm_index m) = entry_id e" using n(2) by (simp add: entry_id_def)
  then have "es ! rm_index m = e" using i(2) mem e by (auto simp: entries_ok_def distinct_map dest: inj_onD)
  moreover have "length es \<le> 1000" using valid m(1) es(2) by (force simp: opts_ok_def)
  moreover have "own_batch p acc j input" using m(1) j es(2) by (auto simp: own_batch_def)
  ultimately show ?thesis using m(4,5) n(1) es(2) at
    by (intro exI [of _ j] exI [of _ input] exI [of _ ack] exI [of _ "rm_index m"]) simp
qed

text \<open>The interface of the session as the producer needs it: an acknowledgement covers one sequence number
  per record of its batch.\<close>

locale ack_source =
  fixes answer :: "AppendInput \<Rightarrow> AppendAck \<Rightarrow> bool"
  assumes fits: "answer input ack \<Longrightarrow> sp_SeqNum (aa_Start ack) \<le> sp_SeqNum (aa_End ack) \<and>
    sp_SeqNum (aa_End ack) - sp_SeqNum (aa_Start ack) = word_of_nat (length (ai_Records input))"
begin

lemma numbered:
  assumes "answer input ack" "i < length (ai_Records input)" "length (ai_Records input) \<le> 1000"
  shows "unat (SeqNum_indexed \<lparr>ia_batchAck = ack, ia_index = word_of_nat i\<rparr>) = unat (sp_SeqNum (aa_Start ack)) + i"
    "unat (sp_SeqNum (aa_Start ack)) + length (ai_Records input) = unat (sp_SeqNum (aa_End ack))"
proof -
  let ?s = "sp_SeqNum (aa_Start ack)" and ?e = "sp_SeqNum (aa_End ack)" and ?n = "length (ai_Records input)"
  have f: "?s \<le> ?e" "?e - ?s = word_of_nat ?n" using fits [OF assms(1)] by simp_all
  have "unat (?e - ?s) = ?n" unfolding f(2) using assms(3) by (simp add: unat_of_nat)
  then show eq: "unat ?s + ?n = unat ?e" using f(1) by (simp add: unat_sub word_le_nat_alt)
  have i: "unat (word_of_nat i :: u64) = i" using assms(2,3) by (simp add: unat_of_nat)
  have "unat ?s + i < 2 ^ 64" using eq assms(2) unsigned_less [of ?e, where 'a = nat] by simp
  then show "unat (SeqNum_indexed \<lparr>ia_batchAck = ack, ia_index = word_of_nat i\<rparr>) = unat ?s + i"
    by (simp add: SeqNum_indexed_def unat_word_ariths(1) i)
qed

lemma record_numbers:
  assumes "reach (producer_init opts provider) (producer_step answer) (p, acc)" "e \<in> set acc"
    and "rch_sent (p_results p (entry_id e)) = [o']" "po_err o' = None"
  shows "\<exists>j input a i. own_batch p acc j input \<and> i < length (ai_Records input) \<and> acc ! (j + i) = e \<and>
    answer input (BatchAppendAck a) \<and> po_indexedAck o' = Some a \<and>
    unat (SeqNum_indexed a) = unat (sp_SeqNum (aa_Start (BatchAppendAck a))) + i \<and>
    SeqNum_indexed a < sp_SeqNum (aa_End (BatchAppendAck a))"
proof -
  obtain j input ack i where r: "answer input ack" "i < length (ai_Records input)" "length (ai_Records input) \<le> 1000"
    and own: "own_batch p acc j input" "acc ! (j + i) = e"
    and o': "o' = \<lparr>po_indexedAck = Some \<lparr>ia_batchAck = ack, ia_index = word_of_nat i\<rparr>, po_err = None\<rparr>"
    using record_position [OF producer.reach_inv [OF assms(1)] assms(2-4)] by blast
  let ?a = "\<lparr>ia_batchAck = ack, ia_index = word_of_nat i\<rparr>"
  have "SeqNum_indexed ?a < sp_SeqNum (aa_End ack)" unfolding word_less_nat_alt using numbered [OF r(1-3)] r(2) by simp
  then show ?thesis using r own o' numbered(1) [OF r(1-3)]
    by (intro exI [of _ j] exI [of _ input] exI [of _ ?a] exI [of _ i]) (simp add: BatchAppendAck_def)
qed

end

text \<open>An append session is such a source.  What it has delivered is read off its state \<open>y\<close>: the entries
  and the results sent on their channels, which later steps do not change, so that \<open>y\<close> may be taken as the
  session when the last of the acknowledgements a run of the producer uses has been delivered.\<close>

definition session_answer :: "session_sys \<Rightarrow> AppendInput \<Rightarrow> AppendAck \<Rightarrow> bool" where
  "session_answer y input ack \<longleftrightarrow> (\<exists>e < as_nextEntry (sy_r y).
     ie_input (as_entries (sy_r y) e) = input \<and> ie_resultCh (as_entries (sy_r y) e) = [AckResult ack])"

lemma session_answer_fits:
  assumes "reach (session_init opts base timeout) session_step y" "session_answer y input ack"
  shows "sp_SeqNum (aa_Start ack) \<le> sp_SeqNum (aa_End ack) \<and>
    sp_SeqNum (aa_End ack) - sp_SeqNum (aa_Start ack) = word_of_nat (length (ai_Records input))"
proof -
  obtain e where e: "e < as_nextEntry (sy_r y)" "ie_input (as_entries (sy_r y) e) = input"
    "ie_resultCh (as_entries (sy_r y) e) = [AckResult ack]"
    using assms(2) unfolding session_answer_def by blast
  have "acks_ok (core_of (sy_r y))" using session.reach_inv [OF assms(1)] by (simp add: session_inv_core core_inv_def)
  then have "ack_fits (as_entries (sy_r y) e) ack" using e(1,3) by (simp add: acks_ok_def core_of_fields)
  moreover have "ie_expectedCount (as_entries (sy_r y) e) = length (ai_Records input)"
    using session_count [OF assms(1)] e(1,2) by (simp add: count_ok_def core_of_fields)
  ultimately show ?thesis by (simp add: ack_fits_def)
qed

interpretation append_session: ack_source
  "\<lambda>input ack. (\<exists>opts base timeout. reach (session_init opts base timeout) session_step y) \<and> session_answer y input ack"
  for y
  by unfold_locales (use session_answer_fits in blast)

text \<open>What the session may deliver only widens what the producer may do.\<close>

lemma producer_step_mono:
  assumes "producer_step answer s s'" "\<And>input ack. answer input ack \<Longrightarrow> answer' input ack"
  shows "producer_step answer' s s'"
  using assms(1) by cases (use assms(2) in \<open>auto intro: producer_step.intros\<close>)

lemma producer_reach_mono:
  assumes "reach init (producer_step answer) s" "\<And>input ack. answer input ack \<Longrightarrow> answer' input ack"
  shows "reach init (producer_step answer') s"
  using assms(1) by (induction rule: reach.induct) (use producer_step_mono assms(2) in \<open>blast intro: reach_init reach_step\<close>)+

text \<open>C9: An acknowledged record reports the number its position has: its batch is a contiguous part of the
  accepted records, as the batcher cut it, the session has delivered an acknowledgement for this batch, and the
  sequence number reported for the record is the start of the acknowledged range plus the record's position in the
  batch, without wrap-around and inside the range.  (Which acknowledgement the session delivers for a batch is the
  session's matter; after a resend it may be the wrong one.)\<close>

theorem producer_record_numbers:
  assumes "reach (session_init sopts base timeout) session_step y"
    and "reach (producer_init opts provider) (producer_step (session_answer y)) (p, acc)" "e \<in> set acc"
    and "rch_sent (p_results p (entry_id e)) = [o']" "po_err o' = None"
  shows "\<exists>j input a i. own_batch p acc j input \<and> i < length (ai_Records input) \<and> acc ! (j + i) = e \<and>
    session_answer y input (BatchAppendAck a) \<and> po_indexedAck o' = Some a \<and>
    unat (SeqNum_indexed a) = unat (sp_SeqNum (aa_Start (BatchAppendAck a))) + i \<and>
    SeqNum_indexed a < sp_SeqNum (aa_End (BatchAppendAck a))"
proof -
  let ?answer = "\<lambda>input ack. (\<exists>opts base timeout. reach (session_init opts base timeout) session_step y) \<and> session_answer y input ack"
  have "reach (producer_init opts provider) (producer_step ?answer) (p, acc)"
    by (rule producer_reach_mono [OF assms(2)]) (use assms(1) in blast)
  from append_session.record_numbers [OF this assms(3-5)] show ?thesis by blast
qed

section \<open>A run\<close>

text \<open>One record is submitted and flushed, the session acknowledges it, the producer is closed.\<close>

definition prod0 :: Producer where "prod0 = newProducerWithSession (NewBatcher None) (Some 100)"
definition prod1 :: Producer where "prod1 = snd (Submit_try (rec_of 1) (prod0\<lparr>p_sub := SubTry (rec_of 1)\<rparr>))"
definition prod2 :: Producer where "prod2 = snd (Submit_add (rec_of 1) None None prod1)"
definition prod3 :: Producer where "prod3 = snd (flush_order None prod2)"
definition prod_metas :: "recordMeta list" where "prod_metas = [\<lparr>rm_index = 0, rm_resultCh = 0, rm_permit = Some 0\<rparr>]"
definition prod4 :: Producer where "prod4 = consumeBatches None prod3"
definition prod5 :: Producer where "prod5 = submission_known (demo_in 1) prod_metas None prod4"
definition prod6 :: Producer where "prod6 = consumeBatches None prod5"
definition prod7 :: Producer where "prod7 = batch_acked (demo_in 1, prod_metas) (Inr (ack_of 0 1)) prod6"
definition prod8 :: Producer where "prod8 = answer_barrier 0 prod7"
definition prod9 :: Producer where "prod9 = (Close_batcher None (Close_begin prod8))\<lparr>p_consumer := ConDone\<rparr>"

definition prod_acc :: "entry list" where "prod_acc = [(rec_of 1, Some 0, Some 0)]"

lemma prod_values:
  "p_sub prod1 = SubAdd (rec_of 1)"
  "fst (Submit_add (rec_of 1) None None prod1) = Inr 0"
  "fst (flush_order None prod2) = None" "p_nextBarrier prod2 = 0"
  "p_consumer prod3 = ConIdle" "p_taken prod3 < length (messages (p_batcher prod3))"
  "p_consumer prod4 = ConTicket (demo_in 1) prod_metas"
  "p_consumer prod5 = ConIdle" "p_taken prod5 < length (messages (p_batcher prod5))"
  "p_consumer prod6 = ConBarrier 0" "p_acks prod6 = [(demo_in 1, prod_metas)]"
  "p_consumer prod7 = ConBarrier 0" "p_acks prod7 = []"
  "flush_barrier_wait None 0 prod8 = Some None" 
  "p_consumer prod8 = ConIdle" "p_acks prod8 = []"
  by code_simp+

definition prod_answer :: "AppendInput \<Rightarrow> AppendAck \<Rightarrow> bool" where
  "prod_answer input ack \<longleftrightarrow> input = demo_in 1 \<and> ack = ack_of 0 1"

abbreviation prod_reach :: "Producer \<times> entry list \<Rightarrow> bool" where
  "prod_reach \<equiv> reach (producer_init None (Some 100)) (producer_step prod_answer)"

lemma prod_reach2: "prod_reach (prod2, prod_acc)"
proof -
  have 0: "prod_reach (prod0, [])" by (rule reach_init) (simp add: producer_init_def prod0_def)
  have l: "p_sub prod0 = SubNone" "MeteredPayloadBytes (rec_of 1) \<le> bo_MaxMeteredBytes (b_opts (p_batcher prod0))" by code_simp+
  have "prod_reach (prod0\<lparr>p_sub := SubTry (rec_of 1)\<rparr>, [])"
    by (rule reach_step [OF 0 pr_lock [OF l(1) _ l(2)]]) (simp add: rec_of_size)
  then have 1: "prod_reach (prod1, [])" unfolding prod1_def by (rule reach_step) (rule pr_try, simp)
  have "Submit_add (rec_of 1) None None prod1 = (Inr 0, prod2)" using prod_values(2) by (simp add: prod2_def prod_eq_iff)
  from pr_add [OF prod_values(1) _ _ this, of prod_answer "[]"] have "producer_step prod_answer (prod1, []) (prod2, prod_acc)"
    by (simp add: sel_ok_def prod_acc_def)
  with 1 show ?thesis by (rule reach_step)
qed

lemma prod_steps:
  "producer_step prod_answer (prod2, prod_acc) (prod3, prod_acc)"
  "steps (producer_step prod_answer) (prod3, prod_acc) (prod8, prod_acc)"
  "steps (producer_step prod_answer) (prod8, prod_acc) (prod9, prod_acc)"
proof -
  let ?S = "producer_step prod_answer"
  note tr = steps_trans [where step = ?S]
  show "?S (prod2, prod_acc) (prod3, prod_acc)" unfolding prod3_def by (rule pr_order) (simp add: sel_ok_def)
  have a: "?S (prod3, prod_acc) (prod4, prod_acc)" unfolding prod4_def by (rule pr_consume) (fact prod_values)+
  have b: "?S (prod4, prod_acc) (prod5, prod_acc)" unfolding prod5_def
    by (rule pr_ticket [of _ _ _ "Some None"]) (fact prod_values, simp add: waitForBatchSubmission_def)
  have c: "?S (prod5, prod_acc) (prod6, prod_acc)" unfolding prod6_def by (rule pr_consume) (fact prod_values)+
  have d: "?S (prod6, prod_acc) (prod7, prod_acc)" unfolding prod7_def
    by (rule pr_acked [of _ _ "Some (Some (AckResult (ack_of 0 1)))"]) (use prod_values in \<open>auto simp: prod_answer_def waitForBatchAck_def\<close>)
  have e: "?S (prod7, prod_acc) (prod8, prod_acc)" unfolding prod8_def by (rule pr_barrier) (fact prod_values)+
  show "steps ?S (prod3, prod_acc) (prod8, prod_acc)"
    by (rule tr [OF tr [OF tr [OF tr [OF tr [OF steps_refl a] b] c] d] e])
  have f: "?S (prod8, prod_acc) (Close_begin prod8, prod_acc)" by (rule pr_close) code_simp
  have g: "?S (Close_begin prod8, prod_acc) (Close_batcher None (Close_begin prod8), prod_acc)"
    by (rule pr_close_batcher) (code_simp, simp add: sel_ok_def)
  have h: "?S (Close_batcher None (Close_begin prod8), prod_acc) (prod9, prod_acc)" unfolding prod9_def by (rule pr_drained) code_simp+
  show "steps ?S (prod8, prod_acc) (prod9, prod_acc)"
    by (rule tr [OF tr [OF tr [OF steps_refl f] g] h])
qed

lemma prod_reachable: "prod_reach (prod3, prod_acc)" "prod_reach (prod8, prod_acc)" "prod_reach (prod9, prod_acc)"
  using prod_reach2 prod_steps by (blast intro: reach_step steps_reach)+

theorem producer_one_result_witness:
  "\<not> p_panicked prod8 \<and> rm_resultCh ` set (live prod8) = entry_id ` set (unresolved prod8 prod_acc)"
  using producer_one_result [OF prod_reachable(2)] by simp

theorem producer_inflight_bytes_witness:
  "ct_curBytes (own_tracker prod3) = 9 \<and> ct_curBytes (own_tracker prod3) \<le> 100 \<and> ct_curBytes (own_tracker prod8) = 0"
proof -
  have u: "unresolved prod3 prod_acc = prod_acc" "unresolved prod8 prod_acc = []" "p_sub prod3 = SubNone" "p_sub prod8 = SubNone"
    "(\<Sum>e\<leftarrow>prod_acc. record_bytes (fst e)) = 9" by code_simp+
  show ?thesis using producer_inflight_bytes [OF prod_reachable(1)] producer_inflight_bytes [OF prod_reachable(2)] u by simp
qed

theorem producer_drained_witness: "ct_curBytes (own_tracker prod9) = 0"
proof -
  have "p_consumer prod9 = ConDone" "p_sub prod9 = SubNone" by code_simp+
  with producer_drained [OF prod_reachable(3)] show ?thesis by simp
qed

theorem producer_submits_in_order_witness:
  "p_submitted prod8 = [demo_in 1] \<and> prefix (concat (map ai_Records (p_submitted prod8))) [rec_of 1]"
proof -
  have "p_batcherCtx prod8 = None" "p_submitted prod8 = [demo_in 1]" by code_simp+
  with producer_submits_in_order [OF prod_reachable(2)] show ?thesis by (simp add: prod_acc_def)
qed

theorem producer_flush_durable_witness:
  "\<exists>o'. rch_sent (p_results prod8 0) = [o'] \<and> po_err o' = None"
proof -
  have "flush_order None prod2 = (None, prod3)" using prod_values(3) by (simp add: prod3_def prod_eq_iff)
  from producer_flush_durable [OF prod_reach2 _ this prod_steps(2)] prod_values(4,14) show ?thesis
    by (simp add: sel_ok_def prod_acc_def entry_id_def)
qed

theorem producer_record_numbers_witness:
  "\<exists>y input a. own_batch prod8 prod_acc 0 input \<and> session_answer y input (BatchAppendAck a) \<and>
     rch_sent (p_results prod8 0) = [\<lparr>po_indexedAck = Some a, po_err = None\<rparr>] \<and>
     unat (SeqNum_indexed a) = unat (sp_SeqNum (aa_Start (BatchAppendAck a)))"
proof -
  obtain y where y: "at_rest None demo_acked y" using demo_reachable by blast
  then have a: "session_answer y input ack" if "prod_answer input ack" for input ack
    using that unfolding session_answer_def prod_answer_def
    by (intro exI [of _ "0 :: nat"]) (auto simp: at_rest_def demo_acked_fields)
  let ?o = "\<lparr>po_indexedAck = Some \<lparr>ia_batchAck = ack_of 0 1, ia_index = 0\<rparr>, po_err = None\<rparr>"
  have s: "rch_sent (p_results prod8 0) = [?o]" by code_simp
  have r: "reach (session_init None None 10) session_step y" using y by (simp add: at_rest_def)
  have "reach (producer_init None (Some 100)) (producer_step (session_answer y)) (prod8, prod_acc)"
    by (rule producer_reach_mono [OF prod_reachable(2)]) (rule a)
  from producer_record_numbers [OF r this, of "(rec_of 1, Some 0, Some 0)" ?o] s
  obtain j input a i where *: "own_batch prod8 prod_acc j input" "i < length (ai_Records input)"
    "session_answer y input (BatchAppendAck a)" "po_indexedAck ?o = Some a"
    "unat (SeqNum_indexed a) = unat (sp_SeqNum (aa_Start (BatchAppendAck a))) + i"
    by (auto simp: prod_acc_def entry_id_def)
  moreover have "j = 0" "i = 0" using *(1,2) by (auto simp: own_batch_def prod_acc_def)
  ultimately show ?thesis using s by (intro exI [of _ y] exI [of _ input] exI [of _ a]) simp
qed

text \<open>A parent context that ends makes the producer terminal.\<close>

theorem producer_terminal_sticky_witness:
  "let p = snd (Submit_enter (rec_of 1) (end_ctx (Sentinel DeadlineExceeded) (Sentinel DeadlineExceeded) prod8))
   in Submit_enter (rec_of 2) (Close_begin p) = (Some (Sentinel DeadlineExceeded), Close_begin p)"
proof -
  let ?q = "end_ctx (Sentinel DeadlineExceeded) (Sentinel DeadlineExceeded) prod8"
  let ?p = "snd (Submit_enter (rec_of 1) ?q)"
  have r: "prod_reach (?p, prod_acc)" by (rule reach_step [OF reach_step [OF prod_reachable(2) pr_parent] pr_enter])
  have t: "p_terminalErr ?p = Some (Sentinel DeadlineExceeded)" "p_close ?p = CloseNot" by code_simp+
  have "steps (producer_step prod_answer) (?p, prod_acc) (Close_begin ?p, prod_acc)"
    by (rule steps_trans [where step = "producer_step prod_answer", OF steps_refl pr_close [OF t(2)]])
  from producer_terminal_sticky [OF r t(1) this, of "rec_of 2"] show ?thesis by (simp add: Let_def)
qed

end
