(* ===== verification/Producer_Close.thy ===== *)
theory Producer_Close
  imports Producer_Props
begin

text \<open>
  The end of a producer: once the batcher's channel is closed, no goroutine puts a message on it any more, every step
  of the consumer and of the goroutines that wait for acknowledgements shrinks what is left to do, and no other step
  touches it.  With the fairness of the scheduler and a session that answers, or a context that ends, every
  run therefore comes to the end of the consumer.
\<close>

section \<open>What is left to do\<close>

fun con_weight :: "consumer_pc \<Rightarrow> nat" where
  "con_weight (ConTicket input meta) = 3"
| "con_weight (ConSync meta err) = 2"
| "con_weight (ConBarrier k) = 2"
| "con_weight ConIdle = 1"
| "con_weight ConDone = 0"

definition work_left :: "Producer \<Rightarrow> nat" where
  "work_left p = 3 * (length (messages (p_batcher p)) - p_taken p) + length (p_acks p) + con_weight (p_consumer p)"

text \<open>Where the consumer and the waiting goroutines are.\<close>

definition consumer_view :: "Producer \<Rightarrow> consumer_pc \<times> (AppendInput \<times> recordMeta list) list \<times> nat" where
  "consumer_view p = (p_consumer p, p_acks p, p_taken p)"

text \<open>One of them can go on without the session: the consumer has a message, sees the closed channel or the empty wait
  group, or the select of a wait has the case of the ended context.\<close>

definition consumer_ready :: "Producer \<Rightarrow> bool" where
  "consumer_ready p \<longleftrightarrow>
     (case p_consumer p of
        ConIdle \<Rightarrow> p_taken p < length (messages (p_batcher p)) \<or>
          (b_chanClosed (p_batcher p) \<and> p_taken p = length (messages (p_batcher p)) \<and> p_acks p = [])
      | ConTicket input meta \<Rightarrow> waitForBatchSubmission None p \<noteq> None
      | ConSync meta err \<Rightarrow> p_acks p = []
      | ConBarrier k \<Rightarrow> p_acks p = []
      | ConDone \<Rightarrow> False) \<or>
     (p_acks p \<noteq> [] \<and> waitForBatchAck None p \<noteq> None)"

text \<open>Something is wanted from the session (a ticket or an acknowledgement) and the producer's context is not done.\<close>

definition awaits_session :: "Producer \<Rightarrow> bool" where
  "awaits_session p \<longleftrightarrow> p_ctx p = None \<and> (p_acks p \<noteq> [] \<or> (\<exists>input meta. p_consumer p = ConTicket input meta))"

lemma ready_or_awaits:
  assumes "producer_inv answer start (p, acc)" "b_chanClosed (p_batcher p)" "p_consumer p \<noteq> ConDone" "\<not> awaits_session p"
  shows "consumer_ready p"
proof -
  have "p_taken p \<le> length (messages (p_batcher p))" using producer_invD(5) [OF assms(1)] by (simp add: taken_ok_def)
  then show ?thesis using assms(2-4)
    by (cases "p_consumer p"; cases "p_acks p = []"; cases "p_ctx p")
      (auto simp: consumer_ready_def awaits_session_def waitForBatchSubmission_def waitForBatchAck_def)
qed

section \<open>Steps after the channel is closed\<close>

definition ctx_le :: "Producer \<Rightarrow> Producer \<Rightarrow> bool" where
  "ctx_le p p' \<longleftrightarrow> (p_ctx p \<noteq> None \<longrightarrow> p_ctx p' \<noteq> None)"

lemma ctx_le_refl [simp, intro]: "ctx_le p p"
  by (simp add: ctx_le_def)

lemma ctx_le_trans: "ctx_le a b \<Longrightarrow> ctx_le b c \<Longrightarrow> ctx_le a c"
  by (simp add: ctx_le_def)

lemma cancelSubmit_ctx [simp]: "p_ctx (cancelSubmit cause p) = p_ctx p"
  by (simp add: cancelSubmit_def split: option.split)

lemma set_tracker_ctx [simp]: "p_ctx (set_tracker c p) = p_ctx p"
  by (simp add: set_tracker_def)

lemma end_ctx_ctx [simp]: "\<exists>e. p_ctx (end_ctx err cause p) = Some e"
  by (simp add: end_ctx_def Let_def split: option.split)

lemma record_ctx: "ctx_le p (snd (recordTerminalError_producer err p))"
  by (simp add: ctx_le_def recordTerminalError_eq cancel_producer_def split: option.split)

text \<open>A step that leaves the consumer, its queue and the context of the producer alone.\<close>

definition idle_step :: "Producer \<Rightarrow> Producer \<Rightarrow> bool" where
  "idle_step p p' \<longleftrightarrow> p_batcher p' = p_batcher p \<and> consumer_view p' = consumer_view p \<and> ctx_le p p'"

lemma idle_refl [simp, intro]: "idle_step p p"
  by (simp add: idle_step_def)

lemma idle_trans: "idle_step a b \<Longrightarrow> idle_step b c \<Longrightarrow> idle_step a c"
  by (auto simp: idle_step_def ctx_le_def)

lemma idle_quiet: "quiet p p' \<Longrightarrow> ctx_le p p' \<Longrightarrow> idle_step p p'"
  by (simp add: idle_step_def consumer_view_def quietD)

lemma idle_fields:
  "p_batcher p' = p_batcher p \<Longrightarrow> p_consumer p' = p_consumer p \<Longrightarrow> p_acks p' = p_acks p \<Longrightarrow> p_taken p' = p_taken p \<Longrightarrow>
   p_ctx p' = p_ctx p \<Longrightarrow> idle_step p p'"
  by (simp add: idle_step_def consumer_view_def ctx_le_def)

lemma idle_record [simp]: "idle_step p (snd (recordTerminalError_producer err p))"
  by (rule idle_quiet [OF recordTerminalError_snd record_ctx])

lemma idle_record_eq: "recordTerminalError_producer err p = (t, q) \<Longrightarrow> idle_step p q"
  using idle_record by (metis snd_conv)

lemma idle_checks: "idle_step p (snd (submit_checks p))"
  by (auto simp: submit_checks_def split: option.split prod.splits dest: idle_record_eq)

lemma idle_map_error: "mapSubmitError err p = (e, q) \<Longrightarrow> idle_step p q"
  by (auto simp: mapSubmitError_def dest: idle_record_eq split: option.splits if_splits)

lemma idle_submit_fails: "idle_step p (snd (submit_fails err p))"
proof -
  obtain e q where m: "mapSubmitError err p = (e, q)" by fastforce
  have "idle_step q (q\<lparr>p_sub := SubNone\<rparr>)" by (rule idle_fields) simp_all
  from idle_trans [OF idle_map_error [OF m] this] m show ?thesis by (simp add: submit_fails_def)
qed

lemma idle_set_tracker [simp]: "idle_step p (set_tracker c p)" "idle_step p ((set_tracker c p)\<lparr>p_sub := s\<rparr>)"
  "idle_step p (p\<lparr>p_sub := s\<rparr>)"
  by (rule idle_fields; simp add: set_tracker_def)+

text \<open>The batcher is closed and empty: its operations change nothing.\<close>

lemma closed_batcher:
  assumes "b_closed b" "b_buffer b = []" "\<not> b_timer b"
  shows "snd (flushLocked b sel) = b" "flushFromTimer b tseq sel = b" "Batcher.Flush b sel = b" "snd (close_batcher b sel) = b"
    "snd (flushForBackpressure b sel) = b" "snd (flushBarrier b k sel e sel2) = b"
    "fst (addWithPermit b rec ch permit sel1 sel2) \<noteq> None" "snd (addWithPermit b rec ch permit sel1 sel2) = b"
  using assms
  by (simp_all add: flushFromTimer_def Batcher.Flush_def close_batcher_def flushForBackpressure_def flushBarrier_def addWithPermit_eq)

lemma idle_close_batch:
  assumes "snd (close_batcher (p_batcher p) sel) = p_batcher p"
  shows "idle_step p (snd (close_batch sel p))"
  using assms by (auto simp: close_batch_def split_beta Let_def intro: idle_fields split: option.splits)

lemma idle_add:
  assumes "b_closed (p_batcher p)" "b_buffer (p_batcher p) = []" "\<not> b_timer (p_batcher p)" "Submit_add rec sel1 sel2 p = (res, p')"
  shows "idle_step p p'"
proof -
  let ?q = "with_permit rec p" and ?k = "p_nextId p"
  have free: "idle_step p (free_permit ?k ?q)" by (rule idle_fields) (simp_all add: free_permit_def with_permit_def)
  obtain err b where a: "addWithPermit (p_batcher ?q) rec (Some ?k) (Some ?k) sel1 sel2 = (err, b)" by fastforce
  have "err \<noteq> None" "b = p_batcher ?q" using closed_batcher(7,8) [OF assms(1-3)] a by (metis fst_conv snd_conv with_permit_frame(1))+
  then show ?thesis using assms(4) free idle_trans [OF free idle_checks] a with_batcher_same [of ?q]
    by (cases "fst (submit_checks ?q)") (auto simp: Submit_add_def Let_def)
qed

lemma idle_try: "idle_step p (snd (Submit_try rec p))"
  using idle_trans [OF idle_set_tracker(1) idle_submit_fails]
  by (auto simp: Submit_try_def split: prod.splits sum.splits bool.splits)

lemma idle_reserve: "idle_step p (snd (Submit_reserve first rec p))"
proof -
  let ?res = "if first then reserve (record_bytes rec) [(own_tracker p, submit_ctxErr p)]
    else reserve_wait (record_bytes rec) [(own_tracker p, submit_ctxErr p)]"
  have "idle_step p (snd (submit_fails err (set_tracker c p)))" for err c
    by (rule idle_trans [OF idle_set_tracker(1) idle_submit_fails])
  then show ?thesis by (cases ?res) (auto simp: Submit_reserve_def Let_def split: option.splits)
qed

lemma idle_backpressure:
  assumes "snd (flushForBackpressure (p_batcher p) sel) = p_batcher p"
  shows "idle_step p (snd (Submit_flush rec sel p))"
  using assms idle_submit_fails by (simp add: Submit_flush_def split_beta Let_def split: option.splits)

lemma idle_order:
  assumes "snd (flushBarrier (p_batcher p) (p_nextBarrier p) sel (p_batcherCtx p) None) = p_batcher p"
  shows "idle_step p (snd (flush_order sel p))"
proof -
  let ?q = "p\<lparr>p_nextBarrier := p_nextBarrier p + 1\<rparr>"
  have q: "idle_step p ?q" by (rule idle_fields) simp_all
  have w: "with_batcher (p_batcher p) ?q = ?q" using with_batcher_same [of ?q] by simp
  show ?thesis using assms q w idle_trans [OF q idle_record] by (simp add: flush_order_def split_beta Let_def split: option.splits)
qed

lemma idle_begin_end: "idle_step p (Close_begin p)" "idle_step p (Close_end p)"
  "idle_step p (after_batcher err p)" "idle_step p (after_ctx err p)" "idle_step p (end_ctx err cause p)"
  "idle_step p (snd (Submit_enter rec p))" "idle_step p (snd (Flush_enter e p))"
proof -
  show "idle_step p (Close_begin p)"
    by (rule idle_quiet [OF Close_begin_quiet]) (simp add: ctx_le_def Close_begin_def Let_def)
  show "idle_step p (Close_end p)"
    by (rule idle_quiet [OF Close_end_quiet]) (simp add: ctx_le_def Close_end_def cancel_producer_def Let_def)
  have c: "idle_step p (cancelSubmit cause p)" for cause by (rule idle_quiet) (simp_all add: ctx_le_def)
  show "idle_step p (after_batcher err p)" using c idle_trans [OF c idle_record] by (simp add: after_batcher_def Let_def)
  show "idle_step p (after_ctx err p)" by (simp add: after_ctx_def)
  show "idle_step p (end_ctx err cause p)" by (rule idle_quiet [OF end_ctx_quiet]) (simp add: ctx_le_def)
  show "idle_step p (snd (Submit_enter rec p))" using idle_checks [of p]
    by (cases "submit_checks p") (simp add: Submit_enter_def split: option.split)
  show "idle_step p (snd (Flush_enter e p))"
    by (auto simp: Flush_enter_def dest: idle_record_eq split: option.splits prod.splits)
qed

lemma idle_flags: "idle_step p q \<Longrightarrow> idle_step p (q\<lparr>p_afterBatcher := b\<rparr>)" "idle_step p q \<Longrightarrow> idle_step p (q\<lparr>p_afterCtx := b\<rparr>)"
  "idle_step p q \<Longrightarrow> idle_step p (q\<lparr>p_closers := b\<rparr>)" "idle_step p q \<Longrightarrow> idle_step p (q\<lparr>p_close := c\<rparr>)"
  by (simp_all add: idle_step_def consumer_view_def ctx_le_def)

lemma idle_Close_batcher:
  assumes "snd (close_batcher (p_batcher p) sel) = p_batcher p"
  shows "idle_step p (Close_batcher sel p)"
  using idle_close_batch [OF assms] idle_trans [OF idle_close_batch [OF assms] idle_record]
  by (auto simp: Close_batcher_def split_beta Let_def intro: idle_flags split: option.split)

section \<open>Steps of the consumer\<close>

text \<open>They keep the queue and the end of the context, and leave less to do.\<close>

definition works :: "Producer \<Rightarrow> Producer \<Rightarrow> bool" where
  "works p p' \<longleftrightarrow> p_batcher p' = p_batcher p \<and> ctx_le p p' \<and> work_left p' < work_left p"

lemma resolve_record_ctx [simp]: "p_ctx (resolve_record o' m p) = p_ctx p"
  by (simp add: resolve_record_def split: option.splits)

lemma fold_resolve_ctx [simp]: "p_ctx (fold (\<lambda>m. resolve_record (out m) m) meta p) = p_ctx p"
  by (induction meta arbitrary: p) simp_all

lemma settle_ctx [simp]: "p_ctx (dispatchBatchError meta err p) = p_ctx p" "p_ctx (resolveBatchAck meta ack p) = p_ctx p"
  by (simp_all add: dispatchBatchError_def resolve_errors_def resolveBatchAck_def release_batch_def Let_def)

lemma idleD:
  assumes "idle_step p q"
  shows "p_batcher q = p_batcher p" "p_consumer q = p_consumer p" "p_acks q = p_acks p" "p_taken q = p_taken p" "ctx_le p q"
  using assms by (simp_all add: idle_step_def consumer_view_def)

lemma works_consume:
  assumes "p_consumer p = ConIdle" "p_taken p < length (messages (p_batcher p))"
  shows "works p (consumeBatches submitErr p)"
proof (cases "messages (p_batcher p) ! p_taken p")
  case (Batch input meta)
  let ?p = "p\<lparr>p_taken := Suc (p_taken p)\<rparr>"
  note d = idleD [OF idle_record [of "?p\<lparr>p_submitted := p_submitted p @ [input]\<rparr>"]]
  show ?thesis
    using assms Batch d
    by (auto simp: works_def work_left_def ctx_le_def consumeBatches_def processBatch_def Let_def split_beta split: option.splits)
next
  case (Dropped rs meta err)
  moreover have "messages (p_batcher p) ! p_taken p \<in> set (messages (p_batcher p))" by (rule nth_mem [OF assms(2)])
  ultimately show ?thesis by (simp add: messages_def)
next
  case (Barrier k)
  then show ?thesis using assms by (auto simp: works_def work_left_def ctx_le_def consumeBatches_def)
qed

lemma works_ticket: "p_consumer p = ConTicket input meta \<Longrightarrow> works p (submission_known input meta err p)"
  using idleD [OF idle_record [of p]]
  by (auto simp: works_def work_left_def ctx_le_def submission_known_def split_beta Let_def split: option.split)

lemma works_sync: "p_consumer p = ConSync meta err \<Longrightarrow> works p (sync_error meta err p)"
  by (simp add: works_def work_left_def ctx_le_def sync_error_def)

lemma works_barrier: "p_consumer p = ConBarrier k \<Longrightarrow> works p (answer_barrier k p)"
  by (simp add: works_def work_left_def ctx_le_def answer_barrier_def)

lemma works_acked:
  assumes "w \<in> set (p_acks p)"
  shows "works p (batch_acked w res p)"
proof -
  have l: "length (remove1 w (p_acks p)) < length (p_acks p)"
    using assms by (simp add: length_remove1) (metis One_nat_def diff_less length_pos_if_in_set zero_less_one)
  show ?thesis
  proof (cases res)
    case (Inl err)
    note d = idleD [OF idle_record [of p err]]
    show ?thesis using l d Inl by (simp add: works_def work_left_def ctx_le_def batch_acked_def split_beta Let_def)
  next
    case (Inr ack)
    then show ?thesis using l by (simp add: works_def work_left_def ctx_le_def batch_acked_def Let_def)
  qed
qed

lemma closed_step:
  assumes inv: "producer_inv answer start (p, acc)" and closed: "b_chanClosed (p_batcher p)"
    and step: "producer_step answer (p, acc) (p', acc')"
  shows "idle_step p p' \<or> works p p'"
  using step
proof cases
  note q = batcher_closed_quiet [OF producer_invD(1) [OF inv] closed]
  note b = closed_batcher [OF q]
  case (pr_add rec sel1 sel2 res)
  then show ?thesis using idle_add [OF q] by blast
next
  note q = batcher_closed_quiet [OF producer_invD(1) [OF inv] closed]
  case (pr_timer sel tseq)
  then show ?thesis using closed_batcher(2) [OF q] by (simp add: timer_fires_def)
next
  note q = batcher_closed_quiet [OF producer_invD(1) [OF inv] closed]
  case (pr_user_flush sel)
  then show ?thesis using closed_batcher(3) [OF q] by simp
next
  note q = batcher_closed_quiet [OF producer_invD(1) [OF inv] closed]
  case (pr_user_close sel)
  then show ?thesis using idle_close_batch [OF closed_batcher(4) [OF q]] by simp
next
  note q = batcher_closed_quiet [OF producer_invD(1) [OF inv] closed]
  case (pr_closer sel)
  then show ?thesis using idle_flags(3) [OF idle_close_batch [OF closed_batcher(4) [OF q]]] by simp
next
  note q = batcher_closed_quiet [OF producer_invD(1) [OF inv] closed]
  case (pr_close_batcher sel)
  then show ?thesis using idle_Close_batcher [OF closed_batcher(4) [OF q]] by simp
next
  note q = batcher_closed_quiet [OF producer_invD(1) [OF inv] closed]
  case (pr_backpressure rec sel)
  then show ?thesis using idle_backpressure [OF closed_batcher(5) [OF q]] by simp
next
  note q = batcher_closed_quiet [OF producer_invD(1) [OF inv] closed]
  case (pr_order sel)
  then show ?thesis using idle_order [OF closed_batcher(6) [OF q]] by simp
next
  case (pr_acked w ready res)
  then show ?thesis using works_acked by blast
next
  case pr_drained
  then show ?thesis by (simp add: works_def work_left_def ctx_le_def)
next
  case (pr_receive k sel res ch)
  then show ?thesis by (intro disjI1 idle_fields) simp_all
next
  case (pr_batcher_ctx err)
  then show ?thesis by (intro disjI1 idle_fields) simp_all
qed (simp_all add: idle_begin_end idle_flags idle_try idle_reserve works_consume works_ticket works_sync works_barrier)

section \<open>Every fair run ends\<close>

text \<open>An infinite run, and what is assumed of it: when from some point on the consumer or a waiting goroutine could always
  go on by itself, one of them does; and when something is wanted from the session while the context is alive, then at
  some later point one of them has gone on, nothing is wanted any more, or the context is done.\<close>

definition moves :: "(nat \<Rightarrow> Producer \<times> entry list) \<Rightarrow> nat \<Rightarrow> bool" where
  "moves f n \<longleftrightarrow> consumer_view (fst (f (Suc n))) \<noteq> consumer_view (fst (f n))"

definition fair_run :: "(nat \<Rightarrow> Producer \<times> entry list) \<Rightarrow> bool" where
  "fair_run f \<longleftrightarrow> (\<forall>n. (\<forall>m\<ge>n. consumer_ready (fst (f m))) \<longrightarrow> (\<exists>m\<ge>n. moves f m))"

definition answered_run :: "(nat \<Rightarrow> Producer \<times> entry list) \<Rightarrow> bool" where
  "answered_run f \<longleftrightarrow> (\<forall>n. awaits_session (fst (f n)) \<longrightarrow> (\<exists>m\<ge>n. moves f m \<or> \<not> awaits_session (fst (f m))))"

lemma work_view: "p_batcher p' = p_batcher p \<Longrightarrow> consumer_view p' = consumer_view p \<Longrightarrow> work_left p' = work_left p"
  by (simp add: work_left_def consumer_view_def)

lemma closing_state:
  assumes "\<And>n. producer_step answer (f n) (f (Suc n))" "producer_inv answer start (f 0)" "b_chanClosed (p_batcher (fst (f 0)))"
  shows "producer_inv answer start (f n)" "p_batcher (fst (f n)) = p_batcher (fst (f 0))"
    "idle_step (fst (f n)) (fst (f (Suc n))) \<or> works (fst (f n)) (fst (f (Suc n)))"
proof -
  have inv: "producer_inv answer start (f n)" for n
    by (induction n) (use assms(1,2) producer_step_inv in blast)+
  have step: "idle_step (fst (f n)) (fst (f (Suc n))) \<or> works (fst (f n)) (fst (f (Suc n)))"
    if "b_chanClosed (p_batcher (fst (f n)))" for n
    by (rule closed_step [where acc = "snd (f n)" and acc' = "snd (f (Suc n))"]) (use inv assms(1) that in simp_all)
  have same: "p_batcher (fst (f n)) = p_batcher (fst (f 0))" for n
  proof (induction n)
    case (Suc n)
    with step [of n] assms(3) show ?case by (auto simp: idle_step_def works_def)
  qed simp
  show "producer_inv answer start (f n)" "p_batcher (fst (f n)) = p_batcher (fst (f 0))"
    "idle_step (fst (f n)) (fst (f (Suc n))) \<or> works (fst (f n)) (fst (f (Suc n)))"
    using inv same step assms(3) by metis+
qed

lemma closing_frozen:
  assumes "\<And>n. producer_step answer (f n) (f (Suc n))" "producer_inv answer start (f 0)" "b_chanClosed (p_batcher (fst (f 0)))"
    and "\<And>m. n \<le> m \<Longrightarrow> \<not> moves f m" "n \<le> m"
  shows "consumer_view (fst (f m)) = consumer_view (fst (f n)) \<and> ctx_le (fst (f n)) (fst (f m))"
  using \<open>n \<le> m\<close>
proof (induction m rule: dec_induct)
  case (step m)
  have "ctx_le (fst (f m)) (fst (f (Suc m)))"
    using closing_state(3) [OF assms(1-3), of m] by (auto simp: idle_step_def works_def)
  then show ?case using step assms(4) [of m] ctx_le_trans by (auto simp: moves_def)
qed simp

text \<open>As long as the consumer is there, something moves sooner or later.\<close>

lemma closing_moves:
  assumes run: "\<And>n. producer_step answer (f n) (f (Suc n))" "producer_inv answer start (f 0)" "b_chanClosed (p_batcher (fst (f 0)))"
    and fair: "fair_run f" "answered_run f" and con: "p_consumer (fst (f n)) \<noteq> ConDone"
  shows "\<exists>m\<ge>n. moves f m"
proof (rule ccontr)
  assume "\<not> ?thesis"
  then have still: "n \<le> m \<Longrightarrow> \<not> moves f m" for m by blast
  have frozen: "consumer_view (fst (f m)) = consumer_view (fst (f k)) \<and> ctx_le (fst (f k)) (fst (f m))" if "n \<le> k" "k \<le> m" for k m
    by (rule closing_frozen [OF run _ that(2)]) (rule still, rule order_trans [OF that(1)])
  have closed: "b_chanClosed (p_batcher (fst (f m)))" for m using closing_state(2) [OF run] run(3) by metis
  obtain m where m: "n \<le> m" "\<not> awaits_session (fst (f m))"
    using fair(2) still unfolding answered_run_def by (cases "awaits_session (fst (f n))") blast+
  have "consumer_ready (fst (f i))" if i: "m \<le> i" for i
  proof (rule ready_or_awaits [where acc = "snd (f i)", OF _ closed])
    show "producer_inv answer start (fst (f i), snd (f i))" using closing_state(1) [OF run, of i] by (simp only: prod.collapse)
    have v: "consumer_view (fst (f i)) = consumer_view (fst (f n))" using frozen [OF order_refl order_trans [OF m(1) i]] by (rule conjunct1)
    then show "p_consumer (fst (f i)) \<noteq> ConDone" using con by (simp add: consumer_view_def)
    have "consumer_view (fst (f i)) = consumer_view (fst (f m)) \<and> ctx_le (fst (f m)) (fst (f i))" by (rule frozen [OF m(1) i])
    then show "\<not> awaits_session (fst (f i))"
      using m(2) by (auto simp: awaits_session_def consumer_view_def ctx_le_def)
  qed
  then have "\<exists>i\<ge>m. moves f i" using fair(1) unfolding fair_run_def by blast
  then show False using still m(1) by (meson order_trans)
qed

lemma closing_measure:
  assumes "\<And>n. producer_step answer (f n) (f (Suc n))" "producer_inv answer start (f 0)" "b_chanClosed (p_batcher (fst (f 0)))"
  shows "work_left (fst (f (Suc n))) \<le> work_left (fst (f n))"
    "moves f n \<Longrightarrow> work_left (fst (f (Suc n))) < work_left (fst (f n))"
  using closing_state(3) [OF assms, of n]
  by (auto simp: idle_step_def works_def moves_def dest: work_view)

lemma closing_done:
  assumes run: "\<And>n. producer_step answer (f n) (f (Suc n))" "producer_inv answer start (f 0)" "b_chanClosed (p_batcher (fst (f 0)))"
    and fair: "fair_run f" "answered_run f"
  shows "\<exists>m\<ge>n. p_consumer (fst (f m)) = ConDone"
proof (induction "work_left (fst (f n))" arbitrary: n rule: less_induct)
  case less
  show ?case
  proof (cases "p_consumer (fst (f n)) = ConDone")
    case False
    obtain m where m: "n \<le> m" "moves f m" using closing_moves [OF run fair False] by blast
    have "work_left (fst (f m)) \<le> work_left (fst (f n))"
      by (rule lift_Suc_antimono_le [where f = "\<lambda>n. work_left (fst (f n))"]) (use closing_measure(1) [OF run] m(1) in simp_all)
    then have "work_left (fst (f (Suc m))) < work_left (fst (f n))" using closing_measure(2) [OF run m(2)] by simp
    from less [OF this] show ?thesis using m(1) by (meson Suc_leD order_trans)
  qed blast
qed

text \<open>C11: Closing comes to its end.  From any reachable state in which the batcher's channel is closed, whatever is still
  queued, submitted or failed, every infinite run of the producer, in any interleaving of submitters, flushes, timers and
  the goroutines at work, reaches the end of the consumer and stays there, with exactly one result for every
  accepted record, if the run is fair to the consumer and the goroutines that wait for acknowledgements, and whenever the
  session owes a ticket or an acknowledgement it answers or the producer's context ends.  (\<open>Close\<close> waits for nothing else.)\<close>

theorem producer_close_terminates:
  assumes "reach (producer_init opts provider) (producer_step answer) (f 0)" "b_chanClosed (p_batcher (fst (f 0)))"
    and "\<And>n. producer_step answer (f n) (f (Suc n))" "fair_run f" "answered_run f"
  shows "\<exists>n. \<forall>m\<ge>n. p_consumer (fst (f m)) = ConDone \<and>
    (\<forall>e\<in>set (snd (f m)). \<exists>o'. rch_sent (p_results (fst (f m)) (entry_id e)) = [o'])"
proof -
  let ?start = "bo_MatchSeqNum (applyBatchingDefaults opts)"
  have inv0: "producer_inv answer ?start (f 0)" using producer.reach_inv [of opts provider answer "f 0"] assms(1) by simp
  note run = assms(3) inv0 assms(2)
  obtain n where n: "p_consumer (fst (f n)) = ConDone" using closing_done [OF run assms(4,5), of 0] by blast
  have con: "p_consumer (fst (f m)) = ConDone" if "n \<le> m" for m
    using that
  proof (induction m rule: dec_induct)
    case (step m)
    have "producer_inv answer ?start (fst (f m), snd (f m))" using closing_state(1) [OF run, of m] by (simp only: prod.collapse)
    from producer_invD(5) [OF this] step(3) have "work_left (fst (f m)) = 0" by (simp add: work_left_def taken_ok_def)
    then have "\<not> works (fst (f m)) (fst (f (Suc m)))" by (simp add: works_def)
    then show ?case using closing_state(3) [OF run, of m] step(3) by (auto simp: idle_step_def consumer_view_def)
  qed (use n in simp)
  have "\<exists>o'. rch_sent (p_results (fst (f m)) (entry_id e)) = [o']" if "n \<le> m" "e \<in> set (snd (f m))" for m e
  proof -
    have inv: "producer_inv answer ?start (fst (f m), snd (f m))" using closing_state(1) [OF run, of m] by (simp only: prod.collapse)
    have "unresolved (fst (f m)) (snd (f m)) = []" using done_live [OF inv con [OF that(1)]] live_unresolved(1) [OF inv] by simp
    then have "rch_sent (p_results (fst (f m)) (entry_id e)) \<noteq> []" using that(2) by (simp add: unresolved_def filter_empty_conv)
    then show ?thesis using live_unresolved(2) [OF inv that(2)] by blast
  qed
  then show ?thesis using con by blast
qed

text \<open>The consumer of the closed producer sees that the channel is drained and ends; afterwards only calls of \<open>Flush\<close>
  with a context that is done happen.\<close>

definition closing_prod :: "nat \<Rightarrow> Producer \<times> entry list" where
  "closing_prod n = (if n = 0 then (Close_batcher None (Close_begin prod8), prod_acc) else (prod9, prod_acc))"

theorem producer_close_terminates_witness:
  "\<not> p_consumer (fst (closing_prod 0)) = ConDone \<and> (\<exists>n. \<forall>m\<ge>n. p_consumer (fst (closing_prod m)) = ConDone \<and>
    (\<exists>o'. rch_sent (p_results (fst (closing_prod m)) 0) = [o']))"
proof -
  let ?S = "producer_step prod_answer" and ?c = "Close_batcher None (Close_begin prod8)"
  have v: "p_close prod8 = CloseNot" "p_close (Close_begin prod8) = CloseBatcher" "b_chanClosed (p_batcher ?c)" "p_consumer ?c = ConIdle"
    "p_taken ?c = length (messages (p_batcher ?c))" "p_acks ?c = []" "p_consumer prod9 = ConDone" "p_acks prod9 = []"
    by code_simp+
  have r: "prod_reach (?c, prod_acc)"
    by (rule reach_step [OF reach_step [OF prod_reachable(2) pr_close [OF v(1)]] pr_close_batcher [OF v(2)]]) (simp add: sel_ok_def)
  have "?S (?c, prod_acc) (prod9, prod_acc)" unfolding prod9_def by (rule pr_drained) (fact v)+
  moreover have "?S (prod9, prod_acc) (prod9, prod_acc)"
    using pr_flush [of prod_answer prod9 prod_acc "Some (Sentinel Canceled)"] by (simp add: Flush_enter_def)
  ultimately have step: "?S (closing_prod n) (closing_prod (Suc n))" for n by (simp add: closing_prod_def)
  have idle: "\<not> consumer_ready prod9" "\<not> awaits_session prod9" "\<not> awaits_session ?c"
    using v by (simp_all add: consumer_ready_def awaits_session_def)
  have "fair_run closing_prod" unfolding fair_run_def
  proof (intro allI impI)
    fix n assume a: "\<forall>m\<ge>n. consumer_ready (fst (closing_prod m))"
    then have "consumer_ready (fst (closing_prod (Suc n)))" by simp
    then show "\<exists>m\<ge>n. moves closing_prod m" using idle(1) by (simp add: closing_prod_def)
  qed
  moreover have "answered_run closing_prod" using idle by (simp add: answered_run_def closing_prod_def)
  ultimately obtain n where n: "\<forall>m\<ge>n. p_consumer (fst (closing_prod m)) = ConDone \<and>
      (\<forall>e\<in>set (snd (closing_prod m)). \<exists>o'. rch_sent (p_results (fst (closing_prod m)) (entry_id e)) = [o'])"
    using producer_close_terminates [of None "Some 100" prod_answer closing_prod, OF _ _ step] r v(3)
    by (auto simp: closing_prod_def)
  have "entry_id (rec_of 1, Some 0, Some 0) = 0" "(rec_of 1, Some 0, Some 0) \<in> set (snd (closing_prod m))" for m
    by (simp_all add: closing_prod_def prod_acc_def entry_id_def)
  then show ?thesis using n v(4) by (metis (mono_tags, lifting) closing_prod_def consumer_pc.distinct fst_conv)
qed

end
