(* ===== verification/Conn_Pool.thy ===== *)
theory Conn_Pool
  imports Step_Systems
begin

text \<open>
  The pool that spreads streaming requests over HTTP/2 transports (\<open>src/s2/connpool.go\<close>).  An entry of the
  pool is a number; it stands for the \<open>spreadEntry\<close> and for the transport made for it, which no other entry
  shares.  \<open>se_log\<close> records what happened on that transport: requests made, streams ended, idle connections
  closed.

  The goroutines of the callers interleave: a \<open>stream\<close> is one call of \<open>RoundTrip\<close> with the body it
  returns, \<open>sp_storing\<close> are the calls of \<open>poison\<close> between the removal and \<open>poisoned.Store\<close>, and
  \<open>sp_closing\<close> the calls of \<open>closeIdleConnections\<close> that are about to be made.  Each definition is one atomic
  operation or one critical section of \<open>mu\<close>.
\<close>

definition maxSessionsPerConnection :: int where "maxSessionsPerConnection = 4"

datatype conn_event = Requested | StreamEnded | IdleClosed

record spreadEntry =
  se_sessions :: int
  se_poisoned :: bool
  se_log :: "conn_event list"

text \<open>A stream waits for its response, has an open body, is about to release its entry, has brought the
  count to zero and is about to look at \<open>poisoned\<close>, or is over.\<close>

datatype stream_pc = Waiting | Open | Leaving | LastLeaving | Gone

record stream =
  sm_host :: string
  sm_entry :: nat
  sm_pc :: stream_pc

record spreadTransport =
  sp_hosts :: "string \<Rightarrow> nat list"
  sp_entries :: "nat \<Rightarrow> spreadEntry"
  sp_made :: nat
  sp_streams :: "stream list"
  sp_storing :: "nat list"
  sp_closing :: "nat list"

definition new_spreadEntry :: spreadEntry where
  "new_spreadEntry = \<lparr>se_sessions = 0, se_poisoned = False, se_log = []\<rparr>"

definition newSpreadTransport :: spreadTransport where
  "newSpreadTransport = \<lparr>sp_hosts = (\<lambda>_. []), sp_entries = (\<lambda>_. new_spreadEntry), sp_made = 0,
     sp_streams = [], sp_storing = [], sp_closing = []\<rparr>"

definition upd_spread :: "nat \<Rightarrow> (spreadEntry \<Rightarrow> spreadEntry) \<Rightarrow> spreadTransport \<Rightarrow> spreadTransport" where
  "upd_spread e f t = t\<lparr>sp_entries := (sp_entries t)(e := f (sp_entries t e))\<rparr>"

definition add_sessions :: "int \<Rightarrow> spreadEntry \<Rightarrow> spreadEntry" where
  "add_sessions n en = en\<lparr>se_sessions := se_sessions en + n\<rparr>"

definition log_event :: "conn_event \<Rightarrow> spreadEntry \<Rightarrow> spreadEntry" where
  "log_event ev en = en\<lparr>se_log := se_log en @ [ev]\<rparr>"

definition set_stream_pc :: "nat \<Rightarrow> stream_pc \<Rightarrow> spreadTransport \<Rightarrow> spreadTransport" where
  "set_stream_pc i pc t = t\<lparr>sp_streams := (sp_streams t)[i := (sp_streams t ! i)\<lparr>sm_pc := pc\<rparr>]\<rparr>"

section \<open>Operations\<close>

definition checkout :: "string \<Rightarrow> spreadTransport \<Rightarrow> nat \<times> spreadTransport" where
  "checkout host t =
     (case find (\<lambda>e. se_sessions (sp_entries t e) < maxSessionsPerConnection) (sp_hosts t host) of
        Some e \<Rightarrow> (e, upd_spread e (add_sessions 1) t)
      | None \<Rightarrow>
          let e = sp_made t;
              t = t\<lparr>sp_made := e + 1\<rparr>;
              t = upd_spread e (\<lambda>_. add_sessions 1 new_spreadEntry) t
          in (e, t\<lparr>sp_hosts := (sp_hosts t)(host := sp_hosts t host @ [e])\<rparr>))"

text \<open>\<open>poison\<close>: the critical section, then the store and the call of \<open>closeIdleConnections\<close> that follow when
  the target was removed.\<close>

definition poison :: "string \<Rightarrow> nat \<Rightarrow> spreadTransport \<Rightarrow> spreadTransport" where
  "poison host target t =
     (let entries = sp_hosts t host;
          kept = filter (\<lambda>e. e \<noteq> target) entries;
          removed = (target \<in> set entries);
          t = t\<lparr>sp_hosts := (sp_hosts t)(host := kept)\<rparr>
      in if removed then t\<lparr>sp_storing := sp_storing t @ [target]\<rparr> else t)"

definition poison_store :: "nat \<Rightarrow> spreadTransport \<Rightarrow> spreadTransport" where
  "poison_store target t =
     (let t = t\<lparr>sp_storing := remove1 target (sp_storing t)\<rparr>;
          t = upd_spread target (\<lambda>en. en\<lparr>se_poisoned := True\<rparr>) t
      in t\<lparr>sp_closing := sp_closing t @ [target]\<rparr>)"

definition closeIdleConnections :: "nat \<Rightarrow> spreadTransport \<Rightarrow> spreadTransport" where
  "closeIdleConnections e t =
     upd_spread e (log_event IdleClosed) (t\<lparr>sp_closing := remove1 e (sp_closing t)\<rparr>)"

text \<open>\<open>poisonCapture.poison\<close>, with the handle stored in the capture.\<close>

definition poison_capture :: "(string \<times> nat) option \<Rightarrow> spreadTransport \<Rightarrow> spreadTransport" where
  "poison_capture handle t = (case handle of None \<Rightarrow> t | Some (host, entry) \<Rightarrow> poison host entry t)"

text \<open>\<open>RoundTrip\<close> up to the request, and what follows when the transport has answered.\<close>

definition RoundTrip_begin :: "string \<Rightarrow> spreadTransport \<Rightarrow> spreadTransport" where
  "RoundTrip_begin host t =
     (let (e, t) = checkout host t
      in t\<lparr>sp_streams := sp_streams t @ [\<lparr>sm_host = host, sm_entry = e, sm_pc = Waiting\<rparr>]\<rparr>)"

definition RoundTrip_end :: "nat \<Rightarrow> bool \<Rightarrow> spreadTransport \<Rightarrow> spreadTransport" where
  "RoundTrip_end i ok t =
     set_stream_pc i (if ok then Open else Leaving) (upd_spread (sm_entry (sp_streams t ! i)) (log_event Requested) t)"

text \<open>\<open>releaseOnClose.Close\<close>: the body is closed, then \<open>once\<close> lets the first caller release the entry.\<close>

definition Close_body :: "nat \<Rightarrow> spreadTransport \<Rightarrow> spreadTransport" where
  "Close_body i t =
     (if sm_pc (sp_streams t ! i) = Open
      then set_stream_pc i Leaving (upd_spread (sm_entry (sp_streams t ! i)) (log_event StreamEnded) t)
      else t)"

definition release_count :: "nat \<Rightarrow> spreadTransport \<Rightarrow> spreadTransport" where
  "release_count i t =
     (let e = sm_entry (sp_streams t ! i);
          t = upd_spread e (add_sessions (- 1)) t
      in set_stream_pc i (if se_sessions (sp_entries t e) = 0 then LastLeaving else Gone) t)"

definition release_check :: "nat \<Rightarrow> spreadTransport \<Rightarrow> spreadTransport" where
  "release_check i t =
     (let e = sm_entry (sp_streams t ! i);
          t = (if se_poisoned (sp_entries t e) then t\<lparr>sp_closing := sp_closing t @ [e]\<rparr> else t)
      in set_stream_pc i Gone t)"

text \<open>\<open>CloseIdleConnections\<close>; \<open>order\<close> is the order in which the map yields its hosts.\<close>

definition CloseIdleConnections :: "string list \<Rightarrow> spreadTransport \<Rightarrow> spreadTransport" where
  "CloseIdleConnections order t = t\<lparr>sp_closing := sp_closing t @ concat (map (sp_hosts t) order)\<rparr>"

inductive pool_step :: "spreadTransport \<Rightarrow> spreadTransport \<Rightarrow> bool" where
  ps_begin: "pool_step t (RoundTrip_begin host t)"
| ps_end: "i < length (sp_streams t) \<Longrightarrow> sm_pc (sp_streams t ! i) = Waiting \<Longrightarrow> pool_step t (RoundTrip_end i ok t)"
| ps_close: "i < length (sp_streams t) \<Longrightarrow> pool_step t (Close_body i t)"
| ps_count: "i < length (sp_streams t) \<Longrightarrow> sm_pc (sp_streams t ! i) = Leaving \<Longrightarrow> pool_step t (release_count i t)"
| ps_check: "i < length (sp_streams t) \<Longrightarrow> sm_pc (sp_streams t ! i) = LastLeaving \<Longrightarrow> pool_step t (release_check i t)"
| ps_poison: "i < length (sp_streams t) \<Longrightarrow>
    pool_step t (poison_capture (Some (sm_host (sp_streams t ! i), sm_entry (sp_streams t ! i))) t)"
| ps_store: "e \<in> set (sp_storing t) \<Longrightarrow> pool_step t (poison_store e t)"
| ps_idle: "e \<in> set (sp_closing t) \<Longrightarrow> pool_step t (closeIdleConnections e t)"
| ps_all: "distinct order \<Longrightarrow> pool_step t (CloseIdleConnections order t)"

definition pool_init :: "spreadTransport \<Rightarrow> bool" where
  "pool_init t \<longleftrightarrow> t = newSpreadTransport"

section \<open>Invariant\<close>

definition pooled :: "spreadTransport \<Rightarrow> nat \<Rightarrow> bool" where
  "pooled t e \<longleftrightarrow> (\<exists>h. e \<in> set (sp_hosts t h))"

text \<open>The stream is counted in the sessions of \<open>e\<close>.\<close>

definition counted :: "nat \<Rightarrow> stream \<Rightarrow> bool" where
  "counted e s \<longleftrightarrow> sm_entry s = e \<and> sm_pc s \<in> {Waiting, Open, Leaving}"

definition sessions_of :: "spreadTransport \<Rightarrow> nat \<Rightarrow> nat" where
  "sessions_of t e = length (filter (counted e) (sp_streams t))"

text \<open>Nothing happened on the transport after its idle connections were closed.\<close>

definition all_closed :: "spreadEntry \<Rightarrow> bool" where
  "all_closed en \<longleftrightarrow> se_log en \<noteq> [] \<and> last (se_log en) = IdleClosed"

definition hosts_ok :: "spreadTransport \<Rightarrow> bool" where
  "hosts_ok t \<longleftrightarrow> (\<forall>h. distinct (sp_hosts t h)) \<and>
     (\<forall>h e. e \<in> set (sp_hosts t h) \<longrightarrow> e < sp_made t \<and> \<not> se_poisoned (sp_entries t e) \<and> e \<notin> set (sp_storing t) \<and>
        (\<forall>h'. e \<in> set (sp_hosts t h') \<longrightarrow> h' = h) \<and>
        (\<forall>s\<in>set (sp_streams t). sm_entry s = e \<longrightarrow> sm_host s = h))"

definition streams_ok :: "spreadTransport \<Rightarrow> bool" where
  "streams_ok t \<longleftrightarrow> (\<forall>s\<in>set (sp_streams t). sm_entry s < sp_made t) \<and> (\<forall>e\<in>set (sp_storing t). e < sp_made t)"

definition counts_ok :: "spreadTransport \<Rightarrow> bool" where
  "counts_ok t \<longleftrightarrow> (\<forall>e < sp_made t. se_sessions (sp_entries t e) = int (sessions_of t e) \<and>
     sessions_of t e \<le> nat maxSessionsPerConnection)"

definition close_pending :: "spreadTransport \<Rightarrow> nat \<Rightarrow> bool" where
  "close_pending t e \<longleftrightarrow> e \<in> set (sp_storing t) \<or> e \<in> set (sp_closing t) \<or>
     (\<exists>s\<in>set (sp_streams t). sm_entry s = e \<and> sm_pc s = LastLeaving)"

definition removed_ok :: "spreadTransport \<Rightarrow> bool" where
  "removed_ok t \<longleftrightarrow> (\<forall>e < sp_made t. \<not> pooled t e \<longrightarrow>
     (se_poisoned (sp_entries t e) \<or> e \<in> set (sp_storing t)) \<and>
     (sessions_of t e = 0 \<longrightarrow> all_closed (sp_entries t e) \<or> close_pending t e))"

definition pool_inv :: "spreadTransport \<Rightarrow> bool" where
  "pool_inv t \<longleftrightarrow> hosts_ok t \<and> streams_ok t \<and> counts_ok t \<and> removed_ok t"


lemma length_filter_list_update:
  assumes "i < length xs"
  shows "length (filter P (xs[i := y])) + (if P (xs ! i) then 1 else 0) = length (filter P xs) + (if P y then 1 else 0)"
proof -
  have "length (filter P xs) = length (filter P (take i xs)) + (if P (xs ! i) then 1 else 0) + length (filter P (drop (Suc i) xs))"
    using assms by (subst id_take_nth_drop [OF assms]) simp
  then show ?thesis using assms by (simp add: upd_conv_take_nth_drop)
qed

lemma sessions_of_set_pc:
  assumes "i < length (sp_streams t)"
  shows "sessions_of (set_stream_pc i pc t) e + (if counted e (sp_streams t ! i) then 1 else 0) =
    sessions_of t e + (if counted e ((sp_streams t ! i)\<lparr>sm_pc := pc\<rparr>) then 1 else 0)"
  using length_filter_list_update [OF assms, of "counted e" "(sp_streams t ! i)\<lparr>sm_pc := pc\<rparr>"]
  by (simp add: sessions_of_def set_stream_pc_def)

lemma set_stream_pc_fields [simp]:
  "sp_hosts (set_stream_pc i pc t) = sp_hosts t" "sp_entries (set_stream_pc i pc t) = sp_entries t"
  "sp_made (set_stream_pc i pc t) = sp_made t" "sp_storing (set_stream_pc i pc t) = sp_storing t"
  "sp_closing (set_stream_pc i pc t) = sp_closing t" "length (sp_streams (set_stream_pc i pc t)) = length (sp_streams t)"
  by (simp_all add: set_stream_pc_def)

lemma upd_spread_fields [simp]:
  "sp_hosts (upd_spread e f t) = sp_hosts t" "sp_made (upd_spread e f t) = sp_made t"
  "sp_streams (upd_spread e f t) = sp_streams t" "sp_storing (upd_spread e f t) = sp_storing t"
  "sp_closing (upd_spread e f t) = sp_closing t"
  "sp_entries (upd_spread e f t) = (sp_entries t)(e := f (sp_entries t e))"
  by (simp_all add: upd_spread_def)

lemma entry_update_fields [simp]:
  "se_sessions (log_event ev en) = se_sessions en" "se_poisoned (log_event ev en) = se_poisoned en"
  "se_poisoned (add_sessions n en) = se_poisoned en" "se_log (add_sessions n en) = se_log en"
  "se_sessions (add_sessions n en) = se_sessions en + n"
  "all_closed (log_event IdleClosed en)" "all_closed (add_sessions n en) = all_closed en"
  by (simp_all add: log_event_def add_sessions_def all_closed_def)

text \<open>A stream keeps its entry and its host.\<close>

lemma set_stream_pc_member:
  assumes "s \<in> set (sp_streams (set_stream_pc i pc t))" "i < length (sp_streams t)"
  shows "\<exists>s'\<in>set (sp_streams t). sm_entry s' = sm_entry s \<and> sm_host s' = sm_host s"
  using assms by (auto simp: set_stream_pc_def dest!: set_update_subset_insert [THEN subsetD])

lemma bex_set_nth: "(\<exists>x\<in>set xs. P x) \<longleftrightarrow> (\<exists>j < length xs. P (xs ! j))"
  by (metis in_set_conv_nth)

lemma set_stream_pc_pending:
  assumes "i < length (sp_streams t)"
  shows "(\<exists>s\<in>set (sp_streams (set_stream_pc i pc t)). sm_entry s = e \<and> sm_pc s = LastLeaving) \<longleftrightarrow>
    (\<exists>j < length (sp_streams t). sm_entry (sp_streams t ! j) = e \<and> (if j = i then pc else sm_pc (sp_streams t ! j)) = LastLeaving)"
  by (auto simp: bex_set_nth set_stream_pc_def nth_list_update)

lemma pool_invD:
  assumes "pool_inv t"
  shows "hosts_ok t" "streams_ok t" "counts_ok t" "removed_ok t"
  using assms by (simp_all add: pool_inv_def)

text \<open>What the parts of the invariant look at.\<close>

lemma hosts_streams_cong:
  assumes "hosts_ok t" "streams_ok t" "sp_hosts t' = sp_hosts t" "sp_made t' = sp_made t" "sp_storing t' = sp_storing t"
    "\<forall>e. se_poisoned (sp_entries t' e) = se_poisoned (sp_entries t e)"
    "\<forall>s\<in>set (sp_streams t'). \<exists>s'\<in>set (sp_streams t). sm_entry s' = sm_entry s \<and> sm_host s' = sm_host s"
  shows "hosts_ok t'" "streams_ok t'"
proof -
  show "hosts_ok t'" using assms(1,3-7) unfolding hosts_ok_def by metis
  show "streams_ok t'" using assms(2,4,5,7) unfolding streams_ok_def by metis
qed

lemma counted_set_pc:
  "counted e (s\<lparr>sm_pc := pc\<rparr>) \<longleftrightarrow> sm_entry s = e \<and> pc \<in> {Waiting, Open, Leaving}"
  by (simp add: counted_def)

lemma pooled_cong: "sp_hosts t' = sp_hosts t \<Longrightarrow> pooled t' = pooled t"
  by (simp add: pooled_def fun_eq_iff)

lemma counted_pos:
  assumes "i < length (sp_streams t)" "sm_pc (sp_streams t ! i) \<in> {Waiting, Open, Leaving}"
  shows "0 < sessions_of t (sm_entry (sp_streams t ! i))"
  using assms by (force simp: sessions_of_def counted_def filter_empty_conv)

text \<open>A stream that stays counted uses the transport.\<close>

lemma use_inv:
  assumes inv: "pool_inv t" and i: "i < length (sp_streams t)" "sm_pc (sp_streams t ! i) \<in> {Waiting, Open, Leaving}"
    and pc: "pc \<in> {Waiting, Open, Leaving}"
  shows "pool_inv (set_stream_pc i pc (upd_spread (sm_entry (sp_streams t ! i)) (log_event ev) t))" (is "pool_inv ?t")
proof -
  note parts = pool_invD [OF inv]
  let ?u = "upd_spread (sm_entry (sp_streams t ! i)) (log_event ev) t"
  have n: "sessions_of ?t e = sessions_of t e" for e
    using sessions_of_set_pc [of i ?u pc e] i pc by (auto simp: counted_def sessions_of_def)
  have pend: "close_pending ?t e = close_pending t e" for e
    using i pc set_stream_pc_pending [of i ?u pc e] bex_set_nth [of "sp_streams t" "\<lambda>s. sm_entry s = e \<and> sm_pc s = LastLeaving"]
    by (auto simp: close_pending_def)
  have "hosts_ok ?t" "streams_ok ?t"
    using set_stream_pc_member [of _ i pc ?u] i by (auto intro!: hosts_streams_cong [OF parts(1,2)] split: if_splits)
  moreover have "counts_ok ?t" using parts(3) by (simp add: counts_ok_def n)
  moreover have "removed_ok ?t"
    using parts(4) counted_pos [OF i] by (simp add: removed_ok_def n pend pooled_cong [of ?t t])
  ultimately show ?thesis by (simp add: pool_inv_def)
qed

lemma pending_kept:
  assumes "close_pending t e" "sm_pc (sp_streams t ! i) \<noteq> LastLeaving" "sp_streams u = sp_streams t"
    "set (sp_storing t) \<subseteq> set (sp_storing u)" "set (sp_closing t) \<subseteq> set (sp_closing u)"
  shows "close_pending (set_stream_pc i pc u) e"
proof (cases "\<exists>s\<in>set (sp_streams t). sm_entry s = e \<and> sm_pc s = LastLeaving")
  case True
  then obtain j where j: "j < length (sp_streams t)" "sm_entry (sp_streams t ! j) = e" "sm_pc (sp_streams t ! j) = LastLeaving"
    by (auto simp: in_set_conv_nth)
  then have "sp_streams (set_stream_pc i pc u) ! j = sp_streams t ! j" using assms(2,3) by (cases "i = j") (auto simp: set_stream_pc_def)
  then show ?thesis using j assms(3) unfolding close_pending_def by (metis nth_mem set_stream_pc_fields(6))
next
  case False
  then show ?thesis using assms(1,4,5) by (auto simp: close_pending_def)
qed

lemma release_count_inv:
  assumes inv: "pool_inv t" and i: "i < length (sp_streams t)" "sm_pc (sp_streams t ! i) = Leaving"
  shows "pool_inv (release_count i t)" (is "pool_inv ?t")
proof -
  note parts = pool_invD [OF inv]
  let ?e = "sm_entry (sp_streams t ! i)"
  let ?u = "upd_spread ?e (add_sessions (- 1)) t"
  let ?pc = "if se_sessions (sp_entries ?u ?e) = 0 then LastLeaving else Gone"
  have t: "?t = set_stream_pc i ?pc ?u" by (simp add: release_count_def Let_def)
  have n: "sessions_of ?t e + (if e = ?e then 1 else 0) = sessions_of t e" for e
    using sessions_of_set_pc [of i ?u ?pc e] i unfolding t by (auto simp: counted_def sessions_of_def)
  have made: "?e < sp_made t" using parts(2) i by (simp add: streams_ok_def)
  have num: "se_sessions (sp_entries t ?e) = int (sessions_of t ?e)" using parts(3) made by (simp add: counts_ok_def)
  have last: "close_pending ?t ?e" if "sessions_of ?t ?e = 0"
    using that n [of ?e] num set_stream_pc_pending [of i ?u ?pc ?e] i unfolding t by (auto simp: close_pending_def)
  have pend: "close_pending ?t e" if "close_pending t e" for e
    using pending_kept [OF that, of i ?u ?pc] i unfolding t by simp
  have "hosts_ok ?t" "streams_ok ?t"
    using set_stream_pc_member [of _ i ?pc ?u] i unfolding t by (auto intro!: hosts_streams_cong [OF parts(1,2)] split: if_splits)
  moreover have "counts_ok ?t"
    unfolding counts_ok_def
  proof (intro allI impI)
    fix e assume "e < sp_made ?t"
    then have c: "se_sessions (sp_entries t e) = int (sessions_of t e)" "sessions_of t e \<le> nat maxSessionsPerConnection"
      using parts(3) by (simp_all add: counts_ok_def t)
    have "se_sessions (sp_entries ?t e) = se_sessions (sp_entries t e) - (if e = ?e then 1 else 0)" by (simp add: t)
    then show "se_sessions (sp_entries ?t e) = int (sessions_of ?t e) \<and> sessions_of ?t e \<le> nat maxSessionsPerConnection"
      using c n [of e] by (auto split: if_splits)
  qed
  moreover have "removed_ok ?t"
    unfolding removed_ok_def
  proof (intro allI impI conjI)
    fix e assume e: "e < sp_made ?t" "\<not> pooled ?t e"
    then have old: "se_poisoned (sp_entries t e) \<or> e \<in> set (sp_storing t)"
      "sessions_of t e = 0 \<longrightarrow> all_closed (sp_entries t e) \<or> close_pending t e"
      using parts(4) pooled_cong [of ?t t] by (simp_all add: removed_ok_def t)
    show "se_poisoned (sp_entries ?t e) \<or> e \<in> set (sp_storing ?t)" using old(1) by (auto simp: t)
    show "all_closed (sp_entries ?t e) \<or> close_pending ?t e" if "sessions_of ?t e = 0"
    proof (cases "e = ?e")
      case True
      then show ?thesis using that last by simp
    next
      case False
      then have "sp_entries ?t e = sp_entries t e" by (simp add: t)
      then show ?thesis using False that pend [of e] old(2) n [of e] by auto
    qed
  qed
  ultimately show ?thesis by (simp add: pool_inv_def)
qed

lemma release_check_inv:
  assumes inv: "pool_inv t" and i: "i < length (sp_streams t)" "sm_pc (sp_streams t ! i) = LastLeaving"
  shows "pool_inv (release_check i t)" (is "pool_inv ?t")
proof -
  note parts = pool_invD [OF inv]
  let ?e = "sm_entry (sp_streams t ! i)"
  let ?u = "if se_poisoned (sp_entries t ?e) then t\<lparr>sp_closing := sp_closing t @ [?e]\<rparr> else t"
  have t: "?t = set_stream_pc i Gone ?u" by (simp add: release_check_def Let_def)
  have u [simp]: "sp_streams ?u = sp_streams t" "sp_hosts ?u = sp_hosts t" "sp_made ?u = sp_made t"
    "sp_storing ?u = sp_storing t" "sp_entries ?u = sp_entries t" by simp_all
  have n: "sessions_of ?t e = sessions_of t e" for e
    using sessions_of_set_pc [of i ?u Gone e] i unfolding t by (simp add: counted_def sessions_of_def)
  have "hosts_ok ?t" "streams_ok ?t"
    using set_stream_pc_member [of _ i Gone ?u] i unfolding t by (auto intro!: hosts_streams_cong [OF parts(1,2)])
  moreover have "counts_ok ?t" using parts(3) unfolding counts_ok_def n by (simp add: t)
  moreover have "removed_ok ?t"
    unfolding removed_ok_def n
  proof (intro allI impI)
    fix e assume e: "e < sp_made ?t" "\<not> pooled ?t e"
    then have old: "se_poisoned (sp_entries t e) \<or> e \<in> set (sp_storing t)"
      "sessions_of t e = 0 \<longrightarrow> all_closed (sp_entries t e) \<or> close_pending t e"
      using parts(4) pooled_cong [of ?t t] by (auto simp: removed_ok_def t)
    have "close_pending ?t e" if "close_pending t e"
    proof (cases "e = ?e")
      case True
      then show ?thesis using old(1) by (auto simp: close_pending_def t)
    next
      case False
      then show ?thesis using that set_stream_pc_pending [of i ?u Gone e] i
          bex_set_nth [of "sp_streams t" "\<lambda>s. sm_entry s = e \<and> sm_pc s = LastLeaving"]
        unfolding t close_pending_def by (auto split: if_splits)
    qed
    then show "(se_poisoned (sp_entries ?t e) \<or> e \<in> set (sp_storing ?t)) \<and>
      (sessions_of t e = 0 \<longrightarrow> all_closed (sp_entries ?t e) \<or> close_pending ?t e)"
      using old by (auto simp: t)
  qed
  ultimately show ?thesis by (simp add: pool_inv_def)
qed

lemma poison_inv:
  assumes inv: "pool_inv t" and s: "s \<in> set (sp_streams t)"
  shows "pool_inv (poison (sm_host s) (sm_entry s) t)" (is "pool_inv ?t")
proof (cases "sm_entry s \<in> set (sp_hosts t (sm_host s))")
  case False
  then have "filter (\<lambda>e. e \<noteq> sm_entry s) (sp_hosts t (sm_host s)) = sp_hosts t (sm_host s)" by (auto simp: filter_id_conv)
  then have "?t = t" using False by (simp add: poison_def Let_def)
  then show ?thesis using inv by simp
next
  case True
  note parts = pool_invD [OF inv]
  have f: "sp_hosts ?t = (sp_hosts t)(sm_host s := filter (\<lambda>e. e \<noteq> sm_entry s) (sp_hosts t (sm_host s)))"
    "sp_storing ?t = sp_storing t @ [sm_entry s]" "sp_entries ?t = sp_entries t" "sp_made ?t = sp_made t"
    "sp_streams ?t = sp_streams t" "sp_closing ?t = sp_closing t"
    using True by (simp_all add: poison_def Let_def)
  have n: "sessions_of ?t e = sessions_of t e" for e by (simp add: sessions_of_def f)
  have one: "e \<noteq> sm_entry s \<and> e \<in> set (sp_hosts t h)" if "e \<in> set (sp_hosts ?t h)" for e h
    using that True parts(1) by (auto simp: f hosts_ok_def split: if_splits)
  have "hosts_ok ?t"
    unfolding hosts_ok_def
  proof (intro conjI allI impI)
    fix h show "distinct (sp_hosts ?t h)" using parts(1) by (simp add: hosts_ok_def f)
  next
    fix h e assume e: "e \<in> set (sp_hosts ?t h)"
    note o = one [OF e]
    then show "e < sp_made ?t" "\<not> se_poisoned (sp_entries ?t e)" "e \<notin> set (sp_storing ?t)"
      "\<forall>s\<in>set (sp_streams ?t). sm_entry s = e \<longrightarrow> sm_host s = h"
      using parts(1) by (auto simp: hosts_ok_def f)
    show "h' = h" if "e \<in> set (sp_hosts ?t h')" for h' using o one [OF that] parts(1) by (auto simp: hosts_ok_def)
  qed
  moreover have "streams_ok ?t" using parts(2) s by (auto simp: streams_ok_def f)
  moreover have "counts_ok ?t" using parts(3) by (simp add: counts_ok_def f n)
  moreover have "removed_ok ?t"
    unfolding removed_ok_def n
  proof (intro allI impI)
    fix e assume e: "e < sp_made ?t" "\<not> pooled ?t e"
    show "(se_poisoned (sp_entries ?t e) \<or> e \<in> set (sp_storing ?t)) \<and>
      (sessions_of t e = 0 \<longrightarrow> all_closed (sp_entries ?t e) \<or> close_pending ?t e)"
    proof (cases "e = sm_entry s")
      case True
      then show ?thesis by (simp add: f close_pending_def)
    next
      case False
      then have "e \<in> set (sp_hosts ?t h)" if "e \<in> set (sp_hosts t h)" for h using that by (auto simp: f)
      then have "\<not> pooled t e" using e(2) by (auto simp: pooled_def)
      then have "(se_poisoned (sp_entries t e) \<or> e \<in> set (sp_storing t)) \<and>
          (sessions_of t e = 0 \<longrightarrow> all_closed (sp_entries t e) \<or> close_pending t e)"
        using e(1) parts(4) by (simp add: removed_ok_def f)
      then show ?thesis by (auto simp: f close_pending_def)
    qed
  qed
  ultimately show ?thesis by (simp add: pool_inv_def)
qed

lemma poison_store_inv:
  assumes inv: "pool_inv t" and e: "e \<in> set (sp_storing t)"
  shows "pool_inv (poison_store e t)" (is "pool_inv ?t")
proof -
  note parts = pool_invD [OF inv]
  have f: "sp_hosts ?t = sp_hosts t" "sp_made ?t = sp_made t" "sp_streams ?t = sp_streams t"
    "sp_storing ?t = remove1 e (sp_storing t)" "sp_closing ?t = sp_closing t @ [e]"
    "sp_entries ?t = (sp_entries t)(e := (sp_entries t e)\<lparr>se_poisoned := True\<rparr>)"
    by (simp_all add: poison_store_def Let_def upd_spread_def)
  have n: "sessions_of ?t x = sessions_of t x" for x by (simp add: sessions_of_def f)
  have sub: "x \<in> set (remove1 e (sp_storing t)) \<Longrightarrow> x \<in> set (sp_storing t)"
    "x \<in> set (sp_storing t) \<Longrightarrow> x \<noteq> e \<Longrightarrow> x \<in> set (remove1 e (sp_storing t))" for x
    using notin_set_remove1 [of x "sp_storing t" e] by (auto simp: in_set_remove1)
  have "hosts_ok ?t" using parts(1) e sub(1) unfolding hosts_ok_def f by (auto split: if_splits)
  moreover have "streams_ok ?t" using parts(2) sub(1) by (auto simp: streams_ok_def f)
  moreover have "counts_ok ?t" using parts(3) by (simp add: counts_ok_def f n)
  moreover have "removed_ok ?t"
    unfolding removed_ok_def n
  proof (intro allI impI)
    fix x assume x: "x < sp_made ?t" "\<not> pooled ?t x"
    then have "(se_poisoned (sp_entries t x) \<or> x \<in> set (sp_storing t)) \<and>
        (sessions_of t x = 0 \<longrightarrow> all_closed (sp_entries t x) \<or> close_pending t x)"
      using parts(4) pooled_cong [of ?t t] by (simp add: removed_ok_def f)
    then show "(se_poisoned (sp_entries ?t x) \<or> x \<in> set (sp_storing ?t)) \<and>
        (sessions_of t x = 0 \<longrightarrow> all_closed (sp_entries ?t x) \<or> close_pending ?t x)"
      using sub(2) [of x] by (cases "x = e") (auto simp: f close_pending_def)
  qed
  ultimately show ?thesis by (simp add: pool_inv_def)
qed

lemma idle_inv:
  assumes inv: "pool_inv t" and e: "e \<in> set (sp_closing t)"
  shows "pool_inv (closeIdleConnections e t)" (is "pool_inv ?t")
proof -
  note parts = pool_invD [OF inv]
  have f: "sp_hosts ?t = sp_hosts t" "sp_made ?t = sp_made t" "sp_streams ?t = sp_streams t"
    "sp_storing ?t = sp_storing t" "sp_closing ?t = remove1 e (sp_closing t)"
    "sp_entries ?t = (sp_entries t)(e := log_event IdleClosed (sp_entries t e))"
    by (simp_all add: closeIdleConnections_def)
  have n: "sessions_of ?t x = sessions_of t x" for x by (simp add: sessions_of_def f)
  have "hosts_ok ?t" "streams_ok ?t" by (rule hosts_streams_cong [OF parts(1,2)]; auto simp: f)+
  moreover have "counts_ok ?t" using parts(3) by (simp add: counts_ok_def f n)
  moreover have "removed_ok ?t"
    unfolding removed_ok_def n
  proof (intro allI impI)
    fix x assume x: "x < sp_made ?t" "\<not> pooled ?t x"
    then have "(se_poisoned (sp_entries t x) \<or> x \<in> set (sp_storing t)) \<and>
        (sessions_of t x = 0 \<longrightarrow> all_closed (sp_entries t x) \<or> close_pending t x)"
      using parts(4) pooled_cong [of ?t t] by (simp add: removed_ok_def f)
    then show "(se_poisoned (sp_entries ?t x) \<or> x \<in> set (sp_storing ?t)) \<and>
        (sessions_of t x = 0 \<longrightarrow> all_closed (sp_entries ?t x) \<or> close_pending ?t x)"
      by (cases "x = e") (auto simp: f close_pending_def)
  qed
  ultimately show ?thesis by (simp add: pool_inv_def)
qed

lemma close_all_inv:
  assumes inv: "pool_inv t"
  shows "pool_inv (CloseIdleConnections order t)" (is "pool_inv ?t")
proof -
  note parts = pool_invD [OF inv]
  have f: "sp_hosts ?t = sp_hosts t" "sp_made ?t = sp_made t" "sp_streams ?t = sp_streams t" "sp_entries ?t = sp_entries t"
    "sp_storing ?t = sp_storing t" "set (sp_closing t) \<subseteq> set (sp_closing ?t)"
    by (simp_all add: CloseIdleConnections_def)
  have n: "sessions_of ?t x = sessions_of t x" for x by (simp add: sessions_of_def f)
  have "hosts_ok ?t" "streams_ok ?t" by (rule hosts_streams_cong [OF parts(1,2)]; auto simp: f)+
  moreover have "counts_ok ?t" using parts(3) by (simp add: counts_ok_def f n)
  moreover have "removed_ok ?t"
    using parts(4) pooled_cong [of ?t t] f(6) [THEN subsetD] by (auto simp: removed_ok_def n f close_pending_def)
  ultimately show ?thesis by (simp add: pool_inv_def)
qed

text \<open>\<open>checkout\<close> takes an entry of the host's list that has room, or makes one when all are full.\<close>

lemma checkout_cases:
  assumes "checkout host t = (e, t')"
  obtains (shared) "e \<in> set (sp_hosts t host)" "se_sessions (sp_entries t e) < maxSessionsPerConnection"
      "t' = upd_spread e (add_sessions 1) t"
    | (made) "e = sp_made t" "\<forall>x\<in>set (sp_hosts t host). maxSessionsPerConnection \<le> se_sessions (sp_entries t x)"
      "t' = t\<lparr>sp_made := e + 1, sp_entries := (sp_entries t)(e := add_sessions 1 new_spreadEntry),
         sp_hosts := (sp_hosts t)(host := sp_hosts t host @ [e])\<rparr>"
proof (cases "find (\<lambda>e. se_sessions (sp_entries t e) < maxSessionsPerConnection) (sp_hosts t host)")
  case None
  then have "\<forall>x\<in>set (sp_hosts t host). maxSessionsPerConnection \<le> se_sessions (sp_entries t x)"
    by (auto simp: find_None_iff)
  then show ?thesis using assms None made by (auto simp: checkout_def Let_def upd_spread_def)
next
  case (Some x)
  then have "x \<in> set (sp_hosts t host)" "se_sessions (sp_entries t x) < maxSessionsPerConnection"
    by (auto simp: find_Some_iff)
  then show ?thesis using assms Some shared by (auto simp: checkout_def)
qed

lemma sessions_of_snoc:
  "sessions_of (t\<lparr>sp_streams := sp_streams t @ [s]\<rparr>) x = sessions_of t x + (if counted x s then 1 else 0)"
  by (simp add: sessions_of_def)

lemma RoundTrip_begin_inv:
  assumes inv: "pool_inv t"
  shows "pool_inv (RoundTrip_begin host t)" (is "pool_inv ?t")
proof -
  note parts = pool_invD [OF inv]
  obtain e t' where co: "checkout host t = (e, t')" by (cases "checkout host t")
  let ?s = "\<lparr>sm_host = host, sm_entry = e, sm_pc = Waiting\<rparr>"
  have t: "?t = t'\<lparr>sp_streams := sp_streams t' @ [?s]\<rparr>" by (simp add: RoundTrip_begin_def co)
  from co show ?thesis
  proof (cases rule: checkout_cases)
    case shared
    have n: "sessions_of ?t x = sessions_of t x + (if x = e then 1 else 0)" for x
      unfolding t sessions_of_snoc by (simp add: counted_def shared(3) sessions_of_def)
    have pool: "pooled t e" "e < sp_made t" using shared(1) parts(1) by (auto simp: pooled_def hosts_ok_def)
    have num: "se_sessions (sp_entries t x) = int (sessions_of t x)" "sessions_of t x \<le> nat maxSessionsPerConnection"
      if "x < sp_made t" for x using parts(3) that by (simp_all add: counts_ok_def)
    have "hosts_ok ?t" using parts(1) shared(1) unfolding hosts_ok_def t shared(3) by (auto split: if_splits)
    moreover have "streams_ok ?t" using parts(2) pool(2) by (simp add: streams_ok_def t shared(3))
    moreover have "counts_ok ?t"
      using num shared(2) pool(2) num(1) [OF pool(2)] unfolding counts_ok_def n by (simp add: t shared(3) maxSessionsPerConnection_def)
    moreover have "removed_ok ?t"
      unfolding removed_ok_def
    proof (intro allI impI)
      fix x assume x: "x < sp_made ?t" "\<not> pooled ?t x"
      then have "x \<noteq> e" "x < sp_made t" "\<not> pooled t x" using pool(1) by (auto simp: t shared(3) pooled_def)
      then show "(se_poisoned (sp_entries ?t x) \<or> x \<in> set (sp_storing ?t)) \<and>
          (sessions_of ?t x = 0 \<longrightarrow> all_closed (sp_entries ?t x) \<or> close_pending ?t x)"
        using parts(4) unfolding n removed_ok_def by (auto simp: t shared(3) close_pending_def)
    qed
    ultimately show ?thesis by (simp add: pool_inv_def)
  next
    case made
    have fresh: "s \<in> set (sp_streams t) \<Longrightarrow> sm_entry s \<noteq> e" "e \<notin> set (sp_hosts t h)" for s h
      using parts(1,2) by (auto simp: made(1) streams_ok_def hosts_ok_def)
    then have "sessions_of t e = 0" by (auto simp: sessions_of_def counted_def filter_empty_conv)
    then have n: "sessions_of ?t x = (if x = e then 1 else sessions_of t x)" for x
      unfolding t sessions_of_snoc by (simp add: counted_def made(3) sessions_of_def)
    have "hosts_ok ?t"
      unfolding hosts_ok_def
    proof (intro conjI allI impI)
      fix h show "distinct (sp_hosts ?t h)" using parts(1) fresh(2) [of host] by (simp add: t made(3) hosts_ok_def)
    next
      fix h x assume x: "x \<in> set (sp_hosts ?t h)"
      then have x': "x = e \<and> h = host \<or> x \<noteq> e \<and> x \<in> set (sp_hosts t h)"
        using fresh(2) by (auto simp: t made(3) split: if_splits)
      then show "x < sp_made ?t" "\<not> se_poisoned (sp_entries ?t x)"
        "\<forall>s\<in>set (sp_streams ?t). sm_entry s = x \<longrightarrow> sm_host s = h"
        using parts(1) fresh(1) by (auto simp: t made(3) hosts_ok_def new_spreadEntry_def made(1) less_Suc_eq)
      show "h' = h" if "x \<in> set (sp_hosts ?t h')" for h'
        using that x' fresh(2) parts(1) by (auto simp: t made(3) hosts_ok_def split: if_splits)
      show "x \<notin> set (sp_storing ?t)" using x' parts(1,2) by (auto simp: t made(1,3) hosts_ok_def streams_ok_def)
    qed
    moreover have "streams_ok ?t" using parts(2) by (auto simp: streams_ok_def t made(1,3))
    moreover have "counts_ok ?t"
      using parts(3) unfolding counts_ok_def n
      by (auto simp: t made(3) made(1) less_Suc_eq new_spreadEntry_def maxSessionsPerConnection_def)
    moreover have "removed_ok ?t"
      unfolding removed_ok_def
    proof (intro allI impI)
      fix x assume x: "x < sp_made ?t" "\<not> pooled ?t x"
      have "pooled ?t e" by (auto simp: pooled_def t made(3))
      then have "x \<noteq> e" using x(2) by auto
      moreover from this have "x < sp_made t" using x(1) by (simp add: t made(1,3))
      moreover have "\<not> pooled t x"
      proof
        assume "pooled t x"
        then obtain h where "x \<in> set (sp_hosts t h)" by (auto simp: pooled_def)
        then have "x \<in> set (sp_hosts ?t h)" by (auto simp: t made(3))
        then show False using x(2) by (auto simp: pooled_def)
      qed
      ultimately show "(se_poisoned (sp_entries ?t x) \<or> x \<in> set (sp_storing ?t)) \<and>
          (sessions_of ?t x = 0 \<longrightarrow> all_closed (sp_entries ?t x) \<or> close_pending ?t x)"
        using parts(4) unfolding n removed_ok_def by (auto simp: t made(3) close_pending_def)
    qed
    ultimately show ?thesis by (simp add: pool_inv_def)
  qed
qed

lemma pool_step_inv:
  assumes "pool_inv t" "pool_step t t'"
  shows "pool_inv t'"
  using assms(2)
proof cases
  case (ps_close i)
  then show ?thesis using assms(1) use_inv [of t i Leaving] by (simp add: Close_body_def)
qed (use assms(1) in \<open>simp_all add: RoundTrip_begin_inv RoundTrip_end_def use_inv release_count_inv release_check_inv
  poison_capture_def poison_inv poison_store_inv idle_inv close_all_inv\<close>)

lemma pool_init_inv: "pool_init t \<Longrightarrow> pool_inv t"
  by (simp add: pool_init_def newSpreadTransport_def pool_inv_def hosts_ok_def streams_ok_def counts_ok_def removed_ok_def)

text \<open>An entry that was removed stays out of the pool and gets no further sessions.\<close>

definition removed_stays :: "spreadTransport \<Rightarrow> spreadTransport \<Rightarrow> bool" where
  "removed_stays t t' \<longleftrightarrow> sp_made t \<le> sp_made t' \<and>
     (\<forall>e < sp_made t. \<not> pooled t e \<longrightarrow> \<not> pooled t' e \<and> sessions_of t' e \<le> sessions_of t e)"

lemma removed_stays_same:
  assumes "sp_hosts t' = sp_hosts t" "sp_made t' = sp_made t" "\<forall>e. sessions_of t' e \<le> sessions_of t e"
  shows "removed_stays t t'"
  using assms by (simp add: removed_stays_def pooled_def)

lemma sessions_of_streams: "sp_streams t' = sp_streams t \<Longrightarrow> sessions_of t' = sessions_of t"
  by (simp add: sessions_of_def fun_eq_iff)

lemma removed_stays_pc:
  assumes "i < length (sp_streams t)" "counted (sm_entry (sp_streams t ! i)) (sp_streams t ! i) \<or> pc = Gone"
    "sp_hosts u = sp_hosts t" "sp_made u = sp_made t" "sp_streams u = sp_streams t"
  shows "removed_stays t (set_stream_pc i pc u)"
proof (rule removed_stays_same)
  show "\<forall>e. sessions_of (set_stream_pc i pc u) e \<le> sessions_of t e"
  proof
    fix e
    have "counted e ((sp_streams t ! i)\<lparr>sm_pc := pc\<rparr>) \<Longrightarrow> counted e (sp_streams t ! i)"
      using assms(2) by (auto simp: counted_def)
    then show "sessions_of (set_stream_pc i pc u) e \<le> sessions_of t e"
      using sessions_of_set_pc [of i u pc e] sessions_of_streams [OF assms(5)] assms(1,5) by (auto split: if_splits)
  qed
qed (use assms in simp_all)

lemma removed_stays_begin:
  assumes "pool_inv t"
  shows "removed_stays t (RoundTrip_begin host t)"
proof -
  obtain e t' where co: "checkout host t = (e, t')" by (cases "checkout host t")
  from co show ?thesis
  proof (cases rule: checkout_cases)
    case shared
    then show ?thesis by (auto simp: RoundTrip_begin_def co removed_stays_def pooled_def sessions_of_def counted_def)
  next
    case made
    then show ?thesis by (auto simp: RoundTrip_begin_def co removed_stays_def pooled_def sessions_of_def counted_def)
  qed
qed

lemma pool_step_removed:
  assumes "pool_inv t" "pool_step t t'"
  shows "removed_stays t t'"
  using assms(2)
proof cases
  case (ps_begin host)
  then show ?thesis using removed_stays_begin [OF assms(1)] by simp
next
  case (ps_poison i)
  then show ?thesis
    by (auto simp: poison_capture_def poison_def Let_def removed_stays_def pooled_def sessions_of_def split: if_splits)
next
  case (ps_close i)
  show ?thesis
  proof (cases "sm_pc (sp_streams t ! i) = Open")
    case True
    then show ?thesis using ps_close by (auto simp: Close_body_def counted_def intro!: removed_stays_pc)
  next
    case False
    then show ?thesis using ps_close by (simp add: Close_body_def removed_stays_def)
  qed
next
  case (ps_check i)
  then show ?thesis by (auto simp: release_check_def Let_def intro!: removed_stays_pc)
next
  case (ps_end i ok)
  then show ?thesis by (auto simp: RoundTrip_end_def counted_def intro!: removed_stays_pc)
next
  case (ps_count i)
  then show ?thesis by (auto simp: release_count_def Let_def counted_def intro!: removed_stays_pc)
qed (auto simp: poison_store_def closeIdleConnections_def CloseIdleConnections_def Let_def
    intro!: removed_stays_same [OF _ _ allI [OF eq_refl [OF fun_cong [OF sessions_of_streams]]]])

interpretation pool: monotone_system pool_init pool_step pool_inv removed_stays
proof
  show "removed_stays a c" if "removed_stays a b" "removed_stays b c" for a b c
    using that unfolding removed_stays_def by (meson le_trans less_le_trans)
qed (auto simp: removed_stays_def intro: pool_init_inv pool_step_inv pool_step_removed [unfolded removed_stays_def, THEN conjunct1]
    dest: pool_step_removed)

section \<open>Properties\<close>

text \<open>C29: The session count of an entry is the number of streams that wait for a response, have an open body or
  are being closed but have not given their slot back yet on it, never more than four; an entry in the pool is not poisoned; and a new connection is opened only when every
  entry of the host serves four streams.\<close>

theorem pool_sessions_bounded:
  assumes "reach pool_init pool_step t" "e < sp_made t" "checkout host t = (x, t')"
  shows "se_sessions (sp_entries t e) = int (sessions_of t e) \<and> sessions_of t e \<le> 4 \<and>
    (pooled t e \<longrightarrow> \<not> se_poisoned (sp_entries t e)) \<and>
    (x = sp_made t \<longrightarrow> (\<forall>y\<in>set (sp_hosts t host). sessions_of t y = 4)) \<and>
    (x \<noteq> sp_made t \<longrightarrow> x \<in> set (sp_hosts t host) \<and> sessions_of t x < 4)"
proof -
  note parts = pool_invD [OF pool.reach_inv [OF assms(1)]]
  have num: "se_sessions (sp_entries t y) = int (sessions_of t y)" "sessions_of t y \<le> 4" if "y < sp_made t" for y
    using parts(3) that by (simp_all add: counts_ok_def maxSessionsPerConnection_def)
  have made: "y < sp_made t" if "y \<in> set (sp_hosts t host)" for y using parts(1) that by (auto simp: hosts_ok_def)
  have "pooled t e \<longrightarrow> \<not> se_poisoned (sp_entries t e)" using parts(1) by (auto simp: hosts_ok_def pooled_def)
  moreover have "(x = sp_made t \<longrightarrow> (\<forall>y\<in>set (sp_hosts t host). sessions_of t y = 4)) \<and>
    (x \<noteq> sp_made t \<longrightarrow> x \<in> set (sp_hosts t host) \<and> sessions_of t x < 4)"
    using assms(3)
  proof (cases rule: checkout_cases)
    case shared
    then show ?thesis using made [of x] num(1) [of x] by (auto simp: maxSessionsPerConnection_def)
  next
    case made': made
    have "sessions_of t y = 4" if "y \<in> set (sp_hosts t host)" for y
      using made'(2) that num [OF made [OF that]] by (force simp: maxSessionsPerConnection_def)
    then show ?thesis using made'(1) by simp
  qed
  ultimately show ?thesis using num [OF assms(2)] by blast
qed

text \<open>C30: A poisoned connection is not leaked: however the streams, the poisoning and the closing of idle
  connections interleave, an entry that was taken out of the pool is never used for another stream, and once its last
  stream is over and no call that is about to close it is under way, its idle connections were closed after the last
  thing that happened on it.\<close>

theorem pool_removed_closed:
  assumes "reach pool_init pool_step t" "e < sp_made t" "\<not> pooled t e" "steps pool_step t t'"
  shows "\<not> pooled t' e \<and> sessions_of t' e \<le> sessions_of t e \<and>
    (sessions_of t' e = 0 \<and> \<not> close_pending t' e \<longrightarrow> all_closed (sp_entries t' e))"
proof -
  have stays: "removed_stays t t'" by (rule pool.steps_rel [OF assms(4) pool.reach_inv [OF assms(1)]])
  have "removed_ok t'"
    by (rule pool_invD(4)) (rule pool.reach_inv [OF steps_reach [OF assms(4,1)]])
  moreover have "e < sp_made t'" "\<not> pooled t' e \<and> sessions_of t' e \<le> sessions_of t e"
    using stays assms(2,3) by (auto simp: removed_stays_def)
  ultimately show ?thesis unfolding removed_ok_def by blast
qed

section \<open>Witnesses\<close>

text \<open>One stream is opened, its entry poisoned, the stream closed and its entry released.\<close>

definition pool1 :: spreadTransport where "pool1 = RoundTrip_end 0 True (RoundTrip_begin ''h'' newSpreadTransport)"
definition pool2 :: spreadTransport where "pool2 = poison_capture (Some (''h'', 0)) pool1"
definition pool3 :: spreadTransport where "pool3 = closeIdleConnections 0 (poison_store 0 pool2)"
definition pool4 :: spreadTransport where "pool4 = release_check 0 (release_count 0 (Close_body 0 pool3))"
definition pool5 :: spreadTransport where "pool5 = closeIdleConnections 0 pool4"

lemma pool_demo:
  "reach pool_init pool_step pool1" "reach pool_init pool_step pool2" "steps pool_step pool2 pool5"
proof -
  have "pool_step newSpreadTransport (RoundTrip_begin ''h'' newSpreadTransport)" by (rule ps_begin)
  moreover have "pool_step (RoundTrip_begin ''h'' newSpreadTransport) pool1"
    unfolding pool1_def by (rule ps_end) code_simp+
  ultimately show one: "reach pool_init pool_step pool1"
    by (meson reach_init reach_step pool_init_def)
  have "pool_step pool1 pool2"
  proof -
    have "0 < length (sp_streams pool1)" "sm_host (sp_streams pool1 ! 0) = ''h''" "sm_entry (sp_streams pool1 ! 0) = 0"
      by code_simp+
    then show ?thesis using ps_poison [of 0 pool1] by (simp add: pool2_def)
  qed
  then show "reach pool_init pool_step pool2" using one by (rule reach_step [rotated])
  have "pool_step pool2 (poison_store 0 pool2)" by (rule ps_store) code_simp
  moreover have "pool_step (poison_store 0 pool2) pool3" unfolding pool3_def by (rule ps_idle) code_simp
  moreover have "pool_step pool3 (Close_body 0 pool3)" by (rule ps_close) code_simp
  moreover have "pool_step (Close_body 0 pool3) (release_count 0 (Close_body 0 pool3))" by (rule ps_count) code_simp+
  moreover have "pool_step (release_count 0 (Close_body 0 pool3)) pool4" unfolding pool4_def by (rule ps_check) code_simp+
  moreover have "pool_step pool4 pool5" unfolding pool5_def by (rule ps_idle) code_simp
  ultimately show "steps pool_step pool2 pool5" by (meson steps_refl steps_trans)
qed

theorem pool_sessions_bounded_witness:
  "sessions_of pool1 0 \<le> 4 \<and> fst (checkout ''h'' pool1) = 0"
proof -
  have "0 < sp_made pool1" "fst (checkout ''h'' pool1) = 0" by code_simp+
  then show ?thesis
    using pool_sessions_bounded [OF pool_demo(1), of 0 "''h''" "fst (checkout ''h'' pool1)" "snd (checkout ''h'' pool1)"]
    by (simp del: split_paired_All add: prod_eq_iff)
qed

theorem pool_removed_closed_witness: "all_closed (sp_entries pool5 0)"
proof -
  have "\<not> pooled pool2 0" by (simp add: pooled_def pool2_def poison_capture_def poison_def pool1_def RoundTrip_end_def
      RoundTrip_begin_def checkout_def newSpreadTransport_def Let_def set_stream_pc_def upd_spread_def)
  moreover have "0 < sp_made pool2" "sessions_of pool5 0 = 0" "\<not> close_pending pool5 0" by code_simp+
  ultimately show ?thesis using pool_removed_closed [OF pool_demo(2) _ _ pool_demo(3), of 0] by blast
qed

end
