(* ===== verification/Bento_Ack.thy ===== *)
theory Bento_Ack
  imports Step_Systems Stream_Types Errors "HOL-Library.RBT"
begin

text \<open>
  Positions and acknowledgements of the bentobox input (\<open>src/s2-bentobox/input.go\<close>,
  \<open>src/s2-bentobox/stream_input.go\<close>): the cache of the next sequence number to consume, with the generations
  that protect it after a reset, and the map of the batches that are delivered and not yet done.

  The ordered map of the code is a third-party B-tree; it is the argument \<open>'m btree\<close> of the definitions, and
  \<open>ordered_map\<close> states what is used of it.  The user's cache behind \<open>seqNumCache\<close> is an interface: what its
  calls return is an argument, \<open>sq_durable\<close> is what it holds.
\<close>

section \<open>The cache of positions\<close>

record seqNumCache =
  sq_hasInner :: bool
  sq_mem :: "string \<Rightarrow> u64 option"
  sq_gens :: "string \<Rightarrow> nat"
  sq_durable :: "string \<Rightarrow> u64 option"

definition newSeqNumCache :: "bool \<Rightarrow> (string \<Rightarrow> u64 option) \<Rightarrow> seqNumCache" where
  "newSeqNumCache hasInner durable =
     \<lparr>sq_hasInner = hasInner, sq_mem = (\<lambda>_. None), sq_gens = (\<lambda>_. 0), sq_durable = durable\<rparr>"

definition generation :: "seqNumCache \<Rightarrow> string \<Rightarrow> nat" where
  "generation s stream = sq_gens s stream"

text \<open>\<open>Get\<close> up to the call of the inner cache, which answered \<open>got\<close>, and the store in memory that follows.
  \<open>Inr None\<close> is \<open>ErrNoCacheEntry\<close>.\<close>

datatype cache_get = GetDone "u64 option" | GetStore u64

definition Get_cache :: "seqNumCache \<Rightarrow> string \<Rightarrow> goerr + u64 \<Rightarrow> cache_get" where
  "Get_cache s stream got = (case sq_mem s stream of
     Some val \<Rightarrow> GetDone (Some val)
   | None \<Rightarrow>
       if \<not> sq_hasInner s then GetDone None
       else (case got of Inl err \<Rightarrow> GetDone None | Inr cached \<Rightarrow> GetStore cached))"

definition mem_Set :: "string \<Rightarrow> u64 \<Rightarrow> seqNumCache \<Rightarrow> seqNumCache" where
  "mem_Set stream seqNum s = s\<lparr>sq_mem := (sq_mem s)(stream \<mapsto> seqNum)\<rparr>"

text \<open>The two writes \<open>Set\<close> and \<open>ResetToTail\<close> share.  \<open>err\<close> is the result of the inner \<open>Set\<close>; a call that
  failed may have stored the value all the same, which \<open>landed\<close> says.\<close>

definition write_position :: "string \<Rightarrow> u64 \<Rightarrow> goerr option \<Rightarrow> bool \<Rightarrow> seqNumCache \<Rightarrow> goerr option \<times> seqNumCache" where
  "write_position stream seqNum err landed s =
     (let s = mem_Set stream seqNum s
      in if sq_hasInner s
         then (err, if err = None \<or> landed then s\<lparr>sq_durable := (sq_durable s)(stream \<mapsto> seqNum)\<rparr> else s)
         else (None, s))"

definition Set_cache :: "string \<Rightarrow> u64 \<Rightarrow> nat \<Rightarrow> goerr option \<Rightarrow> bool \<Rightarrow> seqNumCache \<Rightarrow> goerr option \<times> seqNumCache" where
  "Set_cache stream seqNum gen err landed s =
     (if gen < sq_gens s stream then (None, s) else write_position stream seqNum err landed s)"

definition ResetToTail :: "string \<Rightarrow> u64 \<Rightarrow> goerr option \<Rightarrow> bool \<Rightarrow> seqNumCache \<Rightarrow> goerr option \<times> seqNumCache" where
  "ResetToTail stream seqNum err landed s =
     (let s = s\<lparr>sq_gens := (sq_gens s)(stream := sq_gens s stream + 1)\<rparr>
      in write_position stream seqNum err landed s)"

definition Forget :: "string \<Rightarrow> seqNumCache \<Rightarrow> seqNumCache" where
  "Forget stream s = s\<lparr>sq_mem := (sq_mem s)(stream := None)\<rparr>"

section \<open>Batches to acknowledge\<close>

record batchAckStatus =
  bs_Acked :: bool
  bs_FirstSeqNum :: u64
  bs_LastSeqNum :: u64

text \<open>The operations of the ordered map; \<open>bt_items\<close> is what \<open>Scan\<close> visits, in order.\<close>

record 'm btree =
  bt_new :: 'm
  bt_Set :: "u64 \<Rightarrow> batchAckStatus \<Rightarrow> 'm \<Rightarrow> 'm"
  bt_Get :: "'m \<Rightarrow> u64 \<Rightarrow> batchAckStatus option"
  bt_Delete :: "u64 \<Rightarrow> 'm \<Rightarrow> 'm"
  bt_items :: "'m \<Rightarrow> (u64 \<times> batchAckStatus) list"

record 'm toAckMap =
  ta_stream :: string
  ta_gen :: nat
  ta_inner :: 'm

definition newToAckMap :: "'m btree \<Rightarrow> string \<Rightarrow> nat \<Rightarrow> 'm toAckMap" where
  "newToAckMap bt stream gen = \<lparr>ta_stream = stream, ta_gen = gen, ta_inner = bt_new bt\<rparr>"

definition Add_toAck :: "'m btree \<Rightarrow> SequencedRecord list \<Rightarrow> 'm toAckMap \<Rightarrow> 'm toAckMap" where
  "Add_toAck bt records tam =
     (if records = [] then tam
      else
        let firstSeqNum = sr_SeqNum (hd records); lastSeqNum = sr_SeqNum (last records)
        in tam\<lparr>ta_inner := bt_Set bt firstSeqNum
             \<lparr>bs_Acked = False, bs_FirstSeqNum = firstSeqNum, bs_LastSeqNum = lastSeqNum\<rparr> (ta_inner tam)\<rparr>)"

definition Len_toAck :: "'m btree \<Rightarrow> 'm toAckMap \<Rightarrow> nat" where
  "Len_toAck bt tam = length (bt_items bt (ta_inner tam))"

text \<open>The callback of \<open>Scan\<close>: the batches that are done, from the first one and without a gap.\<close>

fun scan_acked :: "(u64 \<times> batchAckStatus) list \<Rightarrow> u64 list \<Rightarrow> batchAckStatus option \<Rightarrow> u64 list \<times> batchAckStatus option" where
  "scan_acked [] toDelete lastAcked = (toDelete, lastAcked)"
| "scan_acked ((k, v) # items) toDelete lastAcked =
     (if \<not> bs_Acked v then (toDelete, lastAcked)
      else if (case lastAcked of Some l \<Rightarrow> bs_FirstSeqNum v \<noteq> bs_LastSeqNum l + 1 | None \<Rightarrow> False)
      then (toDelete, lastAcked)
      else scan_acked items (toDelete @ [k]) (Some v))"

definition errCannotAckBatch :: goerr where "errCannotAckBatch = errorf ''cannot acknowledge batch''"

definition mark_acked :: "'m btree \<Rightarrow> u64 \<Rightarrow> batchAckStatus \<Rightarrow> 'm toAckMap \<Rightarrow> 'm toAckMap" where
  "mark_acked bt seqNum st tam = tam\<lparr>ta_inner := bt_Set bt seqNum (st\<lparr>bs_Acked := True\<rparr>) (ta_inner tam)\<rparr>"

definition MarkDone :: "'m btree \<Rightarrow> SequencedRecord list \<Rightarrow> bool \<Rightarrow> goerr option \<Rightarrow> bool \<Rightarrow> 'm toAckMap \<Rightarrow> seqNumCache \<Rightarrow>
    goerr option \<times> 'm toAckMap \<times> seqNumCache" where
  "MarkDone bt records updateCache err landed tam cache =
     (if records = [] then (None, tam, cache)
      else
        let seqNum = sr_SeqNum (hd records) in
        case bt_Get bt (ta_inner tam) seqNum of
          None \<Rightarrow> (Some errCannotAckBatch, tam, cache)
        | Some batchStatus \<Rightarrow>
            let tam = mark_acked bt seqNum batchStatus tam;
                (toDelete, lastAcked) = scan_acked (bt_items bt (ta_inner tam)) [] None;
                (setErr, cache) = (case lastAcked of
                    Some l \<Rightarrow> if updateCache
                      then Set_cache (ta_stream tam) (bs_LastSeqNum l + 1) (ta_gen tam) err landed cache
                      else (None, cache)
                  | None \<Rightarrow> (None, cache))
            in case setErr of
                 Some e \<Rightarrow> (Some e, tam, cache)
               | None \<Rightarrow> (None, tam\<lparr>ta_inner := fold (bt_Delete bt) toDelete (ta_inner tam)\<rparr>, cache))"

section \<open>What is used of the map\<close>

locale ordered_map =
  fixes bt :: "'m btree"
  assumes Get_new: "bt_Get bt (bt_new bt) k = None"
    and Get_Set: "bt_Get bt (bt_Set bt k v m) k' = (if k' = k then Some v else bt_Get bt m k')"
    and Get_Delete: "bt_Get bt (bt_Delete bt k m) k' = (if k' = k then None else bt_Get bt m k')"
    and items_Get: "map_of (bt_items bt m) = bt_Get bt m"
    and items_sorted: "sorted_wrt (<) (map fst (bt_items bt m))"
begin

lemma Get_fold_Delete: "bt_Get bt (fold (bt_Delete bt) ks m) k = (if k \<in> set ks then None else bt_Get bt m k)"
  by (induction ks arbitrary: m) (auto simp: Get_Delete)

lemma items_distinct: "distinct (map fst (bt_items bt m))"
  using items_sorted strict_sorted_iff by blast

lemma item_Get: "(k, v) \<in> set (bt_items bt m) \<longleftrightarrow> bt_Get bt m k = Some v"
  using map_of_eq_Some_iff [OF items_distinct [of m], of k v] by (simp add: items_Get)

end

text \<open>A red-black tree is such a map.\<close>

definition rbt_map :: "(u64, batchAckStatus) rbt btree" where
  "rbt_map = \<lparr>bt_new = RBT.empty, bt_Set = RBT.insert, bt_Get = RBT.lookup, bt_Delete = RBT.delete, bt_items = RBT.entries\<rparr>"

interpretation rbt: ordered_map rbt_map
proof
  show "map_of (bt_items rbt_map m) = bt_Get rbt_map m" for m by (simp add: rbt_map_def map_of_entries)
  show "sorted_wrt (<) (map fst (bt_items rbt_map m))" for m
    using sorted_entries [of m] distinct_entries [of m] by (simp add: rbt_map_def strict_sorted_iff)
qed (simp_all add: rbt_map_def)

section \<open>The scan\<close>

text \<open>The scan takes a prefix of the items, all of them done; the position it gives is behind the last one.\<close>

lemma scan_acked_prefix:
  assumes "scan_acked items ks l = (ks', l')"
  shows "\<exists>pre post. items = pre @ post \<and> ks' = ks @ map fst pre \<and> (\<forall>(k, v)\<in>set pre. bs_Acked v) \<and>
    l' = (if pre = [] then l else Some (snd (last pre)))"
  using assms
proof (induction items ks l rule: scan_acked.induct)
  case (2 k v items ks l)
  show ?case
  proof (cases "bs_Acked v \<and> \<not> (case l of Some l \<Rightarrow> bs_FirstSeqNum v \<noteq> bs_LastSeqNum l + 1 | None \<Rightarrow> False)")
    case True
    then have "scan_acked items (ks @ [k]) (Some v) = (ks', l')" using 2(2) by (auto split: if_splits)
    with 2(1) True obtain pre post where p: "items = pre @ post" "ks' = (ks @ [k]) @ map fst pre" "\<forall>(k, v)\<in>set pre. bs_Acked v"
      "l' = (if pre = [] then Some v else Some (snd (last pre)))" by fastforce
    then have "(k, v) # items = ((k, v) # pre) @ post" "ks' = ks @ map fst ((k, v) # pre)" "\<forall>(k, v)\<in>set ((k, v) # pre). bs_Acked v"
      "l' = (if (k, v) # pre = [] then l else Some (snd (last ((k, v) # pre))))"
      using True by auto
    then show ?thesis by blast
  next
    case False
    then have "ks' = ks" "l' = l" using 2(2) by (auto split: if_splits option.splits)
    then show ?thesis by (intro exI [of _ "[]"] exI [of _ "(k, v) # items"]) simp
  qed
qed simp

context ordered_map
begin

text \<open>What the scan of a map finds: the keys to delete are the keys up to the last batch taken, and all of them
  are done.\<close>

lemma scan_items:
  assumes "scan_acked (bt_items bt m) [] None = (ks, l)"
  shows "\<forall>k\<in>set ks. \<exists>v. bt_Get bt m k = Some v \<and> bs_Acked v"
    and "l = None \<longleftrightarrow> ks = []"
    and "l = Some s \<Longrightarrow> \<exists>k. bt_Get bt m k = Some s \<and> bs_Acked s \<and> k \<in> set ks \<and> (\<forall>k' v. bt_Get bt m k' = Some v \<longrightarrow> k' \<le> k \<longrightarrow> k' \<in> set ks)"
proof -
  obtain pre post where p: "bt_items bt m = pre @ post" "ks = map fst pre" "\<forall>(k, v)\<in>set pre. bs_Acked v"
    "l = (if pre = [] then None else Some (snd (last pre)))"
    using scan_acked_prefix [OF assms] by auto
  show "\<forall>k\<in>set ks. \<exists>v. bt_Get bt m k = Some v \<and> bs_Acked v"
    using p(1-3) item_Get [of _ _ m] by fastforce
  show "l = None \<longleftrightarrow> ks = []" using p(2,4) by simp
  assume s: "l = Some s"
  then have ne: "pre \<noteq> []" "snd (last pre) = s" using p(4) by (auto split: if_splits)
  then have mem: "(fst (last pre), s) \<in> set pre" using last_in_set by force
  have "k' \<in> set ks" if "bt_Get bt m k' = Some v" "k' \<le> fst (last pre)" for k' v
  proof (rule ccontr)
    assume "k' \<notin> set ks"
    then have "k' \<in> set (map fst post)" using that(1) p(1,2) item_Get [of k' v m] by force
    moreover have "\<forall>x\<in>set (map fst pre). \<forall>y\<in>set (map fst post). x < y"
      using items_sorted [of m] unfolding p(1) by (simp add: sorted_wrt_append)
    ultimately have "fst (last pre) < k'" using ne(1) last_in_set by fastforce
    then show False using that(2) by simp
  qed
  then show "\<exists>k. bt_Get bt m k = Some s \<and> bs_Acked s \<and> k \<in> set ks \<and> (\<forall>k' v. bt_Get bt m k' = Some v \<longrightarrow> k' \<le> k \<longrightarrow> k' \<in> set ks)"
    using mem p(1-3) item_Get [of "fst (last pre)" s m] by (intro exI [of _ "fst (last pre)"]) force
qed

end

end
