(* ===== verification/Bento_Input.thy ===== *)
theory Bento_Input
  imports Bento_Ack "HOL-Library.Multiset"
begin

text \<open>
  The input of one stream (\<open>src/s2-bentobox/stream_input.go\<close>) and the goroutine that connects and reads it
  (\<open>streamSource\<close> and \<open>streamSourceRecvLoop\<close> of \<open>multi_stream_input.go\<close>), interleaved with the acknowledgements
  of the consumer.  Inputs that were closed stay: their acknowledgements may still arrive.

  The read session is its interface: \<open>Next\<close> returns the records of the stream from the start position on, in
  order.  \<open>bo_records\<close> is the stream, \<open>bo_acked\<close> what the consumer has acknowledged and \<open>bo_starts\<close> the positions at
  which reading may have been started in the current generation other than from an acknowledged position.
\<close>

section \<open>One input\<close>

datatype bento_err = ErrInputClosed | Wrapped goerr

record 'm streamInput =
  si_toAck :: "'m toAckMap"
  si_nacks :: "SequencedRecord list list"
  si_room :: nat
  si_closed :: bool
  si_deliveries :: "(SequencedRecord list \<times> bento_err option option) list"
  si_start :: u64
  si_pos :: u64

text \<open>The options \<open>connectStreamInput\<close> reads with; \<open>entry\<close> is what the cache returned.\<close>

definition input_options :: "bool \<Rightarrow> u64 option \<Rightarrow> ReadOptions" where
  "input_options latest entry = (case entry of
     None \<Rightarrow> if latest then empty_ReadOptions\<lparr>ro_TailOffset := Some 0\<rparr> else empty_ReadOptions\<lparr>ro_SeqNum := Some 0\<rparr>
   | Some startSeqNum \<Rightarrow> empty_ReadOptions\<lparr>ro_SeqNum := Some startSeqNum\<rparr>)"

definition connectStreamInput :: "'m btree \<Rightarrow> string \<Rightarrow> nat \<Rightarrow> nat \<Rightarrow> u64 \<Rightarrow> 'm streamInput" where
  "connectStreamInput bt stream gen maxInflight start =
     \<lparr>si_toAck = newToAckMap bt stream gen, si_nacks = [], si_room = maxInflight, si_closed = False,
      si_deliveries = [], si_start = start, si_pos = start\<rparr>"

text \<open>The result is the batch and, when it is not empty, the index of its acknowledgement function.\<close>

definition handleBatch :: "'m btree \<Rightarrow> SequencedRecord list \<Rightarrow> 'm streamInput \<Rightarrow>
    (bento_err + SequencedRecord list \<times> nat option) \<times> 'm streamInput" where
  "handleBatch bt records si =
     (if records = [] then (Inr (records, None), si)
      else
        let si = si\<lparr>si_toAck := Add_toAck bt records (si_toAck si)\<rparr>
        in (Inr (records, Some (length (si_deliveries si))), si\<lparr>si_deliveries := si_deliveries si @ [(records, None)]\<rparr>))"

text \<open>\<open>next\<close> is what the session returned: a record, its end, or its error.  When the context and the input are both
  done, either may be reported.\<close>

definition ReadBatch_input :: "'m btree \<Rightarrow> goerr option \<Rightarrow> bool \<Rightarrow> goerr + SequencedRecord option \<Rightarrow> 'm streamInput \<Rightarrow>
    (bento_err + SequencedRecord list \<times> nat option) \<times> 'm streamInput" where
  "ReadBatch_input bt ctxErr ctxFirst next si = (case si_nacks si of
     records # rest \<Rightarrow> handleBatch bt records (si\<lparr>si_nacks := rest\<rparr>)
   | [] \<Rightarrow>
       (case ctxErr of
          Some err \<Rightarrow> (Inl (if si_closed si \<and> \<not> ctxFirst then ErrInputClosed else Wrapped err), si)
        | None \<Rightarrow>
            if si_closed si then (Inl ErrInputClosed, si)
            else (case next of
                Inr (Some rec) \<Rightarrow> handleBatch bt [rec] si
              | Inl err \<Rightarrow> (Inl (Wrapped err), si)
              | Inr None \<Rightarrow> (Inl ErrInputClosed, si))))"

text \<open>\<open>nack\<close>; \<open>sel\<close> is the error of the case taken when the channel is full, \<open>None\<close> that it still waits.  The channel
  has the capacity \<open>si_room\<close>; a capacity of 0, with which Go hands a batch directly to a waiting \<open>ReadBatch\<close>, is not
  modelled: here such a \<open>nack\<close> waits until the input is closed or its context ends.\<close>

definition nack_input :: "SequencedRecord list \<Rightarrow> bento_err option \<Rightarrow> 'm streamInput \<Rightarrow> (bento_err option \<times> 'm streamInput) option" where
  "nack_input records sel si =
     (if length (si_nacks si) < si_room si then Some (None, si\<lparr>si_nacks := si_nacks si @ [records]\<rparr>)
      else (case sel of
          Some ErrInputClosed \<Rightarrow> if si_closed si then Some (Some ErrInputClosed, si) else None
        | Some (Wrapped err) \<Rightarrow> Some (Some (Wrapped err), si)
        | None \<Rightarrow> None))"

definition ack_input :: "'m btree \<Rightarrow> SequencedRecord list \<Rightarrow> goerr option \<Rightarrow> bool \<Rightarrow> 'm streamInput \<Rightarrow> seqNumCache \<Rightarrow>
    bento_err option \<times> 'm streamInput \<times> seqNumCache" where
  "ack_input bt records err landed si cache =
     (let (res, tam, cache) = MarkDone bt records True err landed (si_toAck si) cache
      in (map_option Wrapped res, si\<lparr>si_toAck := tam\<rparr>, cache))"

definition set_result :: "nat \<Rightarrow> bento_err option \<Rightarrow> 'm streamInput \<Rightarrow> 'm streamInput" where
  "set_result d res si = si\<lparr>si_deliveries := (si_deliveries si)[d := (fst (si_deliveries si ! d), Some res)]\<rparr>"

text \<open>The acknowledgement function of a delivery: \<open>ackOnce\<close> lets it act once, later calls get the same result.
  \<open>e\<close> says whether the batch was processed; \<open>None\<close> as a result is a \<open>nack\<close> that still waits.\<close>

definition ackFunc :: "'m btree \<Rightarrow> nat \<Rightarrow> goerr option \<Rightarrow> goerr option \<Rightarrow> bool \<Rightarrow> bento_err option \<Rightarrow> 'm streamInput \<Rightarrow>
    seqNumCache \<Rightarrow> (bento_err option \<times> 'm streamInput \<times> seqNumCache) option" where
  "ackFunc bt d e err landed sel si cache = (case si_deliveries si ! d of
     (_, Some ackResult) \<Rightarrow> Some (ackResult, si, cache)
   | (records, None) \<Rightarrow>
       (case e of
          None \<Rightarrow> (let (res, si, cache) = ack_input bt records err landed si cache in Some (res, set_result d res si, cache))
        | Some _ \<Rightarrow>
            (case nack_input records sel si of
               None \<Rightarrow> None
             | Some (res, si) \<Rightarrow> Some (res, set_result d res si, cache))))"

definition Close_input :: "'m streamInput \<Rightarrow> 'm streamInput" where
  "Close_input si = si\<lparr>si_closed := True\<rparr>"

section \<open>The goroutine that reads\<close>

datatype recv_next = Restart | ResetTail StreamPosition | Report goerr

fun as_RangeNotSatisfiable :: "goerr \<Rightarrow> StreamPosition option option" where
  "as_RangeNotSatisfiable (RangeNotSatisfiableError _ tail) = Some tail"
| "as_RangeNotSatisfiable _ = None"

definition on_read_error :: "bento_err \<Rightarrow> recv_next" where
  "on_read_error err = (case err of
     ErrInputClosed \<Rightarrow> Restart
   | Wrapped e \<Rightarrow>
       (case chain_find as_RangeNotSatisfiable e of
          Some (Some tail) \<Rightarrow> ResetTail tail
        | _ \<Rightarrow> Report e))"

text \<open>The goroutine is about to look up the position, to store the position it read from the inner cache, to open a
  session there, or reads from an input.\<close>

datatype source_pc = SrcIdle | SrcStore u64 | SrcStart "u64 option" | SrcReading nat

record 'm bento =
  bo_cache :: seqNumCache
  bo_inputs :: "'m streamInput list"
  bo_source :: source_pc
  bo_records :: "SequencedRecord list"
  bo_tail :: u64
  bo_acked :: "u64 set"
  bo_starts :: "u64 set"

definition upd_input :: "nat \<Rightarrow> 'm streamInput \<Rightarrow> 'm bento \<Rightarrow> 'm bento" where
  "upd_input k si b = b\<lparr>bo_inputs := (bo_inputs b)[k := si]\<rparr>"

text \<open>Another writer appends to the stream.\<close>

definition append_record :: "SequencedRecord \<Rightarrow> 'm bento \<Rightarrow> 'm bento" where
  "append_record r b = b\<lparr>bo_records := bo_records b @ [r], bo_tail := sr_SeqNum r + 1\<rparr>"

definition source_get :: "string \<Rightarrow> goerr + u64 \<Rightarrow> 'm bento \<Rightarrow> 'm bento" where
  "source_get stream got b = (case Get_cache (bo_cache b) stream got of
     GetDone e \<Rightarrow> b\<lparr>bo_source := SrcStart e\<rparr>
   | GetStore v \<Rightarrow> b\<lparr>bo_source := SrcStore v\<rparr>)"

definition source_store :: "string \<Rightarrow> u64 \<Rightarrow> 'm bento \<Rightarrow> 'm bento" where
  "source_store stream v b = b\<lparr>bo_cache := mem_Set stream v (bo_cache b), bo_source := SrcStart (Some v)\<rparr>"

text \<open>A relative start is the tail of the stream at that moment.\<close>

definition start_position :: "ReadOptions \<Rightarrow> u64 \<Rightarrow> u64" where
  "start_position opts tail = (case ro_SeqNum opts of Some n \<Rightarrow> n | None \<Rightarrow> tail)"

definition source_connect :: "'m btree \<Rightarrow> string \<Rightarrow> bool \<Rightarrow> nat \<Rightarrow> u64 option \<Rightarrow> 'm bento \<Rightarrow> 'm bento" where
  "source_connect bt stream latest maxInflight entry b =
     (let start = start_position (input_options latest entry) (bo_tail b);
          si = connectStreamInput bt stream (generation (bo_cache b) stream) maxInflight start
      in b\<lparr>bo_inputs := bo_inputs b @ [si], bo_source := SrcReading (length (bo_inputs b)),
           bo_starts := (if entry = None then insert start (bo_starts b) else bo_starts b)\<rparr>)"

text \<open>The record the session returns next, if there is one.\<close>

definition session_next :: "SequencedRecord list \<Rightarrow> u64 \<Rightarrow> SequencedRecord option" where
  "session_next records pos = find (\<lambda>r. pos \<le> sr_SeqNum r) records"

definition source_read :: "'m btree \<Rightarrow> nat \<Rightarrow> SequencedRecord \<Rightarrow> 'm bento \<Rightarrow> 'm bento" where
  "source_read bt k rec b =
     (let si = bo_inputs b ! k;
          si' = snd (ReadBatch_input bt None True (Inr (Some rec)) si)
      in upd_input k (if si_nacks si = [] then si'\<lparr>si_pos := sr_SeqNum rec + 1\<rparr> else si') b)"

definition source_stop :: "nat \<Rightarrow> 'm bento \<Rightarrow> 'm bento" where
  "source_stop k b = (upd_input k (Close_input (bo_inputs b ! k)) b)\<lparr>bo_source := SrcIdle\<rparr>"

text \<open>The reset to the tail \<open>t\<close> that the error of the session carried.\<close>

definition source_reset :: "string \<Rightarrow> u64 \<Rightarrow> nat \<Rightarrow> goerr option \<Rightarrow> bool \<Rightarrow> 'm bento \<Rightarrow> 'm bento" where
  "source_reset stream t k err landed b =
     (let cache = snd (ResetToTail stream t err landed (bo_cache b))
      in source_stop k (b\<lparr>bo_cache := cache, bo_starts := insert t (set_option (sq_durable cache stream))\<rparr>))"

definition consumer_ack :: "'m btree \<Rightarrow> nat \<Rightarrow> nat \<Rightarrow> goerr option \<Rightarrow> goerr option \<Rightarrow> bool \<Rightarrow> bento_err option \<Rightarrow> 'm bento \<Rightarrow> 'm bento" where
  "consumer_ack bt k d e err landed sel b =
     (case ackFunc bt d e err landed sel (bo_inputs b ! k) (bo_cache b) of
        None \<Rightarrow> b
      | Some (_, si, cache) \<Rightarrow>
          let b' = upd_input k si (b\<lparr>bo_cache := cache\<rparr>) in
          if e = None \<and> snd (si_deliveries (bo_inputs b ! k) ! d) = None
          then b'\<lparr>bo_acked := bo_acked b' \<union> sr_SeqNum ` set (fst (si_deliveries (bo_inputs b ! k) ! d))\<rparr> else b')"

inductive bento_step :: "'m btree \<Rightarrow> string \<Rightarrow> bool \<Rightarrow> nat \<Rightarrow> 'm bento \<Rightarrow> 'm bento \<Rightarrow> bool"
  for bt :: "'m btree" and stream :: string and latest :: bool and maxInflight :: nat where
  bs_append: "bo_tail b \<le> sr_SeqNum r \<Longrightarrow> sr_SeqNum r \<noteq> - 1 \<Longrightarrow> bento_step bt stream latest maxInflight b (append_record r b)"
| bs_get: "bo_source b = SrcIdle \<Longrightarrow> (\<forall>v. got = Inr v \<longrightarrow> sq_durable (bo_cache b) stream = Some v) \<Longrightarrow>
    bento_step bt stream latest maxInflight b (source_get stream got b)"
| bs_store: "bo_source b = SrcStore v \<Longrightarrow> bento_step bt stream latest maxInflight b (source_store stream v b)"
| bs_connect: "bo_source b = SrcStart entry \<Longrightarrow>
    bento_step bt stream latest maxInflight b (source_connect bt stream latest maxInflight entry b)"
| bs_connect_fails: "bo_source b = SrcStart entry \<Longrightarrow> bento_step bt stream latest maxInflight b (b\<lparr>bo_source := SrcIdle\<rparr>)"
| bs_read: "bo_source b = SrcReading k \<Longrightarrow> k < length (bo_inputs b) \<Longrightarrow> \<not> si_closed (bo_inputs b ! k) \<Longrightarrow>
    session_next (bo_records b) (si_pos (bo_inputs b ! k)) = Some rec \<or> si_nacks (bo_inputs b ! k) \<noteq> [] \<Longrightarrow>
    bento_step bt stream latest maxInflight b (source_read bt k rec b)"
| bs_stop: "bo_source b = SrcReading k \<Longrightarrow> k < length (bo_inputs b) \<Longrightarrow> bento_step bt stream latest maxInflight b (source_stop k b)"
| bs_reset: "bo_source b = SrcReading k \<Longrightarrow> k < length (bo_inputs b) \<Longrightarrow>
    bento_step bt stream latest maxInflight b (source_reset stream t k err landed b)"
| bs_ack: "k < length (bo_inputs b) \<Longrightarrow> d < length (si_deliveries (bo_inputs b ! k)) \<Longrightarrow>
    bento_step bt stream latest maxInflight b (consumer_ack bt k d e err landed sel b)"
| bs_forget: "bo_source b = SrcIdle \<Longrightarrow> bento_step bt stream latest maxInflight b (b\<lparr>bo_cache := Forget stream (bo_cache b)\<rparr>)"

text \<open>A process starts with an empty cache in memory, whatever the inner cache holds.\<close>

definition bento_init :: "string \<Rightarrow> 'm bento \<Rightarrow> bool" where
  "bento_init stream b \<longleftrightarrow> (\<exists>hasInner durable. bo_cache b = newSeqNumCache hasInner durable \<and>
     bo_starts b = set_option (durable stream)) \<and> bo_inputs b = [] \<and> bo_source b = SrcIdle \<and> bo_acked b = {} \<and>
     sorted_wrt (<) (map sr_SeqNum (bo_records b)) \<and>
     (\<forall>r\<in>set (bo_records b). sr_SeqNum r < bo_tail b \<and> sr_SeqNum r \<noteq> - 1)"

section \<open>Invariant\<close>

text \<open>Everything from \<open>s\<close> up to the position \<open>c\<close> was acknowledged.\<close>

definition covered :: "'m bento \<Rightarrow> u64 \<Rightarrow> u64 \<Rightarrow> bool" where
  "covered b s c \<longleftrightarrow> s = c \<or>
     (s < c \<and> c \<le> bo_tail b \<and> (\<forall>r\<in>set (bo_records b). s \<le> sr_SeqNum r \<and> sr_SeqNum r < c \<longrightarrow> sr_SeqNum r \<in> bo_acked b))"

definition position_ok :: "'m bento \<Rightarrow> u64 \<Rightarrow> bool" where
  "position_ok b c \<longleftrightarrow> (\<exists>s\<in>bo_starts b. covered b s c)"

definition cache_ok :: "string \<Rightarrow> 'm bento \<Rightarrow> bool" where
  "cache_ok stream b \<longleftrightarrow> (\<forall>c. sq_mem (bo_cache b) stream = Some c \<longrightarrow> position_ok b c) \<and>
     (\<forall>c. sq_durable (bo_cache b) stream = Some c \<longrightarrow> position_ok b c)"

definition source_ok :: "'m bento \<Rightarrow> bool" where
  "source_ok b \<longleftrightarrow> (case bo_source b of SrcStore v \<Rightarrow> position_ok b v | SrcStart (Some v) \<Rightarrow> position_ok b v | _ \<Rightarrow> True)"

definition records_ok :: "'m bento \<Rightarrow> bool" where
  "records_ok b \<longleftrightarrow> sorted_wrt (<) (map sr_SeqNum (bo_records b)) \<and>
     (\<forall>r\<in>set (bo_records b). sr_SeqNum r < bo_tail b \<and> sr_SeqNum r \<noteq> - 1)"

text \<open>The entries of an input are records it has read, and every record it has read is an entry or was
  acknowledged.\<close>

definition keys_ok :: "'m btree \<Rightarrow> 'm bento \<Rightarrow> 'm streamInput \<Rightarrow> bool" where
  "keys_ok bt b si \<longleftrightarrow> (\<forall>k v. bt_Get bt (ta_inner (si_toAck si)) k = Some v \<longrightarrow>
     bs_FirstSeqNum v = k \<and> bs_LastSeqNum v = k \<and> si_start si \<le> k \<and> k < si_pos si \<and> k \<noteq> - 1 \<and> (bs_Acked v \<longrightarrow> k \<in> bo_acked b))"

definition reads_ok :: "'m btree \<Rightarrow> 'm bento \<Rightarrow> 'm streamInput \<Rightarrow> bool" where
  "reads_ok bt b si \<longleftrightarrow> (si_start si = si_pos si \<or> si_start si < si_pos si \<and> si_pos si \<le> bo_tail b) \<and>
     (\<forall>r\<in>set (bo_records b). si_start si \<le> sr_SeqNum r \<and> sr_SeqNum r < si_pos si \<longrightarrow>
        sr_SeqNum r \<in> bo_acked b \<or> bt_Get bt (ta_inner (si_toAck si)) (sr_SeqNum r) \<noteq> None)"

text \<open>The batches the consumer or the channel holds: single records, each once, with an entry that is not done.\<close>

definition held :: "'m streamInput \<Rightarrow> SequencedRecord list list" where
  "held si = map fst (filter (\<lambda>d. snd d = None) (si_deliveries si)) @ si_nacks si"

definition held_ok :: "'m btree \<Rightarrow> 'm streamInput \<Rightarrow> bool" where
  "held_ok bt si \<longleftrightarrow> (\<forall>rs\<in>set (held si). \<exists>r. rs = [r]) \<and> distinct (map (sr_SeqNum \<circ> hd) (held si)) \<and>
     (\<forall>rs\<in>set (held si). \<exists>v. bt_Get bt (ta_inner (si_toAck si)) (sr_SeqNum (hd rs)) = Some v \<and> \<not> bs_Acked v)"

definition input_ok :: "'m btree \<Rightarrow> string \<Rightarrow> 'm bento \<Rightarrow> 'm streamInput \<Rightarrow> bool" where
  "input_ok bt stream b si \<longleftrightarrow> ta_stream (si_toAck si) = stream \<and> ta_gen (si_toAck si) \<le> sq_gens (bo_cache b) stream \<and>
     (ta_gen (si_toAck si) = sq_gens (bo_cache b) stream \<longrightarrow> position_ok b (si_start si)) \<and>
     keys_ok bt b si \<and> reads_ok bt b si \<and> held_ok bt si"

definition bento_inv :: "'m btree \<Rightarrow> string \<Rightarrow> 'm bento \<Rightarrow> bool" where
  "bento_inv bt stream b \<longleftrightarrow> cache_ok stream b \<and> source_ok b \<and> records_ok b \<and> (\<forall>si\<in>set (bo_inputs b). input_ok bt stream b si)"

lemma bento_invD:
  assumes "bento_inv bt stream b"
  shows "cache_ok stream b" "source_ok b" "records_ok b" "k < length (bo_inputs b) \<Longrightarrow> input_ok bt stream b (bo_inputs b ! k)"
  using assms by (simp_all add: bento_inv_def)

text \<open>Positions stay good while records are appended, records acknowledged and starts added.\<close>

definition extends :: "'m bento \<Rightarrow> 'm bento \<Rightarrow> bool" where
  "extends b b' \<longleftrightarrow> bo_starts b \<subseteq> bo_starts b' \<and> bo_acked b \<subseteq> bo_acked b' \<and> bo_tail b \<le> bo_tail b' \<and>
     (\<forall>r\<in>set (bo_records b'). r \<in> set (bo_records b) \<or> bo_tail b \<le> sr_SeqNum r)"

lemma position_ok_extends: "position_ok b c \<Longrightarrow> extends b b' \<Longrightarrow> position_ok b' c"
proof -
  assume "position_ok b c" and ext: "extends b b'"
  then obtain s where s: "s \<in> bo_starts b" "covered b s c" by (auto simp: position_ok_def)
  have "covered b' s c"
  proof (cases "s = c")
    case False
    then have f: "s < c" "c \<le> bo_tail b" "\<forall>r\<in>set (bo_records b). s \<le> sr_SeqNum r \<and> sr_SeqNum r < c \<longrightarrow> sr_SeqNum r \<in> bo_acked b"
      using s(2) by (auto simp: covered_def)
    have "sr_SeqNum r \<in> bo_acked b'" if r: "r \<in> set (bo_records b')" "s \<le> sr_SeqNum r" "sr_SeqNum r < c" for r
    proof -
      have "r \<in> set (bo_records b)" using r f(2) ext by (meson extends_def leD less_le_trans)
      then show ?thesis using r f(3) ext by (auto simp: extends_def)
    qed
    then show ?thesis using f ext by (auto simp: covered_def extends_def)
  qed (simp add: covered_def)
  then show ?thesis using s(1) ext by (auto simp: position_ok_def extends_def)
qed

lemma keys_ok_acked: "keys_ok bt b si \<Longrightarrow> bo_acked b \<subseteq> bo_acked b' \<Longrightarrow> keys_ok bt b' si"
  unfolding keys_ok_def by blast

lemma reads_ok_extends:
  assumes "reads_ok bt b si" "extends b b'"
  shows "reads_ok bt b' si"
  unfolding reads_ok_def
proof (intro conjI ballI impI)
  show "si_start si = si_pos si \<or> si_start si < si_pos si \<and> si_pos si \<le> bo_tail b'"
    using assms by (auto simp: reads_ok_def extends_def)
  fix r assume r: "r \<in> set (bo_records b')" "si_start si \<le> sr_SeqNum r \<and> sr_SeqNum r < si_pos si"
  then have "si_pos si \<le> bo_tail b" using assms(1) by (auto simp: reads_ok_def)
  then have "r \<in> set (bo_records b)" using r assms(2) by (meson extends_def leD less_le_trans)
  then show "sr_SeqNum r \<in> bo_acked b' \<or> bt_Get bt (ta_inner (si_toAck si)) (sr_SeqNum r) \<noteq> None"
    using r assms by (auto simp: reads_ok_def extends_def)
qed

lemma input_ok_extends:
  assumes "input_ok bt stream b si" "extends b b'" "sq_gens (bo_cache b') stream = sq_gens (bo_cache b) stream"
  shows "input_ok bt stream b' si"
  using assms position_ok_extends [OF _ assms(2)] reads_ok_extends [OF _ assms(2)] keys_ok_acked [of bt b si b']
  by (auto simp: input_ok_def extends_def)

lemma source_ok_extends:
  assumes "source_ok b" "extends b b'" "bo_source b' = bo_source b"
  shows "source_ok b'"
  using assms position_ok_extends [OF _ assms(2)] by (auto simp: source_ok_def split: source_pc.splits option.splits)

lemma inv_extends:
  assumes "bento_inv bt stream b" "extends b b'" "records_ok b'" "bo_cache b' = bo_cache b" "bo_inputs b' = bo_inputs b"
    "bo_source b' = bo_source b"
  shows "bento_inv bt stream b'"
  using assms position_ok_extends [OF _ assms(2)] source_ok_extends [OF _ assms(2,6)] input_ok_extends [OF _ assms(2)]
  by (auto simp: bento_inv_def cache_ok_def)

lemma extends_refl: "extends b b"
  by (simp add: extends_def)

lemma u64_less_succ: "n \<noteq> - 1 \<Longrightarrow> y < n + 1 \<longleftrightarrow> y \<le> n" for n y :: u64
  using inc_less_eq_iff [of n y] by (auto simp: not_le [symmetric])

section \<open>The steps keep the invariant\<close>

context ordered_map
begin

text \<open>What an acknowledgement does to the map and the cache.\<close>

lemma MarkDone_effect:
  assumes get: "bt_Get bt (ta_inner tam) (sr_SeqNum r) = Some v"
    and run: "MarkDone bt [r] True err landed tam cache = (res, tam', cache')"
  defines "m \<equiv> bt_Set bt (sr_SeqNum r) (v\<lparr>bs_Acked := True\<rparr>) (ta_inner tam)"
  shows "ta_stream tam' = ta_stream tam" "ta_gen tam' = ta_gen tam"
    and "bt_Get bt (ta_inner tam') k = Some w \<Longrightarrow> bt_Get bt m k = Some w"
    and "bt_Get bt m k = Some w \<Longrightarrow> bt_Get bt (ta_inner tam') k = None \<Longrightarrow> bs_Acked w"
    and "cache' = cache \<or> (\<exists>k s. bt_Get bt m k = Some s \<and> (\<forall>k' w. bt_Get bt m k' = Some w \<longrightarrow> k' \<le> k \<longrightarrow> bs_Acked w) \<and>
        cache' = snd (Set_cache (ta_stream tam) (bs_LastSeqNum s + 1) (ta_gen tam) err landed cache))"
    and "res = None \<or> (\<exists>e. res = Some e \<and> err = Some e)"
proof -
  obtain ks l where sc: "scan_acked (bt_items bt m) [] None = (ks, l)" by fastforce
  note si = scan_items [OF sc]
  let ?set = "\<lambda>s. Set_cache (ta_stream tam) (bs_LastSeqNum s + 1) (ta_gen tam) err landed cache"
  have cases: "(tam' = tam\<lparr>ta_inner := m\<rparr> \<or> tam' = tam\<lparr>ta_inner := fold (bt_Delete bt) ks m\<rparr>) \<and>
      (l = None \<and> cache' = cache \<and> res = None \<or> (\<exists>s. l = Some s \<and> cache' = snd (?set s) \<and> res = fst (?set s)))"
    using run by (auto simp: MarkDone_def get Let_def mark_acked_def m_def [symmetric] sc split: option.splits prod.splits)
  then show "ta_stream tam' = ta_stream tam" "ta_gen tam' = ta_gen tam" by auto
  show "bt_Get bt (ta_inner tam') k = Some w \<Longrightarrow> bt_Get bt m k = Some w"
    using cases by (auto simp: Get_fold_Delete split: if_splits)
  show "bt_Get bt m k = Some w \<Longrightarrow> bt_Get bt (ta_inner tam') k = None \<Longrightarrow> bs_Acked w"
    using cases si(1) by (fastforce simp: Get_fold_Delete split: if_splits)
  show "res = None \<or> (\<exists>e. res = Some e \<and> err = Some e)"
    using cases by (auto simp: Set_cache_def write_position_def Let_def split: if_splits)
  show "cache' = cache \<or> (\<exists>k s. bt_Get bt m k = Some s \<and> (\<forall>k' w. bt_Get bt m k' = Some w \<longrightarrow> k' \<le> k \<longrightarrow> bs_Acked w) \<and>
        cache' = snd (?set s))"
  proof (cases l)
    case None
    then show ?thesis using cases by auto
  next
    case (Some s)
    then obtain k where "bt_Get bt m k = Some s" "\<forall>k' v. bt_Get bt m k' = Some v \<longrightarrow> k' \<le> k \<longrightarrow> k' \<in> set ks"
      using si(3) by blast
    then show ?thesis using si(1) Some cases by (metis option.distinct(1) option.inject)
  qed
qed

text \<open>The position an acknowledgement stores is behind acknowledged records only.\<close>

lemma ack_position:
  assumes si: "keys_ok bt b si" "reads_ok bt b si" "position_ok b (si_start si)"
    and k: "bt_Get bt (ta_inner (si_toAck si)) k = Some s" "\<forall>k' w. bt_Get bt (ta_inner (si_toAck si)) k' = Some w \<longrightarrow> k' \<le> k \<longrightarrow> bs_Acked w"
  shows "position_ok b (bs_LastSeqNum s + 1)"
proof -
  have s: "bs_LastSeqNum s = k" "si_start si \<le> k" "k < si_pos si" "k \<noteq> - 1" using si(1) k(1) by (auto simp: keys_ok_def)
  have tail: "k + 1 \<le> bo_tail b" using si(2) s by (auto simp: reads_ok_def inc_less_eq_iff)
  obtain t where t: "t \<in> bo_starts b" "covered b t (si_start si)" using si(3) by (auto simp: position_ok_def)
  then have lt: "t < k + 1" using s by (auto simp: covered_def u64_less_succ)
  have "sr_SeqNum r \<in> bo_acked b" if r: "r \<in> set (bo_records b)" "t \<le> sr_SeqNum r" "sr_SeqNum r < k + 1" for r
  proof (cases "sr_SeqNum r < si_start si")
    case True
    then show ?thesis using t(2) r by (auto simp: covered_def)
  next
    case False
    have "sr_SeqNum r \<le> k" using r(3) s(4) by (simp add: u64_less_succ)
    then show ?thesis using False r(1) s(3) si(1,2) k(2) by (fastforce simp: reads_ok_def keys_ok_def)
  qed
  then have "covered b t (k + 1)" using lt tail by (auto simp: covered_def)
  then show ?thesis using t(1) s(1) by (auto simp: position_ok_def)
qed

end

lemma cache_ok_Set:
  assumes "cache_ok stream b" "sq_gens (bo_cache b) stream \<le> gen \<Longrightarrow> position_ok b c"
  shows "cache_ok stream (b\<lparr>bo_cache := snd (Set_cache stream c gen err landed (bo_cache b))\<rparr>)"
  using assms
  by (auto simp: cache_ok_def Set_cache_def write_position_def mem_Set_def Let_def position_ok_def covered_def)

lemma Set_cache_gens: "sq_gens (snd (Set_cache stream c gen err landed s)) = sq_gens s"
  by (simp add: Set_cache_def write_position_def mem_Set_def Let_def)

lemma inv_upd_input:
  assumes "bento_inv bt stream b" "extends b b'" "bo_records b' = bo_records b" "bo_tail b' = bo_tail b"
    "sq_gens (bo_cache b') stream = sq_gens (bo_cache b) stream" "cache_ok stream b'" "source_ok b'"
    "bo_inputs b' = (bo_inputs b)[k := si]" "input_ok bt stream b' si"
  shows "bento_inv bt stream b'"
  unfolding bento_inv_def
proof (intro conjI ballI)
  show "records_ok b'" using bento_invD(3) [OF assms(1)] assms(3,4) by (simp add: records_ok_def)
  fix x assume "x \<in> set (bo_inputs b')"
  then have "x = si \<or> x \<in> set (bo_inputs b)" using set_update_subset_insert assms(8) by fastforce
  then show "input_ok bt stream b' x" using assms(1,9) input_ok_extends [OF _ assms(2,5)] by (auto simp: bento_inv_def)
qed (use assms in simp_all)

text \<open>A delivery leaves what is held when its result is set.\<close>

lemma held_set_result:
  assumes "d < length (si_deliveries si)" "si_deliveries si ! d = (rs, None)"
  shows "\<exists>pre post. held si = pre @ rs # post \<and> (\<forall>res. held (set_result d res si) = pre @ post)"
proof -
  let ?ds = "si_deliveries si"
  have ds: "?ds = take d ?ds @ (rs, None) # drop (Suc d) ?ds" using id_take_nth_drop [OF assms(1)] assms(2) by simp
  have "held si = map fst (filter (\<lambda>d. snd d = None) (take d ?ds)) @ rs # map fst (filter (\<lambda>d. snd d = None) (drop (Suc d) ?ds)) @ si_nacks si"
    unfolding held_def by (subst ds) simp
  moreover have "\<forall>res. held (set_result d res si) =
      map fst (filter (\<lambda>d. snd d = None) (take d ?ds)) @ map fst (filter (\<lambda>d. snd d = None) (drop (Suc d) ?ds)) @ si_nacks si"
    using assms by (simp add: held_def set_result_def upd_conv_take_nth_drop)
  ultimately show ?thesis by blast
qed

context ordered_map
begin

lemma ack_inv:
  assumes inv: "bento_inv bt stream b" and k: "k < length (bo_inputs b)"
    and d: "d < length (si_deliveries (bo_inputs b ! k))" "si_deliveries (bo_inputs b ! k) ! d = (rs, None)"
    and run: "MarkDone bt rs True err landed (si_toAck (bo_inputs b ! k)) (bo_cache b) = (res, tam, cache)"
  shows "res = None \<or> res = err"
    and "bento_inv bt stream (b\<lparr>bo_cache := cache, bo_inputs := (bo_inputs b)[k := set_result d r ((bo_inputs b ! k)\<lparr>si_toAck := tam\<rparr>)],
      bo_acked := bo_acked b \<union> sr_SeqNum ` set rs\<rparr>)" (is "bento_inv bt stream ?b")
proof -
  let ?si = "bo_inputs b ! k"
  have iok: "input_ok bt stream b ?si" using bento_invD(4) [OF inv k] .
  obtain pre post where h: "held ?si = pre @ rs # post" "\<And>res. held (set_result d res ?si) = pre @ post"
    using held_set_result [OF d] by blast
  then obtain x where x: "rs = [x]" using iok by (auto simp: input_ok_def held_ok_def)
  obtain v where v: "bt_Get bt (ta_inner (si_toAck ?si)) (sr_SeqNum x) = Some v" using iok h(1) x by (auto simp: input_ok_def held_ok_def)
  note eff = MarkDone_effect [OF v run [unfolded x]]
  show "res = None \<or> res = err" using eff(6) by auto
  let ?m = "bt_Set bt (sr_SeqNum x) (v\<lparr>bs_Acked := True\<rparr>) (ta_inner (si_toAck ?si))"
  let ?b1 = "b\<lparr>bo_acked := bo_acked b \<union> sr_SeqNum ` set rs\<rparr>"
  let ?s1 = "?si\<lparr>si_toAck := (si_toAck ?si)\<lparr>ta_inner := ?m\<rparr>\<rparr>"
  let ?s2 = "set_result d r (?si\<lparr>si_toAck := tam\<rparr>)"
  have ext: "extends b ?b1" by (auto simp: extends_def)
  have iok1: "input_ok bt stream ?b1 ?si" by (rule input_ok_extends [OF iok ext]) simp
  have keys: "keys_ok bt ?b1 ?s1" using iok1 v x by (auto simp: input_ok_def keys_ok_def Get_Set)
  have reads: "reads_ok bt ?b1 ?s1" using iok1 by (auto simp: input_ok_def reads_ok_def Get_Set)
  have pos: "position_ok ?b1 (bs_LastSeqNum s + 1)"
    if "bt_Get bt ?m q = Some s" "\<forall>k' w. bt_Get bt ?m k' = Some w \<longrightarrow> k' \<le> q \<longrightarrow> bs_Acked w"
      "ta_gen (si_toAck ?si) = sq_gens (bo_cache b) stream" for q s
    using ack_position [OF keys reads, of q s] that iok1 by (simp add: input_ok_def)
  have c1: "cache_ok stream ?b1"
    using bento_invD(1) [OF inv] position_ok_extends [OF _ ext] by (auto simp: cache_ok_def)
  have st: "ta_stream (si_toAck ?si) = stream" "ta_gen (si_toAck ?si) \<le> sq_gens (bo_cache b) stream"
    using iok by (auto simp: input_ok_def)
  have cache: "cache_ok stream (?b1\<lparr>bo_cache := cache\<rparr>)"
    using eff(5) cache_ok_Set [OF c1] pos st c1 by (auto simp: le_antisym)
  have gens: "sq_gens cache = sq_gens (bo_cache b)" using eff(5) Set_cache_gens by auto
  have pok: "position_ok ?b = position_ok ?b1" by (simp add: position_ok_def covered_def fun_eq_iff)
  have s2: "si_toAck ?s2 = tam" "si_start ?s2 = si_start ?si" "si_pos ?s2 = si_pos ?si" "held ?s2 = pre @ post"
    using h(2) by (simp_all add: set_result_def held_def)
  have keys2: "keys_ok bt ?b ?s2" using keys eff(3) by (auto simp: keys_ok_def s2)
  have reads2: "reads_ok bt ?b ?s2"
    unfolding reads_ok_def s2
  proof (intro conjI ballI impI)
    fix y assume y: "y \<in> set (bo_records ?b)" "si_start ?si \<le> sr_SeqNum y \<and> sr_SeqNum y < si_pos ?si"
    then have "sr_SeqNum y \<in> bo_acked ?b1 \<or> bt_Get bt ?m (sr_SeqNum y) \<noteq> None" using reads by (auto simp: reads_ok_def)
    then show "sr_SeqNum y \<in> bo_acked ?b \<or> bt_Get bt (ta_inner tam) (sr_SeqNum y) \<noteq> None"
      using eff(4) keys by (fastforce simp: keys_ok_def)
  qed (use reads in \<open>simp add: reads_ok_def\<close>)
  have held2: "held_ok bt ?s2"
    unfolding held_ok_def s2
  proof (intro conjI ballI)
    show "distinct (map (sr_SeqNum \<circ> hd) (pre @ post))" "rs' \<in> set (pre @ post) \<Longrightarrow> \<exists>r. rs' = [r]" for rs'
      using iok h(1) by (auto simp: input_ok_def held_ok_def)
    fix rs' assume rs': "rs' \<in> set (pre @ post)"
    have hk: "distinct (map (sr_SeqNum \<circ> hd) (pre @ [x] # post))"
      "\<forall>rs\<in>set (pre @ rs # post). \<exists>v. bt_Get bt (ta_inner (si_toAck ?si)) (sr_SeqNum (hd rs)) = Some v \<and> \<not> bs_Acked v"
      using iok unfolding input_ok_def held_ok_def h(1) x by simp_all
    obtain w where w: "bt_Get bt (ta_inner (si_toAck ?si)) (sr_SeqNum (hd rs')) = Some w" "\<not> bs_Acked w"
      using hk(2) rs' by auto
    have "sr_SeqNum (hd rs') \<noteq> sr_SeqNum x" using hk(1) rs' by (auto simp: image_iff)
    then have "bt_Get bt ?m (sr_SeqNum (hd rs')) = Some w" using w(1) by (simp add: Get_Set)
    then show "\<exists>v. bt_Get bt (ta_inner tam) (sr_SeqNum (hd rs')) = Some v \<and> \<not> bs_Acked v"
      using eff(3,4) w(2) by (metis option.exhaust_sel option.inject)
  qed
  have "input_ok bt stream ?b ?s2"
    using iok1 keys2 reads2 held2 gens eff(1,2) st by (auto simp: input_ok_def s2 pok)
  moreover have "extends b ?b" by (auto simp: extends_def)
  moreover from this have "source_ok ?b" using source_ok_extends [OF bento_invD(2) [OF inv], of ?b] by simp
  moreover have "cache_ok stream ?b" using cache by (simp add: cache_ok_def position_ok_def covered_def)
  ultimately show "bento_inv bt stream ?b" using gens by (intro inv_upd_input [OF inv, of ?b k ?s2]) simp_all
qed

end

lemma same_position_ok:
  assumes "bo_starts b' = bo_starts b" "bo_acked b' = bo_acked b" "bo_tail b' = bo_tail b" "bo_records b' = bo_records b"
  shows "position_ok b' = position_ok b" "extends b b'"
  using assms by (simp_all add: position_ok_def covered_def extends_def fun_eq_iff)

text \<open>An input of which only what is held changes.\<close>

lemma input_ok_held:
  assumes "input_ok bt stream b si" "si_toAck si' = si_toAck si" "si_start si' = si_start si" "si_pos si' = si_pos si" "held_ok bt si'"
  shows "input_ok bt stream b si'"
  using assms by (simp add: input_ok_def keys_ok_def reads_ok_def)

lemma held_ok_cong:
  assumes "held_ok bt si" "mset (held si') = mset (held si)" "si_toAck si' = si_toAck si"
  shows "held_ok bt si'"
proof -
  have "mset (map (sr_SeqNum \<circ> hd) (held si')) = mset (map (sr_SeqNum \<circ> hd) (held si))" using assms(2) by simp
  then show ?thesis using assms(1,3) mset_eq_setD [OF assms(2)] mset_eq_imp_distinct_iff unfolding held_ok_def by metis
qed

lemma held_ok_subset:
  assumes "held_ok bt si" "held si = pre @ rs # post" "held si' = pre @ post" "si_toAck si' = si_toAck si"
  shows "held_ok bt si'"
  using assms by (auto simp: held_ok_def)

lemma same_input_inv:
  assumes inv: "bento_inv bt stream b" and k: "k < length (bo_inputs b)"
    and si: "si_toAck si = si_toAck (bo_inputs b ! k)" "si_start si = si_start (bo_inputs b ! k)" "si_pos si = si_pos (bo_inputs b ! k)"
      "held_ok bt si"
    and src: "bo_source b' = bo_source b \<or> bo_source b' = SrcIdle"
    and b': "bo_cache b' = bo_cache b" "bo_inputs b' = (bo_inputs b)[k := si]" "bo_starts b' = bo_starts b" "bo_acked b' = bo_acked b"
      "bo_tail b' = bo_tail b" "bo_records b' = bo_records b"
  shows "bento_inv bt stream b'"
proof -
  note same = same_position_ok [OF b'(3-6)]
  have "input_ok bt stream b' si"
    by (rule input_ok_extends [OF input_ok_held [OF bento_invD(4) [OF inv k] si] same(2)]) (simp add: b')
  moreover have "cache_ok stream b'" using bento_invD(1) [OF inv] by (simp add: cache_ok_def same(1) b')
  moreover have "source_ok b'" using bento_invD(2) [OF inv] src by (auto simp: source_ok_def same(1) split: source_pc.splits option.splits)
  ultimately show ?thesis using inv_upd_input [OF inv same(2) b'(6,5) _ _ _ b'(2)] b'(1) by simp
qed

lemma nack_inv:
  assumes inv: "bento_inv bt stream b" and k: "k < length (bo_inputs b)"
    and d: "d < length (si_deliveries (bo_inputs b ! k))" "si_deliveries (bo_inputs b ! k) ! d = (rs, None)"
    and run: "nack_input rs sel (bo_inputs b ! k) = Some (res, si)"
  shows "bento_inv bt stream (b\<lparr>bo_inputs := (bo_inputs b)[k := set_result d res si]\<rparr>)"
proof (rule same_input_inv [OF inv k])
  let ?si = "bo_inputs b ! k"
  have iok: "held_ok bt ?si" using bento_invD(4) [OF inv k] by (simp add: input_ok_def)
  obtain pre post where h: "held ?si = pre @ rs # post" "\<And>res. held (set_result d res ?si) = pre @ post"
    using held_set_result [OF d] by blast
  have "si = ?si \<or> si = ?si\<lparr>si_nacks := si_nacks ?si @ [rs]\<rparr>" using run by (auto simp: nack_input_def split: if_splits option.splits bento_err.splits)
  then show "held_ok bt (set_result d res si)"
  proof
    assume si: "si = ?si"
    show ?thesis unfolding si by (rule held_ok_subset [OF iok h(1)]) (simp_all add: h(2), simp add: set_result_def)
  next
    assume si: "si = ?si\<lparr>si_nacks := si_nacks ?si @ [rs]\<rparr>"
    have "held (set_result d res si) = held (set_result d res ?si) @ [rs]" by (simp add: si held_def set_result_def)
    then show ?thesis using held_ok_cong [OF iok, of "set_result d res si"] h by (simp add: si set_result_def)
  qed
  show "si_toAck (set_result d res si) = si_toAck ?si" "si_start (set_result d res si) = si_start ?si"
    "si_pos (set_result d res si) = si_pos ?si"
    using run by (auto simp: nack_input_def set_result_def split: if_splits option.splits bento_err.splits)
qed simp_all

lemma consumer_ack_inv:
  assumes om: "ordered_map bt" and inv: "bento_inv bt stream b" and k: "k < length (bo_inputs b)"
    and d: "d < length (si_deliveries (bo_inputs b ! k))"
  shows "bento_inv bt stream (consumer_ack bt k d e err landed sel b)"
proof (cases "si_deliveries (bo_inputs b ! k) ! d")
  case (Pair rs r)
  show ?thesis
  proof (cases r)
    case (Some res)
    then have "consumer_ack bt k d e err landed sel b = b" using Pair by (simp add: consumer_ack_def ackFunc_def upd_input_def)
    then show ?thesis using inv by simp
  next
    case None
    note dd = d Pair [unfolded None]
    show ?thesis
    proof (cases e)
      case None
      obtain res tam cache where run: "MarkDone bt rs True err landed (si_toAck (bo_inputs b ! k)) (bo_cache b) = (res, tam, cache)"
        by (metis prod_cases3)
      show ?thesis
        using ordered_map.ack_inv(2) [OF om inv k dd run, of "map_option Wrapped res"]
        by (simp add: consumer_ack_def ackFunc_def dd None ack_input_def run upd_input_def)
    next
      case (Some e')
      show ?thesis
      proof (cases "nack_input rs sel (bo_inputs b ! k)")
        case None
        then show ?thesis using inv Some by (simp add: consumer_ack_def ackFunc_def dd)
      next
        case (Some p)
        then show ?thesis using nack_inv [OF inv k dd, of sel "fst p" "snd p"] \<open>e = Some e'\<close>
          by (cases p) (simp add: consumer_ack_def ackFunc_def dd upd_input_def)
      qed
    qed
  qed
qed

lemma session_next_Some:
  assumes "session_next records pos = Some rec" "sorted_wrt (<) (map sr_SeqNum records)"
  shows "rec \<in> set records" "pos \<le> sr_SeqNum rec" "r \<in> set records \<Longrightarrow> pos \<le> sr_SeqNum r \<Longrightarrow> sr_SeqNum rec \<le> sr_SeqNum r"
proof -
  obtain i where i: "i < length records" "rec = records ! i" "pos \<le> sr_SeqNum (records ! i)" "\<forall>j<i. \<not> pos \<le> sr_SeqNum (records ! j)"
    using assms(1) by (auto simp: session_next_def find_Some_iff)
  show "rec \<in> set records" "pos \<le> sr_SeqNum rec" using i by auto
  assume "r \<in> set records" "pos \<le> sr_SeqNum r"
  then obtain j where j: "j < length records" "r = records ! j" "i \<le> j" using i(4) by (metis in_set_conv_nth not_le)
  then show "sr_SeqNum rec \<le> sr_SeqNum r"
    using assms(2) i(1,2) by (cases "i = j") (auto simp: sorted_wrt_iff_nth_less less_imp_le)
qed

context ordered_map
begin

text \<open>A new record is read from the session.\<close>

lemma read_new_input:
  assumes iok: "input_ok bt stream b si" and rok: "records_ok b" and nx: "session_next (bo_records b) (si_pos si) = Some rec"
  shows "input_ok bt stream b (si\<lparr>si_toAck := Add_toAck bt [rec] (si_toAck si), si_deliveries := si_deliveries si @ [([rec], None)],
    si_pos := sr_SeqNum rec + 1\<rparr>)" (is "input_ok bt stream b ?si")
proof -
  let ?n = "sr_SeqNum rec"
  have n: "rec \<in> set (bo_records b)" "si_pos si \<le> ?n" "\<And>r. r \<in> set (bo_records b) \<Longrightarrow> si_pos si \<le> sr_SeqNum r \<Longrightarrow> ?n \<le> sr_SeqNum r"
    using session_next_Some [OF nx] rok by (auto simp: records_ok_def)
  have max: "?n \<noteq> - 1" "?n < bo_tail b" using n(1) rok by (auto simp: records_ok_def)
  have le: "si_start si \<le> si_pos si" using iok by (auto simp: input_ok_def reads_ok_def)
  have inner: "bt_Get bt (ta_inner (si_toAck ?si)) k =
      (if k = ?n then Some \<lparr>bs_Acked = False, bs_FirstSeqNum = ?n, bs_LastSeqNum = ?n\<rparr> else bt_Get bt (ta_inner (si_toAck si)) k)" for k
    by (simp add: Add_toAck_def Let_def Get_Set)
  have old: "k < si_pos si" if "bt_Get bt (ta_inner (si_toAck si)) k = Some v" for k v
    using iok that by (auto simp: input_ok_def keys_ok_def)
  have "keys_ok bt b ?si"
    unfolding keys_ok_def
  proof (intro allI impI)
    fix k v assume g: "bt_Get bt (ta_inner (si_toAck ?si)) k = Some v"
    show "bs_FirstSeqNum v = k \<and> bs_LastSeqNum v = k \<and> si_start ?si \<le> k \<and> k < si_pos ?si \<and> k \<noteq> - 1 \<and> (bs_Acked v \<longrightarrow> k \<in> bo_acked b)"
    proof (cases "k = ?n")
      case True
      then show ?thesis using g max(1) le n(2) unfolding inner by (auto simp: u64_less_succ)
    next
      case False
      then have g': "bt_Get bt (ta_inner (si_toAck si)) k = Some v" using g unfolding inner by simp
      have "k < ?n + 1" using old [OF g'] n(2) max(1) by (simp add: u64_less_succ)
      then show ?thesis using g' iok by (simp add: input_ok_def keys_ok_def)
    qed
  qed
  moreover have "reads_ok bt b ?si"
    unfolding reads_ok_def
  proof (intro conjI ballI impI)
    show "si_start ?si = si_pos ?si \<or> si_start ?si < si_pos ?si \<and> si_pos ?si \<le> bo_tail b"
      using order_trans [OF le n(2)] max by (simp add: u64_less_succ inc_less_eq_iff)
    fix r assume r: "r \<in> set (bo_records b)" "si_start ?si \<le> sr_SeqNum r \<and> sr_SeqNum r < si_pos ?si"
    show "sr_SeqNum r \<in> bo_acked b \<or> bt_Get bt (ta_inner (si_toAck ?si)) (sr_SeqNum r) \<noteq> None"
    proof (cases "sr_SeqNum r < si_pos si")
      case True
      then show ?thesis using iok r unfolding inner by (auto simp: input_ok_def reads_ok_def)
    next
      case False
      then have "sr_SeqNum r = ?n" using n(3) [OF r(1)] r(2) max(1) by (auto simp: u64_less_succ not_less)
      then show ?thesis unfolding inner by simp
    qed
  qed
  moreover have "held_ok bt ?si"
  proof -
    have hk: "held_ok bt si" using iok by (simp add: input_ok_def)
    have "sr_SeqNum (hd rs) \<noteq> ?n" if "rs \<in> set (held si)" for rs
      using hk that old n(2) by (fastforce simp: held_ok_def)
    moreover obtain xs ys where xs: "held ?si = xs @ [rec] # ys" "held si = xs @ ys" by (simp add: held_def)
    ultimately show ?thesis using hk unfolding held_ok_def inner xs by (force simp: image_iff)
  qed
  ultimately show ?thesis using iok by (simp add: input_ok_def Add_toAck_def Let_def)
qed

text \<open>A batch that was given back is delivered again: its entry is still there.\<close>

lemma read_nack_input:
  assumes iok: "input_ok bt stream b si" and nk: "si_nacks si = rs # rest"
  shows "rs \<noteq> []" and "input_ok bt stream b (si\<lparr>si_nacks := rest, si_toAck := Add_toAck bt rs (si_toAck si),
    si_deliveries := si_deliveries si @ [(rs, None)]\<rparr>)" (is "input_ok bt stream b ?si")
proof -
  have hk: "held_ok bt si" using iok by (simp add: input_ok_def)
  have "rs \<in> set (held si)" by (simp add: held_def nk)
  then obtain x v where x: "rs = [x]" "bt_Get bt (ta_inner (si_toAck si)) (sr_SeqNum x) = Some v" "\<not> bs_Acked v"
    using hk by (fastforce simp: held_ok_def)
  then show "rs \<noteq> []" by simp
  have "v = \<lparr>bs_Acked = False, bs_FirstSeqNum = sr_SeqNum x, bs_LastSeqNum = sr_SeqNum x\<rparr>"
    using iok x(2,3) by (auto simp: input_ok_def keys_ok_def)
  then have inner: "bt_Get bt (ta_inner (si_toAck ?si)) k = bt_Get bt (ta_inner (si_toAck si)) k" for k
    using x(1,2) by (simp add: Add_toAck_def Let_def Get_Set)
  have "mset (held ?si) = mset (held si)" by (simp add: held_def nk)
  then have "set (held ?si) = set (held si)" "distinct (map (sr_SeqNum \<circ> hd) (held ?si))"
    using hk mset_eq_imp_distinct_iff [of "map (sr_SeqNum \<circ> hd) (held ?si)" "map (sr_SeqNum \<circ> hd) (held si)"] mset_eq_setD
    by (auto simp: held_ok_def)
  then have "held_ok bt ?si" using hk unfolding held_ok_def inner by simp
  moreover have "keys_ok bt b ?si" "reads_ok bt b ?si"
    using iok unfolding input_ok_def keys_ok_def reads_ok_def inner by simp_all
  ultimately show "input_ok bt stream b ?si" using iok x(1) by (simp add: input_ok_def Add_toAck_def Let_def)
qed

lemma source_read_inv:
  assumes inv: "bento_inv bt stream b" and k: "k < length (bo_inputs b)" "\<not> si_closed (bo_inputs b ! k)"
    and nx: "session_next (bo_records b) (si_pos (bo_inputs b ! k)) = Some rec \<or> si_nacks (bo_inputs b ! k) \<noteq> []"
  shows "bento_inv bt stream (source_read bt k rec b)"
proof -
  let ?si = "bo_inputs b ! k"
  have iok: "input_ok bt stream b ?si" using bento_invD(4) [OF inv k(1)] .
  obtain si' where si': "source_read bt k rec b = b\<lparr>bo_inputs := (bo_inputs b)[k := si']\<rparr>" "input_ok bt stream b si'"
  proof (cases "si_nacks ?si")
    case Nil
    have "session_next (bo_records b) (si_pos ?si) = Some rec" using nx Nil by simp
    from read_new_input [OF iok bento_invD(3) [OF inv] this] show ?thesis
      using that Nil k(2) by (simp add: source_read_def ReadBatch_input_def handleBatch_def Let_def upd_input_def)
  next
    case (Cons rs rest)
    show ?thesis
      using that read_nack_input [OF iok Cons] Cons by (simp add: source_read_def ReadBatch_input_def handleBatch_def Let_def upd_input_def)
  qed
  let ?b = "b\<lparr>bo_inputs := (bo_inputs b)[k := si']\<rparr>"
  note same = same_position_ok [of ?b b, simplified]
  have "input_ok bt stream ?b si'" by (rule input_ok_extends [OF si'(2) same(2)]) simp
  moreover have "cache_ok stream ?b" "source_ok ?b"
    using bento_invD(1) [OF inv] source_ok_extends [OF bento_invD(2) [OF inv] same(2)] by (simp_all add: cache_ok_def same(1))
  ultimately show ?thesis unfolding si'(1) by (intro inv_upd_input [OF inv same(2)]) simp_all
qed

end

section \<open>Connecting, resetting, forgetting\<close>

lemma append_record_inv:
  assumes "bento_inv bt stream b" "bo_tail b \<le> sr_SeqNum r" "sr_SeqNum r \<noteq> - 1"
  shows "bento_inv bt stream (append_record r b)"
proof (rule inv_extends [OF assms(1)])
  have rok: "records_ok b" using bento_invD(3) [OF assms(1)] .
  show "extends b (append_record r b)"
    using assms(2,3) by (auto simp: extends_def append_record_def less_imp_le u64_less_succ le_less_trans)
  show "records_ok (append_record r b)"
    using rok assms(2,3) by (auto simp: records_ok_def append_record_def sorted_wrt_append u64_less_succ intro: less_imp_le less_le_trans)
qed (simp_all add: append_record_def)

text \<open>A step that touches the cache or the goroutine only.\<close>

lemma source_step_inv:
  assumes inv: "bento_inv bt stream b" and "cache_ok stream b'" "source_ok b'" "bo_inputs b' = bo_inputs b" "bo_starts b' = bo_starts b"
    "bo_acked b' = bo_acked b" "bo_tail b' = bo_tail b" "bo_records b' = bo_records b" "sq_gens (bo_cache b') = sq_gens (bo_cache b)"
  shows "bento_inv bt stream b'"
proof -
  note same = same_position_ok [OF assms(5-8)]
  have "\<forall>si\<in>set (bo_inputs b'). input_ok bt stream b' si"
    using inv input_ok_extends [OF _ same(2)] assms(4,9) by (simp add: bento_inv_def)
  moreover have "records_ok b'" using bento_invD(3) [OF inv] assms(7,8) by (simp add: records_ok_def)
  ultimately show ?thesis using assms(2,3) by (simp add: bento_inv_def)
qed

lemma source_get_inv:
  assumes inv: "bento_inv bt stream b" and got: "\<forall>v. got = Inr v \<longrightarrow> sq_durable (bo_cache b) stream = Some v"
  shows "bento_inv bt stream (source_get stream got b)"
  using inv
proof (rule source_step_inv)
  have pos: "position_ok (b\<lparr>bo_source := x\<rparr>) = position_ok b" for x by (rule same_position_ok) simp_all
  show "cache_ok stream (source_get stream got b)"
    using bento_invD(1) [OF inv] by (auto simp: source_get_def cache_ok_def pos split: cache_get.splits)
  show "source_ok (source_get stream got b)"
    using bento_invD(1) [OF inv] got
    by (auto simp: source_get_def source_ok_def Get_cache_def cache_ok_def pos split: cache_get.splits option.splits if_splits sum.splits)
qed (simp_all add: source_get_def split: cache_get.splits)

lemma source_store_inv:
  assumes inv: "bento_inv bt stream b" and src: "bo_source b = SrcStore v"
  shows "bento_inv bt stream (source_store stream v b)"
  using inv
proof (rule source_step_inv)
  have pos: "position_ok (source_store stream v b) = position_ok b" by (rule same_position_ok) (simp_all add: source_store_def)
  have v: "position_ok b v" using bento_invD(2) [OF inv] src by (simp add: source_ok_def)
  show "cache_ok stream (source_store stream v b)"
    using bento_invD(1) [OF inv] v unfolding cache_ok_def pos by (simp add: source_store_def mem_Set_def)
  show "source_ok (source_store stream v b)" using v unfolding source_ok_def pos by (simp add: source_store_def)
qed (simp_all add: source_store_def mem_Set_def)

lemma forget_inv:
  assumes inv: "bento_inv bt stream b"
  shows "bento_inv bt stream (b\<lparr>bo_cache := Forget stream (bo_cache b)\<rparr>)" (is "bento_inv bt stream ?b")
  using inv
proof (rule source_step_inv)
  have pos: "position_ok ?b = position_ok b" by (rule same_position_ok) simp_all
  show "cache_ok stream ?b" using bento_invD(1) [OF inv] unfolding cache_ok_def pos by (simp add: Forget_def)
  show "source_ok ?b" using bento_invD(2) [OF inv] unfolding source_ok_def pos by simp
qed (simp_all add: Forget_def)

lemma connect_fails_inv:
  assumes inv: "bento_inv bt stream b"
  shows "bento_inv bt stream (b\<lparr>bo_source := SrcIdle\<rparr>)"
  using inv
proof (rule source_step_inv)
  have pos: "position_ok (b\<lparr>bo_source := SrcIdle\<rparr>) = position_ok b" by (rule same_position_ok) simp_all
  show "cache_ok stream (b\<lparr>bo_source := SrcIdle\<rparr>)" using bento_invD(1) [OF inv] unfolding cache_ok_def pos by simp
qed (simp_all add: source_ok_def)

lemma source_stop_inv:
  assumes inv: "bento_inv bt stream b" and k: "k < length (bo_inputs b)"
  shows "bento_inv bt stream (source_stop k b)"
  by (rule same_input_inv [OF inv k, of "Close_input (bo_inputs b ! k)"])
    (use bento_invD(4) [OF inv k] in \<open>simp_all add: source_stop_def upd_input_def Close_input_def input_ok_def held_ok_def held_def\<close>)

lemma write_position_fields:
  "sq_gens (snd (write_position stream t err landed s)) = sq_gens s"
  "sq_mem (snd (write_position stream t err landed s)) stream = Some t"
  by (simp_all add: write_position_def mem_Set_def Let_def)

lemma source_reset_inv:
  assumes inv: "bento_inv bt stream b" and k: "k < length (bo_inputs b)" "bo_source b = SrcReading k"
  shows "bento_inv bt stream (source_reset stream t k err landed b)"
proof -
  let ?cache = "snd (ResetToTail stream t err landed (bo_cache b))"
  let ?b = "b\<lparr>bo_cache := ?cache, bo_starts := insert t (set_option (sq_durable ?cache stream))\<rparr>"
  have c: "sq_gens ?cache stream = sq_gens (bo_cache b) stream + 1" "sq_mem ?cache stream = Some t"
    by (simp_all add: ResetToTail_def Let_def write_position_fields)
  have start: "position_ok ?b x" if "x \<in> bo_starts ?b" for x using that by (auto simp: position_ok_def covered_def)
  have "cache_ok stream ?b"
    unfolding cache_ok_def
  proof (intro conjI allI impI)
    fix x
    show "position_ok ?b x" if "sq_mem (bo_cache ?b) stream = Some x" by (rule start) (use that c(2) in simp)
    show "position_ok ?b x" if "sq_durable (bo_cache ?b) stream = Some x" by (rule start) (use that in simp)
  qed
  moreover have "source_ok ?b" using k(2) by (simp add: source_ok_def)
  moreover have "records_ok ?b" using bento_invD(3) [OF inv] by (simp add: records_ok_def)
  moreover have "input_ok bt stream ?b si" if "si \<in> set (bo_inputs ?b)" for si
    using inv that c(1) by (auto simp: bento_inv_def input_ok_def keys_ok_def reads_ok_def)
  ultimately have "bento_inv bt stream ?b" by (simp add: bento_inv_def)
  then show ?thesis using source_stop_inv [of bt stream ?b k] k(1) by (simp add: source_reset_def Let_def)
qed

lemma source_connect_extends:
  fixes latest :: bool
  assumes "bo_source b = SrcStart entry" "source_ok b"
  defines "start \<equiv> start_position (input_options latest entry) (bo_tail b)"
  shows "extends b (source_connect bt stream latest n entry b)" "position_ok (source_connect bt stream latest n entry b) start"
proof -
  show ext: "extends b (source_connect bt stream latest n entry b)" by (auto simp: extends_def source_connect_def Let_def)
  show "position_ok (source_connect bt stream latest n entry b) start"
  proof (cases entry)
    case None
    then show ?thesis by (auto simp: position_ok_def covered_def source_connect_def Let_def start_def)
  next
    case (Some p)
    then have "start = p" "position_ok b p"
      using assms by (simp_all add: start_position_def input_options_def empty_ReadOptions_def source_ok_def)
    then show ?thesis using position_ok_extends [OF _ ext] by simp
  qed
qed

context ordered_map
begin

lemma connect_input_ok:
  assumes "position_ok b start"
  shows "input_ok bt stream b (connectStreamInput bt stream (generation (bo_cache b) stream) n start)"
  using assms by (auto simp: input_ok_def keys_ok_def reads_ok_def held_ok_def held_def connectStreamInput_def newToAckMap_def
    generation_def Get_new)

lemma source_connect_inv:
  assumes inv: "bento_inv bt stream b" and src: "bo_source b = SrcStart entry"
  shows "bento_inv bt stream (source_connect bt stream latest n entry b)" (is "bento_inv bt stream ?b")
proof -
  note ce = source_connect_extends [OF src bento_invD(2) [OF inv], of bt stream latest n]
  have f: "bo_cache ?b = bo_cache b" "bo_records ?b = bo_records b" "bo_tail ?b = bo_tail b"
    "bo_inputs ?b = bo_inputs b @ [connectStreamInput bt stream (generation (bo_cache ?b) stream) n
       (start_position (input_options latest entry) (bo_tail b))]" "bo_source ?b = SrcReading (length (bo_inputs b))"
    by (simp_all add: source_connect_def Let_def)
  have "\<forall>si\<in>set (bo_inputs ?b). input_ok bt stream ?b si"
    unfolding f(4) using inv input_ok_extends [OF _ ce(1)] connect_input_ok [OF ce(2), of stream n] f(1) by (auto simp: bento_inv_def)
  moreover have "cache_ok stream ?b" using bento_invD(1) [OF inv] position_ok_extends [OF _ ce(1)] by (simp add: cache_ok_def f)
  moreover have "source_ok ?b" "records_ok ?b" using bento_invD(3) [OF inv] by (simp_all add: source_ok_def records_ok_def f)
  ultimately show ?thesis by (simp add: bento_inv_def)
qed

lemma bento_step_inv:
  assumes inv: "bento_inv bt stream b" and step: "bento_step bt stream latest n b b'"
  shows "bento_inv bt stream b'"
  using step
proof cases
  case (bs_ack k d e err landed sel)
  then show ?thesis using consumer_ack_inv [OF ordered_map_axioms inv] by simp
qed (use inv in \<open>simp_all add: append_record_inv source_get_inv source_store_inv source_connect_inv connect_fails_inv
  source_read_inv source_stop_inv source_reset_inv forget_inv\<close>)

lemma bento_init_inv: "bento_init stream b \<Longrightarrow> bento_inv bt stream b"
  by (auto simp: bento_init_def bento_inv_def cache_ok_def source_ok_def records_ok_def newSeqNumCache_def position_ok_def covered_def)

lemma bento_reach_inv: "reach (bento_init stream) (bento_step bt stream latest n) b \<Longrightarrow> bento_inv bt stream b"
  by (rule invariant_system.reach_inv [OF invariant_system.intro]) (auto intro: bento_init_inv bento_step_inv)

end

section \<open>Properties\<close>

text \<open>C31: At-least-once delivery: however inputs are closed and reopened, batches are given back and acknowledged in
  any order, and acknowledgements of old inputs arrive late, a position the cache holds, in memory or in the user's cache, is
  reached from a position where reading was started in the current generation with every record in between acknowledged.  A
  restart from the cache therefore skips no record that was not acknowledged.\<close>

theorem bento_at_least_once:
  assumes "ordered_map bt" "reach (bento_init stream) (bento_step bt stream latest maxInflight) b"
    "sq_mem (bo_cache b) stream = Some c \<or> sq_durable (bo_cache b) stream = Some c"
  shows "\<exists>s\<in>bo_starts b. s \<le> c \<and>
    (\<forall>r\<in>set (bo_records b). s \<le> sr_SeqNum r \<and> sr_SeqNum r < c \<longrightarrow> sr_SeqNum r \<in> bo_acked b)"
proof -
  have "cache_ok stream b" using bento_invD(1) [OF ordered_map.bento_reach_inv [OF assms(1,2)]] .
  then obtain s where s: "s \<in> bo_starts b" "covered b s c" using assms(3) by (auto simp: cache_ok_def position_ok_def)
  then show ?thesis by (intro bexI [of _ s]) (auto simp: covered_def)
qed

text \<open>Acknowledging a delivered batch always finds it: the acknowledgement function of a delivery that has no result yet
  never reports that the batch cannot be acknowledged, only an error of the user's cache.\<close>

theorem bento_ack_found:
  assumes "ordered_map bt" "reach (bento_init stream) (bento_step bt stream latest maxInflight) b"
    "k < length (bo_inputs b)" "d < length (si_deliveries (bo_inputs b ! k))"
    "snd (si_deliveries (bo_inputs b ! k) ! d) = None"
  shows "\<exists>si cache. ackFunc bt d None err landed sel (bo_inputs b ! k) (bo_cache b) = Some (None, si, cache) \<or>
    ackFunc bt d None err landed sel (bo_inputs b ! k) (bo_cache b) = Some (map_option Wrapped err, si, cache)"
proof -
  obtain rs where rs: "si_deliveries (bo_inputs b ! k) ! d = (rs, None)" using assms(5) by (metis prod.collapse)
  obtain res tam cache where run: "MarkDone bt rs True err landed (si_toAck (bo_inputs b ! k)) (bo_cache b) = (res, tam, cache)"
    by (metis prod_cases3)
  have "res = None \<or> res = err"
    by (rule ordered_map.ack_inv(1) [OF assms(1) ordered_map.bento_reach_inv [OF assms(1,2)] assms(3,4) rs run])
  then show ?thesis by (auto simp: ackFunc_def rs ack_input_def run)
qed

section \<open>Witnesses\<close>

text \<open>Two records are read, the second is acknowledged, then the first.\<close>

definition bento_record :: "u64 \<Rightarrow> SequencedRecord" where
  "bento_record n = \<lparr>sr_Body = [], sr_Headers = [], sr_SeqNum = n, sr_Timestamp = 0\<rparr>"

definition bento0 :: "(u64, batchAckStatus) rbt bento" where
  "bento0 = \<lparr>bo_cache = newSeqNumCache False (\<lambda>_. None), bo_inputs = [], bo_source = SrcIdle,
     bo_records = [bento_record 0, bento_record 1], bo_tail = 2, bo_acked = {}, bo_starts = {}\<rparr>"

definition bento1 :: "(u64, batchAckStatus) rbt bento" where
  "bento1 = source_connect rbt_map ''s'' False 4 None (source_get ''s'' (Inl errCannotAckBatch) bento0)"

definition bento2 :: "(u64, batchAckStatus) rbt bento" where
  "bento2 = source_read rbt_map 0 (bento_record 1) (source_read rbt_map 0 (bento_record 0) bento1)"

definition bento3 :: "(u64, batchAckStatus) rbt bento" where
  "bento3 = consumer_ack rbt_map 0 0 None None True None (consumer_ack rbt_map 0 1 None None True None bento2)"

lemma bento_demo:
  "reach (bento_init ''s'') (bento_step rbt_map ''s'' False 4) bento2"
  "reach (bento_init ''s'') (bento_step rbt_map ''s'' False 4) bento3"
proof -
  have "bento_init ''s'' bento0"
    by (auto simp: bento_init_def bento0_def bento_record_def intro!: exI [of _ False] exI [of _ "\<lambda>_. None"])
  moreover have "bento_step rbt_map ''s'' False 4 bento0 (source_get ''s'' (Inl errCannotAckBatch) bento0)"
    by (rule bs_get) (simp_all add: bento0_def)
  moreover have "bento_step rbt_map ''s'' False 4 (source_get ''s'' (Inl errCannotAckBatch) bento0) bento1"
    unfolding bento1_def by (rule bs_connect) (simp add: source_get_def Get_cache_def bento0_def newSeqNumCache_def)
  moreover have "bento_step rbt_map ''s'' False 4 bento1 (source_read rbt_map 0 (bento_record 0) bento1)"
    by (rule bs_read) code_simp+
  moreover have "bento_step rbt_map ''s'' False 4 (source_read rbt_map 0 (bento_record 0) bento1) bento2"
    unfolding bento2_def by (rule bs_read) code_simp+
  ultimately show two: "reach (bento_init ''s'') (bento_step rbt_map ''s'' False 4) bento2" by (meson reach_init reach_step)
  have "bento_step rbt_map ''s'' False 4 bento2 (consumer_ack rbt_map 0 1 None None True None bento2)"
    by (rule bs_ack) code_simp+
  moreover have "bento_step rbt_map ''s'' False 4 (consumer_ack rbt_map 0 1 None None True None bento2) bento3"
    unfolding bento3_def by (rule bs_ack) code_simp+
  ultimately show "reach (bento_init ''s'') (bento_step rbt_map ''s'' False 4) bento3" using two by (meson reach_step)
qed

theorem bento_at_least_once_witness:
  "sq_mem (bo_cache bento3) ''s'' = Some 2 \<and> 0 \<in> bo_acked bento3 \<and> 1 \<in> bo_acked bento3"
proof -
  have c: "sq_mem (bo_cache bento3) ''s'' = Some 2" by code_simp
  have s: "bo_starts bento3 = {0}" "bo_records bento3 = [bento_record 0, bento_record 1]" by code_simp+
  have "\<exists>s\<in>{0}. s \<le> 2 \<and> (\<forall>r\<in>set [bento_record 0, bento_record 1]. s \<le> sr_SeqNum r \<and> sr_SeqNum r < 2 \<longrightarrow> sr_SeqNum r \<in> bo_acked bento3)"
    using bento_at_least_once [OF rbt.ordered_map_axioms bento_demo(2), of 2] c unfolding s by simp
  then show ?thesis using c by (simp add: bento_record_def)
qed

theorem bento_ack_found_witness:
  "\<exists>si cache. ackFunc rbt_map 1 None None True None (bo_inputs bento2 ! 0) (bo_cache bento2) = Some (None, si, cache)"
proof -
  have "0 < length (bo_inputs bento2)" "1 < length (si_deliveries (bo_inputs bento2 ! 0))" by code_simp+
  moreover have "snd (si_deliveries (bo_inputs bento2 ! 0) ! 1) = None" by code_simp
  ultimately show ?thesis
    using bento_ack_found [OF rbt.ordered_map_axioms bento_demo(1), of 0 1 None True None] by simp
qed

end
