(* ===== verification/Bento_Streams.thy ===== *)
theory Bento_Streams
  imports Bento_Input Append_Session
begin

text \<open>
  The streams a bentobox input reads (\<open>src/s2-bentobox/input.go\<close>, \<open>multi_stream_input.go\<close>): the discovery walks
  through the pages of a listing, and the manager starts a worker for every stream it sees and stops the workers of
  streams that a complete listing no longer has.  One round of the manager's loop is \<open>manager_round\<close>.  At the end, the
  output (\<open>output.go\<close>), which writes one batch and waits until it is durable.
\<close>

section \<open>Discovery\<close>

type_synonym list_page = "string \<Rightarrow> goerr + string list \<times> string"

definition listPage_static :: "string list \<Rightarrow> list_page" where
  "listPage_static streams cursor = Inr (streams, '''')"

record streamDiscovery =
  sd_cursor :: string
  sd_seen :: "string set"

definition newStreamDiscovery :: streamDiscovery where
  "newStreamDiscovery = \<lparr>sd_cursor = '''', sd_seen = {}\<rparr>"

text \<open>The page and, when the listing is complete, all streams it had.\<close>

definition discovery_next :: "list_page \<Rightarrow> streamDiscovery \<Rightarrow> (goerr + string list \<times> string set option) \<times> streamDiscovery" where
  "discovery_next listPage d = (case listPage (sd_cursor d) of
     Inl err \<Rightarrow> (Inl err, d)
   | Inr (page, next) \<Rightarrow>
       let d = d\<lparr>sd_seen := sd_seen d \<union> set page\<rparr> in
       if next \<noteq> '''' then (Inr (page, None), d\<lparr>sd_cursor := next\<rparr>)
       else (Inr (page, Some (sd_seen d)), d\<lparr>sd_cursor := '''', sd_seen := {}\<rparr>))"

section \<open>The manager\<close>

record InputConfig =
  ic_UpdateStreamsInterval :: duration
  ic_ListStreamsPageInterval :: duration

definition updateStreamsInterval :: "InputConfig \<Rightarrow> duration" where
  "updateStreamsInterval c = (if ic_UpdateStreamsInterval c \<noteq> 0 then ic_UpdateStreamsInterval c else 60 * 1000000000)"

definition listStreamsPageInterval :: "InputConfig \<Rightarrow> duration" where
  "listStreamsPageInterval c = (if ic_ListStreamsPageInterval c \<noteq> 0 then ic_ListStreamsPageInterval c else 1000000000)"

text \<open>\<open>mg_spawned\<close> lists the workers that were started, in order.\<close>

record streamsManager =
  mg_discovery :: streamDiscovery
  mg_workers :: "string set"
  mg_wait :: duration
  mg_spawned :: "string list"
  mg_cache :: seqNumCache

definition new_streamsManager :: "seqNumCache \<Rightarrow> streamsManager" where
  "new_streamsManager cache =
     \<lparr>mg_discovery = newStreamDiscovery, mg_workers = {}, mg_wait = 0, mg_spawned = [], mg_cache = cache\<rparr>"

definition spawnWorker :: "string \<Rightarrow> streamsManager \<Rightarrow> streamsManager" where
  "spawnWorker stream m = m\<lparr>mg_workers := insert stream (mg_workers m), mg_spawned := mg_spawned m @ [stream]\<rparr>"

definition spawn_page :: "string list \<Rightarrow> streamsManager \<Rightarrow> streamsManager" where
  "spawn_page page m = fold (\<lambda>stream m. if stream \<in> mg_workers m then m else spawnWorker stream m) page m"

text \<open>Workers that are not in the complete listing are closed, waited for and forgotten.\<close>

definition remove_missing :: "string set \<Rightarrow> streamsManager \<Rightarrow> streamsManager" where
  "remove_missing complete m = m\<lparr>mg_workers := mg_workers m \<inter> complete,
     mg_cache := (mg_cache m)\<lparr>sq_mem := (\<lambda>s. if s \<in> mg_workers m - complete then None else sq_mem (mg_cache m) s)\<rparr>\<rparr>"

definition manager_round :: "InputConfig \<Rightarrow> list_page \<Rightarrow> streamsManager \<Rightarrow> streamsManager" where
  "manager_round c listPage m = (case discovery_next listPage (mg_discovery m) of
     (Inl err, d) \<Rightarrow> m\<lparr>mg_discovery := d, mg_wait := listStreamsPageInterval c\<rparr>
   | (Inr (page, complete), d) \<Rightarrow>
       let m = spawn_page page (m\<lparr>mg_discovery := d\<rparr>) in
       case complete of
         None \<Rightarrow> m\<lparr>mg_wait := listStreamsPageInterval c\<rparr>
       | Some streams \<Rightarrow> (remove_missing streams m)\<lparr>mg_wait := updateStreamsInterval c\<rparr>)"

definition manager_stop :: "streamsManager \<Rightarrow> streamsManager" where
  "manager_stop m = m\<lparr>mg_workers := {}\<rparr>"

text \<open>The pages of one pass over the listing: rounds that fail are repeated at the same cursor, the last page has no
  successor.\<close>

fun pass_pages :: "string \<Rightarrow> list_page list \<Rightarrow> string list list option" where
  "pass_pages cursor [] = None"
| "pass_pages cursor (l # ls) = (case l cursor of
     Inl _ \<Rightarrow> pass_pages cursor ls
   | Inr (page, next) \<Rightarrow>
       if next = '''' then (if ls = [] then Some [page] else None)
       else map_option (\<lambda>pages. page # pages) (pass_pages next ls))"

lemma spawn_page_workers:
  "mg_workers (spawn_page page m) = mg_workers m \<union> set page" "mg_discovery (spawn_page page m) = mg_discovery m"
  "\<exists>new. mg_spawned (spawn_page page m) = mg_spawned m @ new \<and> distinct new \<and> set new = set page - mg_workers m"
proof -
  show "mg_workers (spawn_page page m) = mg_workers m \<union> set page" "mg_discovery (spawn_page page m) = mg_discovery m"
    unfolding spawn_page_def by (induction page arbitrary: m) (auto simp: spawnWorker_def)
  show "\<exists>new. mg_spawned (spawn_page page m) = mg_spawned m @ new \<and> distinct new \<and> set new = set page - mg_workers m"
    unfolding spawn_page_def
  proof (induction page arbitrary: m)
    case (Cons s page)
    obtain new where new: "mg_spawned (fold (\<lambda>stream m. if stream \<in> mg_workers m then m else spawnWorker stream m) page
        (if s \<in> mg_workers m then m else spawnWorker s m)) = mg_spawned (if s \<in> mg_workers m then m else spawnWorker s m) @ new"
      "distinct new" "set new = set page - mg_workers (if s \<in> mg_workers m then m else spawnWorker s m)"
      using Cons by blast
    show ?case
    proof (cases "s \<in> mg_workers m")
      case True
      then show ?thesis using new by (intro exI [of _ new]) auto
    next
      case False
      then show ?thesis using new by (intro exI [of _ "s # new"]) (auto simp: spawnWorker_def)
    qed
  qed simp
qed

text \<open>A pass from the middle: \<open>seen\<close> are the streams of the pages before, which have workers.\<close>

lemma pass_from:
  assumes "pass_pages (sd_cursor (mg_discovery m)) ls = Some pages" "sd_seen (mg_discovery m) \<subseteq> mg_workers m"
  shows "mg_workers (fold (manager_round c) ls m) = sd_seen (mg_discovery m) \<union> \<Union> (set ` set pages) \<and>
    mg_discovery (fold (manager_round c) ls m) = newStreamDiscovery \<and>
    (\<exists>new. mg_spawned (fold (manager_round c) ls m) = mg_spawned m @ new \<and> distinct new \<and>
       set new = \<Union> (set ` set pages) - mg_workers m)"
  using assms
proof (induction ls arbitrary: m pages)
  case (Cons l ls)
  show ?case
  proof (cases "l (sd_cursor (mg_discovery m))")
    case (Inl err)
    have r: "manager_round c l m = m\<lparr>mg_wait := listStreamsPageInterval c\<rparr>"
      by (simp add: manager_round_def discovery_next_def Inl)
    have "pass_pages (sd_cursor (mg_discovery (manager_round c l m))) ls = Some pages" using Cons(2) Inl by (simp add: r)
    from Cons(1) [OF this] show ?thesis using Cons(3) by (simp add: r)
  next
    case (Inr pn)
    obtain page nx where pn: "pn = (page, nx)" by fastforce
    let ?d = "mg_discovery m"
    show ?thesis
    proof (cases "nx = ''''")
      case True
      then have "ls = []" "pages = [page]" using Cons(2) Inr pn by (auto split: if_splits)
      moreover have "(mg_discovery m)\<lparr>sd_cursor := '''', sd_seen := {}\<rparr> = newStreamDiscovery"
        by (cases "mg_discovery m") (simp add: newStreamDiscovery_def)
      ultimately show ?thesis
        using True Inr pn Cons(3) spawn_page_workers [of page "m\<lparr>mg_discovery := newStreamDiscovery\<rparr>"]
        by (auto simp: manager_round_def discovery_next_def Let_def remove_missing_def)
    next
      case False
      let ?m = "(spawn_page page (m\<lparr>mg_discovery := ?d\<lparr>sd_seen := sd_seen ?d \<union> set page, sd_cursor := nx\<rparr>\<rparr>))
        \<lparr>mg_wait := listStreamsPageInterval c\<rparr>"
      have r: "manager_round c l m = ?m" using False Inr pn by (simp add: manager_round_def discovery_next_def Let_def)
      obtain rest where rest: "pass_pages nx ls = Some rest" "pages = page # rest" using Cons(2) False Inr pn by auto
      have f: "mg_discovery ?m = ?d\<lparr>sd_seen := sd_seen ?d \<union> set page, sd_cursor := nx\<rparr>" "mg_workers ?m = mg_workers m \<union> set page"
        by (simp_all add: spawn_page_workers)
      obtain new where new: "mg_spawned ?m = mg_spawned m @ new" "distinct new" "set new = set page - mg_workers m"
        using spawn_page_workers(3) [of page "m\<lparr>mg_discovery := ?d\<lparr>sd_seen := sd_seen ?d \<union> set page, sd_cursor := nx\<rparr>\<rparr>"] by auto
      have ih: "mg_workers (fold (manager_round c) ls ?m) = sd_seen ?d \<union> set page \<union> \<Union> (set ` set rest)"
        "mg_discovery (fold (manager_round c) ls ?m) = newStreamDiscovery"
        "\<exists>new'. mg_spawned (fold (manager_round c) ls ?m) = mg_spawned ?m @ new' \<and> distinct new' \<and>
           set new' = \<Union> (set ` set rest) - (mg_workers m \<union> set page)"
        using Cons(1) [of ?m rest] rest(1) Cons(3) unfolding f by auto
      then obtain new' where new': "mg_spawned (fold (manager_round c) ls ?m) = mg_spawned ?m @ new'" "distinct new'"
        "set new' = \<Union> (set ` set rest) - (mg_workers m \<union> set page)" by blast
      have "\<exists>new. mg_spawned (fold (manager_round c) ls ?m) = mg_spawned m @ new \<and> distinct new \<and>
          set new = \<Union> (set ` set pages) - mg_workers m"
        using new new' rest(2) by (intro exI [of _ "new @ new'"]) auto
      then show ?thesis using ih(1,2) rest(2) by (simp add: r Un_assoc)
    qed
  qed
qed simp

text \<open>After a pass over the listing, however many of its rounds failed, the workers are exactly the streams on the pages of
  the pass: streams that had a worker keep it, every new stream got one worker, and the workers of streams that are gone
  were stopped; the discovery is ready for the next pass.\<close>

theorem bento_workers_match_listing:
  assumes "mg_discovery m = newStreamDiscovery" "pass_pages '''' ls = Some pages"
  shows "mg_workers (fold (manager_round c) ls m) = \<Union> (set ` set pages) \<and>
    mg_discovery (fold (manager_round c) ls m) = newStreamDiscovery \<and>
    (\<exists>new. mg_spawned (fold (manager_round c) ls m) = mg_spawned m @ new \<and> distinct new \<and>
       set new = \<Union> (set ` set pages) - mg_workers m)"
  using pass_from [of m ls pages c] assms by (simp add: newStreamDiscovery_def)

theorem bento_workers_match_listing_witness:
  "mg_workers (fold (manager_round \<lparr>ic_UpdateStreamsInterval = 0, ic_ListStreamsPageInterval = 0\<rparr>)
     [\<lambda>_. Inl errCannotAckBatch, \<lambda>_. Inr ([''a'', ''b''], ''b''), \<lambda>cursor. Inr ([cursor @ ''c''], '''')]
     ((new_streamsManager (newSeqNumCache False (\<lambda>_. None)))\<lparr>mg_workers := {''a'', ''z''}\<rparr>)) = {''a'', ''b'', ''bc''}"
proof -
  let ?m = "(new_streamsManager (newSeqNumCache False (\<lambda>_. None)))\<lparr>mg_workers := {''a'', ''z''}\<rparr>"
  let ?ls = "[\<lambda>_. Inl errCannotAckBatch, \<lambda>_. Inr ([''a'', ''b''], ''b''), \<lambda>cursor. Inr ([cursor @ ''c''], '''')]"
  have "pass_pages '''' ?ls = Some [[''a'', ''b''], [''bc'']]" by simp
  from bento_workers_match_listing [OF _ this, of ?m "\<lparr>ic_UpdateStreamsInterval = 0, ic_ListStreamsPageInterval = 0\<rparr>"]
  show ?thesis by (auto simp: new_streamsManager_def)
qed

section \<open>Waiting for a batch, and the output\<close>

text \<open>\<open>SubmitFuture.Wait\<close> and \<open>BatchSubmitTicket.Ack\<close>: \<open>sel\<close> is the error of a done context whose case was taken; the
  result \<open>None\<close> means that the call still waits.  \<open>ready\<close> is what the future holds: a ticket or an error.\<close>

definition Wait_submit :: "(goerr + 't) option \<Rightarrow> goerr option \<Rightarrow> (goerr + 't) option" where
  "Wait_submit ready sel = (case sel of Some err \<Rightarrow> Some (Inl err) | None \<Rightarrow> ready)"

text \<open>\<open>ready\<close> is what the ticket's channel holds: \<open>Some None\<close> that it is closed without a result.\<close>

definition Ack_batch :: "inflightResult option option \<Rightarrow> goerr option \<Rightarrow> (goerr + AppendAck) option" where
  "Ack_batch ready sel = (case sel of
     Some err \<Rightarrow> Some (Inl err)
   | None \<Rightarrow> (case ready of
       None \<Rightarrow> None
     | Some None \<Rightarrow> Some (Inl (errorf ''batch submit ticket resolved without a payload''))
     | Some (Some (AckResult a)) \<Rightarrow> Some (Inr a)
     | Some (Some (ErrResult err)) \<Rightarrow> Some (Inl err)))"

record Output =
  out_closed :: bool
  out_fencingToken :: "string option"

definition errOutputClosed :: goerr where "errOutputClosed = errorf ''output closed''"

text \<open>The options \<open>ConnectOutput\<close> opens its session with.\<close>

definition output_options :: "int \<Rightarrow> AppendSessionOptions \<Rightarrow> AppendSessionOptions option" where
  "output_options maxInFlight zero =
     (if maxInFlight > 0 then Some (zero\<lparr>aso_MaxInflightBatches := word_of_int maxInFlight\<rparr>) else None)"

text \<open>\<open>WriteBatch\<close> when the session's \<open>Submit\<close> returns \<open>submitted\<close>, its future holds \<open>future\<close> and its ticket \<open>ticket\<close>; \<open>selW\<close>
  and \<open>selA\<close> are the context's errors at the two waits.  \<open>None\<close> means that it still waits.\<close>

definition WriteBatch :: "Output \<Rightarrow> AppendRecord list \<Rightarrow> (AppendInput \<Rightarrow> goerr option) \<Rightarrow> (goerr + unit) option \<Rightarrow> goerr option \<Rightarrow>
    inflightResult option option \<Rightarrow> goerr option \<Rightarrow> goerr option option" where
  "WriteBatch out records submitted future selW ticket selA =
     (let input = \<lparr>ai_Records = records, ai_MatchSeqNum = None, ai_FencingToken = out_fencingToken out, ai_StreamConfig = None\<rparr> in
      if out_closed out then Some (Some errOutputClosed)
      else case submitted input of
        Some err \<Rightarrow> Some (Some err)
      | None \<Rightarrow> (case Wait_submit future selW of
            None \<Rightarrow> None
          | Some (Inl err) \<Rightarrow> Some (Some err)
          | Some (Inr _) \<Rightarrow> (case Ack_batch ticket selA of
                None \<Rightarrow> None
              | Some (Inl err) \<Rightarrow> Some (Some err)
              | Some (Inr _) \<Rightarrow> Some None)))"

definition Close_output :: "Output \<Rightarrow> Output" where
  "Close_output out = out\<lparr>out_closed := True\<rparr>"

text \<open>A write that reports success was acknowledged as durable, and the batch that was submitted carries the fencing token.\<close>

lemma WriteBatch_durable:
  assumes "WriteBatch out records submitted future selW ticket selA = Some None"
  shows "\<exists>a. ticket = Some (Some (AckResult a))" "\<not> out_closed out"
    "submitted \<lparr>ai_Records = records, ai_MatchSeqNum = None, ai_FencingToken = out_fencingToken out, ai_StreamConfig = None\<rparr> = None"
  using assms by (auto simp: WriteBatch_def Ack_batch_def Let_def split: if_splits option.splits sum.splits inflightResult.splits)

end
