(* ===== verification/Json_Args.thy ===== *)
theory Json_Args
  imports Errors Stream_Types "HOL-Library.Char_ord" "HOL-Library.List_Lexorder"
begin

text \<open>
  The arguments and results of account operations (\<open>src/s2/types.go\<close>) and the JSON values of the arguments.  Structs
  become objects by their tags (\<open>omitempty\<close> leaves out nil, false and empty fields), the reconfigurations by their own
  \<open>MarshalJSON\<close>: a field that is cleared is \<open>null\<close>, one that is set has its value, any other is absent.
  The text of a JSON value is produced by \<open>encoding/json\<close>.
\<close>

section \<open>Types\<close>

record ResourceSet =
  rset_Exact :: "string option"
  rset_Prefix :: "string option"

record ReadWritePermissions =
  rwp_Read :: bool
  rwp_Write :: bool

record PermittedOperationGroups =
  pog_Account :: "ReadWritePermissions option"
  pog_Basin :: "ReadWritePermissions option"
  pog_Stream :: "ReadWritePermissions option"

record AccessTokenScope =
  ats_AccessTokens :: "ResourceSet option"
  ats_Basins :: "ResourceSet option"
  ats_OpGroups :: "PermittedOperationGroups option"
  ats_Ops :: "string list"
  ats_Streams :: "ResourceSet option"

record AccessTokenInfo =
  ati_ID :: string
  ati_Scope :: AccessTokenScope
  ati_AutoPrefixStreams :: bool
  ati_ExpiresAt :: "gotime option"

record BasinInfo =
  bi_Name :: string
  bi_Location :: "string option"
  bi_CreatedAt :: gotime
  bi_DeletedAt :: "gotime option"

record LocationInfo =
  li_Name :: string
  li_IsPrivate :: bool
  li_StorageClasses :: "string list"
  li_DefaultStorageClass :: "string option"

record BasinConfig =
  bcf_CreateStreamOnAppend :: "bool option"
  bcf_CreateStreamOnRead :: "bool option"
  bcf_StreamCipher :: "string option"
  bcf_DefaultStreamConfig :: "StreamConfig option"

record StreamInfo =
  sti_Name :: string
  sti_CreatedAt :: gotime
  sti_DeletedAt :: "gotime option"
  sti_Cipher :: "string option"

record DeleteOnEmptyReconfiguration =
  der_MinAgeSecs :: "int option"
  der_ClearMinAgeSecs :: bool

record TimestampingReconfiguration =
  tsr_Mode :: "string option"
  tsr_ClearMode :: bool
  tsr_Uncapped :: "bool option"
  tsr_ClearUncapped :: bool

record StreamReconfiguration =
  srf_DeleteOnEmpty :: "DeleteOnEmptyReconfiguration option"
  srf_ClearDeleteOnEmpty :: bool
  srf_RetentionPolicy :: "RetentionPolicy option"
  srf_ClearRetentionPolicy :: bool
  srf_StorageClass :: "string option"
  srf_ClearStorageClass :: bool
  srf_Timestamping :: "TimestampingReconfiguration option"
  srf_ClearTimestamping :: bool

record BasinReconfiguration =
  brf_CreateStreamOnAppend :: "bool option"
  brf_CreateStreamOnRead :: "bool option"
  brf_StreamCipher :: "string option"
  brf_ClearStreamCipher :: bool
  brf_DefaultStreamConfig :: "StreamReconfiguration option"
  brf_ClearDefaultStreamConfig :: bool

record CreateBasinArgs =
  cba_Basin :: string
  cba_Config :: "BasinConfig option"
  cba_Location :: "string option"

record EnsureBasinArgs =
  eba_Basin :: string
  eba_Config :: "BasinConfig option"
  eba_Location :: "string option"

record CreateStreamArgs =
  csa_Stream :: string
  csa_Config :: "StreamConfig option"

record EnsureStreamArgs =
  esa_Stream :: string
  esa_Config :: "StreamConfig option"

record IssueAccessTokenArgs =
  iat_ID :: string
  iat_Scope :: AccessTokenScope
  iat_AutoPrefixStreams :: bool
  iat_ExpiresAt :: "gotime option"

section \<open>JSON values of the arguments\<close>

text \<open>An object of the fields that are present.\<close>

definition obj :: "(string \<times> json_value option) list \<Rightarrow> json_value" where
  "obj fs = JObject (map (\<lambda>(k, v). (k, the v)) (filter (\<lambda>(k, v). v \<noteq> None) fs))"

text \<open>A Go map is written with its keys in order.\<close>

definition map_obj :: "(string \<times> json_value option) list \<Rightarrow> json_value" where
  "map_obj fs = obj (sort_key fst fs)"

definition omit_empty :: "string \<Rightarrow> json_value option" where
  "omit_empty s = (if s = '''' then None else Some (JString s))"

definition omit_false :: "bool \<Rightarrow> json_value option" where
  "omit_false b = (if b then Some (JBool True) else None)"

definition JInt :: "int \<Rightarrow> json_value" where
  "JInt n = JFloat n 0"

definition json_DeleteOnEmptyConfig :: "DeleteOnEmptyConfig \<Rightarrow> json_value" where
  "json_DeleteOnEmptyConfig c = obj [(''min_age_secs'', map_option JInt (doe_MinAgeSecs c))]"

definition json_RetentionPolicy :: "RetentionPolicy \<Rightarrow> json_value" where
  "json_RetentionPolicy p =
     obj [(''age'', map_option JInt (rp_Age p)), (''infinite'', map_option (\<lambda>_. obj []) (rp_Infinite p))]"

definition json_TimestampingConfig :: "TimestampingConfig \<Rightarrow> json_value" where
  "json_TimestampingConfig c = obj [(''mode'', map_option JString (tc_Mode c)), (''uncapped'', map_option JBool (tc_Uncapped c))]"

definition json_StreamConfig :: "StreamConfig \<Rightarrow> json_value" where
  "json_StreamConfig c = obj
     [(''delete_on_empty'', map_option json_DeleteOnEmptyConfig (sc_DeleteOnEmpty c)),
      (''retention_policy'', map_option json_RetentionPolicy (sc_RetentionPolicy c)),
      (''storage_class'', map_option JString (sc_StorageClass c)),
      (''timestamping'', map_option json_TimestampingConfig (sc_Timestamping c))]"

definition json_BasinConfig :: "BasinConfig \<Rightarrow> json_value" where
  "json_BasinConfig c = obj
     [(''create_stream_on_append'', map_option JBool (bcf_CreateStreamOnAppend c)),
      (''create_stream_on_read'', map_option JBool (bcf_CreateStreamOnRead c)),
      (''stream_cipher'', map_option JString (bcf_StreamCipher c)),
      (''default_stream_config'', map_option json_StreamConfig (bcf_DefaultStreamConfig c))]"

definition json_CreateBasinArgs :: "CreateBasinArgs \<Rightarrow> json_value" where
  "json_CreateBasinArgs a = obj
     [(''basin'', Some (JString (cba_Basin a))), (''config'', map_option json_BasinConfig (cba_Config a)),
      (''location'', map_option JString (cba_Location a))]"

text \<open>The body of \<open>Ensure\<close> (\<open>ensureBasinRequest\<close>), which is nil when nothing is configured.\<close>

definition json_ensureBasinRequest :: "EnsureBasinArgs \<Rightarrow> json_value option" where
  "json_ensureBasinRequest a =
     (if eba_Config a \<noteq> None \<or> eba_Location a \<noteq> None
      then Some (obj [(''config'', map_option json_BasinConfig (eba_Config a)), (''location'', map_option JString (eba_Location a))])
      else None)"

definition json_CreateStreamArgs :: "CreateStreamArgs \<Rightarrow> json_value" where
  "json_CreateStreamArgs a =
     obj [(''stream'', Some (JString (csa_Stream a))), (''config'', map_option json_StreamConfig (csa_Config a))]"

definition json_ResourceSet :: "ResourceSet \<Rightarrow> json_value" where
  "json_ResourceSet r = obj [(''exact'', map_option JString (rset_Exact r)), (''prefix'', map_option JString (rset_Prefix r))]"

definition json_ReadWritePermissions :: "ReadWritePermissions \<Rightarrow> json_value" where
  "json_ReadWritePermissions p = obj [(''read'', omit_false (rwp_Read p)), (''write'', omit_false (rwp_Write p))]"

definition json_PermittedOperationGroups :: "PermittedOperationGroups \<Rightarrow> json_value" where
  "json_PermittedOperationGroups g = obj
     [(''account'', map_option json_ReadWritePermissions (pog_Account g)),
      (''basin'', map_option json_ReadWritePermissions (pog_Basin g)),
      (''stream'', map_option json_ReadWritePermissions (pog_Stream g))]"

definition json_AccessTokenScope :: "AccessTokenScope \<Rightarrow> json_value" where
  "json_AccessTokenScope s = obj
     [(''access_tokens'', map_option json_ResourceSet (ats_AccessTokens s)),
      (''basins'', map_option json_ResourceSet (ats_Basins s)),
      (''op_groups'', map_option json_PermittedOperationGroups (ats_OpGroups s)),
      (''ops'', if ats_Ops s = [] then None else Some (JArray (map JString (ats_Ops s)))),
      (''streams'', map_option json_ResourceSet (ats_Streams s))]"

text \<open>\<open>rfc3339\<close> is the text of a time.\<close>

definition json_IssueAccessTokenArgs :: "(gotime \<Rightarrow> string) \<Rightarrow> IssueAccessTokenArgs \<Rightarrow> json_value" where
  "json_IssueAccessTokenArgs rfc3339 a = obj
     [(''id'', Some (JString (iat_ID a))), (''scope'', Some (json_AccessTokenScope (iat_Scope a))),
      (''auto_prefix_streams'', omit_false (iat_AutoPrefixStreams a)),
      (''expires_at'', map_option (\<lambda>t. JString (rfc3339 t)) (iat_ExpiresAt a))]"

section \<open>Reconfigurations\<close>

text \<open>The \<open>switch\<close> of every clearable field.\<close>

definition patch_field :: "bool \<Rightarrow> ('a \<Rightarrow> json_value) \<Rightarrow> 'a option \<Rightarrow> json_value option" where
  "patch_field clear enc v = (if clear then Some JNull else map_option enc v)"

definition json_DeleteOnEmptyReconfiguration :: "DeleteOnEmptyReconfiguration \<Rightarrow> json_value" where
  "json_DeleteOnEmptyReconfiguration r =
     map_obj [(''min_age_secs'', patch_field (der_ClearMinAgeSecs r) JInt (der_MinAgeSecs r))]"

definition json_TimestampingReconfiguration :: "TimestampingReconfiguration \<Rightarrow> json_value" where
  "json_TimestampingReconfiguration r = map_obj
     [(''mode'', patch_field (tsr_ClearMode r) JString (tsr_Mode r)),
      (''uncapped'', patch_field (tsr_ClearUncapped r) JBool (tsr_Uncapped r))]"

definition json_StreamReconfiguration :: "StreamReconfiguration \<Rightarrow> json_value" where
  "json_StreamReconfiguration r = map_obj
     [(''delete_on_empty'', patch_field (srf_ClearDeleteOnEmpty r) json_DeleteOnEmptyReconfiguration (srf_DeleteOnEmpty r)),
      (''retention_policy'', patch_field (srf_ClearRetentionPolicy r) json_RetentionPolicy (srf_RetentionPolicy r)),
      (''storage_class'', patch_field (srf_ClearStorageClass r) JString (srf_StorageClass r)),
      (''timestamping'', patch_field (srf_ClearTimestamping r) json_TimestampingReconfiguration (srf_Timestamping r))]"

definition json_BasinReconfiguration :: "BasinReconfiguration \<Rightarrow> json_value" where
  "json_BasinReconfiguration r = map_obj
     [(''create_stream_on_append'', map_option JBool (brf_CreateStreamOnAppend r)),
      (''create_stream_on_read'', map_option JBool (brf_CreateStreamOnRead r)),
      (''stream_cipher'', patch_field (brf_ClearStreamCipher r) JString (brf_StreamCipher r)),
      (''default_stream_config'', patch_field (brf_ClearDefaultStreamConfig r) json_StreamReconfiguration (brf_DefaultStreamConfig r))]"

section \<open>What a server reads\<close>

text \<open>The fields of an object, and a patch: a field that is absent keeps the value, \<open>null\<close> clears it, anything else replaces it.\<close>

fun field :: "json_value \<Rightarrow> string \<Rightarrow> json_value option" where
  "field (JObject fs) k = map_of fs k"
| "field _ k = None"

definition apply_field :: "(json_value \<Rightarrow> 'a option \<Rightarrow> 'a option) \<Rightarrow> json_value option \<Rightarrow> 'a option \<Rightarrow> 'a option" where
  "apply_field put v old = (case v of None \<Rightarrow> old | Some JNull \<Rightarrow> None | Some x \<Rightarrow> put x old)"

fun as_int :: "json_value \<Rightarrow> int" where
  "as_int (JFloat m e) = float_trunc m e" | "as_int _ = 0"

fun as_string :: "json_value \<Rightarrow> string" where
  "as_string (JString s) = s" | "as_string _ = ''''"

fun as_bool :: "json_value \<Rightarrow> bool" where
  "as_bool (JBool b) = b" | "as_bool _ = False"

definition set_to :: "(json_value \<Rightarrow> 'a) \<Rightarrow> json_value \<Rightarrow> 'a option \<Rightarrow> 'a option" where
  "set_to f x old = Some (f x)"

definition read_RetentionPolicy :: "json_value \<Rightarrow> RetentionPolicy" where
  "read_RetentionPolicy j = \<lparr>rp_Age = map_option as_int (field j ''age''), rp_Infinite = map_option (\<lambda>_. ()) (field j ''infinite'')\<rparr>"

definition read_DeleteOnEmptyConfig :: "json_value \<Rightarrow> DeleteOnEmptyConfig" where
  "read_DeleteOnEmptyConfig j = \<lparr>doe_MinAgeSecs = map_option as_int (field j ''min_age_secs'')\<rparr>"

definition read_TimestampingConfig :: "json_value \<Rightarrow> TimestampingConfig" where
  "read_TimestampingConfig j =
     \<lparr>tc_Mode = map_option as_string (field j ''mode''), tc_Uncapped = map_option as_bool (field j ''uncapped'')\<rparr>"

definition read_StreamConfig :: "json_value \<Rightarrow> StreamConfig" where
  "read_StreamConfig j =
     \<lparr>sc_DeleteOnEmpty = map_option read_DeleteOnEmptyConfig (field j ''delete_on_empty''),
      sc_RetentionPolicy = map_option read_RetentionPolicy (field j ''retention_policy''),
      sc_StorageClass = map_option as_string (field j ''storage_class''),
      sc_Timestamping = map_option read_TimestampingConfig (field j ''timestamping'')\<rparr>"

definition read_BasinConfig :: "json_value \<Rightarrow> BasinConfig" where
  "read_BasinConfig j =
     \<lparr>bcf_CreateStreamOnAppend = map_option as_bool (field j ''create_stream_on_append''),
      bcf_CreateStreamOnRead = map_option as_bool (field j ''create_stream_on_read''),
      bcf_StreamCipher = map_option as_string (field j ''stream_cipher''),
      bcf_DefaultStreamConfig = map_option read_StreamConfig (field j ''default_stream_config'')\<rparr>"

text \<open>A nested patch applies to the old value, or to an empty one when there is none.\<close>

definition patch_DeleteOnEmpty :: "json_value \<Rightarrow> DeleteOnEmptyConfig option \<Rightarrow> DeleteOnEmptyConfig option" where
  "patch_DeleteOnEmpty j old =
     (let c = (case old of None \<Rightarrow> \<lparr>doe_MinAgeSecs = None\<rparr> | Some c \<Rightarrow> c)
      in Some \<lparr>doe_MinAgeSecs = apply_field (set_to as_int) (field j ''min_age_secs'') (doe_MinAgeSecs c)\<rparr>)"

definition patch_Timestamping :: "json_value \<Rightarrow> TimestampingConfig option \<Rightarrow> TimestampingConfig option" where
  "patch_Timestamping j old =
     (let c = (case old of None \<Rightarrow> \<lparr>tc_Mode = None, tc_Uncapped = None\<rparr> | Some c \<Rightarrow> c)
      in Some \<lparr>tc_Mode = apply_field (set_to as_string) (field j ''mode'') (tc_Mode c),
           tc_Uncapped = apply_field (set_to as_bool) (field j ''uncapped'') (tc_Uncapped c)\<rparr>)"

definition zero_StreamConfig :: StreamConfig where
  "zero_StreamConfig = \<lparr>sc_DeleteOnEmpty = None, sc_RetentionPolicy = None, sc_StorageClass = None, sc_Timestamping = None\<rparr>"

definition patch_StreamConfig :: "json_value \<Rightarrow> StreamConfig option \<Rightarrow> StreamConfig option" where
  "patch_StreamConfig j old =
     (let c = (case old of None \<Rightarrow> zero_StreamConfig | Some c \<Rightarrow> c)
      in Some \<lparr>sc_DeleteOnEmpty = apply_field patch_DeleteOnEmpty (field j ''delete_on_empty'') (sc_DeleteOnEmpty c),
           sc_RetentionPolicy = apply_field (set_to read_RetentionPolicy) (field j ''retention_policy'') (sc_RetentionPolicy c),
           sc_StorageClass = apply_field (set_to as_string) (field j ''storage_class'') (sc_StorageClass c),
           sc_Timestamping = apply_field patch_Timestamping (field j ''timestamping'') (sc_Timestamping c)\<rparr>)"

definition patch_BasinConfig :: "json_value \<Rightarrow> BasinConfig \<Rightarrow> BasinConfig" where
  "patch_BasinConfig j c =
     \<lparr>bcf_CreateStreamOnAppend = apply_field (set_to as_bool) (field j ''create_stream_on_append'') (bcf_CreateStreamOnAppend c),
      bcf_CreateStreamOnRead = apply_field (set_to as_bool) (field j ''create_stream_on_read'') (bcf_CreateStreamOnRead c),
      bcf_StreamCipher = apply_field (set_to as_string) (field j ''stream_cipher'') (bcf_StreamCipher c),
      bcf_DefaultStreamConfig = apply_field patch_StreamConfig (field j ''default_stream_config'') (bcf_DefaultStreamConfig c)\<rparr>"

section \<open>Reading back\<close>

lemma map_of_filter_key: "map_of xs k = (case filter (\<lambda>y. fst y = k) xs of [] \<Rightarrow> None | y # _ \<Rightarrow> Some (snd y))"
  by (induction xs) auto

lemma map_of_sort_key_fst: "map_of (sort_key fst xs) k = map_of xs k"
  by (simp add: map_of_filter_key sort_key_stable)

lemma field_obj: "field (obj fs) k = map_option the (map_of (filter (\<lambda>(k, v). v \<noteq> None) fs) k)"
  by (induction fs) (auto simp: obj_def)

lemma field_obj_Nil [simp]: "field (obj []) k = None"
  by (simp add: obj_def)

definition or_else :: "'a option \<Rightarrow> 'a option \<Rightarrow> 'a option" where
  "or_else v w = (case v of None \<Rightarrow> w | Some x \<Rightarrow> Some x)"

lemma or_else_None [simp]: "or_else v None = v"
  by (simp add: or_else_def split: option.split)

lemma field_obj_Cons [simp]:
  "k \<noteq> k' \<Longrightarrow> field (obj ((k', v) # fs)) k = field (obj fs) k"
  "field (obj ((k, v) # fs)) k = or_else v (field (obj fs) k)"
  by (auto simp: field_obj or_else_def split: option.splits)

lemma field_map_obj [simp]: "field (map_obj fs) k = field (obj fs) k"
  by (simp add: map_obj_def field_obj filter_sort map_of_sort_key_fst)

lemma JInt_not_null [simp]: "JInt n \<noteq> JNull" "obj fs \<noteq> JNull" "map_obj fs \<noteq> JNull"
  by (simp_all add: JInt_def obj_def map_obj_def)

lemma as_int_JInt [simp]: "as_int (JInt n) = n"
  by (simp add: JInt_def float_trunc_def)

lemma as_comp [simp]: "as_int \<circ> JInt = id" "as_string \<circ> JString = id" "as_bool \<circ> JBool = id"
  by auto

lemma map_option_unit: "map_option ((\<lambda>_. ()) \<circ> f) v = v"
  by (cases v) auto

lemma read_json_DeleteOnEmptyConfig [simp]: "read_DeleteOnEmptyConfig (json_DeleteOnEmptyConfig c) = c"
  by (cases c) (simp add: read_DeleteOnEmptyConfig_def json_DeleteOnEmptyConfig_def option.map_comp option.map_id)

lemma read_json_RetentionPolicy [simp]: "read_RetentionPolicy (json_RetentionPolicy p) = p"
  by (cases p) (simp add: read_RetentionPolicy_def json_RetentionPolicy_def option.map_comp option.map_id map_option_unit)

lemma read_json_TimestampingConfig [simp]: "read_TimestampingConfig (json_TimestampingConfig c) = c"
  by (cases c) (simp add: read_TimestampingConfig_def json_TimestampingConfig_def option.map_comp option.map_id)

lemma read_comp [simp]:
  "read_DeleteOnEmptyConfig \<circ> json_DeleteOnEmptyConfig = id" "read_RetentionPolicy \<circ> json_RetentionPolicy = id"
  "read_TimestampingConfig \<circ> json_TimestampingConfig = id"
  by auto

lemma read_json_StreamConfig [simp]: "read_StreamConfig (json_StreamConfig c) = c"
  by (cases c) (simp add: read_StreamConfig_def json_StreamConfig_def option.map_comp option.map_id)

lemma read_comp_StreamConfig [simp]: "read_StreamConfig \<circ> json_StreamConfig = id"
  by auto

text \<open>C35: Encoding a basin configuration for a request loses nothing: a reader of the JSON object gets back every field, unset
  fields, the nested default stream configuration and the marker of infinite retention (an empty object) included.\<close>

theorem json_BasinConfig_roundtrip: "read_BasinConfig (json_BasinConfig c) = c"
  by (cases c) (simp add: read_BasinConfig_def json_BasinConfig_def option.map_comp option.map_id)

section \<open>What a reconfiguration asks for\<close>

text \<open>The documented meaning: a \<open>Clear\<close> flag takes precedence, an unset field keeps what there is.\<close>

definition reconf :: "bool \<Rightarrow> 'a option \<Rightarrow> 'a option \<Rightarrow> 'a option" where
  "reconf clear v old = (if clear then None else case v of None \<Rightarrow> old | Some x \<Rightarrow> Some x)"

definition reconf_nested :: "bool \<Rightarrow> ('r \<Rightarrow> 'a \<Rightarrow> 'a) \<Rightarrow> 'a \<Rightarrow> 'r option \<Rightarrow> 'a option \<Rightarrow> 'a option" where
  "reconf_nested clear f zero v old =
     (if clear then None else case v of None \<Rightarrow> old | Some r \<Rightarrow> Some (f r (case old of None \<Rightarrow> zero | Some c \<Rightarrow> c)))"

definition reconf_DeleteOnEmpty :: "DeleteOnEmptyReconfiguration \<Rightarrow> DeleteOnEmptyConfig \<Rightarrow> DeleteOnEmptyConfig" where
  "reconf_DeleteOnEmpty r c = \<lparr>doe_MinAgeSecs = reconf (der_ClearMinAgeSecs r) (der_MinAgeSecs r) (doe_MinAgeSecs c)\<rparr>"

definition reconf_Timestamping :: "TimestampingReconfiguration \<Rightarrow> TimestampingConfig \<Rightarrow> TimestampingConfig" where
  "reconf_Timestamping r c =
     \<lparr>tc_Mode = reconf (tsr_ClearMode r) (tsr_Mode r) (tc_Mode c),
      tc_Uncapped = reconf (tsr_ClearUncapped r) (tsr_Uncapped r) (tc_Uncapped c)\<rparr>"

definition reconf_StreamConfig :: "StreamReconfiguration \<Rightarrow> StreamConfig \<Rightarrow> StreamConfig" where
  "reconf_StreamConfig r c =
     \<lparr>sc_DeleteOnEmpty = reconf_nested (srf_ClearDeleteOnEmpty r) reconf_DeleteOnEmpty \<lparr>doe_MinAgeSecs = None\<rparr>
        (srf_DeleteOnEmpty r) (sc_DeleteOnEmpty c),
      sc_RetentionPolicy = reconf (srf_ClearRetentionPolicy r) (srf_RetentionPolicy r) (sc_RetentionPolicy c),
      sc_StorageClass = reconf (srf_ClearStorageClass r) (srf_StorageClass r) (sc_StorageClass c),
      sc_Timestamping = reconf_nested (srf_ClearTimestamping r) reconf_Timestamping \<lparr>tc_Mode = None, tc_Uncapped = None\<rparr>
        (srf_Timestamping r) (sc_Timestamping c)\<rparr>"

definition reconf_BasinConfig :: "BasinReconfiguration \<Rightarrow> BasinConfig \<Rightarrow> BasinConfig" where
  "reconf_BasinConfig r c =
     \<lparr>bcf_CreateStreamOnAppend = reconf False (brf_CreateStreamOnAppend r) (bcf_CreateStreamOnAppend c),
      bcf_CreateStreamOnRead = reconf False (brf_CreateStreamOnRead r) (bcf_CreateStreamOnRead c),
      bcf_StreamCipher = reconf (brf_ClearStreamCipher r) (brf_StreamCipher r) (bcf_StreamCipher c),
      bcf_DefaultStreamConfig = reconf_nested (brf_ClearDefaultStreamConfig r) reconf_StreamConfig zero_StreamConfig
        (brf_DefaultStreamConfig r) (bcf_DefaultStreamConfig c)\<rparr>"

lemma apply_patch_field:
  assumes "\<And>x. v = Some x \<Longrightarrow> enc x \<noteq> JNull \<and> put (enc x) old = Some (f x)"
  shows "apply_field put (patch_field clear enc v) old = (if clear then None else case v of None \<Rightarrow> old | Some x \<Rightarrow> Some (f x))"
  using assms by (cases v) (auto simp: apply_field_def patch_field_def split: json_value.splits)

lemma apply_set_field:
  assumes "\<And>x. enc x \<noteq> JNull" "\<And>x. dec (enc x) = x"
  shows "apply_field (set_to dec) (patch_field clear enc v) old = reconf clear v old"
  unfolding reconf_def using assms by (subst apply_patch_field [where f = "\<lambda>x. x"]) (auto simp: set_to_def)

lemma map_option_patch_field: "map_option enc v = patch_field False enc v"
  by (simp add: patch_field_def)

lemma patch_DeleteOnEmpty_json:
  "patch_DeleteOnEmpty (json_DeleteOnEmptyReconfiguration r) old =
     Some (reconf_DeleteOnEmpty r (case old of None \<Rightarrow> \<lparr>doe_MinAgeSecs = None\<rparr> | Some c \<Rightarrow> c))"
  by (simp add: patch_DeleteOnEmpty_def json_DeleteOnEmptyReconfiguration_def reconf_DeleteOnEmpty_def apply_set_field Let_def)

lemma patch_Timestamping_json:
  "patch_Timestamping (json_TimestampingReconfiguration r) old =
     Some (reconf_Timestamping r (case old of None \<Rightarrow> \<lparr>tc_Mode = None, tc_Uncapped = None\<rparr> | Some c \<Rightarrow> c))"
  by (simp add: patch_Timestamping_def json_TimestampingReconfiguration_def reconf_Timestamping_def apply_set_field Let_def)

lemma json_not_null [simp]:
  "json_RetentionPolicy p \<noteq> JNull" "json_DeleteOnEmptyReconfiguration d \<noteq> JNull"
  "json_TimestampingReconfiguration t \<noteq> JNull" "json_StreamReconfiguration s \<noteq> JNull"
  by (simp_all add: json_RetentionPolicy_def json_DeleteOnEmptyReconfiguration_def json_TimestampingReconfiguration_def
      json_StreamReconfiguration_def)

lemma apply_nested_field:
  assumes "\<And>x. enc x \<noteq> JNull"
      and "\<And>x. put (enc x) old = Some (f x (case old of None \<Rightarrow> zero | Some c \<Rightarrow> c))"
  shows "apply_field put (patch_field clear enc v) old = reconf_nested clear f zero v old"
  unfolding reconf_nested_def using assms by (subst apply_patch_field) auto

lemma patch_StreamConfig_json:
  "patch_StreamConfig (json_StreamReconfiguration r) old =
     Some (reconf_StreamConfig r (case old of None \<Rightarrow> zero_StreamConfig | Some c \<Rightarrow> c))"
  by (simp add: patch_StreamConfig_def json_StreamReconfiguration_def reconf_StreamConfig_def Let_def apply_set_field
      apply_nested_field patch_DeleteOnEmpty_json patch_Timestamping_json)

text \<open>C34: The JSON that a basin reconfiguration is encoded to says exactly what its documentation says.  Read as a patch (an
  absent field keeps the current value, \<open>null\<close> clears it, any other value replaces it), on every current configuration it keeps
  the unset fields, sets the set ones and clears those whose \<open>Clear\<close> flag is set, the flag taking precedence over a value; and
  it does so at each level of the nested stream, delete-on-empty and timestamping reconfigurations.\<close>

theorem json_reconfiguration_patch:
  "patch_BasinConfig (json_BasinReconfiguration r) c = reconf_BasinConfig r c"
  by (simp add: patch_BasinConfig_def json_BasinReconfiguration_def reconf_BasinConfig_def map_option_patch_field apply_set_field
      apply_nested_field patch_StreamConfig_json)

end
