(* ===== verification/Pager.thy ===== *)
theory Pager
  imports Json_Args Retry
begin

text \<open>
  Iteration over listings (\<open>src/s2/iterator.go\<close> and the \<open>Iter\<close> methods of \<open>basins.go\<close>, \<open>streams.go\<close>,
  \<open>access_tokens.go\<close>): a pager fetches the next page when the values of the last one are used up.  The loop of \<open>Next\<close> goes
  on while pages are empty, so it is a \<open>partial_function\<close>; \<open>None\<close> stands for not returning and for a panic.  \<open>pg_calls\<close>
  counts the fetches, as the answer to a fetch may depend on when it is made.
\<close>

section \<open>The pager\<close>

record 'a pagedResponse =
  pr_items :: "'a list"
  pr_nextKey :: string

type_synonym 'a fetch = "nat \<Rightarrow> string \<Rightarrow> (goerr + 'a pagedResponse) option"

record 'a pager =
  pg_startAfter :: string
  pg_done :: bool
  pg_values :: "'a list"
  pg_err :: "goerr option"
  pg_calls :: nat

definition newPager :: "'a pager" where
  "newPager = \<lparr>pg_startAfter = '''', pg_done = False, pg_values = [], pg_err = None, pg_calls = 0\<rparr>"

definition take_page :: "'a pagedResponse \<Rightarrow> 'a pager \<Rightarrow> 'a pager" where
  "take_page resp p =
     (let p = p\<lparr>pg_values := pr_items resp\<rparr> in
      if pr_nextKey resp = '''' then p\<lparr>pg_done := True\<rparr> else p\<lparr>pg_startAfter := pr_nextKey resp\<rparr>)"

partial_function (option) Next_fetch :: "'a fetch \<Rightarrow> 'a pager \<Rightarrow> (bool \<times> 'a pager) option" where
  "Next_fetch fetch p =
     (if pg_values p = [] \<and> \<not> pg_done p \<and> pg_err p = None then
        (case fetch (pg_calls p) (pg_startAfter p) of
           None \<Rightarrow> None
         | Some (Inl err) \<Rightarrow> Some (False, p\<lparr>pg_err := Some err, pg_calls := Suc (pg_calls p)\<rparr>)
         | Some (Inr resp) \<Rightarrow> Next_fetch fetch (take_page resp (p\<lparr>pg_calls := Suc (pg_calls p)\<rparr>)))
      else Some (pg_values p \<noteq> [], p))"

definition pager_Next :: "'a fetch \<Rightarrow> 'a pager \<Rightarrow> (bool \<times> 'a pager) option" where
  "pager_Next fetch p =
     (if pg_done p \<and> pg_values p = [] then Some (False, p)
      else
        let p = (if pg_values p \<noteq> [] then p\<lparr>pg_values := tl (pg_values p)\<rparr> else p)
        in Next_fetch fetch p)"

definition pager_Value :: "'a \<Rightarrow> 'a pager \<Rightarrow> 'a" where
  "pager_Value zero p = (case pg_values p of [] \<Rightarrow> zero | v # _ \<Rightarrow> v)"

definition pager_Err :: "'a pager \<Rightarrow> goerr option" where
  "pager_Err p = pg_err p"

section \<open>Listings\<close>

record ListBasinsArgs =
  lb_Prefix :: string
  lb_StartAfter :: string
  lb_Limit :: "int option"
  lb_IncludeDeleted :: bool

record ListBasinsResponse =
  lbr_Basins :: "BasinInfo list"
  lbr_HasMore :: bool

record ListStreamsArgs =
  ls_Prefix :: string
  ls_StartAfter :: string
  ls_Limit :: "int option"
  ls_IncludeDeleted :: bool

record ListStreamsResponse =
  lsr_Streams :: "StreamInfo list"
  lsr_HasMore :: bool

record ListAccessTokensArgs =
  lat_Prefix :: string
  lat_StartAfter :: string
  lat_Limit :: "int option"

record ListAccessTokensResponse =
  latr_AccessTokens :: "AccessTokenInfo list"
  latr_HasMore :: bool

definition zero_ListBasinsArgs :: ListBasinsArgs where
  "zero_ListBasinsArgs = \<lparr>lb_Prefix = '''', lb_StartAfter = '''', lb_Limit = None, lb_IncludeDeleted = False\<rparr>"

definition zero_ListStreamsArgs :: ListStreamsArgs where
  "zero_ListStreamsArgs = \<lparr>ls_Prefix = '''', ls_StartAfter = '''', ls_Limit = None, ls_IncludeDeleted = False\<rparr>"

definition zero_ListAccessTokensArgs :: ListAccessTokensArgs where
  "zero_ListAccessTokensArgs = \<lparr>lat_Prefix = '''', lat_StartAfter = '''', lat_Limit = None\<rparr>"

text \<open>The key of the next page, and the result of a call of \<open>List\<close> turned into a page; a nil response is dereferenced.\<close>

definition next_key :: "bool \<Rightarrow> ('a \<Rightarrow> string) \<Rightarrow> 'a list \<Rightarrow> string" where
  "next_key hasMore key items = (if hasMore \<and> length items > 0 then key (last items) else '''')"

definition with_page :: "'r retry_outcome \<Rightarrow> ('r \<Rightarrow> 'a pagedResponse) \<Rightarrow> (goerr + 'a pagedResponse) option" where
  "with_page out page = (case ro_result out of
     None \<Rightarrow> None
   | Some (Inl err) \<Rightarrow> Some (Inl err)
   | Some (Inr None) \<Rightarrow> None
   | Some (Inr (Some resp)) \<Rightarrow> Some (Inr (page resp)))"

text \<open>\<open>list n\<close> is the method \<open>List\<close> at the \<open>n\<close>-th fetch.\<close>

definition fetch_basins :: "(nat \<Rightarrow> ListBasinsArgs \<Rightarrow> ListBasinsResponse retry_outcome) \<Rightarrow> ListBasinsArgs option \<Rightarrow> BasinInfo fetch" where
  "fetch_basins list args n startAfter =
     (let base = (case args of None \<Rightarrow> zero_ListBasinsArgs | Some a \<Rightarrow> a);
          params = base\<lparr>lb_StartAfter := startAfter\<rparr>
      in with_page (list n params) (\<lambda>resp.
           \<lparr>pr_items = (if \<not> lb_IncludeDeleted base then filter (\<lambda>basin. bi_DeletedAt basin = None) (lbr_Basins resp)
              else lbr_Basins resp),
            pr_nextKey = next_key (lbr_HasMore resp) bi_Name (lbr_Basins resp)\<rparr>))"

definition Iter_basins :: "ListBasinsArgs option \<Rightarrow> BasinInfo pager" where
  "Iter_basins args = (case args of None \<Rightarrow> newPager | Some a \<Rightarrow> newPager\<lparr>pg_startAfter := lb_StartAfter a\<rparr>)"

definition fetch_streams :: "(nat \<Rightarrow> ListStreamsArgs \<Rightarrow> ListStreamsResponse retry_outcome) \<Rightarrow> ListStreamsArgs option \<Rightarrow> StreamInfo fetch" where
  "fetch_streams list args n startAfter =
     (let base = (case args of None \<Rightarrow> zero_ListStreamsArgs | Some a \<Rightarrow> a);
          params = base\<lparr>ls_StartAfter := startAfter\<rparr>
      in with_page (list n params) (\<lambda>resp.
           \<lparr>pr_items = (if \<not> ls_IncludeDeleted base then filter (\<lambda>stream. sti_DeletedAt stream = None) (lsr_Streams resp)
              else lsr_Streams resp),
            pr_nextKey = next_key (lsr_HasMore resp) sti_Name (lsr_Streams resp)\<rparr>))"

definition Iter_streams :: "ListStreamsArgs option \<Rightarrow> StreamInfo pager" where
  "Iter_streams args = (case args of None \<Rightarrow> newPager | Some a \<Rightarrow> newPager\<lparr>pg_startAfter := ls_StartAfter a\<rparr>)"

definition fetch_tokens ::
    "(nat \<Rightarrow> ListAccessTokensArgs \<Rightarrow> ListAccessTokensResponse retry_outcome) \<Rightarrow> ListAccessTokensArgs option \<Rightarrow> AccessTokenInfo fetch" where
  "fetch_tokens list args n startAfter =
     (let base = (case args of None \<Rightarrow> zero_ListAccessTokensArgs | Some a \<Rightarrow> a);
          params = base\<lparr>lat_StartAfter := startAfter\<rparr>
      in with_page (list n params) (\<lambda>resp.
           \<lparr>pr_items = latr_AccessTokens resp,
            pr_nextKey = next_key (latr_HasMore resp) ati_ID (latr_AccessTokens resp)\<rparr>))"

definition Iter_tokens :: "ListAccessTokensArgs option \<Rightarrow> AccessTokenInfo pager" where
  "Iter_tokens args = (case args of None \<Rightarrow> newPager | Some a \<Rightarrow> newPager\<lparr>pg_startAfter := lat_StartAfter a\<rparr>)"

section \<open>The loop of a caller\<close>

text \<open>\<open>for it.Next() { use(it.Value()) }\<close>, for at most \<open>k\<close> values: the values, whether \<open>Next\<close> returned false, the state.\<close>

fun drain :: "'a fetch \<Rightarrow> 'a \<Rightarrow> nat \<Rightarrow> 'a pager \<Rightarrow> ('a list \<times> bool \<times> 'a pager) option" where
  "drain fetch zero 0 p = Some ([], False, p)"
| "drain fetch zero (Suc k) p = (case pager_Next fetch p of
     None \<Rightarrow> None
   | Some (False, p) \<Rightarrow> Some ([], True, p)
   | Some (True, p) \<Rightarrow> map_option (\<lambda>(vs, stopped, p'). (pager_Value zero p # vs, stopped, p')) (drain fetch zero k p))"

section \<open>Honest listings\<close>

text \<open>A page of a listing: the items after \<open>startAfter\<close> from the first on; there are more items exactly when it says so, and
  then the page is not empty.\<close>

definition honest_page :: "('a \<Rightarrow> string) \<Rightarrow> 'a list \<Rightarrow> string \<Rightarrow> string \<Rightarrow> 'a list \<Rightarrow> bool \<Rightarrow> bool" where
  "honest_page key items pre startAfter page hasMore \<longleftrightarrow>
     (\<exists>rest. filter (\<lambda>x. take (length pre) (key x) = pre \<and> startAfter < key x) items = page @ rest \<and>
        (hasMore \<longleftrightarrow> rest \<noteq> []) \<and> (rest \<noteq> [] \<longrightarrow> page \<noteq> []))"

definition ordered_listing :: "('a \<Rightarrow> string) \<Rightarrow> 'a list \<Rightarrow> bool" where
  "ordered_listing key items \<longleftrightarrow> sorted_wrt (\<lambda>x y. key x < key y) items \<and> list_all (\<lambda>x. key x \<noteq> '''') items"

definition honest_result :: "'r retry_outcome \<Rightarrow> ('r \<Rightarrow> bool) \<Rightarrow> bool" where
  "honest_result out ok = (case ro_result out of Some (Inl _) \<Rightarrow> True | Some (Inr (Some r)) \<Rightarrow> ok r | _ \<Rightarrow> False)"

definition honest_basins :: "(nat \<Rightarrow> ListBasinsArgs \<Rightarrow> ListBasinsResponse retry_outcome) \<Rightarrow> BasinInfo list \<Rightarrow> bool" where
  "honest_basins list items \<longleftrightarrow> ordered_listing bi_Name items \<and> (\<forall>n args. honest_result (list n args)
     (\<lambda>r. honest_page bi_Name items (lb_Prefix args) (lb_StartAfter args) (lbr_Basins r) (lbr_HasMore r)))"

definition honest_streams :: "(nat \<Rightarrow> ListStreamsArgs \<Rightarrow> ListStreamsResponse retry_outcome) \<Rightarrow> StreamInfo list \<Rightarrow> bool" where
  "honest_streams list items \<longleftrightarrow> ordered_listing sti_Name items \<and> (\<forall>n args. honest_result (list n args)
     (\<lambda>r. honest_page sti_Name items (ls_Prefix args) (ls_StartAfter args) (lsr_Streams r) (lsr_HasMore r)))"

definition honest_tokens ::
    "(nat \<Rightarrow> ListAccessTokensArgs \<Rightarrow> ListAccessTokensResponse retry_outcome) \<Rightarrow> AccessTokenInfo list \<Rightarrow> bool" where
  "honest_tokens list items \<longleftrightarrow> ordered_listing ati_ID items \<and> (\<forall>n args. honest_result (list n args)
     (\<lambda>r. honest_page ati_ID items (lat_Prefix args) (lat_StartAfter args) (latr_AccessTokens r) (latr_HasMore r)))"

section \<open>The contract of a page source\<close>

text \<open>\<open>q\<close> are the arguments of \<open>Iter\<close>, \<open>matching q\<close> the items it asks for and \<open>keep q\<close> those it does not leave out.\<close>

locale page_source =
  fixes fetch :: "'l \<Rightarrow> 'q \<Rightarrow> 'a fetch"
    and honest :: "'l \<Rightarrow> 'a list \<Rightarrow> bool"
    and key :: "'a \<Rightarrow> string"
    and matching :: "'q \<Rightarrow> 'a \<Rightarrow> bool"
    and keep :: "'q \<Rightarrow> 'a \<Rightarrow> bool"
  assumes ordered: "honest l items \<Longrightarrow> ordered_listing key items"
    and fetch_returns: "honest l items \<Longrightarrow> \<exists>r. fetch l q n s = Some r"
    and fetch_page: "honest l items \<Longrightarrow> fetch l q n s = Some (Inr resp) \<Longrightarrow>
      \<exists>page rest. filter (\<lambda>x. matching q x \<and> s < key x) items = page @ rest \<and> pr_items resp = filter (keep q) page \<and>
        pr_nextKey resp = (if rest = [] then '''' else key (last page)) \<and> (rest \<noteq> [] \<longrightarrow> page \<noteq> [])"
begin

definition remaining_items :: "'q \<Rightarrow> 'a list \<Rightarrow> string \<Rightarrow> 'a list" where
  "remaining_items q items s = filter (\<lambda>x. matching q x \<and> s < key x) items"

definition left_over :: "'q \<Rightarrow> 'a list \<Rightarrow> 'a pager \<Rightarrow> 'a list" where
  "left_over q items p = pg_values p @ (if pg_done p then [] else filter (keep q) (remaining_items q items (pg_startAfter p)))"

lemma remaining_after:
  assumes "ordered_listing key items" "remaining_items q items s = page @ rest" "page \<noteq> []"
  shows "remaining_items q items (key (last page)) = rest"
proof -
  let ?k = "key (last page)"
  have srt: "sorted_wrt (\<lambda>x y. key x < key y) (page @ rest)"
    using assms(1,2) unfolding ordered_listing_def remaining_items_def by (metis sorted_wrt_filter)
  have "last page \<in> set (page @ rest)" using assms(3) by simp
  then have s: "s < ?k" unfolding assms(2) [symmetric] remaining_items_def by simp
  have "remaining_items q items ?k = filter (\<lambda>x. ?k < key x) (remaining_items q items s)"
    using s by (auto simp: remaining_items_def intro!: filter_cong)
  also have "\<dots> = filter (\<lambda>x. ?k < key x) page @ filter (\<lambda>x. ?k < key x) rest" by (simp add: assms(2))
  also have "filter (\<lambda>x. ?k < key x) rest = rest"
    using srt assms(3) by (auto simp: sorted_wrt_append intro!: filter_True)
  also have "filter (\<lambda>x. ?k < key x) page = []"
  proof -
    obtain init where page: "page = init @ [last page]" using assms(3) by (metis append_butlast_last_id)
    then have "sorted_wrt (\<lambda>x y. key x < key y) (init @ [last page])" using srt by (metis sorted_wrt_append)
    then have "x \<in> set page \<Longrightarrow> key x \<le> ?k" for x by (subst (asm) page) (auto simp: sorted_wrt_append)
    then show ?thesis by (fastforce simp: filter_empty_conv)
  qed
  finally show ?thesis by simp
qed

lemma take_page_left:
  assumes "honest l items" "fetch l q n (pg_startAfter p) = Some (Inr resp)" "pg_values p = []" "\<not> pg_done p"
  shows "left_over q items (take_page resp p) = left_over q items p"
    "pg_done (take_page resp p) \<or> length (remaining_items q items (pg_startAfter (take_page resp p))) <
       length (remaining_items q items (pg_startAfter p))"
proof -
  note ord = ordered [OF assms(1)]
  obtain page rest where pr: "remaining_items q items (pg_startAfter p) = page @ rest" "pr_items resp = filter (keep q) page"
    "pr_nextKey resp = (if rest = [] then '''' else key (last page))" "rest \<noteq> [] \<Longrightarrow> page \<noteq> []"
    using fetch_page [OF assms(1,2)] unfolding remaining_items_def by blast
  have nk: "key (last page) \<noteq> ''''" if "rest \<noteq> []"
  proof -
    have "last page \<in> set (page @ rest)" using pr(4) that by simp
    then have "last page \<in> set items" unfolding pr(1) [symmetric] remaining_items_def by simp
    then show ?thesis using ord by (auto simp: ordered_listing_def list_all_iff)
  qed
  have after: "rest \<noteq> [] \<Longrightarrow> remaining_items q items (key (last page)) = rest" using remaining_after [OF ord pr(1)] pr(4) by blast
  show "left_over q items (take_page resp p) = left_over q items p"
    using pr nk after assms(3,4) by (cases "rest = []") (auto simp: left_over_def take_page_def Let_def)
  show "pg_done (take_page resp p) \<or> length (remaining_items q items (pg_startAfter (take_page resp p))) <
       length (remaining_items q items (pg_startAfter p))"
    using pr nk after by (cases "rest = []") (auto simp: take_page_def Let_def)
qed

lemma take_page_simps [simp]:
  "pg_err (take_page resp p) = pg_err p" "pg_calls (take_page resp p) = pg_calls p"
  by (simp_all add: take_page_def Let_def)

text \<open>\<open>Next\<close> returns; without an error it loses nothing, and it reports a value exactly when one is left.\<close>

lemma Next_fetch_returns:
  assumes "honest l items" "pg_err p = None"
  shows "\<exists>b p'. Next_fetch (fetch l q) p = Some (b, p') \<and> (b \<longleftrightarrow> pg_values p' \<noteq> []) \<and>
    (b \<longrightarrow> pg_err p' = None) \<and> (pg_err p' = None \<longrightarrow> left_over q items p' = left_over q items p \<and> (b \<longleftrightarrow> left_over q items p \<noteq> []))"
  using assms(2)
proof (induction "length (remaining_items q items (pg_startAfter p))" arbitrary: p rule: less_induct)
  case less
  show ?case
  proof (cases "pg_values p = [] \<and> \<not> pg_done p")
    case False
    then show ?thesis using less.prems by (subst Next_fetch.simps) (auto simp: left_over_def)
  next
    case True
    let ?p = "p\<lparr>pg_calls := Suc (pg_calls p)\<rparr>"
    obtain r where r: "fetch l q (pg_calls p) (pg_startAfter p) = Some r" using fetch_returns [OF assms(1)] by blast
    show ?thesis
    proof (cases r)
      case (Inl err)
      then show ?thesis using r True less.prems by (subst Next_fetch.simps) auto
    next
      case (Inr resp)
      have step: "Next_fetch (fetch l q) p = Next_fetch (fetch l q) (take_page resp ?p)"
        using r True Inr less.prems by (subst Next_fetch.simps) simp
      have f: "fetch l q (pg_calls p) (pg_startAfter ?p) = Some (Inr resp)" using r Inr by simp
      note tp = take_page_left [OF assms(1) f]
      have left: "left_over q items (take_page resp ?p) = left_over q items p"
        using tp(1) True by (simp add: left_over_def)
      show ?thesis
      proof (cases "pg_done (take_page resp ?p)")
        case True
        then show ?thesis unfolding step using less.prems left
          by (subst (1) Next_fetch.simps) (auto simp: left_over_def)
      next
        case False
        then have "length (remaining_items q items (pg_startAfter (take_page resp ?p))) < length (remaining_items q items (pg_startAfter p))"
          using tp(2) True by simp
        from less.hyps [OF this] less.prems show ?thesis unfolding step by (simp add: left)
      qed
    qed
  qed
qed

text \<open>What the loop has still to return: the first value of the pager, if there is one, was returned before.\<close>

definition ahead :: "'q \<Rightarrow> 'a list \<Rightarrow> 'a pager \<Rightarrow> 'a list" where
  "ahead q items p = (if pg_values p = [] then left_over q items p else tl (left_over q items p))"

lemma pager_Next_returns:
  assumes "honest l items" "pg_err p = None"
  shows "\<exists>b p'. pager_Next (fetch l q) p = Some (b, p') \<and> (b \<longleftrightarrow> pg_values p' \<noteq> []) \<and> (b \<longrightarrow> pg_err p' = None) \<and>
    (pg_err p' = None \<longrightarrow> left_over q items p' = ahead q items p \<and>
       (b \<longleftrightarrow> left_over q items p' \<noteq> []))"
proof (cases "pg_done p \<and> pg_values p = []")
  case True
  then show ?thesis using assms(2) by (auto simp: pager_Next_def left_over_def ahead_def)
next
  case False
  let ?p = "if pg_values p \<noteq> [] then p\<lparr>pg_values := tl (pg_values p)\<rparr> else p"
  have "left_over q items ?p = ahead q items p"
    by (cases "pg_values p") (auto simp: left_over_def ahead_def)
  moreover have "pg_err ?p = None" using assms(2) by simp
  ultimately show ?thesis
    using Next_fetch_returns [OF assms(1), of ?p q] False by (auto simp: pager_Next_def Let_def)
qed

text \<open>From a state whose first value has been used, the loop returns what is left, from the first on, and stops early only
  with an error.\<close>

lemma drain_returns:
  assumes "honest l items" "pg_err p = None"
  shows "\<exists>vs stopped p'. drain (fetch l q) zero k p = Some (vs, stopped, p') \<and> take (length vs) (ahead q items p) = vs \<and>
    (if stopped then pg_err p' \<noteq> None \<or> vs = ahead q items p else length vs = k \<and> pg_err p' = None)"
  using assms(2)
proof (induction k arbitrary: p)
  case (Suc k)
  obtain b p' where n: "pager_Next (fetch l q) p = Some (b, p')" "b \<longleftrightarrow> pg_values p' \<noteq> []" "b \<longrightarrow> pg_err p' = None"
    "pg_err p' = None \<longrightarrow> left_over q items p' = ahead q items p \<and>
       (b \<longleftrightarrow> left_over q items p' \<noteq> [])"
    using pager_Next_returns [OF assms(1) Suc.prems, of q] by (elim exE conjE) (rule that; assumption)
  show ?case
  proof (cases b)
    case False
    then have "pg_err p' \<noteq> None \<or> [] = ahead q items p" "pager_Next (fetch l q) p = Some (False, p')" using n(1,4) by auto
    then show ?thesis by (intro exI [of _ "[]"] exI [of _ True] exI [of _ p']) simp
  next
    case True
    then obtain v rest where v: "pg_values p' = v # rest" using n(2) by (cases "pg_values p'") auto
    have left: "left_over q items p' = v # ahead q items p'" using v by (simp add: left_over_def ahead_def)
    obtain vs stopped p'' where d: "drain (fetch l q) zero k p' = Some (vs, stopped, p'')"
      "take (length vs) (ahead q items p') = vs"
      "if stopped then pg_err p'' \<noteq> None \<or> vs = ahead q items p' else length vs = k \<and> pg_err p'' = None"
      using Suc.IH [OF n(3) [rule_format, OF True]] by blast
    have "drain (fetch l q) zero (Suc k) p = Some (v # vs, stopped, p'')" using n(1) True d(1) v by (simp add: pager_Value_def)
    moreover have "ahead q items p = v # ahead q items p'"
      using n(3,4) True left by simp
    ultimately show ?thesis using d(2,3) by (intro exI [of _ "v # vs"]) auto
  qed
qed auto

lemma drain_from:
  assumes "honest l items" "pg_err p = None" "pg_values p = []" "\<not> pg_done p" "pg_startAfter p = s"
  shows "\<exists>vs stopped p'. drain (fetch l q) zero k p = Some (vs, stopped, p') \<and>
    take (length vs) (filter (\<lambda>x. matching q x \<and> s < key x \<and> keep q x) items) = vs \<and>
    (if stopped then pager_Err p' \<noteq> None \<or> vs = filter (\<lambda>x. matching q x \<and> s < key x \<and> keep q x) items
     else length vs = k \<and> pager_Err p' = None)"
proof -
  have "ahead q items p = filter (\<lambda>x. matching q x \<and> s < key x \<and> keep q x) items"
    using assms(3-5) by (auto simp: ahead_def left_over_def remaining_items_def intro!: filter_cong)
  from drain_returns [OF assms(1,2), of q zero k, unfolded this] show ?thesis unfolding pager_Err_def .
qed

end

section \<open>The three iterators\<close>

text \<open>What the arguments ask for: names with the prefix, and no deleted ones unless they are included.\<close>

definition basins_matching :: "ListBasinsArgs option \<Rightarrow> BasinInfo \<Rightarrow> bool" where
  "basins_matching args b = (case args of None \<Rightarrow> True | Some a \<Rightarrow> take (length (lb_Prefix a)) (bi_Name b) = lb_Prefix a)"

definition basins_keep :: "ListBasinsArgs option \<Rightarrow> BasinInfo \<Rightarrow> bool" where
  "basins_keep args b \<longleftrightarrow> bi_DeletedAt b = None \<or> (\<exists>a. args = Some a \<and> lb_IncludeDeleted a)"

definition streams_matching :: "ListStreamsArgs option \<Rightarrow> StreamInfo \<Rightarrow> bool" where
  "streams_matching args s = (case args of None \<Rightarrow> True | Some a \<Rightarrow> take (length (ls_Prefix a)) (sti_Name s) = ls_Prefix a)"

definition streams_keep :: "ListStreamsArgs option \<Rightarrow> StreamInfo \<Rightarrow> bool" where
  "streams_keep args s \<longleftrightarrow> sti_DeletedAt s = None \<or> (\<exists>a. args = Some a \<and> ls_IncludeDeleted a)"

definition tokens_matching :: "ListAccessTokensArgs option \<Rightarrow> AccessTokenInfo \<Rightarrow> bool" where
  "tokens_matching args t = (case args of None \<Rightarrow> True | Some a \<Rightarrow> take (length (lat_Prefix a)) (ati_ID t) = lat_Prefix a)"

lemma with_page_Some: "honest_result out ok \<Longrightarrow> \<exists>r. with_page out page = Some r"
  by (auto simp: honest_result_def with_page_def split: option.splits sum.splits)

lemma with_page_Inr:
  "with_page out page = Some (Inr resp) \<Longrightarrow> honest_result out ok \<Longrightarrow> \<exists>r. resp = page r \<and> ok r"
  by (auto simp: honest_result_def with_page_def split: option.splits sum.splits)

lemma honest_pageE:
  assumes "honest_page key items pre s page hasMore" "\<And>x. m x \<longleftrightarrow> take (length pre) (key x) = pre"
  shows "\<exists>rest. filter (\<lambda>x. m x \<and> s < key x) items = page @ rest \<and> next_key hasMore key page = (if rest = [] then '''' else key (last page)) \<and>
    (rest \<noteq> [] \<longrightarrow> page \<noteq> [])"
  using assms by (auto simp: honest_page_def next_key_def)

interpretation basins: page_source fetch_basins honest_basins bi_Name basins_matching basins_keep
proof unfold_locales
  fix l items q n s resp
  assume h: "honest_basins l items" "fetch_basins l q n s = Some (Inr resp)"
  define base where "base = (case q of None \<Rightarrow> zero_ListBasinsArgs | Some a \<Rightarrow> a)"
  have m: "basins_matching q x \<longleftrightarrow> take (length (lb_Prefix base)) (bi_Name x) = lb_Prefix base" for x
    by (simp add: basins_matching_def base_def zero_ListBasinsArgs_def split: option.split)
  have k: "basins_keep q = (\<lambda>x. bi_DeletedAt x = None \<or> lb_IncludeDeleted base)"
    by (intro ext) (auto simp: basins_keep_def base_def zero_ListBasinsArgs_def split: option.split)
  have hr: "honest_result (l n (base\<lparr>lb_StartAfter := s\<rparr>))
      (\<lambda>r. honest_page bi_Name items (lb_Prefix base) s (lbr_Basins r) (lbr_HasMore r))"
    using h(1) unfolding honest_basins_def by (metis ListBasinsArgs.select_convs ListBasinsArgs.surjective ListBasinsArgs.update_convs(2))
  obtain r :: ListBasinsResponse where r: "resp = \<lparr>pr_items = (if \<not> lb_IncludeDeleted base then filter (\<lambda>basin. bi_DeletedAt basin = None) (lbr_Basins r)
      else lbr_Basins r), pr_nextKey = next_key (lbr_HasMore r) bi_Name (lbr_Basins r)\<rparr>"
    "honest_page bi_Name items (lb_Prefix base) s (lbr_Basins r) (lbr_HasMore r)"
    by (rule exE [OF with_page_Inr [OF h(2) [unfolded fetch_basins_def Let_def, folded base_def] hr]]) blast
  have "pr_items resp = filter (basins_keep q) (lbr_Basins r)" unfolding r(1) by (simp add: k)
  then show "\<exists>page rest. filter (\<lambda>x. basins_matching q x \<and> s < bi_Name x) items = page @ rest \<and>
      pr_items resp = filter (basins_keep q) page \<and> pr_nextKey resp = (if rest = [] then '''' else bi_Name (last page)) \<and>
      (rest \<noteq> [] \<longrightarrow> page \<noteq> [])"
    using honest_pageE [OF r(2) m] r(1) by (elim exE conjE, intro exI [of _ "lbr_Basins r"] exI) auto
qed (auto simp: honest_basins_def fetch_basins_def Let_def intro!: with_page_Some)

interpretation streams: page_source fetch_streams honest_streams sti_Name streams_matching streams_keep
proof unfold_locales
  fix l items q n s resp
  assume h: "honest_streams l items" "fetch_streams l q n s = Some (Inr resp)"
  define base where "base = (case q of None \<Rightarrow> zero_ListStreamsArgs | Some a \<Rightarrow> a)"
  have m: "streams_matching q x \<longleftrightarrow> take (length (ls_Prefix base)) (sti_Name x) = ls_Prefix base" for x
    by (simp add: streams_matching_def base_def zero_ListStreamsArgs_def split: option.split)
  have k: "streams_keep q = (\<lambda>x. sti_DeletedAt x = None \<or> ls_IncludeDeleted base)"
    by (intro ext) (auto simp: streams_keep_def base_def zero_ListStreamsArgs_def split: option.split)
  have hr: "honest_result (l n (base\<lparr>ls_StartAfter := s\<rparr>))
      (\<lambda>r. honest_page sti_Name items (ls_Prefix base) s (lsr_Streams r) (lsr_HasMore r))"
    using h(1) unfolding honest_streams_def by (auto dest!: spec [of _ n] spec [of _ "base\<lparr>ls_StartAfter := s\<rparr>"])
  obtain r :: ListStreamsResponse where r: "resp = \<lparr>pr_items = (if \<not> ls_IncludeDeleted base then filter (\<lambda>stream. sti_DeletedAt stream = None) (lsr_Streams r)
      else lsr_Streams r), pr_nextKey = next_key (lsr_HasMore r) sti_Name (lsr_Streams r)\<rparr>"
    "honest_page sti_Name items (ls_Prefix base) s (lsr_Streams r) (lsr_HasMore r)"
    by (rule exE [OF with_page_Inr [OF h(2) [unfolded fetch_streams_def Let_def, folded base_def] hr]]) blast
  have "pr_items resp = filter (streams_keep q) (lsr_Streams r)" unfolding r(1) by (simp add: k)
  then show "\<exists>page rest. filter (\<lambda>x. streams_matching q x \<and> s < sti_Name x) items = page @ rest \<and>
      pr_items resp = filter (streams_keep q) page \<and> pr_nextKey resp = (if rest = [] then '''' else sti_Name (last page)) \<and>
      (rest \<noteq> [] \<longrightarrow> page \<noteq> [])"
    using honest_pageE [OF r(2) m] r(1) by (elim exE conjE, intro exI [of _ "lsr_Streams r"] exI) auto
qed (auto simp: honest_streams_def fetch_streams_def Let_def intro!: with_page_Some)

interpretation tokens: page_source fetch_tokens honest_tokens ati_ID tokens_matching "\<lambda>_ _. True"
proof unfold_locales
  fix l items q n s resp
  assume h: "honest_tokens l items" "fetch_tokens l q n s = Some (Inr resp)"
  define base where "base = (case q of None \<Rightarrow> zero_ListAccessTokensArgs | Some a \<Rightarrow> a)"
  have m: "tokens_matching q x \<longleftrightarrow> take (length (lat_Prefix base)) (ati_ID x) = lat_Prefix base" for x
    by (simp add: tokens_matching_def base_def zero_ListAccessTokensArgs_def split: option.split)
  have hr: "honest_result (l n (base\<lparr>lat_StartAfter := s\<rparr>))
      (\<lambda>r. honest_page ati_ID items (lat_Prefix base) s (latr_AccessTokens r) (latr_HasMore r))"
    using h(1) unfolding honest_tokens_def by (auto dest!: spec [of _ n] spec [of _ "base\<lparr>lat_StartAfter := s\<rparr>"])
  obtain r :: ListAccessTokensResponse where r: "resp = \<lparr>pr_items = latr_AccessTokens r, pr_nextKey = next_key (latr_HasMore r) ati_ID (latr_AccessTokens r)\<rparr>"
    "honest_page ati_ID items (lat_Prefix base) s (latr_AccessTokens r) (latr_HasMore r)"
    by (rule exE [OF with_page_Inr [OF h(2) [unfolded fetch_tokens_def Let_def, folded base_def] hr]]) blast
  show "\<exists>page rest. filter (\<lambda>x. tokens_matching q x \<and> s < ati_ID x) items = page @ rest \<and>
      pr_items resp = filter (\<lambda>_. True) page \<and> pr_nextKey resp = (if rest = [] then '''' else ati_ID (last page)) \<and>
      (rest \<noteq> [] \<longrightarrow> page \<noteq> [])"
    using honest_pageE [OF r(2) m] r(1) by (elim exE conjE, intro exI [of _ "latr_AccessTokens r"] exI) auto
qed (auto simp: honest_tokens_def fetch_tokens_def Let_def intro!: with_page_Some)

lemmas newPager_simps = newPager_def Iter_basins_def Iter_streams_def Iter_tokens_def

text \<open>The access tokens of a listing; basins and streams leave out those being deleted.\<close>

lemma iter_tokens_all:
  assumes "honest_tokens list items"
  shows "\<exists>vs stopped p. drain (fetch_tokens list (Some a)) zero k (Iter_tokens (Some a)) = Some (vs, stopped, p) \<and>
    take (length vs) (filter (\<lambda>t. tokens_matching (Some a) t \<and> lat_StartAfter a < ati_ID t) items) = vs \<and>
    (if stopped then pager_Err p \<noteq> None \<or> vs = filter (\<lambda>t. tokens_matching (Some a) t \<and> lat_StartAfter a < ati_ID t) items
     else length vs = k \<and> pager_Err p = None)"
  using tokens.drain_from [OF assms, of "Iter_tokens (Some a)" "lat_StartAfter a" "Some a" zero k]
  by (simp only: newPager_simps option.case pager.simps simp_thms not_False_eq_True)

lemma iter_basins_all:
  assumes "honest_basins list items"
  shows "\<exists>vs stopped p. drain (fetch_basins list (Some a)) zero k (Iter_basins (Some a)) = Some (vs, stopped, p) \<and>
    take (length vs) (filter (\<lambda>b. basins_matching (Some a) b \<and> lb_StartAfter a < bi_Name b \<and> basins_keep (Some a) b) items) = vs \<and>
    (if stopped then pager_Err p \<noteq> None \<or>
       vs = filter (\<lambda>b. basins_matching (Some a) b \<and> lb_StartAfter a < bi_Name b \<and> basins_keep (Some a) b) items
     else length vs = k \<and> pager_Err p = None)"
  by (rule basins.drain_from [OF assms]) (simp_all add: newPager_simps)

text \<open>Iterating over the streams of a basin returns every matching stream once, in the order of the names, whatever the size of
  the pages and also when whole pages hold nothing but streams being deleted.  For a listing whose pages are honest and whose
  calls may fail, the loop of a caller always gets an answer from \<open>Next\<close> (it does not loop for ever and does not panic), what
  it has seen after any number of calls is the first part of the streams that have the prefix, come after \<open>StartAfter\<close> and are
  not being deleted (unless those are included), and it ends either with an error or after the last of them.\<close>

theorem iter_streams_all:
  assumes "honest_streams list items"
  shows "\<exists>vs stopped p. drain (fetch_streams list (Some a)) zero k (Iter_streams (Some a)) = Some (vs, stopped, p) \<and>
    take (length vs) (filter (\<lambda>s. streams_matching (Some a) s \<and> ls_StartAfter a < sti_Name s \<and> streams_keep (Some a) s) items) = vs \<and>
    (if stopped then pager_Err p \<noteq> None \<or>
       vs = filter (\<lambda>s. streams_matching (Some a) s \<and> ls_StartAfter a < sti_Name s \<and> streams_keep (Some a) s) items
     else length vs = k \<and> pager_Err p = None)"
  by (rule streams.drain_from [OF assms]) (simp_all add: newPager_simps)

section \<open>Witness\<close>

definition demo_stream :: "string \<Rightarrow> bool \<Rightarrow> StreamInfo" where
  "demo_stream name deleted =
     \<lparr>sti_Name = name, sti_CreatedAt = 0, sti_DeletedAt = (if deleted then Some 0 else None), sti_Cipher = None\<rparr>"

definition demo_items :: "StreamInfo list" where
  "demo_items = [demo_stream ''a1'' True, demo_stream ''a2'' False, demo_stream ''b1'' False]"

text \<open>A server with one stream per page.\<close>

definition demo_list :: "nat \<Rightarrow> ListStreamsArgs \<Rightarrow> ListStreamsResponse retry_outcome" where
  "demo_list n args =
     (let m = filter (\<lambda>s. take (length (ls_Prefix args)) (sti_Name s) = ls_Prefix args \<and> ls_StartAfter args < sti_Name s) demo_items
      in retry_return (Inr (Some \<lparr>lsr_Streams = take 1 m, lsr_HasMore = (1 < length m)\<rparr>)) 1)"

lemma demo_list_honest: "honest_streams demo_list demo_items"
proof -
  have "ordered_listing sti_Name demo_items" by (simp add: ordered_listing_def demo_items_def demo_stream_def)
  moreover have "honest_result (demo_list n args)
     (\<lambda>r. honest_page sti_Name demo_items (ls_Prefix args) (ls_StartAfter args) (lsr_Streams r) (lsr_HasMore r))" for n args
    unfolding demo_list_def Let_def honest_result_def retry_return_def honest_page_def
    by (auto intro!: exI [of _ "drop 1 (filter (\<lambda>s. take (length (ls_Prefix args)) (sti_Name s) = ls_Prefix args \<and>
      ls_StartAfter args < sti_Name s) demo_items)"])
  ultimately show ?thesis by (simp add: honest_streams_def)
qed

theorem iter_streams_all_witness:
  "\<exists>vs stopped p. drain (fetch_streams demo_list (Some zero_ListStreamsArgs)) (demo_stream '''' False) 5
      (Iter_streams (Some zero_ListStreamsArgs)) = Some (vs, stopped, p) \<and>
    take (length vs) [demo_stream ''a2'' False, demo_stream ''b1'' False] = vs \<and> stopped"
proof -
  have "filter (\<lambda>s. streams_matching (Some zero_ListStreamsArgs) s \<and> ls_StartAfter zero_ListStreamsArgs < sti_Name s \<and>
      streams_keep (Some zero_ListStreamsArgs) s) demo_items = [demo_stream ''a2'' False, demo_stream ''b1'' False]"
    by (simp add: demo_items_def demo_stream_def streams_matching_def streams_keep_def zero_ListStreamsArgs_def)
  then obtain vs stopped p where d: "drain (fetch_streams demo_list (Some zero_ListStreamsArgs)) (demo_stream '''' False) 5
      (Iter_streams (Some zero_ListStreamsArgs)) = Some (vs, stopped, p)"
    "take (length vs) [demo_stream ''a2'' False, demo_stream ''b1'' False] = vs" "stopped \<or> length vs = 5"
    using iter_streams_all [OF demo_list_honest, of zero_ListStreamsArgs "demo_stream '''' False" 5] by (auto split: if_splits)
  have "length vs \<le> 2" using arg_cong [OF d(2), of length] by simp
  then show ?thesis using d by auto
qed

end
