(* ===== verification/Names.thy ===== *)
theory Names
  imports Errors
begin

text \<open>
  Names of basins, streams and access tokens (\<open>validateBasinName\<close> in \<open>src/s2/basins.go\<close>, \<open>validateStreamName\<close> in
  \<open>streams.go\<close>, \<open>validateAccessTokenID\<close> in \<open>access_tokens.go\<close>), with what they use of \<open>regexp\<close> and \<open>unicode/utf8\<close>:
  regular expressions matched by derivatives, and the count of runes in a byte string.
\<close>

section \<open>Regular expressions\<close>

datatype rexp = RNone | REmpty | RSet "char \<Rightarrow> bool" | RAlt rexp rexp | RSeq rexp rexp | RStar rexp

inductive matching :: "rexp \<Rightarrow> string \<Rightarrow> bool" where
  m_empty: "matching REmpty []"
| m_set: "P c \<Longrightarrow> matching (RSet P) [c]"
| m_left: "matching r s \<Longrightarrow> matching (RAlt r r') s"
| m_right: "matching r' s \<Longrightarrow> matching (RAlt r r') s"
| m_seq: "matching r s \<Longrightarrow> matching r' s' \<Longrightarrow> matching (RSeq r r') (s @ s')"
| m_star0: "matching (RStar r) []"
| m_star: "matching r s \<Longrightarrow> matching (RStar r) s' \<Longrightarrow> matching (RStar r) (s @ s')"

inductive_cases matching_cases [elim!]:
  "matching RNone s" "matching REmpty s" "matching (RSet P) s" "matching (RAlt r r') s" "matching (RSeq r r') s"

fun nullable :: "rexp \<Rightarrow> bool" where
  "nullable RNone = False"
| "nullable REmpty = True"
| "nullable (RSet P) = False"
| "nullable (RAlt r r') = (nullable r \<or> nullable r')"
| "nullable (RSeq r r') = (nullable r \<and> nullable r')"
| "nullable (RStar r) = True"

fun deriv :: "char \<Rightarrow> rexp \<Rightarrow> rexp" where
  "deriv c RNone = RNone"
| "deriv c REmpty = RNone"
| "deriv c (RSet P) = (if P c then REmpty else RNone)"
| "deriv c (RAlt r r') = RAlt (deriv c r) (deriv c r')"
| "deriv c (RSeq r r') = (if nullable r then RAlt (RSeq (deriv c r) r') (deriv c r') else RSeq (deriv c r) r')"
| "deriv c (RStar r) = RSeq (deriv c r) (RStar r)"

definition MatchString :: "rexp \<Rightarrow> string \<Rightarrow> bool" where
  "MatchString r s = nullable (fold deriv s r)"

lemma nullable_matching: "nullable r \<longleftrightarrow> matching r []"
proof (induction r)
  case (RSeq r r')
  then show ?case by (auto intro: m_seq [of _ "[]" _ "[]", simplified])
qed (auto intro: matching.intros)

lemma star_Cons: "matching (RStar r) (c # s) \<Longrightarrow> \<exists>u v. s = u @ v \<and> matching r (c # u) \<and> matching (RStar r) v"
proof (induction "RStar r" "c # s" rule: matching.induct)
  case (m_star u v)
  then show ?case by (cases u) auto
qed

lemma deriv_matching: "matching (deriv c r) s \<longleftrightarrow> matching r (c # s)"
proof (induction r arbitrary: s)
  case (RSeq r r')
  show ?case
  proof
    assume "matching (deriv c (RSeq r r')) s"
    then show "matching (RSeq r r') (c # s)"
      using RSeq m_seq [of r "c # _" r'] m_seq [of r "[]" r' "c # s"]
      by (auto simp: nullable_matching split: if_splits)
  next
    assume "matching (RSeq r r') (c # s)"
    then obtain u v where uv: "c # s = u @ v" "matching r u" "matching r' v" by auto
    show "matching (deriv c (RSeq r r')) s"
    proof (cases u)
      case Nil
      then show ?thesis using uv RSeq by (auto simp: nullable_matching intro: m_right)
    next
      case (Cons a u')
      then have "matching (RSeq (deriv c r) r') s" using uv RSeq by (auto intro: m_seq)
      then show ?thesis by (cases "nullable r") (simp_all add: m_left)
    qed
  qed
next
  case (RStar r)
  show ?case
  proof
    assume "matching (deriv c (RStar r)) s"
    then show "matching (RStar r) (c # s)" using RStar m_star [of r "c # _"] by auto
  next
    assume "matching (RStar r) (c # s)"
    then show "matching (deriv c (RStar r)) s" using RStar by (auto dest!: star_Cons intro: m_seq)
  qed
qed (auto intro: matching.intros split: if_splits)

lemma MatchString_matching: "MatchString r s \<longleftrightarrow> matching r s"
  by (induction s arbitrary: r) (simp_all add: MatchString_def nullable_matching deriv_matching)

section \<open>Runes\<close>

text \<open>The size in bytes of the first rune of a string that starts with these bytes; a byte that starts no valid
  encoding is a rune of its own.\<close>

definition continuation :: "nat \<Rightarrow> bool" where
  "continuation b \<longleftrightarrow> 128 \<le> b \<and> b \<le> 191"

fun rune_size :: "nat list \<Rightarrow> nat" where
  "rune_size (a # b # c # d # _) =
     (if 194 \<le> a \<and> a \<le> 223 \<and> continuation b then 2
      else if (if a = 224 then 160 \<le> b \<and> b \<le> 191 else if a = 237 then 128 \<le> b \<and> b \<le> 159
               else 225 \<le> a \<and> a \<le> 239 \<and> continuation b) \<and> continuation c then 3
      else if (if a = 240 then 144 \<le> b \<and> b \<le> 191 else if a = 244 then 128 \<le> b \<and> b \<le> 143
               else 241 \<le> a \<and> a \<le> 243 \<and> continuation b) \<and> continuation c \<and> continuation d then 4
      else 1)"
| "rune_size [a, b, c] =
     (if 194 \<le> a \<and> a \<le> 223 \<and> continuation b then 2
      else if (if a = 224 then 160 \<le> b \<and> b \<le> 191 else if a = 237 then 128 \<le> b \<and> b \<le> 159
               else 225 \<le> a \<and> a \<le> 239 \<and> continuation b) \<and> continuation c then 3
      else 1)"
| "rune_size [a, b] = (if 194 \<le> a \<and> a \<le> 223 \<and> continuation b then 2 else 1)"
| "rune_size _ = 1"

lemma rune_size_pos: "0 < rune_size bs"
  by (cases bs rule: rune_size.cases) auto

function count_runes :: "nat list \<Rightarrow> nat" where
  "count_runes [] = 0"
| "count_runes (b # bs) = 1 + count_runes (drop (rune_size (b # bs)) (b # bs))"
  by pat_completeness auto
termination
  by (relation "measure length") (auto simp: rune_size_pos)

definition RuneCountInString :: "string \<Rightarrow> nat" where
  "RuneCountInString s = count_runes (map of_char s)"

lemma rune_size_ascii: "b < 128 \<Longrightarrow> rune_size (b # bs) = 1"
  by (cases "b # bs" rule: rune_size.cases) (auto split: if_splits)

lemma count_runes_ascii: "\<forall>b\<in>set bs. b < 128 \<Longrightarrow> count_runes bs = length bs"
proof (induction bs)
  case (Cons b bs)
  then show ?case using rune_size_ascii [of b bs] by simp
qed simp

section \<open>Validation\<close>

definition lower_alnum :: "char \<Rightarrow> bool" where
  "lower_alnum c \<longleftrightarrow> (97 \<le> (of_char c :: nat) \<and> (of_char c :: nat) \<le> 122) \<or> (48 \<le> (of_char c :: nat) \<and> (of_char c :: nat) \<le> 57)"

definition lower_alnum_hyphen :: "char \<Rightarrow> bool" where
  "lower_alnum_hyphen c \<longleftrightarrow> lower_alnum c \<or> c = CHR ''-''"

definition basinNameRegex :: rexp where
  "basinNameRegex =
     RAlt (RSeq (RSet lower_alnum) (RSeq (RStar (RSet lower_alnum_hyphen)) (RSet lower_alnum))) (RSet lower_alnum)"

definition validateBasinName :: "string \<Rightarrow> goerr option" where
  "validateBasinName name =
     (let length = RuneCountInString name in
      if length < 8 \<or> length > 48
      then Some (newValidationError (''basin name must be between 8 and 48 characters, got '' @ dec_nat length))
      else if \<not> MatchString basinNameRegex name
      then Some (newValidationError (''basin name must contain only lowercase letters, numbers, and hyphens, and cannot '' @
             ''begin or end with a hyphen''))
      else None)"

definition validateStreamName :: "string \<Rightarrow> goerr option" where
  "validateStreamName name =
     (if length name < 1 \<or> length name > 512 then Some (newValidationError ''stream name must be between 1 and 512 bytes'')
      else if CHR 0x00 \<in> set name then Some (newValidationError ''stream name must not contain NUL bytes'')
      else None)"

definition validateAccessTokenID :: "string \<Rightarrow> goerr option" where
  "validateAccessTokenID name =
     (if length name < 1 \<or> length name > 96 then Some (newValidationError ''access token ID must be between 1 and 96 bytes'')
      else if CHR 0x00 \<in> set name then Some (newValidationError ''access token ID must not contain NUL bytes'')
      else None)"

lemma star_set: "matching (RStar (RSet P)) s \<longleftrightarrow> list_all P s"
proof (induction s)
  case Nil
  then show ?case by (auto intro: m_star0)
next
  case (Cons c s)
  then show ?case using m_star [of "RSet P" "[c]" s] by (auto dest!: star_Cons intro: m_set)
qed

lemma basinNameRegex_iff:
  "MatchString basinNameRegex s \<longleftrightarrow>
     s \<noteq> [] \<and> list_all lower_alnum_hyphen s \<and> hd s \<noteq> CHR ''-'' \<and> last s \<noteq> CHR ''-''"
proof -
  have hyphen: "\<not> lower_alnum CHR ''-''" by (simp add: lower_alnum_def)
  show ?thesis
  proof (cases "length s \<le> 1")
    case True
    then consider "s = []" | c where "s = [c]" by (cases s) auto
    then show ?thesis
    proof cases
      case 2
      have "matching basinNameRegex [c] \<longleftrightarrow> lower_alnum c"
        unfolding basinNameRegex_def by (auto simp: Cons_eq_append_conv intro: m_right m_set)
      then show ?thesis using 2 hyphen by (auto simp: MatchString_matching lower_alnum_hyphen_def)
    qed (auto simp: MatchString_matching basinNameRegex_def)
  next
    case False
    then obtain a t b where s: "s = a # t @ [b]" by (metis One_nat_def Suc_le_eq append_butlast_last_id le_0_eq length_Suc_conv
        linorder_not_less list.size(3) neq_Nil_conv not_less_eq_eq)
    have "matching basinNameRegex s \<longleftrightarrow> lower_alnum a \<and> list_all lower_alnum_hyphen t \<and> lower_alnum b"
    proof
      assume "matching basinNameRegex s"
      then show "lower_alnum a \<and> list_all lower_alnum_hyphen t \<and> lower_alnum b"
        unfolding basinNameRegex_def s by (auto simp: star_set)
    next
      assume c: "lower_alnum a \<and> list_all lower_alnum_hyphen t \<and> lower_alnum b"
      then have "matching (RSeq (RStar (RSet lower_alnum_hyphen)) (RSet lower_alnum)) (t @ [b])"
        by (intro m_seq) (simp_all add: star_set m_set)
      moreover have "matching (RSet lower_alnum) [a]" using c by (simp add: m_set)
      ultimately show "matching basinNameRegex s"
        unfolding basinNameRegex_def s by (metis append_Cons append_Nil m_left m_seq)
    qed
    then show ?thesis using hyphen by (auto simp: s MatchString_matching lower_alnum_hyphen_def)
  qed
qed

text \<open>C37: The three validators accept exactly the documented names: basin names of 8 to 48 lower-case letters, digits and
  hyphens that neither begin nor end with a hyphen; stream names of 1 to 512 bytes and token ids of 1 to 96 bytes without a
  NUL byte.\<close>

theorem names_exact:
  "(validateBasinName name = None \<longleftrightarrow> 8 \<le> length name \<and> length name \<le> 48 \<and> list_all lower_alnum_hyphen name \<and>
      hd name \<noteq> CHR ''-'' \<and> last name \<noteq> CHR ''-'') \<and>
   (validateStreamName name = None \<longleftrightarrow> length name \<in> {1..512} \<and> CHR 0x00 \<notin> set name) \<and>
   (validateAccessTokenID name = None \<longleftrightarrow> length name \<in> {1..96} \<and> CHR 0x00 \<notin> set name)"
proof -
  have "RuneCountInString name = length name" if "list_all lower_alnum_hyphen name"
    using count_runes_ascii [of "map of_char name"] that
    by (fastforce simp: RuneCountInString_def list_all_iff lower_alnum_hyphen_def lower_alnum_def)
  then have "validateBasinName name = None \<longleftrightarrow> 8 \<le> length name \<and> length name \<le> 48 \<and> list_all lower_alnum_hyphen name \<and>
      hd name \<noteq> CHR ''-'' \<and> last name \<noteq> CHR ''-''"
    by (auto simp: validateBasinName_def Let_def basinNameRegex_iff)
  then show ?thesis by (auto simp: validateStreamName_def validateAccessTokenID_def Suc_le_eq)
qed

end
