(* ===== verification/Endpoints.thy ===== *)
theory Endpoints
  imports Names Url_Encoding
begin

text \<open>
  Endpoint templates (\<open>src/s2/config.go\<close>): an endpoint such as \<open>{basin}.b.example.com:4443\<close> is completed with a
  scheme and the API path, and the base URL of a basin is made from it.  \<open>net/url\<close>'s parser is the argument \<open>parse\<close>;
  \<open>url_parse_ok\<close> states what is used of it on plain URLs.
\<close>

section \<open>Strings\<close>

definition TrimSpace_string :: "string \<Rightarrow> string" where
  "TrimSpace_string s = string_of (TrimSpace (bytes_of s))"

fun index_sub :: "string \<Rightarrow> string \<Rightarrow> nat option" where
  "index_sub sub [] = (if sub = [] then Some 0 else None)"
| "index_sub sub (c # s) = (if prefix sub (c # s) then Some 0 else map_option Suc (index_sub sub s))"

function replace_all :: "string \<Rightarrow> string \<Rightarrow> string \<Rightarrow> string" where
  "replace_all old new [] = []"
| "replace_all old new (c # s) =
     (if old \<noteq> [] \<and> prefix old (c # s) then new @ replace_all old new (drop (length old) (c # s))
      else c # replace_all old new s)"
  by pat_completeness auto
termination
  by (relation "measure (\<lambda>(old, new, s). length s)") auto

definition lower_char :: "char \<Rightarrow> char" where
  "lower_char c = (let n = (of_char c :: nat) in if 65 \<le> n \<and> n \<le> 90 then char_of (n + 32) else c)"

definition ToLower :: "string \<Rightarrow> string" where
  "ToLower s = map lower_char s"

section \<open>Templates\<close>

definition schemeHTTP :: string where "schemeHTTP = ''http''"
definition schemeHTTPS :: string where "schemeHTTPS = ''https''"
definition defaultScheme :: string where "defaultScheme = schemeHTTPS"
definition defaultAPIPath :: string where "defaultAPIPath = ''/v1''"
definition basinPlaceholder :: string where "basinPlaceholder = ''{basin}''"
definition basinPlaceholderSentinel :: string where "basinPlaceholderSentinel = ''__basin__''"

definition letter :: "char \<Rightarrow> bool" where
  "letter c \<longleftrightarrow> (97 \<le> (of_char c :: nat) \<and> (of_char c :: nat) \<le> 122) \<or> (65 \<le> (of_char c :: nat) \<and> (of_char c :: nat) \<le> 90)"

definition digit :: "char \<Rightarrow> bool" where
  "digit c \<longleftrightarrow> 48 \<le> (of_char c :: nat) \<and> (of_char c :: nat) \<le> 57"

text \<open>The pattern is not anchored at the end.\<close>

definition schemePattern :: rexp where
  "schemePattern = RSeq (RSet letter) (RSeq (RStar (RSet (\<lambda>c. letter c \<or> digit c \<or> c \<in> set ''+.-'')))
     (RSeq (RSet (\<lambda>c. c = CHR '':'')) (RSeq (RSet (\<lambda>c. c = CHR ''/'')) (RSeq (RSet (\<lambda>c. c = CHR ''/'')) (RStar (RSet (\<lambda>_. True)))))))"

record endpointTemplate =
  et_raw :: string
  et_scheme :: string
  et_hostTemplate :: string
  et_port :: string
  et_pathTemplate :: string
  et_explicitPathProvided :: bool

text \<open>The result of \<open>url.Parse\<close>, with \<open>Hostname\<close>, \<open>Port\<close> and \<open>EscapedPath\<close> of it.\<close>

record parsed_url =
  pu_Scheme :: string
  pu_Hostname :: string
  pu_Port :: string
  pu_EscapedPath :: string
  pu_RawQuery :: string
  pu_Fragment :: string

text \<open>\<open>-1\<close> is \<open>None\<close>; the three positions are compared in the order slash, query, hash.\<close>

definition min_index :: "nat option \<Rightarrow> nat option \<Rightarrow> nat option" where
  "min_index m idx = (case idx of None \<Rightarrow> m | Some i \<Rightarrow> (case m of None \<Rightarrow> Some i | Some j \<Rightarrow> Some (if i < j then i else j)))"

definition firstDelimiterIndex :: "string \<Rightarrow> nat \<Rightarrow> nat option" where
  "firstDelimiterIndex value fromIndex =
     (let rest = drop fromIndex value;
          slash = index_sub ''/'' rest; query = index_sub ''?'' rest; hash = index_sub ''#'' rest
      in map_option (\<lambda>i. fromIndex + i) (fold (\<lambda>idx m. min_index m idx) [slash, query, hash] None))"

definition hasExplicitPath :: "string \<Rightarrow> bool" where
  "hasExplicitPath input =
     (let trimmed = TrimSpace_string input;
          authorityStart = (if MatchString schemePattern trimmed
            then (case index_sub ''://'' trimmed of Some idx \<Rightarrow> idx + 3 | None \<Rightarrow> 0) else 0)
      in firstDelimiterIndex trimmed authorityStart \<noteq> None)"

definition isLocalhostEndpoint :: "string \<Rightarrow> bool" where
  "isLocalhostEndpoint input =
     (let authority = (case firstDelimiterIndex input 0 of Some idx \<Rightarrow> take idx input | None \<Rightarrow> input);
          host = (case index_sub ''@'' authority of Some idx \<Rightarrow> drop (idx + 1) authority | None \<Rightarrow> authority);
          host = (if prefix ''['' host
            then (case index_sub '']'' host of Some end \<Rightarrow> drop 1 (take end host) | None \<Rightarrow> host)
            else (case index_sub '':'' host of Some idx \<Rightarrow> take idx host | None \<Rightarrow> host))
      in host = ''localhost'' \<or> host = ''127.0.0.1'' \<or> host = ''::1'')"

definition normalizeForURLParsing :: "string \<Rightarrow> string" where
  "normalizeForURLParsing input =
     (let trimmed = TrimSpace_string input;
          withScheme = (if \<not> MatchString schemePattern trimmed
            then (if isLocalhostEndpoint trimmed then schemeHTTP else defaultScheme) @ ''://'' @ trimmed else trimmed)
      in replace_all basinPlaceholder basinPlaceholderSentinel withScheme)"

definition newEndpointTemplate :: "(string \<Rightarrow> goerr + parsed_url) \<Rightarrow> string \<Rightarrow> goerr + endpointTemplate" where
  "newEndpointTemplate parse endpoint =
     (let raw = TrimSpace_string endpoint in
      if raw = '''' then Inl (errorf ''endpoint cannot be empty'')
      else
        let explicitPathProvided = hasExplicitPath raw in
        case parse (normalizeForURLParsing raw) of
          Inl err \<Rightarrow> Inl err
        | Inr parsed \<Rightarrow>
            let scheme = ToLower (pu_Scheme parsed);
                unmark = replace_all basinPlaceholderSentinel basinPlaceholder in
            if scheme \<noteq> schemeHTTP \<and> scheme \<noteq> schemeHTTPS then Inl (errorf (''unsupported scheme: '' @ pu_Scheme parsed))
            else
              let hostTemplate = unmark (pu_Hostname parsed);
                  parsedPath = unmark (pu_EscapedPath parsed);
                  parsedQuery = (if pu_RawQuery parsed \<noteq> '''' then ''?'' @ unmark (pu_RawQuery parsed) else '''');
                  parsedFragment = (if pu_Fragment parsed \<noteq> '''' then ''#'' @ unmark (pu_Fragment parsed) else '''');
                  pathTemplate = (if explicitPathProvided then parsedPath @ parsedQuery @ parsedFragment else defaultAPIPath)
              in Inr \<lparr>et_raw = raw, et_scheme = scheme, et_hostTemplate = hostTemplate, et_port = pu_Port parsed,
                    et_pathTemplate = pathTemplate, et_explicitPathProvided = explicitPathProvided\<rparr>)"

definition JoinHostPort :: "string \<Rightarrow> string \<Rightarrow> string" where
  "JoinHostPort host port = (if CHR '':'' \<in> set host then ''['' @ host @ '']:'' @ port else host @ '':'' @ port)"

definition baseURL_template :: "endpointTemplate \<Rightarrow> string \<Rightarrow> string" where
  "baseURL_template t basin =
     (let host = (if basin \<noteq> '''' then replace_all basinPlaceholder basin (et_hostTemplate t) else et_hostTemplate t);
          path = (if basin \<noteq> '''' then replace_all basinPlaceholder (PathEscape basin) (et_pathTemplate t) else et_pathTemplate t);
          authority = (if et_port t \<noteq> '''' then JoinHostPort host (et_port t)
            else if CHR '':'' \<in> set host then ''['' @ host @ '']''
            else host)
      in et_scheme t @ ''://'' @ authority @ path)"

text \<open>\<open>None\<close> is the panic.\<close>

definition normalizeBaseURL :: "(string \<Rightarrow> goerr + parsed_url) \<Rightarrow> string \<Rightarrow> string option" where
  "normalizeBaseURL parse endpoint = (case newEndpointTemplate parse endpoint of
     Inl err \<Rightarrow> None
   | Inr template \<Rightarrow> Some (baseURL_template template ''''))"

section \<open>The environment\<close>

record Config =
  cg_AccessToken :: string
  cg_AccountTemplate :: "endpointTemplate option"
  cg_BasinTemplate :: "endpointTemplate option"

text \<open>\<open>env\<close> is the environment of the process.\<close>

definition lookupOptionalEndpointEnv :: "(string \<Rightarrow> string option) \<Rightarrow> string \<Rightarrow> string option" where
  "lookupOptionalEndpointEnv env name = (case env name of
     Some value \<Rightarrow> if value = '''' then None else Some value
   | None \<Rightarrow> None)"

definition env_template :: "(string \<Rightarrow> goerr + parsed_url) \<Rightarrow> (string \<Rightarrow> string option) \<Rightarrow> string \<Rightarrow> endpointTemplate option option" where
  "env_template parse env name = (case lookupOptionalEndpointEnv env name of
     None \<Rightarrow> Some None
   | Some endpoint \<Rightarrow> (case newEndpointTemplate parse endpoint of Inl err \<Rightarrow> None | Inr t \<Rightarrow> Some (Some t)))"

definition loadConfigFromEnv :: "(string \<Rightarrow> goerr + parsed_url) \<Rightarrow> (string \<Rightarrow> string option) \<Rightarrow> Config option" where
  "loadConfigFromEnv parse env =
     (case env_template parse env ''S2_ACCOUNT_ENDPOINT'' of
        None \<Rightarrow> None
      | Some account \<Rightarrow> (case env_template parse env ''S2_BASIN_ENDPOINT'' of
          None \<Rightarrow> None
        | Some basin \<Rightarrow> Some \<lparr>cg_AccessToken = (case env ''S2_ACCESS_TOKEN'' of Some v \<Rightarrow> v | None \<Rightarrow> ''''),
              cg_AccountTemplate = account, cg_BasinTemplate = basin\<rparr>))"

section \<open>Plain strings\<close>

definition visible :: "char \<Rightarrow> bool" where
  "visible c \<longleftrightarrow> 33 \<le> (of_char c :: nat) \<and> (of_char c :: nat) \<le> 126"

lemma trim_prefixes_none:
  assumes "bs = [] \<or> (\<forall>p\<in>set ps. p \<noteq> [] \<longrightarrow> hd p \<noteq> hd bs)"
  shows "trim_prefixes ps bs = bs"
proof -
  have "find (\<lambda>p. p \<noteq> [] \<and> prefix p bs) ps = None"
    using assms unfolding find_None_iff by (auto simp: prefix_def)
  then show ?thesis by (subst trim_prefixes.simps) simp
qed

lemma visible_byte: "visible c \<Longrightarrow> unat (word_of_nat (of_char c) :: byte) \<in> {33..126}"
  by (simp add: visible_def unat_of_nat)

lemma space_rune_ends:
  "\<forall>p\<in>set space_runes. unat (hd p) \<notin> {33..126}" "\<forall>p\<in>set (map rev space_runes). unat (hd p) \<notin> {33..126}"
  by (simp_all add: space_runes_def)

lemma TrimSpace_visible:
  assumes "list_all visible s"
  shows "TrimSpace_string s = s"
proof -
  let ?bs = "bytes_of s"
  have vis: "\<forall>b\<in>set ?bs. unat b \<in> {33..126}" using assms visible_byte by (auto simp: bytes_of_def list_all_iff)
  have "trim_prefixes space_runes ?bs = ?bs"
    by (rule trim_prefixes_none) (metis vis list.set_sel(1) space_rune_ends(1))
  moreover have "trim_prefixes (map rev space_runes) (rev ?bs) = rev ?bs"
    by (rule trim_prefixes_none) (metis vis list.set_sel(1) set_rev space_rune_ends(2))
  ultimately show ?thesis by (simp add: TrimSpace_string_def TrimSpace_def)
qed

lemma index_sub_none: "sub \<noteq> [] \<Longrightarrow> hd sub \<notin> set s \<Longrightarrow> index_sub sub s = None"
  by (induction s) (auto simp: prefix_def neq_Nil_conv)

lemma index_sub_at: "sub \<noteq> [] \<Longrightarrow> hd sub \<notin> set u \<Longrightarrow> index_sub sub (u @ sub @ v) = Some (length u)"
proof (induction u)
  case Nil
  then show ?case by (cases sub) (auto simp: prefix_def)
next
  case (Cons c u)
  then have "\<not> prefix sub (c # u @ sub @ v)" by (cases sub) (auto simp: prefix_def)
  then show ?case using Cons by simp
qed

lemma replace_all_skip: "old \<noteq> [] \<Longrightarrow> hd old \<notin> set u \<Longrightarrow> replace_all old new (u @ v) = u @ replace_all old new v"
proof (induction u)
  case (Cons c u)
  then have "\<not> prefix old (c # u @ v)" by (cases old) (auto simp: prefix_def)
  then show ?case using Cons by simp
qed simp

lemma replace_all_hit: "old \<noteq> [] \<Longrightarrow> replace_all old new (old @ v) = new @ replace_all old new v"
  by (cases old) simp_all

lemma replace_all_none: "old \<noteq> [] \<Longrightarrow> hd old \<notin> set u \<Longrightarrow> replace_all old new u = u"
  using replace_all_skip [of old u new "[]"] by simp

lemma any_star: "matching (RStar (RSet (\<lambda>_. True))) s"
  by (simp add: star_set list_all_iff)

lemma scheme_matches:
  assumes "s \<noteq> []" "list_all letter s"
  shows "MatchString schemePattern (s @ ''://'' @ rest)"
proof -
  obtain c t where s: "s = c # t" using assms(1) by (cases s) auto
  have "matching schemePattern ([c] @ t @ [CHR '':''] @ [CHR ''/''] @ [CHR ''/''] @ rest)"
    unfolding schemePattern_def using assms(2) s by (intro m_seq m_set any_star) (simp_all add: star_set list_all_iff)
  then show ?thesis by (simp add: MatchString_matching s)
qed

definition host_char :: "char \<Rightarrow> bool" where
  "host_char c \<longleftrightarrow> letter c \<or> digit c \<or> c \<in> set ''.-''"

definition path_ok :: "string \<Rightarrow> bool" where
  "path_ok path \<longleftrightarrow> path = '''' \<or> hd path = CHR ''/'' \<and> list_all (\<lambda>c. letter c \<or> digit c \<or> c \<in> set ''-.~/'') path"

definition port_suffix :: "string \<Rightarrow> string" where
  "port_suffix port = (if port = '''' then '''' else '':'' @ port)"

text \<open>What is used of \<open>url.Parse\<close>: a plain absolute URL is taken apart.\<close>

definition url_parse_ok :: "(string \<Rightarrow> goerr + parsed_url) \<Rightarrow> bool" where
  "url_parse_ok parse \<longleftrightarrow> (\<forall>scheme host port path.
     scheme \<in> {schemeHTTP, schemeHTTPS} \<and> host \<noteq> '''' \<and> list_all (\<lambda>c. host_char c \<or> c = CHR ''_'') host \<and>
     list_all digit port \<and> path_ok path \<longrightarrow>
     parse (scheme @ ''://'' @ host @ port_suffix port @ path) =
       Inr \<lparr>pu_Scheme = scheme, pu_Hostname = host, pu_Port = port, pu_EscapedPath = path, pu_RawQuery = '''', pu_Fragment = ''''\<rparr>)"

lemma host_char_facts:
  "host_char c \<Longrightarrow> visible c \<and> c \<noteq> CHR ''/'' \<and> c \<noteq> CHR ''?'' \<and> c \<noteq> CHR ''#'' \<and> c \<noteq> CHR ''{'' \<and> c \<noteq> CHR ''_'' \<and> c \<noteq> CHR '':''"
  by (auto simp: host_char_def letter_def digit_def visible_def)

lemma digit_facts:
  "digit c \<Longrightarrow> visible c \<and> c \<noteq> CHR ''/'' \<and> c \<noteq> CHR ''?'' \<and> c \<noteq> CHR ''#'' \<and> c \<noteq> CHR ''{''"
  by (auto simp: digit_def visible_def)

lemma path_char_facts:
  "letter c \<or> digit c \<or> c \<in> set ''-.~/'' \<Longrightarrow> visible c \<and> c \<noteq> CHR ''{'' \<and> c \<noteq> CHR ''_''"
  by (auto simp: letter_def digit_def visible_def)

section \<open>Templates of plain endpoints\<close>

text \<open>A host template: plain, with the placeholder in it or not.\<close>

definition host_template :: "string \<Rightarrow> string \<Rightarrow> bool \<Rightarrow> string" where
  "host_template h1 h2 marked = h1 @ (if marked then basinPlaceholder else '''') @ h2"

lemma scheme_letters: "scheme \<in> {schemeHTTP, schemeHTTPS} \<Longrightarrow> scheme \<noteq> '''' \<and> list_all letter scheme \<and> ToLower scheme = scheme"
  by (auto simp: schemeHTTP_def schemeHTTPS_def letter_def ToLower_def lower_char_def)

lemma letter_facts: "letter c \<Longrightarrow> visible c \<and> c \<noteq> CHR '':'' \<and> c \<noteq> CHR ''{''"
  by (auto simp: letter_def visible_def)

lemma mark_host:
  assumes "list_all host_char h1" "list_all host_char h2"
  shows "replace_all basinPlaceholder basinPlaceholderSentinel (host_template h1 h2 m @ v) =
      h1 @ (if m then basinPlaceholderSentinel else '''') @ h2 @ replace_all basinPlaceholder basinPlaceholderSentinel v"
    and "replace_all basinPlaceholderSentinel basinPlaceholder (h1 @ (if m then basinPlaceholderSentinel else '''') @ h2) =
      host_template h1 h2 m"
    and "replace_all basinPlaceholder basin (host_template h1 h2 m) = h1 @ (if m then basin else '''') @ h2"
proof -
  have ne: "basinPlaceholder \<noteq> []" "basinPlaceholderSentinel \<noteq> []" by (simp_all add: basinPlaceholder_def basinPlaceholderSentinel_def)
  have free: "hd basinPlaceholder \<notin> set h1" "hd basinPlaceholder \<notin> set h2" "hd basinPlaceholderSentinel \<notin> set h1"
    "hd basinPlaceholderSentinel \<notin> set h2"
    using assms host_char_facts by (auto simp: basinPlaceholder_def basinPlaceholderSentinel_def list_all_iff)
  note r = replace_all_skip [OF ne(1) free(1)] replace_all_skip [OF ne(1) free(2)] replace_all_hit [OF ne(1)]
    replace_all_none [OF ne(1) free(2)]
  show "replace_all basinPlaceholder basinPlaceholderSentinel (host_template h1 h2 m @ v) =
      h1 @ (if m then basinPlaceholderSentinel else '''') @ h2 @ replace_all basinPlaceholder basinPlaceholderSentinel v"
    "replace_all basinPlaceholder basin (host_template h1 h2 m) = h1 @ (if m then basin else '''') @ h2"
    by (simp_all add: host_template_def r)
  show "replace_all basinPlaceholderSentinel basinPlaceholder (h1 @ (if m then basinPlaceholderSentinel else '''') @ h2) =
      host_template h1 h2 m"
    by (simp add: host_template_def replace_all_skip [OF ne(2) free(3)] replace_all_hit [OF ne(2)] replace_all_none [OF ne(2) free(4)])
qed

lemma first_delimiter:
  assumes "\<forall>c\<in>set u. c \<noteq> CHR ''/'' \<and> c \<noteq> CHR ''?'' \<and> c \<noteq> CHR ''#''" "path = '''' \<or> hd path = CHR ''/''"
  shows "firstDelimiterIndex (s @ u @ path) (length s) = None \<longleftrightarrow> path = ''''"
proof (cases path)
  case Nil
  have "index_sub [c] u = None" if "c \<notin> set u" for c using index_sub_none [of "[c]" u] that by simp
  then have "index_sub ''/'' u = None" "index_sub ''?'' u = None" "index_sub ''#'' u = None" using assms(1) by blast+
  then show ?thesis using Nil by (simp add: firstDelimiterIndex_def min_index_def)
next
  case (Cons c p)
  then have "index_sub ''/'' (u @ path) = Some (length u)" using assms index_sub_at [of "''/''" u p] by auto
  moreover have "\<exists>i. fold (\<lambda>idx m. min_index m idx) [Some n, a, b] None = Some i" for n a b
    by (cases a; cases b) (simp_all add: min_index_def)
  ultimately have "\<exists>i. firstDelimiterIndex (s @ u @ path) (length s) = Some i" unfolding firstDelimiterIndex_def Let_def by simp
  then show ?thesis using Cons by auto
qed

text \<open>The template of a plain endpoint with a scheme.\<close>

lemma plain_endpoint:
  assumes parse: "url_parse_ok parse" and scheme: "scheme \<in> {schemeHTTP, schemeHTTPS}"
    and host: "list_all host_char h1" "list_all host_char h2" "host_template h1 h2 m \<noteq> ''''"
    and rest: "list_all digit port" "path_ok path"
  shows "newEndpointTemplate parse (scheme @ ''://'' @ host_template h1 h2 m @ port_suffix port @ path) =
    Inr \<lparr>et_raw = scheme @ ''://'' @ host_template h1 h2 m @ port_suffix port @ path, et_scheme = scheme,
      et_hostTemplate = host_template h1 h2 m, et_port = port,
      et_pathTemplate = (if path = '''' then defaultAPIPath else path), et_explicitPathProvided = (path \<noteq> '''')\<rparr>"
proof -
  let ?h = "host_template h1 h2 m"
  let ?e = "scheme @ ''://'' @ ?h @ port_suffix port @ path"
  let ?u = "?h @ port_suffix port"
  note sl = scheme_letters [OF scheme]
  have hc: "visible c \<and> c \<noteq> CHR ''/'' \<and> c \<noteq> CHR ''?'' \<and> c \<noteq> CHR ''#''" if "c \<in> set ?u" for c
  proof -
    have "c \<in> set h1 \<or> c \<in> set h2 \<or> c \<in> set ''{basin}:'' \<or> c \<in> set port"
      using that by (auto simp: host_template_def basinPlaceholder_def port_suffix_def split: if_splits)
    then consider "host_char c" | "c \<in> set ''{basin}:''" | "digit c" using host(1,2) rest(1) by (metis list_all_iff)
    then show ?thesis
    proof cases
      case 1
      then show ?thesis using host_char_facts by blast
    next
      case 2
      then show ?thesis by (auto simp: visible_def)
    next
      case 3
      then show ?thesis using digit_facts by blast
    qed
  qed
  have pc: "visible c \<and> c \<noteq> CHR ''{'' \<and> c \<noteq> CHR ''_''" if "c \<in> set path" for c
  proof -
    have "letter c \<or> digit c \<or> c \<in> set ''-.~/''" using that rest(2) unfolding path_ok_def list_all_iff by (metis empty_iff empty_set)
    then show ?thesis by (rule path_char_facts)
  qed
  have vis: "list_all visible ?e"
    using hc pc sl letter_facts by (auto simp: list_all_iff visible_def)
  have trim: "TrimSpace_string ?e = ?e" by (rule TrimSpace_visible [OF vis])
  have sch: "MatchString schemePattern ?e" using scheme_matches sl by blast
  have "index_sub ''://'' ?e = Some (length scheme)"
    using index_sub_at [of "''://''" scheme "?u @ path"] sl letter_facts by (auto simp: list_all_iff)
  moreover have "firstDelimiterIndex ?e (length scheme + 3) = None \<longleftrightarrow> path = ''''"
    using first_delimiter [of ?u path "scheme @ ''://''"] hc rest(2) by (auto simp: path_ok_def numeral_3_eq_3)
  ultimately have expl: "hasExplicitPath ?e \<longleftrightarrow> path \<noteq> ''''" unfolding hasExplicitPath_def Let_def trim using sch by simp
  let ?mh = "h1 @ (if m then basinPlaceholderSentinel else '''') @ h2"
  have tail: "replace_all basinPlaceholder basinPlaceholderSentinel (port_suffix port @ path) = port_suffix port @ path"
    by (rule replace_all_none) (use rest(1) digit_facts pc in \<open>auto simp: basinPlaceholder_def port_suffix_def list_all_iff\<close>)
  have "replace_all basinPlaceholder basinPlaceholderSentinel ((scheme @ ''://'') @ ?h @ port_suffix port @ path) =
      (scheme @ ''://'') @ ?mh @ port_suffix port @ path"
    using sl letter_facts mark_host(1) [OF host(1,2)] tail
    by (subst replace_all_skip) (auto simp: basinPlaceholder_def list_all_iff)
  then have norm: "normalizeForURLParsing ?e = scheme @ ''://'' @ ?mh @ port_suffix port @ path"
    unfolding normalizeForURLParsing_def Let_def trim using sch by simp
  have "?mh \<noteq> ''''" using host(3) by (auto simp: host_template_def basinPlaceholder_def basinPlaceholderSentinel_def split: if_splits)
  moreover have "list_all (\<lambda>c. host_char c \<or> c = CHR ''_'') ?mh"
  proof -
    have "list_all (\<lambda>c. host_char c \<or> c = CHR ''_'') basinPlaceholderSentinel"
      by (simp add: basinPlaceholderSentinel_def host_char_def letter_def)
    moreover have "list_all (\<lambda>c. host_char c \<or> c = CHR ''_'') h1" "list_all (\<lambda>c. host_char c \<or> c = CHR ''_'') h2"
      using host(1,2) unfolding list_all_iff by blast+
    ultimately show ?thesis by simp
  qed
  ultimately have parsed: "parse (normalizeForURLParsing ?e) = Inr \<lparr>pu_Scheme = scheme, pu_Hostname = ?mh, pu_Port = port,
      pu_EscapedPath = path, pu_RawQuery = '''', pu_Fragment = ''''\<rparr>"
    using parse scheme rest unfolding norm url_parse_ok_def by blast
  have unmark: "replace_all basinPlaceholderSentinel basinPlaceholder path = path"
    by (rule replace_all_none) (use pc in \<open>auto simp: basinPlaceholderSentinel_def\<close>)
  have "?e \<noteq> ''''" using sl by simp
  then show ?thesis
    using scheme sl unmark unfolding newEndpointTemplate_def Let_def trim parsed expl
    by (auto simp: mark_host(2) [OF host(1,2)])
qed

end
