(* ===== verification/Clients.thy ===== *)
theory Clients
  imports Endpoints Http_Requests
begin

text \<open>
  Construction of clients (\<open>src/s2/client.go\<close>): defaults, the transports of unary and streaming requests, base URLs
  of the account and of basins, options from the environment.  \<open>None\<close> is a panic.  Sockets and TLS are not modelled; a
  transport is what is configured on it.
\<close>

section \<open>Transports\<close>

record http_transport =
  tp_tls :: "nat option"
  tp_proxy :: "nat option"
  tp_dialTimeout :: duration
  tp_keepAlive :: duration
  tp_forceHTTP2 :: bool
  tp_maxIdleConnsPerHost :: int

datatype round_tripper = HttpTransport http_transport | UserAgentRT round_tripper string | OtherRT nat

record http_client =
  ht_Transport :: "round_tripper option"
  ht_Timeout :: duration

definition defaultRequestTimeout :: duration where "defaultRequestTimeout = 5 * 1000000000"
definition defaultConnectionTimeout :: duration where "defaultConnectionTimeout = 3 * 1000000000"
definition defaultTCPKeepAlive :: duration where "defaultTCPKeepAlive = 30 * 1000000000"
definition defaultMaxIdleConnsPerHost :: int where "defaultMaxIdleConnsPerHost = 32"
definition DefaultBaseURL :: string where "DefaultBaseURL = ''https://a.s2.dev/v1''"

definition zero_transport :: http_transport where
  "zero_transport = \<lparr>tp_tls = None, tp_proxy = None, tp_dialTimeout = 0, tp_keepAlive = 0, tp_forceHTTP2 = False,
     tp_maxIdleConnsPerHost = 0\<rparr>"

definition newUnaryHTTPTransport :: "round_tripper \<Rightarrow> duration \<Rightarrow> http_transport" where
  "newUnaryHTTPTransport base connectionTimeout =
     (let transport = (case base of HttpTransport t \<Rightarrow> t | _ \<Rightarrow> zero_transport)
      in transport\<lparr>tp_dialTimeout := connectionTimeout, tp_keepAlive := defaultTCPKeepAlive, tp_forceHTTP2 := True,
           tp_maxIdleConnsPerHost := defaultMaxIdleConnsPerHost\<rparr>)"

text \<open>\<open>moduleVersion\<close> and the runtime's version are arguments.\<close>

definition defaultUserAgent :: "string \<Rightarrow> string \<Rightarrow> string" where
  "defaultUserAgent moduleVersion runtimeVersion =
     (let ver = TrimSpace_string moduleVersion; ver = (if ver = '''' then ''dev'' else ver)
      in ''s2-sdk-go/'' @ ver @ '' ('' @ runtimeVersion @ '')'')"

text \<open>\<open>userAgentRoundTripper.RoundTrip\<close>: the request that the base transport gets.\<close>

definition RoundTrip_userAgent :: "string \<Rightarrow> http_request \<Rightarrow> http_request" where
  "RoundTrip_userAgent userAgent req = req\<lparr>rq_header := header_Set ''User-Agent'' userAgent (rq_header req)\<rparr>"

record streaming_client =
  sg_connectionTimeout :: duration
  sg_tlsConfig :: "nat option"
  sg_proxy :: "nat option"
  sg_userAgent :: string

definition createStreamingClient :: "string \<Rightarrow> duration \<Rightarrow> nat option \<Rightarrow> nat option \<Rightarrow> streaming_client" where
  "createStreamingClient userAgent connectionTimeout tlsConfig proxy =
     \<lparr>sg_connectionTimeout = connectionTimeout, sg_tlsConfig = tlsConfig, sg_proxy = proxy, sg_userAgent = userAgent\<rparr>"

section \<open>Clients\<close>

record ClientOptions =
  co_BaseURL :: string
  co_HTTPClient :: "http_client option"
  co_MakeBasinBaseURL :: "(string \<Rightarrow> string) option"
  co_RetryConfig :: "RetryConfig option"
  co_RequestTimeout :: duration
  co_ConnectionTimeout :: duration
  co_Compression :: CompressionType

definition zero_options :: ClientOptions where
  "zero_options = \<lparr>co_BaseURL = '''', co_HTTPClient = None, co_MakeBasinBaseURL = None, co_RetryConfig = None,
     co_RequestTimeout = 0, co_ConnectionTimeout = 0, co_Compression = CompressionNone\<rparr>"

record Client =
  cl_accessToken :: string
  cl_baseURL :: string
  cl_httpClient :: http_client
  cl_streamingClient :: streaming_client
  cl_makeBasinBaseURL :: "string \<Rightarrow> string option"
  cl_retryConfig :: RetryConfig
  cl_includeBasinHeader :: bool
  cl_requestTimeout :: duration
  cl_connectionTimeout :: duration
  cl_compression :: CompressionType

text \<open>What \<open>New\<close> depends on: the URL parser, \<open>http.DefaultTransport\<close> and the user agent.\<close>

record client_env =
  ce_parse :: "string \<Rightarrow> goerr + parsed_url"
  ce_defaultTransport :: round_tripper
  ce_userAgent :: string

definition or_default :: "duration \<Rightarrow> duration \<Rightarrow> duration" where
  "or_default d dflt = (if d \<le> 0 then dflt else d)"

text \<open>The HTTP client of the options, or a new one; and the transport below the user-agent wrapper.\<close>

definition unary_client :: "client_env \<Rightarrow> ClientOptions \<Rightarrow> http_client" where
  "unary_client env opts = (case co_HTTPClient opts of
     Some h \<Rightarrow> h
   | None \<Rightarrow> \<lparr>ht_Transport = Some (HttpTransport (newUnaryHTTPTransport (ce_defaultTransport env)
         (or_default (co_ConnectionTimeout opts) defaultConnectionTimeout))),
       ht_Timeout = or_default (co_RequestTimeout opts) defaultRequestTimeout\<rparr>)"

definition base_transport :: "client_env \<Rightarrow> http_client \<Rightarrow> round_tripper" where
  "base_transport env h =
     (let baseTransport = (case ht_Transport h of None \<Rightarrow> ce_defaultTransport env | Some t \<Rightarrow> t)
      in case baseTransport of UserAgentRT base _ \<Rightarrow> base | _ \<Rightarrow> baseTransport)"

definition New :: "client_env \<Rightarrow> string \<Rightarrow> ClientOptions option \<Rightarrow> Client option" where
  "New env accessToken opts =
     (if accessToken = '''' then None
      else
        let opts = (case opts of None \<Rightarrow> zero_options | Some o' \<Rightarrow> o') in
        case (if co_BaseURL opts \<noteq> '''' then normalizeBaseURL (ce_parse env) (co_BaseURL opts) else Some DefaultBaseURL) of
          None \<Rightarrow> None
        | Some baseURL \<Rightarrow>
            let httpClient = unary_client env opts;
                baseTransport = base_transport env httpClient;
                (streamingTLSConfig, streamingProxy) = (case baseTransport of
                    HttpTransport t \<Rightarrow> if co_HTTPClient opts \<noteq> None then (tp_tls t, tp_proxy t) else (None, None)
                  | _ \<Rightarrow> (None, None));
                httpClient = httpClient\<lparr>ht_Transport := Some (UserAgentRT baseTransport (ce_userAgent env))\<rparr>;
                makeBasinBaseURL = (case co_MakeBasinBaseURL opts of
                    None \<Rightarrow> (\<lambda>basin. Some (''https://'' @ basin @ ''.b.s2.dev/v1''))
                  | Some f \<Rightarrow> (\<lambda>basin. normalizeBaseURL (ce_parse env) (f basin)));
                connectionTimeout = or_default (co_ConnectionTimeout opts) defaultConnectionTimeout
            in Some \<lparr>cl_accessToken = accessToken, cl_baseURL = baseURL, cl_httpClient = httpClient,
                 cl_streamingClient = createStreamingClient (ce_userAgent env) connectionTimeout streamingTLSConfig streamingProxy,
                 cl_makeBasinBaseURL = makeBasinBaseURL,
                 cl_retryConfig = (case co_RetryConfig opts of None \<Rightarrow> DefaultRetryConfig | Some rc \<Rightarrow> rc),
                 cl_includeBasinHeader = (co_MakeBasinBaseURL opts \<noteq> None),
                 cl_requestTimeout = or_default (co_RequestTimeout opts) defaultRequestTimeout,
                 cl_connectionTimeout = connectionTimeout, cl_compression = co_Compression opts\<rparr>)"

definition Basin :: "Client \<Rightarrow> string \<Rightarrow> BasinClient option" where
  "Basin c name =
     (if name = '''' then None
      else case cl_makeBasinBaseURL c name of
        None \<Rightarrow> None
      | Some baseURL \<Rightarrow> Some \<lparr>bc_name = name, bc_baseURL = baseURL, bc_accessToken = cl_accessToken c,
          bc_retryConfig = Some (cl_retryConfig c), bc_includeBasinHeader = cl_includeBasinHeader c,
          bc_compression = cl_compression c\<rparr>)"

definition LoadConfigFromEnv :: "(string \<Rightarrow> goerr + parsed_url) \<Rightarrow> (string \<Rightarrow> string option) \<Rightarrow> ClientOptions option" where
  "LoadConfigFromEnv parse env = (case loadConfigFromEnv parse env of
     None \<Rightarrow> None
   | Some cfg \<Rightarrow>
       let opts = zero_options;
           opts = (case cg_AccountTemplate cfg of None \<Rightarrow> opts | Some t \<Rightarrow> opts\<lparr>co_BaseURL := baseURL_template t ''''\<rparr>);
           opts = (case cg_BasinTemplate cfg of None \<Rightarrow> opts | Some t \<Rightarrow> opts\<lparr>co_MakeBasinBaseURL := Some (baseURL_template t)\<rparr>)
       in Some opts)"

definition NewFromEnvironment :: "client_env \<Rightarrow> (string \<Rightarrow> string option) \<Rightarrow> ClientOptions option \<Rightarrow> Client option" where
  "NewFromEnvironment env vars opts =
     (let opts = (case opts of None \<Rightarrow> zero_options | Some o' \<Rightarrow> o') in
      case loadConfigFromEnv (ce_parse env) vars of
        None \<Rightarrow> None
      | Some cfg \<Rightarrow>
          if cg_AccessToken cfg = '''' then None
          else
            let effectiveOpts = opts\<lparr>co_BaseURL := '''', co_MakeBasinBaseURL := None\<rparr>;
                effectiveOpts = (if co_BaseURL opts \<noteq> '''' then effectiveOpts\<lparr>co_BaseURL := co_BaseURL opts\<rparr>
                  else case cg_AccountTemplate cfg of None \<Rightarrow> effectiveOpts
                    | Some t \<Rightarrow> effectiveOpts\<lparr>co_BaseURL := baseURL_template t ''''\<rparr>);
                effectiveOpts = (case co_MakeBasinBaseURL opts of Some f \<Rightarrow> effectiveOpts\<lparr>co_MakeBasinBaseURL := Some f\<rparr>
                  | None \<Rightarrow> (case cg_BasinTemplate cfg of None \<Rightarrow> effectiveOpts
                    | Some t \<Rightarrow> effectiveOpts\<lparr>co_MakeBasinBaseURL := Some (baseURL_template t)\<rparr>))
            in New env (cg_AccessToken cfg) (Some effectiveOpts))"

section \<open>Base URLs of basins\<close>

text \<open>The base URL of a basin for a plain template, and that normalising it once more changes nothing.\<close>

lemma template_base_url:
  assumes "list_all host_char h1" "list_all host_char h2" "path_ok path" "basin \<noteq> ''''" "list_all host_char basin"
    "et_scheme t = scheme" "et_hostTemplate t = host_template h1 h2 m" "et_port t = port" "et_pathTemplate t = path"
  shows "baseURL_template t basin = scheme @ ''://'' @ h1 @ (if m then basin else '''') @ h2 @ port_suffix port @ path"
proof -
  have "CHR ''{'' \<notin> set path" using assms(3) path_char_facts unfolding path_ok_def list_all_iff by (metis empty_iff empty_set)
  then have p: "replace_all basinPlaceholder (PathEscape basin) path = path" by (intro replace_all_none) (simp_all add: basinPlaceholder_def)
  have colon: "CHR '':'' \<notin> set (h1 @ (if m then basin else '''') @ h2)"
    using assms(1,2,5) host_char_facts unfolding list_all_iff by (auto split: if_splits)
  show ?thesis
    using assms(4,6-9) colon
    by (auto simp: baseURL_template_def Let_def mark_host(3) [OF assms(1,2)] p JoinHostPort_def port_suffix_def)
qed

lemma normalize_plain:
  assumes "url_parse_ok parse" "scheme \<in> {schemeHTTP, schemeHTTPS}" "list_all host_char h" "h \<noteq> ''''" "list_all digit port"
    "path_ok path" "path \<noteq> ''''"
  shows "normalizeBaseURL parse (scheme @ ''://'' @ h @ port_suffix port @ path) = Some (scheme @ ''://'' @ h @ port_suffix port @ path)"
proof -
  have h: "host_template h '''' False = h" by (simp add: host_template_def)
  have "CHR '':'' \<notin> set h" using assms(3) host_char_facts unfolding list_all_iff by blast
  then show ?thesis
    using plain_endpoint [OF assms(1-3), of "''''" False port path] assms(4-7)
    by (simp add: h normalizeBaseURL_def baseURL_template_def JoinHostPort_def port_suffix_def)
qed

lemma New_Some:
  assumes "token \<noteq> ''''" "co_BaseURL opts = '''' \<or> normalizeBaseURL (ce_parse env) (co_BaseURL opts) = Some base"
    "co_MakeBasinBaseURL opts = Some f"
  shows "\<exists>c. New env token (Some opts) = Some c \<and> cl_makeBasinBaseURL c = (\<lambda>basin. normalizeBaseURL (ce_parse env) (f basin)) \<and>
    cl_accessToken c = token \<and> cl_includeBasinHeader c"
  using assms by (auto simp: New_def Let_def split: prod.split)

text \<open>An endpoint without a placeholder, and the base URL that the account's part of the configuration is for it.\<close>

definition plain_URL :: "string \<Rightarrow> bool" where
  "plain_URL v \<longleftrightarrow> (\<exists>scheme h port path. scheme \<in> {schemeHTTP, schemeHTTPS} \<and> list_all host_char h \<and> h \<noteq> '''' \<and>
     list_all digit port \<and> path_ok path \<and> v = scheme @ ''://'' @ h @ port_suffix port @ path)"

lemma account_template:
  assumes "url_parse_ok parse" "plain_URL v"
  shows "\<exists>t. newEndpointTemplate parse v = Inr t \<and> baseURL_template t '''' = (if et_explicitPathProvided t then v else v @ ''/v1'') \<and>
    normalizeBaseURL parse (baseURL_template t '''') = Some (baseURL_template t '''')"
proof -
  obtain scheme h port path where v: "scheme \<in> {schemeHTTP, schemeHTTPS}" "list_all host_char h" "h \<noteq> ''''"
    "list_all digit port" "path_ok path" "v = scheme @ ''://'' @ h @ port_suffix port @ path"
    using assms(2) unfolding plain_URL_def by blast
  let ?path = "if path = '''' then defaultAPIPath else path"
  let ?t = "\<lparr>et_raw = v, et_scheme = scheme, et_hostTemplate = h, et_port = port, et_pathTemplate = ?path,
    et_explicitPathProvided = (path \<noteq> '''')\<rparr>"
  have h: "host_template h '''' False = h" by (simp add: host_template_def)
  have t: "newEndpointTemplate parse v = Inr ?t"
    using plain_endpoint [OF assms(1) v(1,2), of "''''" False port path] v(3-6) by (simp add: h)
  have "CHR '':'' \<notin> set h" using v(2) host_char_facts unfolding list_all_iff by blast
  then have b: "baseURL_template ?t '''' = scheme @ ''://'' @ h @ port_suffix port @ ?path"
    by (simp add: baseURL_template_def JoinHostPort_def port_suffix_def)
  have path: "path_ok ?path" "?path \<noteq> ''''" using v(5) by (auto simp: path_ok_def defaultAPIPath_def letter_def digit_def)
  have "normalizeBaseURL parse (baseURL_template ?t '''') = Some (baseURL_template ?t '''')"
    unfolding b by (rule normalize_plain [OF assms(1) v(1-4) path])
  moreover have "baseURL_template ?t '''' = (if et_explicitPathProvided ?t then v else v @ ''/v1'')"
    unfolding b by (simp add: v(6) defaultAPIPath_def)
  ultimately show ?thesis using t by blast
qed

lemma env_template_Some:
  "env name = Some v \<Longrightarrow> v \<noteq> '''' \<Longrightarrow> newEndpointTemplate parse v = Inr t \<Longrightarrow> env_template parse env name = Some (Some t)"
  by (simp add: env_template_def lookupOptionalEndpointEnv_def)

lemma account_env:
  assumes "url_parse_ok parse" "vars ''S2_ACCOUNT_ENDPOINT'' = account" "account = None \<or> (\<exists>v. account = Some v \<and> plain_URL v)"
  shows "\<exists>a. env_template parse vars ''S2_ACCOUNT_ENDPOINT'' = Some a \<and>
    (\<forall>s. a = Some s \<longrightarrow> normalizeBaseURL parse (baseURL_template s '''') = Some (baseURL_template s ''''))"
proof (cases account)
  case None
  then show ?thesis using assms(2) by (simp add: env_template_def lookupOptionalEndpointEnv_def)
next
  case (Some v)
  then have v: "plain_URL v" using assms(3) by simp
  then have "v \<noteq> ''''" by (auto simp: plain_URL_def)
  obtain t where t: "newEndpointTemplate parse v = Inr t"
    "normalizeBaseURL parse (baseURL_template t '''') = Some (baseURL_template t '''')"
    using account_template [OF assms(1) v] by blast
  have "vars ''S2_ACCOUNT_ENDPOINT'' = Some v" using Some assms(2) by simp
  then have "env_template parse vars ''S2_ACCOUNT_ENDPOINT'' = Some (Some t)"
    by (rule env_template_Some) (fact \<open>v \<noteq> ''''\<close>, fact t(1))
  then show ?thesis using t(2) by simp
qed

lemma basin_name_host: "validateBasinName name = None \<Longrightarrow> name \<noteq> '''' \<and> list_all host_char name"
proof -
  assume "validateBasinName name = None"
  then have "MatchString basinNameRegex name" by (auto simp: validateBasinName_def Let_def split: if_splits)
  then have n: "name \<noteq> ''''" "list_all lower_alnum_hyphen name" by (auto simp: basinNameRegex_iff)
  have "lower_alnum_hyphen c \<Longrightarrow> host_char c" for c
    by (auto simp: lower_alnum_hyphen_def lower_alnum_def host_char_def letter_def digit_def)
  then show ?thesis using n unfolding list_all_iff by blast
qed


section \<open>Witnesses\<close>

text \<open>A parser of plain URLs.\<close>

definition plain_parse :: "string \<Rightarrow> goerr + parsed_url" where
  "plain_parse s =
     (let rest = drop 3 (dropWhile (\<lambda>c. c \<noteq> CHR '':'') s);
          authority = takeWhile (\<lambda>c. c \<noteq> CHR ''/'') rest
      in Inr \<lparr>pu_Scheme = takeWhile (\<lambda>c. c \<noteq> CHR '':'') s, pu_Hostname = takeWhile (\<lambda>c. c \<noteq> CHR '':'') authority,
           pu_Port = drop 1 (dropWhile (\<lambda>c. c \<noteq> CHR '':'') authority), pu_EscapedPath = dropWhile (\<lambda>c. c \<noteq> CHR ''/'') rest,
           pu_RawQuery = '''', pu_Fragment = ''''\<rparr>)"

lemma cut_at:
  assumes "c \<notin> set u" "v = [] \<or> hd v = c"
  shows "takeWhile (\<lambda>x. x \<noteq> c) (u @ v) = u" "dropWhile (\<lambda>x. x \<noteq> c) (u @ v) = v"
  using assms by (cases v; force simp: takeWhile_append dropWhile_append)+

lemma plain_parse_ok: "url_parse_ok plain_parse"
  unfolding url_parse_ok_def
proof (intro allI impI)
  fix scheme host port path
  assume a: "scheme \<in> {schemeHTTP, schemeHTTPS} \<and> host \<noteq> '''' \<and> list_all (\<lambda>c. host_char c \<or> c = CHR ''_'') host \<and>
     list_all digit port \<and> path_ok path"
  let ?s = "scheme @ ''://'' @ host @ port_suffix port @ path"
  have h: "CHR '':'' \<notin> set host" "CHR ''/'' \<notin> set host"
    using a host_char_facts [of "CHR '':''"] host_char_facts [of "CHR ''/''"] by (auto simp: list_all_iff)
  have p: "CHR ''/'' \<notin> set port" "CHR '':'' \<notin> set scheme" using a by (auto simp: list_all_iff digit_def schemeHTTP_def schemeHTTPS_def)
  have 1: "takeWhile (\<lambda>c. c \<noteq> CHR '':'') ?s = scheme" "dropWhile (\<lambda>c. c \<noteq> CHR '':'') ?s = ''://'' @ host @ port_suffix port @ path"
    using cut_at [OF p(2), of "''://'' @ host @ port_suffix port @ path"] by simp_all
  have 2: "takeWhile (\<lambda>c. c \<noteq> CHR ''/'') (host @ port_suffix port @ path) = host @ port_suffix port"
    "dropWhile (\<lambda>c. c \<noteq> CHR ''/'') (host @ port_suffix port @ path) = path"
    using cut_at [of "CHR ''/''" "host @ port_suffix port" path] a h p by (auto simp: port_suffix_def path_ok_def)
  have 3: "takeWhile (\<lambda>c. c \<noteq> CHR '':'') (host @ port_suffix port) = host"
    "dropWhile (\<lambda>c. c \<noteq> CHR '':'') (host @ port_suffix port) = port_suffix port"
    using cut_at [OF h(1), of "port_suffix port"] by (simp_all add: port_suffix_def)
  show "plain_parse ?s = Inr \<lparr>pu_Scheme = scheme, pu_Hostname = host, pu_Port = port, pu_EscapedPath = path, pu_RawQuery = '''',
      pu_Fragment = ''''\<rparr>"
    unfolding plain_parse_def 1 Let_def by (simp add: 2 3) (simp add: port_suffix_def)
qed

definition demo_vars :: "string \<Rightarrow> string option" where
  "demo_vars = [''S2_BASIN_ENDPOINT'' \<mapsto> ''https://{basin}.b.example.com:4443'', ''S2_ACCESS_TOKEN'' \<mapsto> ''t'',
     ''S2_ACCOUNT_ENDPOINT'' \<mapsto> ''http://a.example.com'']"

definition demo_client_env :: client_env where
  "demo_client_env = \<lparr>ce_parse = plain_parse, ce_defaultTransport = HttpTransport zero_transport, ce_userAgent = ''''\<rparr>"


end
