(* ===== verification/Account_Ops.thy ===== *)
theory Account_Ops
  imports Pager Clients
begin

text \<open>
  The account and basin operations (\<open>src/s2/basins.go\<close>, \<open>streams.go\<close>, \<open>access_tokens.go\<close>, \<open>locations.go\<close>): each
  checks its arguments, builds path and body, and retries a JSON request.  \<open>marshal\<close> is \<open>json.Marshal\<close> of a value,
  \<open>decode\<close> the JSON decoder on a response body; \<open>henv n\<close> is the network at the \<open>n\<close>-th attempt.  A response without content
  leaves the result variable at its zero value.
\<close>

section \<open>Calls\<close>

definition client_http :: "Client \<Rightarrow> httpClient" where
  "client_http c = \<lparr>hc_baseURL = cl_baseURL c, hc_accessToken = cl_accessToken c, hc_basinName = '''',
     hc_compression = cl_compression c\<rparr>"

type_synonym 'r json_decoder = "byte list \<times> goerr option \<Rightarrow> goerr + 'r"
type_synonym json_marshal = "json_value \<Rightarrow> goerr + byte list"

text \<open>The body shared by the methods that return a value, that return nothing, and that also look at the headers.\<close>

definition call_op :: "httpClient \<Rightarrow> http_env \<Rightarrow> string \<Rightarrow> string \<Rightarrow> (goerr + byte list) option \<Rightarrow> http_header \<Rightarrow> 'r json_decoder \<Rightarrow> 'r \<Rightarrow>
    goerr + 'r" where
  "call_op h henv method path body headers decode zero =
     (case requestWithHeaders henv h method path body (Some decode) headers of
        Inl err \<Rightarrow> Inl err
      | Inr None \<Rightarrow> Inr zero
      | Inr (Some result) \<Rightarrow> Inr result)"

definition call :: "RetryConfig option \<Rightarrow> httpClient \<Rightarrow> (int \<Rightarrow> http_env) \<Rightarrow> 'r retry_env \<Rightarrow> string \<Rightarrow> string \<Rightarrow>
    (goerr + byte list) option \<Rightarrow> http_header \<Rightarrow> 'r json_decoder \<Rightarrow> 'r \<Rightarrow> 'r retry_outcome" where
  "call config h henv env method path body headers decode zero =
     withRetries config (env\<lparr>re_op := (\<lambda>n. call_op h (henv n) method path body headers decode zero)\<rparr>)"

definition call_nothing :: "RetryConfig option \<Rightarrow> httpClient \<Rightarrow> (int \<Rightarrow> http_env) \<Rightarrow> unit retry_env \<Rightarrow> string \<Rightarrow> string \<Rightarrow> unit retry_outcome" where
  "call_nothing config h henv env method path =
     withRetries config (env\<lparr>re_op := (\<lambda>n.
       case request (henv n) h method path None (None :: unit json_decoder option) of
         Inl err \<Rightarrow> Inl err
       | Inr _ \<Rightarrow> Inr ())\<rparr>)"

definition call_provision :: "RetryConfig option \<Rightarrow> httpClient \<Rightarrow> (int \<Rightarrow> http_env) \<Rightarrow> (ProvisionResult \<times> 'r) retry_env \<Rightarrow> string \<Rightarrow>
    (goerr + byte list) option \<Rightarrow> 'r json_decoder \<Rightarrow> 'r \<Rightarrow> (ProvisionResult \<times> 'r) retry_outcome" where
  "call_provision config h henv env path body decode zero =
     withRetries config (env\<lparr>re_op := (\<lambda>n.
       case requestWithHeadersResult (henv n) h ''PUT'' path body (Some decode) [] of
         Inl err \<Rightarrow> Inl err
       | Inr (meta, None) \<Rightarrow> Inr (provisionResultFromResponse (Some meta), zero)
       | Inr (meta, Some info) \<Rightarrow> Inr (provisionResultFromResponse (Some meta), info))\<rparr>)"

definition checked :: "goerr option \<Rightarrow> 'r retry_outcome \<Rightarrow> 'r retry_outcome" where
  "checked err out = (case err of Some e \<Rightarrow> retry_return (Inl e) 0 | None \<Rightarrow> out)"

definition request_token :: "string \<Rightarrow> http_header" where
  "request_token requestToken = [(''s2-request-token'', requestToken)]"

section \<open>Zero values\<close>

definition zero_BasinInfo :: BasinInfo where
  "zero_BasinInfo = \<lparr>bi_Name = '''', bi_Location = None, bi_CreatedAt = 0, bi_DeletedAt = None\<rparr>"

definition zero_StreamInfo :: StreamInfo where
  "zero_StreamInfo = \<lparr>sti_Name = '''', sti_CreatedAt = 0, sti_DeletedAt = None, sti_Cipher = None\<rparr>"

definition zero_BasinConfig :: BasinConfig where
  "zero_BasinConfig = \<lparr>bcf_CreateStreamOnAppend = None, bcf_CreateStreamOnRead = None, bcf_StreamCipher = None,
     bcf_DefaultStreamConfig = None\<rparr>"

definition zero_LocationInfo :: LocationInfo where
  "zero_LocationInfo = \<lparr>li_Name = '''', li_IsPrivate = False, li_StorageClasses = [], li_DefaultStorageClass = None\<rparr>"

section \<open>Basins\<close>

definition basin_path :: "string \<Rightarrow> string" where
  "basin_path name = ''/basins/'' @ PathEscape name"

definition List_basins :: "ListBasinsResponse json_decoder \<Rightarrow> (int \<Rightarrow> http_env) \<Rightarrow> ListBasinsResponse retry_env \<Rightarrow> Client \<Rightarrow>
    ListBasinsArgs option \<Rightarrow> ListBasinsResponse retry_outcome" where
  "List_basins decode henv env c args =
     (let args = (case args of None \<Rightarrow> zero_ListBasinsArgs | Some a \<Rightarrow> a);
          path = ''/basins'' @ buildQuery (lb_Prefix args) (lb_StartAfter args) (lb_Limit args)
      in call (Some (cl_retryConfig c)) (client_http c) henv env ''GET'' path None [] decode \<lparr>lbr_Basins = [], lbr_HasMore = False\<rparr>)"

definition Create_basin :: "json_marshal \<Rightarrow> BasinInfo json_decoder \<Rightarrow> (int \<Rightarrow> http_env) \<Rightarrow> BasinInfo retry_env \<Rightarrow> string \<Rightarrow> Client \<Rightarrow>
    CreateBasinArgs \<Rightarrow> BasinInfo retry_outcome" where
  "Create_basin marshal decode henv env requestToken c args =
     checked (validateBasinName (cba_Basin args))
       (call (Some (cl_retryConfig c)) (client_http c) henv env ''POST'' ''/basins'' (Some (marshal (json_CreateBasinArgs args)))
          (request_token requestToken) decode zero_BasinInfo)"

definition Ensure_basin :: "json_marshal \<Rightarrow> BasinInfo json_decoder \<Rightarrow> (int \<Rightarrow> http_env) \<Rightarrow> (ProvisionResult \<times> BasinInfo) retry_env \<Rightarrow>
    Client \<Rightarrow> EnsureBasinArgs \<Rightarrow> (ProvisionResult \<times> BasinInfo) retry_outcome" where
  "Ensure_basin marshal decode henv env c args =
     checked (validateBasinName (eba_Basin args))
       (call_provision (Some (cl_retryConfig c)) (client_http c) henv env (basin_path (eba_Basin args))
          (map_option marshal (json_ensureBasinRequest args)) decode zero_BasinInfo)"

definition Delete_basin :: "(int \<Rightarrow> http_env) \<Rightarrow> unit retry_env \<Rightarrow> Client \<Rightarrow> string \<Rightarrow> unit retry_outcome" where
  "Delete_basin henv env c basinName =
     checked (validateBasinName basinName)
       (call_nothing (Some (cl_retryConfig c)) (client_http c) henv env ''DELETE'' (basin_path basinName))"

definition GetConfig_basin :: "BasinConfig json_decoder \<Rightarrow> (int \<Rightarrow> http_env) \<Rightarrow> BasinConfig retry_env \<Rightarrow> Client \<Rightarrow> string \<Rightarrow>
    BasinConfig retry_outcome" where
  "GetConfig_basin decode henv env c basinName =
     checked (validateBasinName basinName)
       (call (Some (cl_retryConfig c)) (client_http c) henv env ''GET'' (basin_path basinName) None [] decode zero_BasinConfig)"

record ReconfigureBasinArgs =
  rba_Basin :: string
  rba_Config :: BasinReconfiguration

definition Reconfigure_basin :: "json_marshal \<Rightarrow> BasinConfig json_decoder \<Rightarrow> (int \<Rightarrow> http_env) \<Rightarrow> BasinConfig retry_env \<Rightarrow> Client \<Rightarrow>
    ReconfigureBasinArgs \<Rightarrow> BasinConfig retry_outcome" where
  "Reconfigure_basin marshal decode henv env c args =
     checked (validateBasinName (rba_Basin args))
       (call (Some (cl_retryConfig c)) (client_http c) henv env ''PATCH'' (basin_path (rba_Basin args))
          (Some (marshal (json_BasinReconfiguration (rba_Config args)))) [] decode zero_BasinConfig)"

section \<open>Streams\<close>

definition stream_path :: "string \<Rightarrow> string" where
  "stream_path name = ''/streams/'' @ PathEscape name"

definition List_streams :: "ListStreamsResponse json_decoder \<Rightarrow> (int \<Rightarrow> http_env) \<Rightarrow> ListStreamsResponse retry_env \<Rightarrow> BasinClient \<Rightarrow>
    ListStreamsArgs option \<Rightarrow> ListStreamsResponse retry_outcome" where
  "List_streams decode henv env b args =
     (let args = (case args of None \<Rightarrow> zero_ListStreamsArgs | Some a \<Rightarrow> a);
          path = ''/streams'' @ buildQuery (ls_Prefix args) (ls_StartAfter args) (ls_Limit args)
      in call (bc_retryConfig b) (basin_http b) henv env ''GET'' path None [] decode \<lparr>lsr_Streams = [], lsr_HasMore = False\<rparr>)"

definition Create_stream :: "json_marshal \<Rightarrow> StreamInfo json_decoder \<Rightarrow> (int \<Rightarrow> http_env) \<Rightarrow> StreamInfo retry_env \<Rightarrow> string \<Rightarrow> BasinClient \<Rightarrow>
    CreateStreamArgs \<Rightarrow> StreamInfo retry_outcome" where
  "Create_stream marshal decode henv env requestToken b args =
     checked (validateStreamName (csa_Stream args))
       (call (bc_retryConfig b) (basin_http b) henv env ''POST'' ''/streams'' (Some (marshal (json_CreateStreamArgs args)))
          (request_token requestToken) decode zero_StreamInfo)"

definition Ensure_stream :: "json_marshal \<Rightarrow> StreamInfo json_decoder \<Rightarrow> (int \<Rightarrow> http_env) \<Rightarrow> (ProvisionResult \<times> StreamInfo) retry_env \<Rightarrow>
    BasinClient \<Rightarrow> EnsureStreamArgs \<Rightarrow> (ProvisionResult \<times> StreamInfo) retry_outcome" where
  "Ensure_stream marshal decode henv env b args =
     checked (validateStreamName (esa_Stream args))
       (call_provision (bc_retryConfig b) (basin_http b) henv env (stream_path (esa_Stream args))
          (map_option (\<lambda>c. marshal (json_StreamConfig c)) (esa_Config args)) decode zero_StreamInfo)"

definition Delete_stream :: "(int \<Rightarrow> http_env) \<Rightarrow> unit retry_env \<Rightarrow> BasinClient \<Rightarrow> string \<Rightarrow> unit retry_outcome" where
  "Delete_stream henv env b streamName =
     checked (validateStreamName streamName)
       (call_nothing (bc_retryConfig b) (basin_http b) henv env ''DELETE'' (stream_path streamName))"

definition GetConfig_stream :: "StreamConfig json_decoder \<Rightarrow> (int \<Rightarrow> http_env) \<Rightarrow> StreamConfig retry_env \<Rightarrow> BasinClient \<Rightarrow> string \<Rightarrow>
    StreamConfig retry_outcome" where
  "GetConfig_stream decode henv env b streamName =
     checked (validateStreamName streamName)
       (call (bc_retryConfig b) (basin_http b) henv env ''GET'' (stream_path streamName) None [] decode zero_StreamConfig)"

record ReconfigureStreamArgs =
  rsa_Stream :: string
  rsa_Config :: StreamReconfiguration

definition Reconfigure_stream :: "json_marshal \<Rightarrow> StreamConfig json_decoder \<Rightarrow> (int \<Rightarrow> http_env) \<Rightarrow> StreamConfig retry_env \<Rightarrow> BasinClient \<Rightarrow>
    ReconfigureStreamArgs \<Rightarrow> StreamConfig retry_outcome" where
  "Reconfigure_stream marshal decode henv env b args =
     checked (validateStreamName (rsa_Stream args))
       (call (bc_retryConfig b) (basin_http b) henv env ''PATCH'' (stream_path (rsa_Stream args))
          (Some (marshal (json_StreamReconfiguration (rsa_Config args)))) [] decode zero_StreamConfig)"

section \<open>Access tokens\<close>

definition List_tokens :: "ListAccessTokensResponse json_decoder \<Rightarrow> (int \<Rightarrow> http_env) \<Rightarrow> ListAccessTokensResponse retry_env \<Rightarrow> Client \<Rightarrow>
    ListAccessTokensArgs option \<Rightarrow> ListAccessTokensResponse retry_outcome" where
  "List_tokens decode henv env c args =
     (let args = (case args of None \<Rightarrow> zero_ListAccessTokensArgs | Some a \<Rightarrow> a);
          path = ''/access-tokens'' @ buildQuery (lat_Prefix args) (lat_StartAfter args) (lat_Limit args)
      in call (Some (cl_retryConfig c)) (client_http c) henv env ''GET'' path None [] decode
           \<lparr>latr_AccessTokens = [], latr_HasMore = False\<rparr>)"

definition Issue_token :: "(gotime \<Rightarrow> string) \<Rightarrow> json_marshal \<Rightarrow> string json_decoder \<Rightarrow> (int \<Rightarrow> http_env) \<Rightarrow> string retry_env \<Rightarrow> Client \<Rightarrow>
    IssueAccessTokenArgs \<Rightarrow> string retry_outcome" where
  "Issue_token rfc3339 marshal decode henv env c args =
     checked (validateAccessTokenID (iat_ID args))
       (call (Some (cl_retryConfig c)) (client_http c) henv env ''POST'' ''/access-tokens''
          (Some (marshal (json_IssueAccessTokenArgs rfc3339 args))) [] decode '''')"

definition Revoke_token :: "(int \<Rightarrow> http_env) \<Rightarrow> unit retry_env \<Rightarrow> Client \<Rightarrow> string \<Rightarrow> unit retry_outcome" where
  "Revoke_token henv env c tokenID =
     checked (validateAccessTokenID tokenID)
       (call_nothing (Some (cl_retryConfig c)) (client_http c) henv env ''DELETE'' (''/access-tokens/'' @ PathEscape tokenID))"

section \<open>Locations\<close>

definition List_locations :: "LocationInfo list json_decoder \<Rightarrow> (int \<Rightarrow> http_env) \<Rightarrow> LocationInfo list retry_env \<Rightarrow> Client \<Rightarrow>
    LocationInfo list retry_outcome" where
  "List_locations decode henv env c =
     call (Some (cl_retryConfig c)) (client_http c) henv env ''GET'' ''/locations'' None [] decode []"

definition GetDefault_location :: "LocationInfo json_decoder \<Rightarrow> (int \<Rightarrow> http_env) \<Rightarrow> LocationInfo retry_env \<Rightarrow> Client \<Rightarrow>
    LocationInfo retry_outcome" where
  "GetDefault_location decode henv env c =
     call (Some (cl_retryConfig c)) (client_http c) henv env ''GET'' ''/locations/default'' None [] decode zero_LocationInfo"

definition SetDefault_location :: "json_marshal \<Rightarrow> LocationInfo json_decoder \<Rightarrow> (int \<Rightarrow> http_env) \<Rightarrow> LocationInfo retry_env \<Rightarrow> Client \<Rightarrow>
    string \<Rightarrow> LocationInfo retry_outcome" where
  "SetDefault_location marshal decode henv env c location =
     checked (if location = '''' then Some (errorf ''location name cannot be empty'') else None)
       (call (Some (cl_retryConfig c)) (client_http c) henv env ''PUT'' ''/locations/default'' (Some (marshal (JString location))) []
          decode zero_LocationInfo)"

section \<open>What a list request asks for\<close>

lemma single_list_params: "single_values (list_params pre startAfter limit)"
  by (auto simp: list_params_def values_Add_def values_of_def Let_def single_values_def split: option.split)

lemma map_of_list_params: "map_of (list_params pre startAfter limit) =
    Map.empty(''prefix'' := (if pre = '''' then None else Some [pre]),
      ''start_after'' := (if startAfter = '''' then None else Some [startAfter]),
      ''limit'' := map_option (\<lambda>l. [dec_int l]) limit)"
  by (auto simp: list_params_def values_Add_def values_of_def Let_def split: option.split)

text \<open>A parameter of the query as a server reads it; empty when it is not there.\<close>

definition query_param :: "string \<Rightarrow> string \<Rightarrow> string" where
  "query_param k q = (case map_of (decode_query (drop 1 q)) k of None \<Rightarrow> '''' | Some v \<Rightarrow> v)"

lemma buildQuery_params:
  "query_param ''prefix'' (buildQuery pre startAfter limit) = pre"
  "query_param ''start_after'' (buildQuery pre startAfter limit) = startAfter"
proof -
  have d: "decode_query (drop 1 (buildQuery pre startAfter limit)) = sorted_pairs (list_params pre startAfter limit)"
  proof (cases "values_Encode (list_params pre startAfter limit) = ''''")
    case True
    then have "sorted_pairs (list_params pre startAfter limit) = decode_query ''''" by (metis decode_Encode)
    with True show ?thesis by (simp add: buildQuery_def)
  qed (simp add: buildQuery_def decode_Encode)
  show "query_param ''prefix'' (buildQuery pre startAfter limit) = pre"
    "query_param ''start_after'' (buildQuery pre startAfter limit) = startAfter"
    unfolding query_param_def d map_of_sorted_pairs [OF single_list_params] by (simp_all add: map_of_list_params)
qed

section \<open>Which requests are sent\<close>

text \<open>A network that refuses the requests outside \<open>P\<close>: a call whose outcome does not change when its network is restricted
  sends no other requests.\<close>

definition restrict_http :: "(http_request \<Rightarrow> bool) \<Rightarrow> http_env \<Rightarrow> http_env" where
  "restrict_http P henv = henv\<lparr>hx_Do := (\<lambda>req. if P req then hx_Do henv req else Inl (errorf ''refused''))\<rparr>"

lemma restrict_http_simps [simp]:
  "hx_NewRequest (restrict_http P henv) = hx_NewRequest henv" "hx_codec (restrict_http P henv) = hx_codec henv"
  "hx_json (restrict_http P henv) = hx_json henv" "hx_statusText (restrict_http P henv) = hx_statusText henv"
  "hx_quoted (restrict_http P henv) = hx_quoted henv" "hx_marshalConfig (restrict_http P henv) = hx_marshalConfig henv"
  "hx_Do (restrict_http P henv) req = (if P req then hx_Do henv req else Inl (errorf ''refused''))"
  by (simp_all add: restrict_http_def)

lemma restrict_parseHTTPError [simp]: "parseHTTPError (restrict_http P henv) = parseHTTPError henv"
  by (rule ext) (simp add: parseHTTPError_def split: prod.split option.split)

lemma restrict_json_result [simp]: "json_result (restrict_http P henv) = json_result henv"
  by (intro ext) (simp add: json_result_def)

lemma restrict_json_request [simp]: "json_request (restrict_http P henv) = json_request henv"
  by (intro ext) (simp add: json_request_def)

lemma restrict_request:
  assumes "\<And>req. json_request henv h method path body headers = Inr req \<Longrightarrow> P req"
  shows "requestWithHeadersResult (restrict_http P henv) h method path body decode headers =
    requestWithHeadersResult henv h method path body decode headers"
  using assms by (simp add: requestWithHeadersResult_def split: sum.split)

lemma json_request_url: "json_request env h method path body headers = Inr req \<Longrightarrow>
    rq_url req = hc_baseURL h @ path \<and> rq_method req = method \<and> rq_header req = json_headers h (body \<noteq> None) headers"
  by (auto simp: json_request_def Let_def split: option.splits sum.splits)

definition covers_request :: "(http_request \<Rightarrow> bool) \<Rightarrow> httpClient \<Rightarrow> string \<Rightarrow> string \<Rightarrow> (goerr + byte list) option \<Rightarrow> http_header \<Rightarrow> bool" where
  "covers_request P h method path body headers \<longleftrightarrow> (\<forall>req. rq_url req = hc_baseURL h @ path \<longrightarrow> rq_method req = method \<longrightarrow>
     rq_header req = json_headers h (body \<noteq> None) headers \<longrightarrow> P req)"

lemma restrict_covered:
  "covers_request P h method path body headers \<Longrightarrow>
    requestWithHeadersResult (restrict_http P henv) h method path body decode headers =
    requestWithHeadersResult henv h method path body decode headers"
  by (rule restrict_request) (use json_request_url in \<open>simp add: covers_request_def\<close>)

lemma restrict_calls:
  "covers_request P h method path body headers \<Longrightarrow>
     call config h (\<lambda>n. restrict_http P (henv n)) env method path body headers decode zero =
     call config h henv env method path body headers decode zero"
  "covers_request P h method path None [] \<Longrightarrow>
     call_nothing config h (\<lambda>n. restrict_http P (henv n)) env' method path = call_nothing config h henv env' method path"
  "covers_request P h ''PUT'' path body [] \<Longrightarrow>
     call_provision config h (\<lambda>n. restrict_http P (henv n)) env'' path body decode' zero' =
     call_provision config h henv env'' path body decode' zero'"
  by (simp_all add: call_def call_op_def call_nothing_def call_provision_def request_def requestWithHeaders_def restrict_covered)

text \<open>The segments of the path in a URL below a base URL, as a server reads them.\<close>

definition path_segments :: "string \<Rightarrow> string \<Rightarrow> string list" where
  "path_segments base url = map (unescape False) (tl (split_on (CHR ''/'') (takeWhile (\<lambda>x. x \<noteq> CHR ''?'') (drop (length base) url))))"

lemma PathEscape_no_query: "CHR ''?'' \<notin> set (PathEscape s)" "CHR ''/'' \<notin> set (PathEscape s)"
  using PathEscape_chars [of s] by auto

lemma takeWhile_no_query: "CHR ''?'' \<notin> set s \<Longrightarrow> takeWhile (\<lambda>x. x \<noteq> CHR ''?'') s = s"
  by (rule takeWhile_eq_all_conv [THEN iffD2]) auto

lemma stream_segments [simp]:
  "path_segments base (base @ stream_path name) = [''streams'', name]"
  "path_segments base (base @ ''/streams'') = [''streams'']"
  by (simp_all add: path_segments_def stream_path_def takeWhile_no_query PathEscape_no_query split_on_none)

lemma token_key [simp]: "CanonicalHeaderKey ''s2-request-token'' = ''S2-Request-Token''"
  by code_simp

text \<open>A request of the client of a basin, with its credentials and the name of the basin, for the given path.\<close>

definition basin_request :: "BasinClient \<Rightarrow> string \<Rightarrow> string list \<Rightarrow> http_request \<Rightarrow> bool" where
  "basin_request b method segments req \<longleftrightarrow> rq_method req = method \<and> path_segments (bc_baseURL b) (rq_url req) = segments \<and>
     header_Get ''Authorization'' (rq_header req) = ''Bearer '' @ bc_accessToken b \<and>
     header_Get ''s2-basin'' (rq_header req) = basinHeaderValue b"

lemma json_headers_get:
  "header_Get ''Authorization'' (json_headers h hb []) = ''Bearer '' @ hc_accessToken h"
  "header_Get ''s2-basin'' (json_headers h hb []) = hc_basinName h"
  "header_Get ''Authorization'' (json_headers h hb (request_token t)) = ''Bearer '' @ hc_accessToken h"
  "header_Get ''s2-basin'' (json_headers h hb (request_token t)) = hc_basinName h"
  "header_Get ''s2-request-token'' (json_headers h hb (request_token t)) = t"
  by (simp_all add: json_headers_def request_token_def header_simps Let_def)

lemma covers_basin_request:
  "covers_request (basin_request b method (path_segments (bc_baseURL b) (bc_baseURL b @ path))) (basin_http b) method path body []"
  by (simp add: covers_request_def basin_request_def basin_http_def json_headers_get)

lemma covers_basin_token:
  "covers_request (\<lambda>req. basin_request b method (path_segments (bc_baseURL b) (bc_baseURL b @ path)) req \<and>
     header_Get ''s2-request-token'' (rq_header req) = t) (basin_http b) method path body (request_token t)"
  by (simp add: covers_request_def basin_request_def basin_http_def json_headers_get)

lemma restrict_checked:
  assumes "err = None \<Longrightarrow> out = out'"
  shows "checked err out = checked err out'"
  using assms by (simp add: checked_def split: option.split)

text \<open>C28: The operations on streams send no other requests than theirs, at no attempt: their outcome is the same when the network
  refuses everything else.  The path of each request, whatever characters the name has, is read by a server as the collection
  and the name; each carries the credentials and names the basin; the attempts to create a stream all carry the one request
  token, so that a server can tell a repetition; and nothing at all is sent for a name that does not pass the validation.\<close>

theorem stream_ops_requests:
  "Create_stream marshal decode (\<lambda>n. restrict_http (\<lambda>req. validateStreamName (csa_Stream ca) = None \<and>
       basin_request b ''POST'' [''streams''] req \<and> header_Get ''s2-request-token'' (rq_header req) = token) (henv n)) env token b ca =
     Create_stream marshal decode henv env token b ca \<and>
   Ensure_stream marshal decode (\<lambda>n. restrict_http (\<lambda>req. validateStreamName (esa_Stream ea) = None \<and>
       basin_request b ''PUT'' [''streams'', esa_Stream ea] req) (henv n)) env2 b ea =
     Ensure_stream marshal decode henv env2 b ea \<and>
   Delete_stream (\<lambda>n. restrict_http (\<lambda>req. validateStreamName name = None \<and>
       basin_request b ''DELETE'' [''streams'', name] req) (henv n)) env3 b name = Delete_stream henv env3 b name \<and>
   GetConfig_stream decode4 (\<lambda>n. restrict_http (\<lambda>req. validateStreamName name = None \<and>
       basin_request b ''GET'' [''streams'', name] req) (henv n)) env4 b name = GetConfig_stream decode4 henv env4 b name \<and>
   Reconfigure_stream marshal decode4 (\<lambda>n. restrict_http (\<lambda>req. validateStreamName (rsa_Stream ra) = None \<and>
       basin_request b ''PATCH'' [''streams'', rsa_Stream ra] req) (henv n)) env4 b ra = Reconfigure_stream marshal decode4 henv env4 b ra"
proof -
  note t = covers_basin_token [of b _ "''/streams''" _ _, simplified]
  note p = covers_basin_request [of b _ "stream_path _", simplified]
  show ?thesis
    unfolding Create_stream_def Ensure_stream_def Delete_stream_def GetConfig_stream_def Reconfigure_stream_def
    by (intro conjI; rule restrict_checked; simp add: restrict_calls t p)
qed

section \<open>Iteration over HTTP\<close>

lemma withRetries_outcome:
  "(\<exists>e. ro_result (withRetries config env) = Some (Inl e)) \<or>
   (\<exists>n a. ro_result (withRetries config env) = Some (Inr (Some a)) \<and> re_op env n = Inr a)"
proof -
  obtain r where r: "ro_result (withRetries config env) = Some r" "r \<noteq> Inr None"
    "\<forall>a. r = Inr (Some a) \<longrightarrow> re_op env (ro_calls (withRetries config env)) = Inr a"
    using plain_loop.loop_outcome [OF clamp_attempts_pos, of "chosen_config config" env "chosen_config config" None]
    unfolding withRetries_eq by blast
  show ?thesis
  proof (cases r)
    case (Inr x)
    then show ?thesis using r by (cases x) auto
  qed (use r in auto)
qed

lemma json_result_Inr:
  assumes "json_result env (Some decode) resp = Inr (meta, x)"
  shows "rs_StatusCode resp < 400 \<and>
    (if rs_StatusCode resp = 204 then x = None else \<exists>r. x = Some r \<and> decode (rs_Body resp, rs_BodyErr resp) = Inr r)"
  using assms by (auto simp: json_result_def Let_def split: if_splits sum.splits)

lemma requestWithHeaders_Inr:
  assumes "requestWithHeaders env h method path body (Some decode) headers = Inr x"
  shows "\<exists>req resp. json_request env h method path body headers = Inr req \<and> hx_Do env req = Inr resp \<and>
    rs_StatusCode resp < 400 \<and>
    (if rs_StatusCode resp = 204 then x = None else \<exists>r. x = Some r \<and> decode (rs_Body resp, rs_BodyErr resp) = Inr r)"
proof -
  obtain meta where "requestWithHeadersResult env h method path body (Some decode) headers = Inr (meta, x)"
    using assms by (auto simp: requestWithHeaders_def split: sum.splits)
  moreover then obtain req where req: "json_request env h method path body headers = Inr req"
    by (auto simp: requestWithHeadersResult_def split: sum.splits)
  moreover from calculation obtain resp where "hx_Do env req = Inr resp"
    by (auto simp: requestWithHeadersResult_def split: sum.splits)
  ultimately show ?thesis using json_result_Inr [of env decode resp meta x] by (simp add: requestWithHeadersResult_def)
qed

text \<open>A value returned by a call was decoded from an answer to its request.\<close>

definition answered :: "httpClient \<Rightarrow> http_env \<Rightarrow> string \<Rightarrow> string \<Rightarrow> (goerr + byte list) option \<Rightarrow> http_header \<Rightarrow> 'r json_decoder \<Rightarrow> 'r \<Rightarrow>
    'r \<Rightarrow> bool" where
  "answered h henv method path body headers decode zero a \<longleftrightarrow>
     (\<exists>req resp. json_request henv h method path body headers = Inr req \<and> hx_Do henv req = Inr resp \<and> rs_StatusCode resp < 400 \<and>
        (if rs_StatusCode resp = 204 then a = zero else decode (rs_Body resp, rs_BodyErr resp) = Inr a))"

lemma call_op_Inr:
  assumes "call_op h henv method path body headers decode zero = Inr a"
  shows "answered h henv method path body headers decode zero a"
proof -
  obtain x where x: "requestWithHeaders henv h method path body (Some decode) headers = Inr x"
    and a: "a = (case x of None \<Rightarrow> zero | Some r \<Rightarrow> r)"
    using assms by (auto simp: call_op_def split: sum.splits option.splits)
  obtain req resp where "json_request henv h method path body headers = Inr req" "hx_Do henv req = Inr resp" "rs_StatusCode resp < 400"
    "if rs_StatusCode resp = 204 then x = None else \<exists>r. x = Some r \<and> decode (rs_Body resp, rs_BodyErr resp) = Inr r"
    using requestWithHeaders_Inr [OF x] by blast
  then show ?thesis unfolding answered_def a by (intro exI [of _ req] exI [of _ resp]) auto
qed

lemma call_outcome:
  "(\<exists>e. ro_result (call config h henv env method path body headers decode zero) = Some (Inl e)) \<or>
   (\<exists>n a. ro_result (call config h henv env method path body headers decode zero) = Some (Inr (Some a)) \<and>
      answered h (henv n) method path body headers decode zero a)"
  using withRetries_outcome [of config "env\<lparr>re_op := (\<lambda>n. call_op h (henv n) method path body headers decode zero)\<rparr>"]
  by (auto simp: call_def dest!: call_op_Inr)

text \<open>A server that answers list requests for the streams below a base URL with honest pages of \<open>items\<close>, when it answers
  them at all.\<close>

definition serves_streams :: "ListStreamsResponse json_decoder \<Rightarrow> string \<Rightarrow> StreamInfo list \<Rightarrow> http_env \<Rightarrow> bool" where
  "serves_streams decode base items henv \<longleftrightarrow> (\<forall>req resp q.
     rq_method req = ''GET'' \<and> rq_url req = base @ ''/streams'' @ q \<and> hx_Do henv req = Inr resp \<and> rs_StatusCode resp < 400 \<longrightarrow>
     rs_StatusCode resp \<noteq> 204 \<and> (\<forall>r. decode (rs_Body resp, rs_BodyErr resp) = Inr r \<longrightarrow>
       honest_page sti_Name items (query_param ''prefix'' q) (query_param ''start_after'' q) (lsr_Streams r) (lsr_HasMore r)))"

lemma List_streams_honest:
  assumes "ordered_listing sti_Name items" "\<And>n k. serves_streams decode (bc_baseURL b) items (henv n k)"
  shows "honest_streams (\<lambda>n args. List_streams decode (henv n) (env n) b (Some args)) items"
proof -
  have "honest_result (List_streams decode (henv n) (env n) b (Some args))
      (\<lambda>r. honest_page sti_Name items (ls_Prefix args) (ls_StartAfter args) (lsr_Streams r) (lsr_HasMore r))" for n args
  proof -
    let ?q = "buildQuery (ls_Prefix args) (ls_StartAfter args) (ls_Limit args)"
    let ?out = "List_streams decode (henv n) (env n) b (Some args)"
    have out: "?out = call (bc_retryConfig b) (basin_http b) (henv n) (env n) ''GET'' (''/streams'' @ ?q) None [] decode
        \<lparr>lsr_Streams = [], lsr_HasMore = False\<rparr>"
      by (simp add: List_streams_def Let_def)
    consider e where "ro_result ?out = Some (Inl e)"
      | k a where "ro_result ?out = Some (Inr (Some a))"
        "answered (basin_http b) (henv n k) ''GET'' (''/streams'' @ ?q) None [] decode \<lparr>lsr_Streams = [], lsr_HasMore = False\<rparr> a"
      using call_outcome [of "bc_retryConfig b" "basin_http b" "henv n" "env n" "''GET''" "''/streams'' @ ?q" None "[]" decode
          "\<lparr>lsr_Streams = [], lsr_HasMore = False\<rparr>"] unfolding out by blast
    then show ?thesis
    proof cases
      case 2
      then obtain req resp where r: "json_request (henv n k) (basin_http b) ''GET'' (''/streams'' @ ?q) None [] = Inr req"
        "hx_Do (henv n k) req = Inr resp" "rs_StatusCode resp < 400"
        "if rs_StatusCode resp = 204 then a = \<lparr>lsr_Streams = [], lsr_HasMore = False\<rparr>
         else decode (rs_Body resp, rs_BodyErr resp) = Inr a"
        unfolding answered_def by blast
      have "rq_url req = bc_baseURL b @ ''/streams'' @ ?q" "rq_method req = ''GET''"
        using json_request_url [OF r(1)] by (simp_all add: basin_http_def)
      then have "honest_page sti_Name items (query_param ''prefix'' ?q) (query_param ''start_after'' ?q) (lsr_Streams a) (lsr_HasMore a)"
        using assms(2) [of n k] r(2-4) unfolding serves_streams_def by metis
      then show ?thesis using 2(1) by (simp add: honest_result_def buildQuery_params)
    qed (simp add: honest_result_def)
  qed
  then show ?thesis using assms(1) by (simp add: honest_streams_def)
qed

section \<open>Iterators over HTTP\<close>

text \<open>C27: Iterating over the streams of a basin works over the network as a whole.  The server only has to answer list requests, when
  it answers them at all, with honest pages for the prefix and the start it decodes from the query; answers may also be lost,
  refused or garbled at any attempt.  The loop of the caller then returns the streams with the prefix that come after the start
  and are not being deleted (unless included) in order and once each, until all are returned or an error is reported; \<open>Next\<close> never
  hangs.  The retries, the request, the encoding of the query and the walk through the pages are all part of the statement.\<close>

theorem iter_streams_over_http:
  assumes "ordered_listing sti_Name items" "\<And>n k. serves_streams decode (bc_baseURL b) items (henv n k)"
  shows "\<exists>vs stopped p. drain (fetch_streams (\<lambda>n args. List_streams decode (henv n) (env n) b (Some args)) (Some a)) zero k
      (Iter_streams (Some a)) = Some (vs, stopped, p) \<and>
    take (length vs) (filter (\<lambda>s. streams_matching (Some a) s \<and> ls_StartAfter a < sti_Name s \<and> streams_keep (Some a) s) items) = vs \<and>
    (if stopped then pager_Err p \<noteq> None \<or>
       vs = filter (\<lambda>s. streams_matching (Some a) s \<and> ls_StartAfter a < sti_Name s \<and> streams_keep (Some a) s) items
     else length vs = k \<and> pager_Err p = None)"
  by (rule streams.drain_from [OF List_streams_honest [OF assms]]) (simp_all add: newPager_simps)

section \<open>A server\<close>

text \<open>A server with one stream per page: the body of an answer is the query of the request.\<close>

definition demo_page :: "string \<Rightarrow> ListStreamsResponse" where
  "demo_page q =
     (let m = filter (\<lambda>s. take (length (query_param ''prefix'' q)) (sti_Name s) = query_param ''prefix'' q \<and>
        query_param ''start_after'' q < sti_Name s) demo_items
      in \<lparr>lsr_Streams = take 1 m, lsr_HasMore = (1 < length m)\<rparr>)"

definition demo_decode :: "ListStreamsResponse json_decoder" where
  "demo_decode body = Inr (demo_page (string_of (fst body)))"

definition demo_answer :: "http_request \<Rightarrow> goerr + http_response" where
  "demo_answer req = Inr \<lparr>rs_StatusCode = 200, rs_Header = [], rs_Body = bytes_of (drop (length ''http://s/streams'') (rq_url req)),
     rs_BodyErr = None\<rparr>"

definition demo_http :: http_env where
  "demo_http = \<lparr>hx_NewRequest = (\<lambda>_ _. None), hx_Do = demo_answer,
     hx_codec = \<lparr>zstd_encode = (\<lambda>b. b), zstd_decode = Inr, gzip_encode = Inr, gzip_reader = (\<lambda>_. None), gzip_decode = Inr\<rparr>,
     hx_json = \<lparr>jc_map = (\<lambda>_. None), jc_ErrorInfo = (\<lambda>_. None), jc_TailResponse = (\<lambda>_. None)\<rparr>,
     hx_statusText = (\<lambda>_. ''''), hx_quoted = (\<lambda>_. ''''), hx_marshalConfig = (\<lambda>_. Inr [])\<rparr>"

definition demo_basin :: BasinClient where
  "demo_basin = \<lparr>bc_name = ''b'', bc_baseURL = ''http://s'', bc_accessToken = ''t'', bc_retryConfig = None,
     bc_includeBasinHeader = False, bc_compression = CompressionNone\<rparr>"

definition demo_retries :: "ListStreamsResponse retry_env" where
  "demo_retries = \<lparr>re_op = (\<lambda>_. Inl (errorf '''')), re_before = (\<lambda>_. None), re_after = (\<lambda>_. None),
     re_net = (\<lambda>_ _. None), re_wait = (\<lambda>_ _. None), re_final = None, re_rnd = (\<lambda>_ _. 0)\<rparr>"

lemma demo_serves: "serves_streams demo_decode (bc_baseURL demo_basin) demo_items demo_http"
proof -
  have "honest_page sti_Name demo_items (query_param ''prefix'' q) (query_param ''start_after'' q)
      (lsr_Streams (demo_page q)) (lsr_HasMore (demo_page q))" for q
    unfolding demo_page_def Let_def honest_page_def
    by (auto intro!: exI [of _ "drop 1 (filter (\<lambda>s. take (length (query_param ''prefix'' q)) (sti_Name s) = query_param ''prefix'' q \<and>
        query_param ''start_after'' q < sti_Name s) demo_items)"])
  then show ?thesis
    by (auto simp: serves_streams_def demo_basin_def demo_http_def demo_answer_def demo_decode_def)
qed

lemma demo_items_ordered: "ordered_listing sti_Name demo_items"
  using demo_list_honest by (simp add: honest_streams_def)

theorem iter_streams_over_http_witness:
  "\<exists>vs stopped p. drain (fetch_streams (\<lambda>n args. List_streams demo_decode (\<lambda>_. demo_http) demo_retries demo_basin (Some args))
      (Some zero_ListStreamsArgs)) (demo_stream '''' False) 5 (Iter_streams (Some zero_ListStreamsArgs)) = Some (vs, stopped, p) \<and>
    take (length vs) [demo_stream ''a2'' False, demo_stream ''b1'' False] = vs \<and> stopped"
proof -
  have f: "filter (\<lambda>s. streams_matching (Some zero_ListStreamsArgs) s \<and> ls_StartAfter zero_ListStreamsArgs < sti_Name s \<and>
      streams_keep (Some zero_ListStreamsArgs) s) demo_items = [demo_stream ''a2'' False, demo_stream ''b1'' False]"
    by (simp add: demo_items_def demo_stream_def streams_matching_def streams_keep_def zero_ListStreamsArgs_def)
  obtain vs stopped p where d: "drain (fetch_streams (\<lambda>n args. List_streams demo_decode (\<lambda>_. demo_http) demo_retries demo_basin (Some args))
      (Some zero_ListStreamsArgs)) (demo_stream '''' False) 5 (Iter_streams (Some zero_ListStreamsArgs)) = Some (vs, stopped, p)"
    "take (length vs) [demo_stream ''a2'' False, demo_stream ''b1'' False] = vs" "stopped \<or> length vs = 5"
    using iter_streams_over_http [OF demo_items_ordered demo_serves, of "\<lambda>_. demo_retries" zero_ListStreamsArgs "demo_stream '''' False" 5]
    unfolding f by (auto split: if_splits)
  have "length vs \<le> 2" using arg_cong [OF d(2), of length] by simp
  then show ?thesis using d by auto
qed

end
