(* ===== verification/Bento_Listing.thy ===== *)
theory Bento_Listing
  imports Bento_Streams Account_Ops
begin

text \<open>
  Streams selected by a prefix (\<open>PrefixedInputStreams\<close> of \<open>src/s2-bentobox/input.go\<close>): a page of the discovery is one call
  of \<open>List\<close>.  Together with the manager and the list requests this gives what a multi-stream input reads.
\<close>

section \<open>Pages of a prefix\<close>

definition listStreamsPageLimit :: int where "listStreamsPageLimit = 1000"

text \<open>\<open>list\<close> is the method \<open>basin.Streams.List\<close>; it does not panic (\<open>withRetries_outcome\<close>).\<close>

definition prefixed_page :: "ListStreamsResponse \<Rightarrow> string list \<times> string" where
  "prefixed_page resp =
     (let streams = map sti_Name (filter (\<lambda>info. sti_DeletedAt info = None) (lsr_Streams resp));
          next = (if lsr_HasMore resp \<and> length (lsr_Streams resp) > 0 then sti_Name (last (lsr_Streams resp)) else '''')
      in (streams, next))"

definition listPage_prefixed :: "(ListStreamsArgs \<Rightarrow> ListStreamsResponse retry_outcome) \<Rightarrow> string \<Rightarrow> list_page" where
  "listPage_prefixed list pre cursor =
     (case the (ro_result (list \<lparr>ls_Prefix = pre, ls_StartAfter = cursor, ls_Limit = Some listStreamsPageLimit,
         ls_IncludeDeleted = False\<rparr>)) of
        Inl err \<Rightarrow> Inl err
      | Inr resp \<Rightarrow> Inr (prefixed_page (the resp)))"

definition live_streams :: "string \<Rightarrow> string \<Rightarrow> StreamInfo list \<Rightarrow> string set" where
  "live_streams pre cursor items =
     sti_Name ` {s \<in> set items. take (length pre) (sti_Name s) = pre \<and> sti_DeletedAt s = None \<and> cursor < sti_Name s}"

lemma live_streams_filter:
  "live_streams pre k items =
     sti_Name ` {s \<in> set (filter (\<lambda>s. take (length pre) (sti_Name s) = pre \<and> k < sti_Name s) items). sti_DeletedAt s = None}"
  by (auto simp: live_streams_def)

lemma live_streams_after:
  assumes ord: "ordered_listing sti_Name items"
    and page: "filter (\<lambda>s. take (length pre) (sti_Name s) = pre \<and> cursor < sti_Name s) items = page @ rest" "page \<noteq> []"
  shows "live_streams pre cursor items =
    sti_Name ` {s \<in> set page. sti_DeletedAt s = None} \<union> live_streams pre (sti_Name (last page)) items"
proof -
  define args where "args = \<lparr>ls_Prefix = pre, ls_StartAfter = cursor, ls_Limit = None, ls_IncludeDeleted = False\<rparr>"
  have m: "streams_matching (Some args) s \<longleftrightarrow> take (length pre) (sti_Name s) = pre" for s
    by (simp add: streams_matching_def args_def)
  have rest: "filter (\<lambda>s. take (length pre) (sti_Name s) = pre \<and> sti_Name (last page) < sti_Name s) items = rest"
    using streams.remaining_after [OF ord, of "Some args" cursor page rest] page by (simp add: streams.remaining_items_def m)
  show ?thesis unfolding live_streams_filter rest page(1) by auto
qed

text \<open>A complete pass over an honest listing sees exactly the live streams.\<close>

lemma pass_pages_live:
  assumes "honest_streams list items"
    and "pass_pages cursor (map (\<lambda>n. listPage_prefixed (list n) pre) ns) = Some pages"
  shows "\<Union> (set ` set pages) = live_streams pre cursor items"
  using assms(2)
proof (induction ns arbitrary: cursor pages)
  case (Cons n ns)
  note ord = streams.ordered [OF assms(1)]
  let ?args = "\<lparr>ls_Prefix = pre, ls_StartAfter = cursor, ls_Limit = Some listStreamsPageLimit, ls_IncludeDeleted = False\<rparr>"
  have "honest_result (list n ?args) (\<lambda>r. honest_page sti_Name items pre cursor (lsr_Streams r) (lsr_HasMore r))"
    using assms(1) by (auto simp: honest_streams_def dest!: spec [of _ n] spec [of _ ?args])
  then consider e where "ro_result (list n ?args) = Some (Inl e)"
    | r where "ro_result (list n ?args) = Some (Inr (Some r))" "honest_page sti_Name items pre cursor (lsr_Streams r) (lsr_HasMore r)"
    by (auto simp: honest_result_def split: option.splits sum.splits)
  then show ?case
  proof cases
    case 1
    then show ?thesis using Cons by (simp add: listPage_prefixed_def)
  next
    case (2 r)
    then obtain rest where rest: "filter (\<lambda>s. take (length pre) (sti_Name s) = pre \<and> cursor < sti_Name s) items = lsr_Streams r @ rest"
      "lsr_HasMore r \<longleftrightarrow> rest \<noteq> []" "rest \<noteq> [] \<longrightarrow> lsr_Streams r \<noteq> []" by (auto simp: honest_page_def)
    have lp: "listPage_prefixed (list n) pre cursor = Inr (prefixed_page r)" by (simp add: listPage_prefixed_def 2(1))
    show ?thesis
    proof (cases "rest = []")
      case True
      then have "pages = [fst (prefixed_page r)]" using Cons(2) lp rest(2) by (auto simp: prefixed_page_def split: if_splits)
      moreover have "live_streams pre cursor items = sti_Name ` {s \<in> set (lsr_Streams r). sti_DeletedAt s = None}"
        unfolding live_streams_filter rest(1) using True by simp
      ultimately show ?thesis by (auto simp: prefixed_page_def)
    next
      case False
      let ?k = "sti_Name (last (lsr_Streams r))"
      have ne: "lsr_Streams r \<noteq> []" using False rest(3) by simp
      then have "last (lsr_Streams r) \<in> set (lsr_Streams r @ rest)" by simp
      then have "?k \<noteq> ''''" using ord unfolding rest(1) [symmetric] by (auto simp: ordered_listing_def list_all_iff)
      then obtain tail where tail: "pass_pages ?k (map (\<lambda>n. listPage_prefixed (list n) pre) ns) = Some tail"
        "pages = fst (prefixed_page r) # tail"
        using Cons(2) lp rest(2) ne False by (auto simp: prefixed_page_def)
      have "\<Union> (set ` set pages) = set (fst (prefixed_page r)) \<union> live_streams pre ?k items"
        using Cons(1) [OF tail(1)] tail(2) by simp
      then show ?thesis using live_streams_after [OF ord rest(1) ne] by (auto simp: prefixed_page_def)
    qed
  qed
qed simp

section \<open>What a multi-stream input reads\<close>

text \<open>C32: A multi-stream input that selects streams by a prefix ends every complete pass of its discovery with exactly one worker for
  each stream of the basin that has the prefix and is not being deleted, and no other: workers of such streams that ran before
  keep running, each new stream got one, those of streams that are gone or being deleted were stopped.  List requests may fail
  at any round, the pages may have any size, and a page whose streams are all being deleted does not end the pass.  The
  statement runs from the rounds of the manager down to the query a server decodes.\<close>

theorem bento_workers_live:
  fixes henv :: "nat \<Rightarrow> int \<Rightarrow> http_env"
  assumes "ordered_listing sti_Name items" "\<And>n k. serves_streams decode (bc_baseURL b) items (henv n k)"
    and "mg_discovery m = newStreamDiscovery"
    and "rounds = map (\<lambda>n. listPage_prefixed (\<lambda>args. List_streams decode (henv n) (env n) b (Some args)) pre) ns"
    and "pass_pages '''' rounds = Some pages"
  shows "mg_workers (fold (manager_round c) rounds m) =
      sti_Name ` {s \<in> set items. take (length pre) (sti_Name s) = pre \<and> sti_DeletedAt s = None} \<and>
    (\<exists>new. mg_spawned (fold (manager_round c) rounds m) = mg_spawned m @ new \<and> distinct new \<and>
       set new = sti_Name ` {s \<in> set items. take (length pre) (sti_Name s) = pre \<and> sti_DeletedAt s = None} - mg_workers m)"
proof -
  have "\<Union> (set ` set pages) = live_streams pre '''' items"
    by (rule pass_pages_live [OF List_streams_honest [where henv = henv and env = env, OF assms(1,2)] assms(5) [unfolded assms(4)]])
  also have "\<dots> = sti_Name ` {s \<in> set items. take (length pre) (sti_Name s) = pre \<and> sti_DeletedAt s = None}"
    unfolding live_streams_def
  proof (rule arg_cong [where f = "(`) sti_Name"], intro Collect_cong conj_cong refl)
    have "s \<in> set items \<Longrightarrow> '''' < sti_Name s" for s
      using assms(1) by (cases "sti_Name s") (auto simp: ordered_listing_def list_all_iff)
    then show "s \<in> set items \<Longrightarrow> (sti_DeletedAt s = None \<and> '''' < sti_Name s) = (sti_DeletedAt s = None)" for s by blast
  qed
  finally have u: "\<Union> (set ` set pages) = sti_Name ` {s \<in> set items. take (length pre) (sti_Name s) = pre \<and> sti_DeletedAt s = None}" .
  show ?thesis using pass_from [of m rounds pages c] assms(3,5) unfolding u by (simp add: newStreamDiscovery_def)
qed

lemma demo_List_streams:
  "ro_result (List_streams demo_decode (\<lambda>_. demo_http) demo_retries demo_basin (Some args)) =
     Some (Inr (Some (demo_page (buildQuery (ls_Prefix args) (ls_StartAfter args) (ls_Limit args)))))"
proof -
  have "call_op (basin_http demo_basin) demo_http ''GET'' (''/streams'' @ q) None [] demo_decode zero = Inr (demo_page q)" for q zero
    by (simp add: call_op_def requestWithHeaders_def requestWithHeadersResult_def json_request_def demo_http_def demo_answer_def
        basin_http_def demo_basin_def json_result_def demo_decode_def Let_def)
  then show ?thesis
    unfolding List_streams_def call_def withRetries_eq Let_def option.case
    by (subst withRetries_loop.simps)
      (simp add: clamp_attempts_def demo_retries_def retry_return_def)
qed

lemma demo_listPage:
  "listPage_prefixed (\<lambda>args. List_streams demo_decode (\<lambda>_. demo_http) demo_retries demo_basin (Some args)) '''' cursor =
     Inr (prefixed_page (let m = filter (\<lambda>s. cursor < sti_Name s) demo_items in \<lparr>lsr_Streams = take 1 m, lsr_HasMore = (1 < length m)\<rparr>))"
  by (simp add: listPage_prefixed_def demo_List_streams demo_page_def buildQuery_params)

theorem bento_workers_live_witness:
  "mg_workers (fold (manager_round \<lparr>ic_UpdateStreamsInterval = 0, ic_ListStreamsPageInterval = 0\<rparr>)
     (map (\<lambda>n. listPage_prefixed (\<lambda>args. List_streams demo_decode (\<lambda>_. demo_http) demo_retries demo_basin (Some args)) '''') [0, 1, 2::nat])
     ((new_streamsManager (newSeqNumCache False (\<lambda>_. None)))\<lparr>mg_workers := {''a1'', ''a2''}\<rparr>)) = {''a2'', ''b1''}"
proof -
  let ?rounds = "map (\<lambda>n. listPage_prefixed (\<lambda>args. List_streams demo_decode (\<lambda>_. demo_http) demo_retries demo_basin (Some args)) '''')
    [0, 1, 2::nat]"
  have "pass_pages '''' ?rounds = Some [[], [''a2''], [''b1'']]"
    by (simp add: demo_listPage prefixed_page_def demo_items_def demo_stream_def)
  moreover have "sti_Name ` {s \<in> set demo_items. take (length '''') (sti_Name s) = '''' \<and> sti_DeletedAt s = None} = {''a2'', ''b1''}"
    by (force simp: demo_items_def demo_stream_def)
  ultimately show ?thesis
    using bento_workers_live [OF demo_items_ordered demo_serves, of "(new_streamsManager (newSeqNumCache False (\<lambda>_. None)))
        \<lparr>mg_workers := {''a1'', ''a2''}\<rparr>" ?rounds "\<lambda>_. demo_retries" "''''" "[0, 1, 2]"]
    by (simp add: new_streamsManager_def)
qed

section \<open>The multi-stream input\<close>

text \<open>What workers send to the consumer: a batch of a stream with the index of its acknowledgement function, or an error.\<close>

record recvOutput =
  ro_Stream :: string
  ro_Batch :: "SequencedRecord list"
  ro_AckFunc :: "nat option"
  ro_Err :: "bento_err option"

text \<open>\<open>ReadBatch\<close> and \<open>Close\<close>: \<open>sel\<close> is the error of a done context whose case was taken.  \<open>ready\<close> is what the channel has,
  \<open>Some None\<close> that it is closed; the result \<open>None\<close> means that the call still waits.\<close>

definition ReadBatch_multi :: "recvOutput option option \<Rightarrow> goerr option \<Rightarrow>
    (SequencedRecord list \<times> nat option \<times> string \<times> bento_err option) option" where
  "ReadBatch_multi ready sel = (case sel of
     Some err \<Rightarrow> Some ([], None, '''', Some (Wrapped err))
   | None \<Rightarrow> (case ready of
       None \<Rightarrow> None
     | Some None \<Rightarrow> Some ([], None, '''', Some ErrInputClosed)
     | Some (Some r) \<Rightarrow> Some (ro_Batch r, ro_AckFunc r, ro_Stream r, ro_Err r)))"

definition Close_multi :: "bool \<Rightarrow> goerr option \<Rightarrow> goerr option option" where
  "Close_multi managerDone sel = (case sel of Some err \<Rightarrow> Some (Some err) | None \<Rightarrow> if managerDone then Some None else None)"

end
