(* ===== verification/Metrics.thy ===== *)
theory Metrics
  imports Account_Ops
begin

text \<open>
  Metric queries (\<open>src/s2/metrics.go\<close>): the arguments are checked, the endpoint and the query are built and the request
  is retried.  \<open>quote\<close> is the verb \<open>%q\<close>, \<open>unmarshal\<close> is \<open>json.Unmarshal\<close>; base URLs have no query of their own.
  A sample's numbers are mantissa and exponent of a JSON number.
\<close>

section \<open>Types\<close>

type_synonym float64 = "int \<times> int"
type_synonym MetricSample = "float64 \<times> float64"

record ScalarMetric =
  sm_Name :: string
  sm_Unit :: string
  sm_Value :: float64

record LabelMetric =
  lm_Name :: string
  lm_Values :: "string list"

record GaugeMetric =
  gm_Name :: string
  gm_Unit :: string
  gm_Values :: "MetricSample list"

record AccumulationMetric =
  am_Interval :: string
  am_Name :: string
  am_Unit :: string
  am_Values :: "MetricSample list"

record Metric =
  m_Scalar :: "ScalarMetric option"
  m_Accumulation :: "AccumulationMetric option"
  m_Gauge :: "GaugeMetric option"
  m_Label :: "LabelMetric option"

type_synonym MetricSetResponse = "Metric list"

definition TimeseriesIntervalMinute :: string where "TimeseriesIntervalMinute = ''minute''"
definition TimeseriesIntervalHour :: string where "TimeseriesIntervalHour = ''hour''"
definition TimeseriesIntervalDay :: string where "TimeseriesIntervalDay = ''day''"
definition BasinMetricSetStorage :: string where "BasinMetricSetStorage = ''storage''"
definition StreamMetricSetStorage :: string where "StreamMetricSetStorage = ''storage''"

record AccountMetricsArgs =
  ama_Set :: string
  ama_Start :: "int option"
  ama_End :: "int option"
  ama_Interval :: "string option"

record BasinMetricsArgs =
  bma_Basin :: string
  bma_Set :: string
  bma_Start :: "int option"
  bma_End :: "int option"
  bma_Interval :: "string option"

record StreamMetricsArgs =
  sma_Basin :: string
  sma_Stream :: string
  sma_Set :: string
  sma_Start :: "int option"
  sma_End :: "int option"
  sma_Interval :: "string option"

section \<open>Operations\<close>

definition validateMetricsInterval :: "(string \<Rightarrow> string) \<Rightarrow> string option \<Rightarrow> goerr option" where
  "validateMetricsInterval quote interval = (case interval of
     None \<Rightarrow> None
   | Some i \<Rightarrow>
       if i = '''' then None
       else if i = TimeseriesIntervalMinute \<or> i = TimeseriesIntervalHour \<or> i = TimeseriesIntervalDay then None
       else Some (errorf (''invalid metrics interval: '' @ quote i)))"

definition metrics_params :: "string \<Rightarrow> int option \<Rightarrow> int option \<Rightarrow> string option \<Rightarrow> url_values" where
  "metrics_params metricSet start end interval =
     (let q = [];
          q = values_Set ''set'' metricSet q;
          q = (case start of None \<Rightarrow> q | Some s \<Rightarrow> values_Set ''start'' (dec_int s) q);
          q = (case end of None \<Rightarrow> q | Some e \<Rightarrow> values_Set ''end'' (dec_int e) q)
      in case interval of None \<Rightarrow> q | Some i \<Rightarrow> if i \<noteq> '''' then values_Set ''interval'' i q else q)"

definition metrics_request :: "Client \<Rightarrow> string \<Rightarrow> string \<Rightarrow> int option \<Rightarrow> int option \<Rightarrow> string option \<Rightarrow> http_request" where
  "metrics_request c endpoint metricSet start end interval =
     \<lparr>rq_method = ''GET'', rq_url = endpoint @ ''?'' @ values_Encode (metrics_params metricSet start end interval),
      rq_header = header_Set ''Content-Type'' ''application/json''
        (header_Set ''Authorization'' (''Bearer '' @ cl_accessToken c) []),
      rq_body = None\<rparr>"

definition metrics_attempt :: "(byte list \<Rightarrow> goerr + MetricSetResponse) \<Rightarrow> http_env \<Rightarrow> Client \<Rightarrow> string \<Rightarrow> string \<Rightarrow> int option \<Rightarrow>
    int option \<Rightarrow> string option \<Rightarrow> goerr + MetricSetResponse" where
  "metrics_attempt unmarshal henv c endpoint metricSet start end interval =
     (case hx_NewRequest henv ''GET'' endpoint of
        Some err \<Rightarrow> Inl (errorf_w ''creating request: '' err)
      | None \<Rightarrow>
          (case hx_Do henv (metrics_request c endpoint metricSet start end interval) of
             Inl err \<Rightarrow> Inl (errorf_w ''making request: '' err)
           | Inr resp \<Rightarrow>
               if rs_StatusCode resp \<ge> 400 then Inl (parseHTTPError henv resp)
               else
                 (case ReadAll resp of
                    (_, Some err) \<Rightarrow> Inl (errorf_w ''reading response: '' err)
                  | (body, None) \<Rightarrow>
                      (case unmarshal body of
                         Inl err \<Rightarrow> Inl (errorf_w ''decoding response: '' err)
                       | Inr result \<Rightarrow> Inr result))))"

definition fetchMetrics :: "(byte list \<Rightarrow> goerr + MetricSetResponse) \<Rightarrow> (int \<Rightarrow> http_env) \<Rightarrow> MetricSetResponse retry_env \<Rightarrow> Client \<Rightarrow>
    string \<Rightarrow> string \<Rightarrow> int option \<Rightarrow> int option \<Rightarrow> string option \<Rightarrow> MetricSetResponse retry_outcome" where
  "fetchMetrics unmarshal henv env c endpoint metricSet start end interval =
     checked (if metricSet = '''' then Some (errorf ''metrics set must be provided'') else None)
       (withRetries (Some (cl_retryConfig c))
          (env\<lparr>re_op := (\<lambda>n. metrics_attempt unmarshal (henv n) c endpoint metricSet start end interval)\<rparr>))"

definition Account_metrics :: "(string \<Rightarrow> string) \<Rightarrow> (byte list \<Rightarrow> goerr + MetricSetResponse) \<Rightarrow> (int \<Rightarrow> http_env) \<Rightarrow>
    MetricSetResponse retry_env \<Rightarrow> Client \<Rightarrow> AccountMetricsArgs option \<Rightarrow> MetricSetResponse retry_outcome" where
  "Account_metrics quote unmarshal henv env c args = (case args of
     None \<Rightarrow> retry_return (Inl (errorf ''account metrics args cannot be nil'')) 0
   | Some a \<Rightarrow>
       checked (validateMetricsInterval quote (ama_Interval a))
         (fetchMetrics unmarshal henv env c (cl_baseURL c @ ''/metrics'') (ama_Set a) (ama_Start a) (ama_End a) (ama_Interval a)))"

definition Basin_metrics :: "(string \<Rightarrow> string) \<Rightarrow> (byte list \<Rightarrow> goerr + MetricSetResponse) \<Rightarrow> (int \<Rightarrow> http_env) \<Rightarrow>
    MetricSetResponse retry_env \<Rightarrow> Client \<Rightarrow> BasinMetricsArgs option \<Rightarrow> MetricSetResponse retry_outcome" where
  "Basin_metrics quote unmarshal henv env c args = (case args of
     None \<Rightarrow> retry_return (Inl (errorf ''basin metrics args cannot be nil'')) 0
   | Some a \<Rightarrow>
       checked (validateBasinName (bma_Basin a))
         (checked (validateMetricsInterval quote (bma_Interval a))
           (checked (case bma_Interval a of
                None \<Rightarrow> None
              | Some i \<Rightarrow> if bma_Set a = BasinMetricSetStorage \<and> i \<noteq> '''' \<and> i \<noteq> TimeseriesIntervalHour
                  then Some (errorf ''basin storage metrics only support hour interval'') else None)
             (fetchMetrics unmarshal henv env c (cl_baseURL c @ ''/metrics/'' @ PathEscape (bma_Basin a))
                (bma_Set a) (bma_Start a) (bma_End a) (bma_Interval a)))))"

definition Stream_metrics :: "(string \<Rightarrow> string) \<Rightarrow> (byte list \<Rightarrow> goerr + MetricSetResponse) \<Rightarrow> (int \<Rightarrow> http_env) \<Rightarrow>
    MetricSetResponse retry_env \<Rightarrow> Client \<Rightarrow> StreamMetricsArgs option \<Rightarrow> MetricSetResponse retry_outcome" where
  "Stream_metrics quote unmarshal henv env c args = (case args of
     None \<Rightarrow> retry_return (Inl (errorf ''stream metrics args cannot be nil'')) 0
   | Some a \<Rightarrow>
       checked (validateBasinName (sma_Basin a))
         (checked (validateStreamName (sma_Stream a))
           (checked (validateMetricsInterval quote (sma_Interval a))
             (checked (case sma_Interval a of
                  None \<Rightarrow> None
                | Some i \<Rightarrow> if sma_Set a = StreamMetricSetStorage \<and> i \<noteq> '''' \<and> i \<noteq> TimeseriesIntervalMinute
                    then Some (errorf ''stream storage metrics only support minute interval'') else None)
               (fetchMetrics unmarshal henv env c
                  (cl_baseURL c @ ''/metrics/'' @ PathEscape (sma_Basin a) @ ''/'' @ PathEscape (sma_Stream a))
                  (sma_Set a) (sma_Start a) (sma_End a) (sma_Interval a))))))"

section \<open>What the server reads\<close>

text \<open>The parameters in a URL below a base URL.\<close>

definition metrics_query :: "string \<Rightarrow> string \<Rightarrow> string \<rightharpoonup> string" where
  "metrics_query base url = map_of (decode_query (drop 1 (dropWhile (\<lambda>x. x \<noteq> CHR ''?'') (drop (length base) url))))"

lemma metrics_params_set_param:
  "metrics_params metricSet start end interval =
     set_param ''interval'' (\<lambda>i. i) (if interval = Some '''' then None else interval)
       (set_param ''end'' dec_int end (set_param ''start'' dec_int start (set_param ''set'' (\<lambda>s. s) (Some metricSet) [])))"
  by (auto simp: metrics_params_def set_param_def Let_def split: option.splits)

lemma query_of_metrics: "map_of (decode_query (values_Encode (metrics_params metricSet start end interval))) =
    [''set'' \<mapsto> metricSet](''start'' := map_option dec_int start, ''end'' := map_option dec_int end,
      ''interval'' := (if interval = Some '''' then None else interval))"
proof
  fix k
  have single: "single_values (metrics_params metricSet start end interval)"
    unfolding metrics_params_set_param by (simp add: single_set_param)
  show "map_of (decode_query (values_Encode (metrics_params metricSet start end interval))) k =
      ([''set'' \<mapsto> metricSet](''start'' := map_option dec_int start, ''end'' := map_option dec_int end,
        ''interval'' := (if interval = Some '''' then None else interval))) k"
    unfolding decode_Encode map_of_sorted_pairs [OF single]
    by (auto simp: metrics_params_set_param map_of_set_param split: option.splits)
qed

text \<open>The request a call for stream metrics is for.\<close>

definition asks_metrics :: "Client \<Rightarrow> StreamMetricsArgs \<Rightarrow> http_request \<Rightarrow> bool" where
  "asks_metrics c a req \<longleftrightarrow> validateBasinName (sma_Basin a) = None \<and> validateStreamName (sma_Stream a) = None \<and>
     rq_method req = ''GET'' \<and> path_segments (cl_baseURL c) (rq_url req) = [''metrics'', sma_Basin a, sma_Stream a] \<and>
     metrics_query (cl_baseURL c) (rq_url req) =
       [''set'' \<mapsto> sma_Set a](''start'' := map_option dec_int (sma_Start a), ''end'' := map_option dec_int (sma_End a),
         ''interval'' := (if sma_Interval a = Some '''' then None else sma_Interval a))"

text \<open>A query for the metrics of a stream asks the server for exactly what the caller gave: the outcome is the same when every
  other request is refused.  For names that pass the validation, whatever characters they have (slashes, question marks,
  percent signs), the path of the request splits into the basin's and the stream's name, and its query decodes to the metric
  set, the start, the end (negative ones too) and the interval, which is left out when empty.  With invalid names nothing is
  sent.\<close>

theorem stream_metrics_request:
  "Stream_metrics quote unmarshal (\<lambda>n. restrict_http (asks_metrics c a) (henv n)) env c (Some a) =
     Stream_metrics quote unmarshal henv env c (Some a)"
proof (cases "validateBasinName (sma_Basin a) = None \<and> validateStreamName (sma_Stream a) = None")
  case True
  let ?req = "metrics_request c (cl_baseURL c @ ''/metrics/'' @ PathEscape (sma_Basin a) @ ''/'' @ PathEscape (sma_Stream a))
    (sma_Set a) (sma_Start a) (sma_End a) (sma_Interval a)"
  let ?tail = "''/metrics/'' @ PathEscape (sma_Basin a) @ ''/'' @ PathEscape (sma_Stream a)"
  have q: "CHR ''?'' \<notin> set ?tail" by (simp add: PathEscape_no_query)
  have url: "drop (length (cl_baseURL c)) (rq_url ?req) = ?tail @ ''?'' @ values_Encode (metrics_params (sma_Set a) (sma_Start a) (sma_End a) (sma_Interval a))"
    by (simp add: metrics_request_def)
  have cut: "takeWhile (\<lambda>x. x \<noteq> CHR ''?'') (?tail @ ''?'' @ v) = ?tail" "dropWhile (\<lambda>x. x \<noteq> CHR ''?'') (?tail @ ''?'' @ v) = ''?'' @ v" for v
    using cut_at [OF q, of "''?'' @ v"] by simp_all
  have "split_on (CHR ''/'') ?tail = ['''', ''metrics'', PathEscape (sma_Basin a), PathEscape (sma_Stream a)]"
    using split_on_append [OF PathEscape_no_query(2) [of "sma_Basin a"], of "PathEscape (sma_Stream a)"]
    by (simp add: split_on_none PathEscape_no_query)
  then have "asks_metrics c a ?req"
    using True unfolding asks_metrics_def path_segments_def metrics_query_def url cut
    by (simp add: query_of_metrics) (simp add: metrics_request_def)
  then have "metrics_attempt unmarshal (restrict_http (asks_metrics c a) (henv n)) c
      (cl_baseURL c @ ''/metrics/'' @ PathEscape (sma_Basin a) @ ''/'' @ PathEscape (sma_Stream a))
      (sma_Set a) (sma_Start a) (sma_End a) (sma_Interval a) =
    metrics_attempt unmarshal (henv n) c (cl_baseURL c @ ''/metrics/'' @ PathEscape (sma_Basin a) @ ''/'' @ PathEscape (sma_Stream a))
      (sma_Set a) (sma_Start a) (sma_End a) (sma_Interval a)" for n
    unfolding metrics_attempt_def by (simp only: restrict_http_simps restrict_parseHTTPError if_True)
  then show ?thesis by (simp add: Stream_metrics_def fetchMetrics_def)
next
  case False
  then show ?thesis by (auto simp: Stream_metrics_def checked_def split: option.split)
qed

end
