(* ===== verification/Proxy.thy ===== *)
theory Proxy
  imports Clients
begin

text \<open>
  Streaming connections (\<open>src/s2/client.go\<close>: \<open>newStreamingTransport\<close>; \<open>src/s2/proxy.go\<close>): the transport by scheme, and
  dialling, directly or through a proxy that is asked for a tunnel.  Sockets, TLS and HTTP coding are the environment; a
  connection is what it is a connection to.  A dial keeps a log of what it does to the connections: every one it opens, every
  \<open>Close\<close>, and when the callback that sets a deadline in the past at the end of the context is registered and stopped.  \<open>None\<close> as a result of a call of the environment is success.
\<close>

section \<open>The transport of a scheme\<close>

record http2_transport =
  h2_AllowHTTP :: bool
  h2_MaxReadFrameSize :: nat
  h2_MaxHeaderListSize :: nat
  h2_ReadIdleTimeout :: duration
  h2_PingTimeout :: duration
  h2_WriteByteTimeout :: duration
  h2_IdleConnTimeout :: duration
  h2_TLSClientConfig :: "nat option"
  h2_DialScheme :: string
  h2_DialTimeout :: duration

definition http2MaxReadFrameSize :: nat where "http2MaxReadFrameSize = 16 * 1024 * 1024"
definition http2MaxHeaderListSize :: nat where "http2MaxHeaderListSize = 10 * 1024 * 1024"
definition http2ReadIdleTimeout :: duration where "http2ReadIdleTimeout = 30 * 1000000000"
definition http2PingTimeout :: duration where "http2PingTimeout = 15 * 1000000000"
definition http2WriteByteTimeout :: duration where "http2WriteByteTimeout = 30 * 1000000000"
definition http2IdleConnTimeout :: duration where "http2IdleConnTimeout = 90 * 1000000000"

record schemeAwareTransport =
  sat_https :: http2_transport
  sat_h2c :: http2_transport

definition newStreamingTransport :: "duration \<Rightarrow> nat option \<Rightarrow> schemeAwareTransport" where
  "newStreamingTransport connectionTimeout tlsConfig =
     (let h2cTransport = \<lparr>h2_AllowHTTP = True, h2_MaxReadFrameSize = http2MaxReadFrameSize,
            h2_MaxHeaderListSize = http2MaxHeaderListSize, h2_ReadIdleTimeout = http2ReadIdleTimeout,
            h2_PingTimeout = http2PingTimeout, h2_WriteByteTimeout = http2WriteByteTimeout,
            h2_IdleConnTimeout = http2IdleConnTimeout, h2_TLSClientConfig = None, h2_DialScheme = schemeHTTP,
            h2_DialTimeout = connectionTimeout\<rparr>;
          httpsTransport = h2cTransport\<lparr>h2_AllowHTTP := False, h2_TLSClientConfig := tlsConfig, h2_DialScheme := schemeHTTPS\<rparr>
      in \<lparr>sat_https = httpsTransport, sat_h2c = h2cTransport\<rparr>)"

text \<open>The transport that \<open>schemeAwareTransport.RoundTrip\<close> uses.\<close>

definition RoundTrip_schemeAware :: "schemeAwareTransport \<Rightarrow> string \<Rightarrow> http2_transport" where
  "RoundTrip_schemeAware t scheme = (if scheme = schemeHTTP then sat_h2c t else sat_https t)"

section \<open>Dialling\<close>

text \<open>A TCP connection, a connection through a SOCKS proxy, TLS to a server name, and a connection of which some bytes were
  read ahead.\<close>

datatype net_conn = Tcp string | Socks string string | Tls net_conn string | Ahead net_conn "byte list"

record proxy_url =
  px_Scheme :: string
  px_Host :: string
  px_Hostname :: string
  px_Port :: string
  px_User :: "(string \<times> string) option"

record connect_request =
  cr_Host :: string
  cr_Header :: http_header

record connect_response =
  cs_StatusCode :: int
  cs_Status :: string
  cs_Buffered :: "byte list"

text \<open>\<open>de_ctxErr n\<close> is \<open>ctx.Err()\<close> at the \<open>n\<close>-th place that asks for it, \<open>de_stop\<close> what the last \<open>stop()\<close> returns.\<close>

record dial_env =
  de_proxy :: "(string \<Rightarrow> string \<Rightarrow> goerr + proxy_url option) option"
  de_tlsConfig :: "nat option"
  de_dial :: "string \<Rightarrow> goerr option"
  de_socksURL :: "goerr option"
  de_socks :: "string \<Rightarrow> goerr option"
  de_handshake :: "goerr option"
  de_write :: "connect_request \<Rightarrow> goerr option"
  de_response :: "goerr + connect_response"
  de_ctxErr :: "nat \<Rightarrow> goerr option"
  de_stop :: bool
  de_quote :: "string \<Rightarrow> string"

text \<open>The log of a dial, and what it returns with it.  \<open>AfterFunc\<close> registers the callback that sets a deadline on the raw
  connection, \<open>stop\<close> unregisters it.\<close>

datatype dial_event = Opened net_conn | AfterFunc net_conn | Stop | Closed net_conn

record dial_result =
  dr_conn :: "net_conn option"
  dr_err :: "goerr option"
  dr_log :: "dial_event list"

definition dial_ok :: "net_conn \<Rightarrow> dial_event list \<Rightarrow> dial_result" where
  "dial_ok conn log = \<lparr>dr_conn = Some conn, dr_err = None, dr_log = log\<rparr>"

definition dial_err :: "goerr \<Rightarrow> dial_event list \<Rightarrow> dial_result" where
  "dial_err err log = \<lparr>dr_conn = None, dr_err = Some err, dr_log = log\<rparr>"

definition DialContext :: "dial_env \<Rightarrow> string \<Rightarrow> dial_result" where
  "DialContext env addr = (case de_dial env addr of
     Some err \<Rightarrow> dial_err err []
   | None \<Rightarrow> dial_ok (Tcp addr) [Opened (Tcp addr)])"

text \<open>The closure \<open>fail\<close>: the callback is stopped, the connection closed, and the context's error goes first.\<close>

definition dial_fail :: "dial_env \<Rightarrow> nat \<Rightarrow> net_conn \<Rightarrow> goerr \<Rightarrow> dial_event list \<Rightarrow> dial_result" where
  "dial_fail env n conn err log =
     (let log = log @ [Stop];
          log = log @ [Closed conn]
      in case de_ctxErr env n of Some ctxErr \<Rightarrow> dial_err ctxErr log | None \<Rightarrow> dial_err err log)"

definition proxy_addr :: "proxy_url \<Rightarrow> string" where
  "proxy_addr proxyURL =
     (if px_Port proxyURL = ''''
      then JoinHostPort (px_Hostname proxyURL) (if px_Scheme proxyURL = schemeHTTPS then ''443'' else ''80'')
      else px_Host proxyURL)"

definition connect_request :: "proxy_url \<Rightarrow> string \<Rightarrow> connect_request" where
  "connect_request proxyURL addr =
     \<lparr>cr_Host = addr,
      cr_Header = (case px_User proxyURL of
          None \<Rightarrow> []
        | Some (username, password) \<Rightarrow>
            header_Set ''Proxy-Authorization''
              (''Basic '' @ string_of (base64_Encode (bytes_of (username @ '':'' @ password)))) [])\<rparr>"

text \<open>From the open connection to the proxy on: TLS to an HTTPS proxy, then the \<open>CONNECT\<close> exchange.\<close>

definition connect_exchange ::
    "dial_env \<Rightarrow> proxy_url \<Rightarrow> string \<Rightarrow> string \<Rightarrow> net_conn \<Rightarrow> dial_event list \<Rightarrow> dial_result" where
  "connect_exchange env proxyURL proxyAddr addr conn log =
     (case de_write env (connect_request proxyURL addr) of
        Some err \<Rightarrow> dial_fail env 1 conn (errorf_w (''write CONNECT to proxy '' @ proxyAddr @ '': '') err) log
      | None \<Rightarrow>
          (case de_response env of
             Inl err \<Rightarrow> dial_fail env 2 conn (errorf_w (''read CONNECT response from proxy '' @ proxyAddr @ '': '') err) log
           | Inr resp \<Rightarrow>
               if cs_StatusCode resp \<noteq> 200
               then dial_fail env 3 conn
                 (errorf (''proxy '' @ proxyAddr @ '' refused CONNECT to '' @ addr @ '': '' @ cs_Status resp)) log
               else
                 let log = log @ [Stop] in
                 if \<not> de_stop env then \<lparr>dr_conn = None, dr_err = de_ctxErr env 4, dr_log = log @ [Closed conn]\<rparr>
                 else if length (cs_Buffered resp) > 0 then dial_ok (Ahead conn (cs_Buffered resp)) log
                 else dial_ok conn log))"

definition dialThroughProxy :: "dial_env \<Rightarrow> proxy_url \<Rightarrow> string \<Rightarrow> dial_result" where
  "dialThroughProxy env proxyURL addr =
     (if px_Scheme proxyURL = ''socks5'' \<or> px_Scheme proxyURL = ''socks5h'' then
        (case de_socksURL env of
           Some err \<Rightarrow> dial_err err []
         | None \<Rightarrow>
             let conn = Socks (px_Host proxyURL) addr in
             (case de_socks env addr of Some err \<Rightarrow> dial_err err [] | None \<Rightarrow> dial_ok conn [Opened conn]))
      else if px_Scheme proxyURL \<noteq> schemeHTTP \<and> px_Scheme proxyURL \<noteq> schemeHTTPS then
        dial_err (errorf (''unsupported proxy scheme '' @ de_quote env (px_Scheme proxyURL))) []
      else
        let proxyAddr = proxy_addr proxyURL in
        case de_dial env proxyAddr of
          Some err \<Rightarrow> dial_err (errorf_w (''dial proxy '' @ proxyAddr @ '': '') err) []
        | None \<Rightarrow>
            let rawConn = Tcp proxyAddr;
                conn = rawConn;
                log = [Opened rawConn, AfterFunc rawConn] in
            if px_Scheme proxyURL = schemeHTTPS then
              (case de_handshake env of
                 Some err \<Rightarrow> dial_fail env 0 conn (errorf_w (''proxy '' @ proxyAddr @ '' TLS handshake: '') err) log
               | None \<Rightarrow> connect_exchange env proxyURL proxyAddr addr (Tls conn (px_Hostname proxyURL)) log)
            else connect_exchange env proxyURL proxyAddr addr conn log)"

text \<open>\<open>streamingDialer.dial\<close>.\<close>

definition dial :: "dial_env \<Rightarrow> string \<Rightarrow> string \<Rightarrow> dial_result" where
  "dial env scheme addr =
     (case de_proxy env of
        None \<Rightarrow> DialContext env addr
      | Some proxy \<Rightarrow>
          (case proxy scheme addr of
             Inl err \<Rightarrow> dial_err (errorf_w (''resolve proxy for '' @ addr @ '': '') err) []
           | Inr (Some proxyURL) \<Rightarrow> dialThroughProxy env proxyURL addr
           | Inr None \<Rightarrow> DialContext env addr))"

text \<open>\<open>bufferedConn.Read\<close>: the bytes read ahead come first.  \<open>next\<close> is what the connection yields.\<close>

definition Read_buffered :: "nat \<Rightarrow> byte list \<Rightarrow> (goerr + byte list) \<Rightarrow> (goerr + byte list) \<times> byte list" where
  "Read_buffered n ahead next = (if ahead \<noteq> [] then (Inr (take n ahead), drop n ahead) else (next, []))"

section \<open>Properties\<close>

text \<open>A stopped exchange had a context that ended.\<close>

definition dial_env_ok :: "dial_env \<Rightarrow> bool" where
  "dial_env_ok env \<longleftrightarrow> (\<not> de_stop env \<longrightarrow> de_ctxErr env 4 \<noteq> None)"

text \<open>What a log leaves behind: the connections still open, where closing a TLS connection or one with bytes read ahead
  closes the connection below it, and whether the callback is still registered.\<close>

fun raw_conn :: "net_conn \<Rightarrow> net_conn" where
  "raw_conn (Tls conn name) = raw_conn conn"
| "raw_conn (Ahead conn ahead) = raw_conn conn"
| "raw_conn conn = conn"

fun left_open :: "dial_event list \<Rightarrow> net_conn list \<Rightarrow> net_conn list" where
  "left_open [] conns = conns"
| "left_open (Opened conn # log) conns = left_open log (raw_conn conn # conns)"
| "left_open (Closed conn # log) conns = left_open log (remove1 (raw_conn conn) conns)"
| "left_open (_ # log) conns = left_open log conns"

fun left_registered :: "dial_event list \<Rightarrow> bool \<Rightarrow> bool" where
  "left_registered [] registered = registered"
| "left_registered (AfterFunc conn # log) registered = left_registered log True"
| "left_registered (Stop # log) registered = left_registered log False"
| "left_registered (_ # log) registered = left_registered log registered"

text \<open>The outcome of a dial is a connection that alone is open, or an error with nothing left open; in neither case can the
  end of the context set a deadline afterwards.\<close>

definition dial_clean :: "dial_result \<Rightarrow> bool" where
  "dial_clean r \<longleftrightarrow> \<not> left_registered (dr_log r) False \<and>
     (case dr_conn r of
        Some conn \<Rightarrow> dr_err r = None \<and> left_open (dr_log r) [] = [raw_conn conn]
      | None \<Rightarrow> dr_err r \<noteq> None \<and> left_open (dr_log r) [] = [])"

lemmas dial_result_defs = dial_clean_def dial_ok_def dial_err_def dial_fail_def DialContext_def

lemma connect_exchange_clean:
  assumes "dial_env_ok env" "raw_conn conn = raw"
  shows "dial_clean (connect_exchange env proxyURL proxyAddr addr conn [Opened raw, AfterFunc raw])"
proof -
  have "raw_conn raw = raw" using assms(2) by (induction conn) auto
  then show ?thesis
    using assms by (auto simp: connect_exchange_def dial_env_ok_def dial_result_defs Let_def split: option.splits sum.splits)
qed

lemma dial_fail_clean: "raw_conn raw = raw \<Longrightarrow> dial_clean (dial_fail env n raw err [Opened raw, AfterFunc raw])"
  by (auto simp: dial_result_defs Let_def split: option.splits)

lemma dialThroughProxy_clean:
  assumes "dial_env_ok env"
  shows "dial_clean (dialThroughProxy env proxyURL addr)"
proof -
  have err: "dial_clean (dial_err err [])" for err by (simp add: dial_result_defs)
  have socks: "dial_clean (dial_ok (Socks host addr) [Opened (Socks host addr)])" for host by (simp add: dial_result_defs)
  show ?thesis using connect_exchange_clean [OF assms] dial_fail_clean err socks
    by (simp add: dialThroughProxy_def Let_def split: option.split)
qed

lemma dial_results [simp]:
  "dr_conn (dial_ok conn log) = Some conn" "dr_conn (dial_err err log) = None" "dr_conn (dial_fail env n conn err log) = None"
  by (simp_all add: dial_ok_def dial_err_def dial_fail_def Let_def split: option.split)

lemma connect_exchange_conn:
  "dr_conn (connect_exchange env proxyURL proxyAddr addr conn log) = Some c \<Longrightarrow>
     de_write env (connect_request proxyURL addr) = None \<and>
     (\<exists>resp. de_response env = Inr resp \<and> cs_StatusCode resp = 200 \<and>
        c = (if cs_Buffered resp = [] then conn else Ahead conn (cs_Buffered resp)))"
  by (auto simp: connect_exchange_def Let_def split: option.splits sum.splits if_splits)

text \<open>C33: Dialling a streaming connection leaks nothing and goes where it was told.  Whatever fails (resolving the proxy, the
  TCP connection, the TLS handshake, writing or reading \<open>CONNECT\<close>, a refusal, the end of the context in the middle), the caller
  gets either the one connection that is still open and no error, or an error and every opened connection has been closed; the
  callback at the end of the context is always unregistered, so that a later end cannot break a returned connection.  A connection through an HTTP
  or HTTPS proxy is only returned after the proxy answered 200 to a \<open>CONNECT\<close> for the target; it goes to the proxy's own port or
  to the default port of its scheme, over TLS in the proxy's name exactly for an HTTPS proxy, and bytes the proxy sent early
  are not lost.\<close>

theorem dial_safe:
  assumes "dial_env_ok env"
  shows "dial_clean (dial env scheme addr) \<and>
    (\<forall>proxy proxyURL c. de_proxy env = Some proxy \<and> proxy scheme addr = Inr (Some proxyURL) \<and>
       px_Scheme proxyURL \<in> {schemeHTTP, schemeHTTPS} \<and> dr_conn (dial env scheme addr) = Some c \<longrightarrow>
       de_write env (connect_request proxyURL addr) = None \<and>
       (\<exists>resp. de_response env = Inr resp \<and> cs_StatusCode resp = 200 \<and>
          (let conn = (if px_Scheme proxyURL = schemeHTTPS then Tls (Tcp (proxy_addr proxyURL)) (px_Hostname proxyURL)
                       else Tcp (proxy_addr proxyURL))
           in c = (if cs_Buffered resp = [] then conn else Ahead conn (cs_Buffered resp)))))"
proof (intro conjI allI impI; (elim conjE)?)
  show "dial_clean (dial env scheme addr)"
  proof -
    have "dial_clean (DialContext env addr)" "dial_clean (dial_err err [])" for err
      by (simp_all add: dial_result_defs split: option.split)
    then show ?thesis using dialThroughProxy_clean [OF assms] by (simp add: dial_def split: option.split sum.split)
  qed
  fix proxy proxyURL c
  assume a: "de_proxy env = Some proxy" "proxy scheme addr = Inr (Some proxyURL)"
    "px_Scheme proxyURL \<in> {schemeHTTP, schemeHTTPS}" "dr_conn (dial env scheme addr) = Some c"
  let ?conn = "if px_Scheme proxyURL = schemeHTTPS then Tls (Tcp (proxy_addr proxyURL)) (px_Hostname proxyURL)
    else Tcp (proxy_addr proxyURL)"
  have "\<exists>log. dr_conn (connect_exchange env proxyURL (proxy_addr proxyURL) addr ?conn log) = Some c"
    using a by (auto simp: dial_def dialThroughProxy_def Let_def schemeHTTP_def schemeHTTPS_def split: option.splits if_splits)
  then obtain log where "dr_conn (connect_exchange env proxyURL (proxy_addr proxyURL) addr ?conn log) = Some c" by blast
  from connect_exchange_conn [OF this]
  show "de_write env (connect_request proxyURL addr) = None"
    "\<exists>resp. de_response env = Inr resp \<and> cs_StatusCode resp = 200 \<and>
       (let conn = ?conn in c = (if cs_Buffered resp = [] then conn else Ahead conn (cs_Buffered resp)))"
    by (auto simp: Let_def)
qed

text \<open>The proxy gets the credentials of its URL.\<close>

lemma connect_credentials:
  assumes "px_User proxyURL = Some (username, password)"
  shows "header_Get ''Proxy-Authorization'' (cr_Header (connect_request proxyURL addr)) =
      ''Basic '' @ string_of (base64_Encode (bytes_of (username @ '':'' @ password)))"
    "string_of (base64_Decode (base64_Encode (bytes_of (username @ '':'' @ password)))) = username @ '':'' @ password"
  by (simp_all add: connect_request_def assms header_Get_Set base64_decode_encode)

definition demo_proxy :: proxy_url where
  "demo_proxy = \<lparr>px_Scheme = ''https'', px_Host = ''p'', px_Hostname = ''p'', px_Port = '''', px_User = Some (''u'', ''w'')\<rparr>"

definition demo_dial :: dial_env where
  "demo_dial = \<lparr>de_proxy = Some (\<lambda>_ _. Inr (Some demo_proxy)), de_tlsConfig = None, de_dial = (\<lambda>_. None), de_socksURL = None,
     de_socks = (\<lambda>_. None), de_handshake = None, de_write = (\<lambda>_. None),
     de_response = Inr \<lparr>cs_StatusCode = 200, cs_Status = ''200 OK'', cs_Buffered = [7]\<rparr>, de_ctxErr = (\<lambda>_. None), de_stop = True,
     de_quote = (\<lambda>s. s)\<rparr>"

theorem dial_safe_witness:
  "dial_clean (dial demo_dial ''https'' ''b:443'') \<and>
    dr_conn (dial demo_dial ''https'' ''b:443'') = Some (Ahead (Tls (Tcp ''p:443'') ''p'') [7])"
proof -
  have ok: "dial_env_ok demo_dial" by (simp add: dial_env_ok_def demo_dial_def)
  have "px_Scheme demo_proxy \<in> {schemeHTTP, schemeHTTPS}" by (simp add: demo_proxy_def schemeHTTP_def schemeHTTPS_def)
  moreover have "de_proxy demo_dial = Some (\<lambda>_ _. Inr (Some demo_proxy))" by (simp add: demo_dial_def)
  moreover obtain c where c: "dr_conn (dial demo_dial ''https'' ''b:443'') = Some c"
    by (simp add: dial_def demo_dial_def dialThroughProxy_def demo_proxy_def schemeHTTP_def schemeHTTPS_def connect_exchange_def
        dial_ok_def Let_def)
  ultimately show ?thesis
    using dial_safe [OF ok, of "''https''" "''b:443''"]
    by (auto simp: demo_dial_def demo_proxy_def proxy_addr_def schemeHTTPS_def JoinHostPort_def)
qed

end
