(* ===== verification/Transport_Start.thy ===== *)
theory Transport_Start
  imports Account_Ops Transport
begin

text \<open>
  The request of an append session (\<open>start\<close> in \<open>src/s2/append.go\<close>).  Its body is the pipe the session writes its frames to,
  which is the wire of \<open>Transport\<close>; the request itself has no fixed body.
\<close>

definition start_headers :: "StreamClient \<Rightarrow> http_header" where
  "start_headers s =
     (let b = sc_basinClient s;
          hs = header_Set ''Authorization'' (''Bearer '' @ bc_accessToken b) [];
          hs = header_Set ''Accept'' ''application/protobuf'' hs;
          encoding = AcceptEncoding (bc_compression b);
          hs = (if encoding \<noteq> '''' then header_Set ''Accept-Encoding'' encoding hs else hs);
          hs = header_Set ''Content-Type'' ''s2s/proto'' hs;
          basinName = basinHeaderValue b;
          hs = (if basinName \<noteq> '''' then header_Set ''s2-basin'' basinName hs else hs)
      in setEncryptionKeyHeader (sc_encryptionKey s) hs)"

text \<open>The request is made before the header of the configuration is set; the writer is installed last.\<close>

definition start_transport :: "http_env \<Rightarrow> StreamClient \<Rightarrow> StreamConfig option \<Rightarrow> goerr + http_request \<times> transportAppendSession" where
  "start_transport env s streamConfig =
     (let reqURL = bc_baseURL (sc_basinClient s) @ records_path s in
      case hx_NewRequest env ''POST'' reqURL of
        Some err \<Rightarrow> Inl (errorf_w ''failed to create request: '' err)
      | None \<Rightarrow>
          (case setStreamConfigHeader (hx_marshalConfig env) streamConfig (start_headers s) of
             Inl err \<Rightarrow> Inl err
           | Inr hs \<Rightarrow> Inr (\<lparr>rq_method = ''POST'', rq_url = reqURL, rq_header = hs, rq_body = None\<rparr>, createAppendSession)))"


text \<open>The session with its response: what \<open>client.Do\<close> gives, seen by \<open>connectAndRead\<close>.\<close>

definition answer_of :: "goerr + http_response \<Rightarrow> http_answer" where
  "answer_of res = (case res of
     Inl err \<Rightarrow> DoFailed err
   | Inr resp \<Rightarrow> (case ReadAll_limited maxErrorBodyBytes resp of (body, readErr) \<Rightarrow> DoStatus (rs_StatusCode resp) body readErr))"

definition open_transport :: "transport_env \<Rightarrow> http_env \<Rightarrow> StreamClient \<Rightarrow> StreamConfig option \<Rightarrow>
    goerr + transportAppendSession \<times> bool" where
  "open_transport tenv env s streamConfig = (case start_transport env s streamConfig of
     Inl err \<Rightarrow> Inl err
   | Inr (req, p) \<Rightarrow> Inr (connectAndRead tenv p (answer_of (hx_Do env req))))"

lemma records_segments [simp]: "path_segments base (base @ records_path s) = [''streams'', sc_name s, ''records'']"
proof -
  have cut: "takeWhile (\<lambda>x. x \<noteq> CHR ''?'') (records_path s) = records_path s"
    by (rule takeWhile_no_query) (simp add: records_path_def PathEscape_no_query)
  have parts: "split_on (CHR ''/'') (records_path s) = ['''', ''streams'', PathEscape (sc_name s), ''records'']"
    using split_on_append [OF PathEscape_no_query(2) [of "sc_name s"], of "''records''"]
    by (simp add: records_path_def split_on_none)
  show ?thesis by (simp add: path_segments_def cut parts)
qed

definition session_request :: "http_env \<Rightarrow> StreamClient \<Rightarrow> StreamConfig option \<Rightarrow> http_request \<Rightarrow> bool" where
  "session_request env s streamConfig req \<longleftrightarrow>
     basin_request (sc_basinClient s) ''POST'' [''streams'', sc_name s, ''records''] req \<and>
     header_Get ''Content-Type'' (rq_header req) = ''s2s/proto'' \<and>
     header_Get s2EncryptionKeyHeader (rq_header req) =
       (case sc_encryptionKey s of None \<Rightarrow> '''' | Some k \<Rightarrow> if key_isZero k then '''' else string_of (headerValue k)) \<and>
     header_Get s2StreamConfigHeader (rq_header req) =
       (case streamConfig of None \<Rightarrow> '''' | Some c \<Rightarrow> (case hx_marshalConfig env c of Inl err \<Rightarrow> '''' | Inr encoded \<Rightarrow> string_of encoded))"

lemma start_headers_get:
  "header_Get ''Authorization'' (start_headers s) = ''Bearer '' @ bc_accessToken (sc_basinClient s)"
  "header_Get ''Content-Type'' (start_headers s) = ''s2s/proto''"
  "header_Get ''s2-basin'' (start_headers s) = basinHeaderValue (sc_basinClient s)"
  "header_Get s2EncryptionKeyHeader (start_headers s) =
     (case sc_encryptionKey s of None \<Rightarrow> '''' | Some k \<Rightarrow> if key_isZero k then '''' else string_of (headerValue k))"
  "header_Get s2StreamConfigHeader (start_headers s) = ''''"
  by (simp_all add: start_headers_def setEncryptionKeyHeader_def header_simps Let_def split: option.split)

lemma start_transport_request:
  assumes "start_transport env s streamConfig = Inr (req, p)"
  shows "session_request env s streamConfig req" and "p = createAppendSession"
proof -
  obtain hs where hs: "setStreamConfigHeader (hx_marshalConfig env) streamConfig (start_headers s) = Inr hs"
      "req = \<lparr>rq_method = ''POST'', rq_url = bc_baseURL (sc_basinClient s) @ records_path s, rq_header = hs, rq_body = None\<rparr>"
      "p = createAppendSession"
    using assms by (auto simp: start_transport_def Let_def split: option.splits sum.splits)
  then show "session_request env s streamConfig req" and "p = createAppendSession"
    by (auto simp: session_request_def basin_request_def setStreamConfigHeader_def header_simps start_headers_get split: option.splits sum.splits)
qed

text \<open>Opening an append session sends no other request than the one for its stream, with the client's credentials, the
encryption key and the configuration of the stream.\<close>

theorem append_session_request:
  "open_transport tenv (restrict_http (session_request env s streamConfig) env) s streamConfig = open_transport tenv env s streamConfig"
proof -
  have start: "start_transport (restrict_http P env) s streamConfig = start_transport env s streamConfig" for P
    unfolding start_transport_def restrict_http_simps ..
  show ?thesis
  proof (cases "start_transport env s streamConfig")
    case (Inl err)
    then show ?thesis by (simp add: open_transport_def start)
  next
    case (Inr rp)
    obtain req p where rp: "rp = (req, p)" by (cases rp)
    then have "session_request env s streamConfig req" using start_transport_request(1) Inr by blast
    then show ?thesis using Inr rp by (simp add: open_transport_def start)
  qed
qed

end
