(* ===== verification/Spec_Sync.thy ===== *)
theory Spec_Sync
  imports Endpoints "HOL-Library.AList" "HOL-Library.Char_ord" "HOL-Library.List_Lexorder"
begin

text \<open>
  The checker that compares the SDK with the OpenAPI document (\<open>src/internal/specsync\<close>): \<open>check\<close> with its passes over
  configuration, schemas, operations and accepted deviations, the text normalisation and the views of a schema; the main theorem says when it reports nothing.
  Go maps are association lists of which the first entry of a key counts;
  a range over a map visits every key once, here in the order of the list.  A position is its text.
\<close>

section \<open>Texts\<close>

definition space_strings :: "string list" where
  "space_strings = map string_of space_runes"

definition strip_space :: "string \<Rightarrow> string option" where
  "strip_space s = map_option (\<lambda>r. drop (length r) s) (find (\<lambda>r. prefix r s) space_strings)"

lemma strip_space_shorter: "strip_space s = Some r \<Longrightarrow> length r < length s"
proof -
  assume "strip_space s = Some r"
  then obtain w where w: "find (\<lambda>r. prefix r s) space_strings = Some w" "r = drop (length w) s" by (auto simp: strip_space_def)
  then have "w \<in> set space_strings" "prefix w s" by (auto simp: find_Some_iff)
  moreover have "w \<noteq> ''''" using calculation(1) by (auto simp: space_strings_def space_runes_def string_of_def)
  ultimately show ?thesis using w(2) by (cases w; cases s) auto
qed

text \<open>\<open>strings.Fields\<close>: \<open>word\<close> is the field read so far.\<close>

function fields_from :: "string \<Rightarrow> string \<Rightarrow> string list" where
  "fields_from word s = (case strip_space s of
     Some rest \<Rightarrow> (if word = '''' then [] else [word]) @ fields_from '''' rest
   | None \<Rightarrow> (case s of [] \<Rightarrow> if word = '''' then [] else [word] | c # rest \<Rightarrow> fields_from (word @ [c]) rest))"
  by pat_completeness auto
termination
  by (relation "measure (\<lambda>(_, s). length s)") (auto dest: strip_space_shorter)

declare fields_from.simps [simp del]

definition collapse :: "string \<Rightarrow> string" where
  "collapse text = join '' '' (fields_from '''' text)"

definition sameText :: "string \<Rightarrow> string \<Rightarrow> bool" where
  "sameText left right \<longleftrightarrow> collapse left = collapse right"

text \<open>A match of \<open>\[([^\]]+)\]\([^\s)]+\)\<close> at the beginning: the first group, and what follows the match.\<close>

definition re_space :: "char \<Rightarrow> bool" where
  "re_space c \<longleftrightarrow> c \<in> {CHR 0x09, CHR 0x0A, CHR 0x0C, CHR 0x0D, CHR '' ''}"

definition link_at :: "string \<Rightarrow> (string \<times> string) option" where
  "link_at s = (case s of
     [] \<Rightarrow> None
   | c # r \<Rightarrow>
       if c \<noteq> CHR ''['' then None
       else
         let label = takeWhile (\<lambda>x. x \<noteq> CHR '']'') r; rest = dropWhile (\<lambda>x. x \<noteq> CHR '']'') r;
             target = drop 2 rest;
             url = takeWhile (\<lambda>x. x \<noteq> CHR '')'' \<and> \<not> re_space x) target;
             rest2 = dropWhile (\<lambda>x. x \<noteq> CHR '')'' \<and> \<not> re_space x) target
         in if label \<noteq> '''' \<and> prefix '']('' rest \<and> url \<noteq> '''' \<and> prefix '')'' rest2 then Some (label, drop 1 rest2) else None)"

lemma link_at_shorter: "link_at s = Some (label, r) \<Longrightarrow> length r < length s"
proof (cases s)
  case (Cons c t)
  assume "link_at s = Some (label, r)"
  then have r: "r = drop 1 (dropWhile (\<lambda>x. x \<noteq> CHR '')'' \<and> \<not> re_space x) (drop 2 (dropWhile (\<lambda>x. x \<noteq> CHR '']'') t)))"
    by (auto simp: link_at_def Cons Let_def split: if_splits)
  have "length (dropWhile P xs) \<le> length xs" for P and xs :: string by (simp add: length_dropWhile_le)
  then have "length r \<le> length t" unfolding r by (metis (no_types, lifting) diff_le_self le_trans length_drop)
  then show ?thesis by (simp add: Cons)
qed (simp add: link_at_def)

text \<open>\<open>markdownLink.ReplaceAllString(text, "$1")\<close>.\<close>

function drop_links :: "string \<Rightarrow> string" where
  "drop_links s = (case s of
     [] \<Rightarrow> ''''
   | c # t \<Rightarrow> (case link_at s of Some (label, rest) \<Rightarrow> label @ drop_links rest | None \<Rightarrow> c # drop_links t))"
  by pat_completeness auto
termination
  by (relation "measure length") (auto dest: link_at_shorter)

declare drop_links.simps [simp del]

type_synonym 'v go_map = "(string \<times> 'v) list"

definition go_range :: "'v go_map \<Rightarrow> (string \<times> 'v) list" where
  "go_range m = map (\<lambda>k. (k, the (map_of m k))) (remdups (map fst m))"

definition sortedKeys :: "'v go_map \<Rightarrow> string list" where
  "sortedKeys m = sort (remdups (map fst m))"

definition normalize :: "string \<Rightarrow> string \<Rightarrow> bool \<Rightarrow> string list go_map \<Rightarrow> string" where
  "normalize text format isTime formatPhrases =
     (let text = drop_links text;
          text = replace_all ''`'' '''' text;
          text = (if isTime then fold (\<lambda>phrase text. replace_all phrase '''' text)
              (case map_of formatPhrases format of None \<Rightarrow> [] | Some phrases \<Rightarrow> phrases) text
            else text)
      in collapse text)"

section \<open>The document\<close>

datatype SchemaNode = SchemaNode
  (sn_Description: string)
  (sn_Format: string)
  (sn_Properties: "(string \<times> SchemaNode) list")
  (sn_OneOf: "SchemaNode list")
  (sn_AnyOf: "SchemaNode list")
  (sn_AllOf: "SchemaNode list")
  (sn_Enum: "string list")

record Parameter =
  pm_Name :: string
  pm_In :: string
  pm_Description :: string
  pm_Format :: string

record Operation =
  op_ID :: string
  op_Parameters :: "Parameter list"

record Spec =
  sp_Schemas :: "SchemaNode go_map"
  sp_Operations :: "Operation list"

definition first_nonempty :: "string list \<Rightarrow> string" where
  "first_nonempty ss = (case find (\<lambda>s. s \<noteq> '''') ss of None \<Rightarrow> '''' | Some s \<Rightarrow> s)"

definition propertyDescription :: "SchemaNode \<Rightarrow> string" where
  "propertyDescription n =
     (if sn_Description n \<noteq> '''' then sn_Description n
      else first_nonempty (map sn_Description (sn_OneOf n @ sn_AnyOf n)))"

definition node_format :: "SchemaNode \<Rightarrow> string" where
  "node_format n =
     (if sn_Format n \<noteq> '''' then sn_Format n else first_nonempty (map sn_Format (sn_OneOf n @ sn_AnyOf n)))"

text \<open>Later branches replace the properties of earlier ones, and the node's own come last.\<close>

fun properties :: "SchemaNode \<Rightarrow> SchemaNode go_map" where
  "properties (SchemaNode d f props oneOf anyOf allOf enum) =
     fold (\<lambda>(name, property) result. AList.update name property result)
       (concat (map properties oneOf) @ concat (map properties anyOf) @ concat (map properties allOf) @ props) []"

section \<open>Configuration, sources and findings\<close>

record Accepted =
  ac_Kind :: string
  ac_Target :: string
  ac_Spec :: string
  ac_Go :: string

record sync_Config =
  cf_Spec :: string
  cf_GoPackageDir :: string
  cf_Renames :: "string go_map"
  cf_Operations :: "string go_map"
  cf_IgnoreOperations :: "string go_map"
  cf_SkipTypes :: "string go_map"
  cf_IgnoreSchemas :: "string go_map"
  cf_UntypedEnums :: "string go_map"
  cf_FormatPhrases :: "string list go_map"
  cf_Accepted :: "Accepted list"

record GoField =
  gf_Name :: string
  gf_Doc :: string
  gf_Pos :: string
  gf_Time :: bool

record GoType =
  gt_Name :: string
  gt_Doc :: string
  gt_Pos :: string
  gt_Fields :: "GoField go_map"

record GoConstant =
  gc_Name :: string
  gc_Value :: string
  gc_Type :: string
  gc_Pos :: string

record GoSource =
  gs_Types :: "GoType go_map"
  gs_Constants :: "GoConstant list"

record Finding =
  fd_Kind :: string
  fd_Target :: string
  fd_Spec :: string
  fd_Go :: string
  fd_Pos :: string

record docPair =
  dp_spec :: string
  dp_goText :: string
  dp_pos :: string

text \<open>The checker's own state; what it reads is passed along.\<close>

record checker =
  ck_findings :: "Finding list"
  ck_docPairs :: "string \<rightharpoonup> docPair"
  ck_extraFields :: "string set"

definition new_checker :: checker where
  "new_checker = \<lparr>ck_findings = [], ck_docPairs = Map.empty, ck_extraFields = {}\<rparr>"

definition configPos :: string where "configPos = ''internal/specsync/config.json''"

definition add_finding :: "Finding \<Rightarrow> checker \<Rightarrow> checker" where
  "add_finding f c = c\<lparr>ck_findings := ck_findings c @ [f]\<rparr>"

definition finding :: "string \<Rightarrow> string \<Rightarrow> string \<Rightarrow> Finding" where
  "finding kind target pos = \<lparr>fd_Kind = kind, fd_Target = target, fd_Spec = '''', fd_Go = '''', fd_Pos = pos\<rparr>"

definition configFinding :: "string \<Rightarrow> string \<Rightarrow> checker \<Rightarrow> checker" where
  "configFinding kind target = add_finding (finding kind target (configPos @ '':1''))"

text \<open>The first entry of a key counts.\<close>

definition acceptedByKey :: "sync_Config \<Rightarrow> string \<Rightarrow> Accepted option" where
  "acceptedByKey cfg key = find (\<lambda>a. ac_Kind a @ [CHR 0x00] @ ac_Target a = key) (cf_Accepted cfg)"

definition goName :: "sync_Config \<Rightarrow> string \<Rightarrow> string" where
  "goName cfg schemaName = (case map_of (cf_Renames cfg) schemaName of Some name \<Rightarrow> name | None \<Rightarrow> schemaName)"

definition hasOperation :: "Spec \<Rightarrow> string \<Rightarrow> bool" where
  "hasOperation spec id' = list_ex (\<lambda>operation. op_ID operation = id') (sp_Operations spec)"

definition hasConstantPrefix :: "GoSource \<Rightarrow> string \<Rightarrow> bool" where
  "hasConstantPrefix src pre = list_ex (\<lambda>constant. gc_Type constant = '''' \<and> prefix pre (gc_Name constant)) (gs_Constants src)"

section \<open>The passes\<close>

definition stale_unless :: "bool \<Rightarrow> string \<Rightarrow> checker \<Rightarrow> checker" where
  "stale_unless ok target c = (if ok then c else configFinding ''stale-config'' target c)"

definition has_key :: "'v go_map \<Rightarrow> string \<Rightarrow> bool" where
  "has_key m k \<longleftrightarrow> map_of m k \<noteq> None"

definition validateConfig :: "sync_Config \<Rightarrow> Spec \<Rightarrow> GoSource \<Rightarrow> checker \<Rightarrow> checker" where
  "validateConfig cfg spec src c =
     (let c = fold (\<lambda>(schemaName, typeName) c.
            stale_unless (has_key (gs_Types src) typeName) (''renames.'' @ schemaName)
              (stale_unless (has_key (sp_Schemas spec) schemaName) (''renames.'' @ schemaName) c)) (go_range (cf_Renames cfg)) c;
          c = fold (\<lambda>(operationID, typeName) c.
            stale_unless (has_key (gs_Types src) typeName) (''operations.'' @ operationID)
              (stale_unless (hasOperation spec operationID) (''operations.'' @ operationID) c)) (go_range (cf_Operations cfg)) c;
          c = fold (\<lambda>(operationID, _) c. stale_unless (hasOperation spec operationID) (''ignoreOperations.'' @ operationID) c)
            (go_range (cf_IgnoreOperations cfg)) c;
          c = fold (\<lambda>(typeName, _) c. stale_unless (has_key (gs_Types src) typeName) (''skipTypes.'' @ typeName) c)
            (go_range (cf_SkipTypes cfg)) c;
          c = fold (\<lambda>(schemaName, _) c. stale_unless (has_key (sp_Schemas spec) schemaName) (''ignoreSchemas.'' @ schemaName) c)
            (go_range (cf_IgnoreSchemas cfg)) c
      in fold (\<lambda>(schemaName, pre) c.
            stale_unless (hasConstantPrefix src pre) (''untypedEnums.'' @ schemaName)
              (stale_unless (has_key (sp_Schemas spec) schemaName) (''untypedEnums.'' @ schemaName) c)) (go_range (cf_UntypedEnums cfg)) c)"

definition compareDoc :: "sync_Config \<Rightarrow> string \<Rightarrow> string \<Rightarrow> string \<Rightarrow> string \<Rightarrow> bool \<Rightarrow> string \<Rightarrow> checker \<Rightarrow> checker" where
  "compareDoc cfg target specText goText format isTime pos c =
     (let c = c\<lparr>ck_docPairs := (ck_docPairs c)(target \<mapsto> \<lparr>dp_spec = specText, dp_goText = goText, dp_pos = pos\<rparr>)\<rparr> in
      if specText = '''' \<or> normalize specText format isTime (cf_FormatPhrases cfg) = normalize goText format isTime (cf_FormatPhrases cfg)
      then c
      else if (case acceptedByKey cfg (''doc'' @ [CHR 0x00] @ target) of
            None \<Rightarrow> False | Some a \<Rightarrow> sameText specText (ac_Spec a) \<and> sameText goText (ac_Go a))
      then c
      else add_finding \<lparr>fd_Kind = ''doc'', fd_Target = target, fd_Spec = collapse specText, fd_Go = collapse goText, fd_Pos = pos\<rparr> c)"

text \<open>A field without a counterpart, which the configuration may accept.\<close>

definition extra_field :: "sync_Config \<Rightarrow> string \<Rightarrow> GoField \<Rightarrow> checker \<Rightarrow> checker" where
  "extra_field cfg typeName field c =
     (let target = typeName @ ''.'' @ gf_Name field;
          c = c\<lparr>ck_extraFields := insert target (ck_extraFields c)\<rparr>
      in if acceptedByKey cfg (''extra-field'' @ [CHR 0x00] @ target) \<noteq> None then c
         else add_finding (finding ''extra-field'' target (gf_Pos field)) c)"

definition check_property :: "sync_Config \<Rightarrow> string \<Rightarrow> SchemaNode go_map \<Rightarrow> GoField go_map \<Rightarrow> string \<Rightarrow> string \<Rightarrow> checker \<Rightarrow> checker" where
  "check_property cfg typeName props goFields typePosition propertyName c =
     (let property = the (map_of props propertyName) in
      case map_of goFields propertyName of
        None \<Rightarrow> add_finding (finding ''missing-field'' (typeName @ ''.'' @ propertyName) typePosition) c
      | Some field \<Rightarrow>
          if propertyDescription property \<noteq> ''''
          then compareDoc cfg (typeName @ ''.'' @ gf_Name field) (propertyDescription property) (gf_Doc field)
            (node_format property) (gf_Time field) (gf_Pos field) c
          else c)"

definition checkFields :: "sync_Config \<Rightarrow> string \<Rightarrow> SchemaNode go_map \<Rightarrow> GoField go_map \<Rightarrow> string \<Rightarrow> checker \<Rightarrow> checker" where
  "checkFields cfg typeName props goFields typePosition c =
     (let c = fold (check_property cfg typeName props goFields typePosition) (sortedKeys props) c
      in fold (\<lambda>fieldName c. if has_key props fieldName then c else extra_field cfg typeName (the (map_of goFields fieldName)) c)
           (sortedKeys goFields) c)"

text \<open>The values of an enumeration on the Go side, and the position of the first untyped constant.\<close>

definition untyped_constants :: "GoSource \<Rightarrow> string \<Rightarrow> GoConstant list" where
  "untyped_constants src pre = filter (\<lambda>constant. gc_Type constant = '''' \<and> prefix pre (gc_Name constant)) (gs_Constants src)"

definition enum_constants :: "sync_Config \<Rightarrow> GoSource \<Rightarrow> string \<Rightarrow> GoConstant list" where
  "enum_constants cfg src schemaName = (case map_of (cf_UntypedEnums cfg) schemaName of
     Some pre \<Rightarrow> untyped_constants src pre
   | None \<Rightarrow> filter (\<lambda>constant. gc_Type constant = goName cfg schemaName) (gs_Constants src))"

definition enum_position :: "sync_Config \<Rightarrow> GoSource \<Rightarrow> string \<Rightarrow> string \<Rightarrow> string" where
  "enum_position cfg src schemaName goPosition =
     (let goPosition = (case map_of (cf_UntypedEnums cfg) schemaName of
          None \<Rightarrow> goPosition
        | Some pre \<Rightarrow> fold (\<lambda>constant pos. if pos = '''' then gc_Pos constant else pos) (untyped_constants src pre) goPosition)
      in if goPosition = '''' then configPos @ '':1'' else goPosition)"

definition checkEnum :: "sync_Config \<Rightarrow> GoSource \<Rightarrow> string \<Rightarrow> SchemaNode \<Rightarrow> string \<Rightarrow> checker \<Rightarrow> checker" where
  "checkEnum cfg src schemaName schema goPosition c =
     (if sn_Enum schema = [] then c
      else
        let goValues = map gc_Value (enum_constants cfg src schemaName);
            pos = enum_position cfg src schemaName goPosition;
            c = fold (\<lambda>v c. if v \<in> set goValues then c else add_finding
                \<lparr>fd_Kind = ''enum'', fd_Target = schemaName @ ''.'' @ v, fd_Spec = v, fd_Go = '''', fd_Pos = pos\<rparr> c)
              (sort (remdups (sn_Enum schema))) c
        in fold (\<lambda>v c. if v \<in> set (sn_Enum schema) then c else add_finding
                \<lparr>fd_Kind = ''enum'', fd_Target = schemaName @ ''.'' @ v, fd_Spec = '''', fd_Go = v, fd_Pos = pos\<rparr> c)
              (sort (remdups goValues)) c)"

definition check_schema :: "sync_Config \<Rightarrow> Spec \<Rightarrow> GoSource \<Rightarrow> string \<Rightarrow> checker \<Rightarrow> checker" where
  "check_schema cfg spec src schemaName c =
     (let schema = the (map_of (sp_Schemas spec) schemaName) in
      if has_key (cf_IgnoreSchemas cfg) schemaName then c
      else
        let typeName = goName cfg schemaName in
        case map_of (gs_Types src) typeName of
          None \<Rightarrow>
            if has_key (cf_UntypedEnums cfg) schemaName then checkEnum cfg src schemaName schema '''' c
            else add_finding (finding ''unmapped-schema'' schemaName (configPos @ '':1'')) c
        | Some goType \<Rightarrow>
            if has_key (cf_SkipTypes cfg) typeName then c
            else
              let c = (if sn_Description schema \<noteq> ''''
                    then compareDoc cfg typeName (sn_Description schema) (gt_Doc goType) '''' False (gt_Pos goType) c else c);
                  c = checkFields cfg typeName (properties schema) (gt_Fields goType) (gt_Pos goType) c
              in checkEnum cfg src schemaName schema (gt_Pos goType) c)"

definition checkSchemas :: "sync_Config \<Rightarrow> Spec \<Rightarrow> GoSource \<Rightarrow> checker \<Rightarrow> checker" where
  "checkSchemas cfg spec src c = fold (check_schema cfg spec src) (sortedKeys (sp_Schemas spec)) c"

definition check_parameter :: "sync_Config \<Rightarrow> string \<Rightarrow> GoType \<Rightarrow> Parameter \<Rightarrow> checker \<Rightarrow> checker" where
  "check_parameter cfg typeName goType parameter c = (case map_of (gt_Fields goType) (pm_Name parameter) of
     None \<Rightarrow> add_finding (finding ''missing-field'' (typeName @ ''.'' @ pm_Name parameter) (gt_Pos goType)) c
   | Some field \<Rightarrow>
       if pm_Description parameter \<noteq> ''''
       then compareDoc cfg (typeName @ ''.'' @ gf_Name field) (pm_Description parameter) (gf_Doc field) (pm_Format parameter)
         (gf_Time field) (gf_Pos field) c
       else c)"

definition queryParams :: "Operation \<Rightarrow> Parameter list" where
  "queryParams operation = filter (\<lambda>parameter. pm_In parameter = ''query'') (op_Parameters operation)"

definition pathParams :: "Operation \<Rightarrow> string set" where
  "pathParams operation = pm_Name ` set (filter (\<lambda>parameter. pm_In parameter = ''path'') (op_Parameters operation))"

definition check_operation :: "sync_Config \<Rightarrow> GoSource \<Rightarrow> Operation \<Rightarrow> checker \<Rightarrow> checker" where
  "check_operation cfg src operation c =
     (case map_of (cf_Operations cfg) (op_ID operation) of
        None \<Rightarrow>
          if queryParams operation = [] then c
          else if has_key (cf_IgnoreOperations cfg) (op_ID operation) then c
          else add_finding (finding ''unmapped-operation'' (op_ID operation) (configPos @ '':1'')) c
      | Some typeName \<Rightarrow>
          (case map_of (gs_Types src) typeName of
             None \<Rightarrow> c
           | Some goType \<Rightarrow>
               let c = fold (check_parameter cfg typeName goType) (queryParams operation) c
               in fold (\<lambda>(tag, field) c. if tag \<in> pm_Name ` set (queryParams operation) \<or> tag \<in> pathParams operation then c
                    else extra_field cfg typeName field c) (go_range (gt_Fields goType)) c))"

definition checkOperations :: "sync_Config \<Rightarrow> Spec \<Rightarrow> GoSource \<Rightarrow> checker \<Rightarrow> checker" where
  "checkOperations cfg spec src c = fold (check_operation cfg src) (sp_Operations spec) c"

definition check_accepted_entry :: "Accepted \<Rightarrow> checker \<Rightarrow> checker" where
  "check_accepted_entry a c =
     (if ac_Kind a = ''doc'' then
        (case ck_docPairs c (ac_Target a) of
           Some pair \<Rightarrow>
             if sameText (dp_spec pair) (ac_Spec a) \<and> sameText (dp_goText pair) (ac_Go a) then c
             else add_finding \<lparr>fd_Kind = ''stale-config'', fd_Target = ''accepted.'' @ ac_Kind a @ ''.'' @ ac_Target a,
               fd_Spec = collapse (dp_spec pair), fd_Go = collapse (dp_goText pair), fd_Pos = dp_pos pair\<rparr> c
         | None \<Rightarrow> add_finding (finding ''stale-config'' (''accepted.'' @ ac_Kind a @ ''.'' @ ac_Target a) (configPos @ '':1'')) c)
      else if ac_Kind a = ''extra-field'' then
        (if ac_Target a \<in> ck_extraFields c then c
         else configFinding ''stale-config'' (''accepted.'' @ ac_Kind a @ ''.'' @ ac_Target a) c)
      else configFinding ''stale-config'' (''accepted.'' @ ac_Kind a @ ''.'' @ ac_Target a) c)"

definition checkAccepted :: "sync_Config \<Rightarrow> checker \<Rightarrow> checker" where
  "checkAccepted cfg c = fold check_accepted_entry (cf_Accepted cfg) c"

definition check_all :: "sync_Config \<Rightarrow> Spec \<Rightarrow> GoSource \<Rightarrow> checker" where
  "check_all cfg spec src =
     checkAccepted cfg (checkOperations cfg spec src (checkSchemas cfg spec src (validateConfig cfg spec src new_checker)))"

text \<open>\<open>sort.Slice\<close> does not fix the order of findings that agree in position, target and kind; here it is stable.\<close>

definition finding_key :: "Finding \<Rightarrow> string list" where
  "finding_key f = [fd_Pos f, fd_Target f, fd_Kind f]"

definition check :: "sync_Config \<Rightarrow> Spec \<Rightarrow> GoSource \<Rightarrow> Finding list" where
  "check cfg spec src = sort_key finding_key (ck_findings (check_all cfg spec src))"


section \<open>What a pass does to the checker\<close>

text \<open>
  Every step of a pass is determined by three things: whether it reports nothing, the comparisons it records and the extra
  fields it meets.  They compose, so each pass is described by the tables of its steps.
\<close>

definition effect :: "(checker \<Rightarrow> checker) \<Rightarrow> bool \<Rightarrow> (string \<times> docPair) list \<Rightarrow> string set \<Rightarrow> bool" where
  "effect g ok docs extra \<longleftrightarrow> (\<forall>c.
     (ck_findings (g c) = [] \<longleftrightarrow> ck_findings c = [] \<and> ok) \<and>
     ck_docPairs (g c) = ck_docPairs c ++ map_of (rev docs) \<and>
     ck_extraFields (g c) = ck_extraFields c \<union> extra)"

named_theorems effects

lemma effect_id [effects]: "effect (\<lambda>c. c) True [] {}"
  by (simp add: effect_def)

lemma effect_add [effects]: "effect (add_finding f) False [] {}"
  by (simp add: effect_def add_finding_def)

lemma effect_seq:
  assumes "effect f ok1 docs1 extra1" and "effect g ok2 docs2 extra2"
  shows "effect (\<lambda>c. g (f c)) (ok1 \<and> ok2) (docs1 @ docs2) (extra1 \<union> extra2)"
  using assms by (simp add: effect_def Un_assoc conj_assoc)

lemma effect_fold:
  assumes "\<And>x. x \<in> set xs \<Longrightarrow> effect (g x) (ok x) (docs x) (extra x)"
  shows "effect (fold g xs) (\<forall>x\<in>set xs. ok x) (concat (map docs xs)) (\<Union>x\<in>set xs. extra x)"
  using assms
proof (induction xs)
  case Nil then show ?case by (simp add: effect_def)
next
  case (Cons x xs)
  have "effect (\<lambda>c. fold g xs (g x c)) (ok x \<and> (\<forall>x\<in>set xs. ok x)) (docs x @ concat (map docs xs)) (extra x \<union> (\<Union>x\<in>set xs. extra x))"
    by (rule effect_seq) (use Cons in auto)
  then show ?case by (simp add: comp_def)
qed

lemma effect_if:
  assumes "b \<Longrightarrow> effect f ok1 docs1 extra1" and "\<not> b \<Longrightarrow> effect g ok2 docs2 extra2"
  shows "effect (\<lambda>c. if b then f c else g c) (if b then ok1 else ok2) (if b then docs1 else docs2) (if b then extra1 else extra2)"
  using assms by auto

lemma effect_cong: "effect f ok docs extra \<Longrightarrow> ok = ok' \<Longrightarrow> docs = docs' \<Longrightarrow> extra = extra' \<Longrightarrow> effect f ok' docs' extra'"
  by simp

lemma effect_add_unless: "effect (\<lambda>c. if ok then c else add_finding f c) ok [] {}"
  by (cases ok) (simp_all add: effects)

lemma effect_stale_unless [effects]: "effect (stale_unless ok target) ok [] {}"
  by (cases ok) (simp_all add: stale_unless_def [abs_def] configFinding_def effects)

lemma concat_map_Nil: "concat (map (\<lambda>_. []) xs) = []"
  by (induction xs) auto

lemma effect_fold_unless:
  "effect (fold (\<lambda>x c. if ok x then c else add_finding (f x) c) xs) (\<forall>x\<in>set xs. ok x) [] {}"
  using effect_fold [of xs "\<lambda>x c. if ok x then c else add_finding (f x) c" ok "\<lambda>_. []" "\<lambda>_. {}", OF effect_add_unless]
  by (simp add: concat_map_Nil)


section \<open>What it means that the SDK and the document agree\<close>

lemma go_range_iff: "(k, v) \<in> set (go_range m) \<longleftrightarrow> map_of m k = Some v"
proof
  assume "(k, v) \<in> set (go_range m)"
  then show "map_of m k = Some v" by (auto simp: go_range_def) (metis map_of_eq_None_iff not_None_eq option.sel image_eqI fst_conv)
next
  assume *: "map_of m k = Some v"
  then have "k \<in> fst ` set m" by (metis map_of_eq_None_iff option.simps(3))
  then show "(k, v) \<in> set (go_range m)" using * by (auto simp: go_range_def)
qed

lemma go_range_all: "(\<forall>x\<in>set (go_range m). P x) \<longleftrightarrow> (\<forall>k v. map_of m k = Some v \<longrightarrow> P (k, v))"
  by (simp add: Ball_def split_paired_All go_range_iff)

lemma go_range_UN: "(\<Union>x\<in>set (go_range m). F x) = (\<Union>k\<in>set (sortedKeys m). F (k, the (map_of m k)))"
  by (simp add: go_range_def sortedKeys_def)

lemma sortedKeys_iff: "k \<in> set (sortedKeys m) \<longleftrightarrow> has_key m k"
  by (simp add: sortedKeys_def has_key_def map_of_eq_None_iff)

definition doc_ok :: "sync_Config \<Rightarrow> string \<Rightarrow> string \<Rightarrow> string \<Rightarrow> string \<Rightarrow> bool \<Rightarrow> bool" where
  "doc_ok cfg target specText goText format isTime \<longleftrightarrow>
     specText = '''' \<or>
     normalize specText format isTime (cf_FormatPhrases cfg) = normalize goText format isTime (cf_FormatPhrases cfg) \<or>
     (\<exists>a. acceptedByKey cfg (''doc'' @ [CHR 0x00] @ target) = Some a \<and> sameText specText (ac_Spec a) \<and> sameText goText (ac_Go a))"

definition extra_ok :: "sync_Config \<Rightarrow> string \<Rightarrow> bool" where
  "extra_ok cfg target \<longleftrightarrow> acceptedByKey cfg (''extra-field'' @ [CHR 0x00] @ target) \<noteq> None"

definition field_target :: "string \<Rightarrow> GoField \<Rightarrow> string" where
  "field_target typeName field = typeName @ ''.'' @ gf_Name field"

definition config_fresh :: "sync_Config \<Rightarrow> Spec \<Rightarrow> GoSource \<Rightarrow> bool" where
  "config_fresh cfg spec src \<longleftrightarrow>
     (\<forall>s t. map_of (cf_Renames cfg) s = Some t \<longrightarrow> has_key (sp_Schemas spec) s \<and> has_key (gs_Types src) t) \<and>
     (\<forall>i t. map_of (cf_Operations cfg) i = Some t \<longrightarrow> hasOperation spec i \<and> has_key (gs_Types src) t) \<and>
     (\<forall>i. has_key (cf_IgnoreOperations cfg) i \<longrightarrow> hasOperation spec i) \<and>
     (\<forall>t. has_key (cf_SkipTypes cfg) t \<longrightarrow> has_key (gs_Types src) t) \<and>
     (\<forall>s. has_key (cf_IgnoreSchemas cfg) s \<longrightarrow> has_key (sp_Schemas spec) s) \<and>
     (\<forall>s pre. map_of (cf_UntypedEnums cfg) s = Some pre \<longrightarrow> has_key (sp_Schemas spec) s \<and> hasConstantPrefix src pre)"

definition fields_synced :: "sync_Config \<Rightarrow> string \<Rightarrow> SchemaNode go_map \<Rightarrow> GoField go_map \<Rightarrow> bool" where
  "fields_synced cfg typeName props goFields \<longleftrightarrow>
     (\<forall>name property. map_of props name = Some property \<longrightarrow>
        (\<exists>field. map_of goFields name = Some field \<and>
           doc_ok cfg (field_target typeName field) (propertyDescription property) (gf_Doc field) (node_format property) (gf_Time field))) \<and>
     (\<forall>name field. map_of goFields name = Some field \<longrightarrow> has_key props name \<or> extra_ok cfg (field_target typeName field))"

definition enum_synced :: "sync_Config \<Rightarrow> GoSource \<Rightarrow> string \<Rightarrow> SchemaNode \<Rightarrow> bool" where
  "enum_synced cfg src schemaName schema \<longleftrightarrow>
     sn_Enum schema = [] \<or> set (sn_Enum schema) = gc_Value ` set (enum_constants cfg src schemaName)"

definition schema_synced :: "sync_Config \<Rightarrow> GoSource \<Rightarrow> string \<Rightarrow> SchemaNode \<Rightarrow> bool" where
  "schema_synced cfg src schemaName schema \<longleftrightarrow>
     has_key (cf_IgnoreSchemas cfg) schemaName \<or>
     (case map_of (gs_Types src) (goName cfg schemaName) of
        None \<Rightarrow> has_key (cf_UntypedEnums cfg) schemaName \<and> enum_synced cfg src schemaName schema
      | Some t \<Rightarrow> has_key (cf_SkipTypes cfg) (goName cfg schemaName) \<or>
          doc_ok cfg (goName cfg schemaName) (sn_Description schema) (gt_Doc t) '''' False \<and>
          fields_synced cfg (goName cfg schemaName) (properties schema) (gt_Fields t) \<and>
          enum_synced cfg src schemaName schema)"

definition operation_synced :: "sync_Config \<Rightarrow> GoSource \<Rightarrow> Operation \<Rightarrow> bool" where
  "operation_synced cfg src operation \<longleftrightarrow>
     (case map_of (cf_Operations cfg) (op_ID operation) of
        None \<Rightarrow> queryParams operation = [] \<or> has_key (cf_IgnoreOperations cfg) (op_ID operation)
      | Some typeName \<Rightarrow> (case map_of (gs_Types src) typeName of None \<Rightarrow> True | Some t \<Rightarrow>
          (\<forall>parameter\<in>set (queryParams operation). \<exists>field. map_of (gt_Fields t) (pm_Name parameter) = Some field \<and>
             doc_ok cfg (field_target typeName field) (pm_Description parameter) (gf_Doc field) (pm_Format parameter) (gf_Time field)) \<and>
          (\<forall>tag field. map_of (gt_Fields t) tag = Some field \<longrightarrow>
             tag \<in> pm_Name ` set (queryParams operation) \<or> tag \<in> pathParams operation \<or> extra_ok cfg (field_target typeName field))))"

text \<open>The comparisons and the extra fields of a run, in its order.\<close>

definition doc_entry :: "string \<Rightarrow> string \<Rightarrow> string \<Rightarrow> string \<Rightarrow> (string \<times> docPair) list" where
  "doc_entry target specText goText pos =
     (if specText = '''' then [] else [(target, \<lparr>dp_spec = specText, dp_goText = goText, dp_pos = pos\<rparr>)])"

definition property_docs :: "string \<Rightarrow> SchemaNode go_map \<Rightarrow> GoField go_map \<Rightarrow> string \<Rightarrow> (string \<times> docPair) list" where
  "property_docs typeName props goFields name = (case map_of goFields name of None \<Rightarrow> []
     | Some field \<Rightarrow> doc_entry (field_target typeName field) (propertyDescription (the (map_of props name))) (gf_Doc field) (gf_Pos field))"

definition schema_docs :: "sync_Config \<Rightarrow> Spec \<Rightarrow> GoSource \<Rightarrow> string \<Rightarrow> (string \<times> docPair) list" where
  "schema_docs cfg spec src schemaName =
     (let schema = the (map_of (sp_Schemas spec) schemaName); typeName = goName cfg schemaName in
      if has_key (cf_IgnoreSchemas cfg) schemaName \<or> has_key (cf_SkipTypes cfg) typeName then []
      else case map_of (gs_Types src) typeName of None \<Rightarrow> []
        | Some t \<Rightarrow> doc_entry typeName (sn_Description schema) (gt_Doc t) (gt_Pos t) @
            concat (map (property_docs typeName (properties schema) (gt_Fields t)) (sortedKeys (properties schema))))"

definition parameter_docs :: "string \<Rightarrow> GoType \<Rightarrow> Parameter \<Rightarrow> (string \<times> docPair) list" where
  "parameter_docs typeName t parameter = (case map_of (gt_Fields t) (pm_Name parameter) of None \<Rightarrow> []
     | Some field \<Rightarrow> doc_entry (field_target typeName field) (pm_Description parameter) (gf_Doc field) (gf_Pos field))"

definition operation_type :: "sync_Config \<Rightarrow> GoSource \<Rightarrow> Operation \<Rightarrow> (string \<times> GoType) option" where
  "operation_type cfg src operation = (case map_of (cf_Operations cfg) (op_ID operation) of None \<Rightarrow> None
     | Some typeName \<Rightarrow> map_option (\<lambda>t. (typeName, t)) (map_of (gs_Types src) typeName))"

definition operation_docs :: "sync_Config \<Rightarrow> GoSource \<Rightarrow> Operation \<Rightarrow> (string \<times> docPair) list" where
  "operation_docs cfg src operation = (case operation_type cfg src operation of None \<Rightarrow> []
     | Some (typeName, t) \<Rightarrow> concat (map (parameter_docs typeName t) (queryParams operation)))"

definition field_extras :: "string \<Rightarrow> string set \<Rightarrow> GoField go_map \<Rightarrow> string set" where
  "field_extras typeName known goFields =
     (\<Union>tag\<in>set (sortedKeys goFields). if tag \<in> known then {} else {field_target typeName (the (map_of goFields tag))})"

definition schema_extras :: "sync_Config \<Rightarrow> Spec \<Rightarrow> GoSource \<Rightarrow> string \<Rightarrow> string set" where
  "schema_extras cfg spec src schemaName =
     (let schema = the (map_of (sp_Schemas spec) schemaName); typeName = goName cfg schemaName in
      if has_key (cf_IgnoreSchemas cfg) schemaName \<or> has_key (cf_SkipTypes cfg) typeName then {}
      else case map_of (gs_Types src) typeName of None \<Rightarrow> {}
        | Some t \<Rightarrow> field_extras typeName (set (sortedKeys (properties schema))) (gt_Fields t))"

definition operation_extras :: "sync_Config \<Rightarrow> GoSource \<Rightarrow> Operation \<Rightarrow> string set" where
  "operation_extras cfg src operation = (case operation_type cfg src operation of None \<Rightarrow> {}
     | Some (typeName, t) \<Rightarrow> field_extras typeName (pm_Name ` set (queryParams operation) \<union> pathParams operation) (gt_Fields t))"

definition comparisons :: "sync_Config \<Rightarrow> Spec \<Rightarrow> GoSource \<Rightarrow> (string \<times> docPair) list" where
  "comparisons cfg spec src =
     concat (map (schema_docs cfg spec src) (sortedKeys (sp_Schemas spec))) @ concat (map (operation_docs cfg src) (sp_Operations spec))"

definition extra_targets :: "sync_Config \<Rightarrow> Spec \<Rightarrow> GoSource \<Rightarrow> string set" where
  "extra_targets cfg spec src =
     (\<Union>s\<in>set (sortedKeys (sp_Schemas spec)). schema_extras cfg spec src s) \<union>
     (\<Union>operation\<in>set (sp_Operations spec). operation_extras cfg src operation)"

text \<open>An accepted deviation is used when it describes the last comparison of its target, or an extra field there is.\<close>

definition accepted_used :: "(string \<times> docPair) list \<Rightarrow> string set \<Rightarrow> Accepted \<Rightarrow> bool" where
  "accepted_used docs extra a \<longleftrightarrow>
     ac_Kind a = ''doc'' \<and>
       (\<exists>pair. map_of (rev docs) (ac_Target a) = Some pair \<and> sameText (dp_spec pair) (ac_Spec a) \<and> sameText (dp_goText pair) (ac_Go a)) \<or>
     ac_Kind a = ''extra-field'' \<and> ac_Target a \<in> extra"

definition in_sync :: "sync_Config \<Rightarrow> Spec \<Rightarrow> GoSource \<Rightarrow> bool" where
  "in_sync cfg spec src \<longleftrightarrow>
     config_fresh cfg spec src \<and>
     (\<forall>schemaName schema. map_of (sp_Schemas spec) schemaName = Some schema \<longrightarrow> schema_synced cfg src schemaName schema) \<and>
     (\<forall>operation\<in>set (sp_Operations spec). operation_synced cfg src operation) \<and>
     (\<forall>a\<in>set (cf_Accepted cfg). accepted_used (comparisons cfg spec src) (extra_targets cfg spec src) a)"


section \<open>The effect of the passes\<close>

lemma effect_compareDoc:
  assumes "specText \<noteq> ''''"
  shows "effect (compareDoc cfg target specText goText format isTime pos) (doc_ok cfg target specText goText format isTime)
     (doc_entry target specText goText pos) {}"
proof -
  let ?p = "\<lparr>dp_spec = specText, dp_goText = goText, dp_pos = pos\<rparr>"
  have "(ck_findings (compareDoc cfg target specText goText format isTime pos c) = [] \<longleftrightarrow>
         ck_findings c = [] \<and> doc_ok cfg target specText goText format isTime) \<and>
      ck_docPairs (compareDoc cfg target specText goText format isTime pos c) = (ck_docPairs c)(target \<mapsto> ?p) \<and>
      ck_extraFields (compareDoc cfg target specText goText format isTime pos c) = ck_extraFields c" for c
    using assms by (auto simp: compareDoc_def Let_def doc_ok_def add_finding_def split: option.splits)
  then show ?thesis using assms by (simp add: effect_def doc_entry_def)
qed

lemma effect_compareDoc_if:
  "effect (\<lambda>c. if specText \<noteq> '''' then compareDoc cfg target specText goText format isTime pos c else c)
     (doc_ok cfg target specText goText format isTime) (doc_entry target specText goText pos) {}"
proof (cases "specText = ''''")
  case True
  then show ?thesis by (simp add: effect_id doc_ok_def doc_entry_def)
next
  case False
  then show ?thesis by (simp add: effect_compareDoc)
qed

lemma effect_extra_field:
  "effect (extra_field cfg typeName field) (extra_ok cfg (field_target typeName field)) [] {field_target typeName field}"
  by (auto simp: effect_def extra_field_def extra_ok_def field_target_def Let_def add_finding_def)

lemma effect_check_property:
  "effect (check_property cfg typeName props goFields typePosition name)
     (\<exists>field. map_of goFields name = Some field \<and> doc_ok cfg (field_target typeName field)
        (propertyDescription (the (map_of props name))) (gf_Doc field) (node_format (the (map_of props name))) (gf_Time field))
     (property_docs typeName props goFields name) {}"
proof (cases "map_of goFields name")
  case None
  then show ?thesis by (simp add: check_property_def [abs_def] property_docs_def effect_add)
next
  case (Some field)
  then show ?thesis
    using effect_compareDoc_if [of "propertyDescription (the (map_of props name))" cfg "field_target typeName field" "gf_Doc field"
      "node_format (the (map_of props name))" "gf_Time field" "gf_Pos field"]
    by (simp add: check_property_def [abs_def] property_docs_def field_target_def Let_def cong: if_cong)
qed

lemma effect_checkFields:
  "effect (checkFields cfg typeName props goFields typePosition) (fields_synced cfg typeName props goFields)
     (concat (map (property_docs typeName props goFields) (sortedKeys props)))
     (field_extras typeName (set (sortedKeys props)) goFields)"
proof -
  let ?ok1 = "\<lambda>name. \<exists>field. map_of goFields name = Some field \<and> doc_ok cfg (field_target typeName field)
        (propertyDescription (the (map_of props name))) (gf_Doc field) (node_format (the (map_of props name))) (gf_Time field)"
  let ?f = "\<lambda>name. the (map_of goFields name)"
  let ?ok2 = "\<lambda>name. if has_key props name then True else extra_ok cfg (field_target typeName (?f name))"
  have 1: "effect (fold (check_property cfg typeName props goFields typePosition) (sortedKeys props)) (\<forall>n\<in>set (sortedKeys props). ?ok1 n)
      (concat (map (property_docs typeName props goFields) (sortedKeys props))) (\<Union>n\<in>set (sortedKeys props). {})"
    by (rule effect_fold) (rule effect_check_property)
  have 2: "effect (fold (\<lambda>name c. if has_key props name then c else extra_field cfg typeName (?f name) c) (sortedKeys goFields))
      (\<forall>n\<in>set (sortedKeys goFields). ?ok2 n)
      (concat (map (\<lambda>n. if has_key props n then [] else []) (sortedKeys goFields)))
      (\<Union>n\<in>set (sortedKeys goFields). if has_key props n then {} else {field_target typeName (?f n)})"
    by (rule effect_fold) (rule effect_if [OF effect_id effect_extra_field])
  show ?thesis
    unfolding checkFields_def [abs_def] Let_def
    by (rule effect_cong [OF effect_seq [OF 1 2]])
      (force simp: fields_synced_def sortedKeys_iff has_key_def concat_map_Nil field_extras_def)+
qed

lemma effect_checkEnum: "effect (checkEnum cfg src schemaName schema goPosition) (enum_synced cfg src schemaName schema) [] {}"
proof (cases "sn_Enum schema = []")
  case True
  then show ?thesis by (simp add: checkEnum_def [abs_def] enum_synced_def effect_id)
next
  case False
  let ?go = "map gc_Value (enum_constants cfg src schemaName)"
  have "enum_synced cfg src schemaName schema \<longleftrightarrow>
      (\<forall>v\<in>set (sort (remdups (sn_Enum schema))). v \<in> set ?go) \<and> (\<forall>v\<in>set (sort (remdups ?go)). v \<in> set (sn_Enum schema))"
    using False by (auto simp: enum_synced_def)
  then show ?thesis
    unfolding checkEnum_def [abs_def] Let_def using False
    by (auto intro!: effect_cong [OF effect_seq [OF effect_fold_unless effect_fold_unless]])
qed

lemma effect_check_schema:
  "effect (check_schema cfg spec src schemaName) (schema_synced cfg src schemaName (the (map_of (sp_Schemas spec) schemaName)))
     (schema_docs cfg spec src schemaName) (schema_extras cfg spec src schemaName)"
proof -
  let ?schema = "the (map_of (sp_Schemas spec) schemaName)"
  let ?t = "goName cfg schemaName"
  note defs = check_schema_def [abs_def] schema_synced_def schema_docs_def schema_extras_def Let_def
  show ?thesis
  proof (cases "has_key (cf_IgnoreSchemas cfg) schemaName")
    case True
    then show ?thesis by (simp add: defs effect_id)
  next
    case False
    show ?thesis
    proof (cases "map_of (gs_Types src) ?t")
      case None
      with False show ?thesis
        by (cases "has_key (cf_UntypedEnums cfg) schemaName") (simp_all add: defs effect_add effect_checkEnum)
    next
      case (Some t)
      have "effect (\<lambda>c. checkEnum cfg src schemaName ?schema (gt_Pos t)
          (checkFields cfg ?t (properties ?schema) (gt_Fields t) (gt_Pos t)
            (if sn_Description ?schema \<noteq> '''' then compareDoc cfg ?t (sn_Description ?schema) (gt_Doc t) '''' False (gt_Pos t) c else c)))
         ((doc_ok cfg ?t (sn_Description ?schema) (gt_Doc t) '''' False \<and> fields_synced cfg ?t (properties ?schema) (gt_Fields t)) \<and>
            enum_synced cfg src schemaName ?schema)
         ((doc_entry ?t (sn_Description ?schema) (gt_Doc t) (gt_Pos t) @
            concat (map (property_docs ?t (properties ?schema) (gt_Fields t)) (sortedKeys (properties ?schema)))) @ [])
         (({} \<union> field_extras ?t (set (sortedKeys (properties ?schema))) (gt_Fields t)) \<union> {})"
        by (intro effect_seq effect_compareDoc_if effect_checkFields effect_checkEnum)
      with False Some show ?thesis by (cases "has_key (cf_SkipTypes cfg) ?t") (simp_all add: defs effect_id cong: if_cong)
    qed
  qed
qed


lemma effect_check_parameter:
  "effect (check_parameter cfg typeName t parameter)
     (\<exists>field. map_of (gt_Fields t) (pm_Name parameter) = Some field \<and>
        doc_ok cfg (field_target typeName field) (pm_Description parameter) (gf_Doc field) (pm_Format parameter) (gf_Time field))
     (parameter_docs typeName t parameter) {}"
proof (cases "map_of (gt_Fields t) (pm_Name parameter)")
  case None
  then show ?thesis by (simp add: check_parameter_def [abs_def] parameter_docs_def effect_add)
next
  case (Some field)
  then show ?thesis
    using effect_compareDoc_if [of "pm_Description parameter" cfg "field_target typeName field" "gf_Doc field"
      "pm_Format parameter" "gf_Time field" "gf_Pos field"]
    by (simp add: check_parameter_def [abs_def] parameter_docs_def field_target_def cong: if_cong)
qed

lemma effect_check_operation:
  "effect (check_operation cfg src operation) (operation_synced cfg src operation)
     (operation_docs cfg src operation) (operation_extras cfg src operation)"
proof -
  note defs = check_operation_def [abs_def] operation_synced_def operation_docs_def operation_extras_def operation_type_def Let_def
  show ?thesis
  proof (cases "map_of (cf_Operations cfg) (op_ID operation)")
    case None
    show ?thesis
      by (cases "queryParams operation = []"; cases "has_key (cf_IgnoreOperations cfg) (op_ID operation)")
        (simp_all add: defs None effect_id effect_add)
  next
    case typed: (Some typeName)
    show ?thesis
    proof (cases "map_of (gs_Types src) typeName")
      case None
      then show ?thesis by (simp add: defs typed effect_id)
    next
      case (Some t)
      let ?known = "pm_Name ` set (queryParams operation) \<union> pathParams operation"
      let ?fields = "go_range (gt_Fields t)"
      have 1: "effect (fold (check_parameter cfg typeName t) (queryParams operation))
          (\<forall>p\<in>set (queryParams operation). \<exists>field. map_of (gt_Fields t) (pm_Name p) = Some field \<and>
             doc_ok cfg (field_target typeName field) (pm_Description p) (gf_Doc field) (pm_Format p) (gf_Time field))
          (concat (map (parameter_docs typeName t) (queryParams operation))) (\<Union>p\<in>set (queryParams operation). {})"
        by (rule effect_fold) (rule effect_check_parameter)
      have 2: "effect (fold (\<lambda>x c. if fst x \<in> ?known then c else extra_field cfg typeName (snd x) c) ?fields)
          (\<forall>x\<in>set ?fields. if fst x \<in> ?known then True else extra_ok cfg (field_target typeName (snd x)))
          (concat (map (\<lambda>x. if fst x \<in> ?known then [] else []) ?fields))
          (\<Union>x\<in>set ?fields. if fst x \<in> ?known then {} else {field_target typeName (snd x)})"
        by (rule effect_fold) (rule effect_if [OF effect_id effect_extra_field])
      have extras: "(\<Union>x\<in>set ?fields. if fst x \<in> ?known then {} else {field_target typeName (snd x)})
          = field_extras typeName ?known (gt_Fields t)"
        unfolding field_extras_def go_range_UN by simp
      have ok: "(\<forall>x\<in>set ?fields. if fst x \<in> ?known then True else extra_ok cfg (field_target typeName (snd x))) \<longleftrightarrow>
          (\<forall>tag field. map_of (gt_Fields t) tag = Some field \<longrightarrow> tag \<in> ?known \<or> extra_ok cfg (field_target typeName field))"
        by (auto simp: go_range_all)
      show ?thesis
        using effect_seq [OF 1 2] unfolding extras ok
        by (simp add: defs typed Some concat_map_Nil case_prod_unfold)
    qed
  qed
qed

lemma effect_validateConfig: "effect (validateConfig cfg spec src) (config_fresh cfg spec src) [] {}"
proof -
  have two: "effect (fold (\<lambda>x c. stale_unless (q x) (u x) (stale_unless (p x) (t x) c)) xs) (\<forall>x\<in>set xs. p x \<and> q x) [] {}"
    for p q :: "'x \<Rightarrow> bool" and t u xs
    using effect_fold [of xs "\<lambda>x c. stale_unless (q x) (u x) (stale_unless (p x) (t x) c)" "\<lambda>x. p x \<and> q x" "\<lambda>_. []" "\<lambda>_. {}"]
      effect_seq [OF effect_stale_unless effect_stale_unless] by (simp add: concat_map_Nil)
  have one: "effect (fold (\<lambda>x c. stale_unless (p x) (t x) c) xs) (\<forall>x\<in>set xs. p x) [] {}"
    for p :: "'x \<Rightarrow> bool" and t xs
    using effect_fold [of xs "\<lambda>x c. stale_unless (p x) (t x) c" p "\<lambda>_. []" "\<lambda>_. {}"]
      effect_stale_unless by (simp add: concat_map_Nil)
  show ?thesis
    unfolding validateConfig_def [abs_def] Let_def case_prod_unfold
    by (rule effect_cong [OF effect_seq [OF effect_seq [OF effect_seq [OF effect_seq [OF effect_seq [OF two two] one] one] one] two]])
      (simp_all add: config_fresh_def go_range_all has_key_def)
qed


lemma check_accepted_entry_ok:
  assumes "ck_docPairs c = map_of (rev docs)" and "ck_extraFields c = extra"
  shows "(ck_findings (check_accepted_entry a c) = [] \<longleftrightarrow> ck_findings c = [] \<and> accepted_used docs extra a) \<and>
    ck_docPairs (check_accepted_entry a c) = ck_docPairs c \<and> ck_extraFields (check_accepted_entry a c) = ck_extraFields c"
proof (cases "ac_Kind a = ''doc''")
  case True
  show ?thesis
    by (cases "map_of (rev docs) (ac_Target a)") (simp_all add: True assms check_accepted_entry_def accepted_used_def add_finding_def)
next
  case False
  then show ?thesis
    by (cases "ac_Kind a = ''extra-field''")
      (simp_all add: assms check_accepted_entry_def accepted_used_def configFinding_def add_finding_def)
qed

lemma checkAccepted_ok:
  "ck_docPairs c = map_of (rev docs) \<Longrightarrow> ck_extraFields c = extra \<Longrightarrow>
   (ck_findings (fold check_accepted_entry as c) = [] \<longleftrightarrow> ck_findings c = [] \<and> (\<forall>a\<in>set as. accepted_used docs extra a))"
proof (induction as arbitrary: c)
  case Nil then show ?case by simp
next
  case (Cons a as)
  note step = check_accepted_entry_ok [OF Cons.prems, of a]
  have "ck_findings (fold check_accepted_entry as (check_accepted_entry a c)) = [] \<longleftrightarrow>
      ck_findings (check_accepted_entry a c) = [] \<and> (\<forall>a\<in>set as. accepted_used docs extra a)"
    using step Cons.prems by (intro Cons.IH) simp_all
  then show ?case using step by simp
qed

lemma effect_passes:
  "effect (\<lambda>c. checkOperations cfg spec src (checkSchemas cfg spec src (validateConfig cfg spec src c)))
     (config_fresh cfg spec src \<and>
      (\<forall>s\<in>set (sortedKeys (sp_Schemas spec)). schema_synced cfg src s (the (map_of (sp_Schemas spec) s))) \<and>
      (\<forall>operation\<in>set (sp_Operations spec). operation_synced cfg src operation))
     (comparisons cfg spec src) (extra_targets cfg spec src)"
  unfolding checkOperations_def checkSchemas_def
  by (rule effect_cong [OF effect_seq [OF effect_seq [OF effect_validateConfig effect_fold [OF effect_check_schema]] effect_fold [OF effect_check_operation]]])
    (simp_all add: comparisons_def extra_targets_def conj_assoc)

lemma all_schemas: "(\<forall>s\<in>set (sortedKeys m). P s (the (map_of m s))) \<longleftrightarrow> (\<forall>s v. map_of m s = Some v \<longrightarrow> P s v)"
  unfolding Ball_def sortedKeys_iff has_key_def by (metis not_None_eq option.sel)

lemma check_silent_iff_in_sync: "check cfg spec src = [] \<longleftrightarrow> in_sync cfg spec src"
proof -
  let ?c = "checkOperations cfg spec src (checkSchemas cfg spec src (validateConfig cfg spec src new_checker))"
  have c: "ck_findings ?c = [] \<longleftrightarrow> config_fresh cfg spec src \<and>
      (\<forall>s\<in>set (sortedKeys (sp_Schemas spec)). schema_synced cfg src s (the (map_of (sp_Schemas spec) s))) \<and>
      (\<forall>operation\<in>set (sp_Operations spec). operation_synced cfg src operation)"
    "ck_docPairs ?c = map_of (rev (comparisons cfg spec src))" "ck_extraFields ?c = extra_targets cfg spec src"
    using effect_passes [of cfg spec src] by (simp_all add: effect_def new_checker_def)
  have "check cfg spec src = [] \<longleftrightarrow> ck_findings (check_all cfg spec src) = []"
    by (metis check_def set_empty set_sort)
  also have "\<dots> \<longleftrightarrow> ck_findings ?c = [] \<and> (\<forall>a\<in>set (cf_Accepted cfg). accepted_used (comparisons cfg spec src) (extra_targets cfg spec src) a)"
    unfolding check_all_def checkAccepted_def using checkAccepted_ok [OF c(2,3)] .
  finally show ?thesis using c(1) by (simp add: in_sync_def all_schemas)
qed

end
