(* ===== verification/Spec_Sync_Load.thy ===== *)
theory Spec_Sync_Load
  imports Spec_Sync
begin

text \<open>
  The command around the spec checker (\<open>src/internal/specsync\<close>, \<open>main.go\<close>, \<open>config.go\<close>, \<open>spec.go\<close>, \<open>gosrc.go\<close>): loading the
  configuration, the document and the Go declarations, the report and the exit status.  Files, the JSON decoder and the Go
  parser are parameters; what is collected from a syntax tree is modelled.
\<close>

section \<open>Loading the configuration and the document\<close>

datatype 'e load_error =
    ReadConfig string 'e
  | DecodeConfig string 'e
  | SpecEmpty string
  | GoPackageDirEmpty string
  | ReadSpec string 'e
  | DecodeSpec string 'e
  | DecodeOperation string string 'e
  | WalkPackage string 'e
  | ParseSource string 'e
  | Issues nat

definition loadConfig :: "(string \<Rightarrow> 'e + byte list) \<Rightarrow> (byte list \<Rightarrow> 'e + sync_Config) \<Rightarrow> string \<Rightarrow> 'e load_error + sync_Config" where
  "loadConfig readFile decode path = (case readFile path of
     Inl err \<Rightarrow> Inl (ReadConfig path err)
   | Inr data \<Rightarrow> (case decode data of
       Inl err \<Rightarrow> Inl (DecodeConfig path err)
     | Inr cfg \<Rightarrow>
         if cf_Spec cfg = '''' then Inl (SpecEmpty path)
         else if cf_GoPackageDir cfg = '''' then Inl (GoPackageDirEmpty path)
         else Inr cfg))"

record documentParameter =
  dpm_Name :: string
  dpm_In :: string
  dpm_Description :: string
  dpm_Schema :: SchemaNode

record operationDocument =
  od_OperationID :: string
  od_Parameters :: "documentParameter list"

text \<open>An operation is decoded after the document: until then it is a raw message.\<close>

record 'raw specDocument =
  sd_Schemas :: "SchemaNode go_map"
  sd_Paths :: "'raw go_map go_map"

definition isOperationMethod :: "string \<Rightarrow> bool" where
  "isOperationMethod verb \<longleftrightarrow>
     verb \<in> {''get'', ''post'', ''put'', ''patch'', ''delete'', ''head'', ''options'', ''trace''}"

definition operation_of :: "operationDocument \<Rightarrow> Operation" where
  "operation_of doc = \<lparr>op_ID = od_OperationID doc,
     op_Parameters = map (\<lambda>p. \<lparr>pm_Name = dpm_Name p, pm_In = dpm_In p, pm_Description = dpm_Description p,
       pm_Format = sn_Format (dpm_Schema p)\<rparr>) (od_Parameters doc)\<rparr>"

fun load_methods :: "('raw \<Rightarrow> 'e + operationDocument) \<Rightarrow> string \<Rightarrow> 'raw go_map \<Rightarrow> string list \<Rightarrow> Operation list \<Rightarrow>
    'e load_error + Operation list" where
  "load_methods decodeOp path methods [] ops = Inr ops"
| "load_methods decodeOp path methods (verb # names) ops =
     (if \<not> isOperationMethod verb then load_methods decodeOp path methods names ops
      else case decodeOp (the (map_of methods verb)) of
        Inl err \<Rightarrow> Inl (DecodeOperation verb path err)
      | Inr doc \<Rightarrow>
          if od_OperationID doc = '''' then load_methods decodeOp path methods names ops
          else load_methods decodeOp path methods names (ops @ [operation_of doc]))"

fun load_paths :: "('raw \<Rightarrow> 'e + operationDocument) \<Rightarrow> (string \<times> 'raw go_map) list \<Rightarrow> Operation list \<Rightarrow>
    'e load_error + Operation list" where
  "load_paths decodeOp [] ops = Inr ops"
| "load_paths decodeOp ((path, methods) # paths) ops =
     (case load_methods decodeOp path methods (sortedKeys methods) ops of
        Inl err \<Rightarrow> Inl err
      | Inr ops \<Rightarrow> load_paths decodeOp paths ops)"

definition loadSpec :: "(string \<Rightarrow> 'e + byte list) \<Rightarrow> (byte list \<Rightarrow> 'e + 'raw specDocument) \<Rightarrow> ('raw \<Rightarrow> 'e + operationDocument) \<Rightarrow>
    string \<Rightarrow> 'e load_error + Spec" where
  "loadSpec readFile decode decodeOp path = (case readFile path of
     Inl err \<Rightarrow> Inl (ReadSpec path err)
   | Inr data \<Rightarrow> (case decode data of
       Inl err \<Rightarrow> Inl (DecodeSpec path err)
     | Inr document \<Rightarrow> (case load_paths decodeOp (go_range (sd_Paths document)) [] of
         Inl err \<Rightarrow> Inl err
       | Inr ops \<Rightarrow> Inr \<lparr>sp_Schemas = sd_Schemas document, sp_Operations = sort_key op_ID ops\<rparr>)))"

section \<open>Collecting the Go declarations\<close>

text \<open>
  The syntax the checker looks at.  A basic literal says whether it is a string and carries its unquoted value, if
  \<open>strconv.Unquote\<close> has one; the tag of a field likewise carries the value of its \<open>json\<close> key.  Comments are their text.
\<close>

datatype expr =
    Ident string
  | StarExpr expr
  | SelectorExpr expr string
  | BasicLit (lit_string: bool) (lit_value: "string option")
  | StructType "ast_field list"
  | OtherExpr
and ast_field = AstField
  (af_Names: "string list")
  (af_Type: expr)
  (af_Tag: "string option option")
  (af_Doc: "string option")
  (af_Comment: "string option")
  (af_Pos: string)

datatype ast_spec =
    TypeSpec (ts_Name: string) (ts_Doc: "string option") (ts_Type: expr) (ts_Pos: string)
  | ValueSpec (vs_Names: "(string \<times> string) list") (vs_Type: "expr option") (vs_Values: "expr list")
  | ImportSpec

datatype decl_tok = TYPE_tok | CONST_tok | other_tok

datatype ast_decl =
    GenDecl decl_tok "string option" "ast_spec list"
  | FuncDecl

definition commentText :: "string option \<Rightarrow> string" where
  "commentText cg = (case cg of None \<Rightarrow> '''' | Some text \<Rightarrow> text)"

definition isTimeType :: "expr \<Rightarrow> bool" where
  "isTimeType expression =
     (let expression = (case expression of StarExpr e \<Rightarrow> e | e \<Rightarrow> e) in
      case expression of
        SelectorExpr pkg sel \<Rightarrow> sel = ''Time'' \<and> pkg = Ident ''time''
      | _ \<Rightarrow> False)"

definition addGoFields :: "ast_field \<Rightarrow> GoField go_map \<Rightarrow> GoField go_map" where
  "addGoFields field goFields =
     (if af_Tag field = None \<or> af_Names field = [] then goFields
      else case the (af_Tag field) of
        None \<Rightarrow> goFields
      | Some jsonTag \<Rightarrow>
          let name = takeWhile (\<lambda>c. c \<noteq> CHR '','') jsonTag in
          if name = '''' \<or> name = ''-'' then goFields
          else fold (\<lambda>fieldName goFields. AList.update name
              \<lparr>gf_Name = fieldName,
               gf_Doc = commentText (case af_Doc field of None \<Rightarrow> af_Comment field | Some doc \<Rightarrow> Some doc),
               gf_Pos = af_Pos field,
               gf_Time = isTimeType (af_Type field)\<rparr> goFields) (af_Names field) goFields)"

text \<open>A constant specification without values repeats the values, and without a type of its own the type, before it.\<close>

definition const_type :: "string \<Rightarrow> expr option \<Rightarrow> expr list \<Rightarrow> string" where
  "const_type inheritedType type values = (case type of
     Some (Ident name) \<Rightarrow> name
   | Some _ \<Rightarrow> ''''
   | None \<Rightarrow> if values \<noteq> [] then '''' else inheritedType)"

definition string_constants :: "string \<Rightarrow> (string \<times> string) list \<Rightarrow> expr list \<Rightarrow> GoConstant list" where
  "string_constants currentType names values =
     concat (map (\<lambda>((name, pos), value). case value of
         BasicLit True (Some v) \<Rightarrow> [\<lparr>gc_Name = name, gc_Value = v, gc_Type = currentType, gc_Pos = pos\<rparr>]
       | _ \<Rightarrow> []) (zip names values))"

fun parse_specs :: "string \<Rightarrow> expr list \<Rightarrow> ast_spec list \<Rightarrow> GoConstant list" where
  "parse_specs inheritedType inheritedValues [] = []"
| "parse_specs inheritedType inheritedValues (spec # specs) = (case spec of
     ValueSpec names type specValues \<Rightarrow>
       (let currentType = const_type inheritedType type specValues;
            values = (if specValues = [] then inheritedValues else specValues)
        in string_constants currentType names values @ parse_specs currentType values specs)
   | _ \<Rightarrow> parse_specs inheritedType inheritedValues specs)"

definition parseConstants :: "ast_spec list \<Rightarrow> GoConstant list" where
  "parseConstants specs = parse_specs '''' [] specs"

definition go_type :: "string option \<Rightarrow> ast_spec \<Rightarrow> GoType" where
  "go_type declDoc spec = \<lparr>gt_Name = ts_Name spec,
     gt_Doc = commentText (case ts_Doc spec of None \<Rightarrow> declDoc | Some doc \<Rightarrow> Some doc),
     gt_Pos = ts_Pos spec,
     gt_Fields = (case ts_Type spec of StructType goFields \<Rightarrow> fold addGoFields goFields [] | _ \<Rightarrow> [])\<rparr>"

definition add_declaration :: "ast_decl \<Rightarrow> GoSource \<Rightarrow> GoSource" where
  "add_declaration declaration source = (case declaration of
     GenDecl TYPE_tok doc specs \<Rightarrow>
       fold (\<lambda>spec source. case spec of
           TypeSpec _ _ _ _ \<Rightarrow> source\<lparr>gs_Types := AList.update (ts_Name spec) (go_type doc spec) (gs_Types source)\<rparr>
         | _ \<Rightarrow> source) specs source
   | GenDecl CONST_tok doc specs \<Rightarrow> source\<lparr>gs_Constants := gs_Constants source @ parseConstants specs\<rparr>
   | _ \<Rightarrow> source)"

text \<open>\<open>filepath.Ext(path) == ".go"\<close> is a suffix, since the extension is what follows the last dot of the last element.\<close>

definition source_path :: "string \<times> bool \<Rightarrow> bool" where
  "source_path entry = (case entry of (path, isDir) \<Rightarrow> \<not> isDir \<and> suffix ''.go'' path \<and> \<not> suffix ''_test.go'' path)"

fun load_files :: "(string \<Rightarrow> 'e + ast_decl list) \<Rightarrow> string list \<Rightarrow> GoSource \<Rightarrow> 'e load_error + GoSource" where
  "load_files parse [] source = Inr source"
| "load_files parse (path # paths) source = (case parse path of
     Inl err \<Rightarrow> Inl (ParseSource path err)
   | Inr decls \<Rightarrow> load_files parse paths (fold add_declaration decls source))"

definition loadGoSource :: "(string \<Rightarrow> 'e + (string \<times> bool) list) \<Rightarrow> (string \<Rightarrow> 'e + ast_decl list) \<Rightarrow> string \<Rightarrow>
    'e load_error + GoSource" where
  "loadGoSource walk parse dir = (case walk dir of
     Inl err \<Rightarrow> Inl (WalkPackage dir err)
   | Inr entries \<Rightarrow> load_files parse (map fst (filter source_path entries)) \<lparr>gs_Types = [], gs_Constants = []\<rparr>)"

section \<open>The report\<close>

definition finding_String :: "Finding \<Rightarrow> string" where
  "finding_String f = fd_Pos f @ '': '' @ fd_Kind f @ '' '' @ fd_Target f"

definition printSummary :: "Finding list \<Rightarrow> string" where
  "printSummary findings =
     (let kinds = sort (remdups (map fd_Kind findings)) in
      if kinds = [] then ''Summary: no findings.''
      else ''Summary: '' @
        join '', '' (map (\<lambda>kind. dec_nat (length (filter (\<lambda>f. fd_Kind f = kind) findings)) @ '' '' @ kind) kinds) @
        '' ('' @ dec_nat (length findings) @ '' total).'')"

definition finding_lines :: "Finding \<Rightarrow> string list" where
  "finding_lines f = [finding_String f] @ (if fd_Spec f \<noteq> '''' then [''  spec: '' @ fd_Spec f] else []) @
     (if fd_Go f \<noteq> '''' then [''  go: '' @ fd_Go f] else [])"

definition report :: "Finding list \<Rightarrow> string list" where
  "report findings = (case findings of [] \<Rightarrow> [] | f # fs \<Rightarrow> finding_lines f @ concat (map (\<lambda>f. '''' # finding_lines f) fs)) @
     [printSummary findings]"

text \<open>The outside world of the command.\<close>

record ('e, 'raw) sync_env =
  se_readFile :: "string \<Rightarrow> 'e + byte list"
  se_decodeConfig :: "byte list \<Rightarrow> 'e + sync_Config"
  se_decodeSpec :: "byte list \<Rightarrow> 'e + 'raw specDocument"
  se_decodeOperation :: "'raw \<Rightarrow> 'e + operationDocument"
  se_walk :: "string \<Rightarrow> 'e + (string \<times> bool) list"
  se_parse :: "string \<Rightarrow> 'e + ast_decl list"

text \<open>The lines printed and the error that decides the exit status.\<close>

definition run_specsync :: "('e, 'raw) sync_env \<Rightarrow> string \<Rightarrow> string list \<times> 'e load_error option" where
  "run_specsync env configPath = (case loadConfig (se_readFile env) (se_decodeConfig env) configPath of
     Inl err \<Rightarrow> ([], Some err)
   | Inr cfg \<Rightarrow> (case loadSpec (se_readFile env) (se_decodeSpec env) (se_decodeOperation env) (cf_Spec cfg) of
       Inl err \<Rightarrow> ([], Some err)
     | Inr spec \<Rightarrow> (case loadGoSource (se_walk env) (se_parse env) (cf_GoPackageDir cfg) of
         Inl err \<Rightarrow> ([], Some err)
       | Inr goSource \<Rightarrow>
           let findings = check cfg spec goSource
           in (report findings, if length findings > 0 then Some (Issues (length findings)) else None))))"

text \<open>The operations that were loaded are those of the document: each comes from a verb of a path, and none is lost.\<close>

definition operation_at :: "('raw \<Rightarrow> 'e + operationDocument) \<Rightarrow> 'raw specDocument \<Rightarrow> Operation \<Rightarrow> bool" where
  "operation_at decodeOp document operation \<longleftrightarrow>
     (\<exists>path methods verb raw doc. map_of (sd_Paths document) path = Some methods \<and> map_of methods verb = Some raw \<and>
        isOperationMethod verb \<and> decodeOp raw = Inr doc \<and> od_OperationID doc \<noteq> '''' \<and> operation = operation_of doc)"

definition documented :: "('raw \<Rightarrow> 'e + operationDocument) \<Rightarrow> 'raw go_map \<Rightarrow> string \<Rightarrow> Operation \<Rightarrow> bool" where
  "documented decodeOp methods verb operation \<longleftrightarrow> isOperationMethod verb \<and>
     (\<exists>doc. decodeOp (the (map_of methods verb)) = Inr doc \<and> od_OperationID doc \<noteq> '''' \<and> operation = operation_of doc)"

lemma documented_iff:
  "has_key methods verb \<and> documented decodeOp methods verb operation \<longleftrightarrow>
   (\<exists>raw doc. map_of methods verb = Some raw \<and> isOperationMethod verb \<and> decodeOp raw = Inr doc \<and>
      od_OperationID doc \<noteq> '''' \<and> operation = operation_of doc)"
  by (auto simp: documented_def has_key_def)

lemma load_methods_set:
  "load_methods decodeOp path methods names ops = Inr ops' \<Longrightarrow>
   set ops' = set ops \<union> {operation. \<exists>verb\<in>set names. documented decodeOp methods verb operation}"
proof (induction decodeOp path methods names ops rule: load_methods.induct)
  case (2 decodeOp path methods verb names ops)
  then show ?case by (auto simp: documented_def split: if_splits sum.splits)
qed simp

lemma load_paths_set:
  "load_paths decodeOp paths ops = Inr ops' \<Longrightarrow>
   set ops' = set ops \<union>
     {operation. \<exists>(path, methods)\<in>set paths. \<exists>verb\<in>set (sortedKeys methods). documented decodeOp methods verb operation}"
proof (induction decodeOp paths ops rule: load_paths.induct)
  case (2 decodeOp path methods paths ops)
  then show ?case by (auto split: sum.splits dest!: load_methods_set)
qed simp

lemma loadSpec_operations:
  assumes "loadSpec readFile decode decodeOp path = Inr spec" and "readFile path = Inr data" and "decode data = Inr document"
  shows "sp_Schemas spec = sd_Schemas document" and "operation \<in> set (sp_Operations spec) \<longleftrightarrow> operation_at decodeOp document operation"
proof -
  obtain ops where ops: "load_paths decodeOp (go_range (sd_Paths document)) [] = Inr ops"
      "spec = \<lparr>sp_Schemas = sd_Schemas document, sp_Operations = sort_key op_ID ops\<rparr>"
    using assms by (auto simp: loadSpec_def split: sum.splits)
  then show "sp_Schemas spec = sd_Schemas document" by simp
  have "operation \<in> set (sp_Operations spec) \<longleftrightarrow>
      (\<exists>(path, methods)\<in>set (go_range (sd_Paths document)). \<exists>verb\<in>set (sortedKeys methods). documented decodeOp methods verb operation)"
    using load_paths_set [OF ops(1)] ops(2) by simp
  also have "\<dots> \<longleftrightarrow> (\<exists>path methods verb. map_of (sd_Paths document) path = Some methods \<and> has_key methods verb \<and>
      documented decodeOp methods verb operation)"
    by (simp add: Bex_def split_paired_Ex go_range_iff sortedKeys_iff)
  also have "\<dots> \<longleftrightarrow> operation_at decodeOp document operation"
    unfolding operation_at_def documented_iff by blast
  finally show "operation \<in> set (sp_Operations spec) \<longleftrightarrow> operation_at decodeOp document operation" .
qed


text \<open>C38: The spec-sync command succeeds exactly when the configuration, the document and the Go package load and the SDK is in
sync with the document: every schema and every operation with query parameters is covered, the documentation and the enum values
agree up to the configured deviations, and the configuration has no stale entry.\<close>

theorem specsync_succeeds_iff_in_sync:
  "snd (run_specsync env configPath) = None \<longleftrightarrow>
   (\<exists>cfg spec src. loadConfig (se_readFile env) (se_decodeConfig env) configPath = Inr cfg \<and>
      loadSpec (se_readFile env) (se_decodeSpec env) (se_decodeOperation env) (cf_Spec cfg) = Inr spec \<and>
      loadGoSource (se_walk env) (se_parse env) (cf_GoPackageDir cfg) = Inr src \<and>
      in_sync cfg spec src)"
  by (auto simp: run_specsync_def Let_def check_silent_iff_in_sync [symmetric] split: sum.splits)

text \<open>The command on a small package: an object schema, an untyped enumeration and a query, in sync and after a value was added.\<close>

definition demo_field :: "string \<Rightarrow> string \<Rightarrow> string \<Rightarrow> ast_field" where
  "demo_field name tag doc = AstField [name] (StarExpr (SelectorExpr (Ident ''time'') ''Time'')) (Some (Some tag)) None (Some doc) ''t.go:3''"

definition demo_package :: "ast_decl list" where
  "demo_package =
     [GenDecl TYPE_tok None [TypeSpec ''Info'' (Some ''An  info.'') (StructType [demo_field ''At'' ''at,omitempty'' ''Creation time.'']) ''t.go:1''],
      GenDecl CONST_tok None [ValueSpec [(''ModeA'', ''t.go:8'')] None [BasicLit True (Some ''a'')]],
      GenDecl TYPE_tok (Some ''Args.'') [TypeSpec ''ListArgs'' None (StructType [demo_field ''Prefix'' ''prefix'' ''The prefix.'']) ''t.go:5'']]"

definition demo_document :: "string list \<Rightarrow> operationDocument specDocument" where
  "demo_document modes = \<lparr>
     sd_Schemas =
       [(''Mode'', SchemaNode '''' '''' [] [] [] [] modes),
        (''BasinInfo'', SchemaNode ''An [info](https://s2.dev).'' '''' [] []
           [] [SchemaNode '''' '''' [(''at'', SchemaNode ''Creation time in RFC 3339 format.'' ''date-time'' [] [] [] [] [])] [] [] [] []] [])],
     sd_Paths = [(''/basins'', [(''get'', \<lparr>od_OperationID = ''list'', od_Parameters =
       [\<lparr>dpm_Name = ''prefix'', dpm_In = ''query'', dpm_Description = ''The `prefix`.'', dpm_Schema = SchemaNode '''' '''' [] [] [] [] []\<rparr>]\<rparr>)])]\<rparr>"

definition demo_config :: sync_Config where
  "demo_config = \<lparr>cf_Spec = ''s'', cf_GoPackageDir = ''d'', cf_Renames = [(''BasinInfo'', ''Info'')], cf_Operations = [(''list'', ''ListArgs'')],
     cf_IgnoreOperations = [], cf_SkipTypes = [], cf_IgnoreSchemas = [], cf_UntypedEnums = [(''Mode'', ''Mode'')],
     cf_FormatPhrases = [(''date-time'', ['' in RFC 3339 format''])], cf_Accepted = []\<rparr>"

definition demo_sync_env :: "string list \<Rightarrow> (unit, operationDocument) sync_env" where
  "demo_sync_env modes = \<lparr>se_readFile = (\<lambda>_. Inr []), se_decodeConfig = (\<lambda>_. Inr demo_config), se_decodeSpec = (\<lambda>_. Inr (demo_document modes)),
     se_decodeOperation = Inr, se_walk = (\<lambda>_. Inr [(''t.go'', False), (''t_test.go'', False)]), se_parse = (\<lambda>_. Inr demo_package)\<rparr>"


lemma space_strings_code [code]:
  "space_strings = [[CHR 0x09], [CHR 0x0A], [CHR 0x0B], [CHR 0x0C], [CHR 0x0D], '' '', [CHR 0xC2, CHR 0x85], [CHR 0xC2, CHR 0xA0],
     [CHR 0xE1, CHR 0x9A, CHR 0x80], [CHR 0xE2, CHR 0x80, CHR 0x80], [CHR 0xE2, CHR 0x80, CHR 0x81], [CHR 0xE2, CHR 0x80, CHR 0x82],
     [CHR 0xE2, CHR 0x80, CHR 0x83], [CHR 0xE2, CHR 0x80, CHR 0x84], [CHR 0xE2, CHR 0x80, CHR 0x85], [CHR 0xE2, CHR 0x80, CHR 0x86],
     [CHR 0xE2, CHR 0x80, CHR 0x87], [CHR 0xE2, CHR 0x80, CHR 0x88], [CHR 0xE2, CHR 0x80, CHR 0x89], [CHR 0xE2, CHR 0x80, CHR 0x8A],
     [CHR 0xE2, CHR 0x80, CHR 0xA8], [CHR 0xE2, CHR 0x80, CHR 0xA9], [CHR 0xE2, CHR 0x80, CHR 0xAF], [CHR 0xE2, CHR 0x81, CHR 0x9F],
     [CHR 0xE3, CHR 0x80, CHR 0x80]]"
  by code_simp

lemma specsync_demo:
  "run_specsync (demo_sync_env [''a'']) ''c'' = ([''Summary: no findings.''], None)"
  "run_specsync (demo_sync_env [''a'', ''b'']) ''c'' =
     ([''t.go:8: enum Mode.b'', ''  spec: b'', ''Summary: 1 enum (1 total).''], Some (Issues 1))"
  by code_simp+

end
