(* ===== verification/Spec2Isabelle.thy ===== *)
theory Spec2Isabelle
  imports Framing Read_Session_Props Producer_Close Conn_Pool Bento_Listing Metrics Proxy Transport_Start Spec_Sync_Load
begin

text \<open>
  Verification of the S2 SDK for Go: the client library (\<open>src/s2\<close>), its framing (\<open>src/internal/framing\<close>), the
  plugin for stream processors (\<open>src/s2-bentobox\<close>) and the command that compares the SDK with the API
  document (\<open>src/internal/specsync\<close>).

  \<^bold>\<open>The program.\<close>  A client appends batches of records to a stream and reads them back.  Appends and
  reads travel over long-lived HTTP/2 streams as frames (\<open>internal/framing\<close>), single calls as JSON or
  protobuf requests (\<open>http.go\<close>).  An append session (\<open>append_session.go\<close>) queues batches,
  reserves in-flight capacity for them (\<open>capacity.go\<close>), writes them to a transport session
  (\<open>append.go\<close>), matches acknowledgements and retries after failures with the backoff and the policies
  of \<open>retry.go\<close>; a batcher (\<open>batcher.go\<close>) groups records into batches and a producer (\<open>producer.go\<close>)
  puts both behind a call per record.  A read session (\<open>read_session.go\<close>) consumes the batches a stream
  reader (\<open>read.go\<close>) delivers while it reconnects and resumes after the last record it delivered.
  Clients (\<open>client.go\<close>, \<open>config.go\<close>) are built from the environment and own the transports
  (\<open>connpool.go\<close>, \<open>proxy.go\<close>); listings are iterated page by page (\<open>iterator.go\<close>).

  \<^bold>\<open>Theories, foundations.\<close>
  \<^item> \<open>S2_Prelude\<close>: Go's integers, times and strings, and the generic lemmas.  \<open>Step_Systems\<close>: reachable
    states, invariants and monotone systems as locales.
  \<^item> \<open>Stream_Types\<close>, \<open>Errors\<close>: the data types and the error values of \<open>types.go\<close>, \<open>error.go\<close>,
    \<open>stream.go\<close>.
  \<^item> \<open>Framing\<close>: the frame parser with its buffer, the reader loop, the writer.  Frames written are read
    back whatever the chunks of the transport, truncation is detected.
  \<^item> \<open>Url_Encoding\<close>, \<open>Encryption\<close>, \<open>Http_Requests\<close>: query strings, path and header escaping, encryption
    keys, the unary requests of \<open>http.go\<close> and the calls built on them; what the server decodes is
    what the client asked for, and what the caller gets is what the server answered.

  \<^bold>\<open>Theories, appending.\<close>
  \<^item> \<open>Records\<close>: metering, validation, command records, conversion to and from the protobuf messages.
  \<^item> \<open>Capacity\<close>: the capacity tracker; the account never exceeds its limits and nobody waits for ever.
  \<^item> \<open>Retry\<close>: the retry loops of unary calls, backoff, network errors, advised reconnects, defaults.
  \<^item> \<open>Batcher\<close>: no record is lost or reordered, every batch respects the limits.
  \<^item> \<open>Transport\<close>: the transport append session; what is on the wire and what is delivered.
    \<open>Transport_Start\<close>: the request it is opened with.
  \<^item> \<open>Append_Session\<close>: the session's critical sections and handlers.  \<open>Append_Session_Inv\<close> interleaves
    them in the relation \<open>session_step\<close> and states the invariant, \<open>Append_Session_Steps\<close> proves it for
    every step, \<open>Append_Session_Runs\<close> shows the composed handlers to be runs, \<open>Append_Session_Demo\<close>
    holds a concrete run and \<open>Append_Session_Props\<close> the properties.
  \<^item> \<open>Producer\<close>, \<open>Producer_Permits\<close>: submission, the consumer of the batcher, the goroutines of the batches,
    barriers and closing; the release of permits.  \<open>Producer_Inv\<close>, \<open>Producer_Steps\<close>, \<open>Producer_Runs\<close>: their
    interleaving and its invariant, step by step.  \<open>Producer_Props\<close>: one result for each record, with the number
    its position in its batch has in the acknowledgement the session delivers, and flushes that cover what was
    submitted before them.  \<open>Producer_Close\<close>: every fair run of a closed producer comes to its end.

  \<^bold>\<open>Theories, reading.\<close>
  \<^item> \<open>Caught_Up\<close>: the tracker that tells whether a reader has reached the tail.
  \<^item> \<open>Read_Stream\<close>: the stream reader with its connection attempts, limits and reconnects.
    \<open>Read_Stream_Props\<close>: over any number of reconnects no record is skipped or repeated, the limits of
    the caller hold for the whole, and a session whose attempts bring nothing any more ends with every future
    settled.  It also shows what a start at the tail can miss.
  \<^item> \<open>Read_Session\<close>: the operations of a read session and the goroutine that feeds it, interleaved in
    \<open>read_step\<close>, with its invariant.  \<open>Read_Session_Props\<close>: what is returned is what was delivered,
    the position it reports separates, among the records that arrived, what was returned from what was not.

  \<^bold>\<open>Theories, clients and operations.\<close>
  \<^item> \<open>Names\<close>: the validators of names with the regular expression they use; \<open>Endpoints\<close>: endpoint templates,
    parsed and instantiated; \<open>Clients\<close>: the environment, client, basin and stream clients and their
    transports; \<open>Proxy\<close>: dialling through a proxy, with a log of what is opened and closed: no connection is leaked or used after
    a refusal.
  \<^item> \<open>Conn_Pool\<close>: the pool of HTTP/2 connections with the interleaving of its critical sections; the bound
    on streams of a connection and the fate of poisoned connections.
  \<^item> \<open>Json_Args\<close>: the JSON of arguments and configurations; a reconfiguration is a patch that means what its
    documentation says.
  \<^item> \<open>Pager\<close>: the iterator over pages (a \<open>partial_function (option)\<close> shown to return), over the locale
    \<open>page_source\<close> that basins, streams and access tokens interpret.  \<open>Account_Ops\<close>: the operations on
    them as retried requests, and the iteration down to the query a server decodes.  \<open>Metrics\<close>: the metric
    queries.

  \<^bold>\<open>Theories, plugin and checker.\<close>
  \<^item> \<open>Bento_Ack\<close>: the cache of positions and the tracking of acknowledgements (the ordered map is the
    interface \<open>ordered_map\<close>).  \<open>Bento_Input\<close>: an input with deliveries, its read loop over reconnects, and
    at-least-once delivery.  \<open>Bento_Streams\<close>: discovery, the manager of workers, the output;
    \<open>Bento_Listing\<close>: discovery by prefix over the network.
  \<^item> \<open>Spec_Sync\<close>: the passes of the checker; it reports nothing exactly when SDK and document agree, proved
    by composing the effects of the steps.  \<open>Spec_Sync_Load\<close>: the command around it.

  \<^bold>\<open>Conventions.\<close>  Pointers shared between goroutines are numbers into a heap (entries, transport
  sessions, connections).  Code outside the repository is a parameter: the compressors (\<open>codec\<close>), JSON and
  protobuf decoding, URL parsing, the random source, the clock, the results of network operations.  Loops are
  structural recursion, except the ack reader and the pager, each a \<open>partial_function (option)\<close> shown to
  return, and the retry loops, whose fuel is the number of attempts.  The step relation of the append session
  treats the delivery of a result and the release of its capacity as part of the critical section that takes
  the batch off the queue; in the code they follow the unlock.  What \<open>handleClaimedSessionError\<close> does after the claim (taking
  the failure off the pending count, deciding, marking uncertainty, scheduling the retry or failing everything) is
  one step, where the code takes the lock several times; the claim itself is a step of its own.  The channel of the
  batcher has no capacity, a send that waits is a step that happens later; the second select of a flush barrier
  always sends (a context that ends just before it is a flush followed by a barrier with a context that is done).
  The channel for rejected batches of the plugin has a positive capacity.  The select of a wait on the session
  (\<open>waitForBatchAck\<close>, \<open>waitForBatchSubmission\<close>) takes a result that is ready before the context's end.

  \<^bold>\<open>Not modelled.\<close>  Sockets and TLS, logging, finalizers, the generated protobuf code, the examples; the
  in-place change of a caller's \<open>http.Client\<close> by \<open>New\<close>; in the plugin the channels between the manager and its workers; in the checker the
  JSON decoder and the Go parser.
\<close>

end
